(* ===== verification/Rust_Prelude.thy ===== *)
theory Rust_Prelude
  imports Main "HOL-Library.Char_ord" "HOL-Library.List_Lexorder" "HOL-Library.Word"
    "HOL-Library.Signed_Division" "HOL-Library.Code_Target_Nat"
begin

text \<open>
  What the components share: the parts of Rust's standard library that the sources use.
  A Rust \<open>String\<close> is its UTF-8 byte sequence, a \<^typ>\<open>string\<close> (Isabelle characters are bytes), so
  \<open>len()\<close> is \<^const>\<open>length\<close> and byte order is \<open>List_Lexorder\<close>; code points come from
  \<open>chars\<close> below. \<open>Result<T, String>\<close> is a sum with the error on the left. \<open>BTreeMap\<close> is an
  association list sorted by key, because the sources rely on the iteration order.
  Integers: \<open>i64\<close> and \<open>i128\<close> are \<^typ>\<open>int\<close> with the width applied where a conversion truncates,
  \<open>u64\<close> counters are \<^typ>\<open>64 word\<close>.
\<close>

section \<open>Collections of rewrite rules\<close>

named_theorems rust_defs \<open>definitions of the standard-library functions, for evaluation\<close>
named_theorems bt_simps \<open>lookup laws of the ordered map\<close>

section \<open>Results\<close>

type_synonym 'a result = "string + 'a"

definition or_else :: "'a option \<Rightarrow> 'b \<Rightarrow> 'b + 'a" where
  "or_else x e = (case x of None \<Rightarrow> Inl e | Some v \<Rightarrow> Inr v)"

definition bind_res :: "'e + 'a \<Rightarrow> ('a \<Rightarrow> 'e + 'b) \<Rightarrow> 'e + 'b" where
  "bind_res r f = (case r of Inl e \<Rightarrow> Inl e | Inr v \<Rightarrow> f v)"

lemma bind_res_simps [simp]:
  "bind_res (Inl e) f = Inl e"
  "bind_res (Inr v) f = f v"
  by (simp_all add: bind_res_def)

lemma bind_res_Inr_iff: "bind_res r f = Inr w \<longleftrightarrow> (\<exists>v. r = Inr v \<and> f v = Inr w)"
  by (cases r) auto

text \<open>A validation loop over a collection: the first error stops it (\<open>?\<close> inside \<open>for\<close>).\<close>

fun try_all :: "('a \<Rightarrow> 'e + unit) \<Rightarrow> 'a list \<Rightarrow> 'e + unit" where
  "try_all f [] = Inr ()"
| "try_all f (x # xs) = (case f x of Inl e \<Rightarrow> Inl e | Inr _ \<Rightarrow> try_all f xs)"

lemma try_all_Inr_iff: "try_all f xs = Inr () \<longleftrightarrow> (\<forall>x \<in> set xs. f x = Inr ())"
  by (induction xs) (auto split: sum.splits)

section \<open>Strings\<close>

definition starts_with :: "string \<Rightarrow> string \<Rightarrow> bool" where
  [rust_defs]: "starts_with s p \<longleftrightarrow> take (length p) s = p"

definition ends_with :: "string \<Rightarrow> string \<Rightarrow> bool" where
  [rust_defs]: "ends_with s p \<longleftrightarrow> starts_with (rev s) (rev p)"

definition strip_prefix :: "string \<Rightarrow> string \<Rightarrow> string option" where
  [rust_defs]: "strip_prefix s p = (if starts_with s p then Some (drop (length p) s) else None)"

definition strip_suffix :: "string \<Rightarrow> string \<Rightarrow> string option" where
  [rust_defs]: "strip_suffix s p = (if ends_with s p then Some (take (length s - length p) s) else None)"

lemma starts_with_append [simp]: "starts_with (p @ s) p"
  by (simp add: starts_with_def)

lemma starts_with_iff: "starts_with s p \<longleftrightarrow> (\<exists>r. s = p @ r)"
  by (metis append_eq_conv_conj append_take_drop_id starts_with_def)

lemma ends_with_iff: "ends_with s p \<longleftrightarrow> (\<exists>r. s = r @ p)"
  by (metis ends_with_def rev_append rev_rev_ident starts_with_iff)

lemma strip_suffix_Some: "strip_suffix s p = Some r \<longleftrightarrow> s = r @ p"
  by (auto simp: strip_suffix_def ends_with_iff)

lemma strip_suffix_append [simp]: "strip_suffix (r @ p) p = Some r"
  by (simp add: strip_suffix_Some)

text \<open>\<open>str::find\<close> of a substring, \<open>str::contains\<close>.\<close>

fun find_sub :: "string \<Rightarrow> string \<Rightarrow> nat option" where
  "find_sub [] p = (if p = [] then Some 0 else None)"
| "find_sub (c # s) p = (if starts_with (c # s) p then Some 0 else map_option Suc (find_sub s p))"

definition contains_sub :: "string \<Rightarrow> string \<Rightarrow> bool" where
  [rust_defs]: "contains_sub s p \<longleftrightarrow> find_sub s p \<noteq> None"

lemma contains_sub_iff: "contains_sub s p \<longleftrightarrow> (\<exists>a b. s = a @ p @ b)"
proof (induction s)
  case Nil
  then show ?case by (simp add: contains_sub_def)
next
  case (Cons c s)
  show ?case
  proof
    assume h: "contains_sub (c # s) p"
    show "\<exists>a b. c # s = a @ p @ b"
    proof (cases "starts_with (c # s) p")
      case True
      then obtain r where "c # s = p @ r" by (auto simp: starts_with_iff)
      then show ?thesis by (intro exI[of _ "[]"] exI[of _ r]) simp
    next
      case False
      with h have "contains_sub s p" by (simp add: contains_sub_def)
      with Cons.IH obtain a b where "s = a @ p @ b" by blast
      then show ?thesis by (intro exI[of _ "c # a"] exI[of _ b]) simp
    qed
  next
    assume "\<exists>a b. c # s = a @ p @ b"
    then obtain a b where ab: "c # s = a @ p @ b" by blast
    show "contains_sub (c # s) p"
    proof (cases a)
      case Nil
      with ab have "starts_with (c # s) p" by (simp add: starts_with_iff)
      then show ?thesis by (simp add: contains_sub_def)
    next
      case (Cons d a')
      with ab have "s = a' @ p @ b" by simp
      with Cons.IH have "contains_sub s p" by blast
      then show ?thesis by (simp add: contains_sub_def)
    qed
  qed
qed

text \<open>\<open>str::split\<close> on a predicate over ASCII characters, \<open>split_once\<close>, \<open>rsplit_once\<close>.\<close>

fun split_on :: "(char \<Rightarrow> bool) \<Rightarrow> string \<Rightarrow> string list" where
  "split_on p [] = [[]]"
| "split_on p (c # s) =
     (if p c then [] # split_on p s
      else (case split_on p s of [] \<Rightarrow> [[c]] | w # ws \<Rightarrow> (c # w) # ws))"

definition split_once :: "char \<Rightarrow> string \<Rightarrow> (string \<times> string) option" where
  [rust_defs]: "split_once c s =
     (if c \<in> set s then Some (takeWhile (\<lambda>x. x \<noteq> c) s, tl (dropWhile (\<lambda>x. x \<noteq> c) s)) else None)"

definition rsplit_once :: "char \<Rightarrow> string \<Rightarrow> (string \<times> string) option" where
  [rust_defs]: "rsplit_once c s =
     (case split_once c (rev s) of None \<Rightarrow> None | Some (a, b) \<Rightarrow> Some (rev b, rev a))"

lemma split_on_ne [simp]: "split_on p s \<noteq> []"
  by (induction s) (auto split: list.splits)

lemma split_on_none: "(\<And>c. c \<in> set s \<Longrightarrow> \<not> p c) \<Longrightarrow> split_on p s = [s]"
  by (induction s) auto

lemma split_on_append:
  "(\<And>c. c \<in> set a \<Longrightarrow> \<not> p c) \<Longrightarrow> p x \<Longrightarrow> split_on p (a @ x # s) = a # split_on p s"
  by (induction a) auto

lemma takeWhile_neq_append:
  "c \<notin> set a \<Longrightarrow> takeWhile (\<lambda>x. x \<noteq> c) (a @ c # s) = a"
  "c \<notin> set a \<Longrightarrow> dropWhile (\<lambda>x. x \<noteq> c) (a @ c # s) = c # s"
  by (induction a) auto

lemma split_once_append: "c \<notin> set a \<Longrightarrow> split_once c (a @ c # s) = Some (a, s)"
  by (simp add: split_once_def takeWhile_neq_append)

lemma split_once_None: "split_once c s = None \<longleftrightarrow> c \<notin> set s"
  by (simp add: split_once_def)

lemma split_once_Some_iff: "split_once c s = Some (a, b) \<longleftrightarrow> s = a @ c # b \<and> c \<notin> set a"
proof
  assume h: "split_once c s = Some (a, b)"
  then have "c \<in> set s" by (metis option.distinct(1) split_once_None)
  then obtain u v where "s = u @ c # v" "c \<notin> set u" by (meson split_list_first)
  with h show "s = a @ c # b \<and> c \<notin> set a" by (simp add: split_once_append)
qed (auto simp: split_once_append)

lemma rsplit_once_None: "rsplit_once c s = None \<longleftrightarrow> c \<notin> set s"
  using split_once_None[of c "rev s"] by (auto simp: rsplit_once_def split: option.splits)

lemma rsplit_once_append: "c \<notin> set b \<Longrightarrow> rsplit_once c (a @ c # b) = Some (a, b)"
  by (simp add: rsplit_once_def split_once_append)

text \<open>ASCII classes and case, as \<open>u8\<close> and \<open>char\<close> provide them.\<close>

definition ascii :: "char \<Rightarrow> nat" where
  [rust_defs]: "ascii c = of_char c"

definition is_ascii_digit :: "char \<Rightarrow> bool" where
  [rust_defs]: "is_ascii_digit c \<longleftrightarrow> 48 \<le> ascii c \<and> ascii c \<le> 57"

definition is_ascii_uppercase :: "char \<Rightarrow> bool" where
  [rust_defs]: "is_ascii_uppercase c \<longleftrightarrow> 65 \<le> ascii c \<and> ascii c \<le> 90"

definition is_ascii_lowercase :: "char \<Rightarrow> bool" where
  [rust_defs]: "is_ascii_lowercase c \<longleftrightarrow> 97 \<le> ascii c \<and> ascii c \<le> 122"

definition is_ascii_alphanumeric :: "char \<Rightarrow> bool" where
  [rust_defs]: "is_ascii_alphanumeric c \<longleftrightarrow>
     is_ascii_digit c \<or> is_ascii_uppercase c \<or> is_ascii_lowercase c"

definition ascii_lower :: "char \<Rightarrow> char" where
  [rust_defs]: "ascii_lower c = (if is_ascii_uppercase c then char_of (ascii c + 32) else c)"

definition to_ascii_lowercase :: "string \<Rightarrow> string" where
  [rust_defs]: "to_ascii_lowercase s = map ascii_lower s"

definition eq_ignore_ascii_case :: "string \<Rightarrow> string \<Rightarrow> bool" where
  [rust_defs]: "eq_ignore_ascii_case a b \<longleftrightarrow> to_ascii_lowercase a = to_ascii_lowercase b"

text \<open>
  \<open>str::trim\<close> removes Unicode white space. The 25 white-space code points are listed as their
  UTF-8 encodings; UTF-8 is self-synchronising, so matching encodings at either end of a valid
  string matches whole code points.
\<close>

definition white_space :: "string list" where
  [rust_defs]: "white_space =
     [[CHR 0x09], [CHR 0x0A], [CHR 0x0B], [CHR 0x0C], [CHR 0x0D], [CHR 0x20],
      [CHR 0xC2, CHR 0x85], [CHR 0xC2, CHR 0xA0], [CHR 0xE1, CHR 0x9A, CHR 0x80],
      [CHR 0xE2, CHR 0x80, CHR 0x80], [CHR 0xE2, CHR 0x80, CHR 0x81], [CHR 0xE2, CHR 0x80, CHR 0x82],
      [CHR 0xE2, CHR 0x80, CHR 0x83], [CHR 0xE2, CHR 0x80, CHR 0x84], [CHR 0xE2, CHR 0x80, CHR 0x85],
      [CHR 0xE2, CHR 0x80, CHR 0x86], [CHR 0xE2, CHR 0x80, CHR 0x87], [CHR 0xE2, CHR 0x80, CHR 0x88],
      [CHR 0xE2, CHR 0x80, CHR 0x89], [CHR 0xE2, CHR 0x80, CHR 0x8A], [CHR 0xE2, CHR 0x80, CHR 0xA8],
      [CHR 0xE2, CHR 0x80, CHR 0xA9], [CHR 0xE2, CHR 0x80, CHR 0xAF], [CHR 0xE2, CHR 0x81, CHR 0x9F],
      [CHR 0xE3, CHR 0x80, CHR 0x80]]"

definition white_len :: "string list \<Rightarrow> string \<Rightarrow> nat" where
  [rust_defs]: "white_len ws s =
     (case find (starts_with s) ws of None \<Rightarrow> 0 | Some w \<Rightarrow> length w)"

lemma white_len_le: "white_len ws s \<le> length s"
  by (auto simp: white_len_def starts_with_iff find_Some_iff split: option.splits)

function trim_by :: "string list \<Rightarrow> string \<Rightarrow> string" where
  "trim_by ws s = (if white_len ws s = 0 then s else trim_by ws (drop (white_len ws s) s))"
  by pat_completeness auto
termination
proof (relation "measure (\<lambda>(ws, s). length s)", goal_cases)
  case (2 ws s)
  then show ?case using white_len_le[of ws s] by auto
qed simp

declare trim_by.simps [simp del]

definition trim :: "string \<Rightarrow> string" where
  [rust_defs]: "trim s = rev (trim_by (map rev white_space) (rev (trim_by white_space s)))"

text \<open>\<open>trim_matches\<close>, \<open>trim_start_matches\<close>, \<open>trim_end_matches\<close> of one character.\<close>

definition trim_start_matches :: "char \<Rightarrow> string \<Rightarrow> string" where
  [rust_defs]: "trim_start_matches c s = dropWhile (\<lambda>x. x = c) s"

definition trim_end_matches :: "char \<Rightarrow> string \<Rightarrow> string" where
  [rust_defs]: "trim_end_matches c s = rev (dropWhile (\<lambda>x. x = c) (rev s))"

definition trim_matches :: "char \<Rightarrow> string \<Rightarrow> string" where
  [rust_defs]: "trim_matches c s = trim_end_matches c (trim_start_matches c s)"

text \<open>
  \<open>str::chars\<close>: the code points of a UTF-8 string. A Rust string is always valid UTF-8; the model is
  total, and a byte that starts no valid sequence (shortest form only) stands for U+FFFD.
\<close>

definition continuation :: "char \<Rightarrow> bool" where
  "continuation c \<longleftrightarrow> 0x80 \<le> ascii c \<and> ascii c \<le> 0xBF"

definition code_point :: "nat \<Rightarrow> string \<Rightarrow> nat" where
  "code_point lead cs = foldl (\<lambda>a c. 64 * a + (ascii c - 0x80)) lead cs"

definition multi_byte :: "nat \<Rightarrow> nat \<Rightarrow> nat \<Rightarrow> string \<Rightarrow> (nat \<times> nat) option" where
  "multi_byte lead n least s =
     (let cs = take n s; cp = code_point lead cs
      in if length cs = n \<and> list_all continuation cs \<and> least \<le> cp then Some (cp, n) else None)"

definition decode_multi :: "char \<Rightarrow> string \<Rightarrow> (nat \<times> nat) option" where
  "decode_multi a s =
     (if 0xC0 \<le> ascii a \<and> ascii a \<le> 0xDF then multi_byte (ascii a - 0xC0) 1 0x80 s
      else if 0xE0 \<le> ascii a \<and> ascii a \<le> 0xEF then multi_byte (ascii a - 0xE0) 2 0x800 s
      else if 0xF0 \<le> ascii a \<and> ascii a \<le> 0xF7 then multi_byte (ascii a - 0xF0) 3 0x10000 s
      else None)"

fun chars :: "string \<Rightarrow> nat list" where
  "chars [] = []"
| "chars (a # s) =
     (if ascii a < 0x80 then ascii a # chars s
      else case decode_multi a s of
             Some (cp, n) \<Rightarrow> cp # chars (drop n s)
           | None \<Rightarrow> 0xFFFD # chars s)"

lemma decode_multi_ge: "decode_multi a s = Some (cp, n) \<Longrightarrow> 0x80 \<le> cp"
  by (auto simp: decode_multi_def multi_byte_def Let_def split: if_splits)

lemma chars_ascii: "(\<And>c. c \<in> set s \<Longrightarrow> ascii c < 0x80) \<Longrightarrow> chars s = map ascii s"
  by (induction s) auto

lemma chars_small: "list_all (\<lambda>c. c < 0x80) (chars s) \<Longrightarrow> chars s = map ascii s"
proof (induction s rule: chars.induct)
  case (2 a s)
  show ?case
  proof (cases "ascii a < 0x80")
    case True
    with 2 show ?thesis by simp
  next
    case False
    with "2.prems" show ?thesis
      by (auto split: option.splits dest: decode_multi_ge)
  qed
qed simp

lemma chars_append_ascii: "list_all (\<lambda>c. ascii c < 0x80) s \<Longrightarrow> chars (s @ t) = map ascii s @ chars t"
  by (induction s) auto

section \<open>Integers and their decimal and hexadecimal forms\<close>

text \<open>The bounds are written as numerals, the form the simplifier evaluates powers to.\<close>

abbreviation i64_min :: int where "i64_min \<equiv> - 9223372036854775808"
abbreviation i64_max :: int where "i64_max \<equiv> 9223372036854775807"
abbreviation i128_min :: int where "i128_min \<equiv> - 170141183460469231731687303715884105728"
abbreviation i128_max :: int where "i128_max \<equiv> 170141183460469231731687303715884105727"

text \<open>\<open>x as iN\<close> between signed integers, and wrapping arithmetic: reduction modulo \<open>2 ^ w\<close>.\<close>

definition wrap_s :: "nat \<Rightarrow> int \<Rightarrow> int" where
  [rust_defs]: "wrap_s w x = (x + 2 ^ (w - 1)) mod 2 ^ w - 2 ^ (w - 1)"

lemma wrap_s_id: "0 < w \<Longrightarrow> - (2 ^ (w - 1)) \<le> x \<Longrightarrow> x < 2 ^ (w - 1) \<Longrightarrow> wrap_s w x = x"
  by (cases w) (simp_all add: wrap_s_def)

lemma wrap_s64_id [simp]: "i64_min \<le> x \<Longrightarrow> x \<le> i64_max \<Longrightarrow> wrap_s 64 x = x"
  by (rule wrap_s_id) simp_all

lemma wrap_s128_id [simp]: "i128_min \<le> x \<Longrightarrow> x \<le> i128_max \<Longrightarrow> wrap_s 128 x = x"
  by (rule wrap_s_id) simp_all

definition digit_char :: "nat \<Rightarrow> char" where
  [rust_defs]: "digit_char d = (if d < 10 then char_of (48 + d) else char_of (87 + d))"

fun to_radix :: "nat \<Rightarrow> nat \<Rightarrow> string" where
  "to_radix b n = (if n < b \<or> b < 2 then [digit_char n] else to_radix b (n div b) @ [digit_char (n mod b)])"

declare to_radix.simps [simp del]

abbreviation dec :: "nat \<Rightarrow> string" where "dec n \<equiv> to_radix 10 n"
abbreviation hex :: "nat \<Rightarrow> string" where "hex n \<equiv> to_radix 16 n"

definition int_to_string :: "int \<Rightarrow> string" where
  [rust_defs]: "int_to_string n = (if n < 0 then CHR ''-'' # dec (nat (- n)) else dec (nat n))"

text \<open>\<open>{:0w}\<close>: the sign counts towards the width.\<close>

definition zero_pad :: "nat \<Rightarrow> string \<Rightarrow> string" where
  [rust_defs]: "zero_pad w s = replicate (w - length s) (CHR ''0'') @ s"

definition pad_int :: "nat \<Rightarrow> int \<Rightarrow> string" where
  [rust_defs]: "pad_int w n =
     (if n < 0 then CHR ''-'' # zero_pad (w - 1) (dec (nat (- n))) else zero_pad w (dec (nat n)))"

definition digit_val :: "char \<Rightarrow> nat" where
  [rust_defs]: "digit_val c = ascii c - 48"

definition from_digits :: "string \<Rightarrow> nat" where
  [rust_defs]: "from_digits s = foldl (\<lambda>a c. 10 * a + digit_val c) 0 s"

text \<open>\<open>str::parse\<close> for integers: one optional sign, at least one digit, in range.\<close>

definition split_sign :: "string \<Rightarrow> bool \<times> string" where
  [rust_defs]: "split_sign s =
     (case s of [] \<Rightarrow> (False, [])
      | c # r \<Rightarrow> if c = CHR ''-'' then (True, r) else if c = CHR ''+'' then (False, r) else (False, s))"

definition parse_signed :: "int \<Rightarrow> int \<Rightarrow> string \<Rightarrow> int option" where
  [rust_defs]: "parse_signed lo hi s =
     (let (neg, ds) = split_sign s;
          v = (if neg then - int (from_digits ds) else int (from_digits ds))
      in if ds = [] \<or> \<not> list_all is_ascii_digit ds then None
         else if lo \<le> v \<and> v \<le> hi then Some v else None)"

abbreviation parse_i64 :: "string \<Rightarrow> int option" where
  "parse_i64 \<equiv> parse_signed i64_min i64_max"

abbreviation parse_i128 :: "string \<Rightarrow> int option" where
  "parse_i128 \<equiv> parse_signed i128_min i128_max"

definition parse_u64 :: "string \<Rightarrow> nat option" where
  [rust_defs]: "parse_u64 s =
     (let (neg, ds) = split_sign s
      in if neg \<or> ds = [] \<or> \<not> list_all is_ascii_digit ds then None
         else if from_digits ds < 2 ^ 64 then Some (from_digits ds) else None)"

lemma ascii_digit_char [simp]: "d < 10 \<Longrightarrow> ascii (digit_char d) = 48 + d"
  by (simp add: ascii_def digit_char_def)

lemma is_ascii_digit_digit_char [simp]: "d < 10 \<Longrightarrow> is_ascii_digit (digit_char d)"
  by (simp add: is_ascii_digit_def)

lemma digit_val_digit_char [simp]: "d < 10 \<Longrightarrow> digit_val (digit_char d) = d"
  by (simp add: digit_val_def)

lemma from_digits_snoc [simp]: "from_digits (s @ [c]) = 10 * from_digits s + digit_val c"
  by (simp add: from_digits_def)

lemma from_digits_Nil [simp]: "from_digits [] = 0"
  by (simp add: from_digits_def)

lemma to_radix_ne [simp]: "to_radix b n \<noteq> []" "[] \<noteq> to_radix b n"
  by (subst to_radix.simps, simp)+

lemma from_digits_dec [simp]: "from_digits (dec n) = n"
proof (induction n rule: less_induct)
  case (less n)
  show ?case
  proof (cases "n < 10")
    case True
    then have "dec n = [] @ [digit_char n]" by (subst to_radix.simps) simp
    then show ?thesis using True by (simp only: from_digits_snoc) simp
  next
    case False
    then have "dec n = dec (n div 10) @ [digit_char (n mod 10)]" by (subst to_radix.simps) simp
    with less[of "n div 10"] False show ?thesis by simp
  qed
qed

lemma list_all_digit_dec [simp]: "list_all is_ascii_digit (dec n)"
proof (induction n rule: less_induct)
  case (less n)
  show ?case
  proof (cases "n < 10")
    case True
    then show ?thesis by (subst to_radix.simps) simp
  next
    case False
    with less[of "n div 10"] show ?thesis by (subst to_radix.simps) simp
  qed
qed

lemma dec_inj [simp]: "dec m = dec n \<longleftrightarrow> m = n"
  by (metis from_digits_dec)

lemma digit_char_16_inj: "a < 16 \<Longrightarrow> b < 16 \<Longrightarrow> digit_char a = digit_char b \<longleftrightarrow> a = b"
  unfolding digit_char_def
  by (auto simp: char_of_eq_iff take_bit_eq_mod)

lemma hex_inj [simp]: "hex m = hex n \<longleftrightarrow> m = n"
proof
  show "hex m = hex n \<Longrightarrow> m = n"
  proof (induction m arbitrary: n rule: less_induct)
    case (less m)
    have um: "hex m = (if m < 16 then [digit_char m] else hex (m div 16) @ [digit_char (m mod 16)])"
      and un: "hex n = (if n < 16 then [digit_char n] else hex (n div 16) @ [digit_char (n mod 16)])"
      by (subst to_radix.simps, simp)+
    show ?case
    proof (cases "m < 16 \<or> n < 16")
      case True
      with less.prems um un show ?thesis by (auto simp: digit_char_16_inj split: if_splits)
    next
      case False
      with less.prems um un have "hex (m div 16) = hex (n div 16)" and "m mod 16 = n mod 16"
        by (auto simp: digit_char_16_inj)
      with less.IH[of "m div 16" "n div 16"] False have "m div 16 = n div 16" by simp
      with \<open>m mod 16 = n mod 16\<close> show ?thesis by (metis div_mod_decomp)
    qed
  qed
qed simp

lemma length_hex: "16 ^ k \<le> n \<Longrightarrow> n < 16 ^ Suc k \<Longrightarrow> length (hex n) = Suc k"
proof (induction k arbitrary: n)
  case 0
  then show ?case by (subst to_radix.simps) simp
next
  case (Suc k)
  have ge: "16 \<le> n" using Suc.prems(1) by (metis le_trans power_increasing power_one_right
        Suc_le_mono le0 one_le_numeral One_nat_def)
  have "16 ^ k \<le> n div 16" "n div 16 < 16 ^ Suc k" using Suc.prems by auto
  with Suc.IH have "length (hex (n div 16)) = Suc k" by blast
  with ge show ?case by (subst to_radix.simps) simp
qed

lemma from_digits_zero_pad [simp]: "from_digits (zero_pad w s) = from_digits s"
proof -
  have "foldl (\<lambda>a c. 10 * a + digit_val c) 0 (replicate k (CHR ''0'')) = 0" for k
    by (induction k) (simp_all add: digit_val_def ascii_def)
  then show ?thesis by (simp add: zero_pad_def from_digits_def)
qed

lemma zero_pad_ne [simp]: "zero_pad w s = [] \<longleftrightarrow> w = 0 \<and> s = []"
  by (auto simp: zero_pad_def)

lemma list_all_digit_zero_pad [simp]:
  "list_all is_ascii_digit s \<Longrightarrow> list_all is_ascii_digit (zero_pad w s)"
  by (auto simp: zero_pad_def list_all_iff is_ascii_digit_def ascii_def)

lemma split_sign_digits: "list_all is_ascii_digit s \<Longrightarrow> split_sign s = (False, s)"
  by (cases s) (auto simp: split_sign_def is_ascii_digit_def ascii_def)

lemma parse_signed_digits:
  "list_all is_ascii_digit s \<Longrightarrow> s \<noteq> [] \<Longrightarrow> lo \<le> 0 \<Longrightarrow> int (from_digits s) \<le> hi \<Longrightarrow>
   parse_signed lo hi s = Some (int (from_digits s))"
  by (simp add: parse_signed_def split_sign_digits)

lemma parse_i64_int_to_string:
  assumes "i64_min \<le> n" "n \<le> i64_max"
  shows "parse_i64 (int_to_string n) = Some n"
proof (cases "n < 0")
  case True
  with assms show ?thesis
    by (simp add: parse_signed_def split_sign_def int_to_string_def)
next
  case False
  with assms show ?thesis by (simp add: int_to_string_def parse_signed_digits)
qed

lemma find_SomeD: "find P xs = Some x \<Longrightarrow> x \<in> set xs \<and> P x"
  by (induction xs) (auto split: if_splits)

section \<open>Words and white space\<close>

text \<open>\<open>split_whitespace\<close>, \<open>join\<close> with a space, and \<open>to_uppercase\<close> of ASCII text.\<close>

definition flush :: "string \<Rightarrow> string list" where
  [rust_defs]: "flush w = (if w = [] then [] else [w])"

function split_ws :: "string \<Rightarrow> string \<Rightarrow> string list" where
  "split_ws w [] = flush w"
| "split_ws w (c # s) =
     (if white_len white_space (c # s) = 0 then split_ws (w @ [c]) s
      else flush w @ split_ws [] (drop (white_len white_space (c # s)) (c # s)))"
  by pat_completeness auto
termination
proof (relation "measure (\<lambda>(w, s). length s)", goal_cases)
  case (3 w c s)
  then show ?case by simp
qed simp_all

declare split_ws.simps [simp del]

definition split_whitespace :: "string \<Rightarrow> string list" where
  [rust_defs]: "split_whitespace s = split_ws [] s"

fun join :: "string \<Rightarrow> string list \<Rightarrow> string" where
  "join sep [] = []"
| "join sep [w] = w"
| "join sep (w # ws) = w @ sep @ join sep ws"

definition ascii_upper :: "char \<Rightarrow> char" where
  [rust_defs]: "ascii_upper c = (if is_ascii_lowercase c then char_of (ascii c - 32) else c)"

definition to_ascii_uppercase :: "string \<Rightarrow> string" where
  [rust_defs]: "to_ascii_uppercase s = map ascii_upper s"

text \<open>The two halves around the first occurrence of a separator.\<close>

definition cut :: "string \<Rightarrow> string \<Rightarrow> (string \<times> string) option" where
  [rust_defs]: "cut s sep = map_option (\<lambda>i. (take i s, drop (i + length sep) s)) (find_sub s sep)"

lemma white_len_0: "(\<And>w. w \<in> set ws \<Longrightarrow> \<not> starts_with s w) \<Longrightarrow> white_len ws s = 0"
  by (auto simp: white_len_def dest: find_SomeD split: option.splits)

definition visible :: "char \<Rightarrow> bool" where
  "visible c \<longleftrightarrow> 33 \<le> ascii c \<and> ascii c < 128"

lemma white_space_ends: "w \<in> set white_space \<Longrightarrow> w \<noteq> [] \<and> \<not> visible (hd w) \<and> \<not> visible (last w)"
  by (auto simp: white_space_def visible_def ascii_def)

lemma starts_with_hd: "starts_with s w \<Longrightarrow> w \<noteq> [] \<Longrightarrow> s \<noteq> [] \<and> hd s = hd w"
  by (auto simp: starts_with_iff)

lemma trim_by_id: "(\<And>w. w \<in> set ws \<Longrightarrow> w \<noteq> [] \<and> hd w \<noteq> hd s) \<Longrightarrow> trim_by ws s = s"
  using white_len_0[of ws s] starts_with_hd[of s] by (subst trim_by.simps) metis

lemma trim_visible:
  assumes "s \<noteq> []" "visible (hd s)" "visible (last s)"
  shows "trim s = s"
proof -
  have "trim_by white_space s = s" using assms white_space_ends by (intro trim_by_id) fastforce
  moreover have "trim_by (map rev white_space) (rev s) = rev s"
    using assms white_space_ends by (intro trim_by_id) (fastforce simp: hd_rev)
  ultimately show ?thesis by (simp add: trim_def)
qed

lemma find_sub_char: "c \<notin> set u \<Longrightarrow> find_sub (u @ c # v) [c] = Some (length u)"
  by (induction u) (auto simp: starts_with_def)

lemma white_len_visible: "visible c \<Longrightarrow> white_len white_space (c # s) = 0"
  using white_space_ends starts_with_hd by (intro white_len_0) fastforce

lemma split_ws_word: "list_all visible w \<Longrightarrow> split_ws v (w @ s) = split_ws (v @ w) s"
  by (induction w arbitrary: v) (simp_all add: split_ws.simps white_len_visible)

lemma white_len_blank: "white_len white_space (CHR '' '' # s) = 1"
  by (simp add: white_len_def white_space_def starts_with_def)

lemma split_ws_blank: "split_ws w (CHR '' '' # s) = flush w @ split_ws [] s"
  by (simp add: split_ws.simps white_len_blank)

abbreviation word_list :: "string list \<Rightarrow> bool" where
  "word_list ws \<equiv> list_all (\<lambda>w. w \<noteq> [] \<and> list_all visible w) ws"

lemma split_whitespace_join: "word_list ws \<Longrightarrow> split_whitespace (join '' '' ws) = ws"
proof (induction "'' ''" ws rule: join.induct)
  case (2 w)
  then show ?case using split_ws_word[of w "[]" "[]"] by (simp add: split_whitespace_def split_ws.simps flush_def)
next
  case (3 w v ws)
  then show ?case using split_ws_word[of w "[]"] by (simp add: split_whitespace_def split_ws_blank flush_def)
qed (simp add: split_whitespace_def split_ws.simps flush_def)

lemma join_append: "ws \<noteq> [] \<Longrightarrow> vs \<noteq> [] \<Longrightarrow> join sep (ws @ vs) = join sep ws @ sep @ join sep vs"
proof (induction sep ws rule: join.induct)
  case (2 sep w)
  then show ?case by (cases vs) auto
qed auto

lemma join_eq_Nil: "word_list ws \<Longrightarrow> join sep ws = [] \<longleftrightarrow> ws = []"
  by (induction sep ws rule: join.induct) auto

lemma hd_join: "word_list ws \<Longrightarrow> ws \<noteq> [] \<Longrightarrow> hd (join sep ws) = hd (hd ws)"
  by (induction sep ws rule: join.induct) auto

lemma last_join: "word_list ws \<Longrightarrow> ws \<noteq> [] \<Longrightarrow> last (join sep ws) = last (last ws)"
  by (induction sep ws rule: join.induct) (auto simp: join_eq_Nil)

lemma list_all_last: "list_all P w \<Longrightarrow> w \<noteq> [] \<Longrightarrow> P (last w)"
  by (simp add: list_all_iff)

lemma list_all_hd: "list_all P w \<Longrightarrow> w \<noteq> [] \<Longrightarrow> P (hd w)"
  by (simp add: list_all_iff)

lemma trim_join:
  assumes "word_list ws" "ws \<noteq> []"
  shows "trim (join '' '' ws) = join '' '' ws"
proof (rule trim_visible)
  have "hd ws \<noteq> [] \<and> list_all visible (hd ws)" "last ws \<noteq> [] \<and> list_all visible (last ws)"
    using assms list_all_hd[of _ ws] list_all_last[of _ ws] by auto
  then show "visible (hd (join '' '' ws))" "visible (last (join '' '' ws))"
    using assms by (simp_all add: hd_join last_join list_all_hd list_all_last)
qed (use assms in \<open>simp add: join_eq_Nil\<close>)

lemma trim_Nil [simp]: "trim [] = []"
  by (simp add: trim_def trim_by.simps white_len_def white_space_def starts_with_def)

lemma trim_word: "list_all visible w \<Longrightarrow> trim w = w"
  by (cases "w = []") (simp_all add: trim_visible list_all_hd list_all_last)

section \<open>Positions\<close>

text \<open>\<open>Iterator::position\<close>.\<close>

fun position :: "('a \<Rightarrow> bool) \<Rightarrow> 'a list \<Rightarrow> nat option" where
  "position p [] = None"
| "position p (x # xs) = (if p x then Some 0 else map_option Suc (position p xs))"

lemma position_Some: "position p xs = Some i \<Longrightarrow> i < length xs \<and> p (xs ! i) \<and> (\<forall>j < i. \<not> p (xs ! j))"
proof (induction xs arbitrary: i)
  case (Cons x xs)
  show ?case
  proof (cases "p x")
    case False
    with Cons obtain k where k: "position p xs = Some k" "i = Suc k" by auto
    with Cons.IH[OF k(1)] False show ?thesis by (auto simp: less_Suc_eq_0_disj)
  qed (use Cons.prems in auto)
qed simp

lemma position_None: "position p xs = None \<longleftrightarrow> (\<forall>x \<in> set xs. \<not> p x)"
  by (induction xs) auto

end
