(* ===== verification/Ordered_Map.thy ===== *)
theory Ordered_Map
  imports Rust_Prelude
begin

text \<open>
  \<open>BTreeMap\<close> as an association list sorted strictly by key, with the operations the servers call
  (\<open>insert\<close>, \<open>remove\<close>, \<open>get_mut\<close>, \<open>retain\<close>), and the laws of an ordered dictionary as
  a locale, from which follow the undo laws that every persist-failure rollback of the servers uses.
\<close>

section \<open>The map\<close>

type_synonym ('k, 'v) bmap = "('k \<times> 'v) list"

fun bt_insert :: "'k::linorder \<Rightarrow> 'v \<Rightarrow> ('k, 'v) bmap \<Rightarrow> ('k, 'v) bmap" where
  "bt_insert k v [] = [(k, v)]"
| "bt_insert k v (e # m) =
     (if k < fst e then (k, v) # e # m
      else if k = fst e then (k, v) # m
      else e # bt_insert k v m)"

definition bt_remove :: "'k \<Rightarrow> ('k, 'v) bmap \<Rightarrow> ('k, 'v) bmap" where
  "bt_remove k m = filter (\<lambda>e. fst e \<noteq> k) m"

definition bt_ok :: "('k::linorder, 'v) bmap \<Rightarrow> bool" where
  "bt_ok m \<longleftrightarrow> sorted_wrt (<) (map fst m)"

definition bt_contains :: "('k, 'v) bmap \<Rightarrow> 'k \<Rightarrow> bool" where
  "bt_contains m k \<longleftrightarrow> map_of m k \<noteq> None"

text \<open>\<open>get_mut\<close>: change the value of a key in place; nothing happens without the key.\<close>

definition bt_modify :: "'k \<Rightarrow> ('v \<Rightarrow> 'v) \<Rightarrow> ('k, 'v) bmap \<Rightarrow> ('k, 'v) bmap" where
  "bt_modify k f m = map (\<lambda>e. if fst e = k then (fst e, f (snd e)) else e) m"

text \<open>Inserting every entry of another map, in its order.\<close>

definition bt_extend :: "('k::linorder, 'v) bmap \<Rightarrow> ('k, 'v) bmap \<Rightarrow> ('k, 'v) bmap" where
  "bt_extend m es = fold (\<lambda>(k, v). bt_insert k v) es m"

lemma bt_ok_Nil [simp]: "bt_ok []"
  by (simp add: bt_ok_def)

lemma bt_ok_Cons [simp]: "bt_ok (e # m) \<longleftrightarrow> (\<forall>x \<in> set m. fst e < fst x) \<and> bt_ok m"
  by (auto simp: bt_ok_def)

lemma bt_ok_distinct: "bt_ok m \<Longrightarrow> distinct (map fst m)"
  by (simp add: bt_ok_def strict_sorted_iff)

lemma set_bt_insert_sub: "set (bt_insert k v m) \<subseteq> insert (k, v) (set m)"
  by (induction m) auto

lemma bt_ok_insert [simp]: "bt_ok m \<Longrightarrow> bt_ok (bt_insert k v m)"
proof (induction m)
  case (Cons e m)
  then show ?case using set_bt_insert_sub[of k v m] by force
qed simp

lemma bt_get_insert [bt_simps]: "map_of (bt_insert k v m) = (map_of m)(k \<mapsto> v)"
  by (induction m) (auto simp: fun_eq_iff)

lemma bt_get_remove [bt_simps]: "map_of (bt_remove k m) = (map_of m)(k := None)"
  by (induction m) (auto simp: bt_remove_def fun_eq_iff)

lemma bt_ok_filter [simp]: "bt_ok m \<Longrightarrow> bt_ok (filter P m)"
  by (induction m) auto

lemma map_of_filter_key: "map_of (filter (\<lambda>(n, _). P n) m) n = (if P n then map_of m n else None)"
  by (induction m) auto

lemma bt_ok_remove [simp]: "bt_ok m \<Longrightarrow> bt_ok (bt_remove k m)"
  by (simp add: bt_remove_def)

lemma map_fst_modify [simp]: "map fst (bt_modify k f m) = map fst m"
  by (induction m) (auto simp: bt_modify_def)

lemma bt_ok_modify [simp]: "bt_ok (bt_modify k f m) = bt_ok m"
  by (simp add: bt_ok_def)

lemma bt_get_modify [bt_simps]:
  "map_of (bt_modify k f m) = (\<lambda>x. if x = k then map_option f (map_of m k) else map_of m x)"
  by (induction m) (auto simp: bt_modify_def fun_eq_iff)

lemma length_bt_modify [simp]: "length (bt_modify k f m) = length m"
  by (simp add: bt_modify_def)

lemma bt_get_ge: "\<forall>x \<in> set m. (k :: 'k :: linorder) < fst x \<Longrightarrow> map_of m k = None"
  by (induction m) auto

lemma bt_ext:
  assumes "bt_ok m" "bt_ok m'" "map_of m = map_of m'"
  shows "m = m'"
  using assms
proof (induction m arbitrary: m')
  case Nil
  then show ?case by (cases m') (auto simp: fun_eq_iff split: if_splits)
next
  case (Cons e m)
  obtain e' n where m': "m' = e' # n"
    using Cons.prems(3) by (cases m') (auto simp: fun_eq_iff split: if_splits)
  have ltm: "\<forall>x \<in> set m. fst e < fst x" and ltn: "\<forall>x \<in> set n. fst e' < fst x"
    using Cons.prems m' by auto
  have fst_eq: "fst e = fst e'"
  proof (rule ccontr)
    assume ne: "fst e \<noteq> fst e'"
    have "map_of (e # m) (fst e) = map_of (e' # n) (fst e)"
      "map_of (e # m) (fst e') = map_of (e' # n) (fst e')"
      by (simp_all only: Cons.prems(3) m')
    with ne have "map_of n (fst e) = Some (snd e)" "map_of m (fst e') = Some (snd e')" by auto
    then have "fst e' < fst e" "fst e < fst e'" using ltm ltn by (metis fst_conv map_of_SomeD)+
    then show False by simp
  qed
  have "map_of (e # m) (fst e) = map_of (e' # n) (fst e)" by (simp only: Cons.prems(3) m')
  then have e: "e = e'" using fst_eq by (simp add: prod_eq_iff)
  have "map_of m = map_of n"
  proof
    fix x
    show "map_of m x = map_of n x"
      using Cons.prems(3) m' e bt_get_ge[OF ltm] bt_get_ge[OF ltn]
      by (cases "x = fst e") (auto dest: fun_cong[of _ _ x])
  qed
  with Cons.IH[of n] Cons.prems m' e show ?case by simp
qed

lemma length_bt_insert:
  "bt_ok m \<Longrightarrow> length (bt_insert k v m) = (if map_of m k = None then Suc (length m) else length m)"
proof (induction m)
  case (Cons e m)
  then have "k < fst e \<Longrightarrow> map_of m k = None" by (intro bt_get_ge) auto
  with Cons show ?case by auto
qed simp

lemma set_bt_insert:
  "bt_ok m \<Longrightarrow> set (bt_insert k v m) = insert (k, v) {e \<in> set m. fst e \<noteq> k}"
proof (induction m)
  case (Cons e m)
  then show ?case by (cases e) force
qed simp

lemma bt_modify_insert:
  "bt_ok m \<Longrightarrow> map_of m k = Some v \<Longrightarrow> bt_modify k f m = bt_insert k (f v) m"
  by (rule bt_ext) (auto simp: bt_simps fun_eq_iff)

lemma bt_in_set_iff: "bt_ok m \<Longrightarrow> (k, v) \<in> set m \<longleftrightarrow> map_of m k = Some v"
  by (simp add: bt_ok_distinct)

lemma bt_ok_extend [simp]: "bt_ok m \<Longrightarrow> bt_ok (bt_extend m es)"
  unfolding bt_extend_def by (induction es arbitrary: m) auto

lemma bt_get_extend: "map_of (bt_extend m es) = map_of m ++ map_of (rev es)"
  unfolding bt_extend_def
  by (induction es arbitrary: m) (auto simp: bt_get_insert map_add_def fun_eq_iff split: option.splits)

section \<open>Ordered dictionaries as an interface\<close>

locale ordered_dict =
  fixes get :: "'m \<Rightarrow> 'k \<Rightarrow> 'v option"
    and ins :: "'k \<Rightarrow> 'v \<Rightarrow> 'm \<Rightarrow> 'm"
    and del :: "'k \<Rightarrow> 'm \<Rightarrow> 'm"
    and ok :: "'m \<Rightarrow> bool"
  assumes get_ins: "ok m \<Longrightarrow> get (ins k v m) = (get m)(k \<mapsto> v)"
    and get_del: "ok m \<Longrightarrow> get (del k m) = (get m)(k := None)"
    and ok_ins: "ok m \<Longrightarrow> ok (ins k v m)"
    and ok_del: "ok m \<Longrightarrow> ok (del k m)"
    and canonical: "ok m \<Longrightarrow> ok m' \<Longrightarrow> get m = get m' \<Longrightarrow> m = m'"
begin

lemma undo_new: "ok m \<Longrightarrow> get m k = None \<Longrightarrow> del k (ins k v m) = m"
  by (rule canonical) (auto simp: get_ins get_del ok_ins ok_del fun_eq_iff)

lemma undo_overwrite: "ok m \<Longrightarrow> get m k = Some w \<Longrightarrow> ins k w (ins k v m) = m"
  by (rule canonical) (auto simp: get_ins ok_ins fun_eq_iff)

lemma undo_remove: "ok m \<Longrightarrow> get m k = Some w \<Longrightarrow> ins k w (del k m) = m"
  by (rule canonical) (auto simp: get_ins get_del ok_ins ok_del fun_eq_iff)

lemma ins_same: "ok m \<Longrightarrow> get m k = Some w \<Longrightarrow> ins k w m = m"
  by (rule canonical) (auto simp: get_ins ok_ins fun_eq_iff)

lemma ins_twice: "ok m \<Longrightarrow> ins k w (ins k v m) = ins k w m"
  by (rule canonical) (auto simp: get_ins ok_ins fun_eq_iff)

lemma ins_commute: "ok m \<Longrightarrow> k \<noteq> k' \<Longrightarrow> ins k v (ins k' v' m) = ins k' v' (ins k v m)"
  by (rule canonical) (auto simp: get_ins ok_ins fun_eq_iff)

end

interpretation bt: ordered_dict map_of bt_insert bt_remove bt_ok
  by unfold_locales (auto simp: bt_simps intro: bt_ext)

lemma bt_modify_undo:
  "bt_ok m \<Longrightarrow> map_of m k = Some v \<Longrightarrow> bt_insert k v (bt_modify k f m) = m"
  by (simp add: bt_modify_insert bt.undo_overwrite)

lemma bt_modify_same:
  "bt_ok m \<Longrightarrow> map_of m k = Some v \<Longrightarrow> f v = v \<Longrightarrow> bt_modify k f m = m"
  by (simp add: bt_modify_insert bt.ins_same)

lemma bt_modify_absent: "map_of m k = None \<Longrightarrow> bt_modify k f m = m"
  unfolding bt_modify_def by (rule map_idI) (force simp: map_of_eq_None_iff)

lemma bt_contains_extend: "bt_contains m k \<Longrightarrow> bt_contains (bt_extend m es) k"
  by (auto simp: bt_contains_def bt_get_extend)

lemma bt_contains_insert: "bt_contains m k \<Longrightarrow> bt_contains (bt_insert k' v m) k"
  by (auto simp: bt_contains_def bt_get_insert)

lemma bt_ok_fold_remove [simp]: "bt_ok m \<Longrightarrow> bt_ok (fold bt_remove ks m)"
  by (induction ks arbitrary: m) auto

lemma map_of_rev_distinct: "distinct (map fst m) \<Longrightarrow> map_of (rev m) = map_of m"
  by (intro map_of_inject_set[THEN iffD2]) (auto simp: rev_map[symmetric])

lemma bt_extend_Nil: "bt_ok m \<Longrightarrow> bt_extend [] m = m"
proof (rule bt_ext)
  assume ok: "bt_ok m"
  then have "map_of (rev m) = map_of m" by (intro map_of_rev_distinct bt_ok_distinct)
  then show "map_of (bt_extend [] m) = map_of m" by (simp add: bt_get_extend map_add_def)
qed simp_all

end
