(* ===== verification/Time_Fmt.thy ===== *)
theory Time_Fmt
  imports Ordered_Map
begin

text \<open>
  \<open>services/sqs/src/time_fmt.rs\<close> (the same code is repeated in the Pub/Sub and S3 crates): UTC time
  stamps as RFC 3339 strings. The servers compare and advance time only through these strings, so
  every visibility, delay, retention and deduplication property of the message queue rests on
  \<open>before\<close> and \<open>add_seconds\<close> meaning what they say. The section proves that formatting followed by
  parsing is the identity (including the civil-calendar conversion), and derives the order laws
  as the interface \<open>timeline\<close>.
  The \<open>i64\<close> arithmetic of the calendar conversion is exact for years up to 2 ^ 40 and beyond; the
  conversions that truncate (\<open>as i64\<close>, \<open>as u32\<close>) are written out.
\<close>

section \<open>Calendar\<close>

definition as_u32 :: "int \<Rightarrow> int" where
  "as_u32 x = x mod 2 ^ 32"

definition days_from_civil :: "int \<Rightarrow> int \<Rightarrow> int \<Rightarrow> int" where
  "days_from_civil y0 m d =
     (let y = (if m \<le> 2 then y0 - 1 else y0);
          era = (if y \<ge> 0 then y else y - 399) sdiv 400;
          yoe = y - era * 400;
          doy = (153 * (if m > 2 then m - 3 else m + 9) + 2) sdiv 5 + d - 1;
          doe = yoe * 365 + yoe sdiv 4 - yoe sdiv 100 + doy
      in era * 146097 + doe - 719468)"

definition civil_from_days :: "int \<Rightarrow> int \<times> int \<times> int" where
  "civil_from_days z0 =
     (let z = z0 + 719468;
          era = (if z \<ge> 0 then z else z - 146096) sdiv 146097;
          doe = z - era * 146097;
          yoe = (doe - doe sdiv 1460 + doe sdiv 36524 - doe sdiv 146096) sdiv 365;
          y = yoe + era * 400;
          doy = doe - (365 * yoe + yoe sdiv 4 - yoe sdiv 100);
          mp = (5 * doy + 2) sdiv 153;
          d = as_u32 (doy - (153 * mp + 2) sdiv 5 + 1);
          m = as_u32 (if mp < 10 then mp + 3 else mp - 9)
      in (if m \<le> 2 then y + 1 else y, m, d))"

section \<open>Formatting and parsing\<close>

definition ZERO_TIME :: string where
  "ZERO_TIME = ''0001-01-01T00:00:00Z''"

definition rfc3339_from_unix :: "int \<Rightarrow> nat \<Rightarrow> string" where
  "rfc3339_from_unix secs nanos =
     (let days = secs div 86400;
          secs_of_day = secs mod 86400;
          (year, month, day) = civil_from_days days;
          hour = secs_of_day div 3600;
          minute = (secs_of_day mod 3600) div 60;
          second = secs_of_day mod 60;
          out = pad_int 4 year @ ''-'' @ pad_int 2 month @ ''-'' @ pad_int 2 day @ ''T''
                @ pad_int 2 hour @ '':'' @ pad_int 2 minute @ '':'' @ pad_int 2 second;
          frac = (if nanos > 0
                  then ''.'' @ trim_end_matches (CHR ''0'') (zero_pad 9 (dec nanos)) else [])
      in out @ frac @ ''Z'')"

text \<open>The clock is read as nanoseconds since the epoch; \<open>as_secs() as i64\<close> and \<open>subsec_nanos()\<close>.\<close>

definition now_rfc3339 :: "nat \<Rightarrow> string" where
  "now_rfc3339 t = rfc3339_from_unix (wrap_s 64 (int (t div 10 ^ 9))) (t mod 10 ^ 9)"

text \<open>The date and time-of-day fields, which both parsers read in the same way.\<close>

definition parse_date :: "string \<Rightarrow> (int \<times> int \<times> int) option" where
  "parse_date date =
     (case split_on (\<lambda>c. c = CHR ''-'') date of
        [y, m, d] \<Rightarrow>
          (case (parse_i64 y, parse_i64 m, parse_i64 d) of
             (Some y', Some m', Some d') \<Rightarrow> Some (y', m', d')
           | _ \<Rightarrow> None)
      | _ \<Rightarrow> None)"

definition parse_hms :: "string \<Rightarrow> (int \<times> int \<times> int) option" where
  "parse_hms hms =
     (case split_on (\<lambda>c. c = CHR '':'') hms of
        h # m # s # _ \<Rightarrow>
          (case (parse_i64 h, parse_i64 m, parse_i64 s) of
             (Some h', Some m', Some s') \<Rightarrow> Some (h', m', s')
           | _ \<Rightarrow> None)
      | _ \<Rightarrow> None)"

definition strip_zone :: "string \<Rightarrow> string option" where
  "strip_zone rest = (case strip_suffix rest ''Z'' of Some t \<Rightarrow> Some t | None \<Rightarrow> strip_suffix rest ''z'')"

definition parse_fraction :: "string option \<Rightarrow> int option" where
  "parse_fraction frac =
     (case frac of None \<Rightarrow> Some 0
      | Some f \<Rightarrow>
          if f = [] \<or> \<not> list_all is_ascii_digit f then None
          else parse_i128 (take 9 f @ replicate (9 - length (take 9 f)) (CHR ''0'')))"

definition parse_rfc3339_nanos :: "string \<Rightarrow> int option" where
  "parse_rfc3339_nanos s =
     (case split_once (CHR ''T'') s of None \<Rightarrow> None | Some (date, rest) \<Rightarrow>
      (case strip_zone rest of None \<Rightarrow> None | Some time \<Rightarrow>
      (case parse_date date of None \<Rightarrow> None | Some (year, month, day) \<Rightarrow>
       let (hms, frac) = (case split_once (CHR ''.'') time of
                            Some (h, f) \<Rightarrow> (h, Some f) | None \<Rightarrow> (time, None))
       in (case parse_hms hms of None \<Rightarrow> None | Some (hour, minute, second) \<Rightarrow>
           let secs = days_from_civil year month day * 86400 + hour * 3600 + minute * 60 + second
           in (case parse_fraction frac of None \<Rightarrow> None
               | Some nanos \<Rightarrow> Some (secs * 10 ^ 9 + nanos))))))"

definition parse_rfc3339_secs :: "string \<Rightarrow> int option" where
  "parse_rfc3339_secs s =
     (case split_once (CHR ''T'') s of None \<Rightarrow> None | Some (date, rest) \<Rightarrow>
      (case strip_zone rest of None \<Rightarrow> None | Some time \<Rightarrow>
      (case parse_date date of None \<Rightarrow> None | Some (year, month, day) \<Rightarrow>
       let hms = (case split_once (CHR ''.'') time of Some (h, _) \<Rightarrow> h | None \<Rightarrow> time)
       in (case parse_hms hms of None \<Rightarrow> None | Some (hour, minute, second) \<Rightarrow>
           Some (days_from_civil year month day * 86400 + hour * 3600 + minute * 60 + second)))))"

definition unix_from_rfc3339 :: "string \<Rightarrow> int" where
  "unix_from_rfc3339 s =
     (if s = ZERO_TIME then - 62135596800
      else case parse_rfc3339_secs s of Some v \<Rightarrow> v | None \<Rightarrow> - 62135596800)"

definition unix_nanos_from_rfc3339 :: "string \<Rightarrow> int" where
  "unix_nanos_from_rfc3339 s =
     (if s = [] \<or> s = ZERO_TIME then i128_min
      else case parse_rfc3339_nanos s of Some v \<Rightarrow> v | None \<Rightarrow> i128_min)"

definition unix_millis_from_rfc3339 :: "string \<Rightarrow> int" where
  "unix_millis_from_rfc3339 s = wrap_s 64 (unix_nanos_from_rfc3339 s sdiv 1000000)"

definition add_seconds :: "string \<Rightarrow> int \<Rightarrow> string" where
  "add_seconds base seconds =
     (let nanos = wrap_s 128 (unix_nanos_from_rfc3339 base + seconds * 10 ^ 9);
          total_secs = wrap_s 64 (nanos div 10 ^ 9);
          frac = nanos mod 10 ^ 9
      in rfc3339_from_unix total_secs (nat frac))"

definition before :: "string \<Rightarrow> string \<Rightarrow> bool" where
  "before a b \<longleftrightarrow> unix_nanos_from_rfc3339 a < unix_nanos_from_rfc3339 b"

definition is_zero_time :: "string \<Rightarrow> bool" where
  "is_zero_time s \<longleftrightarrow> s = [] \<or> s = ZERO_TIME"

section \<open>The calendar conversion is exact\<close>

lemma sdiv_nonneg: "0 \<le> (x::int) \<Longrightarrow> 0 < k \<Longrightarrow> x sdiv k = x div k"
  by (auto simp: signed_divide_int_def sgn_if)

lemma div_bounds: "0 < (k::int) \<Longrightarrow> k * (x div k) \<le> x" "0 < (k::int) \<Longrightarrow> x < k * (x div k) + k"
  using pos_mod_bound[of k x] pos_mod_sign[of k x] mult_div_mod_eq[of k x] by linarith+

lemma div_unique_int: "0 < (k::int) \<Longrightarrow> k * q \<le> x \<Longrightarrow> x < k * q + k \<Longrightarrow> x div k = q"
  by (metis int_div_pos_eq diff_ge_0_iff_ge diff_less_eq add.commute mult.commute
      add_diff_cancel_left' le_add_diff_inverse)

text \<open>The source's \<open>(if x >= 0 { x } else { x - (k - 1) }) / k\<close> is floor division.\<close>

lemma sdiv_floor:
  assumes "0 < (k::int)" "k1 = k - 1"
  shows "(if 0 \<le> x then x else x - k1) sdiv k = x div k"
proof (cases "0 \<le> x")
  case True
  then show ?thesis using assms by (simp add: sdiv_nonneg)
next
  case False
  have "(k - 1 - x) div k = - (x div k)"
    using div_bounds[OF assms(1), of x] by (intro div_unique_int assms) (simp_all add: algebra_simps)
  then show ?thesis using False assms by (simp add: signed_divide_int_def sgn_if)
qed

text \<open>The year-of-era estimate is the right one: the day of the year it leaves is in range.\<close>

lemma era_arith:
  fixes doe a b yoe e f :: int
  assumes d: "0 \<le> doe" "doe < 146096"
    and h: "1460 * a \<le> doe" "doe < 1460 * a + 1460" "36524 * b \<le> doe" "doe < 36524 * b + 36524"
    and yh: "365 * yoe \<le> doe - a + b" "doe - a + b < 365 * yoe + 365"
    and ef: "4 * e \<le> yoe" "yoe < 4 * e + 4" "100 * f \<le> yoe" "yoe < 100 * f + 100"
  shows "0 \<le> yoe" "yoe < 400" "0 \<le> doe - (365 * yoe + e - f)" "doe - (365 * yoe + e - f) \<le> 365"
proof -
  have b: "0 \<le> b" "b \<le> 3" and a: "0 \<le> a" "a \<le> 100" using d h by linarith+
  show "0 \<le> yoe" using yh a b d h by linarith
  show "yoe < 400" using yh a b d h by linarith
  consider "f \<le> b - 1" | "f = b" | "f \<ge> b + 1" by linarith
  then show "0 \<le> doe - (365 * yoe + e - f)"
    by cases (use b a h yh ef in linarith)+
  consider "f \<le> b - 1" | "f = b" | "f \<ge> b + 1" by linarith
  then show "doe - (365 * yoe + e - f) \<le> 365"
    by cases (use b a h yh ef in linarith)+
qed

lemma year_of_era:
  fixes doe :: int
  assumes "0 \<le> doe" "doe < 146097"
  defines "yoe \<equiv> (doe - doe div 1460 + doe div 36524 - doe div 146096) div 365"
  defines "doy \<equiv> doe - (365 * yoe + yoe div 4 - yoe div 100)"
  shows "0 \<le> yoe" "yoe < 400" "0 \<le> doy" "doy \<le> 365"
proof -
  have "(0 \<le> yoe \<and> yoe < 400) \<and> (0 \<le> doy \<and> doy \<le> 365)"
  proof (cases "doe = 146096")
    case True
    then show ?thesis by (simp add: yoe_def doy_def)
  next
    case False
    then have d: "doe < 146096" using assms by simp
    have c: "doe div 146096 = 0" using d assms(1) by simp
    have "365 * yoe \<le> doe - doe div 1460 + doe div 36524"
      "doe - doe div 1460 + doe div 36524 < 365 * yoe + 365"
      using div_bounds[of 365 "doe - doe div 1460 + doe div 36524"] by (simp_all add: yoe_def c)
    note era_arith[OF assms(1) d div_bounds[of 1460 doe, simplified] div_bounds[of 36524 doe, simplified]
        this div_bounds[of 4 yoe, simplified] div_bounds[of 100 yoe, simplified]]
    then show ?thesis unfolding doy_def by blast
  qed
  then show "0 \<le> yoe" "yoe < 400" "0 \<le> doy" "doy \<le> 365" by blast+
qed

lemma month_arith:
  fixes doy :: int
  assumes "0 \<le> doy" "doy \<le> 365"
  defines "mp \<equiv> (5 * doy + 2) div 153"
  shows "0 \<le> mp" "mp \<le> 11" "0 \<le> doy - (153 * mp + 2) div 5" "doy - (153 * mp + 2) div 5 \<le> 30"
proof -
  have m: "153 * mp \<le> 5 * doy + 2" "5 * doy + 2 < 153 * mp + 153"
    unfolding mp_def using div_bounds[of 153 "5 * doy + 2"] by simp_all
  have w: "5 * ((153 * mp + 2) div 5) \<le> 153 * mp + 2" "153 * mp + 2 < 5 * ((153 * mp + 2) div 5) + 5"
    using div_bounds[of 5 "153 * mp + 2"] by simp_all
  show "0 \<le> mp" "mp \<le> 11" "0 \<le> doy - (153 * mp + 2) div 5" "doy - (153 * mp + 2) div 5 \<le> 30"
    using m w assms(1,2) by linarith+
qed

lemma as_u32_id [simp]: "0 \<le> x \<Longrightarrow> x < 2 ^ 32 \<Longrightarrow> as_u32 x = x"
  by (simp add: as_u32_def)

lemma civil_from_days_correct:
  assumes "civil_from_days z = (y, m, d)"
  shows "days_from_civil y m d = z" "1 \<le> m" "m \<le> 12" "1 \<le> d" "d \<le> 31"
    and "(z + 719468) div 146097 * 400 \<le> y" "y \<le> (z + 719468) div 146097 * 400 + 400"
proof -
  define era where "era = (z + 719468) div 146097"
  define doe where "doe = z + 719468 - era * 146097"
  define yoe where "yoe = (doe - doe div 1460 + doe div 36524 - doe div 146096) div 365"
  define doy where "doy = doe - (365 * yoe + yoe div 4 - yoe div 100)"
  define mp where "mp = (5 * doy + 2) div 153"
  have doe: "0 \<le> doe" "doe < 146097"
    using div_bounds[of 146097 "z + 719468"] by (simp_all add: doe_def era_def)
  note Y = year_of_era[OF doe, folded yoe_def, folded doy_def]
  note M = month_arith[OF Y(3,4), folded mp_def]
  have yoe_num: "0 \<le> doe - doe div 1460 + doe div 36524 - doe div 146096"
  proof -
    have "doe div 1460 \<le> doe div 1" "doe div 146096 \<le> doe div 36524"
      using doe(1) by (intro zdiv_mono2; simp)+
    then show ?thesis by simp
  qed
  have w: "0 \<le> 153 * mp + 2" using M(1) by simp
  have e1: "(if 0 \<le> z + 719468 then z + 719468 else z + 719468 - 146096) sdiv 146097 = era"
    unfolding era_def by (rule sdiv_floor) simp_all
  have e2: "z + 719468 - era * 146097 = doe" "doe - (365 * yoe + yoe div 4 - yoe div 100) = doy"
    by (simp_all only: doe_def doy_def)
  have e3: "doe sdiv 1460 = doe div 1460" "doe sdiv 36524 = doe div 36524"
    "doe sdiv 146096 = doe div 146096" "yoe sdiv 4 = yoe div 4" "yoe sdiv 100 = yoe div 100"
    using doe(1) Y(1) by (simp_all add: sdiv_nonneg)
  have e4: "(doe - doe div 1460 + doe div 36524 - doe div 146096) sdiv 365 = yoe"
    unfolding yoe_def using yoe_num by (rule sdiv_nonneg) simp
  have e5: "(5 * doy + 2) sdiv 153 = mp"
    unfolding mp_def using Y(3) by (intro sdiv_nonneg) simp_all
  have e6: "(153 * mp + 2) sdiv 5 = (153 * mp + 2) div 5"
    using w by (rule sdiv_nonneg) simp
  note e = e1 e2 e3 e4 e5 e6
  have u: "as_u32 (if mp < 10 then mp + 3 else mp - 9) = (if mp < 10 then mp + 3 else mp - 9)"
    "as_u32 (doy - (153 * mp + 2) div 5 + 1) = doy - (153 * mp + 2) div 5 + 1"
    using M by (auto intro: as_u32_id)
  have civ: "civil_from_days z = (if (if mp < 10 then mp + 3 else mp - 9) \<le> 2 then yoe + era * 400 + 1
      else yoe + era * 400, if mp < 10 then mp + 3 else mp - 9, doy - (153 * mp + 2) div 5 + 1)"
    by (simp only: civil_from_days_def Let_def e u)
  have m: "m = (if mp < 10 then mp + 3 else mp - 9)" and d: "d = doy - (153 * mp + 2) div 5 + 1"
    and y: "y = (if m \<le> 2 then yoe + era * 400 + 1 else yoe + era * 400)"
    using civ assms by auto
  show "1 \<le> m" "m \<le> 12" "1 \<le> d" "d \<le> 31" using m d M by (auto split: if_splits)
  show "(z + 719468) div 146097 * 400 \<le> y" "y \<le> (z + 719468) div 146097 * 400 + 400"
    using y Y by (auto simp: era_def split: if_splits)
  have y': "(if m \<le> 2 then y - 1 else y) = yoe + era * 400" using y by simp
  have mp': "(if m > 2 then m - 3 else m + 9) = mp" using m M(1,2) by auto
  have "(yoe + era * 400) div 400 = era" using Y by simp
  then have e7: "(if 0 \<le> yoe + era * 400 then yoe + era * 400 else yoe + era * 400 - 399) sdiv 400 = era"
    using sdiv_floor[of 400 399 "yoe + era * 400"] by simp
  have "days_from_civil y m d = era * 146097 + ((yoe + era * 400 - era * 400) * 365
      + (yoe + era * 400 - era * 400) sdiv 4 - (yoe + era * 400 - era * 400) sdiv 100
      + ((153 * mp + 2) sdiv 5 + d - 1)) - 719468"
    by (simp only: days_from_civil_def Let_def y' mp' e7)
  then show "days_from_civil y m d = z"
    by (simp add: e3 e6 d) (simp add: doy_def doe_def)
qed


section \<open>Formatting followed by parsing\<close>

lemma digit_not_in: "list_all is_ascii_digit s \<Longrightarrow> \<not> is_ascii_digit c \<Longrightarrow> c \<notin> set s"
  by (auto simp: list_all_iff)

lemma not_digit [simp]:
  "\<not> is_ascii_digit CHR ''-''" "\<not> is_ascii_digit CHR ''T''" "\<not> is_ascii_digit CHR '':''"
  "\<not> is_ascii_digit CHR ''.''" "\<not> is_ascii_digit CHR ''Z''"
  by (simp_all add: is_ascii_digit_def ascii_def)

lemma pad_int_field:
  assumes "0 \<le> n" "n \<le> i64_max"
  shows "list_all is_ascii_digit (pad_int w n)" "parse_i64 (pad_int w n) = Some n"
  using assms by (simp_all add: pad_int_def parse_signed_digits)

lemma split_three:
  "c \<notin> set x \<Longrightarrow> c \<notin> set y \<Longrightarrow> c \<notin> set z \<Longrightarrow>
   split_on (\<lambda>a. a = c) (x @ c # y @ c # z) = [x, y, z]"
  by (subst split_on_append, blast, simp, subst split_on_append, blast, simp, subst split_on_none) auto

lemma parse_date_format:
  assumes "0 \<le> y" "y \<le> i64_max" "0 \<le> m" "m \<le> i64_max" "0 \<le> d" "d \<le> i64_max"
  shows "parse_date (pad_int v y @ CHR ''-'' # pad_int w m @ CHR ''-'' # pad_int w d) = Some (y, m, d)"
  using assms by (simp add: parse_date_def split_three digit_not_in pad_int_field)

lemma parse_hms_format:
  assumes "0 \<le> y" "y \<le> i64_max" "0 \<le> m" "m \<le> i64_max" "0 \<le> d" "d \<le> i64_max"
  shows "parse_hms (pad_int v y @ CHR '':'' # pad_int w m @ CHR '':'' # pad_int w d) = Some (y, m, d)"
  using assms by (simp add: parse_hms_def split_three digit_not_in pad_int_field)

lemma length_dec_le: "n < 10 ^ Suc k \<Longrightarrow> length (dec n) \<le> Suc k"
proof (induction k arbitrary: n)
  case 0
  then show ?case by (subst to_radix.simps) simp
next
  case (Suc k)
  show ?case
  proof (cases "n < 10")
    case True
    then show ?thesis by (subst to_radix.simps) simp
  next
    case False
    have "n div 10 < 10 ^ Suc k" using Suc.prems by auto
    with Suc.IH False show ?thesis by (subst to_radix.simps) simp
  qed
qed

lemma trim_end_matches_refill:
  assumes "length F = k"
  shows "trim_end_matches c F @ replicate (k - length (trim_end_matches c F)) c = F"
proof -
  let ?G = "trim_end_matches c F" and ?T = "rev (takeWhile (\<lambda>x. x = c) (rev F))"
  have F: "?G @ ?T = F"
    by (simp add: trim_end_matches_def flip: rev_append)
  have "set ?T \<subseteq> {c}" by (auto dest: set_takeWhileD)
  then have "?T = replicate (length ?T) c" by (metis replicate_eqI singletonD subsetD)
  moreover have "length ?T = k - length ?G" using F assms by (metis add_diff_cancel_left' length_append)
  ultimately show ?thesis using F by metis
qed

lemma from_digits_padded: "from_digits (s @ replicate k (CHR ''0'')) = from_digits s * 10 ^ k"
proof (induction k)
  case (Suc k)
  have "from_digits ((s @ replicate k (CHR ''0'')) @ [CHR ''0'']) = 10 * (from_digits s * 10 ^ k) + digit_val (CHR ''0'')"
    using Suc by (simp only: from_digits_snoc)
  moreover have "digit_val (CHR ''0'') = 0" by (simp add: digit_val_def ascii_def)
  ultimately show ?case by (simp add: replicate_append_same flip: replicate_Suc)
qed simp

lemma fraction_digits:
  assumes "0 < n" "n < 10 ^ 9"
  defines "G \<equiv> trim_end_matches (CHR ''0'') (zero_pad 9 (dec n))"
  shows "G \<noteq> []" "list_all is_ascii_digit G" "length G \<le> 9" "G @ replicate (9 - length G) (CHR ''0'') = zero_pad 9 (dec n)"
proof -
  let ?F = "zero_pad 9 (dec n)"
  have len: "length ?F = 9" using length_dec_le[of n 8] assms by (simp add: zero_pad_def)
  show refill: "G @ replicate (9 - length G) (CHR ''0'') = ?F" unfolding G_def by (rule trim_end_matches_refill[OF len])
  show "length G \<le> 9" using refill len by (metis length_append le_add1)
  show "list_all is_ascii_digit G"
    using refill list_all_digit_zero_pad[of "dec n" 9] list_all_digit_dec by (metis list_all_append)
  show "G \<noteq> []"
  proof
    assume "G = []"
    then have "?F = zero_pad 9 []" using refill by (simp add: zero_pad_def)
    then have "from_digits ?F = 0" by (metis from_digits_zero_pad from_digits_Nil)
    with assms(1) show False by simp
  qed
qed

lemma parse_fraction_format:
  assumes "0 < n" "n < 10 ^ 9"
  shows "parse_fraction (Some (trim_end_matches (CHR ''0'') (zero_pad 9 (dec n)))) = Some (int n)"
  using fraction_digits[OF assms] parse_signed_digits[of "zero_pad 9 (dec n)" i128_min i128_max] assms
  by (simp add: parse_fraction_def)

lemma strip_zone_Z: "strip_zone (t @ ''Z'') = Some t"
  by (simp add: strip_zone_def)

definition rfc3339_range :: "int \<Rightarrow> bool" where
  "rfc3339_range secs \<longleftrightarrow> - 62162035200 \<le> secs \<and> secs \<le> i64_max"

lemma rfc3339_fields:
  assumes "rfc3339_range secs" and civ: "civil_from_days (secs div 86400) = (y, m, d)"
  shows "0 \<le> y" "y \<le> i64_max" "0 \<le> m" "m \<le> i64_max" "0 \<le> d" "d \<le> i64_max"
proof -
  note C = civil_from_days_correct[OF civ]
  let ?e = "(secs div 86400 + 719468) div 146097"
  have z: "86400 * (secs div 86400) \<le> secs" "secs < 86400 * (secs div 86400) + 86400"
    using div_bounds[of 86400 secs] by simp_all
  have e: "146097 * ?e \<le> secs div 86400 + 719468" "secs div 86400 + 719468 < 146097 * ?e + 146097"
    using div_bounds[of 146097 "secs div 86400 + 719468"] by simp_all
  have "0 \<le> ?e" using z e assms(1) unfolding rfc3339_range_def by linarith
  then show "0 \<le> y" using C(6) by linarith
  show "y \<le> i64_max" using z e assms(1) C(7) unfolding rfc3339_range_def by linarith
  show "0 \<le> m" "m \<le> i64_max" "0 \<le> d" "d \<le> i64_max" using C by simp_all
qed

lemma parse_nanos_parts:
  assumes "split_once (CHR ''T'') s = Some (date, time @ ''Z'')" "parse_date date = Some (y, m, d)"
    "(case split_once (CHR ''.'') time of Some (h, f) \<Rightarrow> (h, Some f) | None \<Rightarrow> (time, None)) = (hms, frac)"
    "parse_hms hms = Some (h, mi, se)" "parse_fraction frac = Some n"
  shows "parse_rfc3339_nanos s =
    Some ((days_from_civil y m d * 86400 + h * 3600 + mi * 60 + se) * 10 ^ 9 + n)"
  using assms by (simp add: parse_rfc3339_nanos_def strip_zone_Z Let_def)

lemma time_of_day: "(s::int) div 3600 * 3600 + s mod 3600 div 60 * 60 + s mod 60 = s"
proof -
  have "s mod 3600 div 60 * 60 + s mod 3600 mod 60 = s mod 3600" by (rule div_mult_mod_eq)
  moreover have "s mod 3600 mod 60 = s mod 60" by (rule mod_mod_cancel) simp
  moreover have "s div 3600 * 3600 + s mod 3600 = s" by (rule div_mult_mod_eq)
  ultimately show ?thesis by linarith
qed

lemma time_of_day_bounds:
  assumes "0 \<le> (s::int)" "s < 86400"
  shows "0 \<le> s div 3600" "s div 3600 \<le> i64_max" "0 \<le> s mod 3600 div 60" "s mod 3600 div 60 \<le> i64_max"
    "0 \<le> s mod 60" "s mod 60 \<le> i64_max"
proof -
  have "s mod 3600 < 3600" "0 \<le> s mod 3600" "s mod 60 < 60" "0 \<le> s mod 60" by simp_all
  then show "0 \<le> s div 3600" "s div 3600 \<le> i64_max" "0 \<le> s mod 3600 div 60" "s mod 3600 div 60 \<le> i64_max"
    "0 \<le> s mod 60" "s mod 60 \<le> i64_max"
    using assms div_bounds[of 3600 s] div_bounds[of 60 "s mod 3600"] by linarith+
qed

lemma rfc3339_shape:
  assumes r: "rfc3339_range secs"
  obtains y m d h mi se where
    "rfc3339_from_unix secs nanos = (pad_int 4 y @ CHR ''-'' # pad_int 2 m @ CHR ''-'' # pad_int 2 d)
       @ CHR ''T'' # ((pad_int 2 h @ CHR '':'' # pad_int 2 mi @ CHR '':'' # pad_int 2 se)
         @ (if nanos > 0 then CHR ''.'' # trim_end_matches (CHR ''0'') (zero_pad 9 (dec nanos)) else [])) @ ''Z''"
    "days_from_civil y m d * 86400 + h * 3600 + mi * 60 + se = secs"
    "0 \<le> y" "y \<le> i64_max" "1 \<le> m" "m \<le> 12" "1 \<le> d" "d \<le> 31"
    "0 \<le> h" "h \<le> i64_max" "0 \<le> mi" "mi \<le> i64_max" "0 \<le> se" "se \<le> i64_max"
proof -
  obtain y m d where civ: "civil_from_days (secs div 86400) = (y, m, d)" by (metis prod_cases3)
  define sod where "sod = secs mod 86400"
  have "0 \<le> sod" "sod < 86400" by (simp_all add: sod_def)
  note B = time_of_day_bounds[OF this] and F = rfc3339_fields[OF r civ] and C = civil_from_days_correct[OF civ]
  have "days_from_civil y m d * 86400 + sod div 3600 * 3600 + sod mod 3600 div 60 * 60 + sod mod 60 = secs"
    using time_of_day[of sod] div_mult_mod_eq[of secs 86400] by (simp only: C(1) sod_def add.assoc)
  moreover have "rfc3339_from_unix secs nanos = (pad_int 4 y @ CHR ''-'' # pad_int 2 m @ CHR ''-'' # pad_int 2 d)
       @ CHR ''T'' # ((pad_int 2 (sod div 3600) @ CHR '':'' # pad_int 2 (sod mod 3600 div 60) @ CHR '':'' # pad_int 2 (sod mod 60))
         @ (if nanos > 0 then CHR ''.'' # trim_end_matches (CHR ''0'') (zero_pad 9 (dec nanos)) else [])) @ ''Z''"
    by (simp add: rfc3339_from_unix_def civ Let_def sod_def)
  ultimately show ?thesis using F(1,2) C(2-5) B by (intro that[of y m d "sod div 3600" "sod mod 3600 div 60" "sod mod 60"])
qed

lemma no_separator:
  "0 \<le> a \<Longrightarrow> a \<le> i64_max \<Longrightarrow> 0 \<le> b \<Longrightarrow> b \<le> i64_max \<Longrightarrow> 0 \<le> c \<Longrightarrow> c \<le> i64_max \<Longrightarrow> \<not> is_ascii_digit x \<Longrightarrow> x \<noteq> z \<Longrightarrow>
   x \<notin> set (pad_int u a @ z # pad_int v b @ z # pad_int w c)"
  by (simp add: digit_not_in pad_int_field)

lemma parse_rfc3339_nanos_format:
  assumes r: "rfc3339_range secs" and n: "nanos < 10 ^ 9"
  shows "parse_rfc3339_nanos (rfc3339_from_unix secs nanos) = Some (secs * 10 ^ 9 + int nanos)"
proof -
  obtain y m d h mi se where
    fmt: "rfc3339_from_unix secs nanos = (pad_int 4 y @ CHR ''-'' # pad_int 2 m @ CHR ''-'' # pad_int 2 d)
       @ CHR ''T'' # ((pad_int 2 h @ CHR '':'' # pad_int 2 mi @ CHR '':'' # pad_int 2 se)
         @ (if nanos > 0 then CHR ''.'' # trim_end_matches (CHR ''0'') (zero_pad 9 (dec nanos)) else [])) @ ''Z''"
    and secs: "days_from_civil y m d * 86400 + h * 3600 + mi * 60 + se = secs"
    and F: "0 \<le> y" "y \<le> i64_max" "1 \<le> m" "m \<le> 12" "1 \<le> d" "d \<le> 31"
      "0 \<le> h" "h \<le> i64_max" "0 \<le> mi" "mi \<le> i64_max" "0 \<le> se" "se \<le> i64_max"
    using rfc3339_shape[OF r] by blast
  define date where "date = pad_int 4 y @ CHR ''-'' # pad_int 2 m @ CHR ''-'' # pad_int 2 d"
  define hms where "hms = pad_int 2 h @ CHR '':'' # pad_int 2 mi @ CHR '':'' # pad_int 2 se"
  define G where "G = trim_end_matches (CHR ''0'') (zero_pad 9 (dec nanos))"
  note fmt = fmt[folded date_def hms_def G_def]
  have T: "CHR ''T'' \<notin> set date" unfolding date_def using F by (intro no_separator) simp_all
  have dot: "CHR ''.'' \<notin> set hms" unfolding hms_def using F by (intro no_separator) simp_all
  have split: "split_once (CHR ''T'') (rfc3339_from_unix secs nanos) = Some (date, (hms @ (if nanos > 0 then CHR ''.'' # G else [])) @ ''Z'')"
    unfolding fmt using T by (rule split_once_append)
  have date: "parse_date date = Some (y, m, d)" unfolding date_def using F by (intro parse_date_format) simp_all
  have hms: "parse_hms hms = Some (h, mi, se)" unfolding hms_def using F by (intro parse_hms_format) simp_all
  have fr: "(case split_once (CHR ''.'') (hms @ (if nanos > 0 then CHR ''.'' # G else [])) of Some (h, f) \<Rightarrow> (h, Some f)
      | None \<Rightarrow> (hms @ (if nanos > 0 then CHR ''.'' # G else []), None)) = (hms, if nanos > 0 then Some G else None)"
    using split_once_append[OF dot] split_once_None[of "CHR ''.''" hms] dot by simp
  have fv: "parse_fraction (if nanos > 0 then Some G else None) = Some (int nanos)"
    using n parse_fraction_format[of nanos] by (simp add: G_def parse_fraction_def[of None])
  show ?thesis using parse_nanos_parts[OF split date fr hms fv] by (simp only: secs)
qed

text \<open>The clock reads between the epoch and the last second an \<open>i64\<close> holds.\<close>

definition clock_ok :: "nat \<Rightarrow> bool" where
  "clock_ok t \<longleftrightarrow> t < 10 ^ 9 * 2 ^ 62"

lemma unix_nanos_format:
  assumes "0 \<le> secs" "secs \<le> i64_max" "nanos < 10 ^ 9"
  shows "unix_nanos_from_rfc3339 (rfc3339_from_unix secs nanos) = secs * 10 ^ 9 + int nanos"
proof -
  have p: "parse_rfc3339_nanos (rfc3339_from_unix secs nanos) = Some (secs * 10 ^ 9 + int nanos)"
    by (rule parse_rfc3339_nanos_format) (use assms in \<open>auto simp: rfc3339_range_def\<close>)
  have "parse_rfc3339_nanos ZERO_TIME = Some (- 62135596800000000000)" by code_simp
  with p assms have "rfc3339_from_unix secs nanos \<noteq> ZERO_TIME" by auto
  moreover have "rfc3339_from_unix secs nanos \<noteq> []" by (simp add: rfc3339_from_unix_def Let_def split: prod.splits)
  ultimately show ?thesis by (simp add: unix_nanos_from_rfc3339_def p)
qed

lemma now_nanos: "clock_ok t \<Longrightarrow> unix_nanos_from_rfc3339 (now_rfc3339 t) = int t"
proof -
  assume "clock_ok t"
  then have "t div 10 ^ 9 < 2 ^ 62" unfolding clock_ok_def by (intro less_mult_imp_div_less) (simp add: mult.commute)
  then have b: "int (t div 10 ^ 9) \<le> i64_max" "0 \<le> int (t div 10 ^ 9)" by (simp_all add: zdiv_int)
  have "int (t div 10 ^ 9) * 10 ^ 9 + int (t mod 10 ^ 9) = int t"
    by (simp add: zdiv_int zmod_int)
  with unix_nanos_format[OF b(2,1), of "t mod 10 ^ 9"] b
  show ?thesis by (simp add: now_rfc3339_def)
qed

lemma add_seconds_nanos:
  assumes "clock_ok t" "0 \<le> v" "v \<le> 2 ^ 61"
  shows "unix_nanos_from_rfc3339 (add_seconds (now_rfc3339 t) v) = int t + v * 10 ^ 9"
proof -
  let ?n = "int t + v * 10 ^ 9"
  have t: "int t < 10 ^ 9 * 2 ^ 62" using assms(1) unfolding clock_ok_def by simp
  have n: "0 \<le> ?n" "?n < 10 ^ 9 * (2 ^ 62 + 2 ^ 61)" using t assms(2,3) by simp_all
  then have w: "wrap_s 128 ?n = ?n" by (intro wrap_s128_id) simp_all
  have d: "0 \<le> ?n div 10 ^ 9" "?n div 10 ^ 9 \<le> i64_max" using n by simp_all
  have m: "nat (?n mod 10 ^ 9) < 10 ^ 9" "0 \<le> ?n mod 10 ^ 9" by simp_all
  have "add_seconds (now_rfc3339 t) v = rfc3339_from_unix (?n div 10 ^ 9) (nat (?n mod 10 ^ 9))"
    unfolding add_seconds_def now_nanos[OF assms(1)] Let_def w using d by simp
  then show ?thesis using unix_nanos_format[OF d m(1)] m(2) by simp
qed


lemma parse_rfc3339_secs_nanos:
  "parse_rfc3339_nanos s = Some v \<Longrightarrow> \<exists>secs nanos. parse_rfc3339_secs s = Some secs \<and>
     v = secs * 10 ^ 9 + nanos \<and> 0 \<le> nanos \<and> nanos < 10 ^ 9"
proof -
  have frac: "0 \<le> n \<and> n < 10 ^ 9" if "parse_fraction f = Some n" for f n
  proof (cases f)
    case None
    then show ?thesis using that by (simp add: parse_fraction_def)
  next
    case (Some g)
    let ?p = "take 9 g @ replicate (9 - length (take 9 g)) (CHR ''0'')"
    have dg: "list_all is_ascii_digit g" "g \<noteq> []" and p: "parse_i128 ?p = Some n"
      using that Some by (auto simp: parse_fraction_def split: if_splits)
    have dp: "list_all is_ascii_digit ?p" "length ?p = 9"
      using dg by (auto simp: list_all_iff is_ascii_digit_def ascii_def dest: in_set_takeD)
    have "from_digits s < 10 ^ length s" if "list_all is_ascii_digit s" for s
      using that
    proof (induction s rule: rev_induct)
      case (snoc c s)
      then have "digit_val c < 10" by (auto simp: digit_val_def is_ascii_digit_def)
      with snoc show ?case by simp
    qed simp
    from this[OF dp(1)] dp(2) have "from_digits ?p < 10 ^ 9" by simp
    moreover have "n = int (from_digits ?p)"
      using p dp by (simp add: parse_signed_def split_sign_digits Let_def split: if_splits)
    ultimately show ?thesis by simp
  qed
  assume v: "parse_rfc3339_nanos s = Some v"
  then obtain date rest time y m d where A: "split_once (CHR ''T'') s = Some (date, rest)"
      "strip_zone rest = Some time" "parse_date date = Some (y, m, d)"
    by (auto simp: parse_rfc3339_nanos_def split: option.splits prod.splits)
  obtain hms f where B: "(case split_once (CHR ''.'') time of Some (h, f) \<Rightarrow> (h, Some f)
      | None \<Rightarrow> (time, None)) = (hms, f)" by fastforce
  then have H: "(case split_once (CHR ''.'') time of Some (h, _) \<Rightarrow> h | None \<Rightarrow> time) = hms"
    by (auto split: option.splits prod.splits)
  from v obtain h mi se n where "parse_hms hms = Some (h, mi, se)" "parse_fraction f = Some n"
      "v = (days_from_civil y m d * 86400 + h * 3600 + mi * 60 + se) * 10 ^ 9 + n"
    by (auto simp: parse_rfc3339_nanos_def A B Let_def split: option.splits)
  then show ?thesis using frac by (simp add: parse_rfc3339_secs_def A H Let_def)
qed

lemma parse_rfc3339_secs_format:
  assumes "rfc3339_range secs" "nanos < 10 ^ 9"
  shows "parse_rfc3339_secs (rfc3339_from_unix secs nanos) = Some secs"
proof -
  from parse_rfc3339_secs_nanos[OF parse_rfc3339_nanos_format[OF assms]]
  obtain s n where "parse_rfc3339_secs (rfc3339_from_unix secs nanos) = Some s"
    "secs * 10 ^ 9 + int nanos = s * 10 ^ 9 + n" "0 \<le> n" "n < 10 ^ 9" by blast
  moreover from this(2-4) assms(2) have "s = secs" by simp
  ultimately show ?thesis by simp
qed

section \<open>Time as an interface\<close>

text \<open>What the message queue relies on: time stamps taken from the clock are ordered as the clock
  readings, and a deadline set \<open>v\<close> seconds after a reading passes exactly \<open>v\<close> seconds later.\<close>

locale timeline =
  fixes stamp :: "nat \<Rightarrow> 't"
    and plus :: "'t \<Rightarrow> int \<Rightarrow> 't"
    and earlier :: "'t \<Rightarrow> 't \<Rightarrow> bool"
    and valid :: "nat \<Rightarrow> bool"
  assumes earlier_stamp: "valid t \<Longrightarrow> valid u \<Longrightarrow> earlier (stamp t) (stamp u) \<longleftrightarrow> t < u"
    and earlier_plus: "valid t \<Longrightarrow> valid u \<Longrightarrow> 0 \<le> v \<Longrightarrow> v \<le> 2 ^ 61 \<Longrightarrow>
      earlier (stamp t) (plus (stamp u) v) \<longleftrightarrow> int t < int u + v * 10 ^ 9"
begin

lemma deadline_pending:
  "valid t \<Longrightarrow> valid u \<Longrightarrow> 0 \<le> v \<Longrightarrow> v \<le> 2 ^ 61 \<Longrightarrow> int t < int u + v * 10 ^ 9 \<Longrightarrow>
   earlier (stamp t) (plus (stamp u) v)"
  by (simp add: earlier_plus)

lemma deadline_passed:
  "valid t \<Longrightarrow> valid u \<Longrightarrow> 0 \<le> v \<Longrightarrow> v \<le> 2 ^ 61 \<Longrightarrow> int u + v * 10 ^ 9 \<le> int t \<Longrightarrow>
   \<not> earlier (stamp t) (plus (stamp u) v)"
  by (simp add: earlier_plus)

lemma no_time_passed:
  "valid t \<Longrightarrow> 0 < v \<Longrightarrow> v \<le> 2 ^ 61 \<Longrightarrow> earlier (stamp t) (plus (stamp t) v)"
  by (simp add: earlier_plus)

end

interpretation rfc: timeline now_rfc3339 add_seconds before clock_ok
  by unfold_locales (simp_all add: before_def now_nanos add_seconds_nanos)

lemma zero_time_not_after_now [simp]:
  "clock_ok t \<Longrightarrow> \<not> before (now_rfc3339 t) ZERO_TIME"
  by (simp add: before_def now_nanos) (simp add: unix_nanos_from_rfc3339_def)

section \<open>Properties\<close>

text \<open>C37. Every instant from the year 0 to the last second of an \<open>i64\<close>, formatted by
  \<open>rfc3339_from_unix\<close> with any nanosecond fraction, is read back exactly by both parsers.\<close>

theorem rfc3339_roundtrip:
  assumes "rfc3339_range secs" "nanos < 10 ^ 9"
  shows "parse_rfc3339_nanos (rfc3339_from_unix secs nanos) = Some (secs * 10 ^ 9 + int nanos) \<and>
    parse_rfc3339_secs (rfc3339_from_unix secs nanos) = Some secs"
  by (simp add: parse_rfc3339_nanos_format[OF assms] parse_rfc3339_secs_format[OF assms])

theorem rfc3339_roundtrip_witness:
  "rfc3339_from_unix 1780142400 500000000 = ''2026-05-30T12:00:00.5Z'' \<and>
   parse_rfc3339_nanos ''2026-05-30T12:00:00.5Z'' = Some 1780142400500000000 \<and>
   parse_rfc3339_secs ''2026-05-30T12:00:00.5Z'' = Some 1780142400"
proof -
  have f: "rfc3339_from_unix 1780142400 500000000 = ''2026-05-30T12:00:00.5Z''" by code_simp
  have "rfc3339_range 1780142400" by (simp add: rfc3339_range_def)
  from rfc3339_roundtrip[OF this, of 500000000] f show ?thesis by simp
qed

text \<open>A deadline computed by \<open>add_seconds\<close> from a clock reading \<open>u\<close> is still ahead of a reading
  \<open>t\<close>, as \<open>before\<close> compares the strings, exactly when fewer than \<open>v\<close> seconds separate them; so
  string time stamps order deadlines as real time does, at nanosecond precision.\<close>

theorem deadline_order:
  assumes "clock_ok t" "clock_ok u" "0 \<le> v" "v \<le> 2 ^ 61"
  shows "before (now_rfc3339 t) (add_seconds (now_rfc3339 u) v) \<longleftrightarrow> int t < int u + v * 10 ^ 9"
  using assms by (rule rfc.earlier_plus)

theorem deadline_order_witness:
  "before (now_rfc3339 1780142429999999999) (add_seconds (now_rfc3339 1780142400000000000) 30) \<and>
   \<not> before (now_rfc3339 1780142430000000000) (add_seconds (now_rfc3339 1780142400000000000) 30)"
proof -
  have "clock_ok 1780142429999999999" "clock_ok 1780142430000000000" "clock_ok 1780142400000000000"
    by (simp_all add: clock_ok_def)
  then show ?thesis
    using deadline_order[of 1780142429999999999 1780142400000000000 30]
      deadline_order[of 1780142430000000000 1780142400000000000 30] by simp
qed

end
