(* ===== verification/Json_Value.thy ===== *)
theory Json_Value
  imports Ordered_Map
begin

text \<open>
  \<open>serde_json::Value\<close> and its accessors. A number is an integer of at most 64 bits or a finite \<open>f64\<close>,
  which is \<open>m * 2 ^ e\<close> for integers \<open>m\<close> and \<open>e\<close>. An object is a \<open>BTreeMap\<close> (the crate is used without
  \<open>preserve_order\<close>), an association list sorted by key. The conversions between integers and \<open>f64\<close> that the services
  use on numbers are here too.
\<close>

datatype json_number = Int_num int | Float_num int int

datatype json =
    Null
  | Bool bool
  | Number json_number
  | String string
  | Array "json list"
  | Object "(string \<times> json) list"

fun as_object :: "json \<Rightarrow> (string, json) bmap option" where
  "as_object (Object es) = Some es"
| "as_object _ = None"

fun as_array :: "json \<Rightarrow> json list option" where
  "as_array (Array vs) = Some vs"
| "as_array _ = None"

fun as_str :: "json \<Rightarrow> string option" where
  "as_str (String s) = Some s"
| "as_str _ = None"

fun as_bool :: "json \<Rightarrow> bool option" where
  "as_bool (Bool b) = Some b"
| "as_bool _ = None"

text \<open>\<open>v.as_object().and_then(|o| o.get(k))\<close>, and the same followed by \<open>as_str\<close> or \<open>as_array\<close>.\<close>

definition member :: "json \<Rightarrow> string \<Rightarrow> json option" where
  "member v k = Option.bind (as_object v) (\<lambda>es. map_of es k)"

definition member_str :: "json \<Rightarrow> string \<Rightarrow> string option" where
  "member_str v k = Option.bind (member v k) as_str"

definition member_array :: "json \<Rightarrow> string \<Rightarrow> json list option" where
  "member_array v k = Option.bind (member v k) as_array"

text \<open>An integer as the nearest \<open>f64\<close> (ties to even), the integral value of a number read as \<open>f64\<close>, and the saturating cast back.\<close>

fun bit_len :: "nat \<Rightarrow> nat" where
  "bit_len n = (if n = 0 then 0 else Suc (bit_len (n div 2)))"

declare bit_len.simps [simp del]

definition f64_of_nat :: "nat \<Rightarrow> nat" where
  "f64_of_nat n =
     (let b = bit_len n in
      if b \<le> 53 then n
      else let sh = b - 53; q = n div 2 ^ sh; r = n mod 2 ^ sh; half = 2 ^ (sh - 1);
               q' = (if r > half \<or> (r = half \<and> odd q) then Suc q else q)
           in q' * 2 ^ sh)"

definition f64_of_int :: "int \<Rightarrow> int" where
  "f64_of_int i = (if i < 0 then - int (f64_of_nat (nat (- i))) else int (f64_of_nat (nat i)))"

text \<open>The integral value of \<open>as_f64\<close>, when the number has one.\<close>

definition integral_f64 :: "json_number \<Rightarrow> int option" where
  "integral_f64 n =
     (case n of
        Int_num i \<Rightarrow> Some (f64_of_int i)
      | Float_num m e \<Rightarrow>
          if e \<ge> 0 then Some (m * 2 ^ nat e)
          else if m mod 2 ^ nat (- e) = 0 then Some (m div 2 ^ nat (- e)) else None)"

definition saturate_i64 :: "int \<Rightarrow> int" where
  "saturate_i64 x = max i64_min (min i64_max x)"

text \<open>\<open>as_i64\<close>: the value of an integer that fits; a float has none.\<close>

fun as_i64 :: "json \<Rightarrow> int option" where
  "as_i64 (Number (Int_num i)) = (if i64_min \<le> i \<and> i \<le> i64_max then Some i else None)"
| "as_i64 _ = None"

lemma as_object_Some [simp]: "as_object v = Some es \<longleftrightarrow> v = Object es"
  by (cases v) auto

lemma as_array_Some [simp]: "as_array v = Some vs \<longleftrightarrow> v = Array vs"
  by (cases v) auto

lemma as_str_Some [simp]: "as_str v = Some s \<longleftrightarrow> v = String s"
  by (cases v) auto

lemma as_bool_Some [simp]: "as_bool v = Some b \<longleftrightarrow> v = Bool b"
  by (cases v) auto

lemma member_Object [simp]: "member (Object es) k = map_of es k"
  by (simp add: member_def)

lemma member_str_Object [simp]: "member_str (Object es) k = Option.bind (map_of es k) as_str"
  by (simp add: member_str_def)

lemma member_array_Object [simp]: "member_array (Object es) k = Option.bind (map_of es k) as_array"
  by (simp add: member_array_def)

end
