(* ===== verification/Sqs_Types.thy ===== *)
theory Sqs_Types
  imports Time_Fmt Json_Value
begin

text \<open>
  The data of the SQS service (\<open>services/sqs/src/model.rs\<close>, the policy types of \<open>policy.rs\<close>) and its
  leaf functions: \<open>errors.rs\<close> (message to AWS error code), \<open>validation.rs\<close> and \<open>hashing.rs\<close>.
  Code the crate imports from third parties is a parameter, the record \<open>crates\<close>: MD5 and SHA-256
  digests, base64 decoding, and serde's JSON reader and writer.
\<close>

section \<open>Data\<close>

record message_attribute_value =
  data_type :: string
  string_value :: string
  binary_value :: string
  string_list_values :: "string list"
  binary_list_values :: "string list"

type_synonym attribute_map = "(string, message_attribute_value) bmap"

record message_state =
  m_id :: string
  m_body :: string
  body_md5 :: string
  m_attributes :: attribute_map
  system_attributes :: attribute_map
  sent_at :: string
  available_at :: string
  invisible_until :: string
  receive_count :: int
  first_receive_at :: string
  receipt_handle :: string
  deleted :: bool
  message_group_id :: string
  deduplication_id :: string
  sequence_number :: string
  dead_letter_source_arn :: string

record deduplication_state =
  expires_at :: string
  dedup_message :: "message_state option"

record move_task_state =
  task_handle :: string
  source_arn :: string
  destination_arn :: string
  status :: string
  started_at :: string
  approximate_number_of_messages_moved :: int

record queue_policy_principal =
  aws :: "string list"

record queue_policy_statement =
  sid :: string
  effect :: string
  principal :: queue_policy_principal
  action :: "string list"
  resource :: string

record queue_policy =
  version :: string
  policy_id :: string
  statement :: "queue_policy_statement list"

record redrive_policy =
  dead_letter_target_arn :: string
  max_receive_count :: int

record redrive_allow_policy =
  permission :: string
  source_queue_arns :: "string list"

record crates =
  md5_digest :: "string \<Rightarrow> string"
  sha256_digest :: "string \<Rightarrow> string"
  base64_decode :: "string \<Rightarrow> string option"
  json_from_str :: "string \<Rightarrow> json option"
  policy_from_str :: "string \<Rightarrow> queue_policy option"
  policy_to_string :: "queue_policy \<Rightarrow> string result"

section \<open>Error codes\<close>

text \<open>
  \<open>to_lowercase\<close> is Unicode; for the ASCII patterns below it agrees with ASCII lower-casing, because
  only U+212A (to \<open>k\<close>) and U+0130 (to \<open>i\<close> followed by U+0307) lower-case to ASCII letters, no
  pattern contains \<open>k\<close>, and every \<open>i\<close> of a pattern is followed by an ASCII character of it.
\<close>

definition error_code :: "string \<Rightarrow> string" where
  "error_code err =
     (let m = to_ascii_lowercase err in
      if contains_sub m ''queue name exists'' then ''QueueNameExists''
      else if contains_sub m ''queue does not exist'' then ''QueueDoesNotExist''
      else if contains_sub m ''receipt handle is invalid'' then ''ReceiptHandleIsInvalid''
      else if contains_sub m ''batch entry id must be unique'' then ''BatchEntryIdsNotDistinct''
      else if contains_sub m ''batch entry id'' then ''InvalidBatchEntryId''
      else if contains_sub m ''attribute name'' then ''InvalidAttributeName''
      else if contains_sub m ''attribute value'' then ''InvalidAttributeValue''
      else if contains_sub m ''invalid characters'' then ''InvalidMessageContents''
      else ''InvalidParameterValue'')"

section \<open>Validation\<close>

definition is_alnum_cp :: "nat \<Rightarrow> bool" where
  "is_alnum_cp c \<longleftrightarrow> (48 \<le> c \<and> c \<le> 57) \<or> (65 \<le> c \<and> c \<le> 90) \<or> (97 \<le> c \<and> c \<le> 122)"

definition validate_message_attribute_name :: "string \<Rightarrow> unit result" where
  "validate_message_attribute_name name =
     (let lower = to_ascii_lowercase name in
      if name = [] then Inl ''invalid attribute name: message attribute name is required''
      else if length name > 256 then
        Inl ''invalid attribute name: message attribute name must be no longer than 256 characters''
      else if starts_with lower ''aws.'' \<or> starts_with lower ''amazon.'' then
        Inl ''invalid attribute name: message attribute name must not start with AWS. or Amazon.''
      else if starts_with name ''.'' \<or> ends_with name ''.'' \<or> contains_sub name ''..'' then
        Inl ''invalid attribute name: message attribute name must not start or end with a period or contain consecutive periods''
      else if \<not> list_all (\<lambda>r. is_alnum_cp r \<or> r = 95 \<or> r = 45 \<or> r = 46) (chars name) then
        Inl ''invalid attribute name: message attribute name contains unsupported characters''
      else Inr ())"

definition is_unsupported_list_type :: "string \<Rightarrow> bool" where
  "is_unsupported_list_type t \<longleftrightarrow>
     t = ''string.list'' \<or> starts_with t ''string.list.'' \<or>
     t = ''binary.list'' \<or> starts_with t ''binary.list.''"

text \<open>The strings \<open>f64::from_str\<close> accepts.\<close>

definition f64_number :: "string \<Rightarrow> bool" where
  "f64_number r =
     (let ip = takeWhile is_ascii_digit r;
          r1 = dropWhile is_ascii_digit r;
          dot = (case r1 of c # _ \<Rightarrow> c = CHR ''.'' | [] \<Rightarrow> False);
          fp = (if dot then takeWhile is_ascii_digit (tl r1) else []);
          r2 = (if dot then dropWhile is_ascii_digit (tl r1) else r1)
      in (ip \<noteq> [] \<or> fp \<noteq> []) \<and>
         (case r2 of [] \<Rightarrow> True
          | c # r3 \<Rightarrow> (c = CHR ''e'' \<or> c = CHR ''E'') \<and>
              snd (split_sign r3) \<noteq> [] \<and> list_all is_ascii_digit (snd (split_sign r3))))"

definition f64_parses :: "string \<Rightarrow> bool" where
  "f64_parses s =
     (let r = snd (split_sign s); l = to_ascii_lowercase r
      in l = ''inf'' \<or> l = ''infinity'' \<or> l = ''nan'' \<or> f64_number r)"

definition validate_message_attribute_value ::
    "crates \<Rightarrow> string \<Rightarrow> message_attribute_value \<Rightarrow> unit result" where
  "validate_message_attribute_value X name attr =
     (let dt = to_ascii_lowercase (data_type attr);
          pre = ''invalid attribute value for '' @ name in
      if trim (data_type attr) = [] then Inl (pre @ '': DataType is required'')
      else if is_unsupported_list_type dt then Inl (pre @ '': list DataType is not supported'')
      else if starts_with dt ''string'' then Inr ()
      else if starts_with dt ''number'' then
        (if \<not> f64_parses (string_value attr) then Inl (pre @ '': Number attributes must be numeric'')
         else Inr ())
      else if starts_with dt ''binary'' then
        (if binary_value attr = [] then Inl (pre @ '': BinaryValue is required'')
         else if base64_decode X (binary_value attr) = None then Inl (pre @ '': BinaryValue must be base64'')
         else Inr ())
      else Inl (pre @ '': unsupported DataType''))"

definition validate_message_system_attribute ::
    "crates \<Rightarrow> string \<Rightarrow> message_attribute_value \<Rightarrow> unit result" where
  "validate_message_system_attribute X name attr =
     (if name \<noteq> ''AWSTraceHeader'' then
        Inl (''invalid attribute value: unsupported message system attribute '' @ name)
      else validate_message_attribute_value X name attr)"

definition valid_message_body :: "string \<Rightarrow> bool" where
  "valid_message_body body =
     list_all (\<lambda>c. c \<noteq> 0xFFFD \<and>
       (c = 9 \<or> c = 10 \<or> c = 13 \<or> (0x20 \<le> c \<and> c \<le> 0xD7FF) \<or> (0xE000 \<le> c \<and> c \<le> 0xFFFD) \<or>
        (0x10000 \<le> c \<and> c \<le> 0x10FFFF))) (chars body)"

definition valid_batch_entry_id :: "string \<Rightarrow> bool" where
  "valid_batch_entry_id i =
     (let len = length (chars i) in
      len \<noteq> 0 \<and> len \<le> 80 \<and> list_all (\<lambda>c. is_alnum_cp c \<or> c = 95 \<or> c = 45) (chars i))"

definition valid_queue_name :: "string \<Rightarrow> bool" where
  "valid_queue_name name =
     (let base = (case strip_suffix name ''.fifo'' of Some b \<Rightarrow> b | None \<Rightarrow> name);
          len = length (chars base) in
      len \<noteq> 0 \<and> len \<le> 80 \<and> list_all (\<lambda>c. is_alnum_cp c \<or> c = 95 \<or> c = 45) (chars base))"

section \<open>Digests\<close>

definition hex_lower :: "string \<Rightarrow> string" where
  "hex_lower bytes = concat (map (\<lambda>b. zero_pad 2 (hex (ascii b))) bytes)"

definition md5_hex :: "crates \<Rightarrow> string \<Rightarrow> string" where
  "md5_hex X v = hex_lower (md5_digest X v)"

text \<open>\<open>(len as u32).to_be_bytes()\<close>.\<close>

definition be32 :: "nat \<Rightarrow> string" where
  "be32 n = map (\<lambda>k. char_of (n div 256 ^ k mod 256)) [3, 2, 1, 0]"

definition write_attr_bytes :: "string \<Rightarrow> string \<Rightarrow> string" where
  "write_attr_bytes buf v = buf @ be32 (length v) @ v"

definition write_attr_string :: "string \<Rightarrow> string \<Rightarrow> string" where
  "write_attr_string buf v = write_attr_bytes buf v"

definition decode_binary_attribute :: "crates \<Rightarrow> string \<Rightarrow> string" where
  "decode_binary_attribute X v = (case base64_decode X v of Some d \<Rightarrow> d | None \<Rightarrow> v)"

definition write_attribute :: "crates \<Rightarrow> string \<Rightarrow> string \<times> message_attribute_value \<Rightarrow> string" where
  "write_attribute X payload entry =
     (let (name, attr) = entry;
          p1 = write_attr_string payload name;
          p2 = write_attr_string p1 (data_type attr)
      in if starts_with (to_ascii_lowercase (data_type attr)) ''binary''
         then write_attr_bytes (p2 @ [char_of (2::nat)]) (decode_binary_attribute X (binary_value attr))
         else write_attr_string (p2 @ [char_of (1::nat)]) (string_value attr))"

definition attribute_payload :: "crates \<Rightarrow> attribute_map \<Rightarrow> string" where
  "attribute_payload X attrs = foldl (write_attribute X) [] attrs"

definition md5_of_message_attributes :: "crates \<Rightarrow> attribute_map \<Rightarrow> string" where
  "md5_of_message_attributes X attrs =
     (if attrs = [] then [] else hex_lower (md5_digest X (attribute_payload X attrs)))"

section \<open>The attribute digest covers every attribute\<close>

text \<open>What the digest of one attribute is computed from: its name, its data type and its value
  as the receiver decodes it.\<close>

definition attribute_view :: "crates \<Rightarrow> string \<times> message_attribute_value \<Rightarrow> string \<times> string \<times> string" where
  "attribute_view X e = (fst e, data_type (snd e),
     if starts_with (to_ascii_lowercase (data_type (snd e))) ''binary''
     then decode_binary_attribute X (binary_value (snd e)) else string_value (snd e))"

text \<open>Lengths are written as \<open>u32\<close>, so strings shorter than 4 GiB keep their length.\<close>

definition attribute_sized :: "crates \<Rightarrow> string \<times> message_attribute_value \<Rightarrow> bool" where
  "attribute_sized X e =
     (let (n, d, v) = attribute_view X e
      in length n < 2 ^ 32 \<and> length d < 2 ^ 32 \<and> length v < 2 ^ 32)"

fun encode_view :: "string \<times> string \<times> string \<Rightarrow> string" where
  "encode_view (n, d, v) =
     be32 (length n) @ n @ be32 (length d) @ d @
     (if starts_with (to_ascii_lowercase d) ''binary'' then [char_of (2::nat)] else [char_of (1::nat)]) @
     be32 (length v) @ v"

lemma length_be32 [simp]: "length (be32 n) = 4"
  by (simp add: be32_def)

lemma be32_inj: "m < 2 ^ 32 \<Longrightarrow> n < 2 ^ 32 \<Longrightarrow> be32 m = be32 n \<longleftrightarrow> m = n"
proof -
  have dec: "k = foldl (\<lambda>a c. 256 * a + of_char c) 0 (be32 k)" if "k < 2 ^ 32" for k :: nat
  proof -
    have a: "k div 65536 = k div 256 div 256" "k div 16777216 = k div 256 div 256 div 256"
      by (simp_all add: div_mult2_eq[symmetric])
    have "k div 256 div 256 div 256 < 256" using that by (simp add: div_mult2_eq[symmetric])
    then show ?thesis by (simp add: be32_def a)
  qed
  show "m < 2 ^ 32 \<Longrightarrow> n < 2 ^ 32 \<Longrightarrow> be32 m = be32 n \<longleftrightarrow> m = n" using dec by metis
qed

lemma framed_inj:
  assumes "length x < 2 ^ 32" "length y < 2 ^ 32"
    and "be32 (length x) @ x @ r = be32 (length y) @ y @ s"
  shows "x = y \<and> r = s"
proof -
  have "be32 (length x) = be32 (length y)" and xr: "x @ r = y @ s" using assms(3) by simp_all
  then have "length x = length y" using be32_inj assms(1,2) by simp
  with xr show ?thesis by simp
qed

lemma attribute_payload_concat:
  "attribute_payload X attrs = concat (map (\<lambda>e. encode_view (attribute_view X e)) attrs)"
proof -
  have "write_attribute X p e = p @ encode_view (attribute_view X e)" for p e
    by (simp add: write_attribute_def attribute_view_def write_attr_string_def write_attr_bytes_def
        Let_def split: prod.splits)
  then have "foldl (write_attribute X) p attrs = p @ concat (map (\<lambda>e. encode_view (attribute_view X e)) attrs)" for p
    by (induction attrs arbitrary: p) simp_all
  then show ?thesis by (simp add: attribute_payload_def)
qed

lemma encode_view_frame:
  assumes "length n < 2 ^ 32" "length d < 2 ^ 32" "length v < 2 ^ 32"
    and "length n' < 2 ^ 32" "length d' < 2 ^ 32" "length v' < 2 ^ 32"
    and eq: "encode_view (n, d, v) @ r = encode_view (n', d', v') @ s"
  shows "(n, d, v) = (n', d', v') \<and> r = s"
proof -
  let ?b = "\<lambda>d. if starts_with (to_ascii_lowercase d) ''binary'' then [char_of (2::nat)] else [char_of (1::nat)]"
  have 1: "n = n' \<and> be32 (length d) @ d @ (?b d @ be32 (length v) @ v @ r) =
      be32 (length d') @ d' @ (?b d' @ be32 (length v') @ v' @ s)"
    using eq by (intro framed_inj[OF assms(1,4)]) simp
  then have 2: "d = d' \<and> ?b d @ be32 (length v) @ v @ r = ?b d' @ be32 (length v') @ v' @ s"
    using framed_inj[OF assms(2,5)] by blast
  then have "be32 (length v) @ v @ r = be32 (length v') @ v' @ s" by simp
  then have "v = v' \<and> r = s" using framed_inj[OF assms(3,6)] by blast
  with 1 2 show ?thesis by simp
qed

text \<open>The byte string whose MD5 is \<open>MD5OfMessageAttributes\<close> determines the attributes: two attribute
  maps with the same payload have the same names, data types and decoded values in the same
  order, so no two different attribute sets are confused before hashing.\<close>

theorem attribute_payload_injective:
  assumes "list_all (attribute_sized X) a" "list_all (attribute_sized X) b"
    and "attribute_payload X a = attribute_payload X b"
  shows "map (attribute_view X) a = map (attribute_view X) b"
  using assms unfolding attribute_payload_concat
proof (induction a arbitrary: b)
  case Nil
  then show ?case by (cases b) (auto simp: be32_def attribute_view_def)
next
  case (Cons e a)
  obtain n d v where e: "attribute_view X e = (n, d, v)" by (metis prod_cases3)
  from Cons.prems(3) obtain f b' where b: "b = f # b'" by (cases b) (auto simp: be32_def e)
  obtain n' d' v' where f: "attribute_view X f = (n', d', v')" by (metis prod_cases3)
  have eq: "encode_view (n, d, v) @ concat (map (\<lambda>e. encode_view (attribute_view X e)) a) =
      encode_view (n', d', v') @ concat (map (\<lambda>e. encode_view (attribute_view X e)) b')"
    using Cons.prems(3) b e f by (simp del: encode_view.simps)
  have "(n, d, v) = (n', d', v') \<and> concat (map (\<lambda>e. encode_view (attribute_view X e)) a) =
      concat (map (\<lambda>e. encode_view (attribute_view X e)) b')"
    by (rule encode_view_frame[OF _ _ _ _ _ _ eq])
      (use Cons.prems(1,2) b e f in \<open>auto simp: attribute_sized_def\<close>)
  with Cons.IH[of b'] Cons.prems(1,2) b e f show ?case by simp
qed

definition no_crates :: crates where
  "no_crates = \<lparr>md5_digest = (\<lambda>_. []), sha256_digest = (\<lambda>_. []), base64_decode = (\<lambda>_. None),
     json_from_str = (\<lambda>_. None), policy_from_str = (\<lambda>_. None), policy_to_string = (\<lambda>_. Inl [])\<rparr>"

definition string_attribute :: "string \<Rightarrow> message_attribute_value" where
  "string_attribute v = \<lparr>data_type = ''String'', string_value = v, binary_value = [],
     string_list_values = [], binary_list_values = []\<rparr>"

theorem attribute_payload_injective_witness:
  "list_all (attribute_sized no_crates) [(''a'', string_attribute ''xy'')] \<and>
   attribute_payload no_crates [(''a'', string_attribute ''xy'')] \<noteq>
   attribute_payload no_crates [(''ax'', string_attribute ''y'')]"
proof -
  have s: "list_all (attribute_sized no_crates) [(''a'', string_attribute ''xy'')]"
    "list_all (attribute_sized no_crates) [(''ax'', string_attribute ''y'')]"
    by (simp_all add: attribute_sized_def attribute_view_def string_attribute_def rust_defs)
  have "map (attribute_view no_crates) [(''a'', string_attribute ''xy'')] \<noteq>
      map (attribute_view no_crates) [(''ax'', string_attribute ''y'')]"
    by (simp add: attribute_view_def)
  with attribute_payload_injective[OF s] s show ?thesis by blast
qed

section \<open>Queue names\<close>

lemma id_chars_ascii:
  "list_all (\<lambda>c. is_alnum_cp c \<or> c = 95 \<or> c = 45) (chars s) \<Longrightarrow> chars s = map ascii s"
  by (rule chars_small) (auto simp: list_all_iff is_alnum_cp_def)

definition id_char :: "char \<Rightarrow> bool" where
  "id_char c \<longleftrightarrow> is_ascii_alphanumeric c \<or> c = CHR ''_'' \<or> c = CHR ''-''"

lemma ascii_eq_iff: "ascii c = ascii d \<longleftrightarrow> c = d"
  by (simp add: ascii_def)

lemma id_chars_bytes:
  "list_all (\<lambda>c. is_alnum_cp c \<or> c = 95 \<or> c = 45) (chars s) \<longleftrightarrow> list_all id_char s"
proof -
  have cp: "(is_alnum_cp (ascii c) \<or> ascii c = 95 \<or> ascii c = 45) \<longleftrightarrow> id_char c" for c
  proof -
    have "ascii c = 95 \<longleftrightarrow> c = CHR ''_''" "ascii c = 45 \<longleftrightarrow> c = CHR ''-''"
      using ascii_eq_iff[of c "CHR ''_''"] ascii_eq_iff[of c "CHR ''-''"] by (simp_all add: ascii_def)
    then show ?thesis
      by (auto simp: id_char_def is_alnum_cp_def is_ascii_alphanumeric_def is_ascii_digit_def
          is_ascii_uppercase_def is_ascii_lowercase_def)
  qed
  show ?thesis
  proof
    assume h: "list_all (\<lambda>c. is_alnum_cp c \<or> c = 95 \<or> c = 45) (chars s)"
    from h[unfolded id_chars_ascii[OF h]] show "list_all id_char s" by (auto simp: list_all_iff cp)
  next
    assume h: "list_all id_char s"
    have "ascii c < 0x80" if "c \<in> set s" for c
      using h that cp[of c] by (auto simp: list_all_iff is_alnum_cp_def)
    from chars_ascii[OF this] h show "list_all (\<lambda>c. is_alnum_cp c \<or> c = 95 \<or> c = 45) (chars s)"
      by (auto simp: list_all_iff cp)
  qed
qed

lemma id_chars_length: "list_all id_char s \<Longrightarrow> length (chars s) = length s"
  using id_chars_ascii[of s] id_chars_bytes[of s] by simp

lemma id_char_dot [simp]: "\<not> id_char (CHR ''.'')"
  by (simp add: id_char_def rust_defs)

text \<open>A queue name is accepted exactly when it matches the documented pattern
  \<open>^[A-Za-z0-9_-]{1,80}(.fifo)?$\<close>.\<close>

theorem valid_queue_name_pattern:
  "valid_queue_name name \<longleftrightarrow>
     (\<exists>base suffix. name = base @ suffix \<and> list_all id_char base \<and> 1 \<le> length base \<and>
        length base \<le> 80 \<and> (suffix = [] \<or> suffix = ''.fifo''))"
proof -
  have main: "valid_queue_name (base @ suffix)"
    if "list_all id_char base" "1 \<le> length base" "length base \<le> 80" "suffix = [] \<or> suffix = ''.fifo''"
    for base suffix
  proof -
    have "strip_suffix base ''.fifo'' = None"
    proof (cases "strip_suffix base ''.fifo''")
      case (Some r)
      then have "CHR ''.'' \<in> set base" by (simp add: strip_suffix_Some)
      with that(1) show ?thesis by (auto simp: list_all_iff)
    qed
    with that id_chars_length[OF that(1)] show ?thesis
      by (auto simp: valid_queue_name_def Let_def id_chars_bytes)
  qed
  show ?thesis
  proof
    assume v: "valid_queue_name name"
    let ?b = "case strip_suffix name ''.fifo'' of Some b \<Rightarrow> b | None \<Rightarrow> name"
    have b: "list_all id_char ?b" "length ?b \<noteq> 0" "length ?b \<le> 80"
      using v id_chars_length by (auto simp: valid_queue_name_def Let_def id_chars_bytes)
    show "\<exists>base suffix. name = base @ suffix \<and> list_all id_char base \<and> 1 \<le> length base \<and>
        length base \<le> 80 \<and> (suffix = [] \<or> suffix = ''.fifo'')"
    proof (cases "strip_suffix name ''.fifo''")
      case None
      with b have "1 \<le> length name" by (cases name) auto
      with None b show ?thesis by (intro exI[of _ name] exI[of _ "[]"]) simp
    next
      case (Some r)
      with b have "1 \<le> length r" by (cases r) auto
      with Some b show ?thesis
        by (intro exI[of _ r] exI[of _ "''.fifo''"]) (simp add: strip_suffix_Some)
    qed
  next
    assume "\<exists>base suffix. name = base @ suffix \<and> list_all id_char base \<and> 1 \<le> length base \<and>
        length base \<le> 80 \<and> (suffix = [] \<or> suffix = ''.fifo'')"
    then show "valid_queue_name name" using main by blast
  qed
qed

end
