(* ===== verification/Sqs_Policy.thy ===== *)
theory Sqs_Policy
  imports Sqs_Types
begin

text \<open>
  \<open>services/sqs/src/policy.rs\<close>: reading the redrive policy and redrive-allow policy a queue carries as
  JSON text, and normalising permission actions. \<open>json_from_str\<close> of \<open>crates\<close> stands for
  \<open>serde_json::from_str\<close>; the accessors of \<open>serde_json::Value\<close> the code uses are written out, and so
  is the conversion of a JSON number through \<open>f64\<close> to \<open>i64\<close> (round to nearest even, then the
  saturating \<open>as i64\<close>).
\<close>

section \<open>JSON accessors\<close>

definition json_get :: "json \<Rightarrow> string \<Rightarrow> json option" where
  "json_get v k = (case v of Object m \<Rightarrow> map_of m k | _ \<Rightarrow> None)"

definition json_as_str :: "json \<Rightarrow> string option" where
  "json_as_str v = (case v of String s \<Rightarrow> Some s | _ \<Rightarrow> None)"

definition json_as_array :: "json \<Rightarrow> json list option" where
  "json_as_array v = (case v of Array xs \<Rightarrow> Some xs | _ \<Rightarrow> None)"

definition get_str :: "json \<Rightarrow> string \<Rightarrow> string option" where
  "get_str v k = Option.bind (json_get v k) json_as_str"

section \<open>Policies\<close>

definition parse_max_receive_count :: "json option \<Rightarrow> int result" where
  "parse_max_receive_count v =
     (case v of
        Some (String s) \<Rightarrow>
          or_else (parse_i64 s) ''RedrivePolicy maxReceiveCount must be an integer''
      | Some (Number n) \<Rightarrow>
          or_else (map_option saturate_i64 (integral_f64 n))
            ''RedrivePolicy maxReceiveCount must be an integer''
      | _ \<Rightarrow> Inr 0)"

definition parse_redrive_policy :: "crates \<Rightarrow> string \<Rightarrow> redrive_policy result" where
  "parse_redrive_policy X raw =
     (case json_from_str X raw of
        None \<Rightarrow> Inl ''RedrivePolicy must be valid JSON''
      | Some values \<Rightarrow>
          (let arn = (case get_str values ''deadLetterTargetArn'' of Some a \<Rightarrow> a | None \<Rightarrow> []) in
           (case parse_max_receive_count (json_get values ''maxReceiveCount'') of
              Inl e \<Rightarrow> Inl e
            | Inr n \<Rightarrow>
                if arn = [] then Inl ''RedrivePolicy deadLetterTargetArn is required''
                else Inr \<lparr>dead_letter_target_arn = arn, max_receive_count = n\<rparr>)))"

fun collect_arns :: "json list \<Rightarrow> string list result" where
  "collect_arns [] = Inr []"
| "collect_arns (j # js) =
     (case json_as_str j of
        Some arn \<Rightarrow>
          if arn \<noteq> [] then (case collect_arns js of Inl e \<Rightarrow> Inl e | Inr as \<Rightarrow> Inr (arn # as))
          else Inl ''RedriveAllowPolicy sourceQueueArns must contain queue ARNs''
      | None \<Rightarrow> Inl ''RedriveAllowPolicy sourceQueueArns must contain queue ARNs'')"

definition parse_redrive_allow_policy :: "crates \<Rightarrow> string \<Rightarrow> redrive_allow_policy result" where
  "parse_redrive_allow_policy X raw =
     (case json_from_str X raw of
        None \<Rightarrow> Inl ''RedriveAllowPolicy must be valid JSON''
      | Some values \<Rightarrow>
          (let perm = (case get_str values ''redrivePermission'' of
                         Some p \<Rightarrow> if p \<noteq> [] then p else ''allowAll''
                       | None \<Rightarrow> ''allowAll'') in
           if perm = ''allowAll'' \<or> perm = ''denyAll'' then
             Inr \<lparr>permission = perm, source_queue_arns = []\<rparr>
           else if perm = ''byQueue'' then
             (case Option.bind (json_get values ''sourceQueueArns'') json_as_array of
                None \<Rightarrow> Inl ''RedriveAllowPolicy sourceQueueArns is required for byQueue''
              | Some [] \<Rightarrow> Inl ''RedriveAllowPolicy sourceQueueArns is required for byQueue''
              | Some arns \<Rightarrow>
                  if length arns > 10 then
                    Inl ''RedriveAllowPolicy sourceQueueArns must contain no more than 10 queues''
                  else (case collect_arns arns of
                          Inl e \<Rightarrow> Inl e
                        | Inr as \<Rightarrow> Inr \<lparr>permission = perm, source_queue_arns = as\<rparr>))
           else Inl ''RedriveAllowPolicy redrivePermission must be allowAll, denyAll, or byQueue''))"

definition normalized_permission_actions :: "string list \<Rightarrow> string list" where
  "normalized_permission_actions actions =
     concat (map (\<lambda>a. if a = [] then []
                      else if a = ''*'' \<or> CHR '':'' \<in> set a then [a]
                      else [''SQS:'' @ a]) actions)"

section \<open>What the parsers guarantee\<close>

lemma collect_arns_ok:
  "collect_arns js = Inr as \<Longrightarrow> length as = length js \<and> [] \<notin> set as"
  by (induction js arbitrary: as) (auto split: option.splits if_splits sum.splits)

lemma f64_exact: "bit_len n \<le> 53 \<Longrightarrow> f64_of_nat n = n"
  by (simp add: f64_of_nat_def)

text \<open>A parsed allow policy has one of the three permissions, and \<open>byQueue\<close> names 1 to 10 sources.\<close>

lemma parse_redrive_allow_policy_ok:
  assumes "parse_redrive_allow_policy X raw = Inr p"
  shows "permission p = ''allowAll'' \<or> permission p = ''denyAll'' \<or>
    (permission p = ''byQueue'' \<and> source_queue_arns p \<noteq> [] \<and> length (source_queue_arns p) \<le> 10 \<and>
     [] \<notin> set (source_queue_arns p))"
  using assms
  by (auto simp: parse_redrive_allow_policy_def Let_def dest!: collect_arns_ok
      split: option.splits if_splits list.splits sum.splits)

lemma parse_redrive_policy_arn: "parse_redrive_policy X raw = Inr p \<Longrightarrow> dead_letter_target_arn p \<noteq> []"
  by (auto simp: parse_redrive_policy_def Let_def split: option.splits sum.splits if_splits)

end
