(* ===== verification/Contracts.thy ===== *)
theory Contracts
  imports Ordered_Map
begin

text \<open>
  What the servers have in common, as locales. \<open>durable\<close> is a server that keeps a store in memory and
  writes it to disk before it answers; its lemmas are the roll-back every handler performs when the
  write fails. \<open>invariant_machine\<close> is a server as a machine: if every admissible request keeps an
  invariant, every sequence of admissible requests does. What the environment decides during a call
  is the record \<open>env\<close>: the successive clock readings, in nanoseconds since the epoch, and the
  outcome of each file-system step of a write through a temporary file.
\<close>

section \<open>The environment of a call\<close>

record fs_outcome =
  create_dir_err :: "string option"
  write_err :: "string option"
  rename_err :: "string option"

record env =
  clock :: "nat \<Rightarrow> nat"
  fs :: fs_outcome

definition disk_ok :: fs_outcome where
  "disk_ok = \<lparr>create_dir_err = None, write_err = None, rename_err = None\<rparr>"

definition disk_full :: fs_outcome where
  "disk_full = \<lparr>create_dir_err = None, write_err = Some ''no space left on device'', rename_err = None\<rparr>"

text \<open>A clock that stands still and a disk that works.\<close>

definition env_at :: "nat \<Rightarrow> env" where
  "env_at t = \<lparr>clock = (\<lambda>_. t), fs = disk_ok\<rparr>"

definition t0 :: nat where
  "t0 = 1000000000"

lemma env_at_clock: "clock (env_at t) i = t" "fs (env_at t) = disk_ok"
  by (simp_all add: env_at_def)

section \<open>Durable stores\<close>

locale durable =
  fixes save :: "'io \<Rightarrow> 's \<Rightarrow> ('e + unit) \<times> 's"
    and mem :: "'s \<Rightarrow> 'm"
    and upd :: "('m \<Rightarrow> 'm) \<Rightarrow> 's \<Rightarrow> 's"
  assumes save_fail: "save io s = (Inl e, s') \<Longrightarrow> s' = s"
    and save_mem: "save io s = (r, s') \<Longrightarrow> mem s' = mem s"
    and mem_upd: "mem (upd f s) = f (mem s)"
    and upd_upd: "upd g (upd f s) = upd (g \<circ> f) s"
    and upd_id: "f (mem s) = mem s \<Longrightarrow> upd f s = s"
begin

lemma rollback:
  assumes "save io (upd f s) = (Inl e, s')" "g (f (mem s)) = mem s"
  shows "upd g s' = s"
proof -
  have "upd g s' = upd (g \<circ> f) s" using save_fail[OF assms(1)] by (simp add: upd_upd)
  also have "\<dots> = s" using assms(2) by (intro upd_id) simp
  finally show ?thesis .
qed

lemma rollback_via:
  assumes "save io t = (Inl e, s')" "t = upd f s" "upd g s' = u" "g (f (mem s)) = mem s"
  shows "u = s"
  using rollback[of io f s e s' g] assms by simp

lemma commit: "save io (upd f s) = (Inr u, s') \<Longrightarrow> mem s' = f (mem s)"
  by (auto simp: mem_upd dest: save_mem)

end

section \<open>Machines whose requests keep an invariant\<close>

locale invariant_machine =
  fixes step :: "'op \<Rightarrow> 's \<Rightarrow> 's"
    and admissible :: "'op \<Rightarrow> bool"
    and inv :: "'s \<Rightarrow> bool"
  assumes step_inv: "admissible op \<Longrightarrow> inv s \<Longrightarrow> inv (step op s)"
begin

lemma run_inv: "list_all admissible ops \<Longrightarrow> inv s \<Longrightarrow> inv (fold step ops s)"
  by (induction ops arbitrary: s) (auto simp: step_inv)

end

end
