(* ===== verification/Sqs_Server.thy ===== *)
theory Sqs_Server
  imports Sqs_Policy Contracts
begin

text \<open>
  \<open>services/sqs/src/server.rs\<close> and the schema of \<open>persistence.rs\<close>: configuration, queue life cycle,
  queue attributes, tags, permissions, and persistence to \<open>state.json\<close>.
  The \<open>Server\<close> struct is the record \<open>sqs_server\<close>, extended by what the process and the disk hold:
  \<open>state_file\<close> is the decoded content of \<open>state.json\<close> (\<open>None\<close> when there is no file), and the two
  counters are the \<open>static COUNTER\<close>s of \<open>messages.rs\<close> and \<open>move_tasks.rs\<close>. What the environment
  decides during a call is the record \<open>env\<close>: the successive clock readings, in nanoseconds since the
  epoch, and the outcome of each file-system step of \<open>persist\<close>. Serde's encoding of the persisted
  structs is not modelled: the file holds the struct.
  Every operation takes the server and returns its result with the server after it.
\<close>

section \<open>Configuration and state\<close>

record sqs_config =
  addr :: string
  region :: string
  account_id :: string
  queue_url_host :: string
  auth_mode :: string
  access_key_id :: string
  secret_access_key :: string
  storage_path :: string
  cfg_max_queues :: int
  cfg_max_message_bytes :: int
  cfg_max_receive_batch_size :: int
  cfg_default_visibility_timeout_seconds :: int
  cfg_default_delay_seconds :: int
  cfg_default_message_retention_seconds :: int
  cfg_default_receive_wait_time_seconds :: int

type_synonym str_map = "(string, string) bmap"

record queue_state =
  q_name :: string
  url :: string
  arn :: string
  q_attributes :: str_map
  tags :: str_map
  created_at :: string
  modified_at :: string
  messages :: "message_state list"
  sequence :: "64 word"
  dedup :: "(string, deduplication_state) bmap"

type_synonym queue_map = "(string, queue_state) bmap"
type_synonym task_map = "(string, move_task_state) bmap"

record persisted_queue =
  p_name :: string
  p_url :: string
  p_arn :: string
  p_attributes :: str_map
  p_tags :: str_map
  p_created_at :: string
  p_modified_at :: string
  p_messages :: "message_state list"
  p_sequence :: "64 word"
  p_dedup :: "(string, deduplication_state) bmap"

record persisted_state =
  p_queues :: "(string, persisted_queue) bmap"
  p_move_tasks :: task_map

record sqs_server =
  config :: sqs_config
  queues :: queue_map
  move_tasks :: task_map
  load_err :: "string option"
  state_file :: "persisted_state option"
  id_counter :: "64 word"
  task_counter :: "64 word"

record queue_identity =
  id_arn :: string
  id_created_at :: string

definition MAX_DELAY_SECONDS :: int where "MAX_DELAY_SECONDS = 900"

definition MAX_VISIBILITY_TIMEOUT_SECONDS :: int where "MAX_VISIBILITY_TIMEOUT_SECONDS = 43200"

definition default_str :: "string \<Rightarrow> string \<Rightarrow> string" where
  "default_str v fallback = (if v = [] then fallback else v)"

section \<open>Configuration getters\<close>

definition max_queues :: "sqs_config \<Rightarrow> int" where
  "max_queues c = (if cfg_max_queues c \<le> 0 then 256 else cfg_max_queues c)"

definition max_message_bytes :: "sqs_config \<Rightarrow> int" where
  "max_message_bytes c = (if cfg_max_message_bytes c \<le> 0 then 1024 * 1024 else cfg_max_message_bytes c)"

definition max_receive_batch_size :: "sqs_config \<Rightarrow> int" where
  "max_receive_batch_size c =
     (let v = cfg_max_receive_batch_size c in if v \<le> 0 \<or> v > 10 then 10 else v)"

definition default_visibility_timeout_seconds :: "sqs_config \<Rightarrow> int" where
  "default_visibility_timeout_seconds c =
     (if cfg_default_visibility_timeout_seconds c \<le> 0 then 30
      else cfg_default_visibility_timeout_seconds c)"

definition default_delay_seconds :: "sqs_config \<Rightarrow> int" where
  "default_delay_seconds c =
     (if cfg_default_delay_seconds c < 0 then 0 else cfg_default_delay_seconds c)"

definition default_message_retention_seconds :: "sqs_config \<Rightarrow> int" where
  "default_message_retention_seconds c =
     (if cfg_default_message_retention_seconds c \<le> 0 then 345600
      else cfg_default_message_retention_seconds c)"

definition default_receive_wait_time_seconds :: "sqs_config \<Rightarrow> int" where
  "default_receive_wait_time_seconds c = max 0 (min 20 (cfg_default_receive_wait_time_seconds c))"

section \<open>URLs and ARNs\<close>

definition queue_url :: "sqs_config \<Rightarrow> string \<Rightarrow> string" where
  "queue_url c name =
     (let host = (if queue_url_host c = [] then ''127.0.0.1'' else queue_url_host c);
          host' = (if CHR '':'' \<in> set host then host
                   else (case split_once (CHR '':'') (addr c) of
                           Some (_, port) \<Rightarrow> if port \<noteq> [] then host @ '':'' @ port else host
                         | None \<Rightarrow> host));
          account = default_str (account_id c) ''000000000000''
      in ''http://'' @ host' @ ''/'' @ account @ ''/'' @ name)"

definition queue_arn :: "sqs_config \<Rightarrow> string \<Rightarrow> string" where
  "queue_arn c name =
     ''arn:aws:sqs:'' @ default_str (region c) ''us-east-1'' @ '':'' @
     default_str (account_id c) ''000000000000'' @ '':'' @ name"

definition queue_name_from_url :: "string \<Rightarrow> string" where
  "queue_name_from_url u =
     (let after_scheme = (case find_sub u ''://'' of Some i \<Rightarrow> drop (i + 3) u | None \<Rightarrow> u);
          after_scheme' = hd (split_on (\<lambda>c. c = CHR ''?'' \<or> c = CHR ''#'') after_scheme);
          path = (if contains_sub u ''://''
                  then dropWhile (\<lambda>c. c \<noteq> CHR ''/'') after_scheme' else after_scheme');
          trimmed = trim_matches (CHR ''/'') path;
          parts = split_on (\<lambda>c. c = CHR ''/'') trimmed
      in if trimmed = [] then [] else if length parts < 2 then [] else last parts)"

section \<open>Queue attributes\<close>

definition default_queue_attributes :: "sqs_config \<Rightarrow> str_map" where
  "default_queue_attributes c =
     bt_insert ''VisibilityTimeout'' (int_to_string (default_visibility_timeout_seconds c))
     (bt_insert ''ReceiveMessageWaitTimeSeconds'' (int_to_string (default_receive_wait_time_seconds c))
     (bt_insert ''MessageRetentionPeriod'' (int_to_string (default_message_retention_seconds c))
     (bt_insert ''MaximumMessageSize'' (int_to_string (max_message_bytes c))
     (bt_insert ''DelaySeconds'' (int_to_string (default_delay_seconds c)) []))))"

definition QUEUE_ATTRIBUTE_NAMES :: "string list" where
  "QUEUE_ATTRIBUTE_NAMES =
     [''ApproximateNumberOfMessages'', ''ApproximateNumberOfMessagesDelayed'',
      ''ApproximateNumberOfMessagesNotVisible'', ''ContentBasedDeduplication'', ''CreatedTimestamp'',
      ''DeduplicationScope'', ''DelaySeconds'', ''FifoQueue'', ''FifoThroughputLimit'',
      ''KmsDataKeyReusePeriodSeconds'', ''KmsMasterKeyId'', ''LastModifiedTimestamp'',
      ''MaximumMessageSize'', ''MessageRetentionPeriod'', ''Policy'', ''QueueArn'',
      ''ReceiveMessageWaitTimeSeconds'', ''RedriveAllowPolicy'', ''RedrivePolicy'',
      ''SqsManagedSseEnabled'', ''VisibilityTimeout'']"

definition is_readable_queue_attribute :: "string \<Rightarrow> bool" where
  "is_readable_queue_attribute name \<longleftrightarrow> name = ''All'' \<or> name \<in> set QUEUE_ATTRIBUTE_NAMES"

definition is_settable_queue_attribute :: "string \<Rightarrow> bool" where
  "is_settable_queue_attribute name \<longleftrightarrow>
     \<not> (starts_with name ''ApproximateNumberOfMessages'' \<or> name = ''QueueArn'' \<or>
        name = ''CreatedTimestamp'' \<or> name = ''LastModifiedTimestamp'') \<and>
     name \<in> set QUEUE_ATTRIBUTE_NAMES"

definition quoted :: "string \<Rightarrow> string" where
  "quoted s = [CHR 0x22] @ s @ [CHR 0x22]"

definition attribute_bounds :: "(string \<times> int \<times> int) list" where
  "attribute_bounds =
     [(''DelaySeconds'', 0, MAX_DELAY_SECONDS), (''MaximumMessageSize'', 1024, 1048576),
      (''MessageRetentionPeriod'', 60, 1209600), (''ReceiveMessageWaitTimeSeconds'', 0, 20),
      (''VisibilityTimeout'', 0, MAX_VISIBILITY_TIMEOUT_SECONDS),
      (''KmsDataKeyReusePeriodSeconds'', 60, 86400)]"

definition check_bound :: "str_map \<Rightarrow> string \<times> int \<times> int \<Rightarrow> unit result" where
  "check_bound attrs b =
     (let (name, lo, hi) = b in
      case map_of attrs name of
        None \<Rightarrow> Inr ()
      | Some v \<Rightarrow>
          (case parse_i64 v of
             None \<Rightarrow> Inl (''invalid attribute value for '' @ name)
           | Some p \<Rightarrow> if p < 0 \<or> p < lo \<or> p > hi then Inl (''invalid attribute value for '' @ name)
                       else Inr ()))"

definition check_boolean :: "str_map \<Rightarrow> string \<Rightarrow> unit result" where
  "check_boolean attrs name =
     (case map_of attrs name of
        None \<Rightarrow> Inr ()
      | Some v \<Rightarrow>
          if \<not> eq_ignore_ascii_case v ''true'' \<and> \<not> eq_ignore_ascii_case v ''false''
          then Inl (''invalid attribute value for '' @ name) else Inr ())"

definition validate_queue_attribute_values :: "str_map \<Rightarrow> unit result" where
  "validate_queue_attribute_values attrs =
     bind_res (try_all (check_bound attrs) attribute_bounds)
       (\<lambda>_. try_all (check_boolean attrs)
          [''ContentBasedDeduplication'', ''FifoQueue'', ''SqsManagedSseEnabled''])"

definition is_fifo_queue :: "queue_state \<Rightarrow> bool" where
  "is_fifo_queue q \<longleftrightarrow>
     (case map_of (q_attributes q) ''FifoQueue'' of
        Some v \<Rightarrow> eq_ignore_ascii_case v ''true'' | None \<Rightarrow> False) \<or>
     ends_with (q_name q) ''.fifo''"

definition attr_or_empty :: "str_map \<Rightarrow> string \<Rightarrow> string" where
  "attr_or_empty attrs k = (case map_of attrs k of Some v \<Rightarrow> v | None \<Rightarrow> [])"

definition validate_redrive_allow_policy :: "crates \<Rightarrow> queue_state \<Rightarrow> string \<Rightarrow> unit result" where
  "validate_redrive_allow_policy X dlq src =
     (let raw = attr_or_empty (q_attributes dlq) ''RedriveAllowPolicy'' in
      if raw = [] then Inr ()
      else bind_res (parse_redrive_allow_policy X raw) (\<lambda>p.
        if permission p = ''allowAll'' then Inr ()
        else if permission p = ''denyAll'' then
          Inl ''RedriveAllowPolicy does not allow this dead-letter queue''
        else if permission p = ''byQueue'' then
          (if src \<in> set (source_queue_arns p) then Inr ()
           else Inl ''RedriveAllowPolicy does not allow this source queue'')
        else Inl ''RedriveAllowPolicy redrivePermission must be allowAll, denyAll, or byQueue''))"

text \<open>The first queue, in key order, with the given ARN.\<close>

definition queue_by_arn :: "queue_map \<Rightarrow> string \<Rightarrow> (string \<times> queue_state) option" where
  "queue_by_arn qs a = find (\<lambda>e. arn (snd e) = a) qs"

definition validate_queue_attributes ::
    "crates \<Rightarrow> sqs_server \<Rightarrow> queue_state \<Rightarrow> str_map \<Rightarrow> unit result" where
  "validate_queue_attributes X s queue attrs =
     bind_res (try_all (\<lambda>name. if is_settable_queue_attribute name then Inr ()
                               else Inl (''unknown queue attribute name '' @ quoted name))
                (map fst attrs)) (\<lambda>_.
     bind_res (validate_queue_attribute_values attrs) (\<lambda>_.
     bind_res (case map_of attrs ''RedriveAllowPolicy'' of
                 None \<Rightarrow> Inr ()
               | Some allow \<Rightarrow>
                   if allow \<noteq> [] then bind_res (parse_redrive_allow_policy X allow) (\<lambda>_. Inr ())
                   else Inr ()) (\<lambda>_.
     let policy_raw = attr_or_empty attrs ''RedrivePolicy'' in
     if policy_raw = [] then Inr ()
     else bind_res (parse_redrive_policy X policy_raw) (\<lambda>policy.
       if max_receive_count policy < 1 then
         Inl ''RedrivePolicy maxReceiveCount must be greater than zero''
       else (case queue_by_arn (queues s) (dead_letter_target_arn policy) of
               None \<Rightarrow> Inl ''RedrivePolicy deadLetterTargetArn queue does not exist''
             | Some (_, dlq) \<Rightarrow>
                 if is_fifo_queue queue \<noteq> is_fifo_queue dlq then
                   Inl ''RedrivePolicy source queue and dead-letter queue must use the same queue type''
                 else validate_redrive_allow_policy X dlq (arn queue))))))"

definition queue_last_modified_at :: "queue_state \<Rightarrow> string" where
  "queue_last_modified_at q =
     (if modified_at q = [] \<or> modified_at q = ZERO_TIME then created_at q else modified_at q)"

definition queue_attributes_with_computed :: "queue_state \<Rightarrow> str_map" where
  "queue_attributes_with_computed q =
     fold (\<lambda>(k, v). bt_insert k v)
       [(''QueueArn'', arn q),
        (''CreatedTimestamp'', int_to_string (unix_from_rfc3339 (created_at q))),
        (''LastModifiedTimestamp'', int_to_string (unix_from_rfc3339 (queue_last_modified_at q))),
        (''ApproximateNumberOfMessages'', ''0''),
        (''ApproximateNumberOfMessagesNotVisible'', ''0''),
        (''ApproximateNumberOfMessagesDelayed'', ''0'')] (q_attributes q)"

fun filter_named :: "str_map \<Rightarrow> string list \<Rightarrow> str_map \<Rightarrow> str_map result" where
  "filter_named attrs [] acc = Inr acc"
| "filter_named attrs (n # ns) acc =
     (if \<not> is_readable_queue_attribute n then Inl (''unknown queue attribute name '' @ quoted n)
      else filter_named attrs ns
             (case map_of attrs n of Some v \<Rightarrow> bt_insert n v acc | None \<Rightarrow> acc))"

definition filter_queue_attributes :: "str_map \<Rightarrow> string list \<Rightarrow> str_map result" where
  "filter_queue_attributes attrs names =
     (if names = [] \<or> ''All'' \<in> set names then Inr attrs else filter_named attrs names [])"

section \<open>Persistence\<close>

definition persist_queue :: "queue_state \<Rightarrow> persisted_queue" where
  "persist_queue q =
     \<lparr>p_name = q_name q, p_url = url q, p_arn = arn q, p_attributes = q_attributes q,
      p_tags = tags q, p_created_at = created_at q, p_modified_at = queue_last_modified_at q,
      p_messages = messages q, p_sequence = sequence q, p_dedup = dedup q\<rparr>"

definition persisted_of :: "sqs_server \<Rightarrow> persisted_state" where
  "persisted_of s =
     \<lparr>p_queues = map (\<lambda>(n, q). (n, persist_queue q)) (queues s), p_move_tasks = move_tasks s\<rparr>"

text \<open>The file is replaced by a rename, so it changes only when all three steps succeed.\<close>

definition persist :: "fs_outcome \<Rightarrow> sqs_server \<Rightarrow> unit result \<times> sqs_server" where
  "persist io s =
     (if trim (storage_path (config s)) = [] then (Inr (), s)
      else case create_dir_err io of Some e \<Rightarrow> (Inl e, s)
      | None \<Rightarrow> (case write_err io of Some e \<Rightarrow> (Inl e, s)
      | None \<Rightarrow> (case rename_err io of Some e \<Rightarrow> (Inl e, s)
      | None \<Rightarrow> (Inr (), s\<lparr>state_file := Some (persisted_of s)\<rparr>))))"

datatype file_read =
    Not_found
  | Read_error string
  | Decode_error string
  | Contents persisted_state

definition load_task :: "string \<times> move_task_state \<Rightarrow> task_map \<Rightarrow> task_map" where
  "load_task e ts =
     (let (handle, task) = e;
          key = (if handle = [] then task_handle task else handle)
      in if key = [] then ts
         else bt_insert key (if task_handle task = [] then task\<lparr>task_handle := key\<rparr> else task) ts)"

definition load_queue ::
    "sqs_config \<Rightarrow> string \<Rightarrow> string \<times> persisted_queue \<Rightarrow> queue_map \<Rightarrow> queue_map" where
  "load_queue c now e qs =
     (let (name, pq) = e;
          key = (if name = [] then p_name pq else name)
      in if key = [] then qs
         else let created = (if p_created_at pq = [] \<or> p_created_at pq = ZERO_TIME then now
                             else p_created_at pq);
                  modified = (if p_modified_at pq = [] \<or> p_modified_at pq = ZERO_TIME then created
                              else p_modified_at pq)
              in bt_insert key
                   \<lparr>q_name = key,
                    url = (if p_url pq = [] then queue_url c key else p_url pq),
                    arn = (if p_arn pq = [] then queue_arn c key else p_arn pq),
                    q_attributes = (if p_attributes pq = [] then default_queue_attributes c
                                    else p_attributes pq),
                    tags = p_tags pq, created_at = created, modified_at = modified,
                    messages = p_messages pq, sequence = p_sequence pq, dedup = p_dedup pq\<rparr> qs)"

definition load :: "env \<Rightarrow> file_read \<Rightarrow> sqs_server \<Rightarrow> unit result \<times> sqs_server" where
  "load E f s =
     (case f of
        Not_found \<Rightarrow> (Inr (), s)
      | Read_error e \<Rightarrow> (Inl e, s)
      | Decode_error e \<Rightarrow> (Inl e, s)
      | Contents p \<Rightarrow>
          (Inr (), s\<lparr>move_tasks := fold load_task (p_move_tasks p) (move_tasks s),
                    queues := fold (load_queue (config s) (now_rfc3339 (clock E 0))) (p_queues p) (queues s)\<rparr>))"

definition empty_server :: "sqs_config \<Rightarrow> sqs_server" where
  "empty_server c = \<lparr>config = c, queues = [], move_tasks = [], load_err = None,
     state_file = None, id_counter = 0, task_counter = 0\<rparr>"

text \<open>\<open>Server::new\<close>; the file on disk stays as it was read.\<close>

definition server_new :: "env \<Rightarrow> sqs_config \<Rightarrow> file_read \<Rightarrow> sqs_server" where
  "server_new E c f =
     (let s = (empty_server c)\<lparr>state_file := (case f of Contents p \<Rightarrow> Some p | _ \<Rightarrow> None)\<rparr> in
      if trim (storage_path c) = [] then s
      else (case load E f s of
              (Inl e, s') \<Rightarrow> s'\<lparr>load_err := Some e\<rparr>
            | (Inr _, s') \<Rightarrow> s'))"

section \<open>Queue life cycle\<close>

definition put_queue :: "string \<Rightarrow> queue_state \<Rightarrow> sqs_server \<Rightarrow> sqs_server" where
  "put_queue n q s = s\<lparr>queues := bt_insert n q (queues s)\<rparr>"

definition modify_queue :: "string \<Rightarrow> (queue_state \<Rightarrow> queue_state) \<Rightarrow> sqs_server \<Rightarrow> sqs_server" where
  "modify_queue n f s = s\<lparr>queues := bt_modify n f (queues s)\<rparr>"

definition create_queue ::
    "crates \<Rightarrow> env \<Rightarrow> string \<Rightarrow> str_map \<Rightarrow> str_map \<Rightarrow> sqs_server \<Rightarrow> queue_state result \<times> sqs_server" where
  "create_queue X E name attrs tgs s =
     (if name = [] then (Inl ''QueueName is required'', s)
      else if \<not> valid_queue_name name then
        (Inl ''QueueName must contain only alphanumeric characters, hyphens, underscores, and optional .fifo suffix'', s)
      else let normalized = bt_extend (default_queue_attributes (config s)) attrs;
               is_fifo_name = ends_with name ''.fifo'' in
      if map_of normalized ''FifoQueue'' = Some ''true'' \<and> \<not> is_fifo_name then
        (Inl ''FIFO queues must use a .fifo suffix'', s)
      else if is_fifo_name \<and> map_of normalized ''FifoQueue'' \<noteq> Some ''true'' then
        (Inl ''queues with .fifo suffix must set FifoQueue to true'', s)
      else (case map_of (queues s) name of
          Some existing \<Rightarrow>
            if q_attributes existing \<noteq> normalized then
              (Inl ''queue name exists with different attributes'', s)
            else (Inr existing, s)
        | None \<Rightarrow>
            if max_queues (config s) > 0 \<and> int (length (queues s)) \<ge> max_queues (config s) then
              (Inl ''queue limit exceeded'', s)
            else let now = now_rfc3339 (clock E 0);
                     queue = \<lparr>q_name = name, url = queue_url (config s) name, arn = queue_arn (config s) name,
                              q_attributes = normalized, tags = tgs, created_at = now, modified_at = now,
                              messages = [], sequence = 0, dedup = []\<rparr> in
            (case validate_queue_attributes X s queue attrs of
               Inl e \<Rightarrow> (Inl e, s)
             | Inr _ \<Rightarrow>
                 (case persist (fs E) (put_queue name queue s) of
                    (Inl e, s') \<Rightarrow> (Inl e, s'\<lparr>queues := bt_remove name (queues s')\<rparr>)
                  | (Inr _, s') \<Rightarrow> (Inr queue, s')))))"

definition list_queue_urls :: "string \<Rightarrow> sqs_server \<Rightarrow> string list" where
  "list_queue_urls prefix s =
     map (\<lambda>e. url (snd e)) (filter (\<lambda>e. prefix = [] \<or> starts_with (fst e) prefix) (queues s))"

definition queue_identity_of :: "string \<Rightarrow> sqs_server \<Rightarrow> queue_identity option" where
  "queue_identity_of name s =
     map_option (\<lambda>q. \<lparr>id_arn = arn q, id_created_at = created_at q\<rparr>) (map_of (queues s) name)"

definition queue_by_url :: "string \<Rightarrow> sqs_server \<Rightarrow> queue_state option" where
  "queue_by_url u s =
     (let name = queue_name_from_url u in if name = [] then None else map_of (queues s) name)"

definition delete_queue :: "env \<Rightarrow> string \<Rightarrow> sqs_server \<Rightarrow> bool \<times> sqs_server" where
  "delete_queue E u s =
     (let name = queue_name_from_url u in
      if name = [] then (False, s)
      else (case map_of (queues s) name of
              None \<Rightarrow> (False, s)
            | Some queue \<Rightarrow>
                (case persist (fs E) (s\<lparr>queues := bt_remove name (queues s)\<rparr>) of
                   (Inl _, s') \<Rightarrow> (False, put_queue name queue s')
                 | (Inr _, s') \<Rightarrow> (True, s'))))"

text \<open>The guard shared by the operations on an existing queue.\<close>

definition queue_exists :: "string \<Rightarrow> sqs_server \<Rightarrow> bool" where
  "queue_exists name s \<longleftrightarrow> name \<noteq> [] \<and> bt_contains (queues s) name"

definition purge_queue :: "env \<Rightarrow> string \<Rightarrow> sqs_server \<Rightarrow> unit result \<times> sqs_server" where
  "purge_queue E u s =
     (let name = queue_name_from_url u in
      if \<not> queue_exists name s then (Inl ''queue does not exist'', s)
      else let previous = messages (the (map_of (queues s) name)) in
        (case persist (fs E) (modify_queue name (\<lambda>q. q\<lparr>messages := []\<rparr>) s) of
           (Inl e, s') \<Rightarrow> (Inl e, modify_queue name (\<lambda>q. q\<lparr>messages := previous\<rparr>) s')
         | (Inr _, s') \<Rightarrow> (Inr (), s')))"

definition get_queue_attributes :: "string \<Rightarrow> string list \<Rightarrow> sqs_server \<Rightarrow> str_map result" where
  "get_queue_attributes u names s =
     (let name = queue_name_from_url u in
      if \<not> queue_exists name s then Inl ''queue does not exist''
      else filter_queue_attributes (queue_attributes_with_computed (the (map_of (queues s) name))) names)"

definition update_queue_attributes ::
    "crates \<Rightarrow> env \<Rightarrow> string \<Rightarrow> str_map \<Rightarrow> sqs_server \<Rightarrow> queue_state result \<times> sqs_server" where
  "update_queue_attributes X E u attrs s =
     (let name = queue_name_from_url u in
      if \<not> queue_exists name s then (Inl ''queue does not exist'', s)
      else let previous = the (map_of (queues s) name) in
        (case validate_queue_attributes X s previous attrs of
           Inl e \<Rightarrow> (Inl e, s)
         | Inr _ \<Rightarrow>
             let q' = previous\<lparr>q_attributes := bt_extend (q_attributes previous) attrs,
                               modified_at := now_rfc3339 (clock E 0)\<rparr> in
             (case persist (fs E) (modify_queue name (\<lambda>_. q') s) of
                (Inl e, s') \<Rightarrow> (Inl e, put_queue name previous s')
              | (Inr _, s') \<Rightarrow> (Inr q', s'))))"

section \<open>Tags\<close>

definition tag_queue :: "env \<Rightarrow> string \<Rightarrow> str_map \<Rightarrow> sqs_server \<Rightarrow> unit result \<times> sqs_server" where
  "tag_queue E u tgs s =
     (let name = queue_name_from_url u in
      if u = [] then (Inl ''QueueUrl is required'', s)
      else if tgs = [] then (Inl ''Tags is required'', s)
      else if \<not> queue_exists name s then (Inl ''queue does not exist'', s)
      else if [] \<in> set (map fst tgs) then (Inl ''tag key is required'', s)
      else let previous = tags (the (map_of (queues s) name)) in
        (case persist (fs E) (modify_queue name (\<lambda>q. q\<lparr>tags := bt_extend (tags q) tgs\<rparr>) s) of
           (Inl e, s') \<Rightarrow> (Inl e, modify_queue name (\<lambda>q. q\<lparr>tags := previous\<rparr>) s')
         | (Inr _, s') \<Rightarrow> (Inr (), s')))"

definition untag_queue :: "env \<Rightarrow> string \<Rightarrow> string list \<Rightarrow> sqs_server \<Rightarrow> unit result \<times> sqs_server" where
  "untag_queue E u tag_keys s =
     (let name = queue_name_from_url u in
      if u = [] then (Inl ''QueueUrl is required'', s)
      else if tag_keys = [] then (Inl ''TagKeys is required'', s)
      else if \<not> queue_exists name s then (Inl ''queue does not exist'', s)
      else let previous = tags (the (map_of (queues s) name)) in
        (case persist (fs E) (modify_queue name (\<lambda>q. q\<lparr>tags := fold bt_remove tag_keys (tags q)\<rparr>) s) of
           (Inl e, s') \<Rightarrow> (Inl e, modify_queue name (\<lambda>q. q\<lparr>tags := previous\<rparr>) s')
         | (Inr _, s') \<Rightarrow> (Inr (), s')))"

definition list_queue_tags :: "string \<Rightarrow> sqs_server \<Rightarrow> str_map result" where
  "list_queue_tags u s =
     (let name = queue_name_from_url u in
      if u = [] then Inl ''QueueUrl is required''
      else if name = [] then Inl ''queue does not exist''
      else (case map_of (queues s) name of
              None \<Rightarrow> Inl ''queue does not exist'' | Some q \<Rightarrow> Inr (tags q)))"

section \<open>Permissions\<close>

definition queue_policy_from_attribute :: "crates \<Rightarrow> queue_state \<Rightarrow> queue_policy result" where
  "queue_policy_from_attribute X q =
     (let raw = trim (attr_or_empty (q_attributes q) ''Policy'') in
      if raw = [] then
        Inr \<lparr>version = ''2012-10-17'', policy_id = arn q @ ''/SQSDefaultPolicy'', statement = []\<rparr>
      else (case policy_from_str X raw of
              None \<Rightarrow> Inl ''Policy must be valid JSON''
            | Some p \<Rightarrow>
                Inr \<lparr>version = (if version p = [] then ''2012-10-17'' else version p),
                     policy_id = (if policy_id p = [] then arn q @ ''/SQSDefaultPolicy'' else policy_id p),
                     statement = statement p\<rparr>))"

text \<open>The first statement with the label is replaced, otherwise the new one is appended.\<close>

fun upsert_statement :: "queue_policy_statement \<Rightarrow> queue_policy_statement list \<Rightarrow> queue_policy_statement list" where
  "upsert_statement st [] = [st]"
| "upsert_statement st (x # xs) = (if sid x = sid st then st # xs else x # upsert_statement st xs)"

definition set_policy_attribute :: "string \<Rightarrow> queue_state \<Rightarrow> queue_state" where
  "set_policy_attribute enc q = q\<lparr>q_attributes := bt_insert ''Policy'' enc (q_attributes q)\<rparr>"

definition add_permission ::
    "crates \<Rightarrow> env \<Rightarrow> string \<Rightarrow> string \<Rightarrow> string list \<Rightarrow> string list \<Rightarrow> sqs_server \<Rightarrow> unit result \<times> sqs_server" where
  "add_permission X E u label account_ids actions s =
     (let name = queue_name_from_url u in
      if u = [] then (Inl ''QueueUrl is required'', s)
      else if label = [] then (Inl ''Label is required'', s)
      else if account_ids = [] then (Inl ''AWSAccountIds is required'', s)
      else if actions = [] then (Inl ''Actions is required'', s)
      else if \<not> queue_exists name s then (Inl ''queue does not exist'', s)
      else let queue = the (map_of (queues s) name) in
        (case queue_policy_from_attribute X queue of
           Inl e \<Rightarrow> (Inl e, s)
         | Inr policy \<Rightarrow>
             let st = \<lparr>sid = label, effect = ''Allow'', principal = \<lparr>aws = account_ids\<rparr>,
                       action = normalized_permission_actions actions, resource = arn queue\<rparr> in
             (case policy_to_string X (policy\<lparr>statement := upsert_statement st (statement policy)\<rparr>) of
                Inl e \<Rightarrow> (Inl e, s)
              | Inr enc \<Rightarrow>
                  (case persist (fs E) (modify_queue name (set_policy_attribute enc) s) of
                     (Inl e, s') \<Rightarrow> (Inl e, put_queue name queue s')
                   | (Inr _, s') \<Rightarrow> (Inr (), s')))))"

definition remove_permission ::
    "crates \<Rightarrow> env \<Rightarrow> string \<Rightarrow> string \<Rightarrow> sqs_server \<Rightarrow> unit result \<times> sqs_server" where
  "remove_permission X E u label s =
     (let name = queue_name_from_url u in
      if u = [] then (Inl ''QueueUrl is required'', s)
      else if label = [] then (Inl ''Label is required'', s)
      else if \<not> queue_exists name s then (Inl ''queue does not exist'', s)
      else let queue = the (map_of (queues s) name) in
        (case queue_policy_from_attribute X queue of
           Inl e \<Rightarrow> (Inl e, s)
         | Inr policy \<Rightarrow>
             let sts = filter (\<lambda>st. sid st \<noteq> label) (statement policy) in
             if sts = [] then
               (case persist (fs E)
                   (modify_queue name (\<lambda>q. q\<lparr>q_attributes := bt_remove ''Policy'' (q_attributes q)\<rparr>) s) of
                  (Inl e, s') \<Rightarrow> (Inl e, put_queue name queue s')
                | (Inr _, s') \<Rightarrow> (Inr (), s'))
             else (case policy_to_string X (policy\<lparr>statement := sts\<rparr>) of
                Inl e \<Rightarrow> (Inl e, s)
              | Inr enc \<Rightarrow>
                  (case persist (fs E) (modify_queue name (set_policy_attribute enc) s) of
                     (Inl e, s') \<Rightarrow> (Inl e, put_queue name queue s')
                   | (Inr _, s') \<Rightarrow> (Inr (), s')))))"

section \<open>Persisting and rolling back\<close>

lemma persist_cases:
  assumes "persist io s = (r, s')"
  obtains (failed) e where "r = Inl e" "s' = s"
    | (kept) "r = Inr ()" "s' = s" "trim (storage_path (config s)) = []"
    | (written) "r = Inr ()" "s' = s\<lparr>state_file := Some (persisted_of s)\<rparr>"
  using assms by (auto simp: persist_def split: if_splits option.splits)

interpretation disk: durable persist queues queues_update
proof unfold_locales
  show "\<And>io s e s'. persist io s = (Inl e, s') \<Longrightarrow> s' = s"
    by (erule persist_cases) simp_all
  show "\<And>io s r s'. persist io s = (r, s') \<Longrightarrow> queues s' = queues s"
    by (erule persist_cases) simp_all
qed simp_all

lemma persist_keeps:
  "persist io s = (r, s') \<Longrightarrow> config s' = config s"
  "persist io s = (r, s') \<Longrightarrow> move_tasks s' = move_tasks s"
  "persist io s = (r, s') \<Longrightarrow> queues s' = queues s"
  "persist io s = (r, s') \<Longrightarrow> id_counter s' = id_counter s"
  "persist io s = (r, s') \<Longrightarrow> task_counter s' = task_counter s"
  "persist io s = (r, s') \<Longrightarrow> load_err s' = load_err s"
  by (erule persist_cases; simp)+

text \<open>The three shapes of roll-back: drop the new key, put the old value back, restore fields of it.\<close>

lemma rollback_insert:
  "persist io (put_queue n q s) = (Inl e, s') \<Longrightarrow> bt_ok (queues s) \<Longrightarrow> map_of (queues s) n = None \<Longrightarrow>
   s'\<lparr>queues := bt_remove n (queues s')\<rparr> = s"
  by (auto simp: put_queue_def bt.undo_new dest!: disk.save_fail)

lemma rollback_remove:
  "persist io (s\<lparr>queues := bt_remove n (queues s)\<rparr>) = (Inl e, s') \<Longrightarrow> bt_ok (queues s) \<Longrightarrow>
   map_of (queues s) n = Some q \<Longrightarrow> put_queue n q s' = s"
  by (auto simp: put_queue_def bt.undo_remove dest!: disk.save_fail)

lemma rollback_put:
  "persist io (modify_queue n f s) = (Inl e, s') \<Longrightarrow> bt_ok (queues s) \<Longrightarrow>
   map_of (queues s) n = Some q \<Longrightarrow> put_queue n q s' = s"
  by (auto simp: put_queue_def modify_queue_def bt_modify_undo dest!: disk.save_fail)

lemma modify_modify [simp]: "modify_queue n g (modify_queue n f s) = modify_queue n (g \<circ> f) s"
  by (simp add: modify_queue_def bt_modify_def comp_def if_distrib cong: if_cong)

lemma modify_queue_same:
  "bt_ok (queues s) \<Longrightarrow> map_of (queues s) n = Some q \<Longrightarrow> f q = q \<Longrightarrow> modify_queue n f s = s"
  by (simp add: modify_queue_def bt_modify_same)

lemma rollback_modify:
  "persist io (modify_queue n f s) = (Inl e, s') \<Longrightarrow> bt_ok (queues s) \<Longrightarrow>
   map_of (queues s) n = Some q \<Longrightarrow> g (f q) = q \<Longrightarrow> modify_queue n g s' = s"
  by (auto simp: modify_queue_same dest!: disk.save_fail)

lemma queue_existsE:
  assumes "queue_exists n s" obtains q where "n \<noteq> []" "map_of (queues s) n = Some q"
  using assms by (auto simp: queue_exists_def bt_contains_def)

lemmas rollbacks = rollback_insert rollback_remove rollback_put rollback_modify

lemma create_queue_failed:
  "create_queue X E name attrs tgs s = (Inl e, s') \<Longrightarrow> bt_ok (queues s) \<Longrightarrow> s' = s"
  by (auto simp: create_queue_def Let_def rollback_insert
      split: if_splits option.splits sum.splits prod.splits)

lemma delete_queue_failed:
  "delete_queue E u s = (False, s') \<Longrightarrow> bt_ok (queues s) \<Longrightarrow> s' = s"
  by (auto simp: delete_queue_def Let_def rollback_remove
      split: if_splits option.splits sum.splits prod.splits)

lemma purge_queue_failed:
  "purge_queue E u s = (Inl e, s') \<Longrightarrow> bt_ok (queues s) \<Longrightarrow> s' = s"
  by (auto simp: purge_queue_def Let_def rollback_modify elim!: queue_existsE
      split: if_splits option.splits sum.splits prod.splits)

lemma update_queue_attributes_failed:
  "update_queue_attributes X E u attrs s = (Inl e, s') \<Longrightarrow> bt_ok (queues s) \<Longrightarrow> s' = s"
  by (auto simp: update_queue_attributes_def Let_def rollback_put elim!: queue_existsE
      split: if_splits option.splits sum.splits prod.splits)

lemma tag_queue_failed:
  "tag_queue E u tgs s = (Inl e, s') \<Longrightarrow> bt_ok (queues s) \<Longrightarrow> s' = s"
  by (auto simp: tag_queue_def Let_def rollback_modify elim!: queue_existsE
      split: if_splits option.splits sum.splits prod.splits)

lemma untag_queue_failed:
  "untag_queue E u keys s = (Inl e, s') \<Longrightarrow> bt_ok (queues s) \<Longrightarrow> s' = s"
  by (auto simp: untag_queue_def Let_def rollback_modify elim!: queue_existsE
      split: if_splits option.splits sum.splits prod.splits)

lemma add_permission_failed:
  "add_permission X E u label accounts actions s = (Inl e, s') \<Longrightarrow> bt_ok (queues s) \<Longrightarrow> s' = s"
  by (auto simp: add_permission_def Let_def rollback_put elim!: queue_existsE
      split: if_splits option.splits sum.splits prod.splits)

lemma remove_permission_failed:
  "remove_permission X E u label s = (Inl e, s') \<Longrightarrow> bt_ok (queues s) \<Longrightarrow> s' = s"
  by (auto simp: remove_permission_def Let_def rollback_put elim!: queue_existsE
      split: if_splits option.splits sum.splits prod.splits)

section \<open>URLs name their queue\<close>

definition url_plain :: "string \<Rightarrow> bool" where
  "url_plain s = list_all (\<lambda>c. c \<noteq> CHR ''/'' \<and> c \<noteq> CHR ''?'' \<and> c \<noteq> CHR ''#'') s"

text \<open>A configuration whose host, address and account stay within one URL segment each.\<close>

definition config_plain :: "sqs_config \<Rightarrow> bool" where
  "config_plain c \<longleftrightarrow> url_plain (queue_url_host c) \<and> url_plain (addr c) \<and> url_plain (account_id c)"

lemma url_plain_append [simp]: "url_plain (a @ b) \<longleftrightarrow> url_plain a \<and> url_plain b"
  by (simp add: url_plain_def)

lemma url_plain_Cons [simp]:
  "url_plain (c # s) \<longleftrightarrow> c \<noteq> CHR ''/'' \<and> c \<noteq> CHR ''?'' \<and> c \<noteq> CHR ''#'' \<and> url_plain s"
  by (simp add: url_plain_def)

lemma url_plain_set:
  "url_plain s \<Longrightarrow> CHR ''/'' \<notin> set s" "url_plain s \<Longrightarrow> CHR ''?'' \<notin> set s" "url_plain s \<Longrightarrow> CHR ''#'' \<notin> set s"
  by (auto simp: url_plain_def list_all_iff)

lemma url_plain_lit:
  "url_plain ''127.0.0.1''" "url_plain '':''" "url_plain ''000000000000''" "url_plain ''.fifo''" "url_plain []"
  by (simp_all add: url_plain_def)

lemma dropWhile_hd: "x \<noteq> [] \<Longrightarrow> \<not> P (hd x) \<Longrightarrow> dropWhile P (x @ y) = x @ y"
  by (cases x) auto

lemma trim_slash:
  assumes "url_plain a" "url_plain n" "a \<noteq> []" "n \<noteq> []"
  shows "trim_matches (CHR ''/'') (CHR ''/'' # a @ CHR ''/'' # n) = a @ CHR ''/'' # n"
proof -
  have h: "hd a \<noteq> CHR ''/''" "hd (rev n) \<noteq> CHR ''/''"
    using assms url_plain_set(1) by (metis hd_in_set set_rev rev_is_Nil_conv)+
  have "dropWhile (\<lambda>x. x = CHR ''/'') (rev n @ CHR ''/'' # rev a) = rev n @ CHR ''/'' # rev a"
    using h(2) assms(4) by (intro dropWhile_hd) auto
  moreover have "dropWhile (\<lambda>x. x = CHR ''/'') (a @ CHR ''/'' # n) = a @ CHR ''/'' # n"
    using h(1) assms(3) by (intro dropWhile_hd) auto
  ultimately show ?thesis
    by (simp add: trim_matches_def trim_start_matches_def trim_end_matches_def)
qed

lemma queue_name_of_parts:
  assumes "url_plain h" "url_plain a" "url_plain n" "a \<noteq> []" "n \<noteq> []"
  shows "queue_name_from_url (''http://'' @ h @ ''/'' @ a @ ''/'' @ n) = n"
proof -
  let ?r = "h @ CHR ''/'' # a @ CHR ''/'' # n"
  have find: "find_sub (''http://'' @ ?r) ''://'' = Some 4" by (simp add: starts_with_def)
  have hd: "hd (split_on (\<lambda>c. c = CHR ''?'' \<or> c = CHR ''#'') ?r) = ?r"
    using assms url_plain_set(2,3) by (subst split_on_none) auto
  have path: "dropWhile (\<lambda>c. c \<noteq> CHR ''/'') ?r = CHR ''/'' # a @ CHR ''/'' # n"
    using url_plain_set(1)[OF assms(1)] by (rule takeWhile_neq_append(2))
  have parts: "split_on (\<lambda>c. c = CHR ''/'') (a @ CHR ''/'' # n) = [a, n]"
    using url_plain_set(1)[OF assms(2)] url_plain_set(1)[OF assms(3)]
    by (subst split_on_append) (auto intro!: split_on_none)
  have "contains_sub (''http://'' @ ?r) ''://''" by (simp only: contains_sub_def find) simp
  then show ?thesis
    using find hd path trim_slash[OF assms(2-5)] parts
    by (simp add: queue_name_from_url_def Let_def)
qed

lemma id_char_plain: "list_all id_char s \<Longrightarrow> url_plain s"
  by (auto simp: url_plain_def list_all_iff id_char_def rust_defs)

lemma valid_queue_name_plain: "valid_queue_name n \<Longrightarrow> url_plain n \<and> n \<noteq> []"
  by (auto simp: valid_queue_name_def Let_def id_chars_bytes url_plain_lit strip_suffix_Some
      intro: id_char_plain split: option.splits)

text \<open>The URL under which a queue is handed out leads back to that queue.\<close>

theorem queue_url_names_queue:
  assumes "config_plain c" "valid_queue_name name"
  shows "queue_name_from_url (queue_url c name) = name"
proof -
  let ?host = "if queue_url_host c = [] then ''127.0.0.1'' else queue_url_host c"
  let ?h = "if CHR '':'' \<in> set ?host then ?host
            else (case split_once (CHR '':'') (addr c) of
                    Some (_, port) \<Rightarrow> if port \<noteq> [] then ?host @ '':'' @ port else ?host
                  | None \<Rightarrow> ?host)"
  let ?a = "default_str (account_id c) ''000000000000''"
  have "url_plain ?host" using assms(1) by (simp add: config_plain_def url_plain_lit)
  moreover have "url_plain p" if "split_once (CHR '':'') (addr c) = Some (q, p)" for p q
    using assms(1) that
    by (simp add: config_plain_def split_once_Some_iff url_plain_def)
  ultimately have "url_plain ?h" by (auto simp: url_plain_lit split: option.splits)
  moreover have "url_plain ?a" "?a \<noteq> []"
    using assms(1) by (auto simp: config_plain_def default_str_def url_plain_lit)
  ultimately have "queue_name_from_url (''http://'' @ ?h @ ''/'' @ ?a @ ''/'' @ name) = name"
    using valid_queue_name_plain[OF assms(2)] by (intro queue_name_of_parts) auto
  then show ?thesis by (simp only: queue_url_def Let_def)
qed

definition sample_config :: sqs_config where
  "sample_config = \<lparr>addr = ''127.0.0.1:9324'', region = ''us-east-1'', account_id = ''000000000000'',
     queue_url_host = ''127.0.0.1'', auth_mode = ''relaxed'', access_key_id = [], secret_access_key = [],
     storage_path = ''data'', cfg_max_queues = 0, cfg_max_message_bytes = 0,
     cfg_max_receive_batch_size = 0, cfg_default_visibility_timeout_seconds = 0,
     cfg_default_delay_seconds = 0, cfg_default_message_retention_seconds = 0,
     cfg_default_receive_wait_time_seconds = 0\<rparr>"

theorem queue_url_names_queue_witness:
  "queue_name_from_url (queue_url sample_config ''orders.fifo'') = ''orders.fifo''"
proof (rule queue_url_names_queue)
  show "config_plain sample_config" by code_simp
  show "valid_queue_name ''orders.fifo''" by code_simp
qed

section \<open>Well-formed servers\<close>

definition proper_time :: "string \<Rightarrow> bool" where
  "proper_time t \<longleftrightarrow> t \<noteq> [] \<and> t \<noteq> ZERO_TIME"

lemma now_proper: "clock_ok t \<Longrightarrow> proper_time (now_rfc3339 t)"
proof -
  assume "clock_ok t"
  then have "unix_nanos_from_rfc3339 (now_rfc3339 t) \<ge> 0" by (simp add: now_nanos)
  moreover have "unix_nanos_from_rfc3339 [] < 0" "unix_nanos_from_rfc3339 ZERO_TIME < 0" by code_simp+
  ultimately show ?thesis by (auto simp: proper_time_def)
qed

text \<open>A deduplication record holds the message that was sent under its id.\<close>

definition dedup_wf :: "(string, deduplication_state) bmap \<Rightarrow> bool" where
  "dedup_wf ds \<longleftrightarrow> bt_ok ds \<and>
     list_all (\<lambda>(k, d). case dedup_message d of Some m \<Rightarrow> deduplication_id m = k | None \<Rightarrow> False) ds"

definition queue_wf :: "sqs_config \<Rightarrow> string \<Rightarrow> queue_state \<Rightarrow> bool" where
  "queue_wf c n q \<longleftrightarrow>
     q_name q = n \<and> valid_queue_name n \<and> url q = queue_url c n \<and> arn q = queue_arn c n \<and>
     bt_ok (q_attributes q) \<and> bt_contains (q_attributes q) ''VisibilityTimeout'' \<and> bt_ok (tags q) \<and>
     proper_time (created_at q) \<and> proper_time (modified_at q) \<and> dedup_wf (dedup q)"

definition server_wf :: "sqs_server \<Rightarrow> bool" where
  "server_wf s \<longleftrightarrow>
     bt_ok (queues s) \<and> list_all (\<lambda>(n, q). queue_wf (config s) n q) (queues s) \<and>
     bt_ok (move_tasks s) \<and> list_all (\<lambda>(h, t). task_handle t = h \<and> h \<noteq> []) (move_tasks s) \<and>
     int (length (queues s)) \<le> max_queues (config s)"

lemma server_wf_ok [simp]: "server_wf s \<Longrightarrow> bt_ok (queues s)"
  by (simp add: server_wf_def)

lemma server_wf_queue: "server_wf s \<Longrightarrow> map_of (queues s) n = Some q \<Longrightarrow> queue_wf (config s) n q"
  by (auto simp: server_wf_def list_all_iff dest!: map_of_SomeD)

lemma max_queues_pos: "max_queues c > 0"
  by (simp add: max_queues_def)

lemma server_wf_empty: "server_wf (empty_server c)"
  using max_queues_pos[of c] by (simp add: server_wf_def empty_server_def)

lemma server_wf_cong:
  "queues s' = queues s \<Longrightarrow> move_tasks s' = move_tasks s \<Longrightarrow> config s' = config s \<Longrightarrow>
   server_wf s' = server_wf s"
  by (simp add: server_wf_def)

lemma server_wf_persist: "persist io s = (r, s') \<Longrightarrow> server_wf s' = server_wf s"
  by (intro server_wf_cong) (simp_all add: persist_keeps)

lemma server_wf_put:
  assumes "server_wf s" "queue_wf (config s) n q"
    and "map_of (queues s) n = None \<Longrightarrow> int (length (queues s)) < max_queues (config s)"
  shows "server_wf (put_queue n q s)"
  using assms by (auto simp: server_wf_def put_queue_def list_all_iff length_bt_insert set_bt_insert)

lemma server_wf_modify:
  assumes "server_wf s"
    and "\<And>q. map_of (queues s) n = Some q \<Longrightarrow> queue_wf (config s) n q \<Longrightarrow> queue_wf (config s) n (f q)"
  shows "server_wf (modify_queue n f s)"
proof (cases "map_of (queues s) n")
  case None
  then show ?thesis using assms(1) by (simp add: modify_queue_def bt_modify_absent)
next
  case (Some q)
  then have "modify_queue n f s = put_queue n (f q) s"
    using assms(1) by (simp add: modify_queue_def put_queue_def bt_modify_insert)
  then show ?thesis using assms Some server_wf_queue[OF assms(1) Some] by (auto intro: server_wf_put)
qed

lemma server_wf_remove: "server_wf s \<Longrightarrow> server_wf (s\<lparr>queues := bt_remove n (queues s)\<rparr>)"
  using length_filter_le[of "\<lambda>e. fst e \<noteq> n" "queues s"]
  by (auto simp: server_wf_def list_all_iff bt_remove_def simp del: length_filter_le)

lemma default_attributes_ok:
  "bt_ok (default_queue_attributes c)" "bt_contains (default_queue_attributes c) ''VisibilityTimeout''"
  by (simp_all add: default_queue_attributes_def bt_contains_def bt_get_insert)

lemma wf_by_result:
  "server_wf s \<Longrightarrow> (\<And>e. r = Inl e \<Longrightarrow> s' = s) \<Longrightarrow> (\<And>x. r = Inr x \<Longrightarrow> server_wf s') \<Longrightarrow> server_wf s'"
  by (cases r) auto

lemma create_queue_wf:
  assumes "create_queue X E name attrs tgs s = (r, s')" "server_wf s" "bt_ok tgs" "clock_ok (clock E 0)"
  shows "server_wf s'"
proof (rule wf_by_result[OF assms(2)])
  show "s' = s" if "r = Inl e" for e using that assms create_queue_failed by force
  show "server_wf s'" if "r = Inr x" for x
    using that assms
    by (auto simp: create_queue_def Let_def server_wf_persist now_proper default_attributes_ok bt_contains_extend
        max_queues_pos queue_wf_def dedup_wf_def
        intro!: server_wf_put split: if_splits option.splits sum.splits prod.splits)
qed

lemma delete_queue_wf:
  "delete_queue E u s = (r, s') \<Longrightarrow> server_wf s \<Longrightarrow> server_wf s'"
  by (auto simp: delete_queue_def Let_def rollback_remove server_wf_persist server_wf_remove
      split: if_splits option.splits sum.splits prod.splits)

lemmas op_splits = if_splits option.splits sum.splits prod.splits

lemma purge_queue_wf:
  assumes "purge_queue E u s = (r, s')" "server_wf s"
  shows "server_wf s'"
proof (rule wf_by_result[OF assms(2)])
  show "s' = s" if "r = Inl e" for e using that assms purge_queue_failed by force
  show "server_wf s'" if "r = Inr x" for x
    using that assms
    by (auto simp: purge_queue_def Let_def rollback_modify server_wf_persist queue_wf_def
      elim!: queue_existsE intro!: server_wf_modify split: op_splits)
qed

lemma update_queue_attributes_wf:
  assumes "update_queue_attributes X E u attrs s = (r, s')" "server_wf s" "clock_ok (clock E 0)"
  shows "server_wf s'"
proof (rule wf_by_result[OF assms(2)])
  show "s' = s" if "r = Inl e" for e using that assms update_queue_attributes_failed by force
  show "server_wf s'" if "r = Inr x" for x
    using that assms
    by (auto simp: update_queue_attributes_def Let_def rollback_put server_wf_persist queue_wf_def
      now_proper bt_contains_extend
      elim!: queue_existsE intro!: server_wf_modify split: op_splits)
qed

lemma tag_queue_wf:
  assumes "tag_queue E u tgs s = (r, s')" "server_wf s"
  shows "server_wf s'"
proof (rule wf_by_result[OF assms(2)])
  show "s' = s" if "r = Inl e" for e using that assms tag_queue_failed by force
  show "server_wf s'" if "r = Inr x" for x
    using that assms
    by (auto simp: tag_queue_def Let_def rollback_modify server_wf_persist queue_wf_def
      elim!: queue_existsE intro!: server_wf_modify split: op_splits)
qed

lemma untag_queue_wf:
  assumes "untag_queue E u keys s = (r, s')" "server_wf s"
  shows "server_wf s'"
proof (rule wf_by_result[OF assms(2)])
  show "s' = s" if "r = Inl e" for e using that assms untag_queue_failed by force
  show "server_wf s'" if "r = Inr x" for x
    using that assms
    by (auto simp: untag_queue_def Let_def rollback_modify server_wf_persist queue_wf_def
      elim!: queue_existsE intro!: server_wf_modify split: op_splits)
qed

lemma add_permission_wf:
  assumes "add_permission X E u label accounts actions s = (r, s')" "server_wf s"
  shows "server_wf s'"
proof (rule wf_by_result[OF assms(2)])
  show "s' = s" if "r = Inl e" for e using that assms add_permission_failed by force
  show "server_wf s'" if "r = Inr x" for x
    using that assms
    by (auto simp: add_permission_def Let_def rollback_put server_wf_persist queue_wf_def
      set_policy_attribute_def bt_contains_insert
      elim!: queue_existsE intro!: server_wf_modify split: op_splits)
qed

lemma remove_permission_wf:
  assumes "remove_permission X E u label s = (r, s')" "server_wf s"
  shows "server_wf s'"
proof (rule wf_by_result[OF assms(2)])
  show "s' = s" if "r = Inl e" for e using that assms remove_permission_failed by force
  show "server_wf s'" if "r = Inr x" for x
    using that assms
    by (auto simp: remove_permission_def Let_def rollback_put server_wf_persist queue_wf_def
      set_policy_attribute_def bt_contains_def bt_get_remove bt_get_insert
      elim!: queue_existsE intro!: server_wf_modify split: op_splits)
qed

section \<open>Restart\<close>

lemma queue_url_ne: "queue_url c n \<noteq> []" and queue_arn_ne: "queue_arn c n \<noteq> []"
  by (simp_all add: queue_url_def queue_arn_def Let_def)

lemma load_queue_persisted:
  assumes "queue_wf c n q"
  shows "load_queue c now (n, persist_queue q) qs = bt_insert n q qs"
proof -
  have "q_attributes q \<noteq> []" using assms by (auto simp: queue_wf_def bt_contains_def)
  with assms valid_queue_name_plain[of n] show ?thesis
    by (cases q) (simp add: load_queue_def persist_queue_def queue_wf_def proper_time_def
        queue_last_modified_at_def queue_url_ne queue_arn_ne)
qed

lemma load_queues_persisted:
  "list_all (\<lambda>(n, q). queue_wf c n q) qs \<Longrightarrow>
   fold (load_queue c now) (map (\<lambda>(n, q). (n, persist_queue q)) qs) acc = bt_extend acc qs"
  unfolding bt_extend_def by (induction qs arbitrary: acc) (auto simp: load_queue_persisted)

lemma load_tasks_persisted:
  "list_all (\<lambda>(h, t). task_handle t = h \<and> h \<noteq> []) ts \<Longrightarrow> fold load_task ts acc = bt_extend acc ts"
  unfolding bt_extend_def by (induction ts arbitrary: acc) (auto simp: load_task_def)

lemma server_new_persisted:
  fixes E :: env
  assumes "server_wf s" "trim (storage_path (config s)) \<noteq> []"
  defines "s' \<equiv> server_new E (config s) (Contents (persisted_of s))"
  shows "queues s' = queues s" "move_tasks s' = move_tasks s" "load_err s' = None" "config s' = config s"
    "state_file s' = Some (persisted_of s)"
proof -
  have "fold (load_queue (config s) (now_rfc3339 (clock E 0))) (p_queues (persisted_of s)) [] = queues s"
    using assms(1) by (auto simp: persisted_of_def server_wf_def load_queues_persisted bt_extend_Nil)
  moreover have "fold load_task (p_move_tasks (persisted_of s)) [] = move_tasks s"
    using assms(1) by (auto simp: persisted_of_def server_wf_def load_tasks_persisted bt_extend_Nil)
  ultimately show "queues s' = queues s" "move_tasks s' = move_tasks s" "load_err s' = None" "config s' = config s"
    "state_file s' = Some (persisted_of s)"
    using assms(2) by (simp_all add: s'_def server_new_def load_def empty_server_def Let_def)
qed

text \<open>A restart loses nothing: a server started on the file that \<open>persist\<close> wrote holds the same queues
  (attributes, tags, messages, sequence numbers, deduplication records) and the same move tasks
  as the server that wrote it.\<close>

theorem restart_restores_state:
  assumes "server_wf s" "trim (storage_path (config s)) \<noteq> []"
    and "persist io s = (Inr (), s')" "state_file s' = Some p"
  shows "queues (server_new E (config s) (Contents p)) = queues s \<and>
         move_tasks (server_new E (config s) (Contents p)) = move_tasks s \<and>
         load_err (server_new E (config s) (Contents p)) = None"
proof -
  have p: "p = persisted_of s" using assms(2-4) by (auto simp: persist_def split: option.splits)
  show ?thesis using server_new_persisted[OF assms(1,2)] by (simp add: p)
qed

definition orders_server :: sqs_server where
  "orders_server = snd (create_queue no_crates (env_at t0) ''orders'' [] [] (empty_server sample_config))"

lemma orders_server_wf: "server_wf orders_server"
proof -
  have "server_wf (snd (create_queue no_crates (env_at t0) ''orders'' [] [] (empty_server sample_config)))"
    by (rule create_queue_wf[OF surjective_pairing server_wf_empty]) (simp_all add: env_at_def t0_def clock_ok_def)
  then show ?thesis by (simp add: orders_server_def)
qed

theorem restart_restores_state_witness:
  "queues (server_new (env_at t0) sample_config (Contents (persisted_of orders_server))) = queues orders_server \<and>
   queues orders_server \<noteq> []"
proof -
  have c: "config orders_server = sample_config" "queues orders_server \<noteq> []" by code_simp+
  moreover have "trim (storage_path (config orders_server)) \<noteq> []" by code_simp
  ultimately show ?thesis
    using restart_restores_state[OF orders_server_wf, of disk_ok _ "persisted_of orders_server" "env_at t0"]
    by (simp add: persist_def disk_ok_def)
qed

section \<open>Creating, finding and deleting queues\<close>

lemma queue_arn_inj: "queue_arn c n = queue_arn c n' \<longleftrightarrow> n = n'"
  by (simp add: queue_arn_def)

lemma queue_by_arn_wf:
  assumes "server_wf s"
  shows "queue_by_arn (queues s) a = Some (n, q) \<longleftrightarrow> map_of (queues s) n = Some q \<and> a = queue_arn (config s) n"
proof
  assume h: "queue_by_arn (queues s) a = Some (n, q)"
  then have "(n, q) \<in> set (queues s)" "arn q = a"
    by (auto simp: queue_by_arn_def dest: find_SomeD)
  with assms show "map_of (queues s) n = Some q \<and> a = queue_arn (config s) n"
    by (auto simp: server_wf_def list_all_iff queue_wf_def bt_in_set_iff[symmetric] simp del: map_of_eq_Some_iff)
next
  assume h: "map_of (queues s) n = Some q \<and> a = queue_arn (config s) n"
  with assms have in_set: "(n, q) \<in> set (queues s)" by (simp add: bt_in_set_iff)
  have "arn q = a" using h server_wf_queue[OF assms, of n q] by (simp add: queue_wf_def)
  then obtain e where e: "queue_by_arn (queues s) a = Some e"
    using in_set by (cases "queue_by_arn (queues s) a") (auto simp: queue_by_arn_def find_None_iff)
  then have e': "e \<in> set (queues s)" "arn (snd e) = a"
    by (auto simp: queue_by_arn_def dest: find_SomeD)
  then have "fst e = n" using assms h
    by (auto simp: server_wf_def list_all_iff queue_wf_def queue_arn_inj)
  with e e'(1) h assms show "queue_by_arn (queues s) a = Some (n, q)"
    by (cases e) (auto simp: bt_in_set_iff)
qed

lemma create_queue_success:
  assumes "create_queue X E name attrs tgs s = (Inr q, s')" "server_wf s"
  shows "map_of (queues s') name = Some q \<and>
    q_attributes q = bt_extend (default_queue_attributes (config s)) attrs \<and> config s' = config s"
  using assms
  by (auto simp: create_queue_def Let_def persist_keeps put_queue_def bt_get_insert split: op_splits)

text \<open>\<open>CreateQueue\<close> is idempotent: repeating a successful call with the same name and attributes, even
  with other tags, at another time and with a failing disk, returns the same queue and changes
  nothing.\<close>

theorem create_queue_idempotent:
  assumes "create_queue X E name attrs tgs s = (Inr q, s')" "server_wf s"
  shows "create_queue X E' name attrs tgs' s' = (Inr q, s')"
  using create_queue_success[OF assms] assms(1)
  by (auto simp: create_queue_def Let_def split: op_splits)

theorem create_queue_idempotent_witness:
  "\<exists>q. create_queue no_crates (env_at t0) ''orders'' [] [] (empty_server sample_config) = (Inr q, orders_server) \<and>
       create_queue no_crates (env_at t0\<lparr>fs := disk_full\<rparr>) ''orders'' [] [(''team'', ''a'')] orders_server = (Inr q, orders_server)"
proof -
  have "\<not> isl (fst (create_queue no_crates (env_at t0) ''orders'' [] [] (empty_server sample_config)))"
    by code_simp
  then obtain q where "create_queue no_crates (env_at t0) ''orders'' [] [] (empty_server sample_config) = (Inr q, orders_server)"
    by (metis orders_server_def prod.collapse sum.collapse(2))
  with create_queue_idempotent[OF this server_wf_empty] show ?thesis by blast
qed

section \<open>Attributes\<close>

lemma validate_queue_attributes_settable:
  "validate_queue_attributes X s q attrs = Inr () \<Longrightarrow> map_of attrs k = Some v \<Longrightarrow> is_settable_queue_attribute k"
  by (force simp: validate_queue_attributes_def bind_res_Inr_iff try_all_Inr_iff dest: map_of_SomeD split: if_splits)

lemma settable_readable: "is_settable_queue_attribute k \<Longrightarrow> is_readable_queue_attribute k \<and> k \<noteq> ''All''"
  by (auto simp: is_settable_queue_attribute_def is_readable_queue_attribute_def QUEUE_ATTRIBUTE_NAMES_def)

definition computed_names :: "string list" where
  "computed_names = [''QueueArn'', ''CreatedTimestamp'', ''LastModifiedTimestamp'', ''ApproximateNumberOfMessages'',
     ''ApproximateNumberOfMessagesNotVisible'', ''ApproximateNumberOfMessagesDelayed'']"

lemma computed_not_settable: "list_all (\<lambda>k. \<not> is_settable_queue_attribute k) computed_names"
  by code_simp

lemma computed_keeps:
  assumes "is_settable_queue_attribute k"
  shows "map_of (queue_attributes_with_computed q) k = map_of (q_attributes q) k"
proof -
  have "k \<notin> set computed_names" using assms computed_not_settable by (auto simp: list_all_iff)
  then show ?thesis by (simp add: queue_attributes_with_computed_def computed_names_def bt_get_insert)
qed

text \<open>What \<open>SetQueueAttributes\<close> accepts is what \<open>GetQueueAttributes\<close> answers: every attribute of an accepted
  request reads back with the value that was set.\<close>

theorem set_attributes_read_back:
  assumes "update_queue_attributes X E u attrs s = (Inr q, s')" "server_wf s" "bt_ok attrs"
    and "map_of attrs k = Some v"
  shows "get_queue_attributes u [k] s' = Inr [(k, v)]"
proof -
  let ?n = "queue_name_from_url u"
  have q: "map_of (queues s') ?n = Some q" "?n \<noteq> []" "is_settable_queue_attribute k"
    "map_of (q_attributes q) k = Some v"
    using assms
    by (auto simp: update_queue_attributes_def Let_def persist_keeps modify_queue_def bt_get_modify bt_get_extend
        map_of_rev_distinct[OF bt_ok_distinct] map_add_def
        dest: validate_queue_attributes_settable elim!: queue_existsE split: op_splits)
  then show ?thesis
    using settable_readable[OF q(3)] computed_keeps[OF q(3), of q]
    by (auto simp: get_queue_attributes_def queue_exists_def bt_contains_def filter_queue_attributes_def)
qed

theorem set_attributes_read_back_witness:
  "get_queue_attributes ''http://127.0.0.1:9324/000000000000/orders'' [''DelaySeconds'']
     (snd (update_queue_attributes no_crates (env_at t0) ''http://127.0.0.1:9324/000000000000/orders''
       [(''DelaySeconds'', ''7'')] orders_server)) = Inr [(''DelaySeconds'', ''7'')]"
proof -
  let ?r = "update_queue_attributes no_crates (env_at t0) ''http://127.0.0.1:9324/000000000000/orders''
       [(''DelaySeconds'', ''7'')] orders_server"
  have "\<not> isl (fst ?r)" by code_simp
  then obtain q where "?r = (Inr q, snd ?r)" by (metis prod.collapse sum.collapse(2))
  from set_attributes_read_back[OF this orders_server_wf] show ?thesis by simp
qed

text \<open>What a dead-letter queue's \<open>RedriveAllowPolicy\<close> permits.\<close>

definition redrive_allowed :: "crates \<Rightarrow> queue_state \<Rightarrow> string \<Rightarrow> bool" where
  "redrive_allowed X dlq src \<longleftrightarrow>
     (let raw = attr_or_empty (q_attributes dlq) ''RedriveAllowPolicy'' in
      raw = [] \<or>
      (case parse_redrive_allow_policy X raw of
         Inl _ \<Rightarrow> False
       | Inr p \<Rightarrow> permission p = ''allowAll'' \<or> (permission p = ''byQueue'' \<and> src \<in> set (source_queue_arns p))))"

lemma validate_redrive_allow_policy_iff:
  "validate_redrive_allow_policy X dlq src = Inr () \<longleftrightarrow> redrive_allowed X dlq src"
proof (cases "attr_or_empty (q_attributes dlq) ''RedriveAllowPolicy'' = []")
  case True
  then show ?thesis by (simp add: validate_redrive_allow_policy_def redrive_allowed_def)
next
  case False
  then show ?thesis
    by (cases "parse_redrive_allow_policy X (attr_or_empty (q_attributes dlq) ''RedriveAllowPolicy'')")
      (simp_all add: validate_redrive_allow_policy_def redrive_allowed_def bind_res_def)
qed

text \<open>A redrive policy is accepted only if it is usable: it parses, its count is positive, its target is an
  existing queue of the same kind (FIFO or standard), and that queue's \<open>RedriveAllowPolicy\<close> admits the
  source.\<close>

theorem accepted_redrive_policy_usable:
  assumes "validate_queue_attributes X s q attrs = Inr ()" "server_wf s"
    and "map_of attrs ''RedrivePolicy'' = Some raw" "raw \<noteq> []"
  shows "\<exists>p n dlq. parse_redrive_policy X raw = Inr p \<and> 1 \<le> max_receive_count p \<and>
           map_of (queues s) n = Some dlq \<and> dead_letter_target_arn p = queue_arn (config s) n \<and>
           is_fifo_queue q = is_fifo_queue dlq \<and> redrive_allowed X dlq (arn q)"
proof -
  from assms(1,3,4) obtain p n dlq where
    p: "parse_redrive_policy X raw = Inr p" "\<not> max_receive_count p < 1"
      "queue_by_arn (queues s) (dead_letter_target_arn p) = Some (n, dlq)"
      "is_fifo_queue q = is_fifo_queue dlq" "validate_redrive_allow_policy X dlq (arn q) = Inr ()"
    by (auto simp: validate_queue_attributes_def bind_res_Inr_iff attr_or_empty_def Let_def
        split: if_splits option.splits)
  then show ?thesis
    using queue_by_arn_wf[OF assms(2)] validate_redrive_allow_policy_iff by fastforce
qed

text \<open>Numeric queue attributes are accepted only within their documented range.\<close>

theorem accepted_attributes_in_range:
  assumes "validate_queue_attributes X s q attrs = Inr ()" "(k, lo, hi) \<in> set attribute_bounds"
    and "map_of attrs k = Some v"
  shows "\<exists>n. parse_i64 v = Some n \<and> lo \<le> n \<and> n \<le> hi"
proof -
  have "check_bound attrs (k, lo, hi) = Inr ()"
    using assms(1,2)
    by (auto simp: validate_queue_attributes_def validate_queue_attribute_values_def bind_res_Inr_iff try_all_Inr_iff)
  with assms(3) show ?thesis by (auto simp: check_bound_def split: option.splits if_splits)
qed

theorem accepted_attributes_in_range_witness:
  "\<exists>n. parse_i64 ''900'' = Some n \<and> 0 \<le> n \<and> n \<le> MAX_DELAY_SECONDS"
proof (rule accepted_attributes_in_range)
  show "validate_queue_attributes no_crates orders_server (snd (hd (queues orders_server)))
      [(''DelaySeconds'', ''900'')] = Inr ()" by code_simp
qed (simp_all add: attribute_bounds_def)

section \<open>Permissions\<close>

text \<open>The JSON writer and reader agree on a policy.\<close>

definition serde_faithful :: "crates \<Rightarrow> queue_policy \<Rightarrow> bool" where
  "serde_faithful X p =
     (case policy_to_string X p of
        Inl _ \<Rightarrow> True
      | Inr enc \<Rightarrow> trim enc \<noteq> [] \<and> policy_from_str X (trim enc) = Some p)"

definition permission_statement ::
    "string \<Rightarrow> string list \<Rightarrow> string list \<Rightarrow> string \<Rightarrow> queue_policy_statement" where
  "permission_statement label accounts actions res =
     \<lparr>sid = label, effect = ''Allow'', principal = \<lparr>aws = accounts\<rparr>,
      action = normalized_permission_actions actions, resource = res\<rparr>"

lemma policy_from_attribute_defaults:
  "queue_policy_from_attribute X q = Inr p \<Longrightarrow> version p \<noteq> [] \<and> (policy_id p = [] \<longrightarrow> arn q @ ''/SQSDefaultPolicy'' = [])"
  by (auto simp: queue_policy_from_attribute_def Let_def split: if_splits option.splits)

text \<open>\<open>AddPermission\<close> stores the new statement under its label, replacing the statement that had it and
  keeping every other one in place, in the policy that the next request reads back.\<close>

theorem add_permission_stores_statement:
  assumes "add_permission X E u label accounts actions s = (Inr (), s')" "server_wf s"
    and "map_of (queues s) (queue_name_from_url u) = Some q" "queue_policy_from_attribute X q = Inr p"
    and "serde_faithful X (p\<lparr>statement := upsert_statement (permission_statement label accounts actions (arn q)) (statement p)\<rparr>)"
  shows "\<exists>q'. map_of (queues s') (queue_name_from_url u) = Some q' \<and>
           queue_policy_from_attribute X q' =
             Inr (p\<lparr>statement := upsert_statement (permission_statement label accounts actions (arn q)) (statement p)\<rparr>)"
proof -
  let ?p = "p\<lparr>statement := upsert_statement (permission_statement label accounts actions (arn q)) (statement p)\<rparr>"
  from assms(1,3,4) obtain enc where
    enc: "policy_to_string X ?p = Inr enc"
      "persist (fs E) (modify_queue (queue_name_from_url u) (set_policy_attribute enc) s) = (Inr (), s')"
    by (auto simp: add_permission_def Let_def permission_statement_def split: op_splits)
  then have q': "map_of (queues s') (queue_name_from_url u) = Some (set_policy_attribute enc q)"
    using assms(3) by (simp add: persist_keeps modify_queue_def bt_get_modify)
  have "trim enc \<noteq> []" "policy_from_str X (trim enc) = Some ?p"
    using assms(5) enc(1) by (simp_all add: serde_faithful_def)
  then have "queue_policy_from_attribute X (set_policy_attribute enc q) = Inr ?p"
    using policy_from_attribute_defaults[OF assms(4)]
    by (cases p) (auto simp: queue_policy_from_attribute_def set_policy_attribute_def attr_or_empty_def bt_get_insert)
  with q' show ?thesis by blast
qed

section \<open>FIFO naming\<close>

text \<open>The naming rule for FIFO queues compares \<open>FifoQueue\<close> with \<open>true\<close> exactly, while the rest of the
  server reads it without regard to case, so \<open>FifoQueue=TRUE\<close> creates a FIFO queue whose name has no
  \<open>.fifo\<close> suffix.\<close>

theorem fifo_suffix_rule_bypassed:
  assumes "valid_queue_name name" "\<not> ends_with name ''.fifo''" "map_of (queues s) name = None"
    and "int (length (queues s)) < max_queues (config s)" "fs E = disk_ok"
  shows "\<exists>q s'. create_queue X E name [(''FifoQueue'', ''TRUE'')] [] s = (Inr q, s') \<and>
           is_fifo_queue q \<and> \<not> ends_with (q_name q) ''.fifo''"
proof -
  let ?a = "[(''FifoQueue'', ''TRUE'')]"
  have "validate_queue_attributes X s q ?a = Inr ()" for q
  proof -
    have "validate_queue_attribute_values ?a = Inr ()" "is_settable_queue_attribute ''FifoQueue''" by code_simp+
    then show ?thesis by (simp add: validate_queue_attributes_def bind_res_def attr_or_empty_def)
  qed
  moreover have "map_of (bt_extend (default_queue_attributes (config s)) ?a) ''FifoQueue'' = Some ''TRUE''"
    by (simp add: bt_get_extend)
  moreover have "persist disk_ok t \<noteq> (Inl e, s')" for t e s'
    by (simp add: persist_def disk_ok_def)
  moreover have "eq_ignore_ascii_case ''TRUE'' ''true''" by code_simp
  moreover have "name \<noteq> []" using assms(1) valid_queue_name_plain by blast
  ultimately show ?thesis
    using assms by (auto simp: create_queue_def is_fifo_queue_def Let_def split: prod.splits sum.splits)
qed

theorem fifo_suffix_rule_bypassed_witness:
  "\<exists>q s'. create_queue no_crates (env_at t0) ''orders'' [(''FifoQueue'', ''TRUE'')] [] (empty_server sample_config) = (Inr q, s') \<and>
     is_fifo_queue q \<and> \<not> ends_with (q_name q) ''.fifo''"
proof (rule fifo_suffix_rule_bypassed)
  show "valid_queue_name ''orders''" "\<not> ends_with ''orders'' ''.fifo''" by code_simp+
qed (simp_all add: empty_server_def env_at_def max_queues_pos)

text \<open>A shop with a queue and a dead-letter queue; the JSON reader knows one redrive policy.\<close>

definition dlq_policy :: json where
  "dlq_policy = Object [(''deadLetterTargetArn'', String ''arn:aws:sqs:us-east-1:000000000000:orders-dlq''),
     (''maxReceiveCount'', Number (Int_num 2))]"

definition shop_crates :: crates where
  "shop_crates = no_crates\<lparr>json_from_str := (\<lambda>r. if r = ''P'' then Some dlq_policy else None)\<rparr>"

definition orders_url :: string where
  "orders_url = ''http://127.0.0.1:9324/000000000000/orders''"

definition shop_server :: sqs_server where
  "shop_server =
     snd (update_queue_attributes shop_crates (env_at t0) orders_url [(''RedrivePolicy'', ''P'')]
       (snd (create_queue shop_crates (env_at t0) ''orders-dlq'' [] [] orders_server)))"

lemma shop_server_wf: "server_wf shop_server"
  unfolding shop_server_def
  by (intro update_queue_attributes_wf[OF surjective_pairing] create_queue_wf[OF surjective_pairing] orders_server_wf)
    (simp_all add: env_at_clock clock_ok_def t0_def)

theorem accepted_redrive_policy_usable_witness:
  "\<exists>p n dlq. parse_redrive_policy shop_crates ''P'' = Inr p \<and> 1 \<le> max_receive_count p \<and>
     map_of (queues shop_server) n = Some dlq \<and> dead_letter_target_arn p = queue_arn (config shop_server) n \<and>
     is_fifo_queue (snd (hd (queues shop_server))) = is_fifo_queue dlq \<and>
     redrive_allowed shop_crates dlq (arn (snd (hd (queues shop_server))))"
proof (rule accepted_redrive_policy_usable)
  show "validate_queue_attributes shop_crates shop_server (snd (hd (queues shop_server)))
    [(''RedrivePolicy'', ''P'')] = Inr ()" by code_simp
qed (simp_all add: shop_server_wf)

definition sample_policy :: queue_policy where
  "sample_policy = \<lparr>version = ''2012-10-17'', policy_id = ''arn:aws:sqs:us-east-1:000000000000:orders/SQSDefaultPolicy'',
     statement = [permission_statement ''share'' [''111122223333''] [''SendMessage''] ''arn:aws:sqs:us-east-1:000000000000:orders'']\<rparr>"

definition policy_crates :: crates where
  "policy_crates = no_crates\<lparr>policy_to_string := (\<lambda>_. Inr ''{}''), policy_from_str := (\<lambda>_. Some sample_policy)\<rparr>"

theorem add_permission_stores_statement_witness:
  "\<exists>q'. map_of (queues (snd (add_permission policy_crates (env_at t0) orders_url ''share'' [''111122223333''] [''SendMessage''] orders_server)))
      ''orders'' = Some q' \<and> queue_policy_from_attribute policy_crates q' = Inr sample_policy"
proof -
  let ?q = "the (map_of (queues orders_server) ''orders'')"
  let ?r = "add_permission policy_crates (env_at t0) orders_url ''share'' [''111122223333''] [''SendMessage''] orders_server"
  let ?p = "sample_policy\<lparr>statement := []\<rparr>"
  have n: "queue_name_from_url orders_url = ''orders''" by code_simp
  have ok: "?r = (Inr (), snd ?r)" by (rule prod_eqI; simp; code_simp)
  have q: "map_of (queues orders_server) (queue_name_from_url orders_url) = Some ?q" by code_simp
  have p: "queue_policy_from_attribute policy_crates ?q = Inr ?p" by code_simp
  have eq: "?p\<lparr>statement := upsert_statement (permission_statement ''share'' [''111122223333''] [''SendMessage''] (arn ?q)) (statement ?p)\<rparr>
      = sample_policy" by code_simp
  have f: "serde_faithful policy_crates sample_policy" by code_simp
  show ?thesis
    using add_permission_stores_statement[OF ok orders_server_wf q p] f unfolding eq n by blast
qed

end
