(* ===== verification/Sqs_Messages.thy ===== *)
theory Sqs_Messages
  imports Sqs_Server
begin

text \<open>
  \<open>services/sqs/src/messages.rs\<close>: the message life cycle. Sending with FIFO deduplication, receiving
  with visibility timeouts, FIFO group blocking and dead-letter redrive, deleting, changing
  visibility, the batch forms, and the long poll.
  The clock is read through \<open>env\<close>: reading 0 is \<open>now\<close>, later readings stamp the opaque ids. In the batch
  operations and in the long poll each entry or attempt has an \<open>env\<close> of its own, given by a function
  on its position. \<open>i128\<close> subtraction wraps, as in a release build (a debug build panics where it
  would wrap, which needs a message without a \<open>SentAt\<close>).
\<close>

section \<open>Requests and results\<close>

record send_message_request =
  sr_queue_url :: string
  sr_message_body :: string
  sr_delay_seconds :: "int option"
  sr_message_attributes :: attribute_map
  sr_message_system_attributes :: attribute_map
  sr_message_group_id :: string
  sr_message_deduplication_id :: string

record send_message_batch_entry =
  se_id :: string
  se_message_body :: string
  se_delay_seconds :: "int option"
  se_message_attributes :: attribute_map
  se_message_system_attributes :: attribute_map
  se_message_group_id :: string
  se_message_deduplication_id :: string

record receive_message_request =
  rr_queue_url :: string
  rr_max_number_of_messages :: "int option"
  rr_visibility_timeout :: "int option"
  rr_wait_time_seconds :: "int option"
  rr_attribute_names :: "string list"
  rr_message_attribute_names :: "string list"
  rr_message_system_attribute_names :: "string list"

record received_message =
  rm_message_id :: string
  rm_receipt_handle :: string
  rm_md5_of_message_body :: string
  rm_md5_of_message_attributes :: string
  rm_md5_of_message_system_attributes :: string
  rm_body :: string
  rm_attributes :: str_map
  rm_message_attributes :: attribute_map

record send_message_batch_result_entry =
  sb_id :: string
  sb_message_id :: string
  sb_md5_of_message_body :: string
  sb_md5_of_message_attributes :: string
  sb_md5_of_message_system_attributes :: string
  sb_sequence_number :: string

record batch_result_error_entry =
  be_id :: string
  be_sender_fault :: bool
  be_code :: string
  be_message :: string

record send_message_batch_result =
  sb_successful :: "send_message_batch_result_entry list"
  sb_failed :: "batch_result_error_entry list"

record batch_result =
  br_successful :: "string list"
  br_failed :: "batch_result_error_entry list"

record delete_message_batch_entry =
  de_id :: string
  de_receipt_handle :: string

record change_message_visibility_batch_entry =
  ce_id :: string
  ce_receipt_handle :: string
  ce_visibility_timeout :: int

section \<open>Helpers\<close>

definition FIFO_DEDUPLICATION_WINDOW_SECONDS :: int where
  "FIFO_DEDUPLICATION_WINDOW_SECONDS = 5 * 60"

definition int_attribute :: "str_map \<Rightarrow> string \<Rightarrow> int \<Rightarrow> int" where
  "int_attribute attrs key fallback =
     (case Option.bind (map_of attrs key) parse_i64 of Some v \<Rightarrow> v | None \<Rightarrow> fallback)"

text \<open>\<open>{prefix}-{nanos:x}{n:x}\<close>, with the counter taken by \<open>fetch_add\<close>, which wraps at 64 bits.\<close>

definition new_opaque_id :: "string \<Rightarrow> nat \<Rightarrow> 64 word \<Rightarrow> string" where
  "new_opaque_id prefix nanos n = prefix @ ''-'' @ hex nanos @ hex (unat n)"

definition fetch_add_id :: "sqs_server \<Rightarrow> sqs_server" where
  "fetch_add_id s = s\<lparr>id_counter := id_counter s + 1\<rparr>"

definition cleanup_expired_deduplication :: "string \<Rightarrow> queue_state \<Rightarrow> queue_state" where
  "cleanup_expired_deduplication now q =
     q\<lparr>dedup := filter (\<lambda>e. before now (expires_at (snd e))) (dedup q)\<rparr>"

definition retained :: "int \<Rightarrow> string \<Rightarrow> message_state \<Rightarrow> bool" where
  "retained retention now m \<longleftrightarrow>
     \<not> deleted m \<and>
     \<not> (retention > 0 \<and>
        wrap_s 128 (unix_nanos_from_rfc3339 now - unix_nanos_from_rfc3339 (sent_at m)) > retention * 10 ^ 9)"

definition cleanup_expired_messages :: "string \<Rightarrow> queue_state \<Rightarrow> queue_state" where
  "cleanup_expired_messages now q =
     (let retention = int_attribute (q_attributes q) ''MessageRetentionPeriod'' 345600
      in cleanup_expired_deduplication now (q\<lparr>messages := filter (retained retention now) (messages q)\<rparr>))"

definition wants_all :: "string list \<Rightarrow> bool" where
  "wants_all names \<longleftrightarrow> ''All'' \<in> set names \<or> ''.*'' \<in> set names"

definition wants_any :: "string list \<Rightarrow> string \<Rightarrow> bool" where
  "wants_any names target \<longleftrightarrow> wants_all names \<or> target \<in> set names"

definition filter_one_name :: "attribute_map \<Rightarrow> string \<Rightarrow> attribute_map \<Rightarrow> attribute_map" where
  "filter_one_name attrs requested filtered =
     (if requested = [] then filtered
      else case strip_suffix requested ''.*'' of
             Some prefix \<Rightarrow> bt_extend filtered (filter (\<lambda>e. starts_with (fst e) prefix) attrs)
           | None \<Rightarrow> (case map_of attrs requested of
                        Some v \<Rightarrow> bt_insert requested v filtered | None \<Rightarrow> filtered))"

definition filter_message_attributes :: "attribute_map \<Rightarrow> string list \<Rightarrow> attribute_map" where
  "filter_message_attributes attrs names =
     (if attrs = [] \<or> names = [] then [] else fold (filter_one_name attrs) names [])"

definition received_message_from_state ::
    "crates \<Rightarrow> message_state \<Rightarrow> string list \<Rightarrow> string list \<Rightarrow> received_message" where
  "received_message_from_state X m attribute_names system_names =
     (let a0 = bt_insert ''SentTimestamp'' (int_to_string (unix_millis_from_rfc3339 (sent_at m)))
                 (bt_insert ''ApproximateReceiveCount'' (int_to_string (receive_count m)) []);
          a1 = (if \<not> is_zero_time (first_receive_at m)
                then bt_insert ''ApproximateFirstReceiveTimestamp''
                       (int_to_string (unix_millis_from_rfc3339 (first_receive_at m))) a0
                else a0);
          a2 = (if wants_any system_names ''AWSTraceHeader'' then
                  (case map_of (system_attributes m) ''AWSTraceHeader'' of
                     Some v \<Rightarrow> if string_value v \<noteq> [] then bt_insert ''AWSTraceHeader'' (string_value v) a1 else a1
                   | None \<Rightarrow> a1)
                else a1);
          ma = (if wants_all attribute_names then m_attributes m
                else filter_message_attributes (m_attributes m) attribute_names)
      in \<lparr>rm_message_id = m_id m, rm_receipt_handle = receipt_handle m,
          rm_md5_of_message_body = body_md5 m,
          rm_md5_of_message_attributes = md5_of_message_attributes X ma,
          rm_md5_of_message_system_attributes =
            (if wants_any system_names ''AWSTraceHeader''
             then md5_of_message_attributes X (system_attributes m) else []),
          rm_body = m_body m, rm_attributes = a2, rm_message_attributes = ma\<rparr>)"

definition redrive_policy_from_queue :: "crates \<Rightarrow> queue_state \<Rightarrow> redrive_policy option" where
  "redrive_policy_from_queue X q =
     (case map_of (q_attributes q) ''RedrivePolicy'' of
        None \<Rightarrow> None
      | Some raw \<Rightarrow>
          if raw = [] then None
          else (case parse_redrive_policy X raw of
                  Inl _ \<Rightarrow> None
                | Inr p \<Rightarrow> if max_receive_count p < 1 \<or> dead_letter_target_arn p = [] then None else Some p))"

definition fifo_deduplication_id :: "crates \<Rightarrow> queue_state \<Rightarrow> send_message_request \<Rightarrow> string result" where
  "fifo_deduplication_id X q input =
     (if sr_message_group_id input = [] then Inl ''MessageGroupId is required for FIFO queues''
      else if sr_message_deduplication_id input \<noteq> [] then Inr (sr_message_deduplication_id input)
      else if (case map_of (q_attributes q) ''ContentBasedDeduplication'' of
                 Some v \<Rightarrow> eq_ignore_ascii_case v ''true'' | None \<Rightarrow> False)
      then Inr (hex_lower (sha256_digest X (sr_message_body input)))
      else Inl ''MessageDeduplicationId is required for FIFO queues unless ContentBasedDeduplication is enabled'')"

fun check_batch_ids :: "string list \<Rightarrow> string list \<Rightarrow> unit result" where
  "check_batch_ids seen [] = Inr ()"
| "check_batch_ids seen (i # ids) =
     (if i = [] then Inl ''batch entry Id is required''
      else if \<not> valid_batch_entry_id i then
        Inl ''batch entry Id may contain only alphanumeric characters, hyphens, and underscores, and must be no longer than 80 characters''
      else if i \<in> set seen then Inl ''batch entry Id must be unique''
      else check_batch_ids (i # seen) ids)"

definition validate_batch_entries :: "string list \<Rightarrow> unit result" where
  "validate_batch_entries ids =
     (if ids = [] then Inl ''Entries is required''
      else if length ids > 10 then Inl ''Entries must contain no more than 10 entries''
      else check_batch_ids [] ids)"

definition batch_error :: "string \<Rightarrow> string \<Rightarrow> batch_result_error_entry" where
  "batch_error i err = \<lparr>be_id = i, be_sender_fault = True, be_code = error_code err, be_message = err\<rparr>"

section \<open>Send\<close>

definition new_message ::
    "crates \<Rightarrow> string \<Rightarrow> string \<Rightarrow> int \<Rightarrow> send_message_request \<Rightarrow> message_state" where
  "new_message X mid now delay input =
     \<lparr>m_id = mid, m_body = sr_message_body input, body_md5 = md5_hex X (sr_message_body input),
      m_attributes = sr_message_attributes input,
      system_attributes = sr_message_system_attributes input,
      sent_at = now, available_at = add_seconds now delay, invisible_until = [],
      receive_count = 0, first_receive_at = [], receipt_handle = [], deleted = False,
      message_group_id = sr_message_group_id input, deduplication_id = [], sequence_number = [],
      dead_letter_source_arn = []\<rparr>"

definition validate_send :: "crates \<Rightarrow> sqs_server \<Rightarrow> send_message_request \<Rightarrow> unit result" where
  "validate_send X s input =
     (let max_bytes = max_message_bytes (config s) in
      if sr_queue_url input = [] then Inl ''QueueUrl is required''
      else if sr_message_body input = [] then Inl ''MessageBody is required''
      else if max_bytes > 0 \<and> int (length (sr_message_body input)) > max_bytes then
        Inl ''MessageBody exceeds maximum message size''
      else if \<not> valid_message_body (sr_message_body input) then
        Inl ''MessageBody contains invalid characters''
      else bind_res
        (try_all (\<lambda>(n, a). bind_res (validate_message_attribute_name n)
                     (\<lambda>_. validate_message_attribute_value X n a)) (sr_message_attributes input)) (\<lambda>_.
        bind_res
        (try_all (\<lambda>(n, a). validate_message_system_attribute X n a) (sr_message_system_attributes input)) (\<lambda>_.
        if \<not> queue_exists (queue_name_from_url (sr_queue_url input)) s then Inl ''queue does not exist''
        else Inr ())))"

definition push_message :: "message_state \<Rightarrow> queue_state \<Rightarrow> queue_state" where
  "push_message m q = q\<lparr>messages := messages q @ [m]\<rparr>"

definition record_dedup :: "string \<Rightarrow> string \<Rightarrow> message_state \<Rightarrow> queue_state \<Rightarrow> queue_state" where
  "record_dedup now did m q =
     q\<lparr>dedup := bt_insert did
         \<lparr>expires_at = add_seconds now FIFO_DEDUPLICATION_WINDOW_SECONDS, dedup_message = Some m\<rparr> (dedup q)\<rparr>"

text \<open>Pushing and persisting, with the roll-back to the state the call found.\<close>

definition commit_send ::
    "env \<Rightarrow> string \<Rightarrow> queue_state \<Rightarrow> message_state \<Rightarrow> sqs_server \<Rightarrow> message_state result \<times> sqs_server" where
  "commit_send E name previous m s =
     (case persist (fs E) (modify_queue name (push_message m) s) of
        (Inl e, s') \<Rightarrow>
          (Inl e, modify_queue name (\<lambda>q. q\<lparr>messages := messages previous,
             sequence := sequence previous, dedup := dedup previous\<rparr>) s')
      | (Inr _, s') \<Rightarrow> (Inr m, s'))"

definition send_message ::
    "crates \<Rightarrow> env \<Rightarrow> send_message_request \<Rightarrow> sqs_server \<Rightarrow> message_state result \<times> sqs_server" where
  "send_message X E input s =
     (case validate_send X s input of
        Inl e \<Rightarrow> (Inl e, s)
      | Inr _ \<Rightarrow>
        let name = queue_name_from_url (sr_queue_url input);
            previous = the (map_of (queues s) name);
            fifo = is_fifo_queue previous in
        if fifo \<and> sr_delay_seconds input \<noteq> None then
          (Inl ''DelaySeconds is not supported for FIFO queue messages'', s)
        else let now = now_rfc3339 (clock E 0);
                 s1 = modify_queue name (cleanup_expired_messages now) s;
                 delay = (case sr_delay_seconds input of
                            Some d \<Rightarrow> d
                          | None \<Rightarrow> int_attribute (q_attributes previous) ''DelaySeconds'' 0) in
        if delay < 0 then (Inl ''DelaySeconds must be non-negative'', s1)
        else if delay > MAX_DELAY_SECONDS then
          (Inl (''DelaySeconds must be no greater than '' @ int_to_string MAX_DELAY_SECONDS), s1)
        else let m = new_message X (new_opaque_id ''msg'' (clock E 1) (id_counter s1)) now delay input;
                 s2 = fetch_add_id s1 in
        if \<not> fifo then commit_send E name previous m s2
        else (case fifo_deduplication_id X previous input of
            Inl e \<Rightarrow> (Inl e, s2)
          | Inr did \<Rightarrow>
              let s3 = modify_queue name (cleanup_expired_deduplication now) s2;
                  queue = the (map_of (queues s3) name) in
              (case Option.bind (map_of (dedup queue) did)
                      (\<lambda>d. if before now (expires_at d) then dedup_message d else None) of
                 Some original \<Rightarrow> (Inr original, s3)
               | None \<Rightarrow>
                   let seq = sequence queue + 1;
                       m' = m\<lparr>deduplication_id := did, sequence_number := dec (unat seq)\<rparr>;
                       s4 = modify_queue name (\<lambda>q. record_dedup now did m' (q\<lparr>sequence := seq\<rparr>)) s3
                   in commit_send E name previous m' s4)))"

definition request_of_entry :: "string \<Rightarrow> send_message_batch_entry \<Rightarrow> send_message_request" where
  "request_of_entry u e =
     \<lparr>sr_queue_url = u, sr_message_body = se_message_body e, sr_delay_seconds = se_delay_seconds e,
      sr_message_attributes = se_message_attributes e,
      sr_message_system_attributes = se_message_system_attributes e,
      sr_message_group_id = se_message_group_id e,
      sr_message_deduplication_id = se_message_deduplication_id e\<rparr>"

fun send_entries ::
    "crates \<Rightarrow> (nat \<Rightarrow> env) \<Rightarrow> string \<Rightarrow> nat \<Rightarrow> send_message_batch_entry list \<Rightarrow>
     send_message_batch_result \<Rightarrow> sqs_server \<Rightarrow> send_message_batch_result \<times> sqs_server" where
  "send_entries X Es u j [] r s = (r, s)"
| "send_entries X Es u j (e # es) r s =
     (case send_message X (Es j) (request_of_entry u e) s of
        (Inr m, s') \<Rightarrow>
          send_entries X Es u (Suc j) es
            (r\<lparr>sb_successful := sb_successful r @
                [\<lparr>sb_id = se_id e, sb_message_id = m_id m, sb_md5_of_message_body = body_md5 m,
                  sb_md5_of_message_attributes = md5_of_message_attributes X (m_attributes m),
                  sb_md5_of_message_system_attributes = md5_of_message_attributes X (system_attributes m),
                  sb_sequence_number = sequence_number m\<rparr>]\<rparr>) s'
      | (Inl err, s') \<Rightarrow>
          send_entries X Es u (Suc j) es (r\<lparr>sb_failed := sb_failed r @ [batch_error (se_id e) err]\<rparr>) s')"

definition send_message_batch ::
    "crates \<Rightarrow> (nat \<Rightarrow> env) \<Rightarrow> string \<Rightarrow> send_message_batch_entry list \<Rightarrow> sqs_server \<Rightarrow>
     send_message_batch_result result \<times> sqs_server" where
  "send_message_batch X Es u entries s =
     (if u = [] then (Inl ''QueueUrl is required'', s)
      else case validate_batch_entries (map se_id entries) of
             Inl e \<Rightarrow> (Inl e, s)
           | Inr _ \<Rightarrow>
               (case send_entries X Es u 0 entries \<lparr>sb_successful = [], sb_failed = []\<rparr> s of
                  (r, s') \<Rightarrow> (Inr r, s')))"

section \<open>Receive\<close>

definition requested_system_attribute_names :: "receive_message_request \<Rightarrow> string list" where
  "requested_system_attribute_names input =
     (if rr_message_system_attribute_names input \<noteq> [] then rr_message_system_attribute_names input
      else rr_attribute_names input)"

definition update_message :: "nat \<Rightarrow> (message_state \<Rightarrow> message_state) \<Rightarrow> queue_state \<Rightarrow> queue_state" where
  "update_message i f q = q\<lparr>messages := (messages q)[i := f (messages q ! i)]\<rparr>"

definition tombstone :: "message_state \<Rightarrow> message_state" where
  "tombstone m = m\<lparr>deleted := True, receipt_handle := []\<rparr>"

definition dead_letter :: "string \<Rightarrow> string \<Rightarrow> message_state \<Rightarrow> message_state" where
  "dead_letter now source m =
     m\<lparr>available_at := now, invisible_until := ZERO_TIME, receipt_handle := [], receive_count := 0,
       first_receive_at := ZERO_TIME, deleted := False, dead_letter_source_arn := source\<rparr>"

definition move_to_dlq_if_needed ::
    "crates \<Rightarrow> string \<Rightarrow> nat \<Rightarrow> string \<Rightarrow> sqs_server \<Rightarrow> bool \<times> sqs_server" where
  "move_to_dlq_if_needed X name i now s =
     (let queue = the (map_of (queues s) name); m = messages queue ! i in
      case redrive_policy_from_queue X queue of
        None \<Rightarrow> (False, s)
      | Some policy \<Rightarrow>
          if receive_count m < max_receive_count policy then (False, s)
          else (case queue_by_arn (queues s) (dead_letter_target_arn policy) of
                  None \<Rightarrow> (False, s)
                | Some (dlq_name, _) \<Rightarrow>
                    (True, modify_queue name (update_message i tombstone)
                       (modify_queue dlq_name (push_message (dead_letter now (arn queue) m)) s))))"

definition deliver :: "string \<Rightarrow> string \<Rightarrow> int \<Rightarrow> message_state \<Rightarrow> message_state" where
  "deliver handle now visibility m =
     m\<lparr>receive_count := wrap_s 64 (receive_count m + 1),
       first_receive_at := (if is_zero_time (first_receive_at m) then now else first_receive_at m),
       receipt_handle := handle,
       invisible_until := add_seconds now visibility\<rparr>"

record scan =
  sc_server :: sqs_server
  sc_out :: "received_message list"
  sc_blocked :: "string set"
  sc_delivered :: "string set"
  sc_changed :: bool

text \<open>What one scan is called with.\<close>

record scan_args =
  sa_name :: string
  sa_now :: string
  sa_max :: int
  sa_visibility :: int
  sa_fifo :: bool
  sa_attribute_names :: "string list"
  sa_system_names :: "string list"

definition scan_step :: "crates \<Rightarrow> env \<Rightarrow> scan_args \<Rightarrow> nat \<Rightarrow> scan \<Rightarrow> scan" where
  "scan_step X E a i st =
     (let s = sc_server st;
          m = messages (the (map_of (queues s) (sa_name a))) ! i;
          group = message_group_id m;
          grouped = sa_fifo a \<and> group \<noteq> [] in
      if deleted m then st
      else if grouped \<and> (group \<in> sc_blocked st \<or> group \<in> sc_delivered st) then st
      else if before (sa_now a) (available_at m) \<or> before (sa_now a) (invisible_until m) then
        (if grouped then st\<lparr>sc_blocked := insert group (sc_blocked st)\<rparr> else st)
      else (case move_to_dlq_if_needed X (sa_name a) i (sa_now a) s of
          (True, s') \<Rightarrow>
            st\<lparr>sc_server := s', sc_changed := True,
               sc_blocked := (if grouped then insert group (sc_blocked st) else sc_blocked st)\<rparr>
        | (False, _) \<Rightarrow>
            let handle = new_opaque_id ''rct'' (clock E (Suc (length (sc_out st)))) (id_counter s);
                m' = deliver handle (sa_now a) (sa_visibility a) m in
            st\<lparr>sc_server := modify_queue (sa_name a) (update_message i (\<lambda>_. m')) (fetch_add_id s),
               sc_out := sc_out st @ [received_message_from_state X m' (sa_attribute_names a) (sa_system_names a)],
               sc_changed := True,
               sc_delivered := (if grouped then insert group (sc_delivered st) else sc_delivered st)\<rparr>))"

fun scan_loop :: "crates \<Rightarrow> env \<Rightarrow> scan_args \<Rightarrow> nat list \<Rightarrow> scan \<Rightarrow> scan" where
  "scan_loop X E a [] st = st"
| "scan_loop X E a (i # is) st =
     (if int (length (sc_out st)) \<ge> sa_max a then st
      else scan_loop X E a is (scan_step X E a i st))"

definition start_scan :: "sqs_server \<Rightarrow> scan" where
  "start_scan s = \<lparr>sc_server = s, sc_out = [], sc_blocked = {}, sc_delivered = {}, sc_changed = False\<rparr>"

text \<open>The names of the queues a scan may change besides its own.\<close>

definition dlq_snapshot :: "crates \<Rightarrow> string \<Rightarrow> sqs_server \<Rightarrow> (string \<times> queue_state) option" where
  "dlq_snapshot X name s =
     (case redrive_policy_from_queue X (the (map_of (queues s) name)) of
        None \<Rightarrow> None
      | Some p \<Rightarrow>
          (case queue_by_arn (queues s) (dead_letter_target_arn p) of
             None \<Rightarrow> None
           | Some (n, q) \<Rightarrow> if n \<noteq> name then Some (n, q) else None))"

definition restore_snapshots ::
    "string \<Rightarrow> queue_state \<Rightarrow> (string \<times> queue_state) option \<Rightarrow> sqs_server \<Rightarrow> sqs_server" where
  "restore_snapshots name previous dlq s =
     (let s' = put_queue name previous s in
      case dlq of None \<Rightarrow> s' | Some (n, q) \<Rightarrow> put_queue n q s')"

definition receive_available_messages ::
    "crates \<Rightarrow> env \<Rightarrow> string \<Rightarrow> int \<Rightarrow> int option \<Rightarrow> string list \<Rightarrow> string list \<Rightarrow> sqs_server \<Rightarrow>
     received_message list result \<times> sqs_server" where
  "receive_available_messages X E name max_messages visibility_override attribute_names system_names s =
     (if \<not> bt_contains (queues s) name then (Inl ''queue does not exist'', s)
      else let previous = the (map_of (queues s) name);
               dlq = dlq_snapshot X name s;
               now = now_rfc3339 (clock E 0);
               s1 = modify_queue name (cleanup_expired_messages now) s;
               visibility = (case visibility_override of
                   Some v \<Rightarrow> v
                 | None \<Rightarrow> int_attribute (q_attributes previous) ''VisibilityTimeout''
                             (default_visibility_timeout_seconds (config s))) in
      if visibility < 0 then (Inl ''VisibilityTimeout must be non-negative'', s1)
      else if visibility > MAX_VISIBILITY_TIMEOUT_SECONDS then
        (Inl (''VisibilityTimeout must be no greater than '' @ int_to_string MAX_VISIBILITY_TIMEOUT_SECONDS), s1)
      else let a = \<lparr>sa_name = name, sa_now = now, sa_max = max_messages, sa_visibility = visibility,
                    sa_fifo = is_fifo_queue previous, sa_attribute_names = attribute_names,
                    sa_system_names = system_names\<rparr>;
               count = length (messages (the (map_of (queues s1) name)));
               r = scan_loop X E a [0..<count] (start_scan s1) in
      if \<not> sc_changed r then (Inr (sc_out r), sc_server r)
      else (case persist (fs E) (sc_server r) of
              (Inl e, s') \<Rightarrow> (Inl e, restore_snapshots name previous dlq s')
            | (Inr _, s') \<Rightarrow> (Inr (sc_out r), s')))"

definition receive_messages_once ::
    "crates \<Rightarrow> env \<Rightarrow> receive_message_request \<Rightarrow> queue_identity option \<Rightarrow> sqs_server \<Rightarrow>
     (received_message list \<times> int \<times> queue_identity) result \<times> sqs_server" where
  "receive_messages_once X E input pinned s =
     (let name = queue_name_from_url (rr_queue_url input) in
      if rr_queue_url input = [] then (Inl ''QueueUrl is required'', s)
      else if name = [] then (Inl ''queue does not exist'', s)
      else (case queue_identity_of name s of
          None \<Rightarrow> (Inl ''queue does not exist'', s)
        | Some identity \<Rightarrow>
            if (case pinned of Some p \<Rightarrow> p \<noteq> identity | None \<Rightarrow> False) then (Inl ''queue does not exist'', s)
            else let m0 = (case rr_max_number_of_messages input of Some n \<Rightarrow> n | None \<Rightarrow> 1);
                     m1 = (if m0 < 1 then 1 else m0);
                     m2 = (if m1 > max_receive_batch_size (config s) then max_receive_batch_size (config s) else m1);
                     wait = (case rr_wait_time_seconds input of
                               Some w \<Rightarrow> w | None \<Rightarrow> default_receive_wait_time_seconds (config s)) in
            if wait < 0 then (Inl ''WaitTimeSeconds must be non-negative'', s)
            else if wait > 20 then (Inl ''WaitTimeSeconds must be no greater than 20'', s)
            else (case receive_available_messages X E name m2 (rr_visibility_timeout input)
                         (rr_message_attribute_names input) (requested_system_attribute_names input) s of
                    (Inl e, s') \<Rightarrow> (Inl e, s')
                  | (Inr msgs, s') \<Rightarrow> (Inr (msgs, wait, identity), s'))))"

text \<open>The polling loop: \<open>left\<close> attempts remain, each 100 ms after the one before.\<close>

fun poll_loop ::
    "crates \<Rightarrow> (nat \<Rightarrow> env) \<Rightarrow> receive_message_request \<Rightarrow> queue_identity \<Rightarrow> nat \<Rightarrow> nat \<Rightarrow> sqs_server \<Rightarrow>
     received_message list result \<times> sqs_server" where
  "poll_loop X Es input identity attempt 0 s = (Inr [], s)"
| "poll_loop X Es input identity attempt (Suc left) s =
     (case receive_messages_once X (Es attempt) input (Some identity) s of
        (Inl e, s') \<Rightarrow> (Inl e, s')
      | (Inr (msgs, _, _), s') \<Rightarrow>
          if msgs \<noteq> [] \<or> left = 0 then (Inr msgs, s')
          else poll_loop X Es input identity (Suc attempt) left s')"

definition receive_messages ::
    "crates \<Rightarrow> (nat \<Rightarrow> env) \<Rightarrow> receive_message_request \<Rightarrow> sqs_server \<Rightarrow>
     received_message list result \<times> sqs_server" where
  "receive_messages X Es input s =
     (case receive_messages_once X (Es 0) input None s of
        (Inl e, s') \<Rightarrow> (Inl e, s')
      | (Inr (first, wait, identity), s') \<Rightarrow>
          let attempts = max 1 (wait * 10 + 1) in
          if first \<noteq> [] \<or> attempts = 1 then (Inr first, s')
          else poll_loop X Es input identity 1 (nat (attempts - 1)) s')"

section \<open>Delete and change visibility\<close>

datatype staged_mutation = Applied nat message_state "string option" | Rejected string

definition stage_receipted_mutation ::
    "env \<Rightarrow> string \<Rightarrow> string \<Rightarrow> (message_state \<Rightarrow> string \<Rightarrow> message_state) \<Rightarrow> sqs_server \<Rightarrow>
     staged_mutation \<times> sqs_server" where
  "stage_receipted_mutation E name handle mutate s =
     (if handle = [] then (Rejected ''ReceiptHandle is required'', s)
      else let now = now_rfc3339 (clock E 0);
               msgs = messages (the (map_of (queues s) name)) in
        (case position (\<lambda>m. \<not> deleted m \<and> receipt_handle m = handle) msgs of
           None \<Rightarrow> (Rejected ''receipt handle is invalid'', s)
         | Some idx \<Rightarrow>
             let previous = msgs ! idx in
             if \<not> before now (invisible_until previous) then
               (Applied idx previous (Some ''receipt handle is invalid''),
                modify_queue name (update_message idx (\<lambda>m. m\<lparr>receipt_handle := []\<rparr>)) s)
             else (Applied idx previous None,
                   modify_queue name (update_message idx (\<lambda>m. mutate m now)) s)))"

definition apply_to_receipted_message ::
    "env \<Rightarrow> string \<Rightarrow> string \<Rightarrow> (message_state \<Rightarrow> string \<Rightarrow> message_state) \<Rightarrow> sqs_server \<Rightarrow>
     unit result \<times> sqs_server" where
  "apply_to_receipted_message E name handle mutate s =
     (case stage_receipted_mutation E name handle mutate s of
        (Rejected e, s1) \<Rightarrow> (Inl e, s1)
      | (Applied idx previous pending, s1) \<Rightarrow>
          (case persist (fs E) s1 of
             (Inl e, s2) \<Rightarrow> (Inl e, modify_queue name (update_message idx (\<lambda>_. previous)) s2)
           | (Inr _, s2) \<Rightarrow> (case pending of Some e \<Rightarrow> (Inl e, s2) | None \<Rightarrow> (Inr (), s2))))"

definition delete_mutation :: "message_state \<Rightarrow> string \<Rightarrow> message_state" where
  "delete_mutation m now = tombstone m"

definition visibility_mutation :: "int \<Rightarrow> message_state \<Rightarrow> string \<Rightarrow> message_state" where
  "visibility_mutation v m now = m\<lparr>invisible_until := add_seconds now v\<rparr>"

definition delete_message :: "env \<Rightarrow> string \<Rightarrow> string \<Rightarrow> sqs_server \<Rightarrow> unit result \<times> sqs_server" where
  "delete_message E u handle s =
     (let name = queue_name_from_url u in
      if u = [] then (Inl ''QueueUrl is required'', s)
      else if handle = [] then (Inl ''ReceiptHandle is required'', s)
      else if \<not> queue_exists name s then (Inl ''queue does not exist'', s)
      else apply_to_receipted_message E name handle delete_mutation s)"

definition visibility_too_long :: string where
  "visibility_too_long =
     ''VisibilityTimeout must be no greater than '' @ int_to_string MAX_VISIBILITY_TIMEOUT_SECONDS"

definition change_message_visibility ::
    "env \<Rightarrow> string \<Rightarrow> string \<Rightarrow> int \<Rightarrow> sqs_server \<Rightarrow> unit result \<times> sqs_server" where
  "change_message_visibility E u handle v s =
     (let name = queue_name_from_url u in
      if u = [] then (Inl ''QueueUrl is required'', s)
      else if handle = [] then (Inl ''ReceiptHandle is required'', s)
      else if v < 0 then (Inl ''VisibilityTimeout must be non-negative'', s)
      else if v > MAX_VISIBILITY_TIMEOUT_SECONDS then (Inl visibility_too_long, s)
      else if \<not> queue_exists name s then (Inl ''queue does not exist'', s)
      else apply_to_receipted_message E name handle (visibility_mutation v) s)"

section \<open>Batches\<close>

type_synonym staged_batch_entry = "string \<times> nat \<times> message_state \<times> string option"

definition fail_entry :: "string \<Rightarrow> string \<Rightarrow> batch_result \<Rightarrow> batch_result" where
  "fail_entry i e r = r\<lparr>br_failed := br_failed r @ [batch_error i e]\<rparr>"

definition succeed_entry :: "string \<Rightarrow> batch_result \<Rightarrow> batch_result" where
  "succeed_entry i r = r\<lparr>br_successful := br_successful r @ [i]\<rparr>"

definition resolve_entry :: "staged_batch_entry \<Rightarrow> batch_result \<Rightarrow> batch_result" where
  "resolve_entry e r =
     (let (i, _, _, pending) = e in
      case pending of Some err \<Rightarrow> fail_entry i err r | None \<Rightarrow> succeed_entry i r)"

definition undo_entry :: "string \<Rightarrow> staged_batch_entry \<Rightarrow> sqs_server \<Rightarrow> sqs_server" where
  "undo_entry name e s =
     (let (_, idx, previous, _) = e in modify_queue name (update_message idx (\<lambda>_. previous)) s)"

definition apply_staged_batch ::
    "env \<Rightarrow> string \<Rightarrow> staged_batch_entry list \<Rightarrow> batch_result \<Rightarrow> sqs_server \<Rightarrow> batch_result \<times> sqs_server" where
  "apply_staged_batch E name staged r s =
     (if staged = [] then (r, s)
      else case persist (fs E) s of
             (Inl e, s') \<Rightarrow>
               (fold (\<lambda>(i, _, _, _). fail_entry i e) staged r, fold (undo_entry name) (rev staged) s')
           | (Inr _, s') \<Rightarrow> (fold resolve_entry staged r, s'))"

text \<open>One pass over the entries: \<open>check\<close> is the validation of an entry, \<open>handle\<close> its receipt handle and
  \<open>mutate\<close> the change it asks for.\<close>

fun stage_entries ::
    "(nat \<Rightarrow> env) \<Rightarrow> string \<Rightarrow> ('e \<Rightarrow> string) \<Rightarrow> ('e \<Rightarrow> string option) \<Rightarrow> ('e \<Rightarrow> string) \<Rightarrow>
     ('e \<Rightarrow> message_state \<Rightarrow> string \<Rightarrow> message_state) \<Rightarrow> nat \<Rightarrow> 'e list \<Rightarrow>
     batch_result \<times> staged_batch_entry list \<times> sqs_server \<Rightarrow>
     batch_result \<times> staged_batch_entry list \<times> sqs_server" where
  "stage_entries Es name eid check handle mutate j [] acc = acc"
| "stage_entries Es name eid check handle mutate j (e # es) (r, staged, s) =
     stage_entries Es name eid check handle mutate (Suc j) es
       (case check e of
          Some err \<Rightarrow> (fail_entry (eid e) err r, staged, s)
        | None \<Rightarrow>
            if \<not> queue_exists name s then (fail_entry (eid e) ''queue does not exist'' r, staged, s)
            else (case stage_receipted_mutation (Es j) name (handle e) (mutate e) s of
                    (Rejected err, s') \<Rightarrow> (fail_entry (eid e) err r, staged, s')
                  | (Applied idx previous pending, s') \<Rightarrow>
                      (r, staged @ [(eid e, idx, previous, pending)], s')))"

definition check_delete_entry :: "delete_message_batch_entry \<Rightarrow> string option" where
  "check_delete_entry e = (if de_receipt_handle e = [] then Some ''ReceiptHandle is required'' else None)"

definition check_visibility_entry :: "change_message_visibility_batch_entry \<Rightarrow> string option" where
  "check_visibility_entry e =
     (if ce_receipt_handle e = [] then Some ''ReceiptHandle is required''
      else if ce_visibility_timeout e < 0 then Some ''VisibilityTimeout must be non-negative''
      else if ce_visibility_timeout e > MAX_VISIBILITY_TIMEOUT_SECONDS then Some visibility_too_long
      else None)"

definition delete_message_batch ::
    "(nat \<Rightarrow> env) \<Rightarrow> string \<Rightarrow> delete_message_batch_entry list \<Rightarrow> sqs_server \<Rightarrow> batch_result result \<times> sqs_server" where
  "delete_message_batch Es u entries s =
     (if u = [] then (Inl ''QueueUrl is required'', s)
      else case validate_batch_entries (map de_id entries) of
             Inl e \<Rightarrow> (Inl e, s)
           | Inr _ \<Rightarrow>
               let name = queue_name_from_url u;
                   (r, staged, s1) = stage_entries Es name de_id check_delete_entry de_receipt_handle
                     (\<lambda>_. delete_mutation) 0 entries (\<lparr>br_successful = [], br_failed = []\<rparr>, [], s);
                   (r', s2) = apply_staged_batch (Es (length entries)) name staged r s1
               in (Inr r', s2))"

definition change_message_visibility_batch ::
    "(nat \<Rightarrow> env) \<Rightarrow> string \<Rightarrow> change_message_visibility_batch_entry list \<Rightarrow> sqs_server \<Rightarrow>
     batch_result result \<times> sqs_server" where
  "change_message_visibility_batch Es u entries s =
     (if u = [] then (Inl ''QueueUrl is required'', s)
      else case validate_batch_entries (map ce_id entries) of
             Inl e \<Rightarrow> (Inl e, s)
           | Inr _ \<Rightarrow>
               let name = queue_name_from_url u;
                   (r, staged, s1) = stage_entries Es name ce_id check_visibility_entry ce_receipt_handle
                     (\<lambda>e. visibility_mutation (ce_visibility_timeout e)) 0 entries
                     (\<lparr>br_successful = [], br_failed = []\<rparr>, [], s);
                   (r', s2) = apply_staged_batch (Es (length entries)) name staged r s1
               in (Inr r', s2))"

section \<open>Clean-up\<close>

text \<open>The messages of a queue that clean-up keeps.\<close>

definition kept :: "string \<Rightarrow> queue_state \<Rightarrow> message_state list" where
  "kept now q = filter (retained (int_attribute (q_attributes q) ''MessageRetentionPeriod'' 345600) now) (messages q)"

lemma cleanup_fields [simp]:
  "q_attributes (cleanup_expired_messages now q) = q_attributes q"
  "q_name (cleanup_expired_messages now q) = q_name q"
  "arn (cleanup_expired_messages now q) = arn q"
  "url (cleanup_expired_messages now q) = url q"
  "tags (cleanup_expired_messages now q) = tags q"
  "created_at (cleanup_expired_messages now q) = created_at q"
  "modified_at (cleanup_expired_messages now q) = modified_at q"
  "sequence (cleanup_expired_messages now q) = sequence q"
  "dedup (cleanup_expired_messages now q) = filter (\<lambda>e. before now (expires_at (snd e))) (dedup q)"
  "messages (cleanup_expired_messages now q) = kept now q"
  by (simp_all add: cleanup_expired_messages_def cleanup_expired_deduplication_def kept_def Let_def)

lemma cleanup_dedup_again [simp]:
  "cleanup_expired_deduplication now (cleanup_expired_messages now q) = cleanup_expired_messages now q"
  by (simp add: cleanup_expired_messages_def cleanup_expired_deduplication_def Let_def)

lemma is_fifo_cleanup [simp]: "is_fifo_queue (cleanup_expired_messages now q) = is_fifo_queue q"
  by (simp add: is_fifo_queue_def)

lemma modify_queue_fields [simp]:
  "config (modify_queue n f s) = config s" "state_file (modify_queue n f s) = state_file s"
  "move_tasks (modify_queue n f s) = move_tasks s" "id_counter (modify_queue n f s) = id_counter s"
  "queues (modify_queue n f s) = bt_modify n f (queues s)"
  by (simp_all add: modify_queue_def)

lemma fetch_add_fields [simp]:
  "config (fetch_add_id s) = config s" "state_file (fetch_add_id s) = state_file s"
  "move_tasks (fetch_add_id s) = move_tasks s" "queues (fetch_add_id s) = queues s"
  "id_counter (fetch_add_id s) = id_counter s + 1"
  by (simp_all add: fetch_add_id_def)

lemma fetch_add_modify [simp]: "fetch_add_id (modify_queue n f s) = modify_queue n f (fetch_add_id s)"
  by (simp add: fetch_add_id_def modify_queue_def)

lemma get_modified [simp]:
  "map_of (bt_modify n f m) n = map_option f (map_of m n)"
  "k \<noteq> n \<Longrightarrow> map_of (bt_modify n f m) k = map_of m k"
  by (simp_all add: bt_get_modify)

section \<open>Sending\<close>

text \<open>What a queue that accepts a message becomes: cleaned up, with the message at its end.\<close>

definition enqueue :: "string \<Rightarrow> message_state \<Rightarrow> queue_state \<Rightarrow> queue_state" where
  "enqueue now m q = push_message m (cleanup_expired_messages now q)"

definition enqueue_fifo :: "string \<Rightarrow> string \<Rightarrow> message_state \<Rightarrow> queue_state \<Rightarrow> queue_state" where
  "enqueue_fifo now did m q =
     push_message m (record_dedup now did m
       (cleanup_expired_messages now q\<lparr>sequence := sequence q + 1\<rparr>))"

text \<open>The live deduplication record of an id.\<close>

definition dedup_hit :: "string \<Rightarrow> string \<Rightarrow> queue_state \<Rightarrow> message_state option" where
  "dedup_hit now did q =
     Option.bind (map_of (filter (\<lambda>e. before now (expires_at (snd e))) (dedup q)) did)
       (\<lambda>d. if before now (expires_at d) then dedup_message d else None)"

definition effective_delay :: "queue_state \<Rightarrow> send_message_request \<Rightarrow> int" where
  "effective_delay q input =
     (case sr_delay_seconds input of Some d \<Rightarrow> d | None \<Rightarrow> int_attribute (q_attributes q) ''DelaySeconds'' 0)"

definition sent_message :: "crates \<Rightarrow> env \<Rightarrow> send_message_request \<Rightarrow> queue_state \<Rightarrow> sqs_server \<Rightarrow> message_state" where
  "sent_message X E input q s =
     new_message X (new_opaque_id ''msg'' (clock E 1) (id_counter s)) (now_rfc3339 (clock E 0))
       (effective_delay q input) input"

definition sequenced :: "string \<Rightarrow> queue_state \<Rightarrow> message_state \<Rightarrow> message_state" where
  "sequenced did q m = m\<lparr>deduplication_id := did, sequence_number := dec (unat (sequence q + 1))\<rparr>"

lemma validate_send_exists:
  "validate_send X s input = Inr () \<Longrightarrow> queue_exists (queue_name_from_url (sr_queue_url input)) s"
  by (auto simp: validate_send_def Let_def bind_res_Inr_iff split: if_splits)

lemma commit_send_ok:
  "commit_send E n p m s = (Inr m', s') \<Longrightarrow> m' = m \<and> queues s' = bt_modify n (push_message m) (queues s)"
  by (auto simp: commit_send_def persist_keeps split: prod.splits sum.splits)

lemma commit_send_failed:
  assumes "commit_send E n p m (modify_queue n f s) = (Inl e, s')" "bt_ok (queues s)" "map_of (queues s) n = Some p"
    and "\<exists>ms sq ds. f p = p\<lparr>messages := ms, sequence := sq, dedup := ds\<rparr>"
  shows "s' = s"
proof -
  let ?g = "\<lambda>q. q\<lparr>messages := messages p, sequence := sequence p, dedup := dedup p\<rparr>"
  obtain s'' where "persist (fs E) (modify_queue n (push_message m \<circ> f) s) = (Inl e, s'')" "s' = modify_queue n ?g s''"
    using assms(1) by (auto simp: commit_send_def split: prod.splits sum.splits)
  moreover have "?g ((push_message m \<circ> f) p) = p" using assms(4) by (auto simp: push_message_def)
  ultimately show ?thesis
    using assms(2,3) rollback_modify[of "fs E" n "push_message m \<circ> f" s e s'' p ?g] by simp
qed

lemma cleanup_dedup_comp [simp]:
  "cleanup_expired_deduplication now \<circ> cleanup_expired_messages now = cleanup_expired_messages now"
  by (simp add: fun_eq_iff)

lemma send_message_accepted:
  assumes "validate_send X s input = Inr ()" "map_of (queues s) (queue_name_from_url (sr_queue_url input)) = Some q"
  shows "send_message X E input s =
    (let n = queue_name_from_url (sr_queue_url input); now = now_rfc3339 (clock E 0);
         d = effective_delay q input; m = sent_message X E input q s;
         cleaned = modify_queue n (cleanup_expired_messages now) s in
     if is_fifo_queue q \<and> sr_delay_seconds input \<noteq> None then
       (Inl ''DelaySeconds is not supported for FIFO queue messages'', s)
     else if d < 0 then (Inl ''DelaySeconds must be non-negative'', cleaned)
     else if d > MAX_DELAY_SECONDS then
       (Inl (''DelaySeconds must be no greater than '' @ int_to_string MAX_DELAY_SECONDS), cleaned)
     else if \<not> is_fifo_queue q then commit_send E n q m (fetch_add_id cleaned)
     else (case fifo_deduplication_id X q input of
         Inl e \<Rightarrow> (Inl e, fetch_add_id cleaned)
       | Inr did \<Rightarrow>
           (case dedup_hit now did q of
              Some original \<Rightarrow> (Inr original, fetch_add_id cleaned)
            | None \<Rightarrow> commit_send E n q (sequenced did q m)
                 (modify_queue n ((\<lambda>q'. record_dedup now did (sequenced did q m) (q'\<lparr>sequence := sequence q + 1\<rparr>))
                    \<circ> cleanup_expired_messages now) (fetch_add_id s)))))"
  using assms
  by (simp add: send_message_def Let_def effective_delay_def sent_message_def sequenced_def dedup_hit_def
      split: option.split sum.split)

lemma send_message_outcomes:
  assumes "send_message X E input s = (r, s')" "bt_ok (queues s)"
  defines "n \<equiv> queue_name_from_url (sr_queue_url input)" and "now \<equiv> now_rfc3339 (clock E 0)"
  obtains (refused) e where "r = Inl e" "s' = s"
    | (cleaned) e where "r = Inl e" "state_file s' = state_file s"
        "queues s' = bt_modify n (cleanup_expired_messages now) (queues s)"
    | (unsaved) e where "r = Inl e" "state_file s' = state_file s" "queues s' = queues s"
    | (standard) q where "map_of (queues s) n = Some q" "\<not> is_fifo_queue q" "0 \<le> effective_delay q input"
        "effective_delay q input \<le> MAX_DELAY_SECONDS" "r = Inr (sent_message X E input q s)"
        "queues s' = bt_modify n (enqueue now (sent_message X E input q s)) (queues s)"
    | (duplicate) q did m where "map_of (queues s) n = Some q" "is_fifo_queue q"
        "fifo_deduplication_id X q input = Inr did" "dedup_hit now did q = Some m" "r = Inr m"
        "queues s' = bt_modify n (cleanup_expired_messages now) (queues s)"
    | (fifo) q did where "map_of (queues s) n = Some q" "is_fifo_queue q" "0 \<le> effective_delay q input"
        "effective_delay q input \<le> MAX_DELAY_SECONDS"
        "fifo_deduplication_id X q input = Inr did" "dedup_hit now did q = None"
        "r = Inr (sequenced did q (sent_message X E input q s))"
        "queues s' = bt_modify n (enqueue_fifo now did (sequenced did q (sent_message X E input q s))) (queues s)"
proof (cases "validate_send X s input")
  case (Inl e)
  then have "r = Inl e" "s' = s" using assms(1) by (simp_all add: send_message_def)
  then show ?thesis by (rule refused)
next
  case (Inr u)
  then have v: "validate_send X s input = Inr ()" by simp
  obtain q where q: "map_of (queues s) n = Some q"
    using validate_send_exists[OF v] by (auto simp: n_def elim: queue_existsE)
  note S = send_message_accepted[OF v q[unfolded n_def], of E, folded n_def now_def] 
  have push: "bt_modify n (push_message m) (bt_modify n (cleanup_expired_messages now) (queues s)) =
      bt_modify n (enqueue now m) (queues s)" for m
    using q assms(2) by (simp add: bt_modify_insert bt.ins_twice bt.ok_ins bt_get_insert enqueue_def)
  have push_fifo: "bt_modify n (push_message m) (bt_modify n ((\<lambda>q'. record_dedup now did m (q'\<lparr>sequence := sequence q + 1\<rparr>))
        \<circ> cleanup_expired_messages now) (queues s)) = bt_modify n (enqueue_fifo now did m) (queues s)" for m did
    using q assms(2) by (simp add: bt_modify_insert bt.ins_twice bt.ok_ins bt_get_insert enqueue_fifo_def)
  have failed: "\<exists>ms sq ds. cleanup_expired_messages now q = q\<lparr>messages := ms, sequence := sq, dedup := ds\<rparr>"
    "\<exists>ms sq ds. ((\<lambda>q'. record_dedup now did m (q'\<lparr>sequence := sequence q + 1\<rparr>))
        \<circ> cleanup_expired_messages now) q = q\<lparr>messages := ms, sequence := sq, dedup := ds\<rparr>" for did m
    by (cases q; force simp: cleanup_expired_messages_def cleanup_expired_deduplication_def record_dedup_def Let_def)+
  note F = commit_send_failed[of E n q _ _ "fetch_add_id s", simplified, OF _ assms(2) q]
  have lost: thesis if "commit_send E n q m (modify_queue n f (fetch_add_id s)) = (Inl e, s')" "r = Inl e"
    "\<exists>ms sq ds. f q = q\<lparr>messages := ms, sequence := sq, dedup := ds\<rparr>" for m f e
    using F[OF that(1,3)] that(2) by (intro unsaved) simp_all
  show ?thesis
  proof (cases r)
    case (Inl e)
    then show ?thesis
      using assms(1) unfolding S
      by (auto simp: Let_def intro: refused cleaned elim!: lost[OF _ Inl] intro!: failed
          split: if_splits sum.splits option.splits)
  next
    case (Inr m)
    then show ?thesis
      using assms(1) unfolding S
      by (auto simp: Let_def push push_fifo dest!: commit_send_ok
          intro: standard[OF q] duplicate[OF q] fifo[OF q] split: if_splits sum.splits option.splits)
  qed
qed

lemma dedup_wf_filter: "dedup_wf ds \<Longrightarrow> dedup_wf (filter P ds)"
  by (auto simp: dedup_wf_def list_all_iff)

lemma dedup_wf_insert:
  "dedup_wf ds \<Longrightarrow> dedup_message d = Some m \<Longrightarrow> deduplication_id m = k \<Longrightarrow> dedup_wf (bt_insert k d ds)"
  by (auto simp: dedup_wf_def list_all_iff set_bt_insert)

lemma queue_wf_cleanup: "queue_wf c n q \<Longrightarrow> queue_wf c n (cleanup_expired_messages now q)"
  by (simp add: queue_wf_def dedup_wf_filter)

lemma queue_wf_enqueue: "queue_wf c n q \<Longrightarrow> queue_wf c n (enqueue now m q)"
  by (simp add: queue_wf_def enqueue_def push_message_def dedup_wf_filter)

lemma queue_wf_enqueue_fifo:
  "queue_wf c n q \<Longrightarrow> deduplication_id m = did \<Longrightarrow> queue_wf c n (enqueue_fifo now did m q)"
  by (simp add: queue_wf_def enqueue_fifo_def push_message_def record_dedup_def dedup_wf_filter dedup_wf_insert)

lemma commit_send_fields:
  "commit_send E n p m s = (r, s') \<Longrightarrow> config s' = config s \<and> move_tasks s' = move_tasks s"
  by (auto simp: commit_send_def persist_keeps split: prod.splits sum.splits)

lemma send_message_fields:
  "send_message X E input s = (r, s') \<Longrightarrow> config s' = config s \<and> move_tasks s' = move_tasks s"
  by (auto simp: send_message_def Let_def dest!: commit_send_fields split: op_splits)

lemma server_wf_queues:
  "server_wf s \<Longrightarrow> config s' = config s \<Longrightarrow> move_tasks s' = move_tasks s \<Longrightarrow> queues s' = bt_modify n f (queues s) \<Longrightarrow>
   (\<And>q. map_of (queues s) n = Some q \<Longrightarrow> queue_wf (config s) n q \<Longrightarrow> queue_wf (config s) n (f q)) \<Longrightarrow> server_wf s'"
  using server_wf_modify[of s n f] server_wf_cong[of s' "modify_queue n f s"] by simp

lemma send_message_wf:
  assumes "send_message X E input s = (r, s')" "server_wf s"
  shows "server_wf s'"
proof -
  note F = conjunct1[OF send_message_fields[OF assms(1)]] conjunct2[OF send_message_fields[OF assms(1)]]
  note W = server_wf_queues[OF assms(2) F]
  show ?thesis
    using assms(1) server_wf_ok[OF assms(2)]
  proof (cases rule: send_message_outcomes)
    case (unsaved e)
    then show ?thesis using F assms(2) server_wf_cong by blast
  next
    case (fifo q did)
    then show ?thesis
      by (intro W[of _ "enqueue_fifo (now_rfc3339 (clock E 0)) did _"]) (auto intro: queue_wf_enqueue_fifo simp: sequenced_def)
  qed (use assms(2) W queue_wf_cleanup queue_wf_enqueue in blast)+
qed

text \<open>A send that answers with an error leaves the disk as it was and adds no message anywhere: the queues
  are as before, except that the addressed queue may have dropped its expired messages and
  deduplication records.\<close>

theorem failed_send_adds_nothing:
  assumes "send_message X E input s = (Inl e, s')" "server_wf s"
  shows "state_file s' = state_file s \<and>
    (queues s' = queues s \<or>
     queues s' = bt_modify (queue_name_from_url (sr_queue_url input))
       (cleanup_expired_messages (now_rfc3339 (clock E 0))) (queues s))"
  using assms(1) server_wf_ok[OF assms(2)]
  by (cases rule: send_message_outcomes) auto

text \<open>An accepted message goes to the end of the addressed standard queue and nowhere else, with the body,
  attributes and group of the request, no receive so far, and available after exactly the delay
  in force, which is between 0 and 900 seconds.\<close>

theorem send_appends_message:
  assumes "send_message X E input s = (Inr m, s')" "server_wf s" "clock_ok (clock E 0)"
    and "map_of (queues s) (queue_name_from_url (sr_queue_url input)) = Some q" "\<not> is_fifo_queue q"
  shows "\<exists>q'. queues s' = bt_insert (queue_name_from_url (sr_queue_url input)) q' (queues s) \<and>
           messages q' = kept (now_rfc3339 (clock E 0)) q @ [m] \<and>
           m_body m = sr_message_body input \<and> m_attributes m = sr_message_attributes input \<and>
           message_group_id m = sr_message_group_id input \<and> receive_count m = 0 \<and> \<not> deleted m \<and>
           unix_nanos_from_rfc3339 (available_at m) = int (clock E 0) + effective_delay q input * 10 ^ 9 \<and>
           0 \<le> effective_delay q input \<and> effective_delay q input \<le> 900"
  using assms(1) server_wf_ok[OF assms(2)]
proof (cases rule: send_message_outcomes)
  case (standard q0)
  then have q: "q0 = q" using assms(4) by simp
  have d: "0 \<le> effective_delay q input" "effective_delay q input \<le> 900"
    using standard(3,4) by (simp_all add: q MAX_DELAY_SECONDS_def)
  then have "unix_nanos_from_rfc3339 (add_seconds (now_rfc3339 (clock E 0)) (effective_delay q input)) =
      int (clock E 0) + effective_delay q input * 10 ^ 9"
    using assms(3) by (intro add_seconds_nanos) simp_all
  with standard d assms(2,4) show ?thesis
    by (intro exI[of _ "enqueue (now_rfc3339 (clock E 0)) m q"])
      (auto simp: q bt_modify_insert enqueue_def push_message_def kept_def sent_message_def new_message_def)
qed (use assms(4,5) in auto)

definition sample_send :: "string \<Rightarrow> string \<Rightarrow> send_message_request" where
  "sample_send u b = \<lparr>sr_queue_url = u, sr_message_body = b, sr_delay_seconds = None, sr_message_attributes = [],
     sr_message_system_attributes = [], sr_message_group_id = [], sr_message_deduplication_id = []\<rparr>"

theorem failed_send_adds_nothing_witness:
  "queues (snd (send_message no_crates (env_at t0\<lparr>fs := disk_full\<rparr>) (sample_send orders_url ''hello'') orders_server)) =
     queues orders_server \<and> fst (send_message no_crates (env_at t0\<lparr>fs := disk_full\<rparr>) (sample_send orders_url ''hello'') orders_server)
     = Inl ''no space left on device''"
proof -
  let ?r = "send_message no_crates (env_at t0\<lparr>fs := disk_full\<rparr>) (sample_send orders_url ''hello'') orders_server"
  have e: "fst ?r = Inl ''no space left on device''" by code_simp
  have c: "bt_modify (queue_name_from_url (sr_queue_url (sample_send orders_url ''hello'')))
       (cleanup_expired_messages (now_rfc3339 (clock (env_at t0\<lparr>fs := disk_full\<rparr>) 0))) (queues orders_server)
     = queues orders_server" by code_simp
  have "?r = (Inl ''no space left on device'', snd ?r)" using e by (simp add: prod_eq_iff)
  from failed_send_adds_nothing[OF this orders_server_wf, unfolded c] e show ?thesis by blast
qed

theorem send_appends_message_witness:
  "\<exists>m q'. fst (send_message no_crates (env_at t0) (sample_send orders_url ''hello'') orders_server) = Inr m \<and>
     messages q' = [m] \<and> m_body m = ''hello'' \<and>
     queues (snd (send_message no_crates (env_at t0) (sample_send orders_url ''hello'') orders_server)) =
       bt_insert ''orders'' q' (queues orders_server)"
proof -
  let ?r = "send_message no_crates (env_at t0) (sample_send orders_url ''hello'') orders_server"
  let ?q = "the (map_of (queues orders_server) ''orders'')"
  have "\<not> isl (fst ?r)" by code_simp
  then obtain m where f: "fst ?r = Inr m" by (metis sum.collapse(2))
  then have m: "?r = (Inr m, snd ?r)" by (simp add: prod_eq_iff)
  have b: "sr_message_body (sample_send orders_url ''hello'') = ''hello''" by (simp add: sample_send_def)
  have n: "queue_name_from_url (sr_queue_url (sample_send orders_url ''hello'')) = ''orders''" by code_simp
  have q: "map_of (queues orders_server) ''orders'' = Some ?q" "\<not> is_fifo_queue ?q" "messages ?q = []" by code_simp+
  have "clock_ok (clock (env_at t0) 0)" by (simp add: env_at_clock clock_ok_def t0_def)
  from send_appends_message[OF m orders_server_wf this, unfolded n b, OF q(1,2)]
  obtain q' where "queues (snd ?r) = bt_insert ''orders'' q' (queues orders_server)"
    "messages q' = kept (now_rfc3339 (clock (env_at t0) 0)) ?q @ [m]" "m_body m = ''hello''" by blast
  moreover have "kept (now_rfc3339 (clock (env_at t0) 0)) ?q = []" by (simp add: kept_def q(3))
  ultimately show ?thesis using f by auto
qed

section \<open>FIFO deduplication and sequence numbers\<close>

lemma dedup_record_live:
  assumes "dedup_wf (dedup q)"
  shows "dedup_hit now' did (enqueue_fifo now did m q) =
    (if before now' (add_seconds now FIFO_DEDUPLICATION_WINDOW_SECONDS) then Some m else None)"
proof -
  let ?d = "\<lparr>expires_at = add_seconds now FIFO_DEDUPLICATION_WINDOW_SECONDS, dedup_message = Some m\<rparr>"
  let ?ds = "bt_insert did ?d (filter (\<lambda>e. before now (expires_at (snd e))) (dedup q))"
  have ok: "bt_ok ?ds" using assms by (simp add: dedup_wf_def)
  have "map_of (filter (\<lambda>e. before now' (expires_at (snd e))) ?ds) did =
      (if before now' (expires_at ?d) then Some ?d else None)"
  proof (cases "before now' (expires_at ?d)")
    case True
    then have "(did, ?d) \<in> set (filter (\<lambda>e. before now' (expires_at (snd e))) ?ds)"
      using ok assms by (simp add: set_bt_insert dedup_wf_def)
    with True ok show ?thesis by (simp add: bt_in_set_iff[symmetric] del: map_of_eq_Some_iff)
  next
    case False
    then have "did \<notin> fst ` set (filter (\<lambda>e. before now' (expires_at (snd e))) ?ds)"
      using assms by (auto simp: set_bt_insert dedup_wf_def)
    with False show ?thesis by (simp add: map_of_eq_None_iff)
  qed
  then show ?thesis by (simp add: dedup_hit_def enqueue_fifo_def push_message_def record_dedup_def)
qed

lemma enqueue_fifo_fields [simp]:
  "q_attributes (enqueue_fifo now did m q) = q_attributes q"
  "is_fifo_queue (enqueue_fifo now did m q) = is_fifo_queue q"
  "sequence (enqueue_fifo now did m q) = sequence q + 1"
  "messages (enqueue_fifo now did m q) = kept now q @ [m]"
  by (simp_all add: enqueue_fifo_def push_message_def record_dedup_def is_fifo_queue_def kept_def)

lemma fifo_deduplication_id_cong:
  "q_attributes q' = q_attributes q \<Longrightarrow> fifo_deduplication_id X q' input = fifo_deduplication_id X q input"
  by (simp add: fifo_deduplication_id_def)

lemma effective_delay_cong:
  "q_attributes q' = q_attributes q \<Longrightarrow> effective_delay q' input = effective_delay q input"
  by (simp add: effective_delay_def split: option.split)

text \<open>A new message of a FIFO queue: the state it leaves behind.\<close>

lemma fifo_send_fresh:
  assumes "send_message X E input s = (Inr m, s')" "server_wf s"
    and "map_of (queues s) (queue_name_from_url (sr_queue_url input)) = Some q" "is_fifo_queue q"
    and "fifo_deduplication_id X q input = Inr did" "dedup_hit (now_rfc3339 (clock E 0)) did q = None"
  shows "map_of (queues s') (queue_name_from_url (sr_queue_url input)) =
      Some (enqueue_fifo (now_rfc3339 (clock E 0)) did m q)"
    and "m = sequenced did q (sent_message X E input q s)"
    and "0 \<le> effective_delay q input" "effective_delay q input \<le> MAX_DELAY_SECONDS"
  using assms(1) server_wf_ok[OF assms(2)]
  by (cases rule: send_message_outcomes; use assms(3-6) in auto)+

text \<open>C15. FIFO deduplication: a second send with the same deduplication id less than five minutes after the
  first is answered with the first message and adds nothing to the queue.\<close>

theorem fifo_duplicate_suppressed:
  assumes "send_message X E input s = (Inr m, s1)" "server_wf s"
    and "map_of (queues s) (queue_name_from_url (sr_queue_url input)) = Some q" "is_fifo_queue q"
    and "fifo_deduplication_id X q input = Inr did" "dedup_hit (now_rfc3339 (clock E 0)) did q = None"
    and "validate_send X s1 input' = Inr ()" "sr_queue_url input' = sr_queue_url input"
    and "sr_delay_seconds input' = None" "sr_delay_seconds input = None"
    and "fifo_deduplication_id X q input' = Inr did"
    and "clock_ok (clock E 0)" "clock_ok (clock E' 0)" "clock E' 0 < clock E 0 + 300 * 10 ^ 9"
  shows "fst (send_message X E' input' s1) = Inr m \<and>
    queues (snd (send_message X E' input' s1)) =
      bt_modify (queue_name_from_url (sr_queue_url input)) (cleanup_expired_messages (now_rfc3339 (clock E' 0))) (queues s1)"
proof -
  let ?n = "queue_name_from_url (sr_queue_url input)"
  let ?q1 = "enqueue_fifo (now_rfc3339 (clock E 0)) did m q"
  note A = fifo_send_fresh[OF assms(1-6)]
  have "before (now_rfc3339 (clock E' 0)) (add_seconds (now_rfc3339 (clock E 0)) FIFO_DEDUPLICATION_WINDOW_SECONDS)"
    using assms(12-14)
    by (subst rfc.earlier_plus) (simp_all add: FIFO_DEDUPLICATION_WINDOW_SECONDS_def)
  then have hit: "dedup_hit (now_rfc3339 (clock E' 0)) did ?q1 = Some m"
    using server_wf_queue[OF assms(2,3)] by (simp add: dedup_record_live queue_wf_def)
  have d: "effective_delay ?q1 input' = effective_delay q input"
    using assms(9,10) by (simp add: effective_delay_def)
  have id: "fifo_deduplication_id X ?q1 input' = Inr did"
    using assms(11) fifo_deduplication_id_cong[of ?q1 q] by simp
  show ?thesis
    using A(1,3,4) assms(4,9) send_message_accepted[OF assms(7), of ?q1 E']
    by (simp add: assms(8) Let_def d id hit)
qed

text \<open>Five minutes after the first send the same deduplication id is accepted again: a new message with the
  next sequence number joins the queue.\<close>

theorem fifo_duplicate_accepted_after_window:
  assumes "send_message X E input s = (Inr m, s1)" "server_wf s"
    and "map_of (queues s) (queue_name_from_url (sr_queue_url input)) = Some q" "is_fifo_queue q"
    and "fifo_deduplication_id X q input = Inr did" "dedup_hit (now_rfc3339 (clock E 0)) did q = None"
    and "send_message X E' input' s1 = (Inr m', s2)" "sr_queue_url input' = sr_queue_url input"
    and "fifo_deduplication_id X q input' = Inr did"
    and "clock_ok (clock E 0)" "clock_ok (clock E' 0)" "clock E 0 + 300 * 10 ^ 9 \<le> clock E' 0"
  shows "\<exists>q1 q2. map_of (queues s1) (queue_name_from_url (sr_queue_url input)) = Some q1 \<and>
    map_of (queues s2) (queue_name_from_url (sr_queue_url input)) = Some q2 \<and>
    messages q2 = kept (now_rfc3339 (clock E' 0)) q1 @ [m'] \<and>
    sequence_number m = dec (unat (sequence q + 1)) \<and> sequence_number m' = dec (unat (sequence q + 2))"
proof -
  let ?q1 = "enqueue_fifo (now_rfc3339 (clock E 0)) did m q"
  note A = fifo_send_fresh[OF assms(1-6)]
  have wf: "server_wf s1" using send_message_wf[OF assms(1,2)] .
  have "int (clock E 0 + 300 * 10 ^ 9) \<le> int (clock E' 0)" using assms(12) by (simp only: of_nat_le_iff)
  then have "\<not> before (now_rfc3339 (clock E' 0)) (add_seconds (now_rfc3339 (clock E 0)) FIFO_DEDUPLICATION_WINDOW_SECONDS)"
    using assms(10,11)
    by (intro rfc.deadline_passed) (simp_all add: FIFO_DEDUPLICATION_WINDOW_SECONDS_def)
  then have miss: "dedup_hit (now_rfc3339 (clock E' 0)) did ?q1 = None"
    using server_wf_queue[OF assms(2,3)] by (simp add: dedup_record_live queue_wf_def)
  have id: "fifo_deduplication_id X ?q1 input' = Inr did"
    using assms(9) fifo_deduplication_id_cong[of ?q1 q] by simp
  note B = fifo_send_fresh[OF assms(7) wf A(1)[folded assms(8)] _ id miss]
  show ?thesis using A(1,2) B(1,2) assms(4,8) by (simp add: sequenced_def add.assoc)
qed

definition jobs_url :: string where
  "jobs_url = ''http://127.0.0.1:9324/000000000000/jobs.fifo''"

definition jobs_server :: sqs_server where
  "jobs_server = snd (create_queue no_crates (env_at t0) ''jobs.fifo'' [(''FifoQueue'', ''true'')] [] (empty_server sample_config))"

definition fifo_send :: "string \<Rightarrow> string \<Rightarrow> string \<Rightarrow> send_message_request" where
  "fifo_send g did b = (sample_send jobs_url b)\<lparr>sr_message_group_id := g, sr_message_deduplication_id := did\<rparr>"

lemma jobs_server_wf: "server_wf jobs_server"
  unfolding jobs_server_def
  by (rule create_queue_wf[OF surjective_pairing server_wf_empty]) (simp_all add: env_at_clock t0_def clock_ok_def)

lemma jobs_server_facts:
  "map_of (queues jobs_server) (queue_name_from_url jobs_url) = Some (the (map_of (queues jobs_server) ''jobs.fifo''))"
  "is_fifo_queue (the (map_of (queues jobs_server) ''jobs.fifo''))"
  "dedup_hit (now_rfc3339 t0) ''d1'' (the (map_of (queues jobs_server) ''jobs.fifo'')) = None"
  by code_simp+

lemma fifo_send_id: "fifo_deduplication_id X q (fifo_send ''g'' ''d1'' b) = Inr ''d1''"
  by (simp add: fifo_deduplication_id_def fifo_send_def)

lemma fifo_send_fields:
  "sr_queue_url (fifo_send g d b) = jobs_url" "sr_delay_seconds (fifo_send g d b) = None"
  by (simp_all add: fifo_send_def sample_send_def)

definition jobs_sent :: "message_state result \<times> sqs_server" where
  "jobs_sent = send_message no_crates (env_at t0) (fifo_send ''g'' ''d1'' ''one'') jobs_server"

lemma jobs_sent_ok: "\<not> isl (fst jobs_sent)"
  by code_simp

theorem fifo_duplicate_suppressed_witness:
  "fst (send_message no_crates (env_at (t0 + 299 * 10 ^ 9)) (fifo_send ''g'' ''d1'' ''two'') (snd jobs_sent)) = fst jobs_sent"
proof -
  from jobs_sent_ok obtain m where m: "fst jobs_sent = Inr m" by (metis sum.collapse(2))
  then have s: "send_message no_crates (env_at t0) (fifo_send ''g'' ''d1'' ''one'') jobs_server = (Inr m, snd jobs_sent)"
    by (simp add: jobs_sent_def prod_eq_iff)
  have "validate_send no_crates (snd jobs_sent) (fifo_send ''g'' ''d1'' ''two'') = Inr ()" by code_simp
  with fifo_duplicate_suppressed[OF s jobs_server_wf, unfolded fifo_send_fields env_at_clock,
      OF jobs_server_facts(1,2) fifo_send_id jobs_server_facts(3), of "fifo_send ''g'' ''d1'' ''two''"
        "env_at (t0 + 299 * 10 ^ 9)"] m
  show ?thesis by (simp add: fifo_send_fields fifo_send_id env_at_clock clock_ok_def t0_def)
qed

theorem fifo_duplicate_accepted_after_window_witness:
  "\<exists>m' q2. fst (send_message no_crates (env_at (t0 + 300 * 10 ^ 9)) (fifo_send ''g'' ''d1'' ''two'') (snd jobs_sent)) = Inr m' \<and>
     map_of (queues (snd (send_message no_crates (env_at (t0 + 300 * 10 ^ 9)) (fifo_send ''g'' ''d1'' ''two'') (snd jobs_sent))))
       ''jobs.fifo'' = Some q2 \<and> m' \<in> set (messages q2)"
proof -
  let ?r = "send_message no_crates (env_at (t0 + 300 * 10 ^ 9)) (fifo_send ''g'' ''d1'' ''two'') (snd jobs_sent)"
  from jobs_sent_ok obtain m where m: "fst jobs_sent = Inr m" by (metis sum.collapse(2))
  then have s: "send_message no_crates (env_at t0) (fifo_send ''g'' ''d1'' ''one'') jobs_server = (Inr m, snd jobs_sent)"
    by (simp add: jobs_sent_def prod_eq_iff)
  have "\<not> isl (fst ?r)" by code_simp
  then obtain m' where f: "fst ?r = Inr m'" by (metis sum.collapse(2))
  then have r: "?r = (Inr m', snd ?r)" by (simp add: prod_eq_iff)
  have n: "queue_name_from_url jobs_url = ''jobs.fifo''" by code_simp
  note T = fifo_duplicate_accepted_after_window[OF s jobs_server_wf, unfolded fifo_send_fields env_at_clock,
      OF jobs_server_facts(1,2) fifo_send_id jobs_server_facts(3) r, unfolded n fifo_send_fields env_at_clock]
  have "clock_ok t0" "clock_ok (t0 + 300 * 10 ^ 9)" by (simp_all add: clock_ok_def t0_def)
  with T[OF refl fifo_send_id] f show ?thesis by fastforce
qed

end
