(* ===== verification/Sqs_Delivery.thy ===== *)
theory Sqs_Delivery
  imports Sqs_Messages "HOL-Library.Multiset"
begin

text \<open>
  What \<open>receive_available_messages\<close> promises. The specification is \<open>sweep\<close>, a function on the list of
  messages of the queue that says for each message, in order, whether it is left, delivered or moved to
  the dead-letter queue; the index loop of the code, which rewrites the server's queues while it scans,
  is shown to implement it. The properties (order, no double delivery, FIFO groups, conservation,
  receive limits) are then facts about lists.
\<close>

section \<open>One sweep over a queue\<close>

definition hidden :: "string \<Rightarrow> message_state \<Rightarrow> bool" where
  "hidden now m \<longleftrightarrow> before now (available_at m) \<or> before now (invisible_until m)"

definition overdue :: "int option \<Rightarrow> message_state \<Rightarrow> bool" where
  "overdue limit m = (case limit of None \<Rightarrow> False | Some k \<Rightarrow> k \<le> receive_count m)"

definition grouped :: "scan_args \<Rightarrow> message_state \<Rightarrow> bool" where
  "grouped a m \<longleftrightarrow> sa_fifo a \<and> message_group_id m \<noteq> []"

definition close_group :: "scan_args \<Rightarrow> message_state \<Rightarrow> string set \<Rightarrow> string set" where
  "close_group a m G = (if grouped a m then insert (message_group_id m) G else G)"

definition passed_over :: "scan_args \<Rightarrow> string set \<Rightarrow> message_state \<Rightarrow> bool" where
  "passed_over a G m \<longleftrightarrow> deleted m \<or> (grouped a m \<and> message_group_id m \<in> G)"

text \<open>
  The specification of a receive: from the messages of the queue in order, the messages it leaves,
  the ones it delivers, and the ones it moves to the dead-letter queue. \<open>G\<close> are the groups closed
  so far, \<open>n\<close> the deliveries so far, \<open>limit\<close> the receive count that sends a message to the
  dead-letter queue, if there is one.
\<close>

fun sweep ::
    "scan_args \<Rightarrow> int option \<Rightarrow> (nat \<Rightarrow> string) \<Rightarrow> string \<Rightarrow> string set \<Rightarrow> nat \<Rightarrow> message_state list \<Rightarrow>
     message_state list \<times> message_state list \<times> message_state list" where
  "sweep a limit h src G n [] = ([], [], [])"
| "sweep a limit h src G n (m # ms) =
     (if int n \<ge> sa_max a then (m # ms, [], [])
      else if passed_over a G m then
        (case sweep a limit h src G n ms of (qs, ds, xs) \<Rightarrow> (m # qs, ds, xs))
      else if hidden (sa_now a) m then
        (case sweep a limit h src (close_group a m G) n ms of (qs, ds, xs) \<Rightarrow> (m # qs, ds, xs))
      else if overdue limit m then
        (case sweep a limit h src (close_group a m G) n ms of
           (qs, ds, xs) \<Rightarrow> (tombstone m # qs, ds, dead_letter (sa_now a) src m # xs))
      else
        (case sweep a limit h src (close_group a m G) (Suc n) ms of
           (qs, ds, xs) \<Rightarrow>
             (let m' = deliver (h n) (sa_now a) (sa_visibility a) m in (m' # qs, m' # ds, xs))))"

section \<open>The scan loop implements the sweep\<close>

definition dlq_target :: "crates \<Rightarrow> string \<Rightarrow> sqs_server \<Rightarrow> (string \<times> int) option" where
  "dlq_target X name s =
     (case redrive_policy_from_queue X (the (map_of (queues s) name)) of
        None \<Rightarrow> None
      | Some p \<Rightarrow> map_option (\<lambda>(n, _). (n, max_receive_count p)) (queue_by_arn (queues s) (dead_letter_target_arn p)))"

definition set_segment :: "nat \<Rightarrow> message_state list \<Rightarrow> queue_state \<Rightarrow> queue_state" where
  "set_segment i ms q = q\<lparr>messages := take i (messages q) @ ms @ drop (i + length ms) (messages q)\<rparr>"

definition append_messages :: "message_state list \<Rightarrow> queue_state \<Rightarrow> queue_state" where
  "append_messages xs q = q\<lparr>messages := messages q @ xs\<rparr>"

definition advance_ids :: "nat \<Rightarrow> sqs_server \<Rightarrow> sqs_server" where
  "advance_ids n s = s\<lparr>id_counter := id_counter s + of_nat n\<rparr>"

definition send_to_dlq :: "(string \<times> int) option \<Rightarrow> message_state list \<Rightarrow> sqs_server \<Rightarrow> sqs_server" where
  "send_to_dlq tgt xs s = (case tgt of None \<Rightarrow> s | Some (d, _) \<Rightarrow> modify_queue d (append_messages xs) s)"

lemma modify_queue_cong:
  "bt_ok (queues s) \<Longrightarrow> (\<And>q. map_of (queues s) n = Some q \<Longrightarrow> f q = g q) \<Longrightarrow> modify_queue n f s = modify_queue n g s"
  by (cases "map_of (queues s) n") (simp_all add: modify_queue_def bt_modify_insert bt_modify_absent)

lemma modify_queue_commute:
  "n \<noteq> n' \<Longrightarrow> modify_queue n f (modify_queue n' g s) = modify_queue n' g (modify_queue n f s)"
  by (auto simp: modify_queue_def bt_modify_def)

lemma advance_modify: "advance_ids k (modify_queue n f s) = modify_queue n f (advance_ids k s)"
  by (simp add: advance_ids_def modify_queue_def)

lemma advance_fetch: "advance_ids k (fetch_add_id s) = advance_ids (Suc k) s"
  by (simp add: advance_ids_def fetch_add_id_def add.assoc)

lemma advance_queues [simp]: "queues (advance_ids k s) = queues s"
  by (simp add: advance_ids_def)

lemma set_segment_keep:
  assumes "i < length (messages q)" "i + Suc (length ms) \<le> length (messages q)"
  shows "set_segment i (messages q ! i # ms) q = set_segment (Suc i) ms q"
  using assms by (simp add: set_segment_def take_Suc_conv_app_nth)

lemma set_segment_update:
  assumes "i + Suc (length ms) \<le> length (messages q)"
  shows "set_segment (Suc i) ms (update_message i f q) = set_segment i (f (messages q ! i) # ms) q"
  using assms by (simp add: set_segment_def update_message_def take_Suc_conv_app_nth)

lemma find_modified:
  assumes "\<And>q. arn (f q) = arn q"
  shows "queue_by_arn (bt_modify n f qs) a =
    map_option (\<lambda>(k, q). (k, if k = n then f q else q)) (queue_by_arn qs a)"
  unfolding queue_by_arn_def bt_modify_def by (induction qs) (auto simp: assms)

lemma dlq_target_modify:
  assumes "\<And>q. arn (f q) = arn q" "\<And>q. q_attributes (f q) = q_attributes q" "map_of (queues s) name = Some q0"
  shows "dlq_target X name (modify_queue n f s) = dlq_target X name s"
proof -
  have r: "redrive_policy_from_queue X (f q) = redrive_policy_from_queue X q" for q
    by (simp add: redrive_policy_from_queue_def assms(2))
  show ?thesis
    using assms(3) find_modified[of f n "queues s", OF assms(1)]
    by (cases "n = name") (auto simp: dlq_target_def r option.map_comp comp_def split_def split: option.splits)
qed

lemma move_to_dlq_eq:
  assumes "map_of (queues s) name = Some q"
  shows "move_to_dlq_if_needed X name i now s =
    (let m = messages q ! i in
     if overdue (map_option snd (dlq_target X name s)) m
     then (True, modify_queue name (update_message i tombstone)
            (send_to_dlq (dlq_target X name s) [dead_letter now (arn q) m] s))
     else (False, s))"
  using assms
  by (auto simp: move_to_dlq_if_needed_def dlq_target_def overdue_def send_to_dlq_def push_message_def
      append_messages_def Let_def fun_eq_iff intro!: arg_cong2[of _ _ _ _ "modify_queue name"] arg_cong2[of _ _ _ _ "\<lambda>f. modify_queue _ f"]
      split: option.splits)

definition next_handle :: "env \<Rightarrow> 64 word \<Rightarrow> nat \<Rightarrow> string" where
  "next_handle E c n = new_opaque_id ''rct'' (clock E (Suc n)) (c + of_nat n)"

lemma scan_step_eq:
  assumes "map_of (queues (sc_server st)) (sa_name a) = Some q"
  shows "scan_step X E a i st =
    (let m = messages q ! i; s = sc_server st; tgt = dlq_target X (sa_name a) s in
     if passed_over a (sc_blocked st \<union> sc_delivered st) m then st
     else if hidden (sa_now a) m then st\<lparr>sc_blocked := close_group a m (sc_blocked st)\<rparr>
     else if overdue (map_option snd tgt) m then
       st\<lparr>sc_server := modify_queue (sa_name a) (update_message i tombstone)
            (send_to_dlq tgt [dead_letter (sa_now a) (arn q) m] s),
          sc_changed := True, sc_blocked := close_group a m (sc_blocked st)\<rparr>
     else let m' = deliver (new_opaque_id ''rct'' (clock E (Suc (length (sc_out st)))) (id_counter s))
                     (sa_now a) (sa_visibility a) m in
       st\<lparr>sc_server := modify_queue (sa_name a) (update_message i (\<lambda>_. m')) (fetch_add_id s),
          sc_out := sc_out st @ [received_message_from_state X m' (sa_attribute_names a) (sa_system_names a)],
          sc_changed := True, sc_delivered := close_group a m (sc_delivered st)\<rparr>)"
  using assms
  by (auto simp: scan_step_def move_to_dlq_eq passed_over_def hidden_def grouped_def close_group_def Let_def)

lemma modify_queue_id: "(\<And>q. f q = q) \<Longrightarrow> modify_queue n f s = s"
proof -
  assume "\<And>q. f q = q"
  then have "bt_modify n f (queues s) = queues s" unfolding bt_modify_def by (intro map_idI) auto
  then show ?thesis by (simp add: modify_queue_def)
qed

lemma append_messages_Nil [simp]: "append_messages [] q = q"
  by (simp add: append_messages_def)

lemma send_to_dlq_Nil [simp]: "send_to_dlq tgt [] s = s"
  by (auto simp: send_to_dlq_def modify_queue_id split: option.splits)

lemma send_to_dlq_fold:
  assumes ok: "bt_ok (queues s)" and q: "map_of (queues s) n = Some q" and i: "i + Suc (length ms) \<le> length (messages q)"
  shows "send_to_dlq tgt xs (modify_queue n (set_segment (Suc i) ms)
      (modify_queue n (update_message i f) (send_to_dlq tgt [x] s))) =
    send_to_dlq tgt (x # xs) (modify_queue n (set_segment i (f (messages q ! i) # ms)) s)"
proof (cases tgt)
  case None
  then show ?thesis
    using assms by (auto simp: send_to_dlq_def set_segment_update intro: modify_queue_cong)
next
  case (Some t)
  then obtain d k where t: "tgt = Some (d, k)" by (cases t) auto
  show ?thesis
  proof (cases "d = n")
    case True
    have "(append_messages xs \<circ> set_segment (Suc i) ms \<circ> update_message i f \<circ> append_messages [x]) q =
        (append_messages (x # xs) \<circ> set_segment i (f (messages q ! i) # ms)) q"
      using i by (simp add: append_messages_def set_segment_update) (simp add: set_segment_def nth_append)
    with q show ?thesis using ok
      by (simp add: t True send_to_dlq_def comp_assoc[symmetric])
        (rule modify_queue_cong, simp_all add: comp_def)
  next
    case False
    have "modify_queue n (set_segment (Suc i) ms \<circ> update_message i f) s =
        modify_queue n (set_segment i (f (messages q ! i) # ms)) s"
      using assms by (intro modify_queue_cong) (auto simp: set_segment_update)
    moreover have "append_messages xs \<circ> append_messages [x] = append_messages (x # xs)"
      by (simp add: append_messages_def fun_eq_iff)
    ultimately show ?thesis
      using False by (simp add: t send_to_dlq_def modify_queue_commute[of n d])
  qed
qed

lemma keep_messages_only [simp]:
  "arn (set_segment i ms q) = arn q" "q_attributes (set_segment i ms q) = q_attributes q"
  "arn (append_messages xs q) = arn q" "q_attributes (append_messages xs q) = q_attributes q"
  "arn (update_message i f q) = arn q" "q_attributes (update_message i f q) = q_attributes q"
  by (simp_all add: set_segment_def append_messages_def update_message_def)

lemma length_update_message [simp]: "length (messages (update_message i f q)) = length (messages q)"
  by (simp add: update_message_def)

lemma dlq_target_send:
  "map_of (queues s) n = Some q \<Longrightarrow> dlq_target X n (send_to_dlq tgt xs s) = dlq_target X n s"
  by (auto simp: send_to_dlq_def dlq_target_modify split: option.splits)

lemma send_to_dlq_fields [simp]:
  "id_counter (send_to_dlq tgt xs s) = id_counter s" "config (send_to_dlq tgt xs s) = config s"
  "move_tasks (send_to_dlq tgt xs s) = move_tasks s" "bt_ok (queues (send_to_dlq tgt xs s)) = bt_ok (queues s)"
  "state_file (send_to_dlq tgt xs s) = state_file s"
  by (auto simp: send_to_dlq_def split: option.splits)

lemma advance_send: "advance_ids k (send_to_dlq tgt xs s) = send_to_dlq tgt xs (advance_ids k s)"
  by (auto simp: send_to_dlq_def advance_modify split: option.splits)

lemma send_to_dlq_queue:
  "map_of (queues s) n = Some q \<Longrightarrow> \<exists>ys. map_of (queues (send_to_dlq tgt xs s)) n = Some (append_messages ys q)"
  by (cases "case tgt of Some (d, _) \<Rightarrow> d = n | None \<Rightarrow> False")
    (auto simp: send_to_dlq_def append_messages_def bt_get_modify split: option.splits intro: exI[of _ "[]"])

text \<open>\<open>r\<close> is what a scan from \<open>st\<close> makes of the segment at \<open>i\<close>: it becomes \<open>qs\<close>, \<open>ds\<close> are delivered and \<open>xs\<close> go
  to the dead-letter queue.\<close>

definition swept ::
    "crates \<Rightarrow> scan_args \<Rightarrow> nat \<Rightarrow> scan \<Rightarrow> scan \<Rightarrow> message_state list \<Rightarrow> message_state list \<Rightarrow> message_state list \<Rightarrow> bool" where
  "swept X a i st r qs ds xs \<longleftrightarrow>
     sc_server r = send_to_dlq (dlq_target X (sa_name a) (sc_server st)) xs
       (modify_queue (sa_name a) (set_segment i qs) (advance_ids (length ds) (sc_server st))) \<and>
     sc_out r = sc_out st @
       map (\<lambda>m. received_message_from_state X m (sa_attribute_names a) (sa_system_names a)) ds \<and>
     sc_changed r = (sc_changed st \<or> ds \<noteq> [] \<or> xs \<noteq> [])"

lemma swept_keep:
  assumes "swept X a (Suc i) st' r qs ds xs" "bt_ok (queues (sc_server st))"
    and "map_of (queues (sc_server st)) (sa_name a) = Some q" "i + Suc (length qs) \<le> length (messages q)"
    and "sc_server st' = sc_server st" "sc_out st' = sc_out st" "sc_changed st' = sc_changed st"
  shows "swept X a i st r (messages q ! i # qs) ds xs"
proof -
  have "modify_queue (sa_name a) (set_segment (Suc i) qs) (advance_ids (length ds) (sc_server st)) =
      modify_queue (sa_name a) (set_segment i (messages q ! i # qs)) (advance_ids (length ds) (sc_server st))"
    using assms(2-4) by (intro modify_queue_cong) (auto simp: set_segment_keep)
  with assms show ?thesis by (simp add: swept_def)
qed

lemma swept_redrive:
  assumes "swept X a (Suc i) st' r qs ds xs" "bt_ok (queues (sc_server st))"
    and "map_of (queues (sc_server st)) (sa_name a) = Some q" "i + Suc (length qs) \<le> length (messages q)"
    and "sc_server st' = modify_queue (sa_name a) (update_message i f)
      (send_to_dlq (dlq_target X (sa_name a) (sc_server st)) [x] (sc_server st))"
    and "sc_out st' = sc_out st" "sc_changed st'"
  shows "swept X a i st r (f (messages q ! i) # qs) ds (x # xs)"
proof -
  let ?s = "advance_ids (length ds) (sc_server st)"
  obtain ys where "map_of (queues (send_to_dlq (dlq_target X (sa_name a) (sc_server st)) [x] (sc_server st))) (sa_name a) =
      Some (append_messages ys q)" using send_to_dlq_queue[OF assms(3)] by blast
  then have t: "dlq_target X (sa_name a) (sc_server st') = dlq_target X (sa_name a) (sc_server st)"
    using assms(3,5) by (simp add: dlq_target_modify dlq_target_send)
  show ?thesis
    using send_to_dlq_fold[of ?s "sa_name a" q i qs "dlq_target X (sa_name a) (sc_server st)" xs f x] assms
    by (simp add: swept_def t[unfolded assms(5)] advance_modify advance_send)
qed

lemma swept_deliver:
  assumes "swept X a (Suc i) st' r qs ds xs" "bt_ok (queues (sc_server st))"
    and "map_of (queues (sc_server st)) (sa_name a) = Some q" "i + Suc (length qs) \<le> length (messages q)"
    and "sc_server st' = modify_queue (sa_name a) (update_message i (\<lambda>_. m)) (fetch_add_id (sc_server st))"
    and "sc_out st' = sc_out st @ [received_message_from_state X m (sa_attribute_names a) (sa_system_names a)]"
    and "sc_changed st'"
  shows "swept X a i st r (m # qs) (m # ds) xs"
proof -
  have "dlq_target X n (fetch_add_id s) = dlq_target X n s" for n s
    by (simp add: dlq_target_def split: option.split)
  then have t: "dlq_target X (sa_name a) (sc_server st') = dlq_target X (sa_name a) (sc_server st)"
    using assms(3,5) by (simp add: dlq_target_modify)
  have "modify_queue (sa_name a) (set_segment (Suc i) qs \<circ> update_message i (\<lambda>_. m)) (advance_ids (Suc (length ds)) (sc_server st)) =
      modify_queue (sa_name a) (set_segment i (m # qs)) (advance_ids (Suc (length ds)) (sc_server st))"
    using assms(2-4) by (intro modify_queue_cong) (auto simp: set_segment_update)
  with assms show ?thesis by (simp add: swept_def t[unfolded assms(5)] advance_modify advance_fetch)
qed

lemma close_group_union: "close_group a m B \<union> D = close_group a m (B \<union> D)" "B \<union> close_group a m D = close_group a m (B \<union> D)"
  by (auto simp: close_group_def)

lemma length_sweep: "length (fst (sweep a limit h src G n ms)) = length ms"
  by (induction ms arbitrary: G n) (auto simp: Let_def split: prod.splits, (metis fst_conv)+)

lemma drop_update_append:
  "Suc i + length ms \<le> length l \<Longrightarrow> take (length ms) (drop (Suc i) ((l @ ys)[i := x])) = take (length ms) (drop (Suc i) l)"
  by simp

lemma scan_step_frame:
  assumes ok: "bt_ok (queues (sc_server st))" and q: "map_of (queues (sc_server st)) (sa_name a) = Some q"
    and i: "Suc i + k \<le> length (messages q)"
  obtains q' d where "map_of (queues (sc_server (scan_step X E a i st))) (sa_name a) = Some q'"
    "bt_ok (queues (sc_server (scan_step X E a i st)))"
    "dlq_target X (sa_name a) (sc_server (scan_step X E a i st)) = dlq_target X (sa_name a) (sc_server st)"
    "arn q' = arn q" "Suc i + k \<le> length (messages q')"
    "take k (drop (Suc i) (messages q')) = take k (drop (Suc i) (messages q))"
    "length (sc_out (scan_step X E a i st)) = length (sc_out st) + d"
    "id_counter (sc_server (scan_step X E a i st)) = id_counter (sc_server st) + of_nat d"
proof -
  let ?s = "sc_server st" and ?m = "messages q ! i" and ?n = "sa_name a"
  let ?tgt = "dlq_target X ?n ?s"
  note step = scan_step_eq[OF q, of X E i, unfolded Let_def]
  have f: "dlq_target X n (fetch_add_id s) = dlq_target X n s" for n s
    by (simp add: dlq_target_def split: option.split)
  consider (idle) "sc_server (scan_step X E a i st) = ?s" "sc_out (scan_step X E a i st) = sc_out st"
    | (moved) x where "sc_server (scan_step X E a i st) = modify_queue ?n (update_message i tombstone) (send_to_dlq ?tgt [x] ?s)"
        "sc_out (scan_step X E a i st) = sc_out st"
    | (delivered) m' y where "sc_server (scan_step X E a i st) = modify_queue ?n (update_message i (\<lambda>_. m')) (fetch_add_id ?s)"
        "sc_out (scan_step X E a i st) = sc_out st @ [y]"
    using step by (auto split: if_splits)
  then show ?thesis
  proof cases
    case idle
    then show ?thesis using that[of q 0] assms by simp
  next
    case moved
    obtain ys where ys: "map_of (queues (send_to_dlq ?tgt [x] ?s)) ?n = Some (append_messages ys q)"
      using send_to_dlq_queue[OF q] by blast
    show ?thesis
      by (rule that[of "update_message i tombstone (append_messages ys q)" 0])
        (use moved ok q ys i in \<open>simp_all add: dlq_target_modify dlq_target_send update_message_def append_messages_def\<close>)
  next
    case delivered
    show ?thesis
      by (rule that[of "update_message i (\<lambda>_. m') q" 1])
        (use delivered ok q i in \<open>simp_all add: dlq_target_modify f update_message_def\<close>)
  qed
qed

lemma scan_loop_sweep:
  assumes "bt_ok (queues (sc_server st))" "map_of (queues (sc_server st)) (sa_name a) = Some q"
    and "i + length ms \<le> length (messages q)" "take (length ms) (drop i (messages q)) = ms"
    and "\<And>j. h (length (sc_out st) + j) = new_opaque_id ''rct'' (clock E (Suc (length (sc_out st) + j))) (id_counter (sc_server st) + of_nat j)"
    and "sweep a (map_option snd (dlq_target X (sa_name a) (sc_server st))) h (arn q)
      (sc_blocked st \<union> sc_delivered st) (length (sc_out st)) ms = (qs, ds, xs)"
  shows "swept X a i st (scan_loop X E a [i..<i + length ms] st) qs ds xs"
  using assms
proof (induction ms arbitrary: i st q qs ds xs)
  case Nil
  then show ?case by (simp add: swept_def set_segment_def advance_ids_def modify_queue_id)
next
  case (Cons m ms)
  let ?s = "sc_server st" and ?n = "sa_name a" and ?G = "sc_blocked st \<union> sc_delivered st"
  let ?tgt = "dlq_target X ?n ?s" and ?k = "length (sc_out st)"
  let ?sweep = "sweep a (map_option snd ?tgt) h (arn q)"
  note P = Cons.prems
  have i: "i < length (messages q)" "Suc i + length ms \<le> length (messages q)"
    using P(3) by simp_all
  have m: "messages q ! i = m" and rest: "take (length ms) (drop (Suc i) (messages q)) = ms"
    using P(4) i(1) by (simp_all add: Cons_nth_drop_Suc[symmetric])
  have upt: "[i..<i + length (m # ms)] = i # [Suc i..<Suc i + length ms]" by (simp add: upt_rec)
  note step = scan_step_eq[OF P(2), of X E i, unfolded m Let_def]
  show ?case
  proof (cases "int ?k \<ge> sa_max a")
    case True
    have "set_segment i (m # ms) q = q"
      using P(4) append_take_drop_id[of "Suc (length ms)" "drop i (messages q)"]
      by (simp add: set_segment_def add.commute)
    then have "modify_queue ?n (set_segment i (m # ms)) (advance_ids 0 ?s) = ?s"
      using P(1,2) by (simp add: advance_ids_def modify_queue_same)
    with True P(6) show ?thesis unfolding upt swept_def by (auto simp del: upt_Suc)
  next
    case room: False
    define st' where "st' = scan_step X E a i st"
    define r where "r = scan_loop X E a [Suc i..<Suc i + length ms] st'"
    have r: "scan_loop X E a [i..<i + length (m # ms)] st = r" unfolding upt r_def st'_def using room by simp
    obtain q' d where q': "map_of (queues (sc_server st')) ?n = Some q'" and ok: "bt_ok (queues (sc_server st'))"
      and tgt: "dlq_target X ?n (sc_server st') = ?tgt" and arn: "arn q' = arn q"
      and len: "Suc i + length ms \<le> length (messages q')" "take (length ms) (drop (Suc i) (messages q')) = ms"
      and d: "length (sc_out st') = ?k + d" "id_counter (sc_server st') = id_counter ?s + of_nat d"
      using scan_step_frame[OF P(1,2) i(2), of X E] rest unfolding st'_def by metis
    have h: "h (length (sc_out st') + j) = new_opaque_id ''rct'' (clock E (Suc (length (sc_out st') + j))) (id_counter (sc_server st') + of_nat j)" for j
      using P(5)[of "d + j"] by (simp add: d add.assoc)
    have IH: "swept X a (Suc i) st' r qs' ds' xs'" and len': "length qs' = length ms"
      if "?sweep (sc_blocked st' \<union> sc_delivered st') (length (sc_out st')) ms = (qs', ds', xs')" for qs' ds' xs'
      using Cons.IH[OF ok q' len h, of qs' ds' xs'] that length_sweep[of a "map_option snd ?tgt" h "arn q"]
      by (simp_all add: r_def tgt arn) (metis fst_conv)
    have i': "i + Suc (length qs') \<le> length (messages q)" if "length qs' = length ms" for qs' :: "message_state list"
      using i that by simp
    note keep = swept_keep[OF IH P(1,2) i'[OF len'], unfolded m] and redrive = swept_redrive[OF IH P(1,2) i'[OF len'], unfolded m]
      and del = swept_deliver[OF IH P(1,2) i'[OF len']]
    consider (passed) "passed_over a ?G m" | (hidden) "\<not> passed_over a ?G m" "hidden (sa_now a) m"
      | (overdue) "\<not> passed_over a ?G m" "\<not> hidden (sa_now a) m" "overdue (map_option snd ?tgt) m"
      | (fresh) "\<not> passed_over a ?G m" "\<not> hidden (sa_now a) m" "\<not> overdue (map_option snd ?tgt) m" by blast
    then show ?thesis
      unfolding r
    proof cases
      case passed
      with step have st': "st' = st" by (simp add: st'_def)
      from passed room P(6) obtain qs' where "?sweep ?G ?k ms = (qs', ds, xs)" "qs = m # qs'"
        by (auto split: prod.splits)
      with st' keep show "swept X a i st r qs ds xs" by simp
    next
      case hidden
      with step have st': "st' = st\<lparr>sc_blocked := close_group a m (sc_blocked st)\<rparr>" by (simp add: st'_def)
      from hidden room P(6) obtain qs' where "?sweep (close_group a m ?G) ?k ms = (qs', ds, xs)" "qs = m # qs'"
        by (auto split: prod.splits)
      with st' keep show "swept X a i st r qs ds xs" by (simp add: close_group_union)
    next
      case overdue
      let ?x = "dead_letter (sa_now a) (arn q) m"
      from overdue step have st': "st' = st\<lparr>sc_server := modify_queue ?n (update_message i tombstone) (send_to_dlq ?tgt [?x] ?s),
          sc_changed := True, sc_blocked := close_group a m (sc_blocked st)\<rparr>" by (simp add: st'_def)
      from overdue room P(6) obtain qs' xs' where "?sweep (close_group a m ?G) ?k ms = (qs', ds, xs')"
        "qs = tombstone m # qs'" "xs = ?x # xs'" by (auto split: prod.splits)
      with st' redrive[where f = tombstone and x = ?x] show "swept X a i st r qs ds xs" by (simp add: close_group_union)
    next
      case fresh
      let ?m' = "deliver (h ?k) (sa_now a) (sa_visibility a) m"
      have hk: "new_opaque_id ''rct'' (clock E (Suc ?k)) (id_counter ?s) = h ?k" using P(5)[of 0] by simp
      from fresh step have st': "st' = st\<lparr>sc_server := modify_queue ?n (update_message i (\<lambda>_. ?m')) (fetch_add_id ?s),
          sc_out := sc_out st @ [received_message_from_state X ?m' (sa_attribute_names a) (sa_system_names a)],
          sc_changed := True, sc_delivered := close_group a m (sc_delivered st)\<rparr>" by (simp add: st'_def hk)
      from fresh room P(6) obtain qs' ds' where "?sweep (close_group a m ?G) (Suc ?k) ms = (qs', ds', xs)"
        "qs = ?m' # qs'" "ds = ?m' # ds'" by (auto simp: Let_def split: prod.splits)
      with st' del[where m = ?m'] show "swept X a i st r qs ds xs" by (simp add: close_group_union)
    qed
  qed
qed

section \<open>A receive is a sweep\<close>

definition effective_visibility :: "sqs_config \<Rightarrow> int option \<Rightarrow> queue_state \<Rightarrow> int" where
  "effective_visibility c override q =
     (case override of Some v \<Rightarrow> v
      | None \<Rightarrow> int_attribute (q_attributes q) ''VisibilityTimeout'' (default_visibility_timeout_seconds c))"

definition receive_args ::
    "env \<Rightarrow> string \<Rightarrow> int \<Rightarrow> int option \<Rightarrow> string list \<Rightarrow> string list \<Rightarrow> sqs_config \<Rightarrow> queue_state \<Rightarrow> scan_args" where
  "receive_args E name mx vo an sn c q =
     \<lparr>sa_name = name, sa_now = now_rfc3339 (clock E 0), sa_max = mx, sa_visibility = effective_visibility c vo q,
      sa_fifo = is_fifo_queue q, sa_attribute_names = an, sa_system_names = sn\<rparr>"

definition receive_sweep ::
    "crates \<Rightarrow> env \<Rightarrow> string \<Rightarrow> int \<Rightarrow> int option \<Rightarrow> sqs_server \<Rightarrow> queue_state \<Rightarrow>
     message_state list \<times> message_state list \<times> message_state list" where
  "receive_sweep X E name mx vo s q =
     sweep (receive_args E name mx vo [] [] (config s) q) (map_option snd (dlq_target X name s))
       (next_handle E (id_counter s)) (arn q) {} 0 (kept (now_rfc3339 (clock E 0)) q)"

lemma sweep_names_irrelevant:
  "sweep (a\<lparr>sa_attribute_names := an, sa_system_names := sn\<rparr>) limit h src G n ms = sweep a limit h src G n ms"
proof (induction ms arbitrary: G n)
  case (Cons m ms)
  then show ?case
    by (simp add: passed_over_def grouped_def close_group_def split: prod.split)
qed simp

definition after_receive ::
    "crates \<Rightarrow> env \<Rightarrow> string \<Rightarrow> message_state list \<Rightarrow> message_state list \<Rightarrow> sqs_server \<Rightarrow> queue_map" where
  "after_receive X E name qs xs s =
     queues (send_to_dlq (dlq_target X name s) xs
       (modify_queue name (\<lambda>q. (cleanup_expired_messages (now_rfc3339 (clock E 0)) q)\<lparr>messages := qs\<rparr>) s))"

lemma dlq_snapshot_target:
  assumes "bt_ok (queues s)"
  shows "dlq_snapshot X name s =
    (case dlq_target X name s of None \<Rightarrow> None
     | Some (d, _) \<Rightarrow> if d = name then None else Some (d, the (map_of (queues s) d)))"
proof -
  have "map_of (queues s) d = Some qd" if "queue_by_arn (queues s) a = Some (d, qd)" for d qd a
    using that assms by (auto simp: queue_by_arn_def dest: find_SomeD intro: bt_in_set_iff[THEN iffD1])
  then show ?thesis by (auto simp: dlq_snapshot_def dlq_target_def split: option.splits)
qed

lemma dlq_target_exists:
  assumes "bt_ok (queues s)" "dlq_target X name s = Some (d, k)"
  shows "\<exists>qd. map_of (queues s) d = Some qd"
  using assms by (auto simp: dlq_target_def queue_by_arn_def dest!: find_SomeD split: option.splits
      intro: bt_in_set_iff[THEN iffD1])

lemma restore_after_sweep:
  assumes ok: "bt_ok (queues s)" and q: "map_of (queues s) name = Some q"
    and s': "queues s' = queues (send_to_dlq (dlq_target X name s) xs (modify_queue name f s))"
  shows "queues (restore_snapshots name q (dlq_snapshot X name s) s') = queues s"
proof (rule bt_ext)
  show "bt_ok (queues (restore_snapshots name q (dlq_snapshot X name s) s'))"
    by (simp add: restore_snapshots_def put_queue_def s' ok Let_def split: option.split)
  show "map_of (queues (restore_snapshots name q (dlq_snapshot X name s) s')) = map_of (queues s)"
  proof (cases "dlq_target X name s")
    case None
    then show ?thesis
      using q by (auto simp: restore_snapshots_def dlq_snapshot_target[OF ok] put_queue_def s' send_to_dlq_def bt_simps fun_eq_iff)
  next
    case (Some t)
    then obtain d k where t: "dlq_target X name s = Some (d, k)" by (cases t) auto
    with dlq_target_exists[OF ok] obtain qd where qd: "map_of (queues s) d = Some qd" by blast
    show ?thesis
      using q qd by (auto simp: restore_snapshots_def dlq_snapshot_target[OF ok] put_queue_def s' send_to_dlq_def t bt_simps fun_eq_iff)
  qed
qed (rule ok)

lemma receive_scan:
  fixes X E name mx vo an sn s q
  defines "now \<equiv> now_rfc3339 (clock E 0)"
  defines "a \<equiv> receive_args E name mx vo an sn (config s) q"
  defines "s1 \<equiv> modify_queue name (cleanup_expired_messages now) s"
  assumes ok: "bt_ok (queues s)" and q: "map_of (queues s) name = Some q"
    and sw: "receive_sweep X E name mx vo s q = (qs, ds, xs)"
  shows "swept X a 0 (start_scan s1) (scan_loop X E a [0..<length (kept now q)] (start_scan s1)) qs ds xs"
    and "dlq_target X name s1 = dlq_target X name s" and "length qs = length (kept now q)"
proof -
  have q1: "map_of (queues s1) name = Some (cleanup_expired_messages now q)" using q by (simp add: s1_def)
  show t: "dlq_target X name s1 = dlq_target X name s" unfolding s1_def by (rule dlq_target_modify) (simp_all add: q)
  have a: "a = (receive_args E name mx vo [] [] (config s) q)\<lparr>sa_attribute_names := an, sa_system_names := sn\<rparr>"
    by (simp add: a_def receive_args_def)
  have sweep: "sweep a (map_option snd (dlq_target X name s)) (next_handle E (id_counter s)) (arn q) {} 0 (kept now q) = (qs, ds, xs)"
    using sw unfolding a by (simp add: sweep_names_irrelevant receive_sweep_def now_def)
  then show "length qs = length (kept now q)" by (metis fst_conv length_sweep)
  have f: "sa_name a = name" "bt_ok (queues s1)" "id_counter s1 = id_counter s"
    by (simp_all add: a_def receive_args_def s1_def ok)
  have "swept X a 0 (start_scan s1) (scan_loop X E a [0..<0 + length (kept now q)] (start_scan s1)) qs ds xs"
    by (rule scan_loop_sweep[where q = "cleanup_expired_messages now q" and h = "next_handle E (id_counter s)"])
      (simp_all add: start_scan_def f q1 next_handle_def t sweep)
  then show "swept X a 0 (start_scan s1) (scan_loop X E a [0..<length (kept now q)] (start_scan s1)) qs ds xs"
    by simp
qed

lemma receive_outcomes:
  assumes "receive_available_messages X E name mx vo an sn s = (r, s')" "bt_ok (queues s)"
    and "map_of (queues s) name = Some q" "receive_sweep X E name mx vo s q = (qs, ds, xs)"
  obtains (refused) e where "r = Inl e" "state_file s' = state_file s"
        "\<not> (0 \<le> effective_visibility (config s) vo q \<and> effective_visibility (config s) vo q \<le> MAX_VISIBILITY_TIMEOUT_SECONDS)"
        "queues s' = bt_modify name (cleanup_expired_messages (now_rfc3339 (clock E 0))) (queues s)"
        "config s' = config s" "move_tasks s' = move_tasks s"
    | (unsaved) e where "r = Inl e" "state_file s' = state_file s" "queues s' = queues s"
        "config s' = config s" "move_tasks s' = move_tasks s"
    | (received) "0 \<le> effective_visibility (config s) vo q" "effective_visibility (config s) vo q \<le> MAX_VISIBILITY_TIMEOUT_SECONDS"
        "r = Inr (map (\<lambda>m. received_message_from_state X m an sn) ds)"
        "queues s' = after_receive X E name qs xs s" "id_counter s' = id_counter s + of_nat (length ds)"
        "config s' = config s" "move_tasks s' = move_tasks s"
proof -
  let ?now = "now_rfc3339 (clock E 0)" and ?a = "receive_args E name mx vo an sn (config s) q"
  let ?s1 = "modify_queue name (cleanup_expired_messages ?now) s"
  let ?vis = "effective_visibility (config s) vo q" and ?tgt = "dlq_target X name s"
  define f where "f = (\<lambda>q. (cleanup_expired_messages ?now q)\<lparr>messages := qs\<rparr>)"
  define sc where "sc = scan_loop X E ?a [0..<length (kept ?now q)] (start_scan ?s1)"
  note R = receive_scan(1)[OF assms(2-4), where an = an and sn = sn, folded sc_def] receive_scan(2,3)[OF assms(2-4)]
  have "set_segment 0 qs (cleanup_expired_messages ?now q) = f q"
    using R(3) by (simp add: set_segment_def f_def)
  then have "modify_queue name (set_segment 0 qs \<circ> cleanup_expired_messages ?now) (advance_ids k s) =
      modify_queue name f (advance_ids k s)" for k
    using assms(2,3) by (intro modify_queue_cong) auto
  then have sc: "sc_server sc = advance_ids (length ds) (send_to_dlq ?tgt xs (modify_queue name f s))"
    "sc_out sc = map (\<lambda>m. received_message_from_state X m an sn) ds" "sc_changed sc \<longleftrightarrow> ds \<noteq> [] \<or> xs \<noteq> []"
    using R(1,2) by (simp_all add: swept_def start_scan_def receive_args_def advance_modify advance_send)
  have count: "length (messages (the (map_of (queues ?s1) name))) = length (kept ?now q)"
    using assms(3) by simp
  have eq: "receive_available_messages X E name mx vo an sn s =
    (if ?vis < 0 then (Inl ''VisibilityTimeout must be non-negative'', ?s1)
     else if ?vis > MAX_VISIBILITY_TIMEOUT_SECONDS then
       (Inl (''VisibilityTimeout must be no greater than '' @ int_to_string MAX_VISIBILITY_TIMEOUT_SECONDS), ?s1)
     else if \<not> sc_changed sc then (Inr (sc_out sc), sc_server sc)
     else (case persist (fs E) (sc_server sc) of
             (Inl e, s') \<Rightarrow> (Inl e, restore_snapshots name q (dlq_snapshot X name s) s')
           | (Inr _, s') \<Rightarrow> (Inr (sc_out sc), s')))"
    using assms(3) unfolding receive_available_messages_def sc_def receive_args_def effective_visibility_def
    by (simp add: bt_contains_def Let_def count)
  have fields: "queues (sc_server sc) = after_receive X E name qs xs s" "state_file (sc_server sc) = state_file s"
    "config (sc_server sc) = config s" "move_tasks (sc_server sc) = move_tasks s"
    "id_counter (sc_server sc) = id_counter s + of_nat (length ds)"
    by (simp_all add: sc after_receive_def f_def advance_ids_def)
  have restore: "queues (restore_snapshots name q (dlq_snapshot X name s) s'') = queues s"
    if "queues s'' = queues (sc_server sc)" for s''
    using that restore_after_sweep[OF assms(2,3), of s'' X xs f] by (simp add: sc)
  have rf: "state_file (restore_snapshots name q z s'') = state_file s''" "config (restore_snapshots name q z s'') = config s''"
    "move_tasks (restore_snapshots name q z s'') = move_tasks s''" for z s''
    by (auto simp: restore_snapshots_def put_queue_def Let_def split: option.splits)
  show ?thesis
  proof (cases "?vis < 0 \<or> ?vis > MAX_VISIBILITY_TIMEOUT_SECONDS")
    case True
    then have "r = Inl (if ?vis < 0 then ''VisibilityTimeout must be non-negative'' else ''VisibilityTimeout must be no greater than '' @ int_to_string MAX_VISIBILITY_TIMEOUT_SECONDS)"
      "s' = ?s1" using assms(1) unfolding eq by (auto split: if_splits)
    with True show ?thesis by (intro refused) auto
  next
    case False
    show ?thesis
    proof (cases "\<exists>e. r = Inl e")
      case True
      with False assms(1) obtain e s'' where "r = Inl e" "persist (fs E) (sc_server sc) = (Inl e, s'')"
        "s' = restore_snapshots name q (dlq_snapshot X name s) s''"
        unfolding eq by (auto split: if_splits prod.splits sum.splits)
      with fields restore[of s''] rf show ?thesis by (intro unsaved) (auto dest: disk.save_fail)
    next
      case ok: False
      with False assms(1) have "r = Inr (sc_out sc)" "queues s' = queues (sc_server sc)" "id_counter s' = id_counter (sc_server sc)"
        "config s' = config (sc_server sc)" "move_tasks s' = move_tasks (sc_server sc)"
        unfolding eq by (auto simp: persist_keeps split: if_splits prod.splits sum.splits)
      with False fields sc(2) show ?thesis by (intro received) auto
    qed
  qed
qed

section \<open>What a sweep does\<close>

definition deliverable :: "scan_args \<Rightarrow> int option \<Rightarrow> message_state \<Rightarrow> bool" where
  "deliverable a limit m \<longleftrightarrow> \<not> deleted m \<and> \<not> hidden (sa_now a) m \<and> \<not> overdue limit m"

text \<open>What may become of one message.\<close>

definition swept_to :: "scan_args \<Rightarrow> int option \<Rightarrow> message_state list \<Rightarrow> message_state \<Rightarrow> message_state \<Rightarrow> bool" where
  "swept_to a limit ds m m' \<longleftrightarrow>
     m' = m \<or> (m' = tombstone m \<and> overdue limit m) \<or>
     (m' \<in> set ds \<and> (\<exists>h. m' = deliver h (sa_now a) (sa_visibility a) m) \<and> deliverable a limit m)"

lemma sweep_induct [consumes 1, case_names Nil full keep redrive deliver]:
  assumes "sweep a limit h src G n ms = (qs, ds, xs)"
    and nil: "P [] [] [] []"
    and full: "\<And>m ms. P (m # ms) (m # ms) [] []"
    and keep: "\<And>m ms qs ds xs. P ms qs ds xs \<Longrightarrow> P (m # ms) (m # qs) ds xs"
    and redrive: "\<And>m ms qs ds xs. P ms qs ds xs \<Longrightarrow> \<not> deleted m \<Longrightarrow> overdue limit m \<Longrightarrow>
           P (m # ms) (tombstone m # qs) ds (dead_letter (sa_now a) src m # xs)"
    and deliver: "\<And>m ms qs ds xs h. P ms qs ds xs \<Longrightarrow> deliverable a limit m \<Longrightarrow>
           P (m # ms) (deliver h (sa_now a) (sa_visibility a) m # qs) (deliver h (sa_now a) (sa_visibility a) m # ds) xs"
  shows "P ms qs ds xs"
  using assms(1)
proof (induction ms arbitrary: G n qs ds xs)
  case Nil
  then show ?case using nil by simp
next
  case (Cons m ms)
  then show ?case
    by (auto simp: deliverable_def passed_over_def Let_def split: if_splits prod.splits intro: full keep redrive deliver)
qed

lemma swept_to_mono: "swept_to a limit ds m m' \<Longrightarrow> set ds \<subseteq> set ds' \<Longrightarrow> swept_to a limit ds' m m'"
  by (auto simp: swept_to_def)

lemma sweep_messages:
  assumes "sweep a limit h src G n ms = (qs, ds, xs)"
  shows "list_all2 (swept_to a limit ds) ms qs"
  using assms
proof (induction rule: sweep_induct)
  case (full m ms)
  then show ?case by (simp add: swept_to_def list_all2_refl)
next
  case (deliver m ms qs ds xs h)
  then show ?case by (auto simp: swept_to_def elim!: list_all2_mono intro: swept_to_mono)
qed (auto simp: swept_to_def)

lemma sweep_delivered:
  assumes "sweep a limit h src G n ms = (qs, ds, xs)"
  shows "\<forall>d \<in> set ds. d \<in> set qs \<and> (\<exists>m \<in> set ms. deliverable a limit m \<and> (\<exists>h. d = deliver h (sa_now a) (sa_visibility a) m))"
  using assms by (induction rule: sweep_induct) fastforce+

lemma sweep_redriven:
  assumes "sweep a limit h src G n ms = (qs, ds, xs)"
  shows "\<forall>x \<in> set xs. \<exists>m \<in> set ms. overdue limit m \<and> x = dead_letter (sa_now a) src m"
  using assms by (induction rule: sweep_induct) auto

text \<open>The ids of the messages that are not tombstones.\<close>

definition live_ids :: "message_state list \<Rightarrow> string multiset" where
  "live_ids ms = mset (map m_id (filter (\<lambda>m. \<not> deleted m) ms))"

lemma swept_fields [simp]:
  "m_id (tombstone m) = m_id m" "deleted (tombstone m)" "m_id (dead_letter now src m) = m_id m"
  "\<not> deleted (dead_letter now src m)" "m_id (deliver h now v m) = m_id m" "deleted (deliver h now v m) = deleted m"
  "message_group_id (deliver h now v m) = message_group_id m" "message_group_id (tombstone m) = message_group_id m"
  "receive_count (deliver h now v m) = wrap_s 64 (receive_count m + 1)"
  "invisible_until (deliver h now v m) = add_seconds now v" "receipt_handle (deliver h now v m) = h"
  by (simp_all add: tombstone_def dead_letter_def deliver_def)

lemma sweep_conserves:
  assumes "sweep a limit h src G n ms = (qs, ds, xs)"
  shows "live_ids qs + live_ids xs = live_ids ms"
  using assms by (induction rule: sweep_induct) (auto simp: live_ids_def deliverable_def)

lemma sweep_room:
  "sweep a limit h src G n ms = (qs, ds, xs) \<Longrightarrow> int (length ds) \<le> max 0 (sa_max a - int n)"
proof (induction ms arbitrary: G n qs ds xs)
  case (Cons m ms)
  then show ?case by (fastforce simp: Let_def split: if_splits prod.splits)
qed simp

lemma sweep_standard:
  assumes "\<not> sa_fifo a" "sweep a limit h src G n ms = (qs, ds, xs)"
  shows "map m_id ds = map m_id (take (nat (sa_max a - int n)) (filter (deliverable a limit) ms))"
  using assms(2)
proof (induction ms arbitrary: G n qs ds xs)
  case (Cons m ms)
  have t: "nat (sa_max a - int n) = Suc (nat (sa_max a - int (Suc n)))" if "\<not> int n \<ge> sa_max a" using that by simp
  show ?case
    using Cons.prems Cons.IH assms(1)
    by (auto simp: Let_def passed_over_def grouped_def deliverable_def t split: if_splits prod.splits)
qed simp

text \<open>Within a FIFO group a message is delivered only when every message before it in the queue is gone.\<close>

definition group_heads :: "message_state list \<Rightarrow> message_state list \<Rightarrow> bool" where
  "group_heads ms ds \<longleftrightarrow>
     (\<forall>d \<in> set ds. \<exists>i < length ms. m_id (ms ! i) = m_id d \<and> message_group_id (ms ! i) = message_group_id d \<and>
        (\<forall>j < i. message_group_id (ms ! j) = message_group_id d \<longrightarrow> deleted (ms ! j)))"

lemma group_heads_Cons:
  assumes "group_heads ms ds" "deleted m \<or> (\<forall>d \<in> set ds. message_group_id d \<noteq> message_group_id m)"
  shows "group_heads (m # ms) ds"
  unfolding group_heads_def
proof
  fix d assume d: "d \<in> set ds"
  with assms(1) obtain i where i: "i < length ms" "m_id (ms ! i) = m_id d" "message_group_id (ms ! i) = message_group_id d"
    "\<forall>j < i. message_group_id (ms ! j) = message_group_id d \<longrightarrow> deleted (ms ! j)"
    unfolding group_heads_def by blast
  have "message_group_id ((m # ms) ! j) = message_group_id d \<longrightarrow> deleted ((m # ms) ! j)" if "j < Suc i" for j
    using that i(4) assms(2) d by (cases j) auto
  with i(1-3) show "\<exists>i < length (m # ms). m_id ((m # ms) ! i) = m_id d \<and> message_group_id ((m # ms) ! i) = message_group_id d \<and>
        (\<forall>j < i. message_group_id ((m # ms) ! j) = message_group_id d \<longrightarrow> deleted ((m # ms) ! j))"
    by (intro exI[of _ "Suc i"]) simp
qed

lemma sweep_fifo:
  assumes "sa_fifo a" "list_all (\<lambda>m. message_group_id m \<noteq> []) ms" "sweep a limit h src G n ms = (qs, ds, xs)"
  shows "group_heads ms ds \<and> distinct (map message_group_id ds) \<and> (\<forall>d \<in> set ds. message_group_id d \<notin> G)"
  using assms(2,3)
proof (induction ms arbitrary: G n qs ds xs)
  case Nil
  then show ?case by (simp add: group_heads_def)
next
  case (Cons m ms)
  have g: "grouped a m" using Cons.prems(1) assms(1) by (simp add: grouped_def)
  have cons: "group_heads (m # ms) (deliver h' now v m # ds')" if "group_heads (m # ms) ds'" for h' now v ds'
    using that unfolding group_heads_def by (auto intro: exI[of _ 0])
  show ?case
    using Cons.prems Cons.IH g
    by (auto simp: Let_def passed_over_def close_group_def split: if_splits prod.splits
        intro!: group_heads_Cons cons; fastforce simp: group_heads_def)
qed

lemma received_fields [simp]:
  "rm_message_id (received_message_from_state X m an sn) = m_id m"
  "rm_receipt_handle (received_message_from_state X m an sn) = receipt_handle m"
  "rm_body (received_message_from_state X m an sn) = m_body m"
  by (simp_all add: received_message_from_state_def Let_def)

lemma received_ids: "map rm_message_id (map (\<lambda>m. received_message_from_state X m an sn) ds) = map m_id ds"
  by simp

lemma receive_args_fields [simp]:
  "sa_now (receive_args E name mx vo an sn c q) = now_rfc3339 (clock E 0)"
  "sa_max (receive_args E name mx vo an sn c q) = mx"
  "sa_fifo (receive_args E name mx vo an sn c q) = is_fifo_queue q"
  "sa_visibility (receive_args E name mx vo an sn c q) = effective_visibility c vo q"
  by (simp_all add: receive_args_def)

lemma receive_success:
  assumes "receive_available_messages X E name mx vo an sn s = (Inr out, s')" "bt_ok (queues s)"
    and "map_of (queues s) name = Some q"
  obtains qs ds xs where "receive_sweep X E name mx vo s q = (qs, ds, xs)"
    "out = map (\<lambda>m. received_message_from_state X m an sn) ds" "queues s' = after_receive X E name qs xs s"
    "0 \<le> effective_visibility (config s) vo q" "effective_visibility (config s) vo q \<le> MAX_VISIBILITY_TIMEOUT_SECONDS"
proof -
  obtain qs ds xs where sw: "receive_sweep X E name mx vo s q = (qs, ds, xs)" by (metis prod_cases3)
  from assms(1-3) sw show ?thesis by (cases rule: receive_outcomes) (auto intro: that[OF sw])
qed

lemma receive_queue_exists:
  "receive_available_messages X E name mx vo an sn s = (Inr out, s') \<Longrightarrow> \<exists>q. map_of (queues s) name = Some q"
  by (auto simp: receive_available_messages_def bt_contains_def split: if_splits)

lemma after_receive_get:
  assumes "map_of (queues s) name = Some q"
  shows "\<exists>q1 ys. map_of (after_receive X E name qs xs s) name = Some q1 \<and> messages q1 = qs @ ys \<and> (ys = [] \<or> ys = xs) \<and>
    q_attributes q1 = q_attributes q"
  using assms by (auto simp: after_receive_def send_to_dlq_def append_messages_def bt_get_modify split: option.splits)

section \<open>Properties of receiving\<close>

text \<open>C11. A successful receive implements the specification \<open>sweep\<close>: it returns exactly the messages the sweep of
  the unexpired messages delivers, in order; the queue keeps what the sweep leaves, the messages
  the sweep moves are appended to the dead-letter queue, and no other queue changes.\<close>

theorem receive_implements_sweep:
  assumes "receive_available_messages X E name mx vo an sn s = (Inr out, s')" "server_wf s"
    and "map_of (queues s) name = Some q" "receive_sweep X E name mx vo s q = (qs, ds, xs)"
  shows "out = map (\<lambda>m. received_message_from_state X m an sn) ds \<and>
    queues s' = queues (send_to_dlq (dlq_target X name s) xs
      (modify_queue name (\<lambda>q. (cleanup_expired_messages (now_rfc3339 (clock E 0)) q)\<lparr>messages := qs\<rparr>) s))"
  using receive_success[OF assms(1) server_wf_ok[OF assms(2)] assms(3)] assms(4)
  by (auto simp: after_receive_def)

text \<open>A receive on a standard queue returns the oldest messages that are available, visible and not due for
  the dead-letter queue, up to the number asked for and in queue order, and none is held back
  while it has room.\<close>

theorem standard_receive_oldest_first:
  assumes "receive_available_messages X E name mx vo an sn s = (Inr out, s')" "server_wf s"
    and "map_of (queues s) name = Some q" "\<not> is_fifo_queue q"
  shows "map rm_message_id out = map m_id (take (nat mx) (filter (\<lambda>m.
      \<not> before (now_rfc3339 (clock E 0)) (available_at m) \<and> \<not> before (now_rfc3339 (clock E 0)) (invisible_until m) \<and>
      \<not> overdue (map_option snd (dlq_target X name s)) m) (kept (now_rfc3339 (clock E 0)) q)))"
proof -
  obtain qs ds xs where sw: "receive_sweep X E name mx vo s q = (qs, ds, xs)"
    and out: "out = map (\<lambda>m. received_message_from_state X m an sn) ds"
    using receive_success[OF assms(1) server_wf_ok[OF assms(2)] assms(3)] by blast
  let ?a = "receive_args E name mx vo [] [] (config s) q" and ?l = "map_option snd (dlq_target X name s)"
  have "filter (deliverable ?a ?l) (kept (now_rfc3339 (clock E 0)) q) = filter (\<lambda>m.
      \<not> before (now_rfc3339 (clock E 0)) (available_at m) \<and> \<not> before (now_rfc3339 (clock E 0)) (invisible_until m) \<and>
      \<not> overdue ?l m) (kept (now_rfc3339 (clock E 0)) q)"
    by (rule filter_cong) (auto simp: deliverable_def hidden_def kept_def retained_def)
  moreover have "map m_id ds = map m_id (take (nat mx) (filter (deliverable ?a ?l) (kept (now_rfc3339 (clock E 0)) q)))"
    using sweep_standard[OF _ sw[unfolded receive_sweep_def]] assms(4) by simp
  ultimately show ?thesis unfolding out received_ids by simp
qed


lemma list_all2_same_id:
  assumes "list_all2 (swept_to a l ds) ms qs" "distinct (map m_id ms)" "x \<in> set qs" "y \<in> set qs" "m_id x = m_id y"
  shows "x = y"
proof -
  have id: "m_id (qs ! i) = m_id (ms ! i)" if "i < length qs" for i
  proof -
    have "swept_to a l ds (ms ! i) (qs ! i)" using assms(1) that by (simp add: list_all2_conv_all_nth)
    then show ?thesis by (auto simp: swept_to_def)
  qed
  have len: "length qs = length ms" using assms(1) by (simp add: list_all2_conv_all_nth)
  have "map m_id qs = map m_id ms" using id len by (intro nth_equalityI) auto
  then show ?thesis using assms(2-5) by (metis distinct_map inj_onD)
qed

lemma sweep_delivered_not_redriven:
  assumes "sweep a l h src G n ms = (qs, ds, xs)" "distinct (map m_id ms)" "d \<in> set ds" "x \<in> set xs"
  shows "m_id d \<noteq> m_id x"
proof -
  from sweep_delivered[OF assms(1)] assms(3) obtain m h' where m: "m \<in> set ms" "\<not> overdue l m"
    "d = deliver h' (sa_now a) (sa_visibility a) m" by (fastforce simp: deliverable_def)
  from sweep_redriven[OF assms(1)] assms(4) obtain m' where m': "m' \<in> set ms" "overdue l m'"
    "x = dead_letter (sa_now a) src m'" by blast
  have "m_id m \<noteq> m_id m'" using m m' assms(2) by (auto simp: distinct_map dest: inj_onD)
  then show ?thesis using m(3) m'(3) by simp
qed



lemma max_receive_count_i64:
  assumes "parse_redrive_policy X raw = Inr p" shows "max_receive_count p \<le> i64_max"
proof -
  have "n \<le> i64_max" if "parse_i64 t = Some n" for t n
    using that by (auto simp: parse_signed_def Let_def split: if_splits prod.splits)
  then have "n \<le> i64_max" if "parse_max_receive_count v = Inr n" for v n
    using that by (auto simp: parse_max_receive_count_def or_else_def saturate_i64_def split: option.splits json.splits)
  with assms show ?thesis by (auto simp: parse_redrive_policy_def Let_def split: option.splits sum.splits if_splits)
qed

lemma dlq_target_limit: "dlq_target X name s = Some (d, k) \<Longrightarrow> 1 \<le> k \<and> k \<le> i64_max"
  by (auto simp: dlq_target_def redrive_policy_from_queue_def max_receive_count_i64
      split: option.splits if_splits sum.splits)

text \<open>A queue with a dead-letter queue never hands out a message more often than its \<open>maxReceiveCount\<close>: the
  receive count reported with every delivered message is at most that limit.\<close>

theorem delivered_within_max_receive_count:
  assumes "receive_available_messages X E name mx vo an sn s = (Inr out, s')" "server_wf s"
    and "map_of (queues s) name = Some q" "dlq_target X name s = Some (d, k)"
    and "list_all (\<lambda>m. 0 \<le> receive_count m) (messages q)" "r \<in> set out"
  shows "\<exists>c. map_of (rm_attributes r) ''ApproximateReceiveCount'' = Some (int_to_string c) \<and> 1 \<le> c \<and> c \<le> k"
proof -
  obtain qs ds xs where sw: "receive_sweep X E name mx vo s q = (qs, ds, xs)"
    and out: "out = map (\<lambda>m. received_message_from_state X m an sn) ds"
    using receive_success[OF assms(1) server_wf_ok[OF assms(2)] assms(3)] by blast
  then obtain x where x: "x \<in> set ds" "r = received_message_from_state X x an sn" using assms(6) by auto
  from sweep_delivered[OF sw[unfolded receive_sweep_def]] x(1) obtain m h where
    "m \<in> set (kept (now_rfc3339 (clock E 0)) q)" "\<not> overdue (Some k) m"
    "receive_count x = wrap_s 64 (receive_count m + 1)" using assms(4) by (fastforce simp: deliverable_def)
  then have "receive_count x = receive_count m + 1" "0 \<le> receive_count m" "receive_count m < k"
    using assms(5) dlq_target_limit[OF assms(4)] by (auto simp: overdue_def kept_def list_all_iff)
  moreover have "map_of (rm_attributes r) ''ApproximateReceiveCount'' = Some (int_to_string (receive_count x))"
    unfolding x(2) received_message_from_state_def by (simp add: Let_def bt_get_insert split: option.split)
  ultimately show ?thesis by auto
qed

text \<open>A receive that answers with an error changes nothing durable and takes no message: the file is as it was,
  and the queues are as before, except that the queue may have dropped its expired messages.\<close>

theorem failed_receive_takes_nothing:
  assumes "receive_available_messages X E name mx vo an sn s = (Inl e, s')" "server_wf s"
  shows "state_file s' = state_file s \<and>
    (queues s' = queues s \<or> queues s' = bt_modify name (cleanup_expired_messages (now_rfc3339 (clock E 0))) (queues s))"
proof (cases "map_of (queues s) name")
  case None
  then show ?thesis using assms(1) by (simp add: receive_available_messages_def bt_contains_def)
next
  case (Some q)
  obtain qs ds xs where "receive_sweep X E name mx vo s q = (qs, ds, xs)" by (metis prod_cases3)
  from assms(1) server_wf_ok[OF assms(2)] Some this show ?thesis by (cases rule: receive_outcomes) auto
qed

section \<open>Sample receives\<close>

definition sample_message :: "string \<Rightarrow> string \<Rightarrow> int \<Rightarrow> string \<Rightarrow> message_state" where
  "sample_message i g received hidden_until =
     \<lparr>m_id = i, m_body = ''hello'', body_md5 = [], m_attributes = [], system_attributes = [],
      sent_at = ''1970-01-01T00:00:00Z'', available_at = ''1970-01-01T00:00:00Z'', invisible_until = hidden_until,
      receive_count = received, first_receive_at = [], receipt_handle = [], deleted = False,
      message_group_id = g, deduplication_id = [], sequence_number = [], dead_letter_source_arn = []\<rparr>"

definition sample_queue :: "string \<Rightarrow> str_map \<Rightarrow> message_state list \<Rightarrow> queue_state" where
  "sample_queue n attrs ms =
     \<lparr>q_name = n, url = queue_url sample_config n, arn = queue_arn sample_config n, q_attributes = attrs, tags = [],
      created_at = ''1970-01-01T00:00:00Z'', modified_at = ''1970-01-01T00:00:00Z'', messages = ms, sequence = 0, dedup = []\<rparr>"

definition sample_server :: "(string \<times> queue_state) list \<Rightarrow> sqs_server" where
  "sample_server qs = (empty_server sample_config)\<lparr>queues := qs\<rparr>"

text \<open>A fresh message, one that has been received as often as allowed, and one in flight until 60 s.\<close>

definition orders_queue :: queue_state where
  "orders_queue = sample_queue ''orders'' [(''RedrivePolicy'', ''P''), (''VisibilityTimeout'', ''30'')]
     [sample_message ''a'' [] 0 [], sample_message ''b'' [] 2 [], sample_message ''c'' [] 1 ''1970-01-01T00:01:00Z'']"

definition orders_dlq :: queue_state where
  "orders_dlq = sample_queue ''orders-dlq'' [(''VisibilityTimeout'', ''30'')] []"

definition busy_shop :: sqs_server where
  "busy_shop = sample_server [(''orders'', orders_queue), (''orders-dlq'', orders_dlq)]"

lemma busy_shop_facts:
  "server_wf busy_shop" "map_of (queues busy_shop) ''orders'' = Some orders_queue"
  "map_of (queues busy_shop) ''orders-dlq'' = Some orders_dlq" "dlq_target shop_crates ''orders'' busy_shop = Some (''orders-dlq'', 2)"
  "\<not> is_fifo_queue orders_queue" "distinct (map m_id (messages orders_queue))"
  "list_all (\<lambda>m. 0 \<le> receive_count m) (messages orders_queue)"
  "effective_visibility (config busy_shop) None orders_queue = 30"
  by code_simp+

definition shop_receive :: "received_message list result \<times> sqs_server" where
  "shop_receive = receive_available_messages shop_crates (env_at t0) ''orders'' 10 None [] [] busy_shop"

lemma fst_pair: "fst p = a \<Longrightarrow> p = (a, snd p)"
  by (simp add: prod_eq_iff)

lemma shop_receive_ok:
  obtains out where "fst shop_receive = Inr out" "map rm_message_id out = [''a'']"
proof -
  have e: "map_sum id (map rm_message_id) (fst shop_receive) = Inr [''a'']" by code_simp
  then obtain out where "fst shop_receive = Inr out" by (cases "fst shop_receive") auto
  with e that show ?thesis by simp
qed

lemma t0_ok: "clock_ok (clock (env_at t0) 0)"
  by (simp add: env_at_clock clock_ok_def t0_def)

theorem receive_implements_sweep_witness:
  "\<exists>qs ds xs. receive_sweep shop_crates (env_at t0) ''orders'' 10 None busy_shop orders_queue = (qs, ds, xs) \<and>
     fst shop_receive = Inr (map (\<lambda>m. received_message_from_state shop_crates m [] []) ds)"
proof -
  obtain out where f: "fst shop_receive = Inr out" by (rule shop_receive_ok)
  note r = fst_pair[OF f]
  obtain qs ds xs where sw: "receive_sweep shop_crates (env_at t0) ''orders'' 10 None busy_shop orders_queue = (qs, ds, xs)"
    by (metis prod_cases3)
  from receive_implements_sweep[OF r[unfolded shop_receive_def] busy_shop_facts(1,2) sw] sw f show ?thesis
    by auto
qed

theorem standard_receive_oldest_first_witness:
  "\<exists>out. fst shop_receive = Inr out \<and> map rm_message_id out = map m_id (take (nat 10) (filter (\<lambda>m.
      \<not> before (now_rfc3339 (clock (env_at t0) 0)) (available_at m) \<and> \<not> before (now_rfc3339 (clock (env_at t0) 0)) (invisible_until m) \<and>
      \<not> overdue (map_option snd (dlq_target shop_crates ''orders'' busy_shop)) m) (kept (now_rfc3339 (clock (env_at t0) 0)) orders_queue)))"
proof -
  obtain out where f: "fst shop_receive = Inr out" by (rule shop_receive_ok)
  note r = fst_pair[OF f]
  from standard_receive_oldest_first[OF r[unfolded shop_receive_def] busy_shop_facts(1,2,5)] f show ?thesis
    by auto
qed



theorem delivered_within_max_receive_count_witness:
  "\<exists>out c. fst shop_receive = Inr out \<and>
     map_of (rm_attributes (hd out)) ''ApproximateReceiveCount'' = Some (int_to_string c) \<and> 1 \<le> c \<and> c \<le> 2"
proof -
  obtain out where fo: "fst shop_receive = Inr out" and ids: "map rm_message_id out = [''a'']" by (rule shop_receive_ok)
  note r = fst_pair[OF fo]
  have "hd out \<in> set out" using ids by (cases out) auto
  from delivered_within_max_receive_count[OF r[unfolded shop_receive_def] busy_shop_facts(1,2,4,7) this]
  obtain c where "map_of (rm_attributes (hd out)) ''ApproximateReceiveCount'' = Some (int_to_string c)" "1 \<le> c" "c \<le> 2"
    by blast
  moreover note fo
  ultimately show ?thesis by (intro exI[of _ out] exI[of _ c] conjI)
qed

theorem failed_receive_takes_nothing_witness:
  "state_file (snd (receive_available_messages shop_crates (env_at t0\<lparr>fs := disk_full\<rparr>) ''orders'' 10 None [] [] busy_shop)) =
     state_file busy_shop"
proof -
  let ?r = "receive_available_messages shop_crates (env_at t0\<lparr>fs := disk_full\<rparr>) ''orders'' 10 None [] [] busy_shop"
  have "fst ?r = Inl ''no space left on device''" by code_simp
  then have "?r = (Inl ''no space left on device'', snd ?r)" by (simp add: prod_eq_iff)
  from failed_receive_takes_nothing[OF this busy_shop_facts(1)] show ?thesis by blast
qed

definition jobs_queue :: queue_state where
  "jobs_queue = sample_queue ''jobs.fifo'' [(''FifoQueue'', ''true''), (''VisibilityTimeout'', ''30'')]
     [sample_message ''a1'' ''a'' 1 ''1970-01-01T00:01:00Z'', sample_message ''a2'' ''a'' 0 [], sample_message ''b1'' ''b'' 0 [],
      sample_message ''b2'' ''b'' 0 []]"

definition busy_jobs :: sqs_server where
  "busy_jobs = sample_server [(''jobs.fifo'', jobs_queue)]"


end
