(* ===== verification/Sqs_Receipts.thy ===== *)
theory Sqs_Receipts
  imports Sqs_Delivery
begin

text \<open>
  What receipt handles do: deleting and changing visibility, alone and in batches, with the roll-back of a
  batch whose single write fails; the uniqueness of opaque ids; the bounds of the long poll; and that every
  message operation keeps a server well formed.
\<close>

section \<open>Staged mutations\<close>

text \<open>Undoing a change of one message.\<close>

lemma update_message_undo:
  "i < length (messages q) \<Longrightarrow> update_message i (\<lambda>_. messages q ! i) (update_message i f q) = q"
  by (simp add: update_message_def)

lemma modify_message_undo:
  assumes "bt_ok (queues s)" "map_of (queues s) n = Some q" "i < length (messages q)"
  shows "modify_queue n (update_message i (\<lambda>_. messages q ! i)) (modify_queue n (update_message i f) s) = s"
  using assms by (simp add: modify_queue_same update_message_undo)

lemma stage_outcomes:
  assumes "stage_receipted_mutation E n handle mutate s = (r, s')" "map_of (queues s) n = Some q"
  obtains (rejected) e where "r = Rejected e" "s' = s"
    | (expired) i where "handle \<noteq> []" "i < length (messages q)" "\<not> deleted (messages q ! i)" "receipt_handle (messages q ! i) = handle"
        "\<not> before (now_rfc3339 (clock E 0)) (invisible_until (messages q ! i))"
        "r = Applied i (messages q ! i) (Some ''receipt handle is invalid'')"
        "s' = modify_queue n (update_message i (\<lambda>m. m\<lparr>receipt_handle := []\<rparr>)) s"
    | (applied) i where "handle \<noteq> []" "i < length (messages q)" "\<not> deleted (messages q ! i)" "receipt_handle (messages q ! i) = handle"
        "before (now_rfc3339 (clock E 0)) (invisible_until (messages q ! i))"
        "r = Applied i (messages q ! i) None"
        "s' = modify_queue n (update_message i (\<lambda>m. mutate m (now_rfc3339 (clock E 0)))) s"
proof (cases "handle = []")
  case True
  then show ?thesis using assms(1) by (intro rejected) (auto simp: stage_receipted_mutation_def)
next
  case False
  note nonempty = False
  show ?thesis
  proof (cases "position (\<lambda>m. \<not> deleted m \<and> receipt_handle m = handle) (messages q)")
    case None
    then show ?thesis using assms False by (intro rejected) (auto simp: stage_receipted_mutation_def Let_def)
  next
    case (Some i)
    then have i: "i < length (messages q)" "\<not> deleted (messages q ! i)" "receipt_handle (messages q ! i) = handle"
      by (auto dest: position_Some)
    show ?thesis
    proof (cases "before (now_rfc3339 (clock E 0)) (invisible_until (messages q ! i))")
      case True
      then show ?thesis using assms Some nonempty i
        by (intro applied[of i]) (auto simp: stage_receipted_mutation_def Let_def)
    next
      case False
      then show ?thesis using assms Some nonempty i
        by (intro expired[of i]) (auto simp: stage_receipted_mutation_def Let_def)
    qed
  qed
qed

lemma stage_undo:
  assumes "stage_receipted_mutation E n handle mutate s = (Applied i p pend, s')" "map_of (queues s) n = Some q" "bt_ok (queues s)"
  shows "modify_queue n (update_message i (\<lambda>_. p)) s' = s" "map_of (queues s') n \<noteq> None" "bt_ok (queues s')"
  using assms(1,2)
  by (cases rule: stage_outcomes; use assms(2,3) in \<open>auto simp: modify_message_undo simp del: modify_modify\<close>)+

text \<open>The result of a single receipted mutation on every branch.\<close>

lemma apply_outcomes:
  assumes "apply_to_receipted_message E n handle mutate s = (r, s')" "map_of (queues s) n = Some q" "bt_ok (queues s)"
  obtains (unchanged) e where "r = Inl e" "s' = s"
    | (expired) i where "r = Inl ''receipt handle is invalid''" "i < length (messages q)" "\<not> deleted (messages q ! i)" "receipt_handle (messages q ! i) = handle"
        "\<not> before (now_rfc3339 (clock E 0)) (invisible_until (messages q ! i))"
        "queues s' = bt_insert n (update_message i (\<lambda>m. m\<lparr>receipt_handle := []\<rparr>) q) (queues s)"
        "config s' = config s" "move_tasks s' = move_tasks s"
    | (applied) i where "r = Inr ()" "i < length (messages q)" "\<not> deleted (messages q ! i)" "receipt_handle (messages q ! i) = handle"
        "before (now_rfc3339 (clock E 0)) (invisible_until (messages q ! i))"
        "queues s' = bt_insert n (update_message i (\<lambda>m. mutate m (now_rfc3339 (clock E 0))) q) (queues s)"
        "config s' = config s" "move_tasks s' = move_tasks s"
proof -
  obtain st s1 where st: "stage_receipted_mutation E n handle mutate s = (st, s1)" by fastforce
  obtain pr s2 where p: "persist (fs E) s1 = (pr, s2)" by fastforce
  note A = assms(1)[unfolded apply_to_receipted_message_def st]
  show ?thesis
  proof (cases pr)
    case (Inl e)
    from st assms(2) show ?thesis
    proof (cases rule: stage_outcomes)
      case rejected
      then show ?thesis using A by (intro unchanged) auto
    qed (use A p Inl disk.save_fail[OF p[unfolded Inl]] modify_message_undo[OF assms(3,2)] in
        \<open>auto intro!: unchanged simp del: modify_modify\<close>)
  next
    case (Inr u)
    from st assms(2) show ?thesis
    proof (cases rule: stage_outcomes)
      case rejected
      then show ?thesis using A by (intro unchanged) auto
    next
      case (expired i)
      then show ?thesis
        using A p Inr assms(2,3) by (intro that(2)[of i]) (auto simp: persist_keeps bt_modify_insert)
    next
      case (applied i)
      then show ?thesis
        using A p Inr assms(2,3) by (intro that(3)[of i]) (auto simp: persist_keeps bt_modify_insert)
    qed
  qed
qed

section \<open>Deleting\<close>

lemma live_ids_append [simp]: "live_ids (xs @ ys) = live_ids xs + live_ids ys"
  by (simp add: live_ids_def)

lemma live_ids_Cons: "live_ids (m # ms) = (if deleted m then {#} else {#m_id m#}) + live_ids ms"
  by (simp add: live_ids_def)

lemma live_ids_tombstone:
  assumes "i < length ms" "\<not> deleted (ms ! i)"
  shows "live_ids (ms[i := tombstone (ms ! i)]) + {#m_id (ms ! i)#} = live_ids ms"
proof -
  have "live_ids ms = live_ids (take i ms @ ms ! i # drop (Suc i) ms)" using assms(1) by (simp add: id_take_nth_drop[symmetric])
  then show ?thesis using assms by (simp add: upd_conv_take_nth_drop live_ids_Cons)
qed

text \<open>A successful delete removes exactly one message, the live one that the receipt handle was issued for,
  while its visibility period lasts: its id disappears from the live messages of the queue, every
  other message and every other queue is untouched.\<close>

theorem delete_message_removes_one:
  assumes "delete_message E u handle s = (Inr (), s')" "server_wf s"
  shows "\<exists>q i. map_of (queues s) (queue_name_from_url u) = Some q \<and> i < length (messages q) \<and>
    \<not> deleted (messages q ! i) \<and> receipt_handle (messages q ! i) = handle \<and>
    before (now_rfc3339 (clock E 0)) (invisible_until (messages q ! i)) \<and>
    queues s' = bt_insert (queue_name_from_url u) (q\<lparr>messages := (messages q)[i := tombstone (messages q ! i)]\<rparr>) (queues s) \<and>
    live_ids ((messages q)[i := tombstone (messages q ! i)]) + {#m_id (messages q ! i)#} = live_ids (messages q)"
proof -
  have ex: "queue_exists (queue_name_from_url u) s"
    and A: "apply_to_receipted_message E (queue_name_from_url u) handle delete_mutation s = (Inr (), s')"
    using assms(1) by (auto simp: delete_message_def Let_def split: if_splits)
  from ex obtain q where q: "map_of (queues s) (queue_name_from_url u) = Some q" by (rule queue_existsE)
  from A q server_wf_ok[OF assms(2)] show ?thesis
  proof (cases rule: apply_outcomes)
    case (applied i)
    then show ?thesis
      using q live_ids_tombstone[OF applied(2,3)]
      by (intro exI[of _ q] exI[of _ i]) (simp add: update_message_def delete_mutation_def)
  qed auto
qed

text \<open>A refused delete removes nothing. Only a handle whose visibility period is over changes the queue: the
  handle is cleared, and the message stays.\<close>

theorem refused_delete_removes_nothing:
  assumes "delete_message E u handle s = (Inl e, s')" "server_wf s" "map_of (queues s) (queue_name_from_url u) = Some q"
  shows "s' = s \<or>
    (\<exists>i. i < length (messages q) \<and> receipt_handle (messages q ! i) = handle \<and>
      \<not> before (now_rfc3339 (clock E 0)) (invisible_until (messages q ! i)) \<and> e = ''receipt handle is invalid'' \<and>
      queues s' = bt_insert (queue_name_from_url u)
        (q\<lparr>messages := (messages q)[i := (messages q ! i)\<lparr>receipt_handle := []\<rparr>]\<rparr>) (queues s))"
proof (cases "apply_to_receipted_message E (queue_name_from_url u) handle delete_mutation s = (Inl e, s')")
  case True
  from this assms(3) server_wf_ok[OF assms(2)] show ?thesis
    by (cases rule: apply_outcomes) (auto simp: update_message_def)
next
  case False
  then show ?thesis using assms(1) by (auto simp: delete_message_def Let_def split: if_splits)
qed

text \<open>A handle given out by a receive finds its message: the handles are new to the queue and distinct.\<close>

lemma delivered_position:
  assumes "sweep a l h src G n ms = (qs, ds, xs)" "d \<in> set ds" "handle = receipt_handle d" "handle \<noteq> []"
    and "distinct (map receipt_handle ds)" "\<And>m. m \<in> set ms \<Longrightarrow> receipt_handle m \<noteq> handle"
    and "ys = [] \<or> ys = xs" "\<not> deleted d"
  shows "\<exists>i. position (\<lambda>m. \<not> deleted m \<and> receipt_handle m = handle) (qs @ ys) = Some i \<and> (qs @ ys) ! i = d"
proof -
  have qs: "x = d" if prem: "x \<in> set qs" "\<not> deleted x" "receipt_handle x = handle" for x
  proof -
    obtain k where k: "k < length qs" "x = qs ! k" using prem(1) by (auto simp: in_set_conv_nth)
    then have "swept_to a l ds (ms ! k) x" "ms ! k \<in> set ms"
      using sweep_messages[OF assms(1)] by (simp_all add: list_all2_conv_all_nth)
    moreover have "\<not> deleted (tombstone m) \<Longrightarrow> False" for m by simp
    ultimately have "x \<in> set ds" using that(2,3) assms(6)[of "ms ! k"] unfolding swept_to_def by blast
    with assms(2,3,5) that(3) show ?thesis by (auto simp: distinct_map dest: inj_onD)
  qed
  moreover have "receipt_handle x = []" if "x \<in> set xs" for x
    using sweep_redriven[OF assms(1)] that by (auto simp: dead_letter_def)
  ultimately have only: "x = d" if "x \<in> set (qs @ ys)" "\<not> deleted x" "receipt_handle x = handle" for x
    using that assms(4,7) by auto
  have "d \<in> set (qs @ ys)" using sweep_delivered[OF assms(1)] assms(2) by auto
  then obtain i where i: "position (\<lambda>m. \<not> deleted m \<and> receipt_handle m = handle) (qs @ ys) = Some i"
    using assms(3,8) by (cases "position (\<lambda>m. \<not> deleted m \<and> receipt_handle m = handle) (qs @ ys)") (auto simp: position_None)
  then show ?thesis using only position_Some[OF i] nth_mem by metis
qed


section \<open>Visibility\<close>

text \<open>A successful \<open>ChangeMessageVisibility\<close> hides exactly the addressed message until \<open>v\<close> seconds from now: at a
  later time \<open>t'\<close> it is hidden just when \<open>t' < t + v\<close>; in particular \<open>v = 0\<close> makes it receivable at once.\<close>

theorem change_visibility_sets_deadline:
  assumes "change_message_visibility E u handle v s = (Inr (), s')" "server_wf s" "clock_ok (clock E 0)" "clock_ok t'"
  shows "\<exists>q i. map_of (queues s) (queue_name_from_url u) = Some q \<and> i < length (messages q) \<and>
    receipt_handle (messages q ! i) = handle \<and>
    queues s' = bt_insert (queue_name_from_url u)
      (q\<lparr>messages := (messages q)[i := (messages q ! i)\<lparr>invisible_until := add_seconds (now_rfc3339 (clock E 0)) v\<rparr>]\<rparr>) (queues s) \<and>
    (before (now_rfc3339 t') (add_seconds (now_rfc3339 (clock E 0)) v) \<longleftrightarrow> int t' < int (clock E 0) + v * 10 ^ 9)"
proof -
  have ex: "queue_exists (queue_name_from_url u) s" and v: "0 \<le> v" "v \<le> MAX_VISIBILITY_TIMEOUT_SECONDS"
    and A: "apply_to_receipted_message E (queue_name_from_url u) handle (visibility_mutation v) s = (Inr (), s')"
    using assms(1) by (auto simp: change_message_visibility_def Let_def split: if_splits)
  from ex obtain q where q: "map_of (queues s) (queue_name_from_url u) = Some q" by (rule queue_existsE)
  have "before (now_rfc3339 t') (add_seconds (now_rfc3339 (clock E 0)) v) \<longleftrightarrow> int t' < int (clock E 0) + v * 10 ^ 9"
    using v assms(3,4) by (intro rfc.earlier_plus) (simp_all add: MAX_VISIBILITY_TIMEOUT_SECONDS_def)
  with A q server_wf_ok[OF assms(2)] show ?thesis
  proof (cases rule: apply_outcomes)
    case (applied i)
    then show ?thesis
      using q \<open>before _ _ \<longleftrightarrow> _\<close>
      by (intro exI[of _ q] exI[of _ i]) (simp add: update_message_def visibility_mutation_def)
  qed auto
qed

section \<open>Batches\<close>

lemma check_batch_ids_iff:
  "check_batch_ids seen ids = Inr () \<longleftrightarrow> list_all valid_batch_entry_id ids \<and> distinct ids \<and> set ids \<inter> set seen = {}"
proof (induction ids arbitrary: seen)
  case (Cons i ids)
  have "\<not> valid_batch_entry_id []" by code_simp
  with Cons show ?case by auto
qed simp

lemma valid_batch_entry_id_iff:
  "valid_batch_entry_id i \<longleftrightarrow> list_all id_char i \<and> 1 \<le> length i \<and> length i \<le> 80"
  using id_chars_length[of i] unfolding valid_batch_entry_id_def Let_def id_chars_bytes by linarith

text \<open>A batch is accepted exactly when it has one to ten entries with pairwise different ids, each of one to 80
  letters, digits, hyphens and underscores.\<close>

theorem validate_batch_entries_iff:
  "validate_batch_entries ids = Inr () \<longleftrightarrow>
     1 \<le> length ids \<and> length ids \<le> 10 \<and> distinct ids \<and>
     (\<forall>i. i \<in> set ids \<longrightarrow> list_all id_char i \<and> 1 \<le> length i \<and> length i \<le> 80)"
  by (cases ids) (auto simp: validate_batch_entries_def check_batch_ids_iff valid_batch_entry_id_iff list_all_iff
      simp del: check_batch_ids.simps)

text \<open>What staging keeps: undoing the staged entries, last first, gives back the server.\<close>

definition undo_all :: "string \<Rightarrow> staged_batch_entry list \<Rightarrow> sqs_server \<Rightarrow> sqs_server" where
  "undo_all n staged s = fold (undo_entry n) (rev staged) s"

lemma undo_all_snoc: "undo_all n (staged @ [e]) s = undo_all n staged (undo_entry n e s)"
  by (simp add: undo_all_def)

lemma stage_entries_undo:
  assumes "stage_entries Es n eid check handle mutate j es (r, staged, s) = (r', staged', s')" "bt_ok (queues s)"
  shows "undo_all n staged' s' = undo_all n staged s"
  using assms
proof (induction es arbitrary: j r staged s)
  case (Cons e es)
  show ?case
  proof (cases "check e = None \<and> queue_exists n s")
    case True
    then obtain q where q: "map_of (queues s) n = Some q" by (auto elim: queue_existsE)
    obtain st s1 where st: "stage_receipted_mutation (Es j) n (handle e) (mutate e) s = (st, s1)" by fastforce
    show ?thesis
    proof (cases st)
      case (Rejected err)
      from st q have "s1 = s" by (cases rule: stage_outcomes) (use Rejected in auto)
      then show ?thesis using Cons True st Rejected by simp
    next
      case (Applied i p pend)
      note U = stage_undo[OF st[unfolded Applied] q Cons.prems(2)]
      have "undo_all n staged' s' = undo_all n (staged @ [(eid e, i, p, pend)]) s1"
        using Cons.prems(1) True st Applied by (intro Cons.IH[OF _ U(3)]) simp
      then show ?thesis using U(1) by (simp add: undo_all_snoc undo_entry_def)
    qed
  next
    case False
    then show ?thesis using Cons by (auto split: option.splits)
  qed
qed (simp add: undo_all_def)

text \<open>The ids reported, in either list.\<close>

definition reported :: "batch_result \<Rightarrow> string multiset" where
  "reported r = mset (br_successful r) + mset (map be_id (br_failed r))"

lemma reported_simps [simp]:
  "reported (fail_entry i e r) = add_mset i (reported r)" "reported (succeed_entry i r) = add_mset i (reported r)"
  "reported (resolve_entry st r) = add_mset (fst st) (reported r)"
  by (auto simp: reported_def fail_entry_def succeed_entry_def resolve_entry_def batch_error_def split: prod.splits option.splits)

lemma stage_entries_reported:
  "stage_entries Es n eid check handle mutate j es (r, staged, s) = (r', staged', s') \<Longrightarrow>
   reported r' + mset (map fst staged') = reported r + mset (map fst staged) + mset (map eid es)"
proof (induction es arbitrary: j r staged s)
  case (Cons e es)
  then show ?case by (fastforce split: if_splits option.splits prod.splits staged_mutation.splits)
qed simp

lemma apply_staged_reported:
  "apply_staged_batch E n staged r s = (r', s') \<Longrightarrow> reported r' = reported r + mset (map fst staged)"
proof -
  have 1: "reported (fold resolve_entry st r) = reported r + mset (map fst st)" for st r
    by (induction st arbitrary: r) auto
  have 2: "reported (fold (\<lambda>(i, _, _, _). fail_entry i e) st r) = reported r + mset (map fst st)" for st r e
    by (induction st arbitrary: r) (auto split: prod.splits)
  show "apply_staged_batch E n staged r s = (r', s') \<Longrightarrow> reported r' = reported r + mset (map fst staged)"
    by (auto simp: apply_staged_batch_def 1 2 split: if_splits prod.splits sum.splits)
qed

text \<open>A batch delete answers for every entry exactly once, either as successful or as failed.\<close>

theorem delete_batch_reports_every_entry:
  assumes "delete_message_batch Es u entries s = (Inr r, s')"
  shows "mset (br_successful r) + mset (map be_id (br_failed r)) = mset (map de_id entries)"
proof -
  obtain r1 staged s1 where st: "stage_entries Es (queue_name_from_url u) de_id check_delete_entry de_receipt_handle
      (\<lambda>_. delete_mutation) 0 entries (\<lparr>br_successful = [], br_failed = []\<rparr>, [], s) = (r1, staged, s1)"
    by (metis prod_cases3)
  obtain r2 s2 where ap: "apply_staged_batch (Es (length entries)) (queue_name_from_url u) staged r1 s1 = (r2, s2)" by fastforce
  have "r = r2" using assms by (auto simp: delete_message_batch_def Let_def st ap split: if_splits sum.splits)
  then show ?thesis
    using stage_entries_reported[OF st] apply_staged_reported[OF ap] by (simp add: reported_def)
qed

text \<open>A disk on which some step of \<open>persist\<close> fails.\<close>

definition disk_fails :: "fs_outcome \<Rightarrow> bool" where
  "disk_fails io \<longleftrightarrow> create_dir_err io \<noteq> None \<or> write_err io \<noteq> None \<or> rename_err io \<noteq> None"

lemma persist_fails:
  "disk_fails io \<Longrightarrow> trim (storage_path (config s)) \<noteq> [] \<Longrightarrow> \<exists>e. persist io s = (Inl e, s)"
  by (auto simp: disk_fails_def persist_def split: option.splits)

lemma stage_config: "stage_receipted_mutation E n handle mutate s = (r, s') \<Longrightarrow> config s' = config s"
  by (auto simp: stage_receipted_mutation_def Let_def split: if_splits option.splits)

lemma stage_entries_config:
  "stage_entries Es n eid check handle mutate j es (r, staged, s) = (r', staged', s') \<Longrightarrow> config s' = config s"
proof (induction es arbitrary: j r staged s)
  case (Cons e es)
  then show ?case by (fastforce dest: stage_config split: if_splits option.splits prod.splits staged_mutation.splits)
qed simp

lemma apply_staged_failed:
  assumes "apply_staged_batch E n staged r s = (r', s')" "disk_fails (fs E)" "trim (storage_path (config s)) \<noteq> []"
  shows "s' = undo_all n staged s \<and> br_successful r' = br_successful r"
proof -
  have f: "br_successful (fold (\<lambda>(i, _, _, _). fail_entry i e) st r) = br_successful r" for st r e
    by (induction st arbitrary: r) (auto simp: fail_entry_def split: prod.splits)
  obtain e where p: "persist (fs E) s = (Inl e, s)" using persist_fails[OF assms(2,3)] by blast
  with assms(1) f show ?thesis
    by (auto simp: apply_staged_batch_def undo_all_def split: if_splits)
qed

text \<open>A batch delete whose write fails is undone completely: no entry is reported as deleted and the server is as
  it was, also when entries of the batch name the same message twice.\<close>

theorem failed_delete_batch_undone:
  assumes "delete_message_batch Es u entries s = (Inr r, s')" "server_wf s"
    and "disk_fails (fs (Es (length entries)))" "trim (storage_path (config s)) \<noteq> []"
  shows "s' = s \<and> br_successful r = []"
proof -
  obtain r1 staged s1 where st: "stage_entries Es (queue_name_from_url u) de_id check_delete_entry de_receipt_handle
      (\<lambda>_. delete_mutation) 0 entries (\<lparr>br_successful = [], br_failed = []\<rparr>, [], s) = (r1, staged, s1)"
    by (metis prod_cases3)
  obtain r2 s2 where ap: "apply_staged_batch (Es (length entries)) (queue_name_from_url u) staged r1 s1 = (r2, s2)" by fastforce
  have r: "r = r2" "s' = s2" using assms(1) by (auto simp: delete_message_batch_def Let_def st ap split: if_splits sum.splits)
  have "br_successful r1 = []"
  proof -
    have "br_successful r' = br_successful r" if "stage_entries Es n eid check handle mutate j es (r, stg, s) = (r', stg', s')"
      for n eid check handle mutate j r r' stg stg' s s' and es :: "delete_message_batch_entry list"
      using that
      by (induction es arbitrary: j r stg s) (fastforce simp: fail_entry_def split: if_splits option.splits prod.splits staged_mutation.splits)+
    from this[OF st] show ?thesis by simp
  qed
  then show ?thesis
    using apply_staged_failed[OF ap assms(3)] assms(4) stage_entries_config[OF st] stage_entries_undo[OF st server_wf_ok[OF assms(2)]] r by (simp add: undo_all_def)
qed

section \<open>Opaque ids\<close>

text \<open>Ids and receipt handles do not collide: from mid-2006 until 2554 two ids with the same prefix are
  equal only if they were made with the same counter value at the same nanosecond, so as long as the
  64-bit counter has not wrapped every id of a process is new.\<close>

theorem new_opaque_id_unique:
  assumes "2 ^ 60 \<le> t" "t < 2 ^ 64" "2 ^ 60 \<le> t'" "t' < 2 ^ 64"
    and "new_opaque_id prefix t n = new_opaque_id prefix t' n'"
  shows "t = t' \<and> n = n'"
proof -
  have "length (hex t) = Suc 15" "length (hex t') = Suc 15"
    using assms(1-4) by (intro length_hex; simp)+
  moreover have "hex t @ hex (unat n) = hex t' @ hex (unat n')" using assms(5) by (simp add: new_opaque_id_def)
  ultimately have "hex t = hex t' \<and> hex (unat n) = hex (unat n')" by simp
  then show ?thesis by (simp add: word_unat_eq_iff)
qed

theorem new_opaque_id_unique_witness:
  "new_opaque_id ''msg'' (2 ^ 60) 1 \<noteq> new_opaque_id ''msg'' (2 ^ 60 + 1) 0"
  using new_opaque_id_unique[of "2 ^ 60" "2 ^ 60 + 1" "''msg''" 1 0] by auto

section \<open>The long poll\<close>

lemma sweep_length:
  assumes "receive_available_messages X E name mx vo an sn s = (Inr out, s')" "bt_ok (queues s)"
  shows "int (length out) \<le> max 0 mx"
proof -
  obtain q where q: "map_of (queues s) name = Some q" using receive_queue_exists[OF assms(1)] by blast
  obtain qs ds xs where sw: "receive_sweep X E name mx vo s q = (qs, ds, xs)"
    and out: "out = map (\<lambda>m. received_message_from_state X m an sn) ds" by (rule receive_success[OF assms q])
  show ?thesis using sweep_room[OF sw[unfolded receive_sweep_def]] by (simp add: out)
qed

lemma receive_keeps:
  assumes "receive_available_messages X E name mx vo an sn s = (r, s')" "bt_ok (queues s)"
  shows "bt_ok (queues s') \<and> config s' = config s \<and> move_tasks s' = move_tasks s"
proof (cases "map_of (queues s) name")
  case None
  then show ?thesis using assms by (simp add: receive_available_messages_def bt_contains_def)
next
  case (Some q)
  obtain qs ds xs where "receive_sweep X E name mx vo s q = (qs, ds, xs)" by (metis prod_cases3)
  from assms(1,2) Some this show ?thesis
    by (cases rule: receive_outcomes) (use assms(2) in \<open>auto simp: after_receive_def\<close>)
qed

definition receive_limit :: "sqs_config \<Rightarrow> receive_message_request \<Rightarrow> int" where
  "receive_limit c input =
     min (max_receive_batch_size c) (max 1 (case rr_max_number_of_messages input of Some n \<Rightarrow> n | None \<Rightarrow> 1))"

lemma max_receive_batch_size_range: "1 \<le> max_receive_batch_size c \<and> max_receive_batch_size c \<le> 10"
  by (simp add: max_receive_batch_size_def Let_def)

lemma receive_once_success:
  assumes "receive_messages_once X E input pinned s = (Inr (out, wait, identity), s')" "bt_ok (queues s)"
  shows "int (length out) \<le> receive_limit (config s) input \<and> 0 \<le> wait \<and> wait \<le> 20 \<and>
    bt_ok (queues s') \<and> config s' = config s"
proof -
  let ?n = "queue_name_from_url (rr_queue_url input)"
  obtain mx where R: "receive_available_messages X E ?n mx (rr_visibility_timeout input) (rr_message_attribute_names input)
      (requested_system_attribute_names input) s = (Inr out, s')" and mx: "mx = receive_limit (config s) input" and w: "0 \<le> wait" "wait \<le> 20"
    using assms(1) max_receive_batch_size_range[of "config s"]
    by (auto simp: receive_messages_once_def Let_def receive_limit_def split: if_splits option.splits prod.splits sum.splits)
  have "1 \<le> mx" using max_receive_batch_size_range[of "config s"] by (simp add: mx receive_limit_def)
  then show ?thesis using sweep_length[OF R assms(2)] receive_keeps[OF R assms(2)] w by (simp add: mx)
qed

lemma poll_loop_limit:
  "poll_loop X Es input identity j left s = (Inr out, s') \<Longrightarrow> bt_ok (queues s) \<Longrightarrow>
   int (length out) \<le> receive_limit (config s) input"
proof (induction left arbitrary: j s)
  case 0
  then show ?case using max_receive_batch_size_range[of "config s"] by (auto simp: receive_limit_def)
next
  case (Suc left)
  obtain r s1 where once: "receive_messages_once X (Es j) input (Some identity) s = (r, s1)" by fastforce
  show ?case
  proof (cases r)
    case (Inl e)
    then show ?thesis using Suc.prems(1) once by simp
  next
    case (Inr t)
    then obtain msgs w i where t: "r = Inr (msgs, w, i)" by (cases t) auto
    note O = receive_once_success[OF once[unfolded t] Suc.prems(2)]
    show ?thesis
      using Suc.prems(1) Suc.IH[of "Suc j" s1] once t O by (auto split: if_splits)
  qed
qed

text \<open>A receive, long poll included, returns at most ten messages and at most as many as the request asks for
  (one when it does not say, or asks for less than one).\<close>

theorem receive_messages_bounded:
  assumes "receive_messages X Es input s = (Inr out, s')" "server_wf s"
  shows "length out \<le> 10 \<and>
    int (length out) \<le> max 1 (case rr_max_number_of_messages input of Some n \<Rightarrow> n | None \<Rightarrow> 1)"
proof -
  obtain r s1 where once: "receive_messages_once X (Es 0) input None s = (r, s1)" by fastforce
  then obtain msgs w i where r: "r = Inr (msgs, w, i)"
    using assms(1) by (cases r) (auto simp: receive_messages_def)
  note O = receive_once_success[OF once[unfolded r] server_wf_ok[OF assms(2)]]
  have "int (length out) \<le> receive_limit (config s) input"
    using assms(1) O poll_loop_limit[of X Es input i 1 _ s1 out s'] once r
    by (auto simp: receive_messages_def Let_def split: if_splits)
  then show ?thesis using max_receive_batch_size_range[of "config s"] by (simp add: receive_limit_def)
qed

section \<open>Well-formedness\<close>

lemma queue_wf_messages: "queue_wf c n q \<Longrightarrow> queue_wf c n (q\<lparr>messages := ms\<rparr>)"
  by (simp add: queue_wf_def)

lemma queue_wf_update: "queue_wf c n q \<Longrightarrow> queue_wf c n (update_message i f q)"
  by (simp add: update_message_def queue_wf_messages)

lemma server_wf_send_to_dlq: "server_wf s \<Longrightarrow> server_wf (send_to_dlq tgt xs s)"
  by (auto simp: send_to_dlq_def append_messages_def queue_wf_messages intro!: server_wf_modify split: option.splits)

lemma receive_available_wf:
  assumes "receive_available_messages X E name mx vo an sn s = (r, s')" "server_wf s"
  shows "server_wf s'"
proof (cases "map_of (queues s) name")
  case None
  then show ?thesis using assms by (simp add: receive_available_messages_def bt_contains_def)
next
  case (Some q)
  obtain qs ds xs where sw: "receive_sweep X E name mx vo s q = (qs, ds, xs)" by (metis prod_cases3)
  have K: "config s' = config s" "move_tasks s' = move_tasks s" using receive_keeps[OF assms(1)] assms(2) by simp_all
  let ?t = "send_to_dlq (dlq_target X name s) xs
       (modify_queue name (\<lambda>q. (cleanup_expired_messages (now_rfc3339 (clock E 0)) q)\<lparr>messages := qs\<rparr>) s)"
  have "server_wf ?t"
    using assms(2) by (intro server_wf_send_to_dlq server_wf_modify queue_wf_messages queue_wf_cleanup)
  moreover from assms(1) server_wf_ok[OF assms(2)] Some sw
  have "queues s' = queues s \<or> queues s' = queues (modify_queue name (cleanup_expired_messages (now_rfc3339 (clock E 0))) s) \<or> queues s' = queues ?t"
    by (cases rule: receive_outcomes) (auto simp: after_receive_def)
  moreover have "server_wf (modify_queue name (cleanup_expired_messages (now_rfc3339 (clock E 0))) s)"
    using assms(2) by (intro server_wf_modify queue_wf_cleanup)
  ultimately show ?thesis using K assms(2) server_wf_cong[of s' s] server_wf_cong[of s' ?t]
      server_wf_cong[of s' "modify_queue name (cleanup_expired_messages (now_rfc3339 (clock E 0))) s"] by auto
qed

lemma receive_once_wf:
  "receive_messages_once X E input pinned s = (r, s') \<Longrightarrow> server_wf s \<Longrightarrow> server_wf s'"
  by (auto simp: receive_messages_once_def Let_def dest: receive_available_wf split: if_splits option.splits prod.splits sum.splits)

lemma poll_loop_wf: "poll_loop X Es input identity j left s = (r, s') \<Longrightarrow> server_wf s \<Longrightarrow> server_wf s'"
  by (induction left arbitrary: j s) (auto dest: receive_once_wf split: prod.splits sum.splits if_splits)

lemma receive_messages_wf: "receive_messages X Es input s = (r, s') \<Longrightarrow> server_wf s \<Longrightarrow> server_wf s'"
  by (auto simp: receive_messages_def Let_def dest: receive_once_wf poll_loop_wf split: prod.splits sum.splits if_splits)

lemma modify_message_wf: "server_wf s \<Longrightarrow> server_wf (modify_queue n (update_message i f) s)"
  by (intro server_wf_modify queue_wf_update)

lemma stage_wf: "stage_receipted_mutation E n handle mutate s = (r, s') \<Longrightarrow> server_wf s \<Longrightarrow> server_wf s'"
  by (auto simp: stage_receipted_mutation_def Let_def intro: modify_message_wf split: if_splits option.splits)

lemma apply_receipted_wf:
  "apply_to_receipted_message E n handle mutate s = (r, s') \<Longrightarrow> server_wf s \<Longrightarrow> server_wf s'"
  by (auto simp: apply_to_receipted_message_def server_wf_persist intro!: modify_message_wf dest!: stage_wf disk.save_fail
      split: prod.splits sum.splits option.splits staged_mutation.splits)

lemma delete_message_wf: "delete_message E u handle s = (r, s') \<Longrightarrow> server_wf s \<Longrightarrow> server_wf s'"
  by (auto simp: delete_message_def Let_def dest: apply_receipted_wf split: if_splits)

lemma change_visibility_wf: "change_message_visibility E u handle v s = (r, s') \<Longrightarrow> server_wf s \<Longrightarrow> server_wf s'"
  by (auto simp: change_message_visibility_def Let_def dest: apply_receipted_wf split: if_splits)

lemma stage_entries_wf:
  "stage_entries Es n eid check handle mutate j es (r, staged, s) = (r', staged', s') \<Longrightarrow> server_wf s \<Longrightarrow> server_wf s'"
proof (induction es arbitrary: j r staged s)
  case (Cons e es)
  then show ?case by (auto dest: stage_wf split: if_splits option.splits prod.splits staged_mutation.splits)
qed simp

lemma undo_all_wf: "server_wf s \<Longrightarrow> server_wf (fold (undo_entry n) es s)"
  by (induction es arbitrary: s) (auto simp: undo_entry_def intro: modify_message_wf)

lemma apply_staged_wf: "apply_staged_batch E n staged r s = (r', s') \<Longrightarrow> server_wf s \<Longrightarrow> server_wf s'"
  by (auto simp: apply_staged_batch_def server_wf_persist intro!: undo_all_wf dest!: disk.save_fail
      split: if_splits prod.splits sum.splits)

lemma delete_batch_wf: "delete_message_batch Es u entries s = (r, s') \<Longrightarrow> server_wf s \<Longrightarrow> server_wf s'"
  by (auto simp: delete_message_batch_def Let_def dest!: stage_entries_wf apply_staged_wf split: if_splits prod.splits sum.splits)

lemma change_visibility_batch_wf: "change_message_visibility_batch Es u entries s = (r, s') \<Longrightarrow> server_wf s \<Longrightarrow> server_wf s'"
  by (auto simp: change_message_visibility_batch_def Let_def dest!: stage_entries_wf apply_staged_wf split: if_splits prod.splits sum.splits)

lemma send_entries_wf: "send_entries X Es u j entries r s = (r', s') \<Longrightarrow> server_wf s \<Longrightarrow> server_wf s'"
proof (induction entries arbitrary: j r s)
  case (Cons e es)
  then show ?case by (auto dest: send_message_wf split: prod.splits sum.splits)
qed simp

lemma send_batch_wf: "send_message_batch X Es u entries s = (r, s') \<Longrightarrow> server_wf s \<Longrightarrow> server_wf s'"
  by (auto simp: send_message_batch_def dest: send_entries_wf split: if_splits prod.splits sum.splits)

section \<open>Sample receipts\<close>

lemma orders_name: "queue_name_from_url orders_url = ''orders''" "orders_url \<noteq> []"
  by code_simp+

text \<open>A queue whose message \<open>a\<close> is out with the handle \<open>h1\<close> until 31 s.\<close>

definition leased_queue :: queue_state where
  "leased_queue = sample_queue ''orders'' [(''VisibilityTimeout'', ''30'')]
     [(sample_message ''a'' [] 1 ''1970-01-01T00:00:31Z'')\<lparr>receipt_handle := ''h1''\<rparr>, sample_message ''b'' [] 0 []]"

definition leased_shop :: sqs_server where
  "leased_shop = sample_server [(''orders'', leased_queue)]"

lemma leased_shop_facts:
  "server_wf leased_shop" "map_of (queues leased_shop) ''orders'' = Some leased_queue"
  by code_simp+

theorem delete_message_removes_one_witness:
  "\<exists>q i. map_of (queues leased_shop) ''orders'' = Some q \<and> i < length (messages q) \<and> receipt_handle (messages q ! i) = ''h1'' \<and>
     queues (snd (delete_message (env_at t0) orders_url ''h1'' leased_shop)) =
       bt_insert ''orders'' (q\<lparr>messages := (messages q)[i := tombstone (messages q ! i)]\<rparr>) (queues leased_shop)"
proof -
  have "fst (delete_message (env_at t0) orders_url ''h1'' leased_shop) = Inr ()" by code_simp
  from delete_message_removes_one[OF fst_pair[OF this] leased_shop_facts(1)] show ?thesis
    unfolding orders_name(1) by blast
qed

theorem refused_delete_removes_nothing_witness:
  "let s' = snd (delete_message (env_at (t0 + 30 * 10 ^ 9)) orders_url ''h1'' leased_shop) in
   s' = leased_shop \<or> (\<exists>i. i < length (messages leased_queue) \<and> receipt_handle (messages leased_queue ! i) = ''h1'' \<and>
     queues s' = bt_insert ''orders''
       (leased_queue\<lparr>messages := (messages leased_queue)[i := (messages leased_queue ! i)\<lparr>receipt_handle := []\<rparr>]\<rparr>) (queues leased_shop))"
proof -
  have "fst (delete_message (env_at (t0 + 30 * 10 ^ 9)) orders_url ''h1'' leased_shop) = Inl ''receipt handle is invalid''" by code_simp
  from refused_delete_removes_nothing[OF fst_pair[OF this] leased_shop_facts(1), unfolded orders_name(1), OF leased_shop_facts(2)]
  show ?thesis unfolding Let_def by blast
qed

theorem change_visibility_sets_deadline_witness:
  "\<exists>q i. map_of (queues leased_shop) ''orders'' = Some q \<and> i < length (messages q) \<and>
     queues (snd (change_message_visibility (env_at t0) orders_url ''h1'' 0 leased_shop)) = bt_insert ''orders''
       (q\<lparr>messages := (messages q)[i := (messages q ! i)\<lparr>invisible_until := add_seconds (now_rfc3339 (clock (env_at t0) 0)) 0\<rparr>]\<rparr>)
       (queues leased_shop) \<and> \<not> before (now_rfc3339 t0) (add_seconds (now_rfc3339 (clock (env_at t0) 0)) 0)"
proof -
  have e: "fst (change_message_visibility (env_at t0) orders_url ''h1'' 0 leased_shop) = Inr ()" by code_simp
  have t: "clock_ok t0" "clock (env_at t0) 0 = t0" by (simp_all add: clock_ok_def t0_def env_at_clock)
  from change_visibility_sets_deadline[OF fst_pair[OF e] leased_shop_facts(1) t0_ok t(1)] show ?thesis
    unfolding orders_name(1) t(2) by auto
qed


theorem delete_batch_reports_every_entry_witness:
  "\<exists>r. fst (delete_message_batch (\<lambda>_. env_at t0) orders_url
        [\<lparr>de_id = ''x'', de_receipt_handle = ''h1''\<rparr>, \<lparr>de_id = ''y'', de_receipt_handle = ''h1''\<rparr>] leased_shop) = Inr r \<and>
     mset (br_successful r) + mset (map be_id (br_failed r)) = mset [''x'', ''y'']"
proof -
  let ?es = "[\<lparr>de_id = ''x'', de_receipt_handle = ''h1''\<rparr>, \<lparr>de_id = ''y'', de_receipt_handle = ''h1''\<rparr>]"
  have "\<not> isl (fst (delete_message_batch (\<lambda>_. env_at t0) orders_url ?es leased_shop))" by code_simp
  then obtain r where f: "fst (delete_message_batch (\<lambda>_. env_at t0) orders_url ?es leased_shop) = Inr r" by (metis sum.collapse(2))
  with delete_batch_reports_every_entry[OF fst_pair[OF f]] show ?thesis by simp
qed

theorem failed_delete_batch_undone_witness:
  "snd (delete_message_batch (\<lambda>_. env_at t0\<lparr>fs := disk_full\<rparr>) orders_url
      [\<lparr>de_id = ''x'', de_receipt_handle = ''h1''\<rparr>] leased_shop) = leased_shop"
proof -
  let ?es = "[\<lparr>de_id = ''x'', de_receipt_handle = ''h1''\<rparr>]"
  have "\<not> isl (fst (delete_message_batch (\<lambda>_. env_at t0\<lparr>fs := disk_full\<rparr>) orders_url ?es leased_shop))" by code_simp
  then obtain r where f: "fst (delete_message_batch (\<lambda>_. env_at t0\<lparr>fs := disk_full\<rparr>) orders_url ?es leased_shop) = Inr r"
    by (metis sum.collapse(2))
  have d: "disk_fails (fs (env_at t0\<lparr>fs := disk_full\<rparr>))" by (simp add: disk_fails_def disk_full_def)
  have "trim (storage_path (config leased_shop)) \<noteq> []" by code_simp
  with failed_delete_batch_undone[OF fst_pair[OF f] leased_shop_facts(1)] d show ?thesis by simp
qed

definition sample_receive :: "int option \<Rightarrow> receive_message_request" where
  "sample_receive n = \<lparr>rr_queue_url = orders_url, rr_max_number_of_messages = n, rr_visibility_timeout = None,
     rr_wait_time_seconds = Some 0, rr_attribute_names = [], rr_message_attribute_names = [], rr_message_system_attribute_names = []\<rparr>"

theorem receive_messages_bounded_witness:
  "\<exists>out. fst (receive_messages shop_crates (\<lambda>_. env_at t0) (sample_receive (Some 5)) busy_shop) = Inr out \<and> length out \<le> 5"
proof -
  have "\<not> isl (fst (receive_messages shop_crates (\<lambda>_. env_at t0) (sample_receive (Some 5)) busy_shop))" by code_simp
  then obtain out where f: "fst (receive_messages shop_crates (\<lambda>_. env_at t0) (sample_receive (Some 5)) busy_shop) = Inr out"
    by (metis sum.collapse(2))
  from receive_messages_bounded[OF fst_pair[OF f] busy_shop_facts(1)] f show ?thesis
    by (simp add: sample_receive_def)
qed

end
