(* ===== verification/Sqs_Move_Tasks.thy ===== *)
theory Sqs_Move_Tasks
  imports Sqs_Receipts
begin

text \<open>
  \<open>services/sqs/src/move_tasks.rs\<close>: the dead-letter source listing and the life cycle of message move tasks.
  The task ids come from that module's own copy of \<open>new_opaque_id\<close>, with its own counter.
\<close>

section \<open>Operations\<close>

record message_move_task_result =
  mt_task_handle :: string
  mt_status :: string
  mt_source_arn :: string
  mt_destination_arn :: string
  mt_approximate_number_of_messages_moved :: int

definition move_task_result :: "move_task_state \<Rightarrow> message_move_task_result" where
  "move_task_result t =
     \<lparr>mt_task_handle = task_handle t, mt_status = status t, mt_source_arn = source_arn t,
      mt_destination_arn = destination_arn t,
      mt_approximate_number_of_messages_moved = approximate_number_of_messages_moved t\<rparr>"

text \<open>The private \<open>redrive_policy_or_none\<close> of \<open>move_tasks.rs\<close>, a copy of the one in \<open>messages.rs\<close>.\<close>

definition redrive_policy_or_none :: "crates \<Rightarrow> queue_state \<Rightarrow> redrive_policy option" where
  "redrive_policy_or_none X q =
     (case map_of (q_attributes q) ''RedrivePolicy'' of
        None \<Rightarrow> None
      | Some raw \<Rightarrow>
          if raw = [] then None
          else (case parse_redrive_policy X raw of
                  Inl _ \<Rightarrow> None
                | Inr p \<Rightarrow> if max_receive_count p < 1 \<or> dead_letter_target_arn p = [] then None else Some p))"

definition queue_name_by_arn :: "sqs_server \<Rightarrow> string \<Rightarrow> string option" where
  "queue_name_by_arn s a = map_option fst (find (\<lambda>e. arn (snd e) = a) (queues s))"

definition resolve_original_source :: "sqs_server \<Rightarrow> message_state \<Rightarrow> string option" where
  "resolve_original_source s m =
     (if dead_letter_source_arn m = [] then None else queue_name_by_arn s (dead_letter_source_arn m))"

definition list_dead_letter_source_queue_urls :: "crates \<Rightarrow> string \<Rightarrow> sqs_server \<Rightarrow> string list result" where
  "list_dead_letter_source_queue_urls X u s =
     (let name = queue_name_from_url u in
      if name = [] then Inl ''queue does not exist''
      else (case map_of (queues s) name of
              None \<Rightarrow> Inl ''queue does not exist''
            | Some target \<Rightarrow>
                Inr (sort (map (\<lambda>e. url (snd e)) (filter (\<lambda>e.
                  case redrive_policy_or_none X (snd e) of
                    Some p \<Rightarrow> dead_letter_target_arn p = arn target | None \<Rightarrow> False) (queues s))))))"

type_synonym move = "nat \<times> string \<times> message_state"

definition moved_message :: "string \<Rightarrow> message_state \<Rightarrow> message_state" where
  "moved_message now m =
     m\<lparr>invisible_until := ZERO_TIME, receipt_handle := [], receive_count := 0, first_receive_at := ZERO_TIME,
       available_at := now, dead_letter_source_arn := []\<rparr>"

definition move_target :: "sqs_server \<Rightarrow> string \<Rightarrow> message_state \<Rightarrow> string option" where
  "move_target s dest m = (if dest \<noteq> [] then queue_name_by_arn s dest else resolve_original_source s m)"

fun plan_moves :: "sqs_server \<Rightarrow> string \<Rightarrow> string \<Rightarrow> nat \<Rightarrow> message_state list \<Rightarrow> move list" where
  "plan_moves s dest now i [] = []"
| "plan_moves s dest now i (m # ms) =
     (if deleted m then plan_moves s dest now (Suc i) ms
      else (case move_target s dest m of
              None \<Rightarrow> plan_moves s dest now (Suc i) ms
            | Some t \<Rightarrow> (i, t, moved_message now m) # plan_moves s dest now (Suc i) ms))"

fun affected_names :: "string list \<Rightarrow> move list \<Rightarrow> string list" where
  "affected_names ns [] = ns"
| "affected_names ns ((i, t, m) # mv) = affected_names (if t \<in> set ns then ns else ns @ [t]) mv"

text \<open>The loop that pushes each message and tombstones its original, with the three \<open>ok_or_else\<close> returns.\<close>

fun apply_moves :: "string \<Rightarrow> move list \<Rightarrow> sqs_server \<Rightarrow> unit result \<times> sqs_server" where
  "apply_moves src [] s = (Inr (), s)"
| "apply_moves src ((i, t, m) # mv) s =
     (if \<not> bt_contains (queues s) t then (Inl ''destination queue does not exist'', s)
      else let s1 = modify_queue t (push_message m) s in
        (case map_of (queues s1) src of
           None \<Rightarrow> (Inl ''queue does not exist'', s1)
         | Some q \<Rightarrow>
             if i \<ge> length (messages q) then (Inl ''queue does not exist'', s1)
             else apply_moves src mv (modify_queue src (update_message i tombstone) s1)))"

definition fetch_add_task_id :: "sqs_server \<Rightarrow> sqs_server" where
  "fetch_add_task_id s = s\<lparr>task_counter := task_counter s + 1\<rparr>"

definition start_message_move_task ::
    "env \<Rightarrow> string \<Rightarrow> string \<Rightarrow> sqs_server \<Rightarrow> move_task_state result \<times> sqs_server" where
  "start_message_move_task E src_arn dest s =
     (if src_arn = [] then (Inl ''SourceArn is required'', s)
      else (case queue_name_by_arn s src_arn of
          None \<Rightarrow> (Inl ''queue does not exist'', s)
        | Some src \<Rightarrow>
            if dest \<noteq> [] \<and> queue_name_by_arn s dest = None then (Inl ''destination queue does not exist'', s)
            else let now = now_rfc3339 (clock E 0) in
              (case map_of (queues s) src of
                 None \<Rightarrow> (Inl ''queue does not exist'', s)
               | Some q \<Rightarrow>
                   let moves = plan_moves s dest now 0 (messages q);
                       snapshots = map (\<lambda>n. (n, the (map_of (queues s) n))) (affected_names [src] moves) in
                   (case apply_moves src moves s of
                      (Inl e, s1) \<Rightarrow> (Inl e, s1)
                    | (Inr _, s1) \<Rightarrow>
                        let task = \<lparr>task_handle = new_opaque_id ''mvt'' (clock E 1) (task_counter s1),
                                    source_arn = src_arn, destination_arn = dest, status = ''COMPLETED'',
                                    started_at = now, approximate_number_of_messages_moved = int (length moves)\<rparr>;
                            s2 = fetch_add_task_id s1;
                            s3 = s2\<lparr>move_tasks := bt_insert (task_handle task) task (move_tasks s2)\<rparr> in
                        (case persist (fs E) s3 of
                           (Inl e, s4) \<Rightarrow>
                             (Inl e, (fold (\<lambda>(n, q). put_queue n q) snapshots s4)
                                \<lparr>move_tasks := bt_remove (task_handle task) (move_tasks s4)\<rparr>)
                         | (Inr _, s4) \<Rightarrow> (Inr task, s4))))))"

definition list_message_move_tasks :: "string \<Rightarrow> int \<Rightarrow> sqs_server \<Rightarrow> move_task_state list result" where
  "list_message_move_tasks src_arn max_results s =
     (if src_arn = [] then Inl ''SourceArn is required''
      else if queue_name_by_arn s src_arn = None then Inl ''queue does not exist''
      else let tasks = sort_key (\<lambda>t. - unix_nanos_from_rfc3339 (started_at t))
                 (filter (\<lambda>t. source_arn t = src_arn) (map snd (move_tasks s)));
               limit = (if max_results \<le> 0 \<or> max_results > 10 then 10 else max_results) in
        Inr (if int (length tasks) > limit then take (nat limit) tasks else tasks))"

definition cancel_message_move_task :: "string \<Rightarrow> sqs_server \<Rightarrow> int result" where
  "cancel_message_move_task handle s =
     (if handle = [] then Inl ''TaskHandle is required''
      else (case map_of (move_tasks s) handle of
              None \<Rightarrow> Inl ''message move task does not exist''
            | Some t \<Rightarrow> Inr (approximate_number_of_messages_moved t)))"

section \<open>Applying moves\<close>

lemma redrive_policy_same: "redrive_policy_or_none X q = redrive_policy_from_queue X q"
  by (simp add: redrive_policy_or_none_def redrive_policy_from_queue_def)

lemma queue_name_by_arn_wf:
  "server_wf s \<Longrightarrow> queue_name_by_arn s a = Some n \<longleftrightarrow> a = queue_arn (config s) n \<and> bt_contains (queues s) n"
  using queue_by_arn_wf[of s a n] by (auto simp: queue_name_by_arn_def queue_by_arn_def bt_contains_def)

definition plan_ok :: "sqs_server \<Rightarrow> string \<Rightarrow> move list \<Rightarrow> bool" where
  "plan_ok s src mv \<longleftrightarrow> sorted_wrt (<) (map fst mv) \<and>
     (\<forall>(i, t, m) \<in> set mv. bt_contains (queues s) t \<and>
       (\<exists>q. map_of (queues s) src = Some q \<and> i < length (messages q) \<and> \<not> deleted (messages q ! i) \<and> m_id m = m_id (messages q ! i) \<and> \<not> deleted m))"

lemma moved_fields [simp]: "m_id (moved_message now m) = m_id m" "deleted (moved_message now m) = deleted m"
  by (simp_all add: moved_message_def)

text \<open>All live messages of the server, by id.\<close>

definition all_live :: "queue_map \<Rightarrow> string multiset" where
  "all_live qs = sum_list (map (\<lambda>e. live_ids (messages (snd e))) qs)"

lemma all_live_modify:
  assumes "distinct (map fst qs)" "map_of qs n = Some q"
  shows "all_live (bt_modify n f qs) + live_ids (messages q) = all_live qs + live_ids (messages (f q))"
  using assms
proof (induction qs)
  case (Cons e qs)
  have abs: "bt_modify n f qs = qs" if "fst e = n"
    using that Cons.prems(1) by (intro bt_modify_absent) (auto simp: map_of_eq_None_iff)
  then show ?case using Cons by (cases "fst e = n") (auto simp: all_live_def bt_modify_def ac_simps)
qed simp

lemma push_live: "live_ids (messages (push_message m q)) = live_ids (messages q) + (if deleted m then {#} else {#m_id m#})"
  by (simp add: push_message_def live_ids_Cons) (simp add: live_ids_def)

lemma one_move_live:
  assumes "bt_ok (queues s)" "map_of (queues s) src = Some q" "bt_contains (queues s) t"
    and "i < length (messages q)" "\<not> deleted (messages q ! i)" "m_id m = m_id (messages q ! i)" "\<not> deleted m"
  shows "all_live (queues (modify_queue src (update_message i tombstone) (modify_queue t (push_message m) s))) = all_live (queues s)"
proof -
  obtain qt where qt: "map_of (queues s) t = Some qt" using assms(3) by (auto simp: bt_contains_def)
  let ?s1 = "modify_queue t (push_message m) s"
  have ok: "distinct (map fst (queues s))" "distinct (map fst (queues ?s1))" using assms(1) by (simp_all add: bt_ok_distinct)
  have 1: "all_live (queues ?s1) = all_live (queues s) + {#m_id m#}"
    using all_live_modify[OF ok(1) qt, of "push_message m"] assms(7) by (simp add: push_live)
  define q1 where "q1 = (if src = t then push_message m q else q)"
  have q1: "map_of (queues ?s1) src = Some q1" "i < length (messages q1)" "messages q1 ! i = messages q ! i"
    using assms(2,4) by (auto simp: q1_def bt_get_modify push_message_def nth_append)
  let ?A = "all_live (queues (modify_queue src (update_message i tombstone) ?s1))"
    and ?u = "live_ids (messages (update_message i tombstone q1))"
  have u: "live_ids (messages q1) = ?u + {#m_id m#}"
    using live_ids_tombstone[of i "messages q1"] q1 assms(5,6) by (simp add: update_message_def)
  have "?A + live_ids (messages q1) = all_live (queues ?s1) + ?u"
    using all_live_modify[OF ok(2) q1(1), of "update_message i tombstone"] by simp
  then show ?thesis unfolding 1 u by simp
qed

lemma plan_moves_in:
  "(k, t, x) \<in> set (plan_moves s dest now i ms) \<Longrightarrow>
   i \<le> k \<and> k < i + length ms \<and> \<not> deleted (ms ! (k - i)) \<and> x = moved_message now (ms ! (k - i)) \<and> move_target s dest (ms ! (k - i)) = Some t"
proof (induction ms arbitrary: i)
  case (Cons m ms)
  show ?case
  proof (cases "k = i \<and> \<not> deleted m \<and> x = moved_message now m \<and> move_target s dest m = Some t")
    case False
    then have "(k, t, x) \<in> set (plan_moves s dest now (Suc i) ms)" using Cons.prems by (auto split: if_splits option.splits)
    from Cons.IH[OF this] show ?thesis by (auto simp: nth_Cons' Suc_diff_le)
  qed auto
qed simp

lemma plan_moves_sorted: "sorted_wrt (<) (map fst (plan_moves s dest now i ms))"
proof (induction ms arbitrary: i)
  case (Cons m ms)
  have "i < k" if "(k, t, x) \<in> set (plan_moves s dest now (Suc i) ms)" for k t x using plan_moves_in[OF that] by simp
  then show ?case using Cons by (auto split: option.splits)
qed simp

lemma move_target_exists: "move_target s dest m = Some t \<Longrightarrow> bt_ok (queues s) \<Longrightarrow> bt_contains (queues s) t"
  by (auto simp: move_target_def resolve_original_source_def queue_name_by_arn_def bt_contains_def bt_in_set_iff
      dest!: find_SomeD split: if_splits)

lemma plan_moves_ok:
  assumes "bt_ok (queues s)" "map_of (queues s) src = Some q"
  shows "plan_ok s src (plan_moves s dest now 0 (messages q))"
  unfolding plan_ok_def
proof
  show "sorted_wrt (<) (map fst (plan_moves s dest now 0 (messages q)))" by (rule plan_moves_sorted)
  show "\<forall>(i, t, m) \<in> set (plan_moves s dest now 0 (messages q)). bt_contains (queues s) t \<and>
       (\<exists>q. map_of (queues s) src = Some q \<and> i < length (messages q) \<and> \<not> deleted (messages q ! i) \<and> m_id m = m_id (messages q ! i) \<and> \<not> deleted m)"
    using assms by (auto dest!: plan_moves_in move_target_exists)
qed

lemma plan_ok_step:
  assumes "plan_ok s src ((i, t, m) # mv)"
  shows "plan_ok (modify_queue src (update_message i tombstone) (modify_queue t (push_message m) s)) src mv"
  using assms unfolding plan_ok_def
  by (fastforce simp: bt_contains_def bt_get_modify push_message_def update_message_def nth_append split: option.splits)

lemma apply_moves_ok:
  assumes "bt_ok (queues s)" "plan_ok s src mv"
  obtains s' where "apply_moves src mv s = (Inr (), s')" "bt_ok (queues s')" "all_live (queues s') = all_live (queues s)"
    "config s' = config s" "move_tasks s' = move_tasks s" "state_file s' = state_file s" "task_counter s' = task_counter s"
    "\<And>n. n \<notin> insert src (set (map (fst \<circ> snd) mv)) \<Longrightarrow> map_of (queues s') n = map_of (queues s) n"
    "map fst (queues s') = map fst (queues s)"
  using assms
proof (induction mv arbitrary: s thesis)
  case Nil
  show ?case using Nil.prems(2) by (intro Nil.prems(1)[of s]) simp_all
next
  case (Cons e mv)
  obtain i t m where e: "e = (i, t, m)" by (cases e) auto
  let ?s1 = "modify_queue src (update_message i tombstone) (modify_queue t (push_message m) s)"
  from Cons.prems(3) obtain q where q: "map_of (queues s) src = Some q" "i < length (messages q)" "\<not> deleted (messages q ! i)"
    "m_id m = m_id (messages q ! i)" "\<not> deleted m" "bt_contains (queues s) t" by (auto simp: e plan_ok_def)
  have step: "apply_moves src (e # mv) s = apply_moves src mv ?s1"
    using q by (auto simp: e Let_def bt_get_modify push_message_def)
  show ?case
  proof (rule Cons.IH)
    fix s' assume s': "apply_moves src mv ?s1 = (Inr (), s')" "bt_ok (queues s')" "all_live (queues s') = all_live (queues ?s1)"
      "config s' = config ?s1" "move_tasks s' = move_tasks ?s1" "state_file s' = state_file ?s1" "task_counter s' = task_counter ?s1"
      "\<And>n. n \<notin> insert src (set (map (fst \<circ> snd) mv)) \<Longrightarrow> map_of (queues s') n = map_of (queues ?s1) n"
      "map fst (queues s') = map fst (queues ?s1)"
    have "all_live (queues s') = all_live (queues s)"
      using s'(3) one_move_live[OF Cons.prems(2) q(1,6,2,3,4,5)] by simp
    moreover have "task_counter ?s1 = task_counter s" by (simp add: modify_queue_def)
    ultimately show thesis
      using s' step by (intro Cons.prems(1)[of s']) (auto simp: e)
  next
    show "bt_ok (queues ?s1)" using Cons.prems(2) by simp
    show "plan_ok ?s1 src mv" using Cons.prems(3) unfolding e by (rule plan_ok_step)
  qed
qed

lemma affected_names_set: "set (affected_names ns mv) = set ns \<union> set (map (fst \<circ> snd) mv)"
  by (induction ns mv rule: affected_names.induct) auto

lemma restore_all:
  "map_of (queues (fold (\<lambda>(n, q). put_queue n q) (map (\<lambda>n. (n, g n)) ns) s)) k =
    (if k \<in> set ns then Some (g k) else map_of (queues s) k)"
  "bt_ok (queues s) \<Longrightarrow> bt_ok (queues (fold (\<lambda>(n, q). put_queue n q) (map (\<lambda>n. (n, g n)) ns) s))"
  "state_file (fold (\<lambda>(n, q). put_queue n q) (map (\<lambda>n. (n, g n)) ns) s) = state_file s"
  "config (fold (\<lambda>(n, q). put_queue n q) (map (\<lambda>n. (n, g n)) ns) s) = config s"
  by (induction ns arbitrary: s) (auto simp: put_queue_def bt_get_insert)

lemma fetch_add_task_fields [simp]:
  "config (fetch_add_task_id s) = config s" "state_file (fetch_add_task_id s) = state_file s"
  "move_tasks (fetch_add_task_id s) = move_tasks s" "queues (fetch_add_task_id s) = queues s"
  by (simp_all add: fetch_add_task_id_def)

lemma start_outcomes:
  assumes "start_message_move_task E src_arn dest s = (r, s')" "server_wf s"
  obtains (refused) e where "r = Inl e" "s' = s"
    | (unsaved) e h t where "r = Inl e" "queues s' = queues s" "state_file s' = state_file s" "config s' = config s"
        "h = new_opaque_id ''mvt'' (clock E 1) (task_counter s)" "move_tasks s' = bt_remove h (bt_insert h t (move_tasks s))"
    | (moved) src q s1 task where "map_of (queues s) src = Some q" "src_arn = queue_arn (config s) src" "dest \<noteq> [] \<Longrightarrow> queue_name_by_arn s dest \<noteq> None"
        "apply_moves src (plan_moves s dest (now_rfc3339 (clock E 0)) 0 (messages q)) s = (Inr (), s1)"
        "r = Inr task" "queues s' = queues s1" "config s' = config s" "move_tasks s' = bt_insert (task_handle task) task (move_tasks s)"
        "all_live (queues s') = all_live (queues s)" "map fst (queues s') = map fst (queues s)" "bt_ok (queues s')"
        "approximate_number_of_messages_moved task = int (length (plan_moves s dest (now_rfc3339 (clock E 0)) 0 (messages q)))"
        "task_handle task = new_opaque_id ''mvt'' (clock E 1) (task_counter s)"
proof -
  show ?thesis
  proof (cases "src_arn = [] \<or> queue_name_by_arn s src_arn = None \<or> (dest \<noteq> [] \<and> queue_name_by_arn s dest = None)")
    case True
    then show ?thesis using assms(1)
      by (auto simp: start_message_move_task_def split: if_splits option.splits intro: refused)
  next
    case False
    then obtain src where src: "src_arn \<noteq> []" "queue_name_by_arn s src_arn = Some src" "\<not> (dest \<noteq> [] \<and> queue_name_by_arn s dest = None)" by auto
    then obtain q where q: "map_of (queues s) src = Some q" "src_arn = queue_arn (config s) src"
      using queue_name_by_arn_wf[OF assms(2)] by (auto simp: bt_contains_def)
    let ?now = "now_rfc3339 (clock E 0)"
    let ?mv = "plan_moves s dest ?now 0 (messages q)"
    obtain s1 where s1: "apply_moves src ?mv s = (Inr (), s1)" "bt_ok (queues s1)" "all_live (queues s1) = all_live (queues s)"
      "config s1 = config s" "move_tasks s1 = move_tasks s" "state_file s1 = state_file s" "task_counter s1 = task_counter s"
      "\<And>n. n \<notin> insert src (set (map (fst \<circ> snd) ?mv)) \<Longrightarrow> map_of (queues s1) n = map_of (queues s) n"
      "map fst (queues s1) = map fst (queues s)"
      using apply_moves_ok[OF server_wf_ok[OF assms(2)] plan_moves_ok[OF server_wf_ok[OF assms(2)] q(1)]] by metis
    define task where "task = \<lparr>task_handle = new_opaque_id ''mvt'' (clock E 1) (task_counter s1),
        source_arn = src_arn, destination_arn = dest, status = ''COMPLETED'', started_at = ?now,
        approximate_number_of_messages_moved = int (length ?mv)\<rparr>"
    define s3 where "s3 = (fetch_add_task_id s1)\<lparr>move_tasks := bt_insert (task_handle task) task (move_tasks s1)\<rparr>"
    let ?snap = "map (\<lambda>n. (n, the (map_of (queues s) n))) (affected_names [src] ?mv)"
    have eq: "start_message_move_task E src_arn dest s =
      (case persist (fs E) s3 of
         (Inl e, s4) \<Rightarrow> (Inl e, (fold (\<lambda>(n, q). put_queue n q) ?snap s4)\<lparr>move_tasks := bt_remove (task_handle task) (move_tasks s4)\<rparr>)
       | (Inr _, s4) \<Rightarrow> (Inr task, s4))"
      using src q(1) s1(1) unfolding start_message_move_task_def task_def s3_def
      by (auto simp: Let_def split: prod.split sum.split)
    obtain p s4 where p: "persist (fs E) s3 = (p, s4)" by fastforce
    have s4: "queues s4 = queues s1" "config s4 = config s" "move_tasks s4 = bt_insert (task_handle task) task (move_tasks s)"
      using p s1 by (simp_all add: persist_keeps s3_def)
    show ?thesis
    proof (cases p)
      case (Inl e)
      have [simp]: "s4 = s3" using disk.save_fail p Inl by blast
      have r: "r = Inl e" "s' = (fold (\<lambda>(n, q). put_queue n q) ?snap s4)\<lparr>move_tasks := bt_remove (task_handle task) (move_tasks s4)\<rparr>"
        using assms(1) eq p Inl by simp_all
      have "queues s' = queues s"
      proof (rule bt_ext)
        show "map_of (queues s') = map_of (queues s)"
        proof
          fix k
          have "bt_contains (queues s) k" if "k \<in> set (affected_names [src] ?mv)"
            using that q server_wf_ok[OF assms(2)]
            by (auto simp: affected_names_set bt_contains_def[of _ src] dest!: plan_moves_in move_target_exists)
          then show "map_of (queues s') k = map_of (queues s) k"
            using s1(8)[of k] by (auto simp: r(2) restore_all s3_def affected_names_set bt_contains_def)
        qed
      qed (use assms(2) s1(2) in \<open>simp_all add: r(2) restore_all s3_def\<close>)
      moreover have "state_file s' = state_file s" "config s' = config s"
        using s1 by (simp_all add: r(2) restore_all s3_def)
      moreover have "move_tasks s' = bt_remove (task_handle task) (bt_insert (task_handle task) task (move_tasks s))"
        using s4(3) by (simp add: r(2))
      ultimately show ?thesis using r(1) s1(7) by (intro unsaved[of e "task_handle task" task]) (simp_all add: task_def)
    next
      case (Inr u)
      then have "r = Inr task" "s' = s4" using assms(1) eq p by simp_all
      then show ?thesis using q s1 s4 src(3)
        by (intro moved[of src q s1 task]) (auto simp: task_def)
    qed
  qed
qed

section \<open>Properties\<close>

text \<open>C16. A message move task loses and duplicates nothing: the live messages of the server, over all queues, are
  the same before and after, and no queue appears or disappears.\<close>

theorem move_task_conserves_messages:
  assumes "start_message_move_task E src_arn dest s = (Inr task, s')" "server_wf s"
  shows "all_live (queues s') = all_live (queues s) \<and> map fst (queues s') = map fst (queues s)"
  using assms by (cases rule: start_outcomes) auto

text \<open>A message move task that cannot be saved is rolled back: the error is reported, every queue is as it was,
  and no task is recorded.\<close>

theorem failed_move_task_undone:
  assumes "start_message_move_task E src_arn dest s = (Inl e, s')" "server_wf s"
    and "map_of (move_tasks s) (new_opaque_id ''mvt'' (clock E 1) (task_counter s)) = None"
  shows "queues s' = queues s \<and> move_tasks s' = move_tasks s \<and> state_file s' = state_file s"
  using assms(1,2)
proof (cases rule: start_outcomes)
  case (unsaved e h t)
  then show ?thesis using assms(2,3) by (simp add: bt.undo_new server_wf_def)
qed auto

text \<open>Moving everything to one other queue: the state of the two queues step by step.\<close>

lemma apply_moves_to:
  assumes "bt_ok (queues s)" "map_of (queues s) src = Some q" "map_of (queues s) t = Some qt" "src \<noteq> t"
    and "messages q = pre @ ms" "\<And>m. move_target s0 dest m = Some t"
  shows "queues (snd (apply_moves src (plan_moves s0 dest now (length pre) ms) s)) =
    bt_insert src (q\<lparr>messages := pre @ map (\<lambda>m. if deleted m then m else tombstone m) ms\<rparr>)
      (bt_insert t (append_messages (map (moved_message now) (filter (\<lambda>m. \<not> deleted m) ms)) qt) (queues s))"
  using assms(1-5)
proof (induction ms arbitrary: pre s q qt)
  case Nil
  then have "q\<lparr>messages := pre\<rparr> = q" by simp
  with Nil show ?case by (simp add: bt.ins_same)
next
  case (Cons m ms)
  show ?case
  proof (cases "deleted m")
    case True
    then show ?thesis
      using Cons.IH[OF Cons.prems(1-4), of "pre @ [m]"] Cons.prems(5) by simp
  next
    case False
    let ?q = "update_message (length pre) tombstone q" and ?qt = "push_message (moved_message now m) qt"
    let ?s1 = "modify_queue src (update_message (length pre) tombstone) (modify_queue t (push_message (moved_message now m)) s)"
    have s1: "queues ?s1 = bt_insert src ?q (bt_insert t ?qt (queues s))"
      using Cons.prems by (simp add: bt_modify_insert bt_get_insert)
    have "map_of (queues ?s1) src = Some ?q" "map_of (queues ?s1) t = Some ?qt" "bt_ok (queues ?s1)"
      using Cons.prems(1,4) unfolding s1 by (simp_all add: bt_get_insert)
    moreover have "messages ?q = (pre @ [tombstone m]) @ ms" using Cons.prems(5) by (simp add: update_message_def)
    ultimately have "queues (snd (apply_moves src (plan_moves s0 dest now (length (pre @ [tombstone m])) ms) ?s1)) =
      bt_insert src (?q\<lparr>messages := (pre @ [tombstone m]) @ map (\<lambda>m. if deleted m then m else tombstone m) ms\<rparr>)
      (bt_insert t (append_messages (map (moved_message now) (filter (\<lambda>m. \<not> deleted m) ms)) ?qt) (queues ?s1))"
      using Cons.prems(4) by (intro Cons.IH)
    also have "\<dots> = bt_insert src (q\<lparr>messages := pre @ map (\<lambda>m. if deleted m then m else tombstone m) (m # ms)\<rparr>)
      (bt_insert t (append_messages (map (moved_message now) (filter (\<lambda>m. \<not> deleted m) (m # ms))) qt) (queues s))"
      unfolding s1 using Cons.prems(1,4) False
      by (intro bt_ext) (auto simp: bt_get_insert fun_eq_iff update_message_def append_messages_def push_message_def)
    finally show ?thesis
      using Cons.prems False assms(6) by (simp add: bt_contains_def Let_def)
  qed
qed

text \<open>A move task with a destination empties the source queue into it: every live message of the source is
  tombstoned there and appended to the destination, in order and made available at once with its
  receive count reset; the task reports how many were moved, and no other queue changes.\<close>

theorem move_task_to_destination:
  assumes "start_message_move_task E src_arn dest s = (Inr task, s')" "server_wf s"
    and "src_arn = queue_arn (config s) src" "dest = queue_arn (config s) t" "src \<noteq> t"
    and "map_of (queues s) src = Some q" "map_of (queues s) t = Some qt"
  shows "queues s' =
      bt_insert src (q\<lparr>messages := map (\<lambda>m. if deleted m then m else tombstone m) (messages q)\<rparr>)
        (bt_insert t (qt\<lparr>messages := messages qt @ map (moved_message (now_rfc3339 (clock E 0)))
           (filter (\<lambda>m. \<not> deleted m) (messages q))\<rparr>) (queues s)) \<and>
    approximate_number_of_messages_moved task = int (length (filter (\<lambda>m. \<not> deleted m) (messages q)))"
  using assms(1,2)
proof (cases rule: start_outcomes)
  case (moved src' q' s1 task')
  have eq: "src' = src" "q' = q" using moved(1,2) assms(3,6) by (auto simp: queue_arn_inj)
  have tgt: "move_target s dest m = Some t" for m
    using queue_name_by_arn_wf[OF assms(2), of dest t] assms(4,7) queue_arn_ne by (auto simp: move_target_def bt_contains_def)
  have len: "length (plan_moves s dest now i ms) = length (filter (\<lambda>m. \<not> deleted m) ms)" for now i ms
    by (induction ms arbitrary: i) (auto simp: tgt)
  show ?thesis
    using moved apply_moves_to[OF server_wf_ok[OF assms(2)] assms(6,7,5), of "[]" "messages q" s dest "now_rfc3339 (clock E 0)", simplified, OF tgt]
    by (simp add: eq len append_messages_def)
qed (auto)

text \<open>Move tasks are listed newest first, at most ten of them, also when the caller asks for all by passing 0:
  the answer is the beginning of the tasks of the source queue in order of descending start time.\<close>

theorem list_move_tasks_newest_first:
  assumes "list_message_move_tasks src_arn max_results s = Inr ts"
  shows "length ts \<le> 10 \<and> sorted_wrt (\<lambda>a b. unix_nanos_from_rfc3339 (started_at b) \<le> unix_nanos_from_rfc3339 (started_at a)) ts \<and>
    (\<forall>t. t \<in> set ts \<longrightarrow> source_arn t = src_arn \<and> t \<in> snd ` set (move_tasks s)) \<and>
    (length ts < nat (if max_results \<le> 0 \<or> max_results > 10 then 10 else max_results) \<longrightarrow>
       mset ts = mset (filter (\<lambda>t. source_arn t = src_arn) (map snd (move_tasks s))))"
proof -
  let ?k = "\<lambda>t. - unix_nanos_from_rfc3339 (started_at t)"
  let ?l = "sort_key ?k (filter (\<lambda>t. source_arn t = src_arn) (map snd (move_tasks s)))"
  define lim where "lim = (if max_results \<le> 0 \<or> max_results > 10 then 10 else max_results)"
  have lim: "1 \<le> lim" "lim \<le> 10" by (auto simp: lim_def)
  have ts: "ts = (if int (length ?l) > lim then take (nat lim) ?l else ?l)"
    using assms unfolding list_message_move_tasks_def lim_def[symmetric] Let_def by (auto split: if_splits)
  have "sorted (map ?k ?l)" by simp
  then have srt: "sorted_wrt (\<lambda>a b. unix_nanos_from_rfc3339 (started_at b) \<le> unix_nanos_from_rfc3339 (started_at a)) ?l"
    by (simp add: sorted_map)
  have len: "int (length ts) = min (int (length ?l)) lim" using lim by (simp add: ts)
  then have "length ts \<le> 10" using lim by linarith
  moreover have "set ts \<subseteq> set ?l" by (auto simp: ts dest: in_set_takeD)
  moreover have "mset ts = mset ?l" if "length ts < nat lim" using that len lim by (auto simp: ts)
  ultimately show ?thesis
    using srt unfolding lim_def[symmetric] by (auto simp: ts sorted_wrt_take)
qed

section \<open>Well-formedness\<close>

lemma apply_moves_wf: "server_wf s \<Longrightarrow> server_wf (snd (apply_moves src mv s))"
proof (induction src mv s rule: apply_moves.induct)
  case (2 src i t m mv s)
  have 1: "server_wf (modify_queue t (push_message m) s)"
    using 2(2) by (intro server_wf_modify) (simp_all add: push_message_def queue_wf_messages)
  then have "server_wf (modify_queue src (update_message i tombstone) (modify_queue t (push_message m) s))"
    by (rule modify_message_wf)
  with 1 2 show ?case by (auto simp: Let_def split: option.splits)
qed simp

lemma apply_moves_config: "config (snd (apply_moves src mv s)) = config s"
  by (induction src mv s rule: apply_moves.induct) (auto simp: Let_def split: option.splits)

lemma task_handle_ne: "new_opaque_id p t n \<noteq> []"
  by (simp add: new_opaque_id_def)

lemma list_all_bt_insert: "bt_ok m \<Longrightarrow> list_all P m \<Longrightarrow> P (k, v) \<Longrightarrow> list_all P (bt_insert k v m)"
  by (auto simp: list_all_iff set_bt_insert)

lemma start_move_task_wf:
  assumes "start_message_move_task E src_arn dest s = (r, s')" "server_wf s"
  shows "server_wf s'"
  using assms
proof (cases rule: start_outcomes)
  case (unsaved e h t)
  have "list_all (\<lambda>(h, t). task_handle t = h \<and> h \<noteq> []) (bt_remove h (bt_insert h t (move_tasks s)))"
    using assms(2) by (auto simp: server_wf_def list_all_iff bt_remove_def set_bt_insert)
  with unsaved assms(2) show ?thesis by (simp add: server_wf_def)
next
  case (moved src q s1 task)
  have "server_wf s1" using apply_moves_wf[OF assms(2), of src] moved(4) by (metis snd_conv)
  moreover have "config s1 = config s" using apply_moves_config[of src _ s] moved(4) by (metis snd_conv)
  ultimately show ?thesis
    using moved assms(2) task_handle_ne
    by (auto simp: server_wf_def intro!: list_all_bt_insert)
qed (use assms(2) in simp)

section \<open>Sample move\<close>

definition dead_letters :: queue_state where
  "dead_letters = sample_queue ''orders-dlq'' [(''VisibilityTimeout'', ''30'')]
     [sample_message ''x'' [] 0 [], tombstone (sample_message ''y'' [] 0 []), sample_message ''z'' [] 0 []]"

definition dlq_shop :: sqs_server where
  "dlq_shop = sample_server [(''orders'', leased_queue), (''orders-dlq'', dead_letters)]"

lemma dlq_shop_facts:
  "server_wf dlq_shop" "map_of (queues dlq_shop) ''orders'' = Some leased_queue" "map_of (queues dlq_shop) ''orders-dlq'' = Some dead_letters"
  "config dlq_shop = sample_config"
  by code_simp+

definition dlq_move :: "fs_outcome \<Rightarrow> move_task_state result \<times> sqs_server" where
  "dlq_move io = start_message_move_task (env_at t0\<lparr>fs := io\<rparr>) (queue_arn sample_config ''orders-dlq'') (queue_arn sample_config ''orders'') dlq_shop"

lemma dlq_move_ok: "\<exists>task. fst (dlq_move disk_ok) = Inr task"
proof -
  have "\<not> isl (fst (dlq_move disk_ok))" by code_simp
  then show ?thesis by (metis sum.collapse(2))
qed

theorem move_task_conserves_messages_witness:
  "all_live (queues (snd (dlq_move disk_ok))) = all_live (queues dlq_shop)"
proof -
  obtain task where "fst (dlq_move disk_ok) = Inr task" using dlq_move_ok ..
  from move_task_conserves_messages[OF fst_pair[OF this[unfolded dlq_move_def]] dlq_shop_facts(1)]
  show ?thesis by (simp add: dlq_move_def)
qed

theorem move_task_to_destination_witness:
  "\<exists>task. fst (dlq_move disk_ok) = Inr task \<and>
     approximate_number_of_messages_moved task = int (length (filter (\<lambda>m. \<not> deleted m) (messages dead_letters)))"
proof -
  obtain task where f: "fst (dlq_move disk_ok) = Inr task" using dlq_move_ok ..
  have "approximate_number_of_messages_moved task = int (length (filter (\<lambda>m. \<not> deleted m) (messages dead_letters)))"
    using move_task_to_destination[OF fst_pair[OF f[unfolded dlq_move_def]] dlq_shop_facts(1), of "''orders-dlq''" "''orders''"]
    by (simp add: dlq_shop_facts)
  with f show ?thesis by blast
qed

theorem failed_move_task_undone_witness:
  "queues (snd (dlq_move disk_full)) = queues dlq_shop \<and> move_tasks (snd (dlq_move disk_full)) = move_tasks dlq_shop"
proof -
  have e: "fst (dlq_move disk_full) = Inl ''no space left on device''" by code_simp
  have "map_of (move_tasks dlq_shop) h = None" for h by (simp add: dlq_shop_def sample_server_def empty_server_def)
  with failed_move_task_undone[OF fst_pair[OF e[unfolded dlq_move_def]] dlq_shop_facts(1)] show ?thesis
    by (simp add: dlq_move_def)
qed

definition sample_task :: "string \<Rightarrow> string \<Rightarrow> move_task_state" where
  "sample_task h t = \<lparr>task_handle = h, source_arn = queue_arn sample_config ''orders-dlq'', destination_arn = [],
     status = ''COMPLETED'', started_at = t, approximate_number_of_messages_moved = 0\<rparr>"

definition task_shop :: sqs_server where
  "task_shop = dlq_shop\<lparr>move_tasks := [(''a'', sample_task ''a'' ''1970-01-01T00:00:01Z''), (''b'', sample_task ''b'' ''1970-01-01T00:00:02Z'')]\<rparr>"

theorem list_move_tasks_newest_first_witness:
  "\<exists>ts. list_message_move_tasks (queue_arn sample_config ''orders-dlq'') 0 task_shop = Inr ts \<and> map task_handle ts = [''b'', ''a''] \<and>
     sorted_wrt (\<lambda>a b. unix_nanos_from_rfc3339 (started_at b) \<le> unix_nanos_from_rfc3339 (started_at a)) ts"
proof -
  have e: "map_sum id (map task_handle) (list_message_move_tasks (queue_arn sample_config ''orders-dlq'') 0 task_shop) = Inr [''b'', ''a'']"
    by code_simp
  then obtain ts where ts: "list_message_move_tasks (queue_arn sample_config ''orders-dlq'') 0 task_shop = Inr ts"
    by (cases "list_message_move_tasks (queue_arn sample_config ''orders-dlq'') 0 task_shop") auto
  with e list_move_tasks_newest_first[OF ts] show ?thesis by simp
qed

end
