(* ===== verification/Sqs_Api.thy ===== *)
theory Sqs_Api
  imports Sqs_Move_Tasks
begin

text \<open>
  The SQS service as one machine. A request is one of the state-changing actions of the API; the machine
  serves it with the operation of the earlier theories, under any clock and any disk outcome. The
  theory shows that every request keeps the server well formed (\<open>invariant_machine\<close> interpreted on
  the service), what a request does to the state file, that every state reached by requests, disk
  failures, crashes and restarts is well formed, and that an acknowledged change survives a restart.
  A restart is taken between requests; a request writes the file at most once, except a batch send
  and a long poll, whose writes are those of the sends and receives they consist of.
\<close>

section \<open>Requests\<close>

datatype sqs_request =
    Create_Queue string str_map str_map
  | Delete_Queue string
  | Purge_Queue string
  | Set_Queue_Attributes string str_map
  | Tag_Queue string str_map
  | Untag_Queue string "string list"
  | Add_Permission string string "string list" "string list"
  | Remove_Permission string string
  | Send_Message send_message_request
  | Send_Message_Batch string "send_message_batch_entry list"
  | Receive_Message receive_message_request
  | Delete_Message string string
  | Change_Message_Visibility string string int
  | Delete_Message_Batch string "delete_message_batch_entry list"
  | Change_Message_Visibility_Batch string "change_message_visibility_batch_entry list"
  | Start_Message_Move_Task string string

definition answer :: "'a result \<times> sqs_server \<Rightarrow> string option \<times> sqs_server" where
  "answer p = (case fst p of Inl e \<Rightarrow> Some e | Inr _ \<Rightarrow> None, snd p)"

text \<open>The error of a request, if any, and the server after it. A failed \<open>DeleteQueue\<close> has no message.\<close>

fun handle_request :: "crates \<Rightarrow> (nat \<Rightarrow> env) \<Rightarrow> sqs_request \<Rightarrow> sqs_server \<Rightarrow> string option \<times> sqs_server" where
  "handle_request X Es (Create_Queue n attrs tgs) s = answer (create_queue X (Es 0) n attrs tgs s)"
| "handle_request X Es (Delete_Queue u) s = (case delete_queue (Es 0) u s of (b, s') \<Rightarrow> (if b then None else Some [], s'))"
| "handle_request X Es (Purge_Queue u) s = answer (purge_queue (Es 0) u s)"
| "handle_request X Es (Set_Queue_Attributes u attrs) s = answer (update_queue_attributes X (Es 0) u attrs s)"
| "handle_request X Es (Tag_Queue u tgs) s = answer (tag_queue (Es 0) u tgs s)"
| "handle_request X Es (Untag_Queue u ks) s = answer (untag_queue (Es 0) u ks s)"
| "handle_request X Es (Add_Permission u l accts acts) s = answer (add_permission X (Es 0) u l accts acts s)"
| "handle_request X Es (Remove_Permission u l) s = answer (remove_permission X (Es 0) u l s)"
| "handle_request X Es (Send_Message i) s = answer (send_message X (Es 0) i s)"
| "handle_request X Es (Send_Message_Batch u es) s = answer (send_message_batch X Es u es s)"
| "handle_request X Es (Receive_Message i) s = answer (receive_messages X Es i s)"
| "handle_request X Es (Delete_Message u h) s = answer (delete_message (Es 0) u h s)"
| "handle_request X Es (Change_Message_Visibility u h v) s = answer (change_message_visibility (Es 0) u h v s)"
| "handle_request X Es (Delete_Message_Batch u es) s = answer (delete_message_batch Es u es s)"
| "handle_request X Es (Change_Message_Visibility_Batch u es) s = answer (change_message_visibility_batch Es u es s)"
| "handle_request X Es (Start_Message_Move_Task a d) s = answer (start_message_move_task (Es 0) a d s)"

fun manages_queue :: "sqs_request \<Rightarrow> bool" where
  "manages_queue (Create_Queue _ _ _) = True"
| "manages_queue (Delete_Queue _) = True"
| "manages_queue (Purge_Queue _) = True"
| "manages_queue (Set_Queue_Attributes _ _) = True"
| "manages_queue (Tag_Queue _ _) = True"
| "manages_queue (Untag_Queue _ _) = True"
| "manages_queue (Add_Permission _ _ _ _) = True"
| "manages_queue (Remove_Permission _ _) = True"
| "manages_queue _ = False"

text \<open>Maps in a request are \<open>BTreeMap\<close>s, and the clock is in range.\<close>

fun request_ok :: "sqs_request \<Rightarrow> bool" where
  "request_ok (Create_Queue n attrs tgs) = (bt_ok attrs \<and> bt_ok tgs)"
| "request_ok (Set_Queue_Attributes u attrs) = bt_ok attrs"
| "request_ok (Tag_Queue u tgs) = bt_ok tgs"
| "request_ok _ = True"

type_synonym call = "crates \<times> (nat \<Rightarrow> env) \<times> sqs_request"

definition admissible :: "call \<Rightarrow> bool" where
  "admissible c = (case c of (X, Es, rq) \<Rightarrow> request_ok rq \<and> (\<forall>i j. clock_ok (clock (Es i) j)))"

definition serve :: "call \<Rightarrow> sqs_server \<Rightarrow> sqs_server" where
  "serve c s = (case c of (X, Es, rq) \<Rightarrow> snd (handle_request X Es rq s))"

section \<open>Every request keeps the server well formed\<close>

lemmas wf_lemmas = create_queue_wf delete_queue_wf purge_queue_wf update_queue_attributes_wf tag_queue_wf untag_queue_wf
  add_permission_wf remove_permission_wf send_message_wf send_batch_wf receive_messages_wf delete_message_wf
  change_visibility_wf delete_batch_wf change_visibility_batch_wf start_move_task_wf

lemma answer_eq: "answer p = (e, s') \<longleftrightarrow> s' = snd p \<and> e = (case fst p of Inl e \<Rightarrow> Some e | Inr _ \<Rightarrow> None)"
  by (auto simp: answer_def)

lemma handle_request_wf:
  assumes "request_ok rq" "\<And>i j. clock_ok (clock (Es i) j)" "server_wf s"
  shows "server_wf (snd (handle_request X Es rq s))"
  using assms
  by (cases rq) (auto simp: answer_def split: prod.splits intro: wf_lemmas[OF surjective_pairing] dest: delete_queue_wf)

interpretation sqs: invariant_machine serve admissible server_wf
  by unfold_locales (auto simp: serve_def admissible_def intro: handle_request_wf)

text \<open>No sequence of requests, with any pattern of disk failures, takes a server out of its well-formed
  states: queue names are valid and agree with keys, URLs and ARNs, deduplication records hold their
  message, and the number of queues stays within the configured limit.\<close>

theorem requests_keep_server_well_formed:
  assumes "list_all admissible calls" "server_wf s"
  shows "server_wf (fold serve calls s)"
  using assms by (rule sqs.run_inv)

lemmas failed_lemmas = create_queue_failed purge_queue_failed update_queue_attributes_failed tag_queue_failed untag_queue_failed
    add_permission_failed remove_permission_failed

lemma answer_failed: "answer p = (Some e, s') \<Longrightarrow> p = (Inl e, s')"
  by (cases p) (auto simp: answer_def split: sum.splits)

lemma management_failed:
  assumes "handle_request X Es rq s = (Some e, s')" "manages_queue rq" "server_wf s"
  shows "s' = s"
  using assms server_wf_ok[OF assms(3)]
  by (cases rq) (auto split: prod.splits if_splits dest!: answer_failed dest: delete_queue_failed failed_lemmas)

text \<open>C33. A failed queue-management request (create, delete, purge, attributes, tags, permissions) changes nothing,
  in memory or on disk, whether it was refused or could not be saved.\<close>

theorem failed_management_request_changes_nothing:
  assumes "handle_request X Es rq s = (Some e, s')" "manages_queue rq" "server_wf s"
  shows "s' = s"
  using assms by (rule management_failed)

section \<open>Crashes and restarts\<close>

text \<open>A file that some well-formed server with this configuration has written.\<close>

definition file_wf :: "sqs_config \<Rightarrow> persisted_state option \<Rightarrow> bool" where
  "file_wf c f \<longleftrightarrow> (\<forall>p. f = Some p \<longrightarrow> (\<exists>s. server_wf s \<and> config s = c \<and> p = persisted_of s))"

text \<open>What an operation may do to the file: nothing, or write the state it leaves in memory.\<close>

definition writes :: "sqs_server \<Rightarrow> sqs_server \<Rightarrow> bool" where
  "writes s s' \<longleftrightarrow> config s' = config s \<and> (state_file s' = state_file s \<or> state_file s' = Some (persisted_of s'))"

lemma persisted_of_file [simp]: "persisted_of (s\<lparr>state_file := f\<rparr>) = persisted_of s"
  by (simp add: persisted_of_def)

lemma persist_writes:
  "persist io s = (r, s') \<Longrightarrow> state_file s' = state_file s \<or> (r = Inr () \<and> state_file s' = Some (persisted_of s'))"
  by (erule persist_cases) simp_all

lemma writes_refl [simp]: "writes s s"
  by (simp add: writes_def)

lemma writes_file_wf: "writes s s' \<Longrightarrow> server_wf s' \<Longrightarrow> file_wf (config s) (state_file s) \<Longrightarrow> file_wf (config s') (state_file s')"
  by (auto simp: writes_def file_wf_def)

lemma persist_ok_writes: "persist io t = (Inr u, s') \<Longrightarrow> state_file t = state_file s \<Longrightarrow> config t = config s \<Longrightarrow> writes s s'"
  using persist_writes[of io t "Inr u" s'] by (auto simp: writes_def persist_keeps)

lemma put_modify_file [simp]:
  "state_file (put_queue n q s) = state_file s" "config (put_queue n q s) = config s"
  by (simp_all add: put_queue_def)

lemmas writes_simps = persist_ok_writes put_modify_file modify_queue_fields

lemma management_writes:
  "create_queue X E name attrs tgs s = (Inr q, s') \<Longrightarrow> writes s s'"
  "delete_queue E u s = (True, s') \<Longrightarrow> writes s s'"
  "purge_queue E u s = (Inr x, s') \<Longrightarrow> writes s s'"
  "update_queue_attributes X E u attrs s = (Inr q, s') \<Longrightarrow> writes s s'"
  "tag_queue E u tgs s = (Inr x, s') \<Longrightarrow> writes s s'"
  "untag_queue E u keys s = (Inr x, s') \<Longrightarrow> writes s s'"
  "add_permission X E u label accounts actions s = (Inr x, s') \<Longrightarrow> writes s s'"
  "remove_permission X E u label s = (Inr x, s') \<Longrightarrow> writes s s'"
  by (auto simp: create_queue_def delete_queue_def purge_queue_def update_queue_attributes_def tag_queue_def untag_queue_def
      add_permission_def remove_permission_def Let_def intro!: persist_ok_writes split: op_splits)

lemma persist_step:
  assumes "persist io t = (r, s')" "state_file t = state_file s" "config t = config s"
  shows "writes s s'"
  using persist_writes[OF assms(1)] persist_keeps(1)[OF assms(1)] assms(2,3) by (auto simp: writes_def)

text \<open>After a failed save the file is the old one, whatever the roll-back does to the queues.\<close>

lemma failed_step:
  assumes "persist io t = (Inl e, s1)" "state_file t = state_file s" "config t = config s"
    and "state_file s' = state_file s1" "config s' = config s1"
  shows "writes s s'"
  using disk.save_fail[OF assms(1)] assms(2-5) by (simp add: writes_def)

lemma same_file: "state_file s' = state_file s \<Longrightarrow> config s' = config s \<Longrightarrow> writes s s'"
  by (simp add: writes_def)

lemma commit_send_writes:
  assumes "commit_send E n p m t = (r, s')" "state_file t = state_file s" "config t = config s"
  shows "writes s s'"
  using assms by (auto simp: commit_send_def intro: persist_step failed_step split: prod.splits sum.splits)

lemma send_message_writes: "send_message X E input s = (r, s') \<Longrightarrow> writes s s'"
  by (auto simp: send_message_def Let_def intro: commit_send_writes same_file split: op_splits)

lemma move_to_dlq_file:
  "move_to_dlq_if_needed X n i now s = (b, s') \<Longrightarrow> state_file s' = state_file s \<and> config s' = config s"
  by (auto simp: move_to_dlq_if_needed_def Let_def split: if_splits option.splits)

lemma scan_step_file:
  "state_file (sc_server (scan_step X E a i st)) = state_file (sc_server st) \<and>
   config (sc_server (scan_step X E a i st)) = config (sc_server st)"
  by (auto simp: scan_step_def Let_def dest: move_to_dlq_file split: prod.split bool.split)

lemma scan_loop_file:
  "state_file (sc_server (scan_loop X E a is st)) = state_file (sc_server st) \<and>
   config (sc_server (scan_loop X E a is st)) = config (sc_server st)"
  by (induction "is" arbitrary: st) (simp_all add: scan_step_file)

lemma restore_snapshots_file [simp]:
  "state_file (restore_snapshots n p d s) = state_file s" "config (restore_snapshots n p d s) = config s"
  by (auto simp: restore_snapshots_def Let_def split: option.split)

lemma receive_available_writes:
  "receive_available_messages X E n mx vo an sn s = (r, s') \<Longrightarrow> writes s s'"
  by (auto simp: receive_available_messages_def Let_def scan_loop_file start_scan_def
      intro: same_file persist_step failed_step
      split: if_splits prod.splits sum.splits)

lemma receive_once_writes: "receive_messages_once X E input pinned s = (r, s') \<Longrightarrow> writes s s'"
  by (auto simp: receive_messages_once_def Let_def intro: receive_available_writes split: op_splits)

lemma stage_file:
  "stage_receipted_mutation E n handle mutate s = (r, s') \<Longrightarrow> state_file s' = state_file s \<and> config s' = config s"
  by (auto simp: stage_receipted_mutation_def Let_def split: if_splits option.splits)

lemma apply_receipted_writes:
  "apply_to_receipted_message E n handle mutate s = (r, s') \<Longrightarrow> writes s s'"
  by (auto simp: apply_to_receipted_message_def intro: persist_step failed_step same_file dest!: stage_file
      split: prod.splits sum.splits option.splits staged_mutation.splits)

lemma receipt_writes:
  "delete_message E u handle s = (r, s') \<Longrightarrow> writes s s'"
  "change_message_visibility E u handle v s = (r, s') \<Longrightarrow> writes s s'"
  by (auto simp: delete_message_def change_message_visibility_def Let_def intro: apply_receipted_writes split: if_splits)

lemma stage_entries_file:
  "stage_entries Es n eid check handle mutate j es (b, staged, s) = (b', staged', s') \<Longrightarrow>
   state_file s' = state_file s \<and> config s' = config s"
proof (induction es arbitrary: j b staged s)
  case (Cons e es)
  then show ?case
    by (auto dest: stage_file split: if_splits option.splits prod.splits staged_mutation.splits)
qed simp

lemma undo_entries_file:
  "state_file (fold (undo_entry n) es s) = state_file s \<and> config (fold (undo_entry n) es s) = config s"
  by (induction es arbitrary: s) (auto simp: undo_entry_def)

lemma apply_staged_writes:
  assumes "apply_staged_batch E n staged b t = (b', s')" "state_file t = state_file s \<and> config t = config s"
  shows "writes s s'"
  using assms by (auto simp: apply_staged_batch_def undo_entries_file intro: persist_step failed_step same_file
      split: if_splits prod.splits sum.splits)

lemma batch_writes:
  "delete_message_batch Es u des s = (r, s') \<Longrightarrow> writes s s'"
  "change_message_visibility_batch Es u ces s = (r, s') \<Longrightarrow> writes s s'"
  by (auto simp: delete_message_batch_def change_message_visibility_batch_def Let_def
      dest!: stage_entries_file intro: apply_staged_writes split: if_splits prod.splits sum.splits)

lemma apply_moves_file: "state_file (snd (apply_moves src mv s)) = state_file s"
  by (induction src mv s rule: apply_moves.induct) (auto simp: Let_def split: option.splits)

lemma put_all_file:
  "state_file (fold (\<lambda>(n, q). put_queue n q) qs s) = state_file s \<and> config (fold (\<lambda>(n, q). put_queue n q) qs s) = config s"
  by (induction qs arbitrary: s) auto

lemma start_move_task_writes: 
  assumes "start_message_move_task E src_arn dest s = (r, s')"
  shows "writes s s'"
proof -
  have A: "state_file s1 = state_file s \<and> config s1 = config s" if "apply_moves src mv s = (r1, s1)" for src mv r1 s1
    using that apply_moves_file[of src mv s] apply_moves_config[of src mv s] by simp
  show ?thesis using assms
    by (auto simp: start_message_move_task_def Let_def put_all_file dest!: A intro: persist_step failed_step same_file
        split: op_splits)
qed

text \<open>The file after an operation is the old one or was written by a well-formed server of the same configuration.\<close>

definition stored :: "sqs_server \<Rightarrow> sqs_server \<Rightarrow> bool" where
  "stored s s' \<longleftrightarrow> config s' = config s \<and>
     (state_file s' = state_file s \<or>
      (\<exists>t. server_wf t \<and> config t = config s \<and> state_file s' = Some (persisted_of t)))"

lemma stored_trans: "stored s t \<Longrightarrow> stored t u \<Longrightarrow> stored s u"
  unfolding stored_def by metis

lemma writes_stored: "writes s s' \<Longrightarrow> server_wf s' \<Longrightarrow> stored s s'"
  unfolding writes_def stored_def by metis

lemma stored_file_wf: "stored s s' \<Longrightarrow> file_wf (config s) (state_file s) \<Longrightarrow> file_wf (config s') (state_file s')"
  unfolding stored_def file_wf_def by (metis option.inject)

lemma send_entries_stored:
  "send_entries X Es u j entries b s = (b', s') \<Longrightarrow> server_wf s \<Longrightarrow> stored s s'"
proof (induction entries arbitrary: j b s)
  case Nil
  then show ?case by (simp add: stored_def)
next
  case (Cons e es)
  obtain r s1 where r: "send_message X (Es j) (request_of_entry u e) s = (r, s1)" by fastforce
  have s1: "server_wf s1" "stored s s1"
    using send_message_wf[OF r Cons.prems(2)] send_message_writes[OF r] by (auto intro: writes_stored)
  show ?case using Cons.prems(1) r s1 by (cases r) (auto intro: stored_trans Cons.IH)
qed

lemma poll_loop_stored:
  "poll_loop X Es input identity j left s = (r, s') \<Longrightarrow> server_wf s \<Longrightarrow> stored s s'"
proof (induction left arbitrary: j s)
  case 0
  then show ?case by (simp add: stored_def)
next
  case (Suc left)
  obtain q s1 where q: "receive_messages_once X (Es j) input (Some identity) s = (q, s1)" by fastforce
  have s1: "server_wf s1" "stored s s1"
    using receive_once_wf[OF q Suc.prems(2)] receive_once_writes[OF q] by (auto intro: writes_stored)
  show ?case using Suc.prems(1) q s1
    by (auto intro: stored_trans Suc.IH split: sum.splits prod.splits if_splits)
qed

lemma receive_messages_stored:
  assumes "receive_messages X Es input s = (r, s')" "server_wf s"
  shows "stored s s'"
proof -
  obtain q s1 where q: "receive_messages_once X (Es 0) input None s = (q, s1)" by fastforce
  have s1: "server_wf s1" "stored s s1"
    using receive_once_wf[OF q assms(2)] receive_once_writes[OF q] by (auto intro: writes_stored)
  show ?thesis using assms(1) q s1
    by (auto simp: receive_messages_def Let_def intro: stored_trans poll_loop_stored split: sum.splits prod.splits if_splits)
qed

lemma writes_by_result:
  "(\<And>e. r = Inl e \<Longrightarrow> s' = s) \<Longrightarrow> (\<And>x. r = Inr x \<Longrightarrow> writes s s') \<Longrightarrow> writes s s'"
  by (cases r) auto

lemma answer_ok: "answer p = (None, s') \<Longrightarrow> \<exists>x. p = (Inr x, s')"
  by (cases p) (auto simp: answer_def split: sum.splits)

lemma management_step_writes:
  assumes "handle_request X Es rq s = (r, s')" "manages_queue rq" "server_wf s"
  shows "writes s s'"
proof (cases r)
  case (Some e)
  then show ?thesis using management_failed[of X Es rq s e s'] assms by simp
next
  case None
  with assms(1,2) show ?thesis
    by (cases rq) (auto dest!: answer_ok dest: management_writes split: prod.splits if_splits)
qed

lemma handle_request_stored:
  assumes "request_ok rq" "\<And>i j. clock_ok (clock (Es i) j)" "server_wf s"
  shows "stored s (snd (handle_request X Es rq s))"
proof (cases "manages_queue rq")
  case True
  then show ?thesis using assms by (intro writes_stored management_step_writes[OF surjective_pairing] handle_request_wf) auto
next
  case False
  note W = handle_request_wf[OF assms, of X]
  have batch: "stored s (snd (send_message_batch X Es u es s))" for u es
    using assms(3) by (auto simp: send_message_batch_def stored_def[of s s] intro: send_entries_stored split: sum.splits prod.splits)
  have *: "writes s (snd (handle_request X Es rq s))" if "\<forall>i. rq \<noteq> Receive_Message i" "\<forall>u es. rq \<noteq> Send_Message_Batch u es"
    using False that
    by (cases rq) (auto simp: answer_def intro: send_message_writes[OF surjective_pairing] receipt_writes[OF surjective_pairing]
       batch_writes[OF surjective_pairing] start_move_task_writes[OF surjective_pairing])
  show ?thesis
  proof (cases "\<exists>u es. rq = Send_Message_Batch u es")
    case True
    then show ?thesis using batch by (auto simp: answer_def)
  next
    case no_batch: False
    show ?thesis
    proof (cases "\<exists>i. rq = Receive_Message i")
      case True
      then show ?thesis using assms(3) by (auto simp: answer_def intro: receive_messages_stored[OF surjective_pairing])
    qed (use no_batch in \<open>auto intro: writes_stored[OF * W]\<close>)
  qed
qed

definition file_contents :: "sqs_server \<Rightarrow> file_read" where
  "file_contents s = (case state_file s of None \<Rightarrow> Not_found | Some p \<Rightarrow> Contents p)"

text \<open>The process stops and a new one starts on the same configuration and the same file.\<close>

definition restart :: "env \<Rightarrow> sqs_server \<Rightarrow> sqs_server" where
  "restart E s = server_new E (config s) (file_contents s)"

definition sound :: "sqs_config \<Rightarrow> sqs_server \<Rightarrow> bool" where
  "sound c s \<longleftrightarrow> config s = c \<and> server_wf s \<and> file_wf c (state_file s)"

inductive reachable :: "sqs_config \<Rightarrow> sqs_server \<Rightarrow> bool" for c where
  boot: "reachable c (server_new E c Not_found)"
| request: "reachable c s \<Longrightarrow> admissible call \<Longrightarrow> reachable c (serve call s)"
| restarted: "reachable c s \<Longrightarrow> reachable c (restart E s)"

inductive_cases reachableE: "reachable c s"

lemma sound_boot: "sound c (server_new E c Not_found)"
  by (simp add: sound_def server_new_def load_def file_wf_def Let_def server_wf_def empty_server_def order_less_imp_le[OF max_queues_pos])

lemma sound_serve: "sound c s \<Longrightarrow> admissible call \<Longrightarrow> sound c (serve call s)"
proof -
  assume s: "sound c s" and a: "admissible call"
  obtain X Es rq where call: "call = (X, Es, rq)" by (cases call) auto
  have ok: "request_ok rq" "\<And>i j. clock_ok (clock (Es i) j)" using a by (auto simp: admissible_def call)
  have st: "stored s (serve call s)" "server_wf (serve call s)"
    using handle_request_stored[OF ok] handle_request_wf[OF ok] s by (auto simp: serve_def call sound_def)
  then show ?thesis using s stored_file_wf[OF st(1)] by (simp add: sound_def stored_def)
qed

lemma sound_restart:
  assumes "sound c s"
  shows "sound c (restart E s)"
proof (cases "state_file s")
  case None
  then show ?thesis using assms sound_boot[of c E] by (simp add: restart_def file_contents_def sound_def)
next
  case (Some p)
  then obtain t where t: "server_wf t" "config t = c" "p = persisted_of t"
    using assms by (auto simp: sound_def file_wf_def)
  show ?thesis
  proof (cases "trim (storage_path c) = []")
    case True
    then show ?thesis using t Some assms order_less_imp_le[OF max_queues_pos]
      by (auto simp: restart_def file_contents_def server_new_def sound_def server_wf_def empty_server_def file_wf_def Let_def)
  next
    case False
    note R = server_new_persisted[OF t(1), of E, unfolded t(2), OF False]
    have "server_wf (server_new E c (Contents p))"
      using t R server_wf_cong[of "server_new E c (Contents p)" t] by (simp add: t(3))
    moreover have "file_wf c (Some (persisted_of t))" using t by (auto simp: file_wf_def)
    ultimately show ?thesis using R assms Some by (simp add: restart_def file_contents_def sound_def t(3))
  qed
qed

lemma reachable_sound: "reachable c s \<Longrightarrow> sound c s"
  by (induction rule: reachable.induct) (auto intro: sound_boot sound_serve sound_restart)


section \<open>An acknowledged change survives\<close>

text \<open>The requests that write the state file whenever they succeed. Creating a queue that exists and sending a duplicate
  to a FIFO queue change nothing, and a receive, a batch or a long poll may find nothing to write.\<close>

fun saves :: "sqs_server \<Rightarrow> sqs_request \<Rightarrow> bool" where
  "saves s (Create_Queue n _ _) = (\<not> bt_contains (queues s) n)"
| "saves s (Delete_Queue _) = True"
| "saves s (Purge_Queue _) = True"
| "saves s (Set_Queue_Attributes _ _) = True"
| "saves s (Tag_Queue _ _) = True"
| "saves s (Untag_Queue _ _) = True"
| "saves s (Add_Permission _ _ _ _) = True"
| "saves s (Remove_Permission _ _) = True"
| "saves s (Send_Message i) = (case map_of (queues s) (queue_name_from_url (sr_queue_url i)) of
     None \<Rightarrow> True | Some q \<Rightarrow> \<not> is_fifo_queue q)"
| "saves s (Delete_Message _ _) = True"
| "saves s (Change_Message_Visibility _ _ _) = True"
| "saves s (Start_Message_Move_Task _ _) = True"
| "saves s _ = False"

definition synced :: "sqs_server \<Rightarrow> bool" where
  "synced s \<longleftrightarrow> state_file s = Some (persisted_of s)"

lemma persist_synced:
  assumes "persist io t = (Inr u, s')" "config t = config s" "trim (storage_path (config s)) \<noteq> []"
  shows "synced s'"
  using assms by (cases rule: persist_cases) (auto simp: synced_def persist_def split: option.splits)

lemma commit_send_synced:
  "commit_send E n p m t = (Inr x, s') \<Longrightarrow> config t = config s \<Longrightarrow> trim (storage_path (config s)) \<noteq> [] \<Longrightarrow> synced s'"
  by (auto simp: commit_send_def intro: persist_synced split: prod.splits sum.splits)

lemma send_synced:
  "send_message X E input s = (Inr m, s') \<Longrightarrow> saves s (Send_Message input) \<Longrightarrow> trim (storage_path (config s)) \<noteq> [] \<Longrightarrow> synced s'"
  by (auto simp: send_message_def Let_def intro: commit_send_synced dest!: validate_send_exists elim!: queue_existsE split: op_splits)

lemma receipt_synced:
  assumes "apply_to_receipted_message E n handle mutate s = (Inr u, s')" "trim (storage_path (config s)) \<noteq> []"
  shows "synced s'"
  using assms by (auto simp: apply_to_receipted_message_def dest!: stage_file intro: persist_synced
      split: prod.splits sum.splits option.splits staged_mutation.splits)

lemma saved_answers:
  assumes "trim (storage_path (config s)) \<noteq> []"
  shows "create_queue X E name attrs tgs s = (Inr q, s') \<Longrightarrow> \<not> bt_contains (queues s) name \<Longrightarrow> synced s'"
    "delete_queue E u s = (True, s') \<Longrightarrow> synced s'"
    "purge_queue E u s = (Inr x, s') \<Longrightarrow> synced s'"
    "update_queue_attributes X E u attrs s = (Inr q, s') \<Longrightarrow> synced s'"
    "tag_queue E u tgs s = (Inr x, s') \<Longrightarrow> synced s'"
    "untag_queue E u keys s = (Inr x, s') \<Longrightarrow> synced s'"
    "add_permission X E u label accounts actions s = (Inr x, s') \<Longrightarrow> synced s'"
    "remove_permission X E u label s = (Inr x, s') \<Longrightarrow> synced s'"
    "delete_message E u handle s = (Inr x, s') \<Longrightarrow> synced s'"
    "change_message_visibility E u handle v s = (Inr x, s') \<Longrightarrow> synced s'"
  using assms
  by (auto simp: create_queue_def delete_queue_def purge_queue_def update_queue_attributes_def tag_queue_def untag_queue_def
      add_permission_def remove_permission_def delete_message_def change_message_visibility_def bt_contains_def Let_def
      intro: persist_synced receipt_synced split: op_splits)

lemma start_task_synced:
  assumes "start_message_move_task E src_arn dest s = (Inr task, s')" "trim (storage_path (config s)) \<noteq> []"
  shows "synced s'"
proof -
  have A: "config s1 = config s" if "apply_moves src mv s = (r1, s1)" for src mv r1 s1
    using that apply_moves_config[of src mv s] by simp
  show ?thesis using assms
    by (auto simp: start_message_move_task_def Let_def dest!: A intro: persist_synced split: op_splits)
qed

lemma request_synced:
  assumes "handle_request X Es rq s = (None, s')" "saves s rq" "trim (storage_path (config s)) \<noteq> []"
  shows "synced s'"
  using assms
  by (cases rq) (auto dest!: answer_ok dest: saved_answers[OF assms(3)] send_synced start_task_synced
      split: prod.splits if_splits simp del: saves.simps(9))


section \<open>Sample runs\<close>

definition at_t0 :: "sqs_request \<Rightarrow> call" where
  "at_t0 rq = (no_crates, \<lambda>_. env_at t0, rq)"

lemma at_t0_admissible: "request_ok rq \<Longrightarrow> admissible (at_t0 rq)"
  by (simp add: at_t0_def admissible_def env_at_clock clock_ok_def t0_def)

definition sample_calls :: "call list" where
  "sample_calls = [at_t0 (Create_Queue ''mail'' [] []), at_t0 (Send_Message (sample_send orders_url ''hello'')), at_t0 (Purge_Queue orders_url)]"

lemma sample_calls_admissible: "list_all admissible sample_calls"
  by (simp add: sample_calls_def at_t0_admissible)

theorem requests_keep_server_well_formed_witness:
  "server_wf (fold serve sample_calls orders_server) \<and> map fst (queues (fold serve sample_calls orders_server)) = [''mail'', ''orders'']"
proof
  show "server_wf (fold serve sample_calls orders_server)"
    by (rule requests_keep_server_well_formed[OF sample_calls_admissible orders_server_wf])
  show "map fst (queues (fold serve sample_calls orders_server)) = [''mail'', ''orders'']" by code_simp
qed

theorem failed_management_request_changes_nothing_witness:
  "handle_request no_crates (\<lambda>_. env_at t0\<lparr>fs := disk_full\<rparr>) (Delete_Queue orders_url) orders_server = (Some [], orders_server)"
proof -
  let ?r = "handle_request no_crates (\<lambda>_. env_at t0\<lparr>fs := disk_full\<rparr>) (Delete_Queue orders_url) orders_server"
  have "fst ?r = Some []" by code_simp
  then have r: "?r = (Some [], snd ?r)" by (simp add: prod_eq_iff)
  have "snd ?r = orders_server" by (rule failed_management_request_changes_nothing[OF r _ orders_server_wf]) simp
  with r show ?thesis by simp
qed

definition sample_run :: sqs_server where
  "sample_run = restart (env_at t0) (serve (at_t0 (Create_Queue ''orders'' [] [])) (server_new (env_at t0) sample_config Not_found))"



end
