(* ===== verification/Ssm.thy ===== *)
theory Ssm
  imports Contracts
begin

text \<open>
  \<open>services/ssm/src/server.rs\<close>: the parameter store. The \<open>Server\<close> struct is the record \<open>ssm_server\<close>
  with the decoded content of \<open>state.json\<close> beside it (\<open>ssm_file\<close>, \<open>None\<close> when there is no file). The
  bodies of responses are JSON values; a time is kept as the milliseconds that the source divides by
  1000.0. Decoding a request body (\<open>serde_json\<close>) and hashing (\<open>sha2\<close>, \<open>hex\<close>) are parameters, in the
  record \<open>ssm_crates\<close>. An operation returns its outcome with the server after it; a refusal is the
  left value of a sum. \<open>Version\<close> is a \<open>u64\<close>.
\<close>

section \<open>Data\<close>

datatype body_json =
    J_string string
  | J_number nat
  | J_millis nat
  | J_object "(string \<times> body_json) list"
  | J_array "body_json list"

record ssm_config =
  ssm_addr :: string
  ssm_region :: string
  ssm_account_id :: string
  ssm_auth_mode :: string
  ssm_access_key_id :: string
  ssm_secret_access_key :: string
  ssm_storage_path :: string

record outcome =
  o_status :: nat
  o_error_type :: "string option"
  o_body :: body_json

record parameter =
  par_kind :: string
  par_value :: string
  par_version :: "64 word"
  par_last_modified :: nat
  par_description :: string
  par_key_id :: string
  par_tier :: string
  par_data_type :: string

type_synonym parameters = "(string, parameter) bmap"

record ssm_server =
  ssm_config :: ssm_config
  ssm_state :: parameters
  ssm_load_err :: "string option"
  ssm_file :: "parameters option"

record put_parameter_request =
  put_name :: string
  put_value :: "string option"
  put_kind :: string
  put_overwrite :: bool
  put_description :: string
  put_key_id :: string
  put_tier :: string
  put_data_type :: string

record get_parameter_request =
  get_name :: string
  get_with_decryption :: bool

record delete_parameter_request =
  del_name :: string

record describe_parameters_request =
  dsc_max_results :: "int option"
  dsc_next_token :: string
  dsc_filters :: "body_json list"
  dsc_parameter_filters :: "body_json list"

record ssm_crates =
  decode_put :: "string \<Rightarrow> put_parameter_request option"
  decode_get :: "string \<Rightarrow> get_parameter_request option"
  decode_delete :: "string \<Rightarrow> delete_parameter_request option"
  decode_describe :: "string \<Rightarrow> describe_parameters_request option"
  sha256_hex :: "string \<Rightarrow> string"

definition MAX_NAME_CHARS :: nat where "MAX_NAME_CHARS = 2048"

definition MAX_STANDARD_VALUE_BYTES :: nat where "MAX_STANDARD_VALUE_BYTES = 4096"

definition MAX_ADVANCED_VALUE_BYTES :: nat where "MAX_ADVANCED_VALUE_BYTES = 8192"

definition DEFAULT_DESCRIBE_PAGE :: nat where "DEFAULT_DESCRIBE_PAGE = 50"

definition MAX_DESCRIBE_PAGE :: nat where "MAX_DESCRIBE_PAGE = 50"

section \<open>Outcomes\<close>

definition outcome_ok :: "body_json \<Rightarrow> outcome" where
  "outcome_ok b = \<lparr>o_status = 200, o_error_type = None, o_body = b\<rparr>"

definition error_outcome :: "nat \<Rightarrow> string \<Rightarrow> string \<Rightarrow> outcome" where
  "error_outcome status name message =
     \<lparr>o_status = status, o_error_type = Some name,
      o_body = J_object [(''__type'', J_string name), (''message'', J_string message)]\<rparr>"

definition validation :: "string \<Rightarrow> outcome" where
  "validation message = error_outcome 400 ''ValidationException'' message"

definition parameter_not_found :: "string \<Rightarrow> outcome" where
  "parameter_not_found name = error_outcome 400 ''ParameterNotFound'' (''Parameter '' @ name @ '' not found.'')"

definition not_persisted :: outcome where
  "not_persisted = error_outcome 500 ''InternalServerError'' ''failed to persist ssm state''"

section \<open>Requests and names\<close>

definition decode :: "(string \<Rightarrow> 'a option) \<Rightarrow> string \<Rightarrow> outcome + 'a" where
  "decode from_slice body =
     or_else (from_slice (if body = [] then ''{}'' else body))
       (error_outcome 400 ''SerializationException'' ''invalid request body'')"

definition now_epoch_millis :: "env \<Rightarrow> nat" where
  "now_epoch_millis E = clock E 0 div 10 ^ 6"

definition name_char :: "char \<Rightarrow> bool" where
  "name_char c \<longleftrightarrow> is_ascii_alphanumeric c \<or> c \<in> set ''_.-/''"

definition validate_name :: "string \<Rightarrow> outcome + unit" where
  "validate_name name =
     (if name = [] then Inl (validation ''Parameter name must not be empty.'')
      else if length (chars name) > MAX_NAME_CHARS then
        Inl (validation ''Parameter name exceeds the maximum length of 2048 characters.'')
      else if CHR ''/'' \<in> set name \<and> \<not> starts_with name ''/'' then
        Inl (validation ''Parameter name: hierarchical names must begin with a forward slash (/).'')
      else let first_segment = to_ascii_lowercase (trim_start_matches (CHR ''/'') name) in
        if starts_with first_segment ''aws'' \<or> starts_with first_segment ''ssm'' then
          Inl (validation (''Parameter name: can'' @ [CHR 0x27] @
             ''t be prefixed with \"aws\" or \"ssm\" (case-insensitive).''))
        else if \<not> list_all name_char name then
          Inl (validation
            ''Parameter name: only a mix of letters, numbers and the following 4 symbols .-_/ are allowed.'')
        else Inr ())"

definition split_selector :: "string \<Rightarrow> outcome + (string \<times> nat option)" where
  "split_selector name =
     (case rsplit_once (CHR '':'') name of
        None \<Rightarrow> Inr (name, None)
      | Some (base, selector) \<Rightarrow>
          (case parse_u64 selector of
             Some v \<Rightarrow> Inr (base, Some v)
           | None \<Rightarrow> Inl (validation
               ''Parameter labels are not supported by devcloud; use a numeric version selector.'')))"

definition encrypted_placeholder :: "ssm_crates \<Rightarrow> string \<Rightarrow> string" where
  "encrypted_placeholder X value = ''devcloud-kms-encrypted:'' @ sha256_hex X value"

section \<open>Starting and saving\<close>

datatype state_read =
    State_missing
  | State_unreadable string
  | State_undecodable string
  | State_of parameters

definition ssm_load :: "state_read \<Rightarrow> ssm_server \<Rightarrow> unit result \<times> ssm_server" where
  "ssm_load f s =
     (case f of
        State_missing \<Rightarrow> (Inr (), s)
      | State_unreadable e \<Rightarrow> (Inl e, s)
      | State_undecodable e \<Rightarrow> (Inl e, s)
      | State_of ps \<Rightarrow> (Inr (), s\<lparr>ssm_state := ps\<rparr>))"

definition ssm_new :: "ssm_config \<Rightarrow> state_read \<Rightarrow> ssm_server" where
  "ssm_new c f =
     (let s = \<lparr>ssm_config = c, ssm_state = [], ssm_load_err = None,
               ssm_file = (case f of State_of ps \<Rightarrow> Some ps | _ \<Rightarrow> None)\<rparr> in
      if ssm_storage_path c = [] then s
      else (case ssm_load f s of
              (Inl e, s') \<Rightarrow> s'\<lparr>ssm_load_err := Some e\<rparr>
            | (Inr _, s') \<Rightarrow> s'))"

text \<open>The file is replaced by a rename, so it changes only when all three steps succeed.\<close>

definition ssm_persist :: "fs_outcome \<Rightarrow> ssm_server \<Rightarrow> unit result \<times> ssm_server" where
  "ssm_persist io s =
     (if ssm_storage_path (ssm_config s) = [] then (Inr (), s)
      else case create_dir_err io of Some e \<Rightarrow> (Inl e, s)
      | None \<Rightarrow> (case write_err io of Some e \<Rightarrow> (Inl e, s)
      | None \<Rightarrow> (case rename_err io of Some e \<Rightarrow> (Inl e, s)
      | None \<Rightarrow> (Inr (), s\<lparr>ssm_file := Some (ssm_state s)\<rparr>))))"

definition region_of :: "ssm_config \<Rightarrow> string" where
  "region_of c = (if ssm_region c = [] then ''us-east-1'' else ssm_region c)"

definition account_id_of :: "ssm_config \<Rightarrow> string" where
  "account_id_of c = (if ssm_account_id c = [] then ''000000000000'' else ssm_account_id c)"

definition parameter_arn :: "ssm_config \<Rightarrow> string \<Rightarrow> string" where
  "parameter_arn c name =
     (let path = (if starts_with name ''/'' then name else ''/'' @ name) in
      ''arn:aws:ssm:'' @ region_of c @ '':'' @ account_id_of c @ '':parameter'' @ path)"

section \<open>Operations\<close>

text \<open>The checks of \<open>put_parameter\<close> that do not look at the stored parameters: the value, tier and
  data type the request stands for.\<close>

definition check_put :: "put_parameter_request \<Rightarrow> outcome + (string \<times> string \<times> string)" where
  "check_put req =
     (case validate_name (put_name req) of Inl o' \<Rightarrow> Inl o' | Inr _ \<Rightarrow>
      (case put_value req of None \<Rightarrow> Inl (validation ''Value is required.'') | Some value \<Rightarrow>
       if value = [] then Inl (validation ''Parameter value must not be empty.'')
       else if put_kind req \<noteq> [] \<and> put_kind req \<notin> {''String'', ''StringList'', ''SecureString''} then
         Inl (validation ''Type must be one of String, StringList, SecureString.'')
       else if put_tier req \<notin> {'''', ''Standard'', ''Intelligent-Tiering'', ''Advanced''} then
         Inl (validation ''Tier must be one of Standard, Advanced, Intelligent-Tiering.'')
       else let tier = (if put_tier req = ''Advanced'' then ''Advanced'' else ''Standard'');
                limit = (if tier = ''Advanced'' then MAX_ADVANCED_VALUE_BYTES else MAX_STANDARD_VALUE_BYTES) in
         if length value > limit then
           Inl (validation (''Parameter value exceeds the maximum size of '' @ dec limit @ '' bytes for the '' @ tier @ '' tier.''))
         else if put_data_type req \<in> {'''', ''text''} then Inr (value, tier, ''text'')
         else if put_data_type req \<in> {''aws:ec2:image'', ''aws:ssm:integration''} then
           Inr (value, tier, put_data_type req)
         else Inl (validation ''DataType must be one of text, aws:ec2:image, aws:ssm:integration.'')))"

text \<open>The parameter a checked request leaves, given the one it replaces.\<close>

definition put_kind_for :: "put_parameter_request \<Rightarrow> parameter option \<Rightarrow> outcome + string" where
  "put_kind_for req previous =
     (if previous \<noteq> None \<and> \<not> put_overwrite req then
        Inl (error_outcome 400 ''ParameterAlreadyExists''
          ''The parameter already exists. To overwrite this value, set the overwrite option in the request to true.'')
      else if put_kind req \<noteq> [] then Inr (put_kind req)
      else (case previous of
              Some p \<Rightarrow> Inr (par_kind p)
            | None \<Rightarrow> Inl (validation ''Type is required when creating a parameter.'')))"

definition next_version :: "parameter option \<Rightarrow> 64 word" where
  "next_version previous = (case previous of None \<Rightarrow> 1 | Some p \<Rightarrow> par_version p + 1)"

definition put_entry ::
    "env \<Rightarrow> put_parameter_request \<Rightarrow> string \<Rightarrow> string \<times> string \<times> string \<Rightarrow> parameter option \<Rightarrow> parameter" where
  "put_entry E req kind checked previous =
     (case checked of (value, tier, data_type) \<Rightarrow>
      \<lparr>par_kind = kind, par_value = value, par_version = next_version previous,
       par_last_modified = now_epoch_millis E,
       par_description = (if put_description req = [] then
           (case previous of Some p \<Rightarrow> par_description p | None \<Rightarrow> []) else put_description req),
       par_key_id = (if kind = ''SecureString'' then
           (if put_key_id req = [] then ''alias/aws/ssm'' else put_key_id req) else []),
       par_tier = tier, par_data_type = data_type\<rparr>)"

definition put_parameter :: "ssm_crates \<Rightarrow> env \<Rightarrow> string \<Rightarrow> ssm_server \<Rightarrow> outcome \<times> ssm_server" where
  "put_parameter X E body s =
     (case decode (decode_put X) body of Inl o' \<Rightarrow> (o', s) | Inr req \<Rightarrow>
      (case check_put req of Inl o' \<Rightarrow> (o', s) | Inr checked \<Rightarrow>
       let previous = map_of (ssm_state s) (put_name req) in
       (case put_kind_for req previous of Inl o' \<Rightarrow> (o', s) | Inr kind \<Rightarrow>
        let p = put_entry E req kind checked previous in
        (case ssm_persist (fs E) (s\<lparr>ssm_state := bt_insert (put_name req) p (ssm_state s)\<rparr>) of
           (Inl _, s') \<Rightarrow>
             (not_persisted,
              s'\<lparr>ssm_state := (case previous of
                   Some p \<Rightarrow> bt_insert (put_name req) p (ssm_state s')
                 | None \<Rightarrow> bt_remove (put_name req) (ssm_state s'))\<rparr>)
         | (Inr _, s') \<Rightarrow>
             (outcome_ok (J_object [(''Version'', J_number (unat (par_version p))), (''Tier'', J_string (par_tier p))]), s')))))"

definition get_parameter :: "ssm_crates \<Rightarrow> string \<Rightarrow> ssm_server \<Rightarrow> outcome" where
  "get_parameter X body s =
     (case decode (decode_get X) body of Inl o' \<Rightarrow> o' | Inr req \<Rightarrow>
      (case split_selector (get_name req) of Inl o' \<Rightarrow> o' | Inr (name, version) \<Rightarrow>
       (case validate_name name of Inl o' \<Rightarrow> o' | Inr _ \<Rightarrow>
        (case map_of (ssm_state s) name of None \<Rightarrow> parameter_not_found (get_name req) | Some p \<Rightarrow>
         if (case version of Some v \<Rightarrow> v \<noteq> unat (par_version p) | None \<Rightarrow> False) then
           error_outcome 400 ''ParameterVersionNotFound''
             (''Systems Manager could not find version '' @ dec (the version) @ '' of '' @ name @ ''.'')
         else let value = (if par_kind p = ''SecureString'' \<and> \<not> get_with_decryption req
                           then encrypted_placeholder X (par_value p) else par_value p) in
           outcome_ok (J_object [(''Parameter'', J_object (
             [(''Name'', J_string name), (''Type'', J_string (par_kind p)), (''Value'', J_string value),
              (''Version'', J_number (unat (par_version p))),
              (''LastModifiedDate'', J_millis (par_last_modified p)),
              (''ARN'', J_string (parameter_arn (ssm_config s) name)),
              (''DataType'', J_string (par_data_type p))] @
             (if version \<noteq> None then [(''Selector'', J_string ('':'' @ dec (unat (par_version p))))] else [])))])))))"

definition delete_parameter :: "ssm_crates \<Rightarrow> env \<Rightarrow> string \<Rightarrow> ssm_server \<Rightarrow> outcome \<times> ssm_server" where
  "delete_parameter X E body s =
     (case decode (decode_delete X) body of Inl o' \<Rightarrow> (o', s) | Inr req \<Rightarrow>
      (case validate_name (del_name req) of Inl o' \<Rightarrow> (o', s) | Inr _ \<Rightarrow>
       (case map_of (ssm_state s) (del_name req) of
          None \<Rightarrow> (parameter_not_found (del_name req), s)
        | Some previous \<Rightarrow>
            (case ssm_persist (fs E) (s\<lparr>ssm_state := bt_remove (del_name req) (ssm_state s)\<rparr>) of
               (Inl _, s') \<Rightarrow>
                 (not_persisted, s'\<lparr>ssm_state := bt_insert (del_name req) previous (ssm_state s')\<rparr>)
             | (Inr _, s') \<Rightarrow> (outcome_ok (J_object []), s')))))"

definition describe_entry :: "ssm_config \<Rightarrow> string \<times> parameter \<Rightarrow> body_json" where
  "describe_entry c e =
     (case e of (name, p) \<Rightarrow>
      J_object (
        [(''Name'', J_string name), (''ARN'', J_string (parameter_arn c name)), (''Type'', J_string (par_kind p)),
         (''Version'', J_number (unat (par_version p))), (''LastModifiedDate'', J_millis (par_last_modified p)),
         (''Tier'', J_string (par_tier p)), (''DataType'', J_string (par_data_type p))] @
        (if par_description p \<noteq> [] then [(''Description'', J_string (par_description p))] else []) @
        (if par_key_id p \<noteq> [] then [(''KeyId'', J_string (par_key_id p))] else [])))"

definition describe_page :: "describe_parameters_request \<Rightarrow> outcome + nat" where
  "describe_page req =
     (case dsc_max_results req of
        None \<Rightarrow> Inr DEFAULT_DESCRIBE_PAGE
      | Some n \<Rightarrow> if 1 \<le> n \<and> n \<le> int MAX_DESCRIBE_PAGE then Inr (nat n)
                  else Inl (validation ''MaxResults must be between 1 and 50.''))"

definition describe_items :: "string \<Rightarrow> nat \<Rightarrow> parameters \<Rightarrow> (string \<times> parameter) list" where
  "describe_items token page ps = take (page + 1) (filter (\<lambda>e. token = [] \<or> fst e > token) ps)"

definition describe_parameters :: "ssm_crates \<Rightarrow> string \<Rightarrow> ssm_server \<Rightarrow> outcome" where
  "describe_parameters X body s =
     (case decode (decode_describe X) body of Inl o' \<Rightarrow> o' | Inr req \<Rightarrow>
      if dsc_filters req \<noteq> [] \<or> dsc_parameter_filters req \<noteq> [] then
        validation ''DescribeParameters filters are not supported by devcloud.''
      else (case describe_page req of Inl o' \<Rightarrow> o' | Inr page \<Rightarrow>
        let items = describe_items (dsc_next_token req) page (ssm_state s) in
        outcome_ok (J_object (
          [(''Parameters'', J_array (map (describe_entry (ssm_config s)) (take page items)))] @
          (if length items > page then [(''NextToken'', J_string (fst (items ! (page - 1))))] else [])))))"

definition ssm_dispatch :: "ssm_crates \<Rightarrow> env \<Rightarrow> string \<Rightarrow> string \<Rightarrow> ssm_server \<Rightarrow> outcome \<times> ssm_server" where
  "ssm_dispatch X E operation body s =
     (if operation = ''PutParameter'' then put_parameter X E body s
      else if operation = ''GetParameter'' then (get_parameter X body s, s)
      else if operation = ''DeleteParameter'' then delete_parameter X E body s
      else if operation = ''DescribeParameters'' then (describe_parameters X body s, s)
      else (error_outcome 400 ''UnknownOperationException'' ''unknown operation'', s))"

section \<open>Saving and rolling back\<close>

lemma ssm_persist_cases:
  assumes "ssm_persist io s = (r, s')"
  obtains (failed) e where "r = Inl e" "s' = s"
    | (kept) "r = Inr ()" "s' = s" "ssm_storage_path (ssm_config s) = []"
    | (written) "r = Inr ()" "s' = s\<lparr>ssm_file := Some (ssm_state s)\<rparr>" "ssm_storage_path (ssm_config s) \<noteq> []"
  using assms by (auto simp: ssm_persist_def split: if_splits option.splits)

interpretation ssm_disk: durable ssm_persist ssm_state ssm_state_update
proof unfold_locales
  show "\<And>io s e s'. ssm_persist io s = (Inl e, s') \<Longrightarrow> s' = s"
    by (erule ssm_persist_cases) simp_all
  show "\<And>io s r s'. ssm_persist io s = (r, s') \<Longrightarrow> ssm_state s' = ssm_state s"
    by (erule ssm_persist_cases) simp_all
qed simp_all

lemma ssm_persist_config: "ssm_persist io s = (r, s') \<Longrightarrow> ssm_config s' = ssm_config s"
  by (erule ssm_persist_cases) simp_all

lemma status_simps [simp]:
  "o_status (outcome_ok b) = 200" "o_body (outcome_ok b) = b" "o_status (error_outcome st n m) = st"
  "o_status (validation m) = 400" "o_status (parameter_not_found m) = 400" "o_status not_persisted = 500"
  by (simp_all add: outcome_ok_def error_outcome_def validation_def parameter_not_found_def not_persisted_def)

lemma decode_error: "decode f b = Inl o' \<Longrightarrow> o_status o' = 400"
  by (auto simp: decode_def or_else_def split: option.splits)

lemma validate_name_error: "validate_name n = Inl o' \<Longrightarrow> o_status o' = 400"
  by (auto simp: validate_name_def Let_def split: if_splits)

lemma check_put_error: "check_put r = Inl o' \<Longrightarrow> o_status o' = 400"
  by (auto simp: check_put_def Let_def validate_name_error split: if_splits option.splits sum.splits)

lemma put_kind_error: "put_kind_for r p = Inl o' \<Longrightarrow> o_status o' = 400"
  by (auto simp: put_kind_for_def split: if_splits option.splits)

lemmas refused_status = decode_error validate_name_error check_put_error put_kind_error

text \<open>A put on each of its branches.\<close>

lemma put_outcomes:
  assumes "put_parameter X E body s = (r, s')" "bt_ok (ssm_state s)"
  obtains (refused) "o_status r = 400" "s' = s"
    | (unsaved) "r = not_persisted" "s' = s"
    | (stored) req checked kind p where "decode (decode_put X) body = Inr req" "check_put req = Inr checked"
        "put_kind_for req (map_of (ssm_state s) (put_name req)) = Inr kind"
        "p = put_entry E req kind checked (map_of (ssm_state s) (put_name req))"
        "ssm_persist (fs E) (s\<lparr>ssm_state := bt_insert (put_name req) p (ssm_state s)\<rparr>) = (Inr (), s')"
        "r = outcome_ok (J_object [(''Version'', J_number (unat (par_version p))), (''Tier'', J_string (par_tier p))])"
proof -
  consider (bad) o' where "(o', s) = (r, s')" "o_status o' = 400"
    | (good) req checked kind where "decode (decode_put X) body = Inr req" "check_put req = Inr checked"
        "put_kind_for req (map_of (ssm_state s) (put_name req)) = Inr kind"
    using assms(1) by (auto simp: put_parameter_def Let_def refused_status split: sum.splits)
  then show ?thesis
  proof cases
    case bad
    then show ?thesis using refused by simp
  next
    case good
    define p where "p = put_entry E req kind checked (map_of (ssm_state s) (put_name req))"
    let ?t = "s\<lparr>ssm_state := bt_insert (put_name req) p (ssm_state s)\<rparr>"
    obtain q s1 where q: "ssm_persist (fs E) ?t = (q, s1)" by fastforce
    note A = assms(1)[unfolded put_parameter_def good sum.case Let_def, folded p_def, unfolded q, simplified]
    show ?thesis
    proof (cases q)
      case (Inl e)
      then have "s1 = ?t" using q ssm_disk.save_fail by blast
      then show ?thesis using A Inl assms(2)
        by (intro unsaved) (auto simp: bt.undo_new bt.undo_overwrite split: option.splits)
    next
      case (Inr u)
      then show ?thesis using A q good by (intro stored[OF good p_def]) auto
    qed
  qed
qed

lemma delete_outcomes:
  assumes "delete_parameter X E body s = (r, s')" "bt_ok (ssm_state s)"
  obtains (refused) "o_status r = 400" "s' = s"
    | (unsaved) "r = not_persisted" "s' = s"
    | (removed) req p where "decode (decode_delete X) body = Inr req" "map_of (ssm_state s) (del_name req) = Some p"
        "ssm_persist (fs E) (s\<lparr>ssm_state := bt_remove (del_name req) (ssm_state s)\<rparr>) = (Inr (), s')"
        "r = outcome_ok (J_object [])"
proof -
  consider (bad) o' where "(o', s) = (r, s')" "o_status o' = 400"
    | (good) req p where "decode (decode_delete X) body = Inr req" "validate_name (del_name req) = Inr ()"
        "map_of (ssm_state s) (del_name req) = Some p"
    using assms(1) by (auto simp: delete_parameter_def refused_status split: sum.splits option.splits)
  then show ?thesis
  proof cases
    case bad
    then show ?thesis using refused by simp
  next
    case good
    let ?t = "s\<lparr>ssm_state := bt_remove (del_name req) (ssm_state s)\<rparr>"
    obtain q s1 where q: "ssm_persist (fs E) ?t = (q, s1)" by fastforce
    note A = assms(1)[unfolded delete_parameter_def good sum.case option.case q, simplified]
    show ?thesis
    proof (cases q)
      case (Inl e)
      then have "s1 = ?t" using q ssm_disk.save_fail by blast
      then show ?thesis using A Inl assms(2) good(3) by (intro unsaved) (auto simp: bt.undo_remove)
    next
      case (Inr u)
      then show ?thesis using A q good by (intro removed[OF good(1,3)]) auto
    qed
  qed
qed

text \<open>A parameter-store request that is not answered with 200 changes nothing, in memory or on disk: refused
  requests and requests whose state could not be saved alike.\<close>

theorem ssm_failed_request_changes_nothing:
  assumes "ssm_dispatch X E operation body s = (r, s')" "o_status r \<noteq> 200" "bt_ok (ssm_state s)"
  shows "s' = s"
proof -
  consider "put_parameter X E body s = (r, s')" | "delete_parameter X E body s = (r, s')" | "s' = s"
    using assms(1) by (auto simp: ssm_dispatch_def split: if_splits)
  then show ?thesis
    using assms(2,3) by cases (auto elim!: put_outcomes delete_outcomes)
qed

section \<open>The invariant\<close>

definition value_limit :: "string \<Rightarrow> nat" where
  "value_limit tier = (if tier = ''Advanced'' then 8192 else 4096)"

definition parameter_wf :: "string \<Rightarrow> parameter \<Rightarrow> bool" where
  "parameter_wf n p \<longleftrightarrow>
     validate_name n = Inr () \<and> par_kind p \<in> {''String'', ''StringList'', ''SecureString''} \<and>
     par_value p \<noteq> [] \<and> par_tier p \<in> {''Standard'', ''Advanced''} \<and> length (par_value p) \<le> value_limit (par_tier p) \<and>
     par_data_type p \<in> {''text'', ''aws:ec2:image'', ''aws:ssm:integration''} \<and>
     (par_key_id p = [] \<longleftrightarrow> par_kind p \<noteq> ''SecureString'')"

definition parameters_wf :: "parameters \<Rightarrow> bool" where
  "parameters_wf ps \<longleftrightarrow> bt_ok ps \<and> list_all (\<lambda>(n, p). parameter_wf n p) ps"

definition ssm_wf :: "ssm_server \<Rightarrow> bool" where
  "ssm_wf s \<longleftrightarrow> parameters_wf (ssm_state s) \<and> (case ssm_file s of None \<Rightarrow> True | Some ps \<Rightarrow> parameters_wf ps)"

lemma parameters_wf_insert: "parameters_wf ps \<Longrightarrow> parameter_wf n p \<Longrightarrow> parameters_wf (bt_insert n p ps)"
  by (auto simp: parameters_wf_def list_all_iff set_bt_insert)

lemma parameters_wf_remove: "parameters_wf ps \<Longrightarrow> parameters_wf (bt_remove n ps)"
  by (auto simp: parameters_wf_def list_all_iff bt_remove_def)

lemma parameters_wf_get: "parameters_wf ps \<Longrightarrow> map_of ps n = Some p \<Longrightarrow> parameter_wf n p"
  by (auto simp: parameters_wf_def list_all_iff dest!: map_of_SomeD)

lemma check_put_ok:
  assumes "check_put req = Inr (v, tier, dt)"
  shows "validate_name (put_name req) = Inr ()" "put_value req = Some v" "v \<noteq> []" "tier \<in> {''Standard'', ''Advanced''}"
    "length v \<le> value_limit tier" "dt \<in> {''text'', ''aws:ec2:image'', ''aws:ssm:integration''}"
    "put_kind req \<noteq> [] \<Longrightarrow> put_kind req \<in> {''String'', ''StringList'', ''SecureString''}"
  using assms
  by (auto simp: check_put_def Let_def value_limit_def MAX_ADVANCED_VALUE_BYTES_def MAX_STANDARD_VALUE_BYTES_def
      split: if_splits option.splits sum.splits)

lemma put_entry_wf:
  assumes "check_put req = Inr checked" "put_kind_for req previous = Inr kind" "\<And>p. previous = Some p \<Longrightarrow> parameter_wf (put_name req) p"
  shows "parameter_wf (put_name req) (put_entry E req kind checked previous)"
proof -
  obtain v tier dt where c: "checked = (v, tier, dt)" by (metis prod_cases3)
  note C = check_put_ok[OF assms(1)[unfolded c]]
  have "kind \<in> {''String'', ''StringList'', ''SecureString''}"
    using assms(2,3) C(7) by (auto simp: put_kind_for_def parameter_wf_def split: if_splits option.splits)
  then show ?thesis using C(1-6) by (simp add: parameter_wf_def put_entry_def c)
qed

lemma saved_wf:
  assumes "ssm_persist io t = (Inr (), s')" "parameters_wf (ssm_state t)" "ssm_file t = ssm_file s" "ssm_wf s"
  shows "ssm_wf s'"
  using assms(1) by (cases rule: ssm_persist_cases) (use assms(2-4) in \<open>auto simp: ssm_wf_def\<close>)

lemma ssm_wf_ok [simp]: "ssm_wf s \<Longrightarrow> bt_ok (ssm_state s)"
  by (simp add: ssm_wf_def parameters_wf_def)

lemma put_parameter_wf:
  assumes "put_parameter X E body s = (r, s')" "ssm_wf s"
  shows "ssm_wf s'"
  using assms(1) ssm_wf_ok[OF assms(2)]
proof (cases rule: put_outcomes)
  case (stored req checked kind p)
  have "parameter_wf (put_name req) p"
    unfolding stored(4) using assms(2) by (intro put_entry_wf[OF stored(2,3)] parameters_wf_get) (auto simp: ssm_wf_def)
  then show ?thesis using assms(2) by (intro saved_wf[OF stored(5)]) (auto simp: ssm_wf_def intro: parameters_wf_insert)
qed (use assms(2) in auto)

lemma delete_parameter_wf:
  assumes "delete_parameter X E body s = (r, s')" "ssm_wf s"
  shows "ssm_wf s'"
  using assms(1) ssm_wf_ok[OF assms(2)]
proof (cases rule: delete_outcomes)
  case (removed req p)
  show ?thesis using assms(2) by (intro saved_wf[OF removed(3)]) (auto simp: ssm_wf_def intro: parameters_wf_remove)
qed (use assms(2) in auto)

text \<open>The server as a machine: requests, and crashes followed by a start on the same file.\<close>

datatype ssm_event =
    Ssm_call ssm_crates env string string
  | Ssm_restart

definition ssm_restart :: "ssm_server \<Rightarrow> ssm_server" where
  "ssm_restart s = ssm_new (ssm_config s) (case ssm_file s of None \<Rightarrow> State_missing | Some ps \<Rightarrow> State_of ps)"

fun ssm_step :: "ssm_event \<Rightarrow> ssm_server \<Rightarrow> ssm_server" where
  "ssm_step (Ssm_call X E operation body) s = snd (ssm_dispatch X E operation body s)"
| "ssm_step Ssm_restart s = ssm_restart s"

lemma ssm_restart_wf: "ssm_wf s \<Longrightarrow> ssm_wf (ssm_restart s)"
  by (cases "ssm_file s")
    (simp_all add: ssm_wf_def ssm_restart_def ssm_new_def ssm_load_def parameters_wf_def Let_def)

lemma ssm_dispatch_wf:
  assumes "ssm_wf s"
  shows "ssm_wf (snd (ssm_dispatch X E operation body s))"
proof -
  have "ssm_wf (snd (put_parameter X E body s))" "ssm_wf (snd (delete_parameter X E body s))"
    using put_parameter_wf[OF surjective_pairing assms] delete_parameter_wf[OF surjective_pairing assms] by blast+
  with assms show ?thesis by (simp add: ssm_dispatch_def)
qed

lemma ssm_step_wf: "ssm_wf s \<Longrightarrow> ssm_wf (ssm_step ev s)"
  by (cases ev) (simp_all add: ssm_restart_wf ssm_dispatch_wf)

interpretation ssm: invariant_machine ssm_step "\<lambda>_. True" ssm_wf
  by unfold_locales (rule ssm_step_wf)

text \<open>Whatever the requests, disk failures and restarts, a parameter store started on an empty directory only
  holds valid parameters, in memory and on disk: valid names, one of the three types, a non-empty
  value within the limit of its tier, and a key id exactly for secure strings.\<close>

theorem ssm_holds_valid_parameters:
  "ssm_wf (fold ssm_step events (ssm_new c State_missing))"
proof -
  have "list_all (\<lambda>_. True) events" by (simp add: list_all_iff)
  moreover have "ssm_wf (ssm_new c State_missing)"
    by (simp add: ssm_wf_def ssm_new_def ssm_load_def parameters_wf_def Let_def)
  ultimately show ?thesis by (rule ssm.run_inv)
qed

section \<open>Reading back\<close>

fun field :: "string \<Rightarrow> body_json \<Rightarrow> body_json option" where
  "field k (J_object kvs) = map_of kvs k"
| "field k _ = None"

definition answer_field :: "string \<Rightarrow> outcome \<Rightarrow> body_json option" where
  "answer_field k o' = Option.bind (field ''Parameter'' (o_body o')) (field k)"

lemma name_no_colon: "validate_name n = Inr () \<Longrightarrow> CHR '':'' \<notin> set n"
  by (auto simp: validate_name_def Let_def list_all_iff name_char_def is_ascii_alphanumeric_def is_ascii_digit_def
      is_ascii_uppercase_def is_ascii_lowercase_def ascii_def split: if_splits)

lemma split_selector_plain: "validate_name n = Inr () \<Longrightarrow> split_selector n = Inr (n, None)"
  using name_no_colon[of n] rsplit_once_None[of "CHR '':''" n] by (simp add: split_selector_def)

text \<open>C34. A parameter that was put is the one that is got: after a successful put, getting the name with decryption
  answers the value of the request, the type given (or the one it had), and the version after the
  previous one (1 for a new parameter), which is also the version the put reported; no other
  parameter changes.\<close>

theorem ssm_put_then_get:
  assumes "ssm_dispatch X E ''PutParameter'' body s = (r, s')" "o_status r = 200" "ssm_wf s"
    and "decode (decode_put X) body = Inr req"
    and "decode (decode_get X) body' = Inr \<lparr>get_name = put_name req, get_with_decryption = True\<rparr>"
  defines "version \<equiv> J_number (unat (case map_of (ssm_state s) (put_name req) of None \<Rightarrow> 1 | Some p \<Rightarrow> par_version p + 1))"
  shows "o_status (get_parameter X body' s') = 200 \<and>
    answer_field ''Value'' (get_parameter X body' s') = map_option J_string (put_value req) \<and>
    answer_field ''Version'' (get_parameter X body' s') = Some version \<and>
    field ''Version'' (o_body r) = Some version \<and>
    (put_kind req \<noteq> [] \<longrightarrow> answer_field ''Type'' (get_parameter X body' s') = Some (J_string (put_kind req))) \<and>
    (\<forall>n. n \<noteq> put_name req \<longrightarrow> map_of (ssm_state s') n = map_of (ssm_state s) n)"
proof -
  have "put_parameter X E body s = (r, s')" using assms(1) by (simp add: ssm_dispatch_def)
  then show ?thesis using ssm_wf_ok[OF assms(3)]
  proof (cases rule: put_outcomes)
    case (stored req0 checked kind p)
    then have req: "req0 = req" using assms(4) by simp
    obtain v tier dt where c: "checked = (v, tier, dt)" by (metis prod_cases3)
    note C = check_put_ok[OF stored(2)[unfolded c req]]
    have st: "ssm_state s' = bt_insert (put_name req) p (ssm_state s)"
      using ssm_disk.save_mem[OF stored(5)] by (simp add: req)
    have k: "put_kind req \<noteq> [] \<Longrightarrow> kind = put_kind req"
      using stored(3) by (auto simp: req put_kind_for_def split: if_splits)
    have p: "par_value p = v" "par_kind p = kind"
      "par_version p = (case map_of (ssm_state s) (put_name req) of None \<Rightarrow> 1 | Some p \<Rightarrow> par_version p + 1)"
      by (simp_all add: stored(4) req put_entry_def c next_version_def)
    show ?thesis
      using split_selector_plain[OF C(1)] C(1,2) k
      by (simp add: get_parameter_def assms(5) st p bt_get_insert answer_field_def version_def stored(6) Let_def)
  qed (use assms(2) in \<open>auto simp: not_persisted_def error_outcome_def\<close>)
qed

section \<open>Listing page by page\<close>

text \<open>A client that follows \<open>NextToken\<close>: the names of all the pages, or \<open>None\<close> when an answer is not 200 or
  the given number of requests was not enough. \<open>ask\<close> writes the request body for a token.\<close>

definition page_names :: "outcome \<Rightarrow> string list" where
  "page_names o' = (case field ''Parameters'' (o_body o') of
     Some (J_array es) \<Rightarrow> List.map_filter (\<lambda>e. case field ''Name'' e of Some (J_string n) \<Rightarrow> Some n | _ \<Rightarrow> None) es
   | _ \<Rightarrow> [])"

fun follow_pages :: "ssm_crates \<Rightarrow> (string \<Rightarrow> string) \<Rightarrow> nat \<Rightarrow> string \<Rightarrow> ssm_server \<Rightarrow> string list option" where
  "follow_pages X ask 0 token s = None"
| "follow_pages X ask (Suc k) token s =
     (let o' = describe_parameters X (ask token) s in
      if o_status o' \<noteq> 200 then None
      else (case field ''NextToken'' (o_body o') of
              Some (J_string t) \<Rightarrow> map_option ((@) (page_names o')) (follow_pages X ask k t s)
            | _ \<Rightarrow> Some (page_names o')))"

definition after :: "string \<Rightarrow> parameters \<Rightarrow> parameters" where
  "after token ps = filter (\<lambda>e. token = [] \<or> fst e > token) ps"

lemma sorted_filter_drop:
  assumes "sorted_wrt (<) (map fst xs)" "k < length xs"
  shows "filter (\<lambda>e. fst e > (fst (xs ! k) :: 'k :: linorder)) xs = drop (Suc k) xs"
  using assms
proof (induction xs arbitrary: k)
  case (Cons x xs)
  show ?case
  proof (cases k)
    case 0
    then show ?thesis using Cons.prems by (auto simp: filter_id_conv)
  next
    case (Suc j)
    then have "\<not> fst (xs ! j) < fst x" using Cons.prems by (auto intro: less_asym)
    then show ?thesis using Cons Suc by simp
  qed
qed simp

lemma after_item:
  assumes "bt_ok ps" "k < length (after token ps)" "fst (after token ps ! k) \<noteq> []"
  shows "after (fst (after token ps ! k)) ps = drop (Suc k) (after token ps)"
proof -
  let ?t = "fst (after token ps ! k)"
  have "after token ps ! k \<in> set (after token ps)" using assms(2) by simp
  then have tok: "token = [] \<or> token < ?t" by (auto simp: after_def)
  have "after ?t ps = filter (\<lambda>e. fst e > ?t) (after token ps)"
    using assms(3) tok by (auto simp: after_def intro!: filter_cong)
  moreover have "sorted_wrt (<) (map fst (after token ps))"
    using assms(1) bt_ok_filter[of ps] unfolding bt_ok_def after_def by blast
  ultimately show ?thesis using sorted_filter_drop assms(2) by simp
qed

lemma entry_name [simp]: "field ''Name'' (describe_entry c e) = Some (J_string (fst e))"
  by (simp add: describe_entry_def split: prod.split)

lemma entries_names: "List.map_filter (\<lambda>e. case field ''Name'' e of Some (J_string n) \<Rightarrow> Some n | _ \<Rightarrow> None)
    (map (describe_entry c) es) = map fst es"
  by (induction es) (simp_all add: List.map_filter_def)

lemma describe_answer:
  fixes s :: ssm_server
  assumes "decode (decode_describe X) body = Inr \<lparr>dsc_max_results = Some k, dsc_next_token = token, dsc_filters = [], dsc_parameter_filters = []\<rparr>"
    and "1 \<le> k" "k \<le> 50"
  defines "rest \<equiv> after token (ssm_state s)"
  shows "o_status (describe_parameters X body s) = 200"
    "page_names (describe_parameters X body s) = map fst (take (nat k) rest)"
    "field ''NextToken'' (o_body (describe_parameters X body s)) =
       (if length rest > nat k then Some (J_string (fst (rest ! (nat k - 1)))) else None)"
proof -
  let ?items = "describe_items token (nat k) (ssm_state s)"
  have D: "describe_parameters X body s = outcome_ok (J_object (
      [(''Parameters'', J_array (map (describe_entry (ssm_config s)) (take (nat k) ?items)))] @
      (if length ?items > nat k then [(''NextToken'', J_string (fst (?items ! (nat k - 1))))] else [])))"
    using assms(2,3) by (simp add: describe_parameters_def assms(1) describe_page_def MAX_DESCRIBE_PAGE_def Let_def)
  have I: "?items = take (nat k + 1) rest" by (simp add: describe_items_def rest_def after_def)
  show "o_status (describe_parameters X body s) = 200" by (simp add: D)
  show "page_names (describe_parameters X body s) = map fst (take (nat k) rest)"
    by (simp add: D page_names_def entries_names I min_def)
  show "field ''NextToken'' (o_body (describe_parameters X body s)) =
       (if length rest > nat k then Some (J_string (fst (rest ! (nat k - 1)))) else None)"
    by (simp add: D I)
qed

lemma validate_name_ne: "validate_name n = Inr () \<Longrightarrow> n \<noteq> []"
  by (cases n) (simp_all add: validate_name_def)

lemma names_ne: "ssm_wf s \<Longrightarrow> e \<in> set (ssm_state s) \<Longrightarrow> fst e \<noteq> []"
  by (cases e) (auto simp: ssm_wf_def parameters_wf_def list_all_iff parameter_wf_def dest: validate_name_ne)

lemma follow_pages_after:
  assumes ask: "\<And>t. decode (decode_describe X) (ask t) =
      Inr \<lparr>dsc_max_results = Some k, dsc_next_token = t, dsc_filters = [], dsc_parameter_filters = []\<rparr>"
    and k: "1 \<le> k" "k \<le> 50" and wf: "ssm_wf s"
  shows "length (after token (ssm_state s)) < fuel \<Longrightarrow> follow_pages X ask fuel token s = Some (map fst (after token (ssm_state s)))"
proof (induction fuel arbitrary: token)
  case (Suc fuel)
  let ?rest = "after token (ssm_state s)"
  note D = describe_answer[OF ask k, where s = s]
  show ?case
  proof (cases "length ?rest > nat k")
    case True
    let ?t = "fst (?rest ! (nat k - 1))"
    have i: "nat k - 1 < length ?rest" "Suc (nat k - 1) = nat k" using True k by auto
    then have "?rest ! (nat k - 1) \<in> set (ssm_state s)" using nth_mem[OF i(1)] by (auto simp: after_def)
    then have "after ?t (ssm_state s) = drop (nat k) ?rest"
      using after_item[OF ssm_wf_ok[OF wf] i(1)] i(2) names_ne[OF wf] by simp
    moreover from this have "length (after ?t (ssm_state s)) < fuel" using Suc.prems True k by simp
    ultimately show ?thesis using Suc.IH[of ?t] True D by (simp add: Let_def map_append[symmetric] del: map_append)
  qed (use D in \<open>simp add: Let_def\<close>)
qed simp

text \<open>Following \<open>NextToken\<close> with any page size from 1 to 50 lists every parameter exactly once, in name order,
  and ends after at most one request more than there are parameters.\<close>

theorem ssm_pages_list_everything:
  assumes "ssm_wf s" "1 \<le> k" "k \<le> 50" "length (ssm_state s) < fuel"
    and "\<And>t. decode (decode_describe X) (ask t) =
      Inr \<lparr>dsc_max_results = Some k, dsc_next_token = t, dsc_filters = [], dsc_parameter_filters = []\<rparr>"
  shows "follow_pages X ask fuel [] s = Some (map fst (ssm_state s)) \<and> distinct (map fst (ssm_state s))"
proof -
  have "after [] (ssm_state s) = ssm_state s" by (simp add: after_def)
  then show ?thesis using follow_pages_after[OF assms(5,2,3,1), of "[]" fuel] assms(4) bt_ok_distinct[OF ssm_wf_ok[OF assms(1)]] by simp
qed

section \<open>What a client without decryption can see\<close>

text \<open>Two stores that differ only in the values of secure strings, and there not in the digest.\<close>

definition same_secret :: "ssm_crates \<Rightarrow> string \<times> parameter \<Rightarrow> string \<times> parameter \<Rightarrow> bool" where
  "same_secret X e e' \<longleftrightarrow> fst e = fst e' \<and>
     (snd e')\<lparr>par_value := []\<rparr> = (snd e)\<lparr>par_value := []\<rparr> \<and>
     (if par_kind (snd e) = ''SecureString'' then sha256_hex X (par_value (snd e')) = sha256_hex X (par_value (snd e))
      else par_value (snd e') = par_value (snd e))"

definition differ_in_secrets :: "ssm_crates \<Rightarrow> ssm_server \<Rightarrow> ssm_server \<Rightarrow> bool" where
  "differ_in_secrets X s t \<longleftrightarrow> ssm_config s = ssm_config t \<and> list_all2 (same_secret X) (ssm_state s) (ssm_state t)"

lemma same_secret_get:
  "list_all2 (same_secret X) ps qs \<Longrightarrow>
   rel_option (\<lambda>p q. same_secret X (n, p) (n, q)) (map_of ps n) (map_of qs n)"
  by (induction rule: list_all2_induct) (auto simp: same_secret_def)

lemma same_secret_cases:
  assumes "same_secret X (n, p) (n, q)"
  shows "par_kind q = par_kind p" "par_version q = par_version p" "par_last_modified q = par_last_modified p"
    "par_description q = par_description p" "par_key_id q = par_key_id p" "par_tier q = par_tier p" "par_data_type q = par_data_type p"
    "par_kind p \<noteq> ''SecureString'' \<Longrightarrow> par_value q = par_value p"
    "par_kind p = ''SecureString'' \<Longrightarrow> encrypted_placeholder X (par_value q) = encrypted_placeholder X (par_value p)"
  using assms by (cases p; cases q; simp add: same_secret_def encrypted_placeholder_def)+

lemma same_secret_fst: "same_secret X e e' \<Longrightarrow> fst e = fst e'"
  by (simp add: same_secret_def)

lemma same_secret_entry:
  assumes "same_secret X e e'"
  shows "describe_entry c e = describe_entry c e'"
proof -
  obtain n p q where e: "e = (n, p)" "e' = (n, q)" using same_secret_fst[OF assms] by (cases e; cases e') auto
  show ?thesis by (simp add: e describe_entry_def same_secret_cases[OF assms[unfolded e]])
qed

lemma same_secret_items:
  "list_all2 (same_secret X) ps qs \<Longrightarrow> list_all2 (same_secret X) (describe_items t k ps) (describe_items t k qs)"
  unfolding describe_items_def
proof (rule list_all2_takeI)
  assume "list_all2 (same_secret X) ps qs"
  then show "list_all2 (same_secret X) (filter (\<lambda>e. t = [] \<or> fst e > t) ps) (filter (\<lambda>e. t = [] \<or> fst e > t) qs)"
    by (induction rule: list_all2_induct) (auto dest: same_secret_fst)
qed

lemma list_all2_same_map: "list_all2 R xs ys \<Longrightarrow> (\<And>x y. R x y \<Longrightarrow> f x = f y) \<Longrightarrow> map f xs = map f ys"
  by (induction rule: list_all2_induct) auto

text \<open>C35. The plaintext of a secure string is not revealed without decryption: neither a \<open>GetParameter\<close> that does not
  ask for decryption nor any \<open>DescribeParameters\<close> can tell two stores apart that differ only in the
  values of secure strings with the same digest.\<close>

theorem ssm_secret_not_revealed:
  assumes "differ_in_secrets X s t"
    and "\<And>req. decode (decode_get X) body = Inr req \<Longrightarrow> \<not> get_with_decryption req"
  shows "get_parameter X body s = get_parameter X body t \<and> describe_parameters X body' s = describe_parameters X body' t"
proof
  have c: "ssm_config t = ssm_config s" and l: "list_all2 (same_secret X) (ssm_state s) (ssm_state t)"
    using assms(1) by (simp_all add: differ_in_secrets_def)
  show "get_parameter X body s = get_parameter X body t"
  proof (cases "decode (decode_get X) body")
    case (Inr req)
    have lookup: "rel_option (\<lambda>p q. same_secret X (n, p) (n, q)) (map_of (ssm_state s) n) (map_of (ssm_state t) n)" for n
      using same_secret_get[OF l] .
    show ?thesis
    proof (cases "split_selector (get_name req)")
      case S: (Inr nv)
      obtain n v where nv: "nv = (n, v)" by fastforce
      show ?thesis using lookup[of n] assms(2)[OF Inr]
        by (cases rule: option.rel_cases)
          (auto simp: get_parameter_def Inr S nv c same_secret_cases Let_def split: sum.split)
    qed (simp add: get_parameter_def Inr)
  qed (simp add: get_parameter_def)
  show "describe_parameters X body' s = describe_parameters X body' t"
  proof -
    have I: "list_all2 (same_secret X) (describe_items k p (ssm_state s)) (describe_items k p (ssm_state t))" for k p
      by (rule same_secret_items[OF l])
    have "map (describe_entry c) (take p (describe_items k p (ssm_state s))) = map (describe_entry c) (take p (describe_items k p (ssm_state t)))" for c k p
      by (rule list_all2_same_map[OF list_all2_takeI[OF I]]) (rule same_secret_entry)
    moreover have "length (describe_items k p (ssm_state s)) = length (describe_items k p (ssm_state t))" for k p
      using list_all2_lengthD[OF I] .
    moreover have "map fst (describe_items k p (ssm_state s)) = map fst (describe_items k p (ssm_state t))" for k p
      by (rule list_all2_same_map[OF I]) (simp add: same_secret_def)
    then have "i < length (describe_items k p (ssm_state s)) \<Longrightarrow> fst (describe_items k p (ssm_state s) ! i) = fst (describe_items k p (ssm_state t) ! i)" for k p i
      by (metis calculation(2) nth_map)
    ultimately show ?thesis
      by (auto simp: describe_parameters_def c Let_def split: sum.split)
  qed
qed

section \<open>Restarts\<close>

text \<open>A restart loses no acknowledged parameter: after a successful put or delete in a store with a storage path, a
  server started on the same directory holds exactly the same parameters.\<close>

theorem ssm_acknowledged_survives_restart:
  assumes "ssm_dispatch X E operation body s = (r, s')" "o_status r = 200" "operation \<in> {''PutParameter'', ''DeleteParameter''}"
    and "ssm_wf s" "ssm_storage_path (ssm_config s) \<noteq> []"
  shows "ssm_state (ssm_restart s') = ssm_state s' \<and> ssm_load_err (ssm_restart s') = None"
proof -
  have saved: "ssm_file s' = Some (ssm_state s') \<and> ssm_storage_path (ssm_config s') \<noteq> []"
    if "ssm_persist io t = (Inr (), s')" "ssm_config t = ssm_config s" for io t
    using that(1) by (cases rule: ssm_persist_cases) (use that(2) assms(5) in auto)
  consider "put_parameter X E body s = (r, s')" | "delete_parameter X E body s = (r, s')"
    using assms(1,3) by (auto simp: ssm_dispatch_def)
  then have "ssm_file s' = Some (ssm_state s') \<and> ssm_storage_path (ssm_config s') \<noteq> []"
    using assms(2) ssm_wf_ok[OF assms(4)] by cases (auto elim!: put_outcomes delete_outcomes dest!: saved)
  then show ?thesis by (simp add: ssm_restart_def ssm_new_def ssm_load_def Let_def)
qed

section \<open>Sample store\<close>

definition sample_put :: put_parameter_request where
  "sample_put = \<lparr>put_name = ''/app/db'', put_value = Some ''s3cret'', put_kind = ''SecureString'', put_overwrite = True,
     put_description = [], put_key_id = [], put_tier = [], put_data_type = []\<rparr>"

definition sample_ssm_crates :: ssm_crates where
  "sample_ssm_crates = \<lparr>decode_put = (\<lambda>b. if b = ''p'' then Some sample_put
       else if b = ''q'' then Some (sample_put\<lparr>put_name := ''port'', put_value := Some ''80'', put_kind := ''String''\<rparr>) else None),
     decode_get = (\<lambda>b. if b = ''g'' then Some \<lparr>get_name = ''/app/db'', get_with_decryption = True\<rparr>
       else if b = ''h'' then Some \<lparr>get_name = ''/app/db'', get_with_decryption = False\<rparr> else None),
     decode_delete = (\<lambda>b. if b = ''d'' then Some \<lparr>del_name = ''/app/db''\<rparr> else None),
     decode_describe = (\<lambda>b. Some \<lparr>dsc_max_results = Some 1, dsc_next_token = tl b, dsc_filters = [], dsc_parameter_filters = []\<rparr>),
     sha256_hex = (\<lambda>v. hex (length v))\<rparr>"

definition sample_ssm_config :: ssm_config where
  "sample_ssm_config = \<lparr>ssm_addr = ''127.0.0.1:4590'', ssm_region = [], ssm_account_id = [], ssm_auth_mode = [],
     ssm_access_key_id = [], ssm_secret_access_key = [], ssm_storage_path = ''data''\<rparr>"

definition ssm_calls :: "string list \<Rightarrow> ssm_server" where
  "ssm_calls bodies = fold (\<lambda>b. ssm_step (Ssm_call sample_ssm_crates (env_at t0) ''PutParameter'' b)) bodies
     (ssm_new sample_ssm_config State_missing)"

lemma ssm_calls_wf: "ssm_wf (ssm_calls bodies)"
proof -
  have "ssm_wf (ssm_new sample_ssm_config State_missing)"
    by (simp add: ssm_wf_def ssm_new_def ssm_load_def parameters_wf_def Let_def)
  then have "ssm_wf (fold (\<lambda>b. ssm_step (Ssm_call sample_ssm_crates (env_at t0) ''PutParameter'' b)) bodies s)"
    if "ssm_wf s" for s using that by (induction bodies arbitrary: s) (simp_all add: ssm_dispatch_wf)
  then show ?thesis by (simp add: ssm_calls_def ssm_wf_def ssm_new_def ssm_load_def parameters_wf_def Let_def)
qed

theorem ssm_failed_request_changes_nothing_witness:
  "snd (ssm_dispatch sample_ssm_crates (env_at t0\<lparr>fs := disk_full\<rparr>) ''PutParameter'' ''p'' (ssm_calls [''p''])) = ssm_calls [''p'']"
proof -
  let ?r = "ssm_dispatch sample_ssm_crates (env_at t0\<lparr>fs := disk_full\<rparr>) ''PutParameter'' ''p'' (ssm_calls [''p''])"
  have "o_status (fst ?r) \<noteq> 200" by code_simp
  from ssm_failed_request_changes_nothing[OF surjective_pairing this ssm_wf_ok[OF ssm_calls_wf]] show ?thesis .
qed

theorem ssm_put_then_get_witness:
  "answer_field ''Value'' (get_parameter sample_ssm_crates ''g'' (ssm_calls [''p'', ''p''])) = Some (J_string ''s3cret'') \<and>
   answer_field ''Version'' (get_parameter sample_ssm_crates ''g'' (ssm_calls [''p'', ''p''])) = Some (J_number 2)"
proof -
  let ?r = "ssm_dispatch sample_ssm_crates (env_at t0) ''PutParameter'' ''p'' (ssm_calls [''p''])"
  have s: "o_status (fst ?r) = 200" by code_simp
  have d: "decode (decode_put sample_ssm_crates) ''p'' = Inr sample_put"
    "decode (decode_get sample_ssm_crates) ''g'' = Inr \<lparr>get_name = put_name sample_put, get_with_decryption = True\<rparr>"
    by (simp_all add: decode_def sample_ssm_crates_def or_else_def sample_put_def)
  have e: "snd ?r = ssm_calls [''p'', ''p'']" by (simp add: ssm_calls_def)
  have v: "map_option par_version (map_of (ssm_state (ssm_calls [''p''])) ''/app/db'') = Some 1" by code_simp
  have n: "put_name sample_put = ''/app/db''" "put_value sample_put = Some ''s3cret''" by (simp_all add: sample_put_def)
  from ssm_put_then_get[OF surjective_pairing s ssm_calls_wf d, unfolded e n] v show ?thesis by auto
qed

theorem ssm_pages_list_everything_witness:
  "follow_pages sample_ssm_crates ((#) CHR ''?'') 3 [] (ssm_calls [''q'', ''p'']) = Some [''/app/db'', ''port'']"
proof -
  have n: "map fst (ssm_state (ssm_calls [''q'', ''p''])) = [''/app/db'', ''port'']" by code_simp
  have "length (ssm_state (ssm_calls [''q'', ''p''])) < 3" using arg_cong[OF n, of length] unfolding length_map by simp
  moreover have "decode (decode_describe sample_ssm_crates) (CHR ''?'' # t) =
      Inr \<lparr>dsc_max_results = Some 1, dsc_next_token = t, dsc_filters = [], dsc_parameter_filters = []\<rparr>" for t
    by (simp add: decode_def sample_ssm_crates_def or_else_def)
  ultimately show ?thesis
    using ssm_pages_list_everything[OF ssm_calls_wf, of 1 "[''q'', ''p'']" 3 sample_ssm_crates "(#) CHR ''?''"] n by simp
qed

definition other_secret :: "ssm_server \<Rightarrow> ssm_server" where
  "other_secret s = s\<lparr>ssm_state := bt_modify ''/app/db'' (\<lambda>p. p\<lparr>par_value := ''hunter''\<rparr>) (ssm_state s)\<rparr>"

theorem ssm_secret_not_revealed_witness:
  "get_parameter sample_ssm_crates ''h'' (other_secret (ssm_calls [''q'', ''p''])) = get_parameter sample_ssm_crates ''h'' (ssm_calls [''q'', ''p'']) \<and>
   get_parameter sample_ssm_crates ''g'' (other_secret (ssm_calls [''q'', ''p''])) \<noteq> get_parameter sample_ssm_crates ''g'' (ssm_calls [''q'', ''p''])"
proof
  have d: "differ_in_secrets sample_ssm_crates (other_secret (ssm_calls [''q'', ''p''])) (ssm_calls [''q'', ''p''])" by code_simp
  have "\<not> get_with_decryption req" if "decode (decode_get sample_ssm_crates) ''h'' = Inr req" for req
    using that by (auto simp: decode_def sample_ssm_crates_def or_else_def)
  from ssm_secret_not_revealed[OF d this]
  show "get_parameter sample_ssm_crates ''h'' (other_secret (ssm_calls [''q'', ''p''])) = get_parameter sample_ssm_crates ''h'' (ssm_calls [''q'', ''p''])"
    by blast
  show "get_parameter sample_ssm_crates ''g'' (other_secret (ssm_calls [''q'', ''p''])) \<noteq> get_parameter sample_ssm_crates ''g'' (ssm_calls [''q'', ''p''])"
    by code_simp
qed

theorem ssm_acknowledged_survives_restart_witness:
  "map fst (ssm_state (ssm_restart (ssm_calls [''q'', ''p'']))) = [''/app/db'', ''port'']"
proof -
  let ?r = "ssm_dispatch sample_ssm_crates (env_at t0) ''PutParameter'' ''p'' (ssm_calls [''q''])"
  have s: "o_status (fst ?r) = 200" "ssm_storage_path (ssm_config (ssm_calls [''q''])) \<noteq> []" by code_simp+
  have e: "snd ?r = ssm_calls [''q'', ''p'']" by (simp add: ssm_calls_def)
  have n: "map fst (ssm_state (ssm_calls [''q'', ''p''])) = [''/app/db'', ''port'']" by code_simp
  from ssm_acknowledged_survives_restart[OF surjective_pairing s(1) _ ssm_calls_wf s(2), unfolded e] n show ?thesis by simp
qed

end
