(* ===== verification/Dynamo_Number.thy ===== *)
theory Dynamo_Number
  imports Rust_Prelude Complex_Main
begin

text \<open>
  \<open>services/dynamodb/src/number.rs\<close>: DynamoDB's \<open>N\<close> values, decimal strings compared and added without
  rounding. A \<open>Decimal\<close> is a sign, a string of digits and a scale. The loops over bytes are recursions
  on the reversed digit lists (from the least significant digit, as the index runs down). Casts to
  \<open>u32\<close> reduce modulo \<open>2 ^ 32\<close> and \<open>i64\<close> arithmetic wraps, as in a release build; a digit is read by its
  value, which is what \<open>a[i] - b'0'\<close> gives for the digit strings these functions are called on.
  The number a decimal stands for is a rational, \<open>decimal_value\<close>.
\<close>

section \<open>Magnitudes: strings of decimal digits\<close>

datatype ordering = Less | Equal | Greater

fun reverse_ordering :: "ordering \<Rightarrow> ordering" where
  "reverse_ordering Less = Greater"
| "reverse_ordering Equal = Equal"
| "reverse_ordering Greater = Less"

definition cmp :: "'a::linorder \<Rightarrow> 'a \<Rightarrow> ordering" where
  "cmp a b = (if a < b then Less else if a = b then Equal else Greater)"

definition to_u32 :: "nat \<Rightarrow> nat" where
  "to_u32 n = n mod 2 ^ 32"

definition normalize_mag :: "string \<Rightarrow> string" where
  "normalize_mag s = (let trimmed = trim_start_matches (CHR ''0'') s in if trimmed = [] then ''0'' else trimmed)"

definition cmp_mag :: "string \<Rightarrow> string \<Rightarrow> ordering" where
  "cmp_mag a b =
     (let a' = normalize_mag a; b' = normalize_mag b in
      case cmp (length a') (length b') of Equal \<Rightarrow> cmp a' b' | ord \<Rightarrow> ord)"

definition digit_or_zero :: "string \<Rightarrow> nat" where
  "digit_or_zero ds = (case ds of [] \<Rightarrow> 0 | d # _ \<Rightarrow> digit_val d)"

function add_loop :: "nat \<Rightarrow> string \<Rightarrow> string \<Rightarrow> string" where
  "add_loop carry a b =
     (if a = [] \<and> b = [] \<and> carry = 0 then []
      else let sum = digit_or_zero a + digit_or_zero b + carry in
        digit_char (sum mod 10) # add_loop (sum div 10) (tl a) (tl b))"
  by pat_completeness auto
termination
proof (relation "measures [\<lambda>(c, a, b). length a + length b, \<lambda>(c, a, b). c]", goal_cases)
  case (2 carry a b sum)
  then show ?case by (cases a; cases b) (auto simp: digit_or_zero_def)
qed simp

declare add_loop.simps [simp del]

definition add_mag :: "string \<Rightarrow> string \<Rightarrow> string" where
  "add_mag a b = normalize_mag (rev (add_loop 0 (rev a) (rev b)))"

fun sub_loop :: "int \<Rightarrow> string \<Rightarrow> string \<Rightarrow> string" where
  "sub_loop borrow [] b = []"
| "sub_loop borrow (d # a) b =
     (let diff = int (digit_val d) - int (digit_or_zero b) - borrow in
      if diff < 0 then digit_char (nat (diff + 10)) # sub_loop 1 a (tl b)
      else digit_char (nat diff) # sub_loop 0 a (tl b))"

definition sub_mag :: "string \<Rightarrow> string \<Rightarrow> string" where
  "sub_mag a b = normalize_mag (rev (sub_loop 0 (rev a) (rev b)))"

definition increment_mag :: "string \<Rightarrow> string" where
  "increment_mag a = add_mag a ''1''"

section \<open>Decimals\<close>

record decimal =
  negative :: bool
  coeff :: string
  scale :: nat

definition decimal_zero :: decimal where
  "decimal_zero = \<lparr>negative = False, coeff = ''0'', scale = 0\<rparr>"

definition is_zero :: "decimal \<Rightarrow> bool" where
  "is_zero d \<longleftrightarrow> coeff d = ''0''"

definition coeff_at_scale :: "decimal \<Rightarrow> nat \<Rightarrow> string" where
  "coeff_at_scale d target = normalize_mag (coeff d @ replicate (target - scale d) (CHR ''0''))"

definition is_integer :: "decimal \<Rightarrow> bool" where
  "is_integer d =
     (if scale d = 0 then True
      else if to_u32 (length (coeff d)) \<le> scale d then coeff d = ''0''
      else list_all (\<lambda>b. b = CHR ''0'') (drop (length (coeff d) - scale d) (coeff d)))"

definition integer_string :: "decimal \<Rightarrow> string" where
  "integer_string d =
     (let int_digits = (if to_u32 (length (coeff d)) \<le> scale d then ''0''
                        else normalize_mag (take (length (coeff d) - scale d) (coeff d))) in
      if negative d \<and> int_digits \<noteq> ''0'' then ''-'' @ int_digits else int_digits)"

definition round_to :: "decimal \<Rightarrow> nat \<Rightarrow> string \<times> bool" where
  "round_to d precision =
     (if precision \<ge> scale d then
        (normalize_mag (coeff d @ replicate (precision - scale d) (CHR ''0'')), negative d)
      else let drp = scale d - precision; len = length (coeff d);
               kept = (if drp \<ge> len then ''0'' else take (len - drp) (coeff d));
               first_dropped = (if drp \<le> len
                  then (if len - drp < len then Some (coeff d ! (len - drp)) else None)
                  else Some (CHR ''0''));
               round_up = (case first_dropped of Some c \<Rightarrow> ascii c \<ge> 53 | None \<Rightarrow> False) in
        (if round_up then increment_mag (normalize_mag kept) else normalize_mag kept, negative d))"

text \<open>\<open>while padded.len() as u32 <= precision\<close>: one zero in front at a time.\<close>

definition pad_to :: "nat \<Rightarrow> string \<Rightarrow> string" where
  "pad_to precision s = replicate (Suc precision - to_u32 (length s)) (CHR ''0'') @ s"

definition trim_fraction :: "string \<Rightarrow> string" where
  "trim_fraction out =
     (if CHR ''.'' \<in> set out then
        (let r = rev (dropWhile (\<lambda>c. c = CHR ''0'') (rev out)) in
         if r \<noteq> [] \<and> last r = CHR ''.'' then butlast r else r)
      else out)"

definition float_string_trimmed :: "decimal \<Rightarrow> nat \<Rightarrow> string" where
  "float_string_trimmed d precision =
     (let (rounded, neg) = round_to d precision;
          padded = pad_to precision rounded;
          split = length padded - precision;
          int_part = normalize_mag (take split padded);
          frac_part = drop split padded;
          out = trim_fraction (if precision = 0 then int_part else int_part @ ''.'' @ frac_part) in
      if neg \<and> out \<noteq> ''0'' then ''-'' @ out else out)"

section \<open>Parsing\<close>

text \<open>The optional exponent: its value and what follows it; \<open>None\<close> when it has no digits or is out of range.\<close>

definition parse_exponent :: "string \<Rightarrow> (int \<times> string) option" where
  "parse_exponent s =
     (if s \<noteq> [] \<and> (hd s = CHR ''e'' \<or> hd s = CHR ''E'') then
        (let (exp_neg, r) = split_sign (tl s);
             exp_digits = takeWhile is_ascii_digit r in
         if exp_digits = [] then None
         else (case parse_i64 exp_digits of
                 None \<Rightarrow> None
               | Some e \<Rightarrow> Some (if exp_neg then - e else e, dropWhile is_ascii_digit r)))
      else Some (0, s))"

definition assemble :: "bool \<Rightarrow> string \<Rightarrow> string \<Rightarrow> int \<Rightarrow> decimal" where
  "assemble neg int_digits frac_digits expo =
     (let mantissa = normalize_mag (int_digits @ frac_digits);
          total_exp = wrap_s 64 (expo - int (length frac_digits));
          (c, sc) = (if total_exp \<ge> 0 then (normalize_mag (mantissa @ replicate (nat total_exp) (CHR ''0'')), 0)
                     else (mantissa, nat ((- total_exp) mod 2 ^ 32))) in
      \<lparr>negative = neg \<and> c \<noteq> ''0'', coeff = c, scale = sc\<rparr>)"

definition parse :: "string \<Rightarrow> decimal option" where
  "parse text =
     (let s = trim text in
      if s = [] then None
      else let (neg, r1) = split_sign s;
               int_digits = takeWhile is_ascii_digit r1;
               r2 = dropWhile is_ascii_digit r1;
               (frac_digits, r3) = (if r2 \<noteq> [] \<and> hd r2 = CHR ''.''
                  then (takeWhile is_ascii_digit (tl r2), dropWhile is_ascii_digit (tl r2)) else ([], r2)) in
        if int_digits = [] \<and> frac_digits = [] then None
        else (case parse_exponent r3 of
                None \<Rightarrow> None
              | Some (expo, r4) \<Rightarrow> if r4 \<noteq> [] then None else Some (assemble neg int_digits frac_digits expo)))"

definition is_valid_number :: "string \<Rightarrow> bool" where
  "is_valid_number s \<longleftrightarrow> parse s \<noteq> None"

section \<open>Comparison and arithmetic\<close>

definition compare :: "decimal \<Rightarrow> decimal \<Rightarrow> ordering" where
  "compare a b =
     (if is_zero a \<and> is_zero b then Equal
      else if \<not> negative a \<and> negative b then Greater
      else if negative a \<and> \<not> negative b then Less
      else let s = max (scale a) (scale b);
               mag = cmp_mag (coeff_at_scale a s) (coeff_at_scale b s) in
        if negative a then reverse_ordering mag else mag)"

definition compare_number_strings :: "string \<Rightarrow> string \<Rightarrow> ordering" where
  "compare_number_strings left right =
     (case (parse left, parse right) of
        (Some a, Some b) \<Rightarrow> compare a b
      | _ \<Rightarrow> cmp left right)"

definition decimal_places :: "string \<Rightarrow> nat" where
  "decimal_places value =
     (case find_sub value ''.'' of Some i \<Rightarrow> to_u32 (length value - i - 1) | None \<Rightarrow> 0)"

definition add :: "decimal \<Rightarrow> decimal \<Rightarrow> decimal" where
  "add a b =
     (let s = max (scale a) (scale b); am = coeff_at_scale a s; bm = coeff_at_scale b s in
      if negative a = negative b then
        let mag = add_mag am bm in \<lparr>negative = negative a \<and> mag \<noteq> ''0'', coeff = mag, scale = s\<rparr>
      else (case cmp_mag am bm of
          Equal \<Rightarrow> decimal_zero
        | Greater \<Rightarrow> let mag = sub_mag am bm in \<lparr>negative = negative a \<and> mag \<noteq> ''0'', coeff = mag, scale = s\<rparr>
        | Less \<Rightarrow> let mag = sub_mag bm am in \<lparr>negative = negative b \<and> mag \<noteq> ''0'', coeff = mag, scale = s\<rparr>))"

definition format_sum :: "decimal \<Rightarrow> nat \<Rightarrow> string" where
  "format_sum d lexical_precision =
     (if is_integer d then integer_string d else float_string_trimmed d (max lexical_precision 1))"

definition invalid_number :: "string \<Rightarrow> string" where
  "invalid_number s = ''invalid number \"'' @ s @ ''\"''"

definition add_number_strings :: "string \<Rightarrow> string \<Rightarrow> string result" where
  "add_number_strings left right =
     bind_res (or_else (parse left) (invalid_number left)) (\<lambda>a.
     bind_res (or_else (parse right) (invalid_number right)) (\<lambda>b.
     Inr (format_sum (add a b) (max (decimal_places left) (decimal_places right)))))"

definition negate_number_string :: "string \<Rightarrow> string result" where
  "negate_number_string value =
     bind_res (or_else (parse value) (invalid_number value)) (\<lambda>d.
     Inr (format_sum (if is_zero d then d else d\<lparr>negative := \<not> negative d\<rparr>) (decimal_places value)))"

section \<open>The number a digit string stands for\<close>

abbreviation digits :: "string \<Rightarrow> bool" where
  "digits s \<equiv> list_all is_ascii_digit s"

lemma digit_zero [simp]: "digit_val (CHR ''0'') = 0" "is_ascii_digit (CHR ''0'')"
  by (simp_all add: digit_val_def is_ascii_digit_def ascii_def)

lemma digit_val_lt: "is_ascii_digit c \<Longrightarrow> digit_val c < 10"
  by (auto simp: is_ascii_digit_def digit_val_def)

lemma digit_val_0: "is_ascii_digit c \<Longrightarrow> digit_val c = 0 \<longleftrightarrow> c = CHR ''0''"
proof -
  assume c: "is_ascii_digit c"
  have "(of_char c :: nat) = of_char (CHR ''0'') \<longleftrightarrow> c = CHR ''0''" by (rule of_char_eq_iff)
  with c show ?thesis by (auto simp: digit_val_def is_ascii_digit_def ascii_def)
qed

lemma digit_val_less: "is_ascii_digit c \<Longrightarrow> is_ascii_digit d \<Longrightarrow> digit_val c < digit_val d \<longleftrightarrow> c < d"
  by (auto simp: digit_val_def is_ascii_digit_def ascii_def less_char_def)

lemma from_digits_append: "from_digits (s @ t) = from_digits s * 10 ^ length t + from_digits t"
  by (induction t rule: rev_induct) (simp_all flip: append_assoc)

lemma from_digits_Cons: "from_digits (c # s) = digit_val c * 10 ^ length s + from_digits s"
  using from_digits_append[of "[c]" s] by (simp add: from_digits_def)

lemma from_digits_zeros [simp]: "from_digits (replicate n (CHR ''0'')) = 0"
  by (induction n) (simp_all add: from_digits_Cons)

lemma digits_zeros [simp]: "digits (replicate n (CHR ''0''))"
  by (induction n) simp_all

lemma from_digits_lt: "digits s \<Longrightarrow> from_digits s < 10 ^ length s"
proof (induction s)
  case (Cons c s)
  then have "digit_val c * 10 ^ length s + from_digits s < (digit_val c + 1) * 10 ^ length s" by simp
  also have "\<dots> \<le> 10 * 10 ^ length s" using Cons.prems digit_val_lt[of c] by (intro mult_right_mono) auto
  finally show ?case by (simp add: from_digits_Cons)
qed simp

section \<open>Normal form\<close>

definition normal :: "string \<Rightarrow> bool" where
  "normal s \<longleftrightarrow> s \<noteq> [] \<and> digits s \<and> (hd s = CHR ''0'' \<longrightarrow> s = ''0'')"

lemma dropWhile_zeros_value: "from_digits (dropWhile (\<lambda>x. x = CHR ''0'') s) = from_digits s"
  by (induction s) (simp_all add: from_digits_Cons)

lemma digits_dropWhile: "digits s \<Longrightarrow> digits (dropWhile P s)"
  by (induction s) auto

lemma normalize_value [simp]: "from_digits (normalize_mag s) = from_digits s"
proof (cases "dropWhile (\<lambda>x. x = CHR ''0'') s = []")
  case True
  then have "from_digits s = 0" using dropWhile_zeros_value[of s] by (simp del: dropWhile_eq_Nil_conv)
  with True show ?thesis by (simp add: normalize_mag_def trim_start_matches_def from_digits_Cons del: dropWhile_eq_Nil_conv)
next
  case False
  then show ?thesis by (simp add: normalize_mag_def trim_start_matches_def dropWhile_zeros_value Let_def del: dropWhile_eq_Nil_conv)
qed

lemma normalize_normal: "digits s \<Longrightarrow> normal (normalize_mag s)"
  using hd_dropWhile[of "\<lambda>x. x = CHR ''0''" s]
  by (auto simp: normalize_mag_def trim_start_matches_def normal_def Let_def digits_dropWhile)

lemma normalize_id: "normal s \<Longrightarrow> normalize_mag s = s"
  by (cases s) (auto simp: normal_def normalize_mag_def trim_start_matches_def)

lemma normal_zero [simp]: "normal ''0''"
  by (simp add: normal_def)

lemma normal_ge:
  assumes "normal s" "s \<noteq> ''0''"
  shows "10 ^ (length s - 1) \<le> from_digits s"
proof -
  obtain c t where s: "s = c # t" "c \<noteq> CHR ''0''" "is_ascii_digit c"
    using assms by (cases s) (auto simp: normal_def)
  then have "1 \<le> digit_val c" using digit_val_0[of c] by (simp add: Suc_le_eq)
  then have "1 * 10 ^ length t \<le> digit_val c * 10 ^ length t" by (rule mult_right_mono) simp
  also have "\<dots> \<le> from_digits s" by (simp add: s(1) from_digits_Cons)
  finally show ?thesis by (simp add: s(1))
qed

lemma normal_pos: "normal s \<Longrightarrow> from_digits s = 0 \<longleftrightarrow> s = ''0''"
proof -
  assume n: "normal s"
  have "0 < from_digits s" if "s \<noteq> ''0''"
    using less_le_trans[OF _ normal_ge[OF n that], of 0] by simp
  then show ?thesis by (cases "s = ''0''") (auto simp: from_digits_Cons)
qed

lemma same_length_order:
  "digits a \<Longrightarrow> digits b \<Longrightarrow> length a = length b \<Longrightarrow> (from_digits a < from_digits b \<longleftrightarrow> a < b) \<and> (from_digits a = from_digits b \<longleftrightarrow> a = b)"
proof (induction a arbitrary: b)
  case (Cons c a)
  then obtain d b' where b: "b = d # b'" "length a = length b'" by (cases b) auto
  let ?p = "10 ^ length a :: nat"
  have bd: "from_digits a < ?p" "from_digits b' < ?p"
    using Cons.prems b from_digits_lt[of a] from_digits_lt[of b'] by simp_all
  have IH: "(from_digits a < from_digits b' \<longleftrightarrow> a < b') \<and> (from_digits a = from_digits b' \<longleftrightarrow> a = b')"
    using Cons b by simp
  have dc: "digit_val c < digit_val d \<longleftrightarrow> c < d" "digit_val d < digit_val c \<longleftrightarrow> d < c"
    using Cons.prems b digit_val_less by simp_all
  have step: "u * ?p + x < v * ?p + y" if "u < v" "x < ?p" for u v x y :: nat
  proof -
    have "u * ?p + x < (u + 1) * ?p" using that by simp
    also have "\<dots> \<le> v * ?p" using that by (intro mult_right_mono) auto
    finally show ?thesis by simp
  qed
  consider "c < d" | "d < c" | "c = d" by (meson linorder_cases)
  then show ?case
  proof cases
    case 1
    then show ?thesis using step[of "digit_val c" "digit_val d" "from_digits a" "from_digits b'"] bd dc b
      by (auto simp: from_digits_Cons)
  next
    case 2
    then show ?thesis using step[of "digit_val d" "digit_val c" "from_digits b'" "from_digits a"] bd dc b
      by (auto simp: from_digits_Cons)
  qed (use IH b in \<open>auto simp: from_digits_Cons\<close>)
qed simp

lemma shorter_less:
  assumes "normal a" "normal b" "length a < length b"
  shows "from_digits a < from_digits b"
proof -
  have "b \<noteq> ''0''" using assms by (cases a) (auto simp: normal_def)
  then have "10 ^ (length b - 1) \<le> from_digits b" using normal_ge[OF assms(2)] by blast
  moreover have "(10 :: nat) ^ length a \<le> 10 ^ (length b - 1)" using assms(3) by (intro power_increasing) auto
  moreover have "from_digits a < 10 ^ length a" using assms(1) by (intro from_digits_lt) (simp add: normal_def)
  ultimately show ?thesis by linarith
qed

text \<open>Comparing magnitudes by length and then by bytes is comparing the numbers.\<close>

lemma cmp_normal:
  assumes "normal a" "normal b"
  shows "cmp_mag a b = cmp (from_digits a) (from_digits b)"
proof -
  consider "length a < length b" | "length b < length a" | "length a = length b" by linarith
  then show ?thesis
    using assms shorter_less[of a b] shorter_less[of b a] same_length_order[of a b]
    by cases (auto simp: cmp_mag_def normalize_id cmp_def normal_def Let_def)
qed

section \<open>Adding and subtracting magnitudes\<close>

lemma digits_rev [simp]: "digits (rev s) = digits s"
  by (simp add: list_all_iff)

lemma add_loop_digits: "digits a \<Longrightarrow> digits b \<Longrightarrow> carry \<le> 1 \<Longrightarrow>
  digits (add_loop carry a b) \<and> from_digits (rev (add_loop carry a b)) = from_digits (rev a) + from_digits (rev b) + carry"
proof (induction carry a b rule: add_loop.induct)
  case (1 carry a b)
  show ?case
  proof (cases "a = [] \<and> b = [] \<and> carry = 0")
    case True
    then show ?thesis by (simp add: add_loop.simps)
  next
    case False
    let ?sum = "digit_or_zero a + digit_or_zero b + carry"
    have d: "digit_or_zero s < 10 \<and> from_digits (rev s) = 10 * from_digits (rev (tl s)) + digit_or_zero s \<and> digits (tl s)" if "digits s" for s
      using that by (cases s) (auto simp: digit_or_zero_def digit_val_lt)
    have "?sum div 10 \<le> 1" using d[OF 1(2)] d[OF 1(3)] 1(4) by linarith
    then have IH: "digits (add_loop (?sum div 10) (tl a) (tl b)) \<and>
        from_digits (rev (add_loop (?sum div 10) (tl a) (tl b))) = from_digits (rev (tl a)) + from_digits (rev (tl b)) + ?sum div 10"
      using 1(1)[OF False refl] d[OF 1(2)] d[OF 1(3)] by blast
    have u: "add_loop carry a b = digit_char (?sum mod 10) # add_loop (?sum div 10) (tl a) (tl b)"
      using False by (subst add_loop.simps) (simp add: Let_def)
    show ?thesis using IH d[OF 1(2)] d[OF 1(3)] unfolding u by (simp add: algebra_simps)
  qed
qed

lemma add_mag_normal:
  assumes "digits a" "digits b"
  shows "normal (add_mag a b)" "from_digits (add_mag a b) = from_digits a + from_digits b"
  using add_loop_digits[of "rev a" "rev b" 0] assms by (simp_all add: add_mag_def normalize_normal)

lemma borrow_mod:
  fixes d Z :: int
  assumes "0 \<le> d" "d < 10"
  shows "(d + 10 * Z) mod (10 * 10 ^ n) = d + 10 * (Z mod 10 ^ n)"
proof -
  have "(d + 10 * Z) mod (10 * 10 ^ n) = 10 * (((d + 10 * Z) div 10) mod 10 ^ n) + (d + 10 * Z) mod 10"
    by (rule zmod_zmult2_eq) simp
  also have "\<dots> = 10 * (Z mod 10 ^ n) + d" using assms by simp
  finally show ?thesis by simp
qed

lemma sub_loop_digits: "digits a \<Longrightarrow> digits b \<Longrightarrow> length b \<le> length a \<Longrightarrow> borrow \<in> {0, 1} \<Longrightarrow>
  digits (sub_loop borrow a b) \<and>
  int (from_digits (rev (sub_loop borrow a b))) = (int (from_digits (rev a)) - int (from_digits (rev b)) - borrow) mod 10 ^ length a"
proof (induction a arbitrary: b borrow)
  case (Cons d a)
  have db: "digit_or_zero b < 10 \<and> from_digits (rev b) = 10 * from_digits (rev (tl b)) + digit_or_zero b \<and> digits (tl b)"
    using Cons.prems(2) by (cases b) (auto simp: digit_or_zero_def digit_val_lt)
  let ?diff = "int (digit_val d) - int (digit_or_zero b) - borrow"
  let ?Z = "int (from_digits (rev a)) - int (from_digits (rev (tl b)))"
  have dd: "digit_val d < 10" using Cons.prems(1) digit_val_lt by simp
  have IH: "digits (sub_loop c a (tl b)) \<and> int (from_digits (rev (sub_loop c a (tl b)))) = (?Z - c) mod 10 ^ length a" if "c \<in> {0, 1}" for c
    using Cons that db by (cases b) (auto intro!: Cons.IH)
  have split: "int (from_digits (rev (d # a))) - int (from_digits (rev b)) - borrow = ?diff + 10 * ?Z"
    using db by simp
  show ?case
  proof (cases "?diff < 0")
    case True
    then have "0 \<le> ?diff + 10" "?diff + 10 < 10" using Cons.prems(4) db by auto
    then show ?thesis using IH[of 1] True borrow_mod[of "?diff + 10" "?Z - 1" "length a"]
      unfolding split by (simp add: Let_def algebra_simps)
  next
    case False
    then have "0 \<le> ?diff" "?diff < 10" using Cons.prems(4) dd by auto
    then show ?thesis using IH[of 0] False borrow_mod[of ?diff ?Z "length a"]
      unfolding split by (simp add: Let_def algebra_simps)
  qed
qed simp

lemma sub_mag_normal:
  assumes "normal a" "normal b" "from_digits b \<le> from_digits a"
  shows "normal (sub_mag a b)" "from_digits (sub_mag a b) = from_digits a - from_digits b"
proof -
  have len: "length b \<le> length a" using shorter_less[of a b] assms by (meson leD leI)
  have d: "digits (rev a)" "digits (rev b)" using assms by (simp_all add: normal_def)
  note S = sub_loop_digits[OF d, of 0, simplified, OF len]
  have "int (from_digits a) < 10 ^ length a" using from_digits_lt[of a] d(1) by simp
  then have "int (from_digits a) - int (from_digits b) < 10 ^ length a" by linarith
  then have "int (from_digits (rev (sub_loop 0 (rev a) (rev b)))) = int (from_digits a) - int (from_digits b)"
    using S assms(3) by simp
  then have "from_digits (rev (sub_loop 0 (rev a) (rev b))) = from_digits a - from_digits b" using assms(3) by linarith
  then show "normal (sub_mag a b)" "from_digits (sub_mag a b) = from_digits a - from_digits b"
    using S by (simp_all add: sub_mag_def normalize_normal)
qed

lemma normal_digits: "normal s \<Longrightarrow> digits s"
  by (simp add: normal_def)

section \<open>The number a decimal stands for\<close>

definition with_sign :: "bool \<Rightarrow> nat \<Rightarrow> int" where
  "with_sign neg n = (if neg then - int n else int n)"

definition decimal_value :: "decimal \<Rightarrow> rat" where
  "decimal_value d = of_int (with_sign (negative d) (from_digits (coeff d))) / 10 ^ scale d"

definition decimal_wf :: "decimal \<Rightarrow> bool" where
  "decimal_wf d \<longleftrightarrow> normal (coeff d) \<and> (negative d \<longrightarrow> coeff d \<noteq> ''0'')"

lemma with_sign_mult: "with_sign neg (n * k) = with_sign neg n * int k"
  by (simp add: with_sign_def)

lemma decimal_wf_pos: "decimal_wf d \<Longrightarrow> negative d \<Longrightarrow> 0 < from_digits (coeff d)"
  using normal_pos[of "coeff d"] by (auto simp: decimal_wf_def)

text \<open>Bringing a decimal to a larger scale does not change its value.\<close>

lemma coeff_at_scale_facts:
  assumes "decimal_wf d" "scale d \<le> s"
  shows "normal (coeff_at_scale d s)"
    "from_digits (coeff_at_scale d s) = from_digits (coeff d) * 10 ^ (s - scale d)"
    "decimal_value d = of_int (with_sign (negative d) (from_digits (coeff_at_scale d s))) / 10 ^ s"
proof -
  show "normal (coeff_at_scale d s)"
    unfolding coeff_at_scale_def using assms(1) by (intro normalize_normal) (simp add: decimal_wf_def normal_digits)
  show v: "from_digits (coeff_at_scale d s) = from_digits (coeff d) * 10 ^ (s - scale d)"
    by (simp add: coeff_at_scale_def from_digits_append)
  have "(10 :: rat) ^ s = 10 ^ scale d * 10 ^ (s - scale d)" using assms(2) by (simp flip: power_add)
  then show "decimal_value d = of_int (with_sign (negative d) (from_digits (coeff_at_scale d s))) / 10 ^ s"
    unfolding v with_sign_mult by (simp add: decimal_value_def)
qed

lemma cmp_over: "cmp (of_int x / 10 ^ s) (of_int y / 10 ^ s :: rat) = cmp x y"
  by (simp add: cmp_def divide_less_cancel)

lemma cmp_nat_int: "cmp (int m) (int n) = cmp m n" "cmp (- int m) (- int n) = reverse_ordering (cmp m n)"
  by (auto simp: cmp_def)

lemma compare_value:
  assumes "decimal_wf a" "decimal_wf b"
  shows "compare a b = cmp (decimal_value a) (decimal_value b)"
proof -
  let ?s = "max (scale a) (scale b)"
  note A = coeff_at_scale_facts[OF assms(1), of ?s, simplified]
  note B = coeff_at_scale_facts[OF assms(2), of ?s, simplified]
  let ?A = "from_digits (coeff_at_scale a ?s)"
  let ?B = "from_digits (coeff_at_scale b ?s)"
  have C: "cmp (decimal_value a) (decimal_value b) = cmp (with_sign (negative a) ?A) (with_sign (negative b) ?B)"
    unfolding A(3) B(3) by (rule cmp_over)
  have pos: "negative a \<Longrightarrow> 0 < ?A" "negative b \<Longrightarrow> 0 < ?B"
    using decimal_wf_pos assms by (simp_all add: A(2) B(2))
  show ?thesis
  proof (cases "is_zero a \<and> is_zero b")
    case True
    then have "?A = 0" "?B = 0" unfolding A(2) B(2) by (simp_all add: is_zero_def from_digits_Cons)
    then have "cmp (with_sign (negative a) ?A) (with_sign (negative b) ?B) = Equal" by (simp add: cmp_def with_sign_def)
    with True show ?thesis unfolding C by (simp add: compare_def)
  next
    case False
    then show ?thesis unfolding C
      using pos cmp_normal[OF A(1) B(1)]
      by (cases "negative a"; cases "negative b") (auto simp: compare_def Let_def with_sign_def cmp_nat_int, auto simp: cmp_def)
  qed
qed

section \<open>Sums\<close>

lemma sum_over: "of_int x / 10 ^ s + of_int y / 10 ^ s = (of_int (x + y) / 10 ^ s :: rat)"
  by (simp add: add_divide_distrib)

lemma add_value:
  assumes "decimal_wf a" "decimal_wf b"
  shows "decimal_wf (add a b)" "decimal_value (add a b) = decimal_value a + decimal_value b" "scale (add a b) \<le> max (scale a) (scale b)"
proof -
  let ?s = "max (scale a) (scale b)"
  let ?am = "coeff_at_scale a ?s" and ?bm = "coeff_at_scale b ?s"
  note A = coeff_at_scale_facts[OF assms(1), of ?s, simplified]
  note B = coeff_at_scale_facts[OF assms(2), of ?s, simplified]
  let ?A = "from_digits ?am" and ?B = "from_digits ?bm"
  have V: "decimal_value a + decimal_value b = of_int (with_sign (negative a) ?A + with_sign (negative b) ?B) / 10 ^ ?s"
    unfolding A(3) B(3) by (rule sum_over)
  have made: "decimal_wf \<lparr>negative = n \<and> m \<noteq> ''0'', coeff = m, scale = ?s\<rparr> \<and>
      decimal_value \<lparr>negative = n \<and> m \<noteq> ''0'', coeff = m, scale = ?s\<rparr> = of_int (with_sign n (from_digits m)) / 10 ^ ?s" if "normal m" for n m
    using that by (auto simp: decimal_wf_def decimal_value_def with_sign_def from_digits_Cons)
  have dg: "digits ?am" "digits ?bm" using A(1) B(1) by (simp_all add: normal_def)
  note S = add_mag_normal[OF dg]
  note M = cmp_normal[OF A(1) B(1)]
  have "decimal_wf (add a b) \<and> decimal_value (add a b) = decimal_value a + decimal_value b \<and> scale (add a b) \<le> ?s"
  proof (cases "negative a = negative b")
    case True
    then show ?thesis unfolding V using made[OF S(1), of "negative a"] S(2)
      by (simp add: add_def Let_def) (simp add: with_sign_def)
  next
    case False
    consider "?A = ?B" | "?B < ?A" | "?A < ?B" by linarith
    then show ?thesis
    proof cases
      case 1
      then show ?thesis unfolding V using False M
        by (auto simp: add_def cmp_def with_sign_def decimal_zero_def decimal_wf_def decimal_value_def from_digits_Cons)
    next
      case 2
      note D = sub_mag_normal[OF A(1) B(1) less_imp_le[OF 2]]
      show ?thesis unfolding V using False M 2 made[OF D(1), of "negative a"] D(2)
        by (simp add: add_def Let_def cmp_def) (auto simp: with_sign_def)
    next
      case 3
      note D = sub_mag_normal[OF B(1) A(1) less_imp_le[OF 3]]
      show ?thesis unfolding V using False M 3 made[OF D(1), of "negative b"] D(2)
        by (simp add: add_def Let_def cmp_def) (auto simp: with_sign_def)
    qed
  qed
  then show "decimal_wf (add a b)" "decimal_value (add a b) = decimal_value a + decimal_value b" "scale (add a b) \<le> ?s" by blast+
qed

section \<open>Parsing\<close>

lemma digits_takeWhile [simp]: "digits (takeWhile is_ascii_digit s)"
  by (simp add: list_all_iff) (metis set_takeWhileD)

lemma assemble_wf:
  assumes "digits i" "digits f"
  shows "decimal_wf (assemble neg i f e)"
proof -
  have m: "normal (normalize_mag (i @ f))" using assms by (intro normalize_normal) simp
  then have "normal (normalize_mag (normalize_mag (i @ f) @ replicate n (CHR ''0'')))" for n
    by (intro normalize_normal) (simp add: normal_digits)
  with m show ?thesis by (simp add: assemble_def decimal_wf_def Let_def)
qed

lemma parse_wf: "parse s = Some d \<Longrightarrow> decimal_wf d"
  by (auto simp: parse_def Let_def intro!: assemble_wf split: if_splits option.splits prod.splits)

text \<open>Numbers are ordered by value: comparing two number strings that parse gives the order of the two rationals
  they stand for, whatever their spelling (leading and trailing zeros, signs, exponents).\<close>

theorem compare_number_strings_numeric:
  assumes "parse l = Some a" "parse r = Some b"
  shows "compare_number_strings l r =
    (if decimal_value a < decimal_value b then Less else if decimal_value a = decimal_value b then Equal else Greater)"
  using compare_value[OF parse_wf[OF assms(1)] parse_wf[OF assms(2)]] assms
  by (simp add: compare_number_strings_def cmp_def)

section \<open>What a number string denotes\<close>

lemma visible_number_char: "is_ascii_digit c \<or> c \<in> set ''+-.eE'' \<Longrightarrow> visible c"
  by (auto simp: visible_def is_ascii_digit_def ascii_def)

text \<open>The written form of an exponent, and its value.\<close>

fun write_exponent :: "(char \<times> string \<times> string) option \<Rightarrow> string" where
  "write_exponent None = []"
| "write_exponent (Some (c, sg, xs)) = c # sg @ xs"

fun exponent_value :: "(char \<times> string \<times> string) option \<Rightarrow> int" where
  "exponent_value None = 0"
| "exponent_value (Some (c, sg, xs)) = with_sign (sg = ''-'') (from_digits xs)"

fun exponent_ok :: "(char \<times> string \<times> string) option \<Rightarrow> bool" where
  "exponent_ok None = True"
| "exponent_ok (Some (c, sg, xs)) \<longleftrightarrow>
     c \<in> {CHR ''e'', CHR ''E''} \<and> sg \<in> {'''', ''+'', ''-''} \<and> xs \<noteq> [] \<and> digits xs \<and> int (from_digits xs) \<le> i64_max"

lemma split_sign_written: "sg \<in> {'''', ''+'', ''-''} \<Longrightarrow> r = [] \<or> hd r \<notin> {CHR ''+'', CHR ''-''} \<Longrightarrow> split_sign (sg @ r) = (sg = ''-'', r)"
  by (cases r) (auto simp: split_sign_def)

lemma takeWhile_digits: "digits ds \<Longrightarrow> r = [] \<or> \<not> is_ascii_digit (hd r) \<Longrightarrow>
  takeWhile is_ascii_digit (ds @ r) = ds \<and> dropWhile is_ascii_digit (ds @ r) = r"
  by (induction ds) (cases r; auto)+

lemma digit_no_sign: "is_ascii_digit c \<Longrightarrow> c \<notin> {CHR ''+'', CHR ''-'', CHR ''.'', CHR ''e'', CHR ''E''}"
  by (auto simp: is_ascii_digit_def ascii_def)

lemma parse_exponent_written:
  assumes "exponent_ok ex"
  shows "parse_exponent (write_exponent ex) = Some (exponent_value ex, [])"
proof (cases ex)
  case None
  then show ?thesis by (simp add: parse_exponent_def)
next
  case (Some t)
  then obtain c sg xs where t: "ex = Some (c, sg, xs)" by (cases t) auto
  have xs: "c \<in> {CHR ''e'', CHR ''E''}" "sg \<in> {'''', ''+'', ''-''}" "xs \<noteq> []" "digits xs" "int (from_digits xs) \<le> i64_max"
    using assms by (simp_all add: t)
  have sp: "split_sign (sg @ xs) = (sg = ''-'', xs)" using xs digit_no_sign[of "hd xs"] by (intro split_sign_written) (cases xs; auto)+
  have tw: "takeWhile is_ascii_digit xs = xs" "dropWhile is_ascii_digit xs = []"
    using takeWhile_digits[OF xs(4), of "[]"] by simp_all
  have "parse_i64 xs = Some (int (from_digits xs))" using parse_signed_digits[OF xs(4,3) _ xs(5)] by simp
  then show ?thesis using xs(1,3) by (simp add: t parse_exponent_def with_sign_def Let_def sp tw)
qed

lemma write_exponent_hd: "exponent_ok ex \<Longrightarrow> write_exponent ex = [] \<or> hd (write_exponent ex) \<in> {CHR ''e'', CHR ''E''}"
  by (cases ex) auto

lemma parse_written:
  assumes "sg \<in> {'''', ''+'', ''-''}" "digits ds" "digits fs" "ds @ fs \<noteq> []" "point = ''.'' \<or> point = '''' \<and> fs = []" "exponent_ok ex"
  shows "parse (sg @ ds @ point @ fs @ write_exponent ex) = Some (assemble (sg = ''-'') ds fs (exponent_value ex))"
proof -
  let ?e = "write_exponent ex"
  let ?r = "ds @ point @ fs @ ?e"
  have e: "?e = [] \<or> hd ?e \<in> {CHR ''e'', CHR ''E''}" using write_exponent_hd[OF assms(6)] .
  have e_nd: "?e = [] \<or> \<not> is_ascii_digit (hd ?e)" using e digit_no_sign by blast
  have r_hd: "?r \<noteq> []" "hd ?r \<notin> {CHR ''+'', CHR ''-''}" "visible (hd ?r)"
    using assms(2-5) digit_no_sign[of "hd ds"] digit_no_sign[of "hd fs"]
    by (cases ds; cases fs; auto intro!: visible_number_char)+
  have vis: "visible c" if "c \<in> set (sg @ ?r)" for c
  proof (rule visible_number_char)
    have "set ?e \<subseteq> {c. is_ascii_digit c \<or> c \<in> set ''+-.eE''}" using assms(6) by (cases ex) (auto simp: list_all_iff)
    then show "is_ascii_digit c \<or> c \<in> set ''+-.eE''" using that assms(1,2,3,5) by (auto simp: list_all_iff)
  qed
  have ne: "sg @ ?r \<noteq> []" using r_hd(1) by blast
  have tr: "trim (sg @ ?r) = sg @ ?r"
    by (rule trim_visible[OF ne vis[OF hd_in_set[OF ne]] vis[OF last_in_set[OF ne]]])
  have sp: "split_sign (sg @ ?r) = (sg = ''-'', ?r)" using assms(1) r_hd(2) by (intro split_sign_written) auto
  have "point @ fs @ ?e = [] \<or> \<not> is_ascii_digit (hd (point @ fs @ ?e))"
    using assms(5) e_nd digit_no_sign[of "CHR ''.''"] by auto
  note T = takeWhile_digits[OF assms(2) this]
  note F = takeWhile_digits[OF assms(3) e_nd]
  have ne2: "\<not> (ds = [] \<and> fs = [])" using assms(4) by simp
  note X = parse_exponent_written[OF assms(6)]
  note P = parse_def tr ne Let_def sp prod.case T[THEN conjunct1] T[THEN conjunct2]
  show ?thesis
  proof (cases "point = ''.''")
    case True
    then show ?thesis unfolding P using F ne2 X by simp
  next
    case False
    then have p: "point = ''''" "fs = []" using assms(5) by auto
    have "\<not> (?e \<noteq> [] \<and> hd ?e = CHR ''.'')" using e by auto
    then show ?thesis unfolding P using ne2 X by (auto simp: p)
  qed
qed

lemma assemble_value:
  assumes "digits ds" "digits fs" "- (2 ^ 32) < e - int (length fs)" "e - int (length fs) \<le> i64_max"
  shows "decimal_value (assemble neg ds fs e) = of_int (with_sign neg (from_digits (ds @ fs))) * 10 powi (e - int (length fs))"
proof -
  let ?t = "e - int (length fs)"
  have w: "wrap_s 64 ?t = ?t" using assms(3,4) by (intro wrap_s64_id) auto
  have m: "normal (normalize_mag (ds @ fs))" using assms by (intro normalize_normal) simp
  have z: "with_sign (neg \<and> c \<noteq> ''0'') (from_digits c) = with_sign neg (from_digits c)" if "normal c" for c
    using normal_pos[OF that] by (auto simp: with_sign_def)
  show ?thesis
  proof (cases "0 \<le> ?t")
    case True
    let ?c = "normalize_mag (normalize_mag (ds @ fs) @ replicate (nat ?t) (CHR ''0''))"
    have c: "normal ?c" using m by (intro normalize_normal) (simp add: normal_digits)
    have a: "assemble neg ds fs e = \<lparr>negative = neg \<and> ?c \<noteq> ''0'', coeff = ?c, scale = 0\<rparr>" using True by (simp add: assemble_def w Let_def)
    have "from_digits ?c = from_digits (ds @ fs) * 10 ^ nat ?t" by (simp add: from_digits_append[of _ "replicate _ _"])
    moreover have "decimal_value (assemble neg ds fs e) = of_int (with_sign neg (from_digits ?c))"
      unfolding a decimal_value_def decimal.select_convs z[OF c] by simp
    ultimately have "decimal_value (assemble neg ds fs e) = of_int (with_sign neg (from_digits (ds @ fs)) * 10 ^ nat ?t)"
      by (simp only: with_sign_mult) simp
    then show ?thesis using True by (simp add: power_int_def)
  next
    case False
    have "(- ?t) mod 2 ^ 32 = - ?t" using False assms(3) by (intro mod_pos_pos_trivial) auto
    then have a: "assemble neg ds fs e = \<lparr>negative = neg \<and> normalize_mag (ds @ fs) \<noteq> ''0'', coeff = normalize_mag (ds @ fs), scale = nat (- ?t)\<rparr>"
      using False by (simp add: assemble_def w Let_def)
    have "decimal_value (assemble neg ds fs e) = of_int (with_sign neg (from_digits (ds @ fs))) / 10 ^ nat (- ?t)"
      unfolding a decimal_value_def decimal.select_convs z[OF m] by simp
    then show ?thesis using False by (simp add: power_int_def field_simps)
  qed
qed

text \<open>Reading a number string gives the number it denotes: an optional sign, digits with an optional point and an
  optional exponent, as long as the scale it needs stays below \<open>2 ^ 32\<close> and the exponent is an \<open>i64\<close>.\<close>

theorem parse_denotes:
  assumes "sg \<in> {'''', ''+'', ''-''}" "list_all is_ascii_digit ds" "list_all is_ascii_digit fs" "ds @ fs \<noteq> []"
    and "point = ''.'' \<or> point = '''' \<and> fs = []" "exponent_ok ex" "int (length fs) - exponent_value ex < 2 ^ 32"
  shows "\<exists>d. parse (sg @ ds @ point @ fs @ write_exponent ex) = Some d \<and>
    decimal_value d = (if sg = ''-'' then - 1 else 1) * of_nat (from_digits (ds @ fs)) * 10 powi (exponent_value ex - int (length fs))"
proof -
  have "exponent_value ex \<le> i64_max" using assms(6) by (cases ex) (auto simp: with_sign_def)
  then have "decimal_value (assemble (sg = ''-'') ds fs (exponent_value ex)) =
      of_int (with_sign (sg = ''-'') (from_digits (ds @ fs))) * 10 powi (exponent_value ex - int (length fs))"
    using assms(2,3,7) by (intro assemble_value) auto
  then show ?thesis using parse_written[OF assms(1-6)] by (simp add: with_sign_def)
qed

section \<open>Formatting\<close>

text \<open>A written number without an exponent, by its parts.\<close>

lemma parse_plain:
  assumes "sg \<in> {'''', ''+'', ''-''}" "digits ds" "digits fs" "ds @ fs \<noteq> []" "point = ''.'' \<or> point = '''' \<and> fs = []" "length fs < 2 ^ 32"
  shows "\<exists>d. parse (sg @ ds @ point @ fs) = Some d \<and>
    decimal_value d = of_int (with_sign (sg = ''-'') (from_digits (ds @ fs))) / 10 ^ length fs"
proof -
  have "decimal_value (assemble (sg = ''-'') ds fs 0) = of_int (with_sign (sg = ''-'') (from_digits (ds @ fs))) * 10 powi (0 - int (length fs))"
    using assms(2,3,6) by (intro assemble_value) auto
  moreover have "(10 :: rat) powi (0 - int (length fs)) = 1 / 10 ^ length fs" by (simp add: power_int_minus field_simps)
  ultimately show ?thesis using parse_written[OF assms(1-5), of None] by simp
qed

text \<open>Dropping the trailing zeros of a fraction does not change the number.\<close>

lemma fraction_zeros:
  "(of_nat (from_digits (i @ f @ replicate k (CHR ''0''))) :: rat) / 10 ^ (length f + k) = of_nat (from_digits (i @ f)) / 10 ^ length f"
  using from_digits_append[of "i @ f" "replicate k (CHR ''0'')"] by (simp add: power_add)

lemma strip_zeros: "\<exists>k. f = rev (dropWhile (\<lambda>c. c = CHR ''0'') (rev f)) @ replicate k (CHR ''0'')"
proof -
  let ?t = "takeWhile (\<lambda>c. c = CHR ''0'') (rev f)"
  have "?t = replicate (length ?t) (CHR ''0'')" by (metis (full_types) replicate_length_same set_takeWhileD)
  then have "f = rev (dropWhile (\<lambda>c. c = CHR ''0'') (rev f)) @ replicate (length ?t) (CHR ''0'')"
    by (metis rev_append rev_replicate rev_rev_ident takeWhile_dropWhile_id)
  then show ?thesis ..
qed

lemma trim_fraction_form:
  assumes "digits i" "i \<noteq> []" "digits f"
  obtains point fs where "trim_fraction (i @ ''.'' @ f) = i @ point @ fs" "point = ''.'' \<or> point = '''' \<and> fs = []" "digits fs" "length fs \<le> length f"
    "(of_nat (from_digits (i @ fs)) :: rat) / 10 ^ length fs = of_nat (from_digits (i @ f)) / 10 ^ length f"
proof -
  let ?g = "rev (dropWhile (\<lambda>c. c = CHR ''0'') (rev f))"
  obtain k where k: "f = ?g @ replicate k (CHR ''0'')" using strip_zeros by blast
  have g: "digits ?g" "length f = length ?g + k"
    using assms(3) digits_dropWhile[of "rev f"] k by (simp, metis length_append length_replicate)
  have v: "(of_nat (from_digits (i @ ?g)) :: rat) / 10 ^ length ?g = of_nat (from_digits (i @ f)) / 10 ^ length f"
    using fraction_zeros[of i ?g k] k g(2) by metis
  have dw: "dropWhile (\<lambda>c. c = CHR ''0'') (rev f @ CHR ''.'' # rev i) = dropWhile (\<lambda>c. c = CHR ''0'') (rev f) @ CHR ''.'' # rev i"
    by (cases "\<forall>c \<in> set (rev f). c = CHR ''0''") (auto simp: dropWhile_append dropWhile_append3)
  show ?thesis
  proof (cases "?g = []")
    case True
    then have "trim_fraction (i @ ''.'' @ f) = i @ '''' @ []" using dw by (simp add: trim_fraction_def Let_def butlast_append)
    then show ?thesis using v True by (intro that[of "''''" "[]"]) simp_all
  next
    case False
    then have "last ?g \<noteq> CHR ''0'' \<and> is_ascii_digit (last ?g)"
      using hd_dropWhile[of "\<lambda>c. c = CHR ''0''" "rev f"] g(1) last_in_set[OF False] by (auto simp: last_rev list_all_iff simp del: set_rev)
    then have "last ?g \<noteq> CHR ''.''" using digit_no_sign by blast
    then have "trim_fraction (i @ ''.'' @ f) = i @ ''.'' @ ?g" using dw False by (auto simp: trim_fraction_def Let_def)
    then show ?thesis using v g by (intro that[of "''.''" ?g]) simp_all
  qed
qed

lemma normal_length: "normal m \<Longrightarrow> from_digits m < 10 ^ k \<Longrightarrow> length m \<le> max 1 k"
proof (rule ccontr)
  assume m: "normal m" "from_digits m < 10 ^ k" "\<not> length m \<le> max 1 k"
  then have "m \<noteq> ''0''" by auto
  from normal_ge[OF m(1) this] m(2) have "(10 :: nat) ^ (length m - 1) < 10 ^ k" by linarith
  then have "length m - 1 < k" by simp
  with m(3) show False by linarith
qed

definition small :: "decimal \<Rightarrow> nat \<Rightarrow> bool" where
  "small d precision \<longleftrightarrow> length (coeff d) + precision < 2 ^ 31 \<and> scale d < 2 ^ 31"

lemma to_u32_id: "n < 2 ^ 32 \<Longrightarrow> to_u32 n = n"
  by (simp add: to_u32_def)

lemma signed_text:
  assumes "sg = (if n \<and> ds @ point @ fs \<noteq> ''0'' then ''-'' else '''')" "digits ds" "ds \<noteq> []" "digits fs"
    "point = ''.'' \<or> point = '''' \<and> fs = []" "length fs < 2 ^ 32"
  shows "\<exists>d. parse (sg @ ds @ point @ fs) = Some d \<and> decimal_value d = of_int (with_sign n (from_digits (ds @ fs))) / 10 ^ length fs"
proof -
  have "with_sign (sg = ''-'') (from_digits (ds @ fs)) = with_sign n (from_digits (ds @ fs))"
    using assms(1,3,5) by (cases ds) (auto simp: with_sign_def from_digits_Cons split: if_splits)
  moreover have "sg \<in> {'''', ''+'', ''-''}" "ds @ fs \<noteq> []" using assms(1,3) by auto
  ultimately show ?thesis using parse_plain[of sg ds fs point] assms(2-6) by metis
qed

lemma integer_string_value:
  assumes "decimal_wf d" "is_integer d" "small d p"
  shows "\<exists>c. parse (integer_string d) = Some c \<and> decimal_value c = decimal_value d"
proof -
  have u: "to_u32 (length (coeff d)) = length (coeff d)" using assms(3) by (intro to_u32_id) (auto simp: small_def)
  have n: "normal (coeff d)" "coeff d \<noteq> []" "digits (coeff d)" using assms(1) by (auto simp: decimal_wf_def normal_def)
  let ?hi = "take (length (coeff d) - scale d) (coeff d)"
  let ?ds = "if length (coeff d) \<le> scale d then ''0'' else normalize_mag ?hi"
  have hi: "digits ?hi" using n(3) by (simp add: list_all_iff) (metis in_set_takeD)
  have ds: "normal ?ds" using normalize_normal[OF hi] by simp
  have val: "decimal_value d = of_int (with_sign (negative d) (from_digits ?ds))"
  proof (cases "length (coeff d) \<le> scale d")
    case True
    then have "coeff d = ''0''" using assms(2) u n(2) by (auto simp: is_integer_def split: if_splits)
    then show ?thesis by (simp add: decimal_value_def from_digits_Cons with_sign_def)
  next
    case False
    let ?lo = "drop (length (coeff d) - scale d) (coeff d)"
    have "?lo = replicate (scale d) (CHR ''0'')"
    proof (cases "scale d = 0")
      case False
      then have "list_all (\<lambda>b. b = CHR ''0'') ?lo" using assms(2) u \<open>\<not> length (coeff d) \<le> scale d\<close> by (simp add: is_integer_def)
      then show ?thesis using \<open>\<not> length (coeff d) \<le> scale d\<close> by (intro replicate_eqI) (auto simp: list_all_iff)
    qed simp
    then have "from_digits (?hi @ ?lo) = from_digits ?hi * 10 ^ scale d"
      unfolding from_digits_append by simp
    then have "from_digits (coeff d) = from_digits ?hi * 10 ^ scale d" unfolding append_take_drop_id .
    then show ?thesis using False by (simp add: decimal_value_def with_sign_mult)
  qed
  have "integer_string d = (if negative d \<and> ?ds @ '''' @ [] \<noteq> ''0'' then ''-'' else '''') @ ?ds @ '''' @ []"
    by (auto simp: integer_string_def u Let_def)
  moreover have "?ds \<noteq> []" "digits ?ds" using ds unfolding normal_def by blast+
  ultimately show ?thesis using signed_text[OF refl, of ?ds "[]" "''''" "negative d"] val by simp
qed

lemma float_string_value:
  assumes "decimal_wf d" "scale d \<le> p" "1 \<le> p" "small d p"
  shows "\<exists>c. parse (float_string_trimmed d p) = Some c \<and> decimal_value c = decimal_value d"
proof -
  let ?r = "coeff_at_scale d p"
  note C = coeff_at_scale_facts[OF assms(1,2)]
  have r: "round_to d p = (?r, negative d)" using assms(2) by (simp add: round_to_def coeff_at_scale_def)
  have "from_digits ?r < 10 ^ (length (coeff d) + p)"
  proof -
    have "from_digits (coeff d) * 10 ^ (p - scale d) < 10 ^ length (coeff d) * 10 ^ (p - scale d)"
      using assms(1) from_digits_lt[of "coeff d"] by (simp add: decimal_wf_def normal_def)
    also have "\<dots> \<le> 10 ^ (length (coeff d) + p)" by (simp flip: power_add)
    finally show ?thesis by (simp add: C(2))
  qed
  from normal_length[OF C(1) this] have u: "to_u32 (length ?r) = length ?r"
    using assms(4) by (intro to_u32_id) (auto simp: small_def)
  let ?pad = "pad_to p ?r"
  let ?k = "length ?pad - p"
  have pad: "p < length ?pad" "from_digits ?pad = from_digits ?r" "digits ?pad"
    using C(1) by (auto simp: pad_to_def u from_digits_append normal_digits)
  let ?i = "normalize_mag (take ?k ?pad)" and ?f = "drop ?k ?pad"
  have i: "digits (take ?k ?pad)" "digits ?f" using pad(3) by (auto simp: list_all_iff dest: in_set_takeD in_set_dropD)
  have ni: "normal ?i" using normalize_normal[OF i(1)] .
  have len: "length ?f = p" using pad(1) by simp
  have "from_digits (?i @ ?f) = from_digits (take ?k ?pad @ ?f)" unfolding from_digits_append by simp
  then have v: "from_digits (?i @ ?f) = from_digits ?r" using pad(2) by simp
  obtain point fs where T: "trim_fraction (?i @ ''.'' @ ?f) = ?i @ point @ fs" "point = ''.'' \<or> point = '''' \<and> fs = []" "digits fs" "length fs \<le> length ?f"
    "(of_nat (from_digits (?i @ fs)) :: rat) / 10 ^ length fs = of_nat (from_digits (?i @ ?f)) / 10 ^ length ?f"
    using trim_fraction_form[of ?i ?f] ni i(2) by (auto simp: normal_def)
  have "float_string_trimmed d p = (if negative d \<and> ?i @ point @ fs \<noteq> ''0'' then ''-'' else '''') @ ?i @ point @ fs"
    using assms(3) T(1) by (simp add: float_string_trimmed_def r Let_def)
  moreover have "length fs < 2 ^ 32" using T(4) len assms(4) by (auto simp: small_def)
  ultimately obtain c where c: "parse (float_string_trimmed d p) = Some c"
    "decimal_value c = of_int (with_sign (negative d) (from_digits (?i @ fs))) / 10 ^ length fs"
    using signed_text[OF refl, of ?i fs point "negative d"] ni T(2,3) by (auto simp: normal_def)
  have "of_int (with_sign n x) / 10 ^ a = (of_int (with_sign n y) / 10 ^ b :: rat)" if "(of_nat x :: rat) / 10 ^ a = of_nat y / 10 ^ b" for n x y a b
    using that by (simp add: with_sign_def)
  from this[OF T(5)] have "decimal_value c = decimal_value d" unfolding c(2) C(3) v len .
  with c(1) show ?thesis by blast
qed

lemma format_sum_value:
  assumes "decimal_wf d" "scale d \<le> p" "small d (max p 1)"
  shows "\<exists>c. parse (format_sum d p) = Some c \<and> decimal_value c = decimal_value d"
  using integer_string_value[OF assms(1)] float_string_value[OF assms(1), of "max p 1"] assms
  by (auto simp: format_sum_def)

section \<open>Exact sums\<close>

text \<open>A number string without an exponent (and of realistic length).\<close>

definition plain_number :: "string \<Rightarrow> bool" where
  "plain_number s \<longleftrightarrow> CHR ''e'' \<notin> set s \<and> CHR ''E'' \<notin> set s \<and> length s < 2 ^ 29"

lemma trim_by_prefix: "\<exists>w. s = w @ trim_by ws s \<and> set w \<subseteq> \<Union> (set ` set ws)"
proof (induction ws s rule: trim_by.induct)
  case (1 ws s)
  show ?case
  proof (cases "white_len ws s = 0")
    case True
    then show ?thesis by (subst trim_by.simps) simp
  next
    case False
    then obtain v where v: "v \<in> set ws" "starts_with s v" "white_len ws s = length v"
      by (auto simp: white_len_def dest: find_SomeD split: option.splits)
    then have s: "s = v @ drop (length v) s" using append_take_drop_id[of "length v" s] by (simp add: starts_with_def)
    from 1[OF False] obtain w where w: "drop (length v) s = w @ trim_by ws (drop (length v) s)" "set w \<subseteq> \<Union> (set ` set ws)"
      using v(3) by auto
    have "trim_by ws s = trim_by ws (drop (length v) s)" using False v(3) by (subst trim_by.simps) simp
    with s w v(1) show ?thesis by (intro exI[of _ "v @ w"]) auto
  qed
qed

lemma trim_parts: "\<exists>u v. s = u @ trim s @ v \<and> CHR ''.'' \<notin> set u"
proof -
  obtain u where u: "s = u @ trim_by white_space s" "set u \<subseteq> \<Union> (set ` set white_space)" using trim_by_prefix by blast
  obtain v where "rev (trim_by white_space s) = v @ trim_by (map rev white_space) (rev (trim_by white_space s))"
    using trim_by_prefix by blast
  then have "trim_by white_space s = trim s @ rev v" unfolding trim_def by (metis rev_append rev_rev_ident)
  moreover have "CHR ''.'' \<notin> \<Union> (set ` set white_space)" by (simp add: white_space_def)
  ultimately show ?thesis using u by (metis subsetD)
qed

lemma split_sign_parts: "split_sign s = (neg, r) \<Longrightarrow> \<exists>sg. s = sg @ r \<and> CHR ''.'' \<notin> set sg"
  by (cases s) (auto simp: split_sign_def split: if_splits)

lemma digits_no_point: "digits s \<Longrightarrow> CHR ''.'' \<notin> set s"
  using digit_no_sign[of "CHR ''.''"] by (auto simp: list_all_iff)

text \<open>The parts of a plain number string.\<close>

lemma plain_parts:
  assumes "parse s = Some d" "plain_number s"
  obtains neg i f where "d = assemble neg i f 0" "digits i" "digits f" "length i + length f \<le> length s"
    "f = [] \<or> (\<exists>u v. s = u @ CHR ''.'' # f @ v \<and> CHR ''.'' \<notin> set u)"
proof -
  obtain u v where uv: "s = u @ trim s @ v" "CHR ''.'' \<notin> set u" using trim_parts by blast
  obtain neg r where sp: "split_sign (trim s) = (neg, r)" by fastforce
  then obtain sg where sg: "trim s = sg @ r" "CHR ''.'' \<notin> set sg" using split_sign_parts by blast
  let ?i = "takeWhile is_ascii_digit r" and ?r2 = "dropWhile is_ascii_digit r"
  have r: "r = ?i @ ?r2" by simp
  have noexp: "parse_exponent r3 = Some (0, r3)" if "set r3 \<subseteq> set s" for r3
    using that assms(2) by (cases r3) (auto simp: parse_exponent_def plain_number_def)
  have sub: "set ?r2 \<subseteq> set s" using uv(1) sg(1) set_dropWhileD[of _ is_ascii_digit r] by (metis (no_types, lifting) UnCI set_append subsetI)
  show ?thesis
  proof (cases "?r2 \<noteq> [] \<and> hd ?r2 = CHR ''.''")
    case True
    let ?f = "takeWhile is_ascii_digit (tl ?r2)" and ?r3 = "dropWhile is_ascii_digit (tl ?r2)"
    have r2: "?r2 = CHR ''.'' # ?f @ ?r3" using True by (metis list.collapse takeWhile_dropWhile_id)
    then have "set ?r3 \<subseteq> set s" using sub by (metis Un_upper2 list.set_intros(2) set_append subset_code(1) subset_trans)
    then have d: "?r3 = []" "d = assemble neg ?i ?f 0"
      using assms(1) True sp noexp[of ?r3] unfolding parse_def Let_def by (simp_all split: if_splits)
    have s: "s = (u @ sg @ ?i) @ CHR ''.'' # ?f @ v" using uv(1) sg(1) r r2 d(1) by (metis append.assoc append_Cons append_Nil2)
    have "CHR ''.'' \<notin> set (u @ sg @ ?i)" using uv(2) sg(2) digits_no_point[of ?i] by simp
    then have ex: "\<exists>u v. s = u @ CHR ''.'' # ?f @ v \<and> CHR ''.'' \<notin> set u" using s by blast
    have "length ?i + length ?f \<le> length s" using arg_cong[OF s, of length] by simp
    with ex show ?thesis by (intro that[of neg ?i ?f, OF d(2)]) simp_all
  next
    case False
    then have d: "?r2 = []" "d = assemble neg ?i [] 0"
      using assms(1) sp noexp[OF sub] unfolding parse_def Let_def by (auto split: if_splits simp del: dropWhile_eq_Nil_conv takeWhile_eq_Nil_iff)
    have "length ?i \<le> length s" using uv(1) sg(1) r d(1) by (metis append_Nil2 le_add1 le_add2 le_trans length_append)
    then show ?thesis by (intro that[of neg ?i "[]", OF d(2)]) simp_all
  qed
qed

lemma normalize_length: "length (normalize_mag s) \<le> max 1 (length s)"
  using length_dropWhile_le[of "\<lambda>x. x = CHR ''0''" s] by (auto simp: normalize_mag_def trim_start_matches_def Let_def)

lemma plain_bounds:
  assumes "parse s = Some d" "plain_number s"
  shows "scale d \<le> decimal_places s" "scale d < 2 ^ 29" "length (coeff d) < 2 ^ 29" "decimal_places s < 2 ^ 29"
proof -
  have l: "length s < 2 ^ 29" using assms(2) by (simp add: plain_number_def)
  show "decimal_places s < 2 ^ 29" using l by (auto simp: decimal_places_def to_u32_def split: option.splits)
  obtain neg i f where p: "d = assemble neg i f 0" "digits i" "digits f" "length i + length f \<le> length s"
    "f = [] \<or> (\<exists>u v. s = u @ CHR ''.'' # f @ v \<and> CHR ''.'' \<notin> set u)" by (rule plain_parts[OF assms])
  have w: "wrap_s 64 (- int (length f)) = - int (length f)" using p(4) l by simp
  have sc: "scale d = length f"
    using p(4) l by (auto simp: p(1) assemble_def w Let_def nat_eq_iff)
  show "scale d < 2 ^ 29" using sc p(4) l by simp
  show "scale d \<le> decimal_places s"
  proof (cases "f = []")
    case False
    then obtain u v where s: "s = u @ CHR ''.'' # f @ v" "CHR ''.'' \<notin> set u" using p(5) by blast
    then show ?thesis using l find_sub_char[of "CHR ''.''" u "f @ v"] by (simp add: decimal_places_def sc to_u32_def)
  qed (simp add: sc)
  have "length (normalize_mag (i @ f)) < 2 ^ 29" using normalize_length[of "i @ f"] p(4) l by simp
  moreover have "length (normalize_mag (normalize_mag (i @ f))) < 2 ^ 29"
    using normalize_length[of "normalize_mag (i @ f)"] calculation by simp
  ultimately show "length (coeff d) < 2 ^ 29" by (auto simp: p(1) assemble_def w Let_def)
qed

lemma add_small:
  assumes "decimal_wf a" "decimal_wf b" "scale a < 2 ^ 29" "scale b < 2 ^ 29" "length (coeff a) < 2 ^ 29" "length (coeff b) < 2 ^ 29" "p < 2 ^ 29"
  shows "small (add a b) (max p 1)"
proof -
  let ?s = "max (scale a) (scale b)"
  let ?L = "max (length (coeff a)) (length (coeff b)) + ?s"
  have bound: "from_digits (coeff_at_scale d ?s) < 10 ^ ?L" if "decimal_wf d" "length (coeff d) \<le> max (length (coeff a)) (length (coeff b))" "scale d \<le> ?s" for d
  proof -
    have "from_digits (coeff d) * 10 ^ (?s - scale d) < 10 ^ length (coeff d) * 10 ^ (?s - scale d)"
      using that(1) from_digits_lt[of "coeff d"] by (simp add: decimal_wf_def normal_def)
    also have "\<dots> \<le> 10 ^ ?L" using that(2) by (simp flip: power_add)
    finally show ?thesis by (simp add: coeff_at_scale_facts(2)[OF that(1,3)])
  qed
  have A: "from_digits (coeff_at_scale a ?s) < 10 ^ ?L" "from_digits (coeff_at_scale b ?s) < 10 ^ ?L"
    using bound[OF assms(1)] bound[OF assms(2)] by simp_all
  note N = coeff_at_scale_facts(1)[OF assms(1), of ?s] coeff_at_scale_facts(1)[OF assms(2), of ?s]
  have le: "from_digits (coeff (add a b)) \<le> from_digits (coeff_at_scale a ?s) + from_digits (coeff_at_scale b ?s)"
    using add_mag_normal(2)[OF normal_digits[OF N(1)] normal_digits[OF N(2)]] sub_mag_normal(2)[OF N] sub_mag_normal(2)[OF N(2) N(1)] cmp_normal[OF N]
    by (auto simp: add_def Let_def decimal_zero_def from_digits_Cons cmp_def trans_le_add1 trans_le_add2 split: ordering.splits if_splits)
  have "from_digits (coeff (add a b)) < 10 ^ Suc ?L" using le A by simp
  moreover have "normal (coeff (add a b))" using add_value(1)[OF assms(1,2)] by (simp add: decimal_wf_def)
  ultimately have "length (coeff (add a b)) \<le> Suc ?L" using normal_length by fastforce
  then show ?thesis using assms(3-7) add_value(3)[OF assms(1,2)] by (auto simp: small_def)
qed

lemma add_number_strings_value:
  assumes "parse l = Some a" "parse r = Some b" "plain_number l" "plain_number r"
  shows "\<exists>t c. add_number_strings l r = Inr t \<and> parse t = Some c \<and> decimal_value c = decimal_value a + decimal_value b"
proof -
  note wf = parse_wf[OF assms(1)] parse_wf[OF assms(2)]
  note B = plain_bounds[OF assms(1,3)] plain_bounds[OF assms(2,4)]
  let ?p = "max (decimal_places l) (decimal_places r)"
  have sc: "scale (add a b) \<le> ?p" using add_value(3)[OF wf] B by linarith
  have "small (add a b) (max ?p 1)" using B by (intro add_small[OF wf]) auto
  from format_sum_value[OF add_value(1)[OF wf] sc this] add_value(2)[OF wf] show ?thesis
    by (simp add: add_number_strings_def assms(1,2) or_else_def)
qed

text \<open>C36. \<open>ADD\<close> is exact for numbers written without an exponent: the answer parses, and stands for exactly the sum of the
  two operands. Nothing is rounded, whatever the number of digits.\<close>

theorem add_number_strings_exact:
  assumes "parse l = Some a" "parse r = Some b" "plain_number l" "plain_number r"
  shows "\<exists>t c. add_number_strings l r = Inr t \<and> parse t = Some c \<and> decimal_value c = decimal_value a + decimal_value b"
  by (rule add_number_strings_value[OF assms])

text \<open>Negation is exact on the same numbers.\<close>

theorem negate_number_string_exact:
  assumes "parse s = Some d" "plain_number s"
  shows "\<exists>t c. negate_number_string s = Inr t \<and> parse t = Some c \<and> decimal_value c = - decimal_value d"
proof -
  let ?d = "if is_zero d then d else d\<lparr>negative := \<not> negative d\<rparr>"
  note B = plain_bounds[OF assms]
  have wf: "decimal_wf ?d" using parse_wf[OF assms(1)] by (auto simp: decimal_wf_def is_zero_def)
  have v: "decimal_value ?d = - decimal_value d"
    by (auto simp: decimal_value_def with_sign_def is_zero_def from_digits_Cons)
  have "scale ?d \<le> decimal_places s" "small ?d (max (decimal_places s) 1)" using B by (auto simp: small_def)
  from format_sum_value[OF wf this] v show ?thesis
    by (simp add: negate_number_string_def assms(1) or_else_def)
qed

text \<open>Two limits of the exact arithmetic. A sum whose operands have exponents is rounded to the decimal places
  written in them, so a small term disappears: \<open>1e-5 + 1\<close> is \<open>1\<close>. And the scale is cut to 32 bits, so
  \<open>1e-4294967296\<close> is read as 1.\<close>

theorem exponents_lose_precision:
  "add_number_strings ''1e-5'' ''1'' = Inr ''1'' \<and>
   parse ''1e-4294967296'' = Some \<lparr>negative = False, coeff = ''1'', scale = 0\<rparr>"
  by code_simp

section \<open>Samples\<close>

theorem compare_number_strings_numeric_witness: "compare_number_strings ''-1.50'' ''1e-2'' = Less"
proof -
  have p: "parse ''-1.50'' = Some \<lparr>negative = True, coeff = ''150'', scale = 2\<rparr>"
    "parse ''1e-2'' = Some \<lparr>negative = False, coeff = ''1'', scale = 2\<rparr>" by code_simp+
  have d: "from_digits ''150'' = 150" "from_digits ''1'' = 1" by code_simp+
  show ?thesis using compare_number_strings_numeric[OF p] by (simp add: decimal_value_def with_sign_def d)
qed

theorem parse_denotes_witness: "\<exists>d. parse ''-12.5e3'' = Some d \<and> decimal_value d = - 12500"
proof -
  have d: "from_digits ''125'' = 125" "from_digits ''3'' = 3" by code_simp+
  have "\<exists>d. parse (''-'' @ ''12'' @ ''.'' @ ''5'' @ write_exponent (Some (CHR ''e'', '''', ''3''))) = Some d \<and>
    decimal_value d = (if ''-'' = ''-'' then - 1 else 1) * of_nat (from_digits (''12'' @ ''5'')) *
      10 powi (exponent_value (Some (CHR ''e'', '''', ''3'')) - int (length ''5''))"
    by (rule parse_denotes) (simp_all add: is_ascii_digit_def ascii_def with_sign_def d)
  then show ?thesis by (simp add: d with_sign_def power_int_def)
qed

theorem add_number_strings_exact_witness:
  "\<exists>t c. add_number_strings ''0.1'' ''0.25'' = Inr t \<and> parse t = Some c \<and> decimal_value c = 35 / 100"
proof -
  have p: "parse ''0.1'' = Some \<lparr>negative = False, coeff = ''1'', scale = 1\<rparr>"
    "parse ''0.25'' = Some \<lparr>negative = False, coeff = ''25'', scale = 2\<rparr>" by code_simp+
  have d: "from_digits ''1'' = 1" "from_digits ''25'' = 25" by code_simp+
  have "plain_number ''0.1''" "plain_number ''0.25''" by (simp_all add: plain_number_def)
  from add_number_strings_exact[OF p this] show ?thesis by (simp add: decimal_value_def with_sign_def d)
qed

theorem negate_number_string_exact_witness:
  "\<exists>t c. negate_number_string ''-2.50'' = Inr t \<and> parse t = Some c \<and> decimal_value c = 5 / 2"
proof -
  have p: "parse ''-2.50'' = Some \<lparr>negative = True, coeff = ''250'', scale = 2\<rparr>" by code_simp
  have d: "from_digits ''250'' = 250" by code_simp
  have "plain_number ''-2.50''" by (simp add: plain_number_def)
  from negate_number_string_exact[OF p this] show ?thesis by (simp add: decimal_value_def with_sign_def d)
qed

end
