(* ===== verification/Dynamo_Types.thy ===== *)
theory Dynamo_Types
  imports Json_Value Dynamo_Number
begin

text \<open>
  The data of the DynamoDB service (\<open>services/dynamodb/src/model.rs\<close>) and its JSON encoding
  (\<open>wire_json.rs\<close>). An attribute value is a JSON value, an item a map from names to attribute values.
  Code from third parties is a parameter, the record \<open>ddb_crates\<close>: the compact text of a JSON value
  (\<open>serde_json::to_vec\<close>) and the upper case of text outside ASCII (the Unicode tables). A field that
  several structs have carries a prefix for its struct.
\<close>

section \<open>Data\<close>

type_synonym item = "(string, json) bmap"
type_synonym names = "(string, string) bmap"
type_synonym attribute_values = "(string, json) bmap"

record ddb_crates =
  serde_to_vec :: "json \<Rightarrow> string"
  unicode_upper :: "string \<Rightarrow> string"
  sha256_hex :: "string \<Rightarrow> string"

record attribute_definition =
  ad_attribute_name :: string
  attribute_type :: string

record key_schema_element =
  attribute_name :: string
  key_type :: string

record stream_specification =
  stream_enabled_flag :: bool
  stream_view_type :: string

record time_to_live_description =
  ttl_attribute_name :: string
  time_to_live_status :: string

record index_projection =
  projection_type :: string
  non_key_attributes :: "string list"

record global_secondary_index_description =
  gsi_index_arn :: string
  gsi_index_name :: string
  gsi_index_size_bytes :: int
  gsi_index_status :: string
  gsi_item_count :: int
  gsi_key_schema :: "key_schema_element list"
  gsi_projection :: index_projection
  gsi_provisioned_throughput :: "(string, int) bmap"

record local_secondary_index_description =
  lsi_index_arn :: string
  lsi_index_name :: string
  lsi_index_size_bytes :: int
  lsi_item_count :: int
  lsi_key_schema :: "key_schema_element list"
  lsi_projection :: index_projection

record table_description =
  attribute_definitions :: "attribute_definition list"
  billing_mode_summary :: "string option"
  creation_date_time :: int
  global_secondary_indexes :: "global_secondary_index_description list"
  item_count :: int
  key_schema :: "key_schema_element list"
  latest_stream_arn :: string
  latest_stream_label :: string
  local_secondary_indexes :: "local_secondary_index_description list"
  stream_spec :: "stream_specification option"
  table_arn :: string
  table_name :: string
  table_size_bytes :: int
  table_status :: string
  ttl_description :: "time_to_live_description option"

section \<open>JSON text\<close>

text \<open>\<open>html_escape\<close> leaves a text without special bytes alone and rewrites the others in one pass.\<close>

abbreviation escape_seq :: "string \<Rightarrow> string" where
  "escape_seq s \<equiv> CHR 0x5C # s"

definition html_special :: "char \<Rightarrow> bool" where
  "html_special b \<longleftrightarrow> b = CHR ''<'' \<or> b = CHR ''>'' \<or> b = CHR ''&'' \<or> b = CHR 0xE2"

function escape_loop :: "string \<Rightarrow> string" where
  "escape_loop [] = []"
| "escape_loop (b # s) =
     (if b = CHR ''<'' then escape_seq ''u003c'' @ escape_loop s
      else if b = CHR ''>'' then escape_seq ''u003e'' @ escape_loop s
      else if b = CHR ''&'' then escape_seq ''u0026'' @ escape_loop s
      else if b = CHR 0xE2 \<and> starts_with s [CHR 0x80, CHR 0xA8] then escape_seq ''u2028'' @ escape_loop (drop 2 s)
      else if b = CHR 0xE2 \<and> starts_with s [CHR 0x80, CHR 0xA9] then escape_seq ''u2029'' @ escape_loop (drop 2 s)
      else b # escape_loop s)"
  by pat_completeness auto
termination by (relation "measure length") auto

definition html_escape :: "string \<Rightarrow> string" where
  "html_escape input = (if \<not> list_ex html_special input then input else escape_loop input)"

definition marshal :: "ddb_crates \<Rightarrow> json \<Rightarrow> string" where
  "marshal X v = html_escape (serde_to_vec X v)"

lemma escape_loop_plain: "\<not> list_ex html_special s \<Longrightarrow> escape_loop s = s"
  by (induction s) (auto simp: html_special_def)

lemma html_escape_loop: "html_escape s = escape_loop s"
  by (simp add: html_escape_def escape_loop_plain)

lemma escape_loop_append_plain: "\<not> list_ex html_special s \<Longrightarrow> escape_loop (s @ t) = s @ escape_loop t"
  by (induction s) (auto simp: html_special_def)

text \<open>\<open>to_uppercase\<close>: ASCII text letter by letter, other text by the Unicode tables.\<close>

definition is_ascii :: "string \<Rightarrow> bool" where
  "is_ascii s \<longleftrightarrow> list_all (\<lambda>c. ascii c < 128) s"

definition to_uppercase :: "ddb_crates \<Rightarrow> string \<Rightarrow> string" where
  "to_uppercase X s = (if is_ascii s then to_ascii_uppercase s else unicode_upper X s)"

end
