(* ===== verification/Json_Text.thy ===== *)
theory Json_Text
  imports Dynamo_Types
begin

text \<open>
  What the DynamoDB service relies on of the JSON text that \<open>serde_json\<close> writes, as the locale \<open>json_text\<close>:
  different values have different texts (numbers apart, which attribute values do not contain), a
  backslash only occurs in one of the escapes the crate writes, and an object with one member is
  written in the usual way. Its lemmas show that \<open>html_escape\<close> keeps these facts. The compact printer
  \<open>print_json\<close> is an instance.
\<close>

section \<open>Escapes\<close>

fun well_escaped :: "string \<Rightarrow> bool" where
  "well_escaped [] = True"
| "well_escaped [c] = (c \<noteq> CHR 0x5C)"
| "well_escaped (c # d # s) =
     (if c = CHR 0x5C
      then \<not> html_special d \<and> (d = CHR ''u'' \<longrightarrow> starts_with s ''000'' \<or> starts_with s ''001'') \<and> well_escaped s
      else well_escaped (d # s))"

text \<open>The inverse of \<open>html_escape\<close>.\<close>

function unescape :: "string \<Rightarrow> string" where
  "unescape [] = []"
| "unescape (c # s) =
     (if c \<noteq> CHR 0x5C then c # unescape s
      else if starts_with s ''u003c'' then CHR ''<'' # unescape (drop 5 s)
      else if starts_with s ''u003e'' then CHR ''>'' # unescape (drop 5 s)
      else if starts_with s ''u0026'' then CHR ''&'' # unescape (drop 5 s)
      else if starts_with s ''u2028'' then [CHR 0xE2, CHR 0x80, CHR 0xA8] @ unescape (drop 5 s)
      else if starts_with s ''u2029'' then [CHR 0xE2, CHR 0x80, CHR 0xA9] @ unescape (drop 5 s)
      else c # (case s of [] \<Rightarrow> [] | d # r \<Rightarrow> d # unescape r))"
  by pat_completeness auto
termination by (relation "measure length") auto

lemma starts_with_Cons: "starts_with (c # s) (d # p) \<longleftrightarrow> c = d \<and> starts_with s p"
  by (simp add: starts_with_def)

lemma starts_with_NilR: "starts_with s []"
  by (simp add: starts_with_def)

lemma starts_with_Nil: "starts_with [] p \<longleftrightarrow> p = []"
  by (auto simp: starts_with_def)

lemmas starts_with_simps = starts_with_Cons starts_with_NilR starts_with_Nil

lemma well_escaped_Cons: "c \<noteq> CHR 0x5C \<Longrightarrow> well_escaped (c # s) = well_escaped s"
  by (cases s) auto

lemma unescape_escape: "well_escaped s \<Longrightarrow> unescape (escape_loop s) = s"
proof (induction s rule: length_induct)
  case (1 s)
  show ?case
  proof (cases s)
    case (Cons c r)
    show ?thesis
    proof (cases "c = CHR 0x5C")
      case True
      with Cons 1(2) obtain d q where r: "r = d # q" "\<not> html_special d" "well_escaped q"
        and u: "d = CHR ''u'' \<longrightarrow> starts_with q ''000'' \<or> starts_with q ''001''" by (cases r) auto
      have esc: "escape_loop s = CHR 0x5C # d # escape_loop q"
        using r Cons True by (simp add: html_special_def)
      have "\<not> starts_with (d # escape_loop q) (CHR ''u'' # p)"
        if "p \<in> {''003c'', ''003e'', ''0026'', ''2028'', ''2029''}" for p
        using u that by (auto simp: starts_with_iff)
      then show ?thesis using 1(1) r Cons True esc by simp
    next
      case False
      then have wr: "well_escaped r" using Cons 1(2) by (simp add: well_escaped_Cons)
      have wd: "well_escaped (drop 2 r)" if "starts_with r [CHR 0x80, x]" "x \<noteq> CHR 0x5C" for x
        using wr that by (auto simp: starts_with_iff well_escaped_Cons)
      have whole: "[CHR 0xE2, CHR 0x80, x] @ drop 2 r = s" if "starts_with r [CHR 0x80, x]" "c = CHR 0xE2" for x
        using Cons that by (auto simp: starts_with_iff)
      have ih: "unescape (escape_loop t) = t" if "length t < length s" "well_escaped t" for t
        using 1(1) that by blast
      show ?thesis
        using Cons False wr wd[of "CHR 0xA8"] wd[of "CHR 0xA9"] whole[of "CHR 0xA8"] whole[of "CHR 0xA9"]
          ih[of r] ih[of "drop 2 r"]
        by (simp add: starts_with_simps numeral_eq_Suc)
    qed
  qed simp
qed

section \<open>The interface\<close>

fun no_numbers :: "json \<Rightarrow> bool" where
  "no_numbers (Number n) = False"
| "no_numbers (Array vs) = list_all no_numbers vs"
| "no_numbers (Object es) = list_all (\<lambda>e. no_numbers (snd e)) es"
| "no_numbers v = True"

definition quoted :: "string \<Rightarrow> string" where
  "quoted s = CHR 0x22 # s @ [CHR 0x22]"

locale json_text =
  fixes to_vec :: "json \<Rightarrow> string"
  assumes to_vec_inj: "no_numbers v \<Longrightarrow> no_numbers w \<Longrightarrow> to_vec v = to_vec w \<Longrightarrow> v = w"
    and to_vec_escapes: "well_escaped (to_vec v)"
    and to_vec_single: "list_all is_ascii_alphanumeric k \<Longrightarrow>
      to_vec (Object [(k, v)]) = ''{'' @ quoted k @ '':'' @ to_vec v @ ''}''"
begin

lemma escaped_inj:
  "no_numbers v \<Longrightarrow> no_numbers w \<Longrightarrow> html_escape (to_vec v) = html_escape (to_vec w) \<Longrightarrow> v = w"
  by (metis html_escape_loop to_vec_escapes to_vec_inj unescape_escape)

lemma escaped_single:
  assumes "list_all is_ascii_alphanumeric k"
  shows "html_escape (to_vec (Object [(k, v)])) = ''{'' @ quoted k @ '':'' @ escape_loop (to_vec v @ ''}'')"
proof -
  have "\<not> list_ex html_special k"
    using assms by (auto simp: list_ex_iff list_all_iff html_special_def is_ascii_alphanumeric_def
      is_ascii_digit_def is_ascii_uppercase_def is_ascii_lowercase_def ascii_def)
  then have "\<not> list_ex html_special (''{'' @ quoted k @ '':'')" by (simp add: html_special_def quoted_def)
  from escape_loop_append_plain[OF this, of "to_vec v @ ''}''"] show ?thesis
    using assms by (simp add: html_escape_loop to_vec_single)
qed

end

section \<open>A compact printer\<close>

definition print_char :: "char \<Rightarrow> string" where
  "print_char c =
     (if c = CHR 0x22 \<or> c = CHR 0x5C then [CHR 0x5C, c]
      else if ascii c < 32 then CHR 0x5C # ''u00'' @ [digit_char (ascii c div 16), digit_char (ascii c mod 16)]
      else [c])"

definition print_string :: "string \<Rightarrow> string" where
  "print_string s = quoted (concat (map print_char s))"

fun print_number :: "json_number \<Rightarrow> string" where
  "print_number (Int_num i) = int_to_string i"
| "print_number (Float_num m e) = int_to_string m @ ''e'' @ int_to_string e"

fun print_json :: "json \<Rightarrow> string" where
  "print_json Null = ''null''"
| "print_json (Bool b) = (if b then ''true'' else ''false'')"
| "print_json (Number n) = print_number n"
| "print_json (String s) = print_string s"
| "print_json (Array vs) = ''['' @ join '','' (map print_json vs) @ '']''"
| "print_json (Object es) = ''{'' @ join '','' (map (\<lambda>e. print_string (fst e) @ '':'' @ print_json (snd e)) es) @ ''}''"

text \<open>Printed elements are recognised from the left: what follows them does not matter.\<close>

lemma digit_pair_inj:
  assumes "a < 32" "b < 32" "digit_char (a div 16) = digit_char (b div 16)" "digit_char (a mod 16) = digit_char (b mod 16)"
  shows "a = (b :: nat)"
proof -
  have "a div 16 = b div 16" "a mod 16 = b mod 16"
    using assms by (simp_all add: digit_char_16_inj)
  then show ?thesis by (metis div_mult_mod_eq)
qed

lemma print_char_unique: "print_char c @ r = print_char d @ q \<Longrightarrow> c = d \<and> r = q"
  using digit_pair_inj[of "ascii c" "ascii d"]
  by (auto simp: print_char_def ascii_def split: if_splits)

lemma print_char_no_quote: "CHR 0x22 # r \<noteq> print_char c @ q" "print_char c @ q \<noteq> CHR 0x22 # r"
  by (auto simp: print_char_def)

lemma print_chars_unique:
  "concat (map print_char s) @ CHR 0x22 # r = concat (map print_char t) @ CHR 0x22 # q \<Longrightarrow> s = t \<and> r = q"
proof (induction s arbitrary: t)
  case Nil
  then show ?case by (cases t) (simp_all add: print_char_no_quote)
next
  case (Cons c s)
  then obtain d t' where "t = d # t'" by (cases t) (simp_all add: print_char_no_quote)
  with Cons print_char_unique[of c "concat (map print_char s) @ CHR 0x22 # r" d "concat (map print_char t') @ CHR 0x22 # q"]
  show ?case by auto
qed

lemma print_string_unique: "print_string s @ r = print_string t @ q \<Longrightarrow> s = t \<and> r = q"
  using print_chars_unique[of s r t q] by (simp add: print_string_def quoted_def)

definition separable :: "('a \<Rightarrow> string) \<Rightarrow> 'a \<Rightarrow> 'a set \<Rightarrow> bool" where
  "separable f x A \<longleftrightarrow> (\<forall>y \<in> A. \<forall>r q. f x @ r = f y @ q \<longrightarrow> x = y \<and> r = q)"

lemma separableD: "separable f x A \<Longrightarrow> y \<in> A \<Longrightarrow> f x @ r = f y @ q \<Longrightarrow> x = y \<and> r = q"
  unfolding separable_def by blast

lemma join_Cons: "join sep (w # ws) = w @ concat (map (\<lambda>v. sep @ v) ws)"
  by (induction ws arbitrary: w) auto

lemma tail_unique:
  assumes "\<forall>x \<in> set xs. separable f x A" "set ys \<subseteq> A" "z \<noteq> CHR '',''"
    "concat (map (\<lambda>v. '','' @ f v) xs) @ z # r = concat (map (\<lambda>v. '','' @ f v) ys) @ z # q"
  shows "xs = ys \<and> r = q"
  using assms
proof (induction xs arbitrary: ys)
  case Nil
  then show ?case by (cases ys) auto
next
  case (Cons x xs)
  then obtain y ys' where ys: "ys = y # ys'" by (cases ys) auto
  have "f x @ (concat (map (\<lambda>v. '','' @ f v) xs) @ z # r) = f y @ (concat (map (\<lambda>v. '','' @ f v) ys') @ z # q)"
    using Cons.prems(4) ys by simp
  then have "x = y \<and> concat (map (\<lambda>v. '','' @ f v) xs) @ z # r = concat (map (\<lambda>v. '','' @ f v) ys') @ z # q"
    using Cons.prems(1,2) ys by (intro separableD[of f x A y]) simp_all
  with Cons.IH[of ys'] Cons.prems ys show ?case by auto
qed

lemma join_unique:
  assumes "\<forall>x \<in> set xs. separable f x A" "set ys \<subseteq> A" "z \<noteq> CHR '',''"
    "\<forall>x \<in> set xs \<union> set ys. \<forall>r q. f x @ r \<noteq> z # q"
    "join '','' (map f xs) @ z # r = join '','' (map f ys) @ z # q"
  shows "xs = ys \<and> r = q"
proof (cases xs)
  case Nil
  then have "ys = []" using assms(4,5) by (cases ys) (auto simp: join_Cons, metis)
  then show ?thesis using assms(5) Nil by simp
next
  case (Cons x xs')
  obtain y ys' where ys: "ys = y # ys'" using assms(4,5) Cons by (cases ys) (auto simp: join_Cons)
  have "f x @ (concat (map (\<lambda>v. '','' @ f v) xs') @ z # r) = f y @ (concat (map (\<lambda>v. '','' @ f v) ys') @ z # q)"
    using assms(5) Cons ys by (simp add: join_Cons comp_def)
  then have "x = y \<and> concat (map (\<lambda>v. '','' @ f v) xs') @ z # r = concat (map (\<lambda>v. '','' @ f v) ys') @ z # q"
    using assms(1,2) Cons ys by (intro separableD[of f x A y]) simp_all
  with tail_unique[of xs' f A ys' z r q] assms(1-3) Cons ys show ?thesis by auto
qed

lemma print_json_hd: "no_numbers v \<Longrightarrow> print_json v @ r \<noteq> CHR '']'' # q"
  by (cases v) (auto simp: print_string_def quoted_def split: if_splits)

definition print_member :: "string \<times> json \<Rightarrow> string" where
  "print_member e = print_string (fst e) @ '':'' @ print_json (snd e)"

lemma print_object: "print_json (Object es) = ''{'' @ join '','' (map print_member es) @ ''}''"
  by (simp add: print_member_def[abs_def])

lemma print_member_hd: "print_member e @ r \<noteq> CHR ''}'' # q"
  by (simp add: print_member_def print_string_def quoted_def)

lemma print_member_separable:
  assumes "separable print_json (snd e) {v. no_numbers v}"
  shows "separable print_member e {e. no_numbers (snd e)}"
  unfolding separable_def
proof (intro ballI allI impI)
  fix e' r q
  assume e': "e' \<in> {e. no_numbers (snd e)}" and eq: "print_member e @ r = print_member e' @ q"
  from eq print_string_unique[of "fst e" "'':'' @ print_json (snd e) @ r" "fst e'" "'':'' @ print_json (snd e') @ q"]
  have "fst e = fst e' \<and> print_json (snd e) @ r = print_json (snd e') @ q" by (simp add: print_member_def)
  with separableD[OF assms, of "snd e'" r q] e' show "e = e' \<and> r = q" by (simp add: prod_eq_iff)
qed

lemma print_atom_separable:
  assumes "v \<in> {Null, Bool True, Bool False}"
  shows "separable print_json v {v. no_numbers v}"
  unfolding separable_def
proof (intro ballI allI impI)
  fix w r q
  assume "w \<in> {v. no_numbers v}" "print_json v @ r = print_json w @ q"
  then show "v = w \<and> r = q"
    using assms by (cases w) (auto simp: print_string_def quoted_def split: if_splits)
qed

lemma print_json_separable: "no_numbers v \<Longrightarrow> separable print_json v {v. no_numbers v}"
proof (induction v rule: print_json.induct)
  case (5 vs)
  show ?case unfolding separable_def
  proof (intro ballI allI impI)
    fix w r q
    assume w: "w \<in> {v. no_numbers v}" and eq: "print_json (Array vs) @ r = print_json w @ q"
    from eq w obtain ws where ws: "w = Array ws" by (cases w) (auto simp: print_string_def quoted_def split: if_splits)
    have "vs = ws \<and> r = q"
    proof (rule join_unique[of vs print_json "{v. no_numbers v}" ws "CHR '']''"])
      show "\<forall>x \<in> set vs. separable print_json x {v. no_numbers v}" using 5 by (simp add: list_all_iff)
      show "\<forall>x \<in> set vs \<union> set ws. \<forall>r q. print_json x @ r \<noteq> CHR '']'' # q"
        using 5(2) w ws print_json_hd by (auto simp: list_all_iff)
    qed (use w ws eq in \<open>simp_all add: list_all_iff subset_iff\<close>)
    then show "Array vs = w \<and> r = q" using ws by simp
  qed
next
  case (6 es)
  show ?case unfolding separable_def
  proof (intro ballI allI impI)
    fix w r q
    assume w: "w \<in> {v. no_numbers v}" and eq: "print_json (Object es) @ r = print_json w @ q"
    from eq w obtain ws where ws: "w = Object ws" by (cases w) (auto simp: print_string_def quoted_def split: if_splits)
    have "es = ws \<and> r = q"
    proof (rule join_unique[of es print_member "{e. no_numbers (snd e)}" ws "CHR ''}''"])
      show "\<forall>x \<in> set es. separable print_member x {e. no_numbers (snd e)}"
        using 6 by (auto simp: list_all_iff intro: print_member_separable)
      show "\<forall>x \<in> set es \<union> set ws. \<forall>r q. print_member x @ r \<noteq> CHR ''}'' # q"
        by (simp add: print_member_hd)
    qed (use w ws eq in \<open>simp_all add: list_all_iff subset_iff print_object del: print_json.simps\<close>)
    then show "Object es = w \<and> r = q" using ws by simp
  qed
next
  case (4 s)
  show ?case unfolding separable_def
  proof (intro ballI allI impI)
    fix w r q
    assume w: "w \<in> {v. no_numbers v}" and eq: "print_json (String s) @ r = print_json w @ q"
    from eq w obtain t where t: "w = String t" by (cases w) (auto simp: print_string_def quoted_def split: if_splits)
    with eq show "String s = w \<and> r = q" using print_string_unique[of s r t q] by simp
  qed
next
  case 1
  show ?case by (rule print_atom_separable) simp
next
  case (2 b)
  show ?case by (rule print_atom_separable) simp
qed simp

lemma well_escaped_append: "well_escaped s \<Longrightarrow> well_escaped t \<Longrightarrow> well_escaped (s @ t)"
proof (induction s rule: well_escaped.induct)
  case (2 c)
  then show ?case by (simp add: well_escaped_Cons)
next
  case (3 c d s)
  then show ?case by (auto simp: starts_with_iff split: if_splits)
qed simp

lemma well_escaped_plain: "CHR 0x5C \<notin> set s \<Longrightarrow> well_escaped s"
  by (induction s) (auto simp: well_escaped_Cons)

lemma hex_digits: "list_all (\<lambda>d. digit_char d \<noteq> CHR 0x5C) [0..<16]" "digit_char 0 = CHR ''0''" "digit_char 1 = CHR ''1''"
  by code_simp+

lemma hex_digit: "d < 16 \<Longrightarrow> digit_char d \<noteq> CHR 0x5C"
  using hex_digits(1) unfolding list_all_iff by (simp only: set_upt atLeastLessThan_iff) simp

lemma well_escaped_char: "well_escaped (print_char c)"
proof -
  have "digit_char (ascii c div 16) \<in> {CHR ''0'', CHR ''1''}" if "ascii c < 32"
  proof -
    have "ascii c div 16 = 0 \<or> ascii c div 16 = 1" using that by auto
    then show ?thesis using hex_digits(2,3) by auto
  qed
  then show ?thesis using hex_digit[of "ascii c mod 16"]
    by (auto simp: print_char_def html_special_def starts_with_simps)
qed

lemma well_escaped_concat: "\<forall>s \<in> set ss. well_escaped s \<Longrightarrow> well_escaped (concat ss)"
  by (induction ss) (simp_all add: well_escaped_append)

lemma well_escaped_join: "\<forall>s \<in> set ss. well_escaped s \<Longrightarrow> well_escaped (join '','' ss)"
  by (induction "'',''" ss rule: join.induct) (simp_all add: well_escaped_append well_escaped_Cons)

lemma well_escaped_string: "well_escaped (print_string s)"
  by (auto simp: print_string_def quoted_def well_escaped_Cons well_escaped_char
    intro!: well_escaped_append well_escaped_concat)

lemma no_backslash_int: "CHR 0x5C \<notin> set (int_to_string i)"
proof -
  have "CHR 0x5C \<notin> set (dec n)" for n
    using list_all_digit_dec[of n] by (auto simp: list_all_iff is_ascii_digit_def ascii_def)
  then show ?thesis by (simp add: int_to_string_def)
qed

lemma well_escaped_number: "well_escaped (print_number n)"
  by (cases n) (simp_all add: well_escaped_plain no_backslash_int)

lemma well_escaped_json: "well_escaped (print_json v)"
proof (induction v rule: print_json.induct)
  case (5 vs)
  then show ?case by (auto simp: well_escaped_Cons intro!: well_escaped_append well_escaped_join)
next
  case (6 es)
  then show ?case
    by (auto simp: well_escaped_Cons well_escaped_string intro!: well_escaped_append well_escaped_join)
qed (simp_all add: well_escaped_string well_escaped_number)

lemma print_string_plain:
  assumes "list_all is_ascii_alphanumeric k"
  shows "print_string k = quoted k"
proof -
  have "print_char c = [c]" if "c \<in> set k" for c
    using assms that by (auto simp: list_all_iff print_char_def is_ascii_alphanumeric_def
      is_ascii_digit_def is_ascii_uppercase_def is_ascii_lowercase_def ascii_def)
  then have "concat (map print_char k) = k" by (induction k) simp_all
  then show ?thesis by (simp add: print_string_def)
qed

interpretation compact: json_text print_json
proof
  fix v w
  assume "no_numbers v" "no_numbers w" "print_json v = print_json w"
  then show "v = w" using separableD[OF print_json_separable, of v w "[]" "[]"] by simp
next
  fix k v
  assume "list_all is_ascii_alphanumeric k"
  then show "print_json (Object [(k, v)]) = ''{'' @ quoted k @ '':'' @ print_json v @ ''}''"
    by (simp add: print_string_plain)
qed (rule well_escaped_json)

end
