(* ===== verification/Dynamo_Attribute.thy ===== *)
theory Dynamo_Attribute
  imports Json_Text "HOL-Library.Product_Lexorder"
begin

text \<open>
  \<open>services/dynamodb/src/attribute.rs\<close>: validation, types, comparison and projection of attribute values,
  and the key string of an item. The typed values \<open>av\<close> are the specification: validation accepts
  exactly the JSON forms of well-formed typed values, and comparison is a total preorder on them.
\<close>

section \<open>Base64\<close>

definition base64_value :: "char \<Rightarrow> nat option" where
  "base64_value c =
     (let n = ascii c in
      if 65 \<le> n \<and> n \<le> 90 then Some (n - 65)
      else if 97 \<le> n \<and> n \<le> 122 then Some (n - 97 + 26)
      else if 48 \<le> n \<and> n \<le> 57 then Some (n - 48 + 52)
      else if c = CHR ''+'' then Some 62
      else if c = CHR ''/'' then Some 63
      else None)"

fun chunk_value :: "nat \<Rightarrow> nat \<Rightarrow> nat \<Rightarrow> string \<Rightarrow> nat option" where
  "chunk_value pads j acc [] = Some acc"
| "chunk_value pads j acc (c # cs) =
     (case (if c = CHR ''='' then (if j < 4 - pads then None else Some 0) else base64_value c) of
        None \<Rightarrow> None
      | Some v \<Rightarrow> chunk_value pads (Suc j) (acc * 64 + v) cs)"

definition byte :: "nat \<Rightarrow> char" where
  "byte n = char_of (n mod 256)"

definition chunk_bytes :: "nat \<Rightarrow> nat \<Rightarrow> string" where
  "chunk_bytes pads acc =
     [byte (acc div 65536)] @ (if pads < 2 then [byte (acc div 256)] else []) @ (if pads < 1 then [byte acc] else [])"

fun decode_chunks :: "string \<Rightarrow> string option" where
  "decode_chunks (a # b # c # d # rest) =
     (let pads = length (takeWhile (\<lambda>x. x = CHR ''='') [d, c, b, a]) in
      if pads > 2 then None
      else (case chunk_value pads 0 0 [a, b, c, d] of
              None \<Rightarrow> None
            | Some acc \<Rightarrow> map_option (\<lambda>out. chunk_bytes pads acc @ out) (decode_chunks rest)))"
| "decode_chunks _ = Some []"

definition base64_decode :: "string \<Rightarrow> string option" where
  "base64_decode input = (if length input mod 4 \<noteq> 0 then None else decode_chunks input)"

section \<open>Validation\<close>

fun string_entries :: "json list \<Rightarrow> string list option" where
  "string_entries [] = Some []"
| "string_entries (v # vs) =
     (case as_str v of None \<Rightarrow> None | Some s \<Rightarrow> map_option ((#) s) (string_entries vs))"

definition string_slice :: "json \<Rightarrow> string list option" where
  "string_slice raw = (case as_array raw of None \<Rightarrow> None | Some arr \<Rightarrow> string_entries arr)"

fun has_duplicate_from :: "string set \<Rightarrow> string list \<Rightarrow> bool" where
  "has_duplicate_from seen [] = False"
| "has_duplicate_from seen (v # vs) = (if v \<in> seen then True else has_duplicate_from (insert v seen) vs)"

definition has_duplicate :: "string list \<Rightarrow> bool" where
  "has_duplicate vs = has_duplicate_from {} vs"

definition attribute_error :: "string \<Rightarrow> string \<Rightarrow> 'a result" where
  "attribute_error path what = Inl (''attribute '' @ path @ '' '' @ what)"

definition validate_string_set :: "string \<Rightarrow> string \<Rightarrow> json \<Rightarrow> unit result" where
  "validate_string_set kind path raw =
     (case string_slice raw of
        None \<Rightarrow> attribute_error path (kind @ '' value must be a string list'')
      | Some vs \<Rightarrow>
          if vs = [] then attribute_error path (kind @ '' value must not be empty'')
          else if has_duplicate vs then attribute_error path (kind @ '' value must not contain duplicates'')
          else if kind = ''BS'' \<and> list_ex (\<lambda>b. base64_decode b = None) vs
          then attribute_error path ''BS value must contain base64 encoded strings''
          else Inr ())"

definition validate_number_set :: "string \<Rightarrow> json \<Rightarrow> unit result" where
  "validate_number_set path raw =
     (case string_slice raw of
        None \<Rightarrow> attribute_error path ''NS value must be a string list''
      | Some vs \<Rightarrow>
          if vs = [] then attribute_error path ''NS value must not be empty''
          else if has_duplicate vs then attribute_error path ''NS value must not contain duplicates''
          else if list_ex (\<lambda>n. \<not> is_valid_number n) vs
          then attribute_error path ''NS value must contain valid numbers''
          else Inr ())"

definition validate_scalar :: "string \<Rightarrow> string \<Rightarrow> json \<Rightarrow> unit result" where
  "validate_scalar kind path raw =
     (if kind = ''S'' then
        (if as_str raw = None then attribute_error path ''S value must be a string'' else Inr ())
      else if kind = ''B'' then
        (case as_str raw of None \<Rightarrow> attribute_error path ''B value must be a string''
         | Some b \<Rightarrow> if base64_decode b = None then attribute_error path ''B value must be base64 encoded'' else Inr ())
      else if kind = ''N'' then
        (case as_str raw of None \<Rightarrow> attribute_error path ''N value must be a string''
         | Some n \<Rightarrow> if \<not> is_valid_number n then attribute_error path ''N value must be a valid number'' else Inr ())
      else if kind = ''BOOL'' then
        (if as_bool raw = None then attribute_error path ''BOOL value must be a boolean'' else Inr ())
      else if kind = ''NULL'' then
        (if as_bool raw \<noteq> Some True then attribute_error path ''NULL value must be true'' else Inr ())
      else if kind = ''SS'' \<or> kind = ''BS'' then validate_string_set kind path raw
      else if kind = ''NS'' then validate_number_set path raw
      else attribute_error path (''has unsupported AttributeValue type '' @ kind))"

fun is_object :: "json \<Rightarrow> bool" where
  "is_object (Object es) = True"
| "is_object _ = False"

fun validate_attribute_value :: "json \<Rightarrow> string \<Rightarrow> unit result"
  and validate_members :: "(string \<times> json) list \<Rightarrow> string \<Rightarrow> unit result"
  and validate_elements :: "json list \<Rightarrow> nat \<Rightarrow> string \<Rightarrow> unit result" where
  "validate_attribute_value (Object [(kind, raw)]) path =
     (if kind = ''M'' then
        (case raw of Object entries \<Rightarrow> validate_members entries path
         | _ \<Rightarrow> attribute_error path ''M value must be a map'')
      else if kind = ''L'' then
        (case raw of Array entries \<Rightarrow> validate_elements entries 0 path
         | _ \<Rightarrow> attribute_error path ''L value must be a list'')
      else validate_scalar kind path raw)"
| "validate_attribute_value _ path = attribute_error path ''must contain exactly one AttributeValue type''"
| "validate_members [] path = Inr ()"
| "validate_members ((name, nested) # entries) path =
     (let sub = path @ ''.'' @ name in
      if \<not> is_object nested then attribute_error sub ''must be an AttributeValue object''
      else bind_res (validate_attribute_value nested sub) (\<lambda>_. validate_members entries path))"
| "validate_elements [] index path = Inr ()"
| "validate_elements (nested # entries) index path =
     (let sub = path @ ''['' @ dec index @ '']'' in
      if \<not> is_object nested then attribute_error sub ''must be an AttributeValue object''
      else bind_res (validate_attribute_value nested sub) (\<lambda>_. validate_elements entries (Suc index) path))"

fun validate_item_attribute_values :: "item \<Rightarrow> unit result" where
  "validate_item_attribute_values [] = Inr ()"
| "validate_item_attribute_values ((name, attr) # item) =
     (if name = [] then Inl ''attribute name is required''
      else bind_res (validate_attribute_value attr name) (\<lambda>_. validate_item_attribute_values item))"

definition type_order :: "string list" where
  "type_order = [''S'', ''N'', ''B'', ''BOOL'', ''NULL'', ''M'', ''L'', ''SS'', ''NS'', ''BS'']"

definition attribute_type_name :: "json \<Rightarrow> string" where
  "attribute_type_name v =
     (case as_object v of None \<Rightarrow> []
      | Some obj \<Rightarrow> (case find (\<lambda>name. bt_contains obj name) type_order of None \<Rightarrow> [] | Some name \<Rightarrow> name))"

section \<open>Keys and projections\<close>

fun key_values :: "key_schema_element list \<Rightarrow> item \<Rightarrow> json list result" where
  "key_values [] vals = Inr []"
| "key_values (element # schema) vals =
     (case map_of vals (attribute_name element) of
        None \<Rightarrow> Inl (''missing key attribute '' @ attribute_name element)
      | Some v \<Rightarrow> bind_res (validate_attribute_value v (attribute_name element))
          (\<lambda>_. bind_res (key_values schema vals) (\<lambda>vs. Inr (v # vs))))"

definition item_key :: "ddb_crates \<Rightarrow> table_description \<Rightarrow> item \<Rightarrow> string result" where
  "item_key X d vals = bind_res (key_values (key_schema d) vals) (\<lambda>vs. Inr (marshal X (Array vs)))"

fun extract_from :: "key_schema_element list \<Rightarrow> item \<Rightarrow> item \<Rightarrow> item result" where
  "extract_from [] vals key = Inr key"
| "extract_from (element # schema) vals key =
     (case map_of vals (attribute_name element) of
        None \<Rightarrow> Inl (''missing key attribute '' @ attribute_name element)
      | Some attr \<Rightarrow> extract_from schema vals (bt_insert (attribute_name element) attr key))"

definition extract_key :: "table_description \<Rightarrow> item \<Rightarrow> item result" where
  "extract_key d vals = extract_from (key_schema d) vals []"

definition resolve_attribute_name :: "string \<Rightarrow> names \<Rightarrow> string" where
  "resolve_attribute_name token nms =
     (if starts_with token ''#'' then (case map_of nms token of Some v \<Rightarrow> v | None \<Rightarrow> token) else token)"

text \<open>Copy the named attributes that the item has into a new item, in the order of the names.\<close>

definition pick :: "item \<Rightarrow> string list \<Rightarrow> item" where
  "pick vals nms = fold (\<lambda>name acc. case map_of vals name of None \<Rightarrow> acc | Some attr \<Rightarrow> bt_insert name attr acc) nms []"

definition project_item :: "item \<Rightarrow> string \<Rightarrow> names \<Rightarrow> item" where
  "project_item vals expression nms =
     (let expression = trim expression in
      if expression = [] then vals
      else pick vals (map (\<lambda>token. resolve_attribute_name (trim token) nms) (split_on (\<lambda>c. c = CHR '','') expression)))"

definition index_projection_for_name ::
  "table_description \<Rightarrow> string \<Rightarrow> (index_projection \<times> key_schema_element list) option" where
  "index_projection_for_name d index_name =
     (if index_name = [] then None
      else case find (\<lambda>i. gsi_index_name i = index_name) (global_secondary_indexes d) of
        Some i \<Rightarrow> Some (gsi_projection i, gsi_key_schema i)
      | None \<Rightarrow> map_option (\<lambda>i. (lsi_projection i, lsi_key_schema i))
          (find (\<lambda>i. lsi_index_name i = index_name) (local_secondary_indexes d)))"

definition project_index_item :: "table_description \<Rightarrow> string \<Rightarrow> item \<Rightarrow> item" where
  "project_index_item d index_name vals =
     (case index_projection_for_name d index_name of
        None \<Rightarrow> vals
      | Some (projection, schema) \<Rightarrow>
          if projection_type projection = [] \<or> projection_type projection = ''ALL'' then vals
          else (let allowed = map attribute_name (key_schema d) @ map attribute_name schema
                  @ (if projection_type projection = ''INCLUDE'' then non_key_attributes projection else [])
                in pick vals (sorted_list_of_set (set allowed))))"

definition project_result_item :: "table_description \<Rightarrow> string \<Rightarrow> item \<Rightarrow> string \<Rightarrow> names \<Rightarrow> item" where
  "project_result_item d index_name vals expression nms =
     project_item (project_index_item d index_name vals) expression nms"

section \<open>Comparison\<close>

definition attribute_values_equal :: "json \<Rightarrow> json \<Rightarrow> bool" where
  "attribute_values_equal left right \<longleftrightarrow> left = right"

definition compare_attribute_values :: "ddb_crates \<Rightarrow> json \<Rightarrow> json \<Rightarrow> ordering" where
  "compare_attribute_values X left right =
     (let types = cmp (attribute_type_name left) (attribute_type_name right);
          texts = cmp (marshal X left) (marshal X right) in
      case (as_object left, as_object right) of
        (Some lo, Some ro) \<Rightarrow>
          (case member_str left ''N'' of
             Some n1 \<Rightarrow> (case member_str right ''N'' of Some n2 \<Rightarrow> compare_number_strings n1 n2 | None \<Rightarrow> types)
           | None \<Rightarrow>
          (case member_str left ''S'' of
             Some s1 \<Rightarrow> (case member_str right ''S'' of Some s2 \<Rightarrow> cmp s1 s2 | None \<Rightarrow> types)
           | None \<Rightarrow>
          (case member_str left ''B'' of
             Some b1 \<Rightarrow> (case member_str right ''B'' of Some b2 \<Rightarrow> cmp b1 b2 | None \<Rightarrow> types)
           | None \<Rightarrow> texts)))
      | _ \<Rightarrow> texts)"

section \<open>Typed attribute values\<close>

datatype av =
    AV_S string | AV_N string | AV_B string | AV_BOOL bool | AV_NULL
  | AV_M "(string \<times> av) list" | AV_L "av list"
  | AV_SS "string list" | AV_NS "string list" | AV_BS "string list"

fun to_json :: "av \<Rightarrow> json" where
  "to_json (AV_S s) = Object [(''S'', String s)]"
| "to_json (AV_N n) = Object [(''N'', String n)]"
| "to_json (AV_B b) = Object [(''B'', String b)]"
| "to_json (AV_BOOL b) = Object [(''BOOL'', Bool b)]"
| "to_json AV_NULL = Object [(''NULL'', Bool True)]"
| "to_json (AV_M es) = Object [(''M'', Object (map (\<lambda>e. (fst e, to_json (snd e))) es))]"
| "to_json (AV_L vs) = Object [(''L'', Array (map to_json vs))]"
| "to_json (AV_SS ss) = Object [(''SS'', Array (map String ss))]"
| "to_json (AV_NS ss) = Object [(''NS'', Array (map String ss))]"
| "to_json (AV_BS ss) = Object [(''BS'', Array (map String ss))]"

definition set_ok :: "string list \<Rightarrow> bool" where
  "set_ok ss \<longleftrightarrow> ss \<noteq> [] \<and> distinct ss"

fun av_ok :: "av \<Rightarrow> bool" where
  "av_ok (AV_N n) = is_valid_number n"
| "av_ok (AV_B b) = (base64_decode b \<noteq> None)"
| "av_ok (AV_M es) = list_all (\<lambda>e. av_ok (snd e)) es"
| "av_ok (AV_L vs) = list_all av_ok vs"
| "av_ok (AV_SS ss) = set_ok ss"
| "av_ok (AV_NS ss) = (set_ok ss \<and> list_all is_valid_number ss)"
| "av_ok (AV_BS ss) = (set_ok ss \<and> list_all (\<lambda>b. base64_decode b \<noteq> None) ss)"
| "av_ok _ = True"

lemma string_entries_Some: "string_entries vs = Some ss \<longleftrightarrow> vs = map String ss"
  by (induction vs arbitrary: ss) (auto split: option.splits)

lemma string_slice_Some: "string_slice raw = Some ss \<longleftrightarrow> raw = Array (map String ss)"
  by (cases raw) (auto simp: string_slice_def string_entries_Some)

lemma has_duplicate_from_iff: "has_duplicate_from seen vs \<longleftrightarrow> \<not> distinct vs \<or> set vs \<inter> seen \<noteq> {}"
  by (induction vs arbitrary: seen) auto

lemma has_duplicate_iff: "has_duplicate vs \<longleftrightarrow> \<not> distinct vs"
  by (simp add: has_duplicate_def has_duplicate_from_iff)

lemma attribute_error_ne [simp]: "attribute_error p w \<noteq> Inr u"
  by (simp add: attribute_error_def)

lemma validate_string_set_Inr: "validate_string_set kind path raw = Inr () \<longleftrightarrow>
    (\<exists>ss. raw = Array (map String ss) \<and> set_ok ss \<and> (kind = ''BS'' \<longrightarrow> list_all (\<lambda>b. base64_decode b \<noteq> None) ss))"
  by (auto simp: validate_string_set_def set_ok_def has_duplicate_iff string_slice_Some list_ex_iff list_all_iff
    split: option.splits if_splits)
     (metis string_slice_Some option.distinct(1) option.inject)+

lemma validate_number_set_Inr: "validate_number_set path raw = Inr () \<longleftrightarrow>
    (\<exists>ss. raw = Array (map String ss) \<and> set_ok ss \<and> list_all is_valid_number ss)"
  by (auto simp: validate_number_set_def set_ok_def has_duplicate_iff string_slice_Some list_ex_iff list_all_iff
    split: option.splits if_splits)
     (metis string_slice_Some option.distinct(1) option.inject)+

lemma validate_scalar_typed:
  assumes "validate_scalar kind path raw = Inr ()"
  shows "\<exists>a. av_ok a \<and> Object [(kind, raw)] = to_json a"
proof -
  have sets: "\<exists>a. av_ok a \<and> Object [(kind, raw)] = to_json a"
    if "validate_string_set kind path raw = Inr ()" "kind = ''SS'' \<or> kind = ''BS''"
    using that unfolding validate_string_set_Inr
    by (elim exE conjE disjE, intro exI[of _ "AV_SS s" for s], simp, intro exI[of _ "AV_BS s" for s], simp)
  have nums: "\<exists>a. av_ok a \<and> Object [(kind, raw)] = to_json a"
    if "validate_number_set path raw = Inr ()" "kind = ''NS''"
    using that unfolding validate_number_set_Inr by (elim exE conjE, intro exI[of _ "AV_NS s" for s]) simp
  consider "kind = ''S''" | "kind = ''B''" | "kind = ''N''" | "kind = ''BOOL''" | "kind = ''NULL''"
    | "kind = ''SS'' \<or> kind = ''BS''" | "kind = ''NS''"
    using assms unfolding validate_scalar_def by (auto split: if_splits)
  then show ?thesis
  proof cases
    case 1
    then show ?thesis using assms
      by (cases "as_str raw") (auto simp: validate_scalar_def intro: exI[of _ "AV_S s" for s])
  next
    case 2
    then show ?thesis using assms
      by (cases raw) (auto simp: validate_scalar_def split: if_splits intro!: exI[of _ "AV_B (the (as_str raw))"])
  next
    case 3
    then show ?thesis using assms
      by (cases "as_str raw") (auto simp: validate_scalar_def split: if_splits intro: exI[of _ "AV_N s" for s])
  next
    case 4
    then show ?thesis using assms
      by (cases "as_bool raw") (auto simp: validate_scalar_def intro: exI[of _ "AV_BOOL b" for b])
  next
    case 5
    then show ?thesis using assms
      by (auto simp: validate_scalar_def split: if_splits intro: exI[of _ AV_NULL])
  next
    case 6
    then show ?thesis using assms sets by (auto simp: validate_scalar_def)
  next
    case 7
    then show ?thesis using assms nums by (auto simp: validate_scalar_def)
  qed
qed

lemma valid_typed:
  "validate_attribute_value v path = Inr () \<Longrightarrow> \<exists>a. av_ok a \<and> v = to_json a"
  "validate_members es path = Inr () \<Longrightarrow>
     \<exists>as. list_all (\<lambda>e. av_ok (snd e)) as \<and> es = map (\<lambda>e. (fst e, to_json (snd e))) as"
  "validate_elements vs index path = Inr () \<Longrightarrow> \<exists>as. list_all av_ok as \<and> vs = map to_json as"
proof (induction v path and es path and vs index path
    rule: validate_attribute_value_validate_members_validate_elements.induct)
  case (1 kind raw path)
  consider es where "kind = ''M''" "raw = Object es" | vs where "kind = ''L''" "raw = Array vs"
    | "validate_scalar kind path raw = Inr ()"
    using 1(3) by (auto split: if_splits json.splits)
  then show ?case
  proof cases
    case (1 es)
    then obtain as where "list_all (\<lambda>e. av_ok (snd e)) as" "es = map (\<lambda>e. (fst e, to_json (snd e))) as"
      using "1.IH"(1) "1.prems" by auto
    then show ?thesis using 1 by (intro exI[of _ "AV_M as"]) simp
  next
    case (2 vs)
    then obtain as where "list_all av_ok as" "vs = map to_json as" using "1.IH"(2) "1.prems" by auto
    then show ?thesis using 2 by (intro exI[of _ "AV_L as"]) simp
  qed (rule validate_scalar_typed)
next
  case (4 name nested entries path)
  then obtain a as where "av_ok a" "nested = to_json a"
    "list_all (\<lambda>e. av_ok (snd e)) as" "entries = map (\<lambda>e. (fst e, to_json (snd e))) as"
    by (auto simp: Let_def bind_res_Inr_iff split: if_splits)
  then show ?case by (intro exI[of _ "(name, a) # as"]) simp
next
  case (6 nested entries index path)
  then obtain a as where "av_ok a" "nested = to_json a" "list_all av_ok as" "entries = map to_json as"
    by (auto simp: Let_def bind_res_Inr_iff split: if_splits)
  then show ?case by (intro exI[of _ "a # as"]) simp
qed simp_all

lemma is_object_to_json [simp]: "is_object (to_json a)"
  by (cases a) simp_all

lemma typed_valid_scalar:
  "av_ok a \<Longrightarrow> (\<And>es. a \<noteq> AV_M es) \<Longrightarrow> (\<And>vs. a \<noteq> AV_L vs) \<Longrightarrow> validate_attribute_value (to_json a) path = Inr ()"
  by (cases a) (auto simp: validate_scalar_def validate_string_set_Inr validate_number_set_Inr)

lemma typed_valid_members:
  "(\<And>e path. e \<in> set es \<Longrightarrow> validate_attribute_value (to_json (snd e)) path = Inr ()) \<Longrightarrow>
   validate_members (map (\<lambda>e. (fst e, to_json (snd e))) es) path = Inr ()"
  by (induction es) (auto simp: Let_def)

lemma typed_valid_elements:
  "(\<And>v path. v \<in> set vs \<Longrightarrow> validate_attribute_value (to_json v) path = Inr ()) \<Longrightarrow>
   validate_elements (map to_json vs) index path = Inr ()"
  by (induction vs arbitrary: index) (auto simp: Let_def)

lemma typed_valid: "av_ok a \<Longrightarrow> validate_attribute_value (to_json a) path = Inr ()"
proof (induction a arbitrary: path rule: av_ok.induct)
  case (3 es)
  then show ?case by (auto simp: list_all_iff intro!: typed_valid_members)
next
  case (4 vs)
  then show ?case by (auto simp: list_all_iff intro!: typed_valid_elements)
qed (rule typed_valid_scalar; simp)+


section \<open>Base64 round trip\<close>

definition base64_alphabet :: string where
  "base64_alphabet = ''ABCDEFGHIJKLMNOPQRSTUVWXYZabcdefghijklmnopqrstuvwxyz0123456789+/''"

definition base64_char :: "nat \<Rightarrow> char" where
  "base64_char n = base64_alphabet ! n"

text \<open>The encoder of RFC 4648, as the specification of the decoder.\<close>

definition digits64 :: "nat \<Rightarrow> nat \<Rightarrow> string" where
  "digits64 k n = take k (map base64_char [n div 262144, n div 4096 mod 64, n div 64 mod 64, n mod 64])"

fun base64_encode :: "string \<Rightarrow> string" where
  "base64_encode [] = []"
| "base64_encode [a] = digits64 2 (ascii a * 65536) @ ''==''"
| "base64_encode [a, b] = digits64 3 (ascii a * 65536 + ascii b * 256) @ ''=''"
| "base64_encode (a # b # c # s) = digits64 4 (ascii a * 65536 + ascii b * 256 + ascii c) @ base64_encode s"

lemma base64_table: "map base64_value base64_alphabet = map Some [0..<64]"
  by (simp add: base64_alphabet_def base64_value_def ascii_def upt_rec)

lemma base64_char_facts:
  assumes "n < 64"
  shows "base64_value (base64_char n) = Some n" "base64_char n \<noteq> CHR ''=''"
proof -
  have len: "length base64_alphabet = 64" by (simp add: base64_alphabet_def)
  then show v: "base64_value (base64_char n) = Some n"
    using arg_cong[OF base64_table, of "\<lambda>l. l ! n"] assms by (simp add: base64_char_def)
  show "base64_char n \<noteq> CHR ''=''" using v by (auto simp: base64_value_def ascii_def)
qed

lemma ascii_lt: "ascii c < 256"
  by (simp add: ascii_def)

lemma byte_ascii: "n mod 256 = ascii c \<Longrightarrow> byte n = c"
  by (simp add: byte_def ascii_def)

lemma div_chain: "(n :: nat) div 4096 = n div 64 div 64" "n div 262144 = n div 64 div 64 div 64"
  by (simp_all flip: div_mult2_eq)

lemma regroup: "((n div 262144 * 64 + n div 4096 mod 64) * 64 + n div 64 mod 64) * 64 + n mod 64 = (n :: nat)"
  by (simp add: div_chain)

lemma chunk_values:
  assumes "a < 64" "b < 64"
  shows "c < 64 \<Longrightarrow> d < 64 \<Longrightarrow> chunk_value 0 0 0 (map base64_char [a, b, c, d]) = Some (((a * 64 + b) * 64 + c) * 64 + d)"
    and "c < 64 \<Longrightarrow> chunk_value 1 0 0 (map base64_char [a, b, c] @ ''='') = Some (((a * 64 + b) * 64 + c) * 64)"
    and "chunk_value 2 0 0 (map base64_char [a, b] @ ''=='') = Some ((a * 64 + b) * 64 * 64)"
  using assms by (simp_all add: base64_char_facts)

lemma digits64_value:
  assumes n: "n < 16777216"
  shows "chunk_value 0 0 0 (digits64 4 n) = Some n"
    and "n mod 64 = 0 \<Longrightarrow> chunk_value 1 0 0 (digits64 3 n @ ''='') = Some n"
    and "n div 64 mod 64 = 0 \<Longrightarrow> n mod 64 = 0 \<Longrightarrow> chunk_value 2 0 0 (digits64 2 n @ ''=='') = Some n"
proof -
  have lt: "n div 262144 < 64" "n div 4096 mod 64 < 64" "n div 64 mod 64 < 64" "n mod 64 < 64"
    using n by (simp_all add: less_mult_imp_div_less)
  have d: "digits64 4 n = map base64_char [n div 262144, n div 4096 mod 64, n div 64 mod 64, n mod 64]"
    "digits64 3 n = map base64_char [n div 262144, n div 4096 mod 64, n div 64 mod 64]"
    "digits64 2 n = map base64_char [n div 262144, n div 4096 mod 64]" by (simp_all add: digits64_def)
  show "chunk_value 0 0 0 (digits64 4 n) = Some n"
    unfolding d chunk_values(1)[OF lt] by (simp only: regroup)
  show "chunk_value 1 0 0 (digits64 3 n @ ''='') = Some n" if "n mod 64 = 0"
    unfolding d chunk_values(2)[OF lt(1-3)] using regroup[of n] that by (simp only: add_0_right)
  show "chunk_value 2 0 0 (digits64 2 n @ ''=='') = Some n" if "n div 64 mod 64 = 0" "n mod 64 = 0"
    unfolding d chunk_values(3)[OF lt(1,2)] using regroup[of n] that by (simp only: add_0_right)
qed

lemma digits64_chars:
  assumes "n < 16777216"
  obtains w x y z where "digits64 4 n = [w, x, y, z]" "digits64 3 n = [w, x, y]" "digits64 2 n = [w, x]"
    "w \<noteq> CHR ''=''" "x \<noteq> CHR ''=''" "y \<noteq> CHR ''=''" "z \<noteq> CHR ''=''"
proof -
  have "n div 262144 < 64" "n div 4096 mod 64 < 64" "n div 64 mod 64 < 64" "n mod 64 < 64"
    using assms by (simp_all add: less_mult_imp_div_less)
  then show ?thesis
    using that[OF _ _ _ base64_char_facts(2) base64_char_facts(2) base64_char_facts(2) base64_char_facts(2)]
    by (simp add: digits64_def)
qed

lemma decode_group:
  assumes "n < 16777216"
  shows "decode_chunks (digits64 4 n @ r) = map_option (\<lambda>out. chunk_bytes 0 n @ out) (decode_chunks r)"
    and "n mod 64 = 0 \<Longrightarrow> decode_chunks (digits64 3 n @ ''='') = Some (chunk_bytes 1 n)"
    and "n div 64 mod 64 = 0 \<Longrightarrow> n mod 64 = 0 \<Longrightarrow> decode_chunks (digits64 2 n @ ''=='') = Some (chunk_bytes 2 n)"
proof -
  obtain w x y z where ds: "digits64 4 n = [w, x, y, z]" "digits64 3 n = [w, x, y]" "digits64 2 n = [w, x]"
    and ne: "w \<noteq> CHR ''=''" "x \<noteq> CHR ''=''" "y \<noteq> CHR ''=''" "z \<noteq> CHR ''=''"
    using digits64_chars[OF assms] by blast
  note vals = digits64_value[OF assms, unfolded ds append.simps]
  show "decode_chunks (digits64 4 n @ r) = map_option (\<lambda>out. chunk_bytes 0 n @ out) (decode_chunks r)"
    using vals(1) ne by (simp add: ds del: chunk_value.simps)
  show "decode_chunks (digits64 3 n @ ''='') = Some (chunk_bytes 1 n)" if "n mod 64 = 0"
    using vals(2)[OF that] ne by (simp add: ds del: chunk_value.simps)
  show "decode_chunks (digits64 2 n @ ''=='') = Some (chunk_bytes 2 n)" if "n div 64 mod 64 = 0" "n mod 64 = 0"
    using vals(3)[OF that] ne unfolding ds append.simps by (simp add: numeral_2_eq_2 del: chunk_value.simps)
qed

lemma group_bytes:
  fixes a b c :: char
  defines "n \<equiv> ascii a * 65536 + ascii b * 256 + ascii c"
  shows "n < 16777216" "byte (n div 65536) = a" "byte (n div 256) = b" "byte n = c"
proof -
  have lt: "ascii a < 256" "ascii b < 256" "ascii c < 256" by (rule ascii_lt)+
  then show "n < 16777216" unfolding n_def by simp
  have "n div 65536 = (ascii b * 256 + ascii c + ascii a * 65536) div 65536" unfolding n_def by (simp add: ac_simps)
  also have "\<dots> = ascii a + (ascii b * 256 + ascii c) div 65536" by (rule div_mult_self1) simp
  also have "\<dots> = ascii a" using lt by simp
  finally have "n div 65536 = ascii a" .
  then show "byte (n div 65536) = a" using lt by (intro byte_ascii) simp
  have n: "n = ascii c + (ascii a * 256 + ascii b) * 256" unfolding n_def by simp
  have "n div 256 = ascii a * 256 + ascii b" unfolding n using lt(3) by (subst div_mult_self1) simp_all
  then show "byte (n div 256) = b" using lt by (intro byte_ascii) simp
  show "byte n = c" unfolding n using lt(3) by (intro byte_ascii) (simp only: mod_mult_self1 mod_less)
qed


lemma group_zeros:
  fixes a b :: nat
  shows "(a * 65536 + b * 256) mod 64 = 0" "a * 65536 mod 64 = 0" "a * 65536 div 64 mod 64 = 0"
proof -
  have e: "a * 65536 + b * 256 = (a * 1024 + b * 4) * 64" "a * 65536 = a * 1024 * 64" "a * 1024 = a * 16 * 64" by simp_all
  show "(a * 65536 + b * 256) mod 64 = 0" unfolding e(1) by (rule mod_mult_self2_is_0)
  show "a * 65536 mod 64 = 0" unfolding e(2) by (rule mod_mult_self2_is_0)
  have "a * 65536 div 64 = a * 1024" unfolding e(2) by (rule nonzero_mult_div_cancel_right) simp
  then show "a * 65536 div 64 mod 64 = 0" unfolding e(3) by (simp only: mod_mult_self2_is_0)
qed

lemma decode_encode: "decode_chunks (base64_encode bs) = Some bs"
proof (induction bs rule: base64_encode.induct)
  case (2 a)
  have zero: "ascii (CHR 0x00) = 0" by (simp add: ascii_def)
  from group_bytes[of a "CHR 0x00" "CHR 0x00", unfolded zero]
  show ?case using decode_group(3)[of "ascii a * 65536"] group_zeros(2,3)[of "ascii a"]
    by (simp add: chunk_bytes_def)
next
  case (3 a b)
  have zero: "ascii (CHR 0x00) = 0" by (simp add: ascii_def)
  from group_bytes[of a b "CHR 0x00", unfolded zero]
  show ?case using decode_group(2)[of "ascii a * 65536 + ascii b * 256"] group_zeros(1)[of "ascii a" "ascii b"]
    by (simp add: chunk_bytes_def)
next
  case (4 a b c s)
  note g = group_bytes[of a b c]
  from decode_group(1)[OF g(1), of "base64_encode s"] 4 g show ?case by (simp add: chunk_bytes_def)
qed simp

lemma length_encode: "length (base64_encode bs) mod 4 = 0"
  by (induction bs rule: base64_encode.induct) (simp_all add: digits64_def)

text \<open>Decoding inverts the encoding of RFC 4648, for every sequence of bytes.\<close>

theorem base64_decode_encode: "base64_decode (base64_encode bs) = Some bs"
  by (simp add: base64_decode_def length_encode decode_encode)

text \<open>Padding in the middle is accepted, which the standard alphabet's decoder of the legacy service
  (\<open>base64.StdEncoding\<close>) refuses.\<close>

theorem base64_inner_padding_accepted: "base64_decode ''QQ==QQ=='' = Some ''AA''"
  by code_simp

section \<open>The order of attribute values\<close>

fun av_type :: "av \<Rightarrow> string" where
  "av_type (AV_S _) = ''S''"
| "av_type (AV_N _) = ''N''"
| "av_type (AV_B _) = ''B''"
| "av_type (AV_BOOL _) = ''BOOL''"
| "av_type AV_NULL = ''NULL''"
| "av_type (AV_M _) = ''M''"
| "av_type (AV_L _) = ''L''"
| "av_type (AV_SS _) = ''SS''"
| "av_type (AV_NS _) = ''NS''"
| "av_type (AV_BS _) = ''BS''"

definition number_value :: "string \<Rightarrow> rat" where
  "number_value n = decimal_value (the (parse n))"

text \<open>Values are ordered by type name, then numbers by value, strings and binaries by their text and other
  values by their JSON text.\<close>

fun av_num :: "av \<Rightarrow> rat" where
  "av_num (AV_N n) = number_value n"
| "av_num _ = 0"

fun av_text :: "ddb_crates \<Rightarrow> av \<Rightarrow> string" where
  "av_text X (AV_N n) = []"
| "av_text X (AV_S s) = s"
| "av_text X (AV_B b) = b"
| "av_text X a = marshal X (to_json a)"

definition av_rank :: "ddb_crates \<Rightarrow> av \<Rightarrow> string \<times> rat \<times> string" where
  "av_rank X a = (av_type a, av_num a, av_text X a)"

lemma attribute_type_name_typed [simp]: "attribute_type_name (to_json a) = av_type a"
  by (cases a) (simp_all add: attribute_type_name_def type_order_def bt_contains_def)

lemma compare_numbers:
  "is_valid_number m \<Longrightarrow> is_valid_number n \<Longrightarrow> compare_number_strings m n = cmp (number_value m) (number_value n)"
  by (auto simp: is_valid_number_def compare_number_strings_def number_value_def compare_value parse_wf)

lemma less_before_quote:
  assumes "\<forall>d \<in> set u \<union> set v. c < d" "u \<noteq> v"
  shows "u @ c # x < v @ c # y \<longleftrightarrow> u < (v :: string)"
  using assms
proof (induction u arbitrary: v)
  case Nil
  then show ?case by (cases v) auto
next
  case (Cons e u)
  then show ?case by (cases v) auto
qed

lemma cmp_before_quote:
  assumes "\<forall>d \<in> set u \<union> set v. c < d" "u \<noteq> (v :: string)"
  shows "cmp (p @ u @ c # x) (p @ v @ c # y) = cmp u v"
proof -
  have "u @ c # x \<noteq> v @ c # y" using less_before_quote[of u v c x y] less_before_quote[of v u c y x] assms
    by (metis Un_iff less_irrefl linorder_less_linear)
  moreover have "(p @ w < p @ z) = (w < z)" for w z :: string by (induction p) auto
  ultimately show ?thesis using less_before_quote[OF assms] assms(2) by (simp add: cmp_def)
qed

lemma av_type_chars: "d \<in> set (av_type a) \<Longrightarrow> CHR 0x22 < d"
  by (cases a) (auto simp: less_char_def)

lemma av_type_plain: "list_all is_ascii_alphanumeric (av_type a)"
  by (cases a) (simp_all add: is_ascii_alphanumeric_def is_ascii_uppercase_def ascii_def)

lemma to_json_form: "\<exists>v. to_json a = Object [(av_type a, v)]"
  by (cases a) simp_all

context json_text
begin

lemma text_by_type:
  assumes "av_type a \<noteq> av_type b"
  shows "cmp (html_escape (to_vec (to_json a))) (html_escape (to_vec (to_json b))) = cmp (av_type a) (av_type b)"
proof -
  obtain v w where v: "to_json a = Object [(av_type a, v)]" and w: "to_json b = Object [(av_type b, w)]"
    using to_json_form by metis
  have "\<forall>d \<in> set (av_type a) \<union> set (av_type b). CHR 0x22 < d" using av_type_chars by blast
  from cmp_before_quote[OF this assms, of "[CHR ''{'', CHR 0x22]" "'':'' @ escape_loop (to_vec v @ ''}'')" "'':'' @ escape_loop (to_vec w @ ''}'')"]
  show ?thesis by (simp add: v w escaped_single[OF av_type_plain] quoted_def)
qed

end

lemma cmp_pair: "cmp (a, x) (b, y) = (if a = b then cmp x y else cmp a b)"
  by (auto simp: cmp_def)

lemma cmp_same: "cmp a a = Equal"
  by (simp add: cmp_def)

lemma compare_typed:
  "compare_attribute_values X (to_json a) (to_json b) =
     (case (a, b) of
        (AV_N m, AV_N n) \<Rightarrow> compare_number_strings m n
      | (AV_S s, AV_S t) \<Rightarrow> cmp s t
      | (AV_B s, AV_B t) \<Rightarrow> cmp s t
      | _ \<Rightarrow> if av_type a \<in> {''N'', ''S'', ''B''} then cmp (av_type a) (av_type b)
             else cmp (marshal X (to_json a)) (marshal X (to_json b)))"
proof -
  define ta where "ta = attribute_type_name (to_json a)"
  define tb where "tb = attribute_type_name (to_json b)"
  have "ta = av_type a" "tb = av_type b" by (simp_all add: ta_def tb_def)
  then show ?thesis
    unfolding compare_attribute_values_def ta_def[symmetric] tb_def[symmetric] Let_def
    by (cases a; cases b) simp_all
qed

lemma compare_by_rank:
  assumes "json_text (serde_to_vec X)" "av_ok a" "av_ok b"
  shows "compare_attribute_values X (to_json a) (to_json b) = cmp (av_rank X a) (av_rank X b)"
proof (cases "av_type a = av_type b")
  case True
  then show ?thesis using assms(2,3) unfolding compare_typed av_rank_def
    by (cases a; cases b) (simp_all add: cmp_pair compare_numbers cmp_same)
next
  case False
  have "compare_attribute_values X (to_json a) (to_json b) = cmp (av_type a) (av_type b)"
    using json_text.text_by_type[OF assms(1) False] False unfolding compare_typed
    by (cases a; cases b) (simp_all add: marshal_def del: to_json.simps)
  with False show ?thesis by (simp add: av_rank_def cmp_pair)
qed

lemma cmp_reverse: "cmp b a = reverse_ordering (cmp a b)"
  by (auto simp: cmp_def)

lemma cmp_trans: "cmp a b \<noteq> Greater \<Longrightarrow> cmp b c \<noteq> Greater \<Longrightarrow> cmp a c \<noteq> Greater"
  by (auto simp: cmp_def split: if_splits)

lemma cmp_Equal [simp]: "cmp a b = Equal \<longleftrightarrow> a = b"
  by (auto simp: cmp_def)

fun same_value :: "av \<Rightarrow> av \<Rightarrow> bool" where
  "same_value (AV_N m) (AV_N n) \<longleftrightarrow> number_value m = number_value n"
| "same_value a b \<longleftrightarrow> a = b"

lemma no_numbers_typed: "no_numbers (to_json a)"
  by (induction a rule: to_json.induct) (auto simp: list_all_iff)

lemma map_String_inj [simp]: "map String ss = map String ts \<longleftrightarrow> ss = ts"
  by (rule inj_map_eq_map) (simp add: inj_def)

lemma to_json_flat:
  "to_json a = to_json b \<Longrightarrow> (\<And>es. a \<noteq> AV_M es) \<Longrightarrow> (\<And>vs. a \<noteq> AV_L vs) \<Longrightarrow> a = b"
  by (cases a; cases b) auto

lemma to_json_inj: "to_json a = to_json b \<Longrightarrow> a = b"
proof (induction a arbitrary: b rule: to_json.induct)
  case (6 es)
  then obtain fs' where b: "b = AV_M fs'" "map (\<lambda>e. (fst e, to_json (snd e))) es = map (\<lambda>e. (fst e, to_json (snd e))) fs'"
    by (cases b) auto
  have "es = fs'"
  proof (rule list.inj_map_strong[OF _ b(2)])
    fix x y assume "x \<in> set es" "(fst x, to_json (snd x)) = (fst y, to_json (snd y))"
    with 6(1)[of x "snd y"] show "x = y" by (simp add: prod_eq_iff)
  qed
  with b show ?case by simp
next
  case (7 vs)
  then obtain ws where b: "b = AV_L ws" "map to_json vs = map to_json ws" by (cases b) auto
  have "vs = ws" by (rule list.inj_map_strong[OF _ b(2)]) (use 7(1) in blast)
  with b show ?case by simp
qed (rule to_json_flat; simp)+

lemma rank_same:
  assumes "json_text (serde_to_vec X)"
  shows "av_rank X a = av_rank X b \<longleftrightarrow> same_value a b"
proof -
  have "marshal X (to_json a) = marshal X (to_json b) \<Longrightarrow> a = b" for a b
    using json_text.escaped_inj[OF assms no_numbers_typed no_numbers_typed] to_json_inj by (simp add: marshal_def)
  then show ?thesis unfolding av_rank_def by (cases a; cases b) (auto simp del: to_json.simps)
qed


text \<open>Attribute values are totally ordered up to equal values: on well-formed values the comparison that
  sorts query results is antisymmetric and transitive, and two values compare equal exactly when they
  are the same number or the same value.\<close>

theorem compare_attribute_values_total:
  assumes "json_text (serde_to_vec X)" "av_ok a" "av_ok b" "av_ok c"
  defines "le x y \<equiv> compare_attribute_values X (to_json x) (to_json y) \<noteq> Greater"
  shows "compare_attribute_values X (to_json b) (to_json a) =
      reverse_ordering (compare_attribute_values X (to_json a) (to_json b))
    \<and> (le a b \<longrightarrow> le b c \<longrightarrow> le a c)
    \<and> (compare_attribute_values X (to_json a) (to_json b) = Equal \<longleftrightarrow> same_value a b)"
  unfolding le_def compare_by_rank[OF assms(1,2,3)] compare_by_rank[OF assms(1,3,2)]
    compare_by_rank[OF assms(1,3,4)] compare_by_rank[OF assms(1,2,4)]
  using cmp_reverse cmp_trans rank_same[OF assms(1)] by (simp, blast)

section \<open>Item keys\<close>

lemma key_values_Inr: "key_values schema vals = Inr vs \<longleftrightarrow>
    list_all2 (\<lambda>e v. map_of vals (attribute_name e) = Some v \<and>
      validate_attribute_value v (attribute_name e) = Inr ()) schema vs"
proof (induction schema arbitrary: vs)
  case (Cons e schema)
  show ?case by (cases vs) (auto simp: Cons bind_res_Inr_iff split: option.splits)
qed auto

lemma key_values_no_numbers: "key_values schema vals = Inr vs \<Longrightarrow> no_numbers (Array vs)"
proof -
  assume "key_values schema vals = Inr vs"
  then have "\<forall>v \<in> set vs. \<exists>p. validate_attribute_value v p = Inr ()"
    unfolding key_values_Inr by (induction schema vs rule: list_all2_induct) auto
  then show ?thesis using valid_typed(1) no_numbers_typed by (fastforce simp: list_all_iff)
qed

lemma key_values_same:
  assumes "key_values schema a = Inr vs"
  shows "key_values schema b = Inr vs \<longleftrightarrow> (\<forall>e \<in> set schema. map_of b (attribute_name e) = map_of a (attribute_name e))"
  using assms
proof (induction schema arbitrary: vs)
  case (Cons e schema)
  then obtain v ws where "vs = v # ws" "map_of a (attribute_name e) = Some v"
    "validate_attribute_value v (attribute_name e) = Inr ()" "key_values schema a = Inr ws"
    by (auto simp: bind_res_Inr_iff split: option.splits)
  with Cons.IH[of ws] show ?case by (auto simp: bind_res_Inr_iff split: option.splits)
qed simp

lemma item_key_Inr: "item_key X d v = Inr k \<longleftrightarrow> (\<exists>vs. key_values (key_schema d) v = Inr vs \<and> k = marshal X (Array vs))"
  by (auto simp: item_key_def bind_res_Inr_iff)

lemma item_key_same:
  assumes "json_text (serde_to_vec X)" "item_key X d a = Inr k"
  shows "item_key X d b = Inr k \<longleftrightarrow>
    (\<forall>e \<in> set (key_schema d). map_of b (attribute_name e) = map_of a (attribute_name e))"
proof -
  obtain vs where vs: "key_values (key_schema d) a = Inr vs" "k = marshal X (Array vs)"
    using assms(2) by (auto simp: item_key_Inr)
  have "item_key X d b = Inr k \<longleftrightarrow> key_values (key_schema d) b = Inr vs"
    using vs json_text.escaped_inj[OF assms(1) key_values_no_numbers key_values_no_numbers]
    by (fastforce simp: item_key_Inr marshal_def)
  then show ?thesis using key_values_same[OF vs(1)] by simp
qed

text \<open>C40. The key string identifies the primary key: two items have the same key string exactly when they agree
  on every attribute of the key schema, so different keys never share a slot of the table.\<close>

theorem item_key_identifies_key:
  assumes "json_text (serde_to_vec X)" "item_key X d a = Inr k"
  shows "item_key X d b = Inr k \<longleftrightarrow>
    (\<forall>e \<in> set (key_schema d). map_of b (attribute_name e) = map_of a (attribute_name e))"
  by (rule item_key_same[OF assms])

lemma extract_from_get:
  "extract_from schema vals key = Inr r \<Longrightarrow>
   map_of r n = (if n \<in> attribute_name ` set schema then map_of vals n else map_of key n)"
proof (induction schema arbitrary: key)
  case (Cons e schema)
  then show ?case by (auto simp: bt_get_insert split: option.splits if_splits)
qed simp

lemma extract_from_total:
  "(\<forall>e \<in> set schema. map_of vals (attribute_name e) \<noteq> None) \<Longrightarrow> \<exists>r. extract_from schema vals key = Inr r"
  by (induction schema arbitrary: key) auto

lemma item_key_extract:
  assumes "item_key X d v = Inr k"
  shows "\<exists>key. extract_key d v = Inr key \<and> item_key X d key = Inr k"
proof -
  obtain vs where vs: "key_values (key_schema d) v = Inr vs" "k = marshal X (Array vs)"
    using assms by (auto simp: item_key_Inr)
  have "map_of v (attribute_name e) \<noteq> None" if "e \<in> set (key_schema d)" for e
    using vs(1) that by (auto simp: key_values_Inr list_all2_conv_all_nth in_set_conv_nth)
  then obtain key where key: "extract_key d v = Inr key"
    unfolding extract_key_def using extract_from_total by blast
  have "\<forall>e \<in> set (key_schema d). map_of key (attribute_name e) = map_of v (attribute_name e)"
    using extract_from_get[of "key_schema d" v "[]"] key by (simp add: extract_key_def)
  then have "key_values (key_schema d) key = Inr vs" using key_values_same[OF vs(1)] by simp
  with key vs show ?thesis by (auto simp: item_key_Inr)
qed

section \<open>Projections\<close>

lemma fold_pick_get:
  "map_of (fold (\<lambda>name acc. case map_of vals name of None \<Rightarrow> acc | Some attr \<Rightarrow> bt_insert name attr acc) nms acc) n =
     (if n \<in> set nms \<and> map_of vals n \<noteq> None then map_of vals n else map_of acc n)"
  by (induction nms arbitrary: acc) (auto simp: bt_get_insert split: option.splits)

lemma pick_get: "map_of (pick vals nms) n = (if n \<in> set nms then map_of vals n else None)"
  by (simp add: pick_def fold_pick_get)

lemma pick_ok [simp]: "bt_ok (pick vals nms)"
proof -
  have "bt_ok acc \<Longrightarrow> bt_ok (fold (\<lambda>name acc. case map_of vals name of None \<Rightarrow> acc
      | Some attr \<Rightarrow> bt_insert name attr acc) nms acc)" for acc
    by (induction nms arbitrary: acc) (auto split: option.splits)
  then show ?thesis by (simp add: pick_def)
qed

lemma projection_subset: "map_of (project_item vals expr nms) n = Some v \<Longrightarrow> map_of vals n = Some v"
  by (auto simp: project_item_def Let_def pick_get split: if_splits)

text \<open>An index shows what it projects and nothing else: with a projection other than \<open>ALL\<close>, an attribute of a
  result is an attribute of the item with the same value, and it is a table key, an index key or,
  under \<open>INCLUDE\<close>, one of the named attributes.\<close>

theorem index_projection_hides_rest:
  assumes "index_projection_for_name d index_name = Some (projection, schema)"
    "projection_type projection \<noteq> []" "projection_type projection \<noteq> ''ALL''"
    "map_of (project_result_item d index_name vals expr nms) n = Some v"
  shows "map_of vals n = Some v \<and>
    (n \<in> attribute_name ` set (key_schema d) \<union> attribute_name ` set schema
     \<or> projection_type projection = ''INCLUDE'' \<and> n \<in> set (non_key_attributes projection))"
  using assms projection_subset[of "project_index_item d index_name vals" expr nms n v]
  by (auto simp: project_result_item_def project_index_item_def Let_def pick_get split: if_splits)

section \<open>Samples\<close>

definition sample_ddb :: ddb_crates where
  "sample_ddb = \<lparr>serde_to_vec = print_json, unicode_upper = (\<lambda>s. s), sha256_hex = (\<lambda>s. s)\<rparr>"

lemma sample_ddb_text: "json_text (serde_to_vec sample_ddb)"
  using compact.json_text_axioms by (simp add: sample_ddb_def)

definition sample_table :: table_description where
  "sample_table = \<lparr>attribute_definitions = [\<lparr>ad_attribute_name = ''pk'', attribute_type = ''S''\<rparr>],
     billing_mode_summary = Some ''PAY_PER_REQUEST'', creation_date_time = 0,
     global_secondary_indexes = [\<lparr>gsi_index_arn = ''arn'', gsi_index_name = ''by_n'', gsi_index_size_bytes = 0,
       gsi_index_status = ''ACTIVE'', gsi_item_count = 0,
       gsi_key_schema = [\<lparr>attribute_name = ''n'', key_type = ''HASH''\<rparr>],
       gsi_projection = \<lparr>projection_type = ''KEYS_ONLY'', non_key_attributes = []\<rparr>,
       gsi_provisioned_throughput = []\<rparr>],
     item_count = 0, key_schema = [\<lparr>attribute_name = ''pk'', key_type = ''HASH''\<rparr>],
     latest_stream_arn = [], latest_stream_label = [], local_secondary_indexes = [], stream_spec = None,
     table_arn = ''arn'', table_name = ''t'', table_size_bytes = 0, table_status = ''ACTIVE'', ttl_description = None\<rparr>"

definition sample_item :: item where
  "sample_item = [(''n'', to_json (AV_N ''2'')), (''pk'', to_json (AV_S ''a'')), (''x'', to_json (AV_BOOL True))]"

theorem compare_attribute_values_total_witness:
  "compare_attribute_values sample_ddb (to_json (AV_N ''1.0'')) (to_json (AV_N ''1'')) = Equal"
proof -
  have p: "parse ''1.0'' = Some \<lparr>negative = False, coeff = ''10'', scale = 1\<rparr>"
    "parse ''1'' = Some \<lparr>negative = False, coeff = ''1'', scale = 0\<rparr>"
    and d: "from_digits ''10'' = 10" "from_digits ''1'' = 1" by code_simp+
  have ok: "av_ok (AV_N ''1.0'')" "av_ok (AV_N ''1'')" by (simp_all add: is_valid_number_def p)
  have "same_value (AV_N ''1.0'') (AV_N ''1'')"
    by (simp add: number_value_def p decimal_value_def with_sign_def d)
  then show ?thesis using compare_attribute_values_total[OF sample_ddb_text ok ok(1)] by blast
qed

lemma sample_item_key: "item_key sample_ddb sample_table sample_item = Inr (print_json (Array [to_json (AV_S ''a'')]))"
  by code_simp

theorem item_key_identifies_key_witness:
  "item_key sample_ddb sample_table [(''pk'', to_json (AV_S ''a''))] = item_key sample_ddb sample_table sample_item \<and>
   item_key sample_ddb sample_table [(''pk'', to_json (AV_S ''b''))] \<noteq> item_key sample_ddb sample_table sample_item"
  using item_key_identifies_key[OF sample_ddb_text sample_item_key, of "[(''pk'', to_json (AV_S ''a''))]"]
    item_key_identifies_key[OF sample_ddb_text sample_item_key, of "[(''pk'', to_json (AV_S ''b''))]"]
  unfolding sample_item_key by (simp add: sample_table_def sample_item_def)

theorem index_projection_hides_rest_witness:
  "map_of (project_result_item sample_table ''by_n'' sample_item '''' []) ''x'' = None"
proof (rule ccontr)
  assume "map_of (project_result_item sample_table ''by_n'' sample_item '''' []) ''x'' \<noteq> None"
  then obtain v where v: "map_of (project_result_item sample_table ''by_n'' sample_item '''' []) ''x'' = Some v" by blast
  have i: "index_projection_for_name sample_table ''by_n'' =
    Some (\<lparr>projection_type = ''KEYS_ONLY'', non_key_attributes = []\<rparr>, [\<lparr>attribute_name = ''n'', key_type = ''HASH''\<rparr>])"
    by code_simp
  from index_projection_hides_rest[OF i _ _ v] show False by (simp add: sample_table_def)
qed

end
