(* ===== verification/Dynamo_Expression.thy ===== *)
theory Dynamo_Expression
  imports Dynamo_Attribute
begin

text \<open>
  \<open>services/dynamodb/src/expression.rs\<close>: the predicate language of condition, filter and key-condition
  expressions. An expression is split into fields at white space, the fields into disjuncts and
  conjuncts, and each predicate is recognised by its shape. \<open>to_uppercase\<close> is Unicode; for the words
  \<open>NOT\<close>, \<open>AND\<close> and \<open>BETWEEN\<close> it agrees with ASCII upper-casing, because no other code point
  upper-cases to a part of them. The parenthesis depth is an \<open>i32\<close> that a text shorter than \<open>2 ^ 31\<close>
  bytes cannot overflow; it is a natural number here.
\<close>

section \<open>Tokenizers\<close>

fun split_or :: "string list \<Rightarrow> string list \<Rightarrow> string list result" where
  "split_or cur [] = (if cur = [] then Inl ''invalid OR expression'' else Inr [join '' '' cur])"
| "split_or cur (field # words) =
     (if eq_ignore_ascii_case field ''OR'' then
        (if cur = [] then Inl ''invalid OR expression''
         else bind_res (split_or [] words) (\<lambda>parts. Inr (join '' '' cur # parts)))
      else split_or (cur @ [field]) words)"

definition split_disjunctive_predicates :: "string \<Rightarrow> string list result" where
  "split_disjunctive_predicates expression =
     (let words = split_whitespace expression in
      if words = [] then Inl ''empty expression'' else split_or [] words)"

fun split_and :: "bool \<Rightarrow> string list \<Rightarrow> string list \<Rightarrow> string list result" where
  "split_and between_needs_and cur [] =
     (if cur = [] then Inl ''invalid AND expression'' else Inr [join '' '' cur])"
| "split_and between_needs_and cur (field # words) =
     (let upper = to_ascii_uppercase field in
      if upper = ''BETWEEN'' then split_and True (cur @ [field]) words
      else if upper = ''AND'' \<and> \<not> between_needs_and then
        (if cur = [] then Inl ''invalid AND expression''
         else bind_res (split_and False [] words) (\<lambda>parts. Inr (join '' '' cur # parts)))
      else if upper = ''AND'' \<and> between_needs_and then split_and False (cur @ [field]) words
      else split_and between_needs_and (cur @ [field]) words)"

definition split_conjunctive_predicates :: "string \<Rightarrow> string list result" where
  "split_conjunctive_predicates expression =
     (let words = split_whitespace expression in
      if words = [] then Inl ''empty expression'' else split_and False [] words)"

definition split_between_expression :: "string \<Rightarrow> (string \<times> string \<times> string) option" where
  "split_between_expression expression =
     (let words = split_whitespace expression in
      if length words \<noteq> 5 \<or> \<not> eq_ignore_ascii_case (words ! 1) ''BETWEEN'' \<or> \<not> eq_ignore_ascii_case (words ! 3) ''AND''
      then None
      else Some (words ! 0, words ! 2, words ! 4))"

fun split_commas :: "nat \<Rightarrow> string \<Rightarrow> string \<Rightarrow> string list" where
  "split_commas depth cur [] = [trim cur]"
| "split_commas depth cur (c # s) =
     (if c = CHR ''('' then split_commas (Suc depth) (cur @ [c]) s
      else if c = CHR '')'' then split_commas (depth - 1) (cur @ [c]) s
      else if c = CHR '','' \<and> depth = 0 then trim cur # split_commas depth [] s
      else split_commas depth (cur @ [c]) s)"

definition split_comma_separated :: "string \<Rightarrow> string list" where
  "split_comma_separated value = split_commas 0 [] value"

definition split_in_expression :: "string \<Rightarrow> (string \<times> string list) option" where
  "split_in_expression expression =
     (case (case cut expression '' IN '' of None \<Rightarrow> cut expression '' in '' | Some p \<Rightarrow> Some p) of
        None \<Rightarrow> None
      | Some (left, right) \<Rightarrow>
          (let right = trim right in
           if \<not> starts_with right ''('' \<or> \<not> ends_with right '')'' then None
           else Some (trim left, split_comma_separated (take (length right - 2) (drop 1 right)))))"

definition comparison_operators :: "string list" where
  "comparison_operators = [''<='', ''>='', ''<>'', ''='', ''<'', ''>'']"

fun first_operator :: "string \<Rightarrow> string list \<Rightarrow> (string \<times> string \<times> string) option" where
  "first_operator expression [] = None"
| "first_operator expression (op # ops) =
     (case cut expression op of
        Some (left, right) \<Rightarrow> Some (left, op, right)
      | None \<Rightarrow> first_operator expression ops)"

definition split_comparison_expression :: "string \<Rightarrow> (string \<times> string \<times> string) option" where
  "split_comparison_expression expression = first_operator expression comparison_operators"

definition parse_function_call :: "string \<Rightarrow> string \<Rightarrow> string option" where
  "parse_function_call expression name =
     (let prefix = name @ ''('' in
      if starts_with expression prefix \<and> ends_with expression '')''
      then Some (take (length expression - 1 - length prefix) (drop (length prefix) expression))
      else None)"

section \<open>Functions on attribute values\<close>

definition attribute_has_type :: "json option \<Rightarrow> json \<Rightarrow> bool" where
  "attribute_has_type actual expected =
     (case member_str expected ''S'' of
        None \<Rightarrow> False
      | Some expected_type \<Rightarrow> attribute_type_name (case actual of None \<Rightarrow> Null | Some v \<Rightarrow> v) = expected_type)"

definition attribute_begins_with :: "json option \<Rightarrow> json \<Rightarrow> bool" where
  "attribute_begins_with actual expected =
     (case (Option.bind actual (\<lambda>v. member_str v ''S''), member_str expected ''S'') of
        (Some a, Some b) \<Rightarrow> starts_with a b
      | _ \<Rightarrow> False)"

definition set_contains :: "string \<Rightarrow> json list \<Rightarrow> json \<Rightarrow> bool" where
  "set_contains set_type actual_values expected =
     (let actual_strings = List.map_filter as_str actual_values;
          scalar_type = (if set_type = ''SS'' then ''S'' else if set_type = ''NS'' then ''N'' else if set_type = ''BS'' then ''B'' else '''') in
      case member_array expected set_type of
        Some expected_values \<Rightarrow>
          (case expected_values of
             [v] \<Rightarrow> (case as_str v of Some want \<Rightarrow> want \<in> set actual_strings | None \<Rightarrow> False)
           | _ \<Rightarrow> False)
      | None \<Rightarrow> (case member_str expected scalar_type of Some scalar \<Rightarrow> scalar \<in> set actual_strings | None \<Rightarrow> False))"

definition attribute_contains :: "json option \<Rightarrow> json \<Rightarrow> bool" where
  "attribute_contains actual expected =
     (case actual of None \<Rightarrow> False
      | Some v \<Rightarrow>
          (case member_str v ''S'' of
             Some s \<Rightarrow> (case member_str expected ''S'' of Some e \<Rightarrow> contains_sub s e | None \<Rightarrow> False)
           | None \<Rightarrow>
               (case find (\<lambda>t. member_array v t \<noteq> None) [''SS'', ''NS'', ''BS''] of
                  Some t \<Rightarrow> set_contains t (the (member_array v t)) expected
                | None \<Rightarrow>
                    (case member_array v ''L'' of
                       Some entries \<Rightarrow> list_ex (\<lambda>entry. attribute_values_equal entry expected) entries
                     | None \<Rightarrow> False))))"

definition attribute_size :: "json \<Rightarrow> nat option" where
  "attribute_size v =
     (case member_str v ''S'' of Some s \<Rightarrow> Some (length s)
      | None \<Rightarrow> (case member_str v ''B'' of Some b \<Rightarrow> Some (length b)
      | None \<Rightarrow> (case find (\<lambda>t. member_array v t \<noteq> None) [''SS'', ''NS'', ''BS'', ''L''] of
            Some t \<Rightarrow> Some (length (the (member_array v t)))
          | None \<Rightarrow> map_option length (Option.bind (member v ''M'') as_object))))"

section \<open>Predicates\<close>

definition missing_value :: "string \<Rightarrow> string" where
  "missing_value token = ''missing expression attribute value '' @ token"

definition value_of :: "attribute_values \<Rightarrow> string \<Rightarrow> json result" where
  "value_of vals token = or_else (map_of vals token) (missing_value token)"

definition evaluate_existence_predicate :: "string \<Rightarrow> names \<Rightarrow> item \<Rightarrow> bool option" where
  "evaluate_existence_predicate expression nms candidate =
     (case parse_function_call expression ''attribute_exists'' of
        Some body \<Rightarrow> Some (bt_contains candidate (resolve_attribute_name (trim body) nms))
      | None \<Rightarrow>
          (case parse_function_call expression ''attribute_not_exists'' of
             Some body \<Rightarrow> Some (\<not> bt_contains candidate (resolve_attribute_name (trim body) nms))
           | None \<Rightarrow> None))"

definition apply_function :: "string \<Rightarrow> json option \<Rightarrow> json \<Rightarrow> bool" where
  "apply_function name actual expected =
     (if name = ''begins_with'' then attribute_begins_with actual expected
      else if name = ''contains'' then attribute_contains actual expected
      else attribute_has_type actual expected)"

fun evaluate_functions ::
  "string list \<Rightarrow> string \<Rightarrow> names \<Rightarrow> attribute_values \<Rightarrow> item \<Rightarrow> bool option result" where
  "evaluate_functions [] expression nms vals candidate = Inr None"
| "evaluate_functions (name # rest) expression nms vals candidate =
     (case parse_function_call expression name of
        None \<Rightarrow> evaluate_functions rest expression nms vals candidate
      | Some body \<Rightarrow>
          (case split_comma_separated body of
             [arg0, arg1] \<Rightarrow>
               bind_res (value_of vals (trim arg1))
                 (\<lambda>expected. Inr (Some (apply_function name
                    (map_of candidate (resolve_attribute_name (trim arg0) nms)) expected)))
           | _ \<Rightarrow> Inl (''invalid '' @ name @ '' expression'')))"

definition evaluate_binary_function_predicate ::
  "string \<Rightarrow> names \<Rightarrow> attribute_values \<Rightarrow> item \<Rightarrow> bool option result" where
  "evaluate_binary_function_predicate expression nms vals candidate =
     evaluate_functions [''begins_with'', ''contains'', ''attribute_type''] expression nms vals candidate"

definition evaluate_between_predicate ::
  "ddb_crates \<Rightarrow> string \<Rightarrow> string \<Rightarrow> string \<Rightarrow> names \<Rightarrow> attribute_values \<Rightarrow> item \<Rightarrow> bool result" where
  "evaluate_between_predicate X attr_token lower_token upper_token nms vals candidate =
     (let attr = resolve_attribute_name (trim attr_token) nms in
      bind_res (value_of vals (trim lower_token)) (\<lambda>lower.
      bind_res (value_of vals (trim upper_token)) (\<lambda>upper.
        case map_of candidate attr of
          None \<Rightarrow> Inr False
        | Some actual \<Rightarrow> Inr (compare_attribute_values X actual lower \<noteq> Less
            \<and> compare_attribute_values X actual upper \<noteq> Greater))))"

fun equals_any :: "json \<Rightarrow> string list \<Rightarrow> attribute_values \<Rightarrow> bool result" where
  "equals_any actual [] vals = Inr False"
| "equals_any actual (token # tokens) vals =
     bind_res (value_of vals (trim token))
       (\<lambda>expected. if attribute_values_equal actual expected then Inr True else equals_any actual tokens vals)"

definition evaluate_in_predicate ::
  "string \<Rightarrow> string list \<Rightarrow> names \<Rightarrow> attribute_values \<Rightarrow> item \<Rightarrow> bool result" where
  "evaluate_in_predicate attr_token value_tokens nms vals candidate =
     (case map_of candidate (resolve_attribute_name (trim attr_token) nms) of
        None \<Rightarrow> Inr False
      | Some actual \<Rightarrow>
          if value_tokens = [] then Inl ''IN expression requires at least one value''
          else equals_any actual value_tokens vals)"

definition compare_with_operator :: "ordering \<Rightarrow> string \<Rightarrow> bool result" where
  "compare_with_operator comparison operator =
     (if operator = ''='' then Inr (comparison = Equal)
      else if operator = ''<>'' then Inr (comparison \<noteq> Equal)
      else if operator = ''<'' then Inr (comparison = Less)
      else if operator = ''<='' then Inr (comparison \<noteq> Greater)
      else if operator = ''>'' then Inr (comparison = Greater)
      else if operator = ''>='' then Inr (comparison \<noteq> Less)
      else Inl (''unsupported comparison operator '' @ operator))"

definition evaluate_size_operand :: "string \<Rightarrow> names \<Rightarrow> item \<Rightarrow> nat option result" where
  "evaluate_size_operand expression nms candidate =
     (case parse_function_call expression ''size'' of
        None \<Rightarrow> Inr None
      | Some body \<Rightarrow>
          (let attr = resolve_attribute_name (trim body) nms in
           case map_of candidate attr of
             None \<Rightarrow> Inr (Some 0)
           | Some v \<Rightarrow> (case attribute_size v of
                 Some n \<Rightarrow> Inr (Some n)
               | None \<Rightarrow> Inl (''size is not supported for attribute '' @ attr))))"

definition evaluate_comparison_predicate ::
  "ddb_crates \<Rightarrow> string \<Rightarrow> names \<Rightarrow> attribute_values \<Rightarrow> item \<Rightarrow> bool result" where
  "evaluate_comparison_predicate X expression nms vals candidate =
     (case split_comparison_expression expression of
        None \<Rightarrow> Inl ''unsupported expression predicate''
      | Some (name_token, operator, value_token) \<Rightarrow>
          bind_res (evaluate_size_operand (trim name_token) nms candidate) (\<lambda>operand.
            bind_res (value_of vals (trim value_token)) (\<lambda>expected.
              case operand of
                Some n \<Rightarrow> compare_with_operator
                  (compare_attribute_values X (Object [(''N'', String (dec n))]) expected) operator
              | None \<Rightarrow>
                  (case map_of candidate (resolve_attribute_name (trim name_token) nms) of
                     None \<Rightarrow> Inr False
                   | Some actual \<Rightarrow>
                       if operator = ''='' then Inr (attribute_values_equal actual expected)
                       else if operator = ''<>'' then Inr (\<not> attribute_values_equal actual expected)
                       else compare_with_operator (compare_attribute_values X actual expected) operator))))"

lemma length_trim_by: "length (trim_by ws s) \<le> length s"
  using trim_by_prefix[of s ws] by (metis le_add2 length_append)

lemma length_trim: "length (trim s) \<le> length s"
  using length_trim_by[of white_space s] length_trim_by[of "map rev white_space" "rev (trim_by white_space s)"]
  by (simp add: trim_def)

function match_predicate ::
  "ddb_crates \<Rightarrow> string \<Rightarrow> names \<Rightarrow> attribute_values \<Rightarrow> item \<Rightarrow> bool result" where
  "match_predicate X expression nms vals candidate =
     (if starts_with (to_ascii_uppercase expression) ''NOT ''
      then bind_res (match_predicate X (trim (drop 4 expression)) nms vals candidate) (\<lambda>b. Inr (\<not> b))
      else case evaluate_existence_predicate expression nms candidate of
        Some b \<Rightarrow> Inr b
      | None \<Rightarrow> bind_res (evaluate_binary_function_predicate expression nms vals candidate) (\<lambda>r.
          case r of
            Some b \<Rightarrow> Inr b
          | None \<Rightarrow>
              (case split_between_expression expression of
                 Some (attr, lower, upper) \<Rightarrow> evaluate_between_predicate X attr lower upper nms vals candidate
               | None \<Rightarrow>
                   (case split_in_expression expression of
                      Some (attr, tokens) \<Rightarrow> evaluate_in_predicate attr tokens nms vals candidate
                    | None \<Rightarrow> evaluate_comparison_predicate X expression nms vals candidate))))"
  by pat_completeness auto
termination
proof (relation "measure (\<lambda>(X, e, _). length e)", goal_cases)
  case (2 X e nms vals candidate)
  then have "length e \<ge> 4" by (auto simp: starts_with_iff to_ascii_uppercase_def dest: arg_cong[of _ _ length])
  then show ?case using length_trim[of "drop 4 e"] by simp
qed simp

declare match_predicate.simps [simp del]

section \<open>Expressions\<close>

fun match_all :: "ddb_crates \<Rightarrow> string list \<Rightarrow> names \<Rightarrow> attribute_values \<Rightarrow> item \<Rightarrow> bool result" where
  "match_all X [] nms vals candidate = Inr True"
| "match_all X (part # parts) nms vals candidate =
     bind_res (match_predicate X (trim part) nms vals candidate)
       (\<lambda>b. if \<not> b then Inr False else match_all X parts nms vals candidate)"

fun match_any :: "ddb_crates \<Rightarrow> string list \<Rightarrow> names \<Rightarrow> attribute_values \<Rightarrow> item \<Rightarrow> bool result" where
  "match_any X [] nms vals candidate = Inr False"
| "match_any X (disjunct # disjuncts) nms vals candidate =
     bind_res (split_conjunctive_predicates disjunct) (\<lambda>parts.
     bind_res (match_all X parts nms vals candidate)
       (\<lambda>b. if b then Inr True else match_any X disjuncts nms vals candidate))"

definition match_conjunctive_expression ::
  "ddb_crates \<Rightarrow> string \<Rightarrow> names \<Rightarrow> attribute_values \<Rightarrow> item \<Rightarrow> bool result" where
  "match_conjunctive_expression X expression nms vals candidate =
     bind_res (split_disjunctive_predicates expression) (\<lambda>disjuncts. match_any X disjuncts nms vals candidate)"

definition match_key_condition ::
  "ddb_crates \<Rightarrow> string \<Rightarrow> names \<Rightarrow> attribute_values \<Rightarrow> item \<Rightarrow> bool result" where
  "match_key_condition X expression nms vals candidate =
     bind_res (split_conjunctive_predicates expression) (\<lambda>parts. match_all X parts nms vals candidate)"

definition match_filter ::
  "ddb_crates \<Rightarrow> string \<Rightarrow> names \<Rightarrow> attribute_values \<Rightarrow> item \<Rightarrow> bool result" where
  "match_filter X expression nms vals candidate =
     (let expression = trim expression in
      if expression = [] then Inr True else match_conjunctive_expression X expression nms vals candidate)"

definition check_condition ::
  "ddb_crates \<Rightarrow> string \<Rightarrow> names \<Rightarrow> attribute_values \<Rightarrow> item option \<Rightarrow> unit result" where
  "check_condition X expression nms vals existing =
     (let expression = trim expression; candidate = (case existing of None \<Rightarrow> [] | Some it \<Rightarrow> it) in
      if expression = [] then Inr ()
      else bind_res (match_conjunctive_expression X expression nms vals candidate)
        (\<lambda>b. if b then Inr () else Inl ''condition check failed''))"

section \<open>Conditions in disjunctive form\<close>

text \<open>A condition as data: a list of disjuncts, each a list of predicates, each a list of words.\<close>

definition reserved :: "string \<Rightarrow> bool" where
  "reserved w \<longleftrightarrow> to_ascii_uppercase w \<in> {''AND'', ''BETWEEN''}"

definition between_words :: "string list \<Rightarrow> bool" where
  "between_words ws \<longleftrightarrow> length ws = 5 \<and> to_ascii_uppercase (ws ! 1) = ''BETWEEN'' \<and> to_ascii_uppercase (ws ! 3) = ''AND''
     \<and> \<not> reserved (ws ! 0) \<and> \<not> reserved (ws ! 2) \<and> \<not> reserved (ws ! 4)"

definition predicate_words :: "string list \<Rightarrow> bool" where
  "predicate_words ws \<longleftrightarrow> ws \<noteq> [] \<and> word_list ws \<and> list_all (\<lambda>w. \<not> eq_ignore_ascii_case w ''OR'') ws
     \<and> (list_all (\<lambda>w. \<not> reserved w) ws \<or> between_words ws)"

fun sep_words :: "string \<Rightarrow> string list list \<Rightarrow> string list" where
  "sep_words w [] = []"
| "sep_words w [p] = p"
| "sep_words w (p # q # ps) = p @ w # sep_words w (q # ps)"

definition dnf_words :: "string list list list \<Rightarrow> string list" where
  "dnf_words dnf = sep_words ''OR'' (map (sep_words ''AND'') dnf)"

lemma split_and_plain:
  "list_all (\<lambda>w. \<not> reserved w) p \<Longrightarrow> split_and b cur (p @ rest) = split_and b (cur @ p) rest"
  by (induction p arbitrary: cur) (auto simp: reserved_def Let_def)

lemma between_words_list:
  "between_words p \<Longrightarrow> \<exists>a bw lo an hi. p = [a, bw, lo, an, hi] \<and> to_ascii_uppercase bw = ''BETWEEN''
     \<and> to_ascii_uppercase an = ''AND'' \<and> \<not> reserved a \<and> \<not> reserved lo \<and> \<not> reserved hi"
  by (auto simp: between_words_def numeral_eq_Suc length_Suc_conv)

lemma split_and_predicate:
  assumes "predicate_words p"
  shows "split_and False cur (p @ rest) = split_and False (cur @ p) rest"
proof (cases "between_words p")
  case True
  from between_words_list[OF this] show ?thesis by (auto simp: reserved_def Let_def)
next
  case False
  then show ?thesis using assms split_and_plain by (simp add: predicate_words_def)
qed

lemma and_words [simp]: "to_ascii_uppercase ''AND'' = ''AND''" "eq_ignore_ascii_case ''AND'' ''OR'' = False"
    "eq_ignore_ascii_case ''OR'' ''OR'' = True"
  by code_simp+

lemma split_and_words:
  "ps \<noteq> [] \<Longrightarrow> \<forall>p \<in> set ps. predicate_words p \<Longrightarrow>
   split_and False [] (sep_words ''AND'' ps) = Inr (map (join '' '') ps)"
proof (induction "''AND''" ps rule: sep_words.induct)
  case (2 p)
  then show ?case using split_and_predicate[of p "[]" "[]"] by (simp add: predicate_words_def)
next
  case (3 p q ps)
  then have "p \<noteq> []" by (simp add: predicate_words_def)
  with 3 split_and_predicate[of p "[]"] show ?case by simp
qed simp

lemma split_or_plain:
  "list_all (\<lambda>w. \<not> eq_ignore_ascii_case w ''OR'') p \<Longrightarrow> split_or cur (p @ rest) = split_or (cur @ p) rest"
  by (induction p arbitrary: cur) auto

lemma split_or_words:
  "cs \<noteq> [] \<Longrightarrow> \<forall>c \<in> set cs. c \<noteq> [] \<and> list_all (\<lambda>w. \<not> eq_ignore_ascii_case w ''OR'') c \<Longrightarrow>
   split_or [] (sep_words ''OR'' cs) = Inr (map (join '' '') cs)"
proof (induction "''OR''" cs rule: sep_words.induct)
  case (2 c)
  then show ?case using split_or_plain[of c "[]" "[]"] by simp
next
  case (3 c d cs)
  with split_or_plain[of c "[]"] show ?case by simp
qed simp

lemma conjunct_words:
  "ps \<noteq> [] \<Longrightarrow> \<forall>p \<in> set ps. predicate_words p \<Longrightarrow>
   sep_words ''AND'' ps \<noteq> [] \<and> word_list (sep_words ''AND'' ps)
     \<and> list_all (\<lambda>w. \<not> eq_ignore_ascii_case w ''OR'') (sep_words ''AND'' ps)"
proof (induction "''AND''" ps rule: sep_words.induct)
  case (3 p q ps)
  then show ?case by (simp add: predicate_words_def visible_def ascii_def)
qed (simp_all add: predicate_words_def)

lemma sep_words_list: "cs \<noteq> [] \<Longrightarrow> \<forall>c \<in> set cs. c \<noteq> [] \<and> word_list c \<Longrightarrow>
    sep_words ''OR'' cs \<noteq> [] \<and> word_list (sep_words ''OR'' cs)"
  by (induction "''OR''" cs rule: sep_words.induct) (simp_all add: visible_def ascii_def)

lemma match_all_words:
  assumes "\<forall>p \<in> set ps. predicate_words p \<and> match_predicate X (join '' '' p) nms vals candidate = Inr (truth p)"
  shows "match_all X (map (join '' '') ps) nms vals candidate = Inr (\<forall>p \<in> set ps. truth p)"
  using assms by (induction ps) (auto simp: trim_join predicate_words_def)

lemma match_any_words:
  assumes "\<forall>c \<in> set dnf. c \<noteq> [] \<and> (\<forall>p \<in> set c. predicate_words p
      \<and> match_predicate X (join '' '' p) nms vals candidate = Inr (truth p))"
  shows "match_any X (map (\<lambda>c. join '' '' (sep_words ''AND'' c)) dnf) nms vals candidate =
    Inr (\<exists>c \<in> set dnf. \<forall>p \<in> set c. truth p)"
  using assms
proof (induction dnf)
  case (Cons c dnf)
  then have c: "c \<noteq> []" "\<forall>p \<in> set c. predicate_words p" by auto
  have "split_conjunctive_predicates (join '' '' (sep_words ''AND'' c)) = Inr (map (join '' '') c)"
    using conjunct_words[OF c] split_and_words[OF c]
    by (simp add: split_conjunctive_predicates_def split_whitespace_join)
  moreover have "match_all X (map (join '' '') c) nms vals candidate = Inr (\<forall>p \<in> set c. truth p)"
    using Cons.prems by (intro match_all_words) simp
  ultimately show ?case using Cons by auto
qed simp

lemma match_conjunctive_words:
  assumes "dnf \<noteq> []" "\<forall>c \<in> set dnf. c \<noteq> [] \<and> (\<forall>p \<in> set c. predicate_words p
      \<and> match_predicate X (join '' '' p) nms vals candidate = Inr (truth p))"
  shows "match_conjunctive_expression X (join '' '' (dnf_words dnf)) nms vals candidate =
    Inr (\<exists>c \<in> set dnf. \<forall>p \<in> set c. truth p)"
    and "trim (join '' '' (dnf_words dnf)) = join '' '' (dnf_words dnf)" "join '' '' (dnf_words dnf) \<noteq> []"
proof -
  have c: "\<forall>c \<in> set (map (sep_words ''AND'') dnf). c \<noteq> [] \<and> word_list c
      \<and> list_all (\<lambda>w. \<not> eq_ignore_ascii_case w ''OR'') c"
    using assms(2) conjunct_words by simp
  then have w: "dnf_words dnf \<noteq> []" "word_list (dnf_words dnf)"
    using sep_words_list[of "map (sep_words ''AND'') dnf"] assms(1) by (simp_all add: dnf_words_def)
  have "split_or [] (dnf_words dnf) = Inr (map (join '' '') (map (sep_words ''AND'') dnf))"
    unfolding dnf_words_def using c assms(1) by (intro split_or_words) simp_all
  then show "match_conjunctive_expression X (join '' '' (dnf_words dnf)) nms vals candidate =
    Inr (\<exists>c \<in> set dnf. \<forall>p \<in> set c. truth p)"
    using w match_any_words[OF assms(2)]
    by (simp add: match_conjunctive_expression_def split_disjunctive_predicates_def split_whitespace_join comp_def)
  show "trim (join '' '' (dnf_words dnf)) = join '' '' (dnf_words dnf)" using w by (intro trim_join)
  show "join '' '' (dnf_words dnf) \<noteq> []" using w by (simp add: join_eq_Nil)
qed

text \<open>A condition means what its text says: predicates joined by \<open>AND\<close> and then by \<open>OR\<close>, each of them
  evaluated without error, hold together exactly when some disjunct has all of its predicates true.
  \<open>AND\<close> binds tighter than \<open>OR\<close>, and the \<open>AND\<close> of a \<open>BETWEEN\<close> does not split its predicate.\<close>

theorem condition_is_disjunctive_form:
  assumes "dnf \<noteq> []" "\<forall>c \<in> set dnf. c \<noteq> [] \<and> (\<forall>p \<in> set c. predicate_words p
      \<and> match_predicate X (join '' '' p) nms vals candidate = Inr (truth p))"
  shows "check_condition X (join '' '' (dnf_words dnf)) nms vals (Some candidate) =
      (if \<exists>c \<in> set dnf. \<forall>p \<in> set c. truth p then Inr () else Inl ''condition check failed'')
    \<and> match_filter X (join '' '' (dnf_words dnf)) nms vals candidate = Inr (\<exists>c \<in> set dnf. \<forall>p \<in> set c. truth p)"
  using match_conjunctive_words[OF assms] by (simp add: check_condition_def match_filter_def Let_def)

section \<open>Comparisons and ranges\<close>

definition operand :: "string \<Rightarrow> bool" where
  "operand w \<longleftrightarrow> w \<noteq> [] \<and> list_all (\<lambda>c. visible c \<and> c \<notin> set ''()<>=,'') w
     \<and> to_ascii_uppercase w \<notin> {''NOT'', ''AND'', ''BETWEEN''} \<and> \<not> eq_ignore_ascii_case w ''OR''"

lemma operand_word: "operand w \<Longrightarrow> w \<noteq> [] \<and> list_all visible w"
  by (auto simp: operand_def list_all_iff)

lemma blank_not_visible: "\<not> visible (CHR '' '')"
  by (simp add: visible_def ascii_def)

lemma operand_chars: "operand w \<Longrightarrow> c \<in> set '' ()<>='' \<Longrightarrow> c \<notin> set w"
  using blank_not_visible by (auto simp: operand_def list_all_iff)

lemma find_sub_absent: "c \<in> set p \<Longrightarrow> c \<notin> set s \<Longrightarrow> find_sub s p = None"
  using contains_sub_iff[of s p] by (auto simp: contains_sub_def)

lemma find_sub_first: "p \<noteq> [] \<Longrightarrow> hd p \<notin> set u \<Longrightarrow> find_sub (u @ p @ r) p = Some (length u)"
proof (induction u)
  case Nil
  then show ?case by (cases p) (auto simp: starts_with_def)
next
  case (Cons c u)
  then show ?case by (cases p) (auto simp: starts_with_def)
qed

lemma no_call: "CHR ''('' \<notin> set e \<Longrightarrow> parse_function_call e name = None"
  by (auto simp: parse_function_call_def Let_def starts_with_iff)

lemma no_functions: "CHR ''('' \<notin> set e \<Longrightarrow> evaluate_functions fns e nms vals candidate = Inr None"
  by (induction fns) (auto simp: no_call)

lemma ascii_ascii_upper: "ascii (ascii_upper c) = (if is_ascii_lowercase c then ascii c - 32 else ascii c)"
  by (auto simp: ascii_upper_def ascii_def is_ascii_lowercase_def)

lemma visible_upper: "visible c \<Longrightarrow> visible (ascii_upper c)"
  by (auto simp: visible_def ascii_ascii_upper is_ascii_lowercase_def)

lemma first_blank:
  assumes "CHR '' '' \<notin> set a" "CHR '' '' \<notin> set b" and eq: "a @ CHR '' '' # r = b @ CHR '' '' # q"
  shows "a = b \<and> r = q"
proof -
  have "Some (a, r) = split_once (CHR '' '') (a @ CHR '' '' # r)" using split_once_append[OF assms(1)] by (rule sym)
  also have "\<dots> = Some (b, q)" unfolding eq by (rule split_once_append[OF assms(2)])
  finally show ?thesis by simp
qed

lemma not_prefix:
  assumes "operand a"
  shows "\<not> starts_with (to_ascii_uppercase (a @ CHR '' '' # r)) ''NOT ''"
proof
  assume "starts_with (to_ascii_uppercase (a @ CHR '' '' # r)) ''NOT ''"
  then obtain q where q: "to_ascii_uppercase a @ ascii_upper (CHR '' '') # to_ascii_uppercase r = ''NOT'' @ CHR '' '' # q"
    by (auto simp: starts_with_iff to_ascii_uppercase_def)
  have blank: "ascii_upper (CHR '' '') = CHR '' ''" by code_simp
  have "CHR '' '' \<notin> set (to_ascii_uppercase a)"
    using operand_word[OF assms] visible_upper blank_not_visible unfolding to_ascii_uppercase_def
    by (auto simp: list_all_iff)
  from first_blank[OF this _ q[unfolded blank]] have "to_ascii_uppercase a = ''NOT''" by simp
  then show False using assms by (simp add: operand_def)
qed


lemma three_words_cut:
  assumes "CHR '' '' \<notin> set a" "CHR '' '' \<notin> set w" "CHR '' '' \<notin> set v" "CHR '' '' \<notin> set k" "w \<noteq> k"
  shows "cut (a @ CHR '' '' # w @ CHR '' '' # v) (CHR '' '' # k @ '' '') = None"
proof -
  have False if eq: "a @ CHR '' '' # w @ CHR '' '' # v = x @ CHR '' '' # k @ CHR '' '' # y" for x y
  proof -
    from arg_cong[OF eq, of "\<lambda>s. count_list s (CHR '' '')"] assms(1-3)
    have "CHR '' '' \<notin> set x" by (auto simp: count_list_0_iff)
    with first_blank[OF assms(1) _ eq] have "w @ CHR '' '' # v = k @ CHR '' '' # y" by simp
    with first_blank[OF assms(2,4)] assms(5) show False by blast
  qed
  then show ?thesis using contains_sub_iff[of "a @ CHR '' '' # w @ CHR '' '' # v" "CHR '' '' # k @ '' ''"]
    by (auto simp: cut_def contains_sub_def)
qed

lemma trim_by_step: "white_len ws s \<noteq> 0 \<Longrightarrow> trim_by ws s = trim_by ws (drop (white_len ws s) s)"
  by (subst trim_by.simps) simp

lemma trim_blank_left: "trim (CHR '' '' # s) = trim s"
  using trim_by_step[of white_space "CHR '' '' # s"] by (simp add: trim_def white_len_blank)

lemma trim_blank_right:
  assumes "w \<noteq> []" "list_all visible w"
  shows "trim (w @ '' '') = w"
proof -
  have rb: "white_len (map rev white_space) (CHR '' '' # s) = 1" for s
    by (simp add: white_len_def white_space_def starts_with_def)
  have l: "trim_by white_space (w @ '' '') = w @ '' ''"
    using assms white_len_visible[of "hd w" "tl w @ '' ''"] list_all_hd by (subst trim_by.simps) (cases w, auto)
  have "trim_by (map rev white_space) (rev (w @ '' '')) = trim_by (map rev white_space) (rev w)"
    using trim_by_step[of "map rev white_space" "CHR '' '' # rev w"] by (simp add: rb)
  also have "\<dots> = rev w"
    using assms white_space_ends list_all_last[OF assms(2,1)] by (intro trim_by_id) (fastforce simp: hd_rev)
  finally show ?thesis by (simp add: trim_def l)
qed

lemma cut_operator:
  assumes "operand a" "operand v" "op \<in> set comparison_operators"
  shows "split_comparison_expression (a @ CHR '' '' # op @ CHR '' '' # v) = Some (a @ '' '', op, CHR '' '' # v)"
proof -
  let ?e = "a @ CHR '' '' # op @ CHR '' '' # v"
  have cs: "c \<notin> set a" "c \<notin> set v" if "c \<in> set ''<>=''" for c
    using assms operand_chars that by auto
  have ne: "op \<noteq> []" "hd op \<notin> set (a @ '' '')"
    using assms(3) cs(1)[of "CHR ''<''"] cs(1)[of "CHR ''>''"] cs(1)[of "CHR ''=''"]
    unfolding comparison_operators_def by auto
  have "find_sub ?e op = Some (length (a @ '' ''))"
    using find_sub_first[OF ne, of "CHR '' '' # v"] by simp
  then have this_cut: "cut ?e op = Some (a @ '' '', CHR '' '' # v)" by (simp add: cut_def)
  have other: "cut ?e p = None" if "c \<in> set p" "c \<in> set ''<>=''" "c \<notin> set op" for c p
    using that cs find_sub_absent[of c p ?e] by (auto simp: cut_def)
  show ?thesis
    using assms(3) this_cut other[of "CHR ''<''" "''<=''"] other[of "CHR ''=''" "''<=''"]
      other[of "CHR ''>''" "''>=''"] other[of "CHR ''=''" "''>=''"] other[of "CHR ''<''" "''<>''"]
      other[of "CHR ''>''" "''<>''"] other[of "CHR ''=''" "''=''"] other[of "CHR ''<''" "''<''"]
    unfolding split_comparison_expression_def comparison_operators_def by auto
qed

lemma simple_predicate:
  assumes "operand a" "CHR ''('' \<notin> set r"
  shows "match_predicate X (a @ CHR '' '' # r) nms vals candidate =
     (case split_between_expression (a @ CHR '' '' # r) of
        Some (attr, lower, upper) \<Rightarrow> evaluate_between_predicate X attr lower upper nms vals candidate
      | None \<Rightarrow>
          (case split_in_expression (a @ CHR '' '' # r) of
             Some (attr, tokens) \<Rightarrow> evaluate_in_predicate attr tokens nms vals candidate
           | None \<Rightarrow> evaluate_comparison_predicate X (a @ CHR '' '' # r) nms vals candidate))"
proof -
  let ?e = "a @ CHR '' '' # r"
  have paren: "CHR ''('' \<notin> set ?e" using assms operand_chars[OF assms(1), of "CHR ''(''"] by auto
  have ex: "evaluate_existence_predicate ?e nms candidate = None"
    by (simp add: evaluate_existence_predicate_def no_call[OF paren])
  have fn: "evaluate_binary_function_predicate ?e nms vals candidate = Inr None"
    unfolding evaluate_binary_function_predicate_def by (rule no_functions[OF paren])
  show ?thesis
    by (subst match_predicate.simps) (simp only: not_prefix[OF assms(1)] ex fn if_False option.case bind_res_simps)
qed

definition compare_values :: "ddb_crates \<Rightarrow> string \<Rightarrow> json \<Rightarrow> json \<Rightarrow> bool result" where
  "compare_values X op actual expected =
     (if op = ''='' then Inr (actual = expected)
      else if op = ''<>'' then Inr (actual \<noteq> expected)
      else compare_with_operator (compare_attribute_values X actual expected) op)"

lemma comparison_words:
  assumes "operand a" "operand v" "op \<in> set comparison_operators" "map_of vals v = Some expected"
  shows "match_predicate X (join '' '' [a, op, v]) nms vals candidate =
    (case map_of candidate (resolve_attribute_name a nms) of
       None \<Rightarrow> Inr False
     | Some actual \<Rightarrow> compare_values X op actual expected)"
proof -
  let ?e = "a @ CHR '' '' # op @ CHR '' '' # v"
  have e: "join '' '' [a, op, v] = ?e" by simp
  have op: "op \<noteq> []" "list_all visible op" "CHR ''('' \<notin> set op" "op \<noteq> ''IN''" "op \<noteq> ''in''"
    using assms(3) by (auto simp: comparison_operators_def visible_def ascii_def)
  have wa: "a \<noteq> []" "list_all visible a" and wv: "v \<noteq> []" "list_all visible v"
    using operand_word assms by auto
  have paren: "CHR ''('' \<notin> set (op @ CHR '' '' # v)" using op(3) operand_chars[OF assms(2), of "CHR ''(''"] by auto
  have "split_whitespace ?e = [a, op, v]" using split_whitespace_join[of "[a, op, v]"] wa wv op e by simp
  then have nb: "split_between_expression ?e = None" by (simp add: split_between_expression_def)
  have blanks: "CHR '' '' \<notin> set a" "CHR '' '' \<notin> set op" "CHR '' '' \<notin> set v"
    using wa wv op blank_not_visible by (auto simp: list_all_iff)
  have ni: "split_in_expression ?e = None"
    using three_words_cut[OF blanks, of "''IN''"] three_words_cut[OF blanks, of "''in''"] op(4,5)
    by (simp add: split_in_expression_def)
  have call: "parse_function_call a ''size'' = None" using operand_chars[OF assms(1), of "CHR ''(''"] by (intro no_call) auto
  show ?thesis
    unfolding e simple_predicate[OF assms(1) paren] nb ni
    by (simp add: evaluate_comparison_predicate_def cut_operator[OF assms(1-3)] trim_blank_right[OF wa]
        trim_blank_left trim_word[OF wv(2)] evaluate_size_operand_def call value_of_def or_else_def assms(4)
        compare_values_def attribute_values_equal_def split: option.split)
qed

lemma between_keywords:
  "eq_ignore_ascii_case ''BETWEEN'' ''BETWEEN''" "eq_ignore_ascii_case ''AND'' ''AND''"
  "to_ascii_uppercase ''BETWEEN'' = ''BETWEEN''"
  by code_simp+

lemma between_eval:
  assumes "operand a" "operand lo" "operand hi" "map_of vals lo = Some l" "map_of vals hi = Some h"
  shows "match_predicate X (join '' '' [a, ''BETWEEN'', lo, ''AND'', hi]) nms vals candidate =
    (case map_of candidate (resolve_attribute_name a nms) of
       None \<Rightarrow> Inr False
     | Some actual \<Rightarrow> Inr (compare_attribute_values X actual l \<noteq> Less \<and> compare_attribute_values X actual h \<noteq> Greater))"
proof -
  define r where "r = ''BETWEEN '' @ lo @ '' AND '' @ hi"
  have e: "join '' '' [a, ''BETWEEN'', lo, ''AND'', hi] = a @ CHR '' '' # r" by (simp add: r_def)
  have ws: "word_list [a, ''BETWEEN'', lo, ''AND'', hi]"
    using operand_word assms(1-3) by (simp add: visible_def ascii_def)
  have paren: "CHR ''('' \<notin> set r"
    using operand_chars[OF assms(2), of "CHR ''(''"] operand_chars[OF assms(3), of "CHR ''(''"] by (simp add: r_def)
  have "split_between_expression (a @ CHR '' '' # r) = Some (a, lo, hi)"
    unfolding split_between_expression_def e[symmetric] split_whitespace_join[OF ws]
    using between_keywords by (simp add: numeral_eq_Suc)
  then show ?thesis
    unfolding e simple_predicate[OF assms(1) paren] using ws
    by (simp add: evaluate_between_predicate_def trim_word value_of_def or_else_def assms(4,5))
qed

lemma operand_reserved: "operand w \<Longrightarrow> \<not> reserved w"
  by (simp add: operand_def reserved_def)

lemma operand_predicate:
  assumes "operand a" "operand v" "op \<in> set comparison_operators"
  shows "predicate_words [a, op, v]"
proof -
  have op: "\<not> reserved op \<and> \<not> eq_ignore_ascii_case op ''OR'' \<and> op \<noteq> [] \<and> list_all visible op"
    if "op \<in> {''<='', ''>='', ''<>'', ''='', ''<'', ''>''}" for op
    using that by (elim insertE emptyE) (simp_all, code_simp+)
  then show ?thesis using assms operand_word[OF assms(1)] operand_word[OF assms(2)] operand_reserved
    by (simp add: predicate_words_def comparison_operators_def operand_def)
qed

lemma filter_one:
  assumes "predicate_words p" "match_predicate X (join '' '' p) nms vals candidate = Inr b"
  shows "match_filter X (join '' '' p) nms vals candidate = Inr b"
  using match_conjunctive_words[of "[[p]]" X nms vals candidate "\<lambda>_. b"] assms
  by (simp add: dnf_words_def match_filter_def Let_def)

lemma filter_two:
  assumes "predicate_words p" "match_predicate X (join '' '' p) nms vals candidate = Inr b"
    "predicate_words q" "match_predicate X (join '' '' q) nms vals candidate = Inr c"
  shows "match_filter X (join '' '' (p @ ''AND'' # q)) nms vals candidate = Inr (b \<and> c)"
proof (cases "p = q")
  case True
  then show ?thesis using match_conjunctive_words[of "[[p, q]]" X nms vals candidate "\<lambda>_. b"] assms
    by (simp add: dnf_words_def match_filter_def Let_def)
next
  case False
  then show ?thesis using match_conjunctive_words[of "[[p, q]]" X nms vals candidate "\<lambda>w. if w = p then b else c"] assms
    by (auto simp: dnf_words_def match_filter_def Let_def)
qed

text \<open>\<open>BETWEEN\<close> is the conjunction of two comparisons: \<open>a BETWEEN lo AND hi\<close> and \<open>a >= lo AND a <= hi\<close> are
  both false on an item without the attribute and otherwise both hold exactly when the attribute is
  not below \<open>lo\<close> and not above \<open>hi\<close>.\<close>

theorem between_is_two_comparisons:
  fixes X :: ddb_crates and nms :: names and candidate :: item
  assumes "operand a" "operand lo" "operand hi" "map_of vals lo = Some l" "map_of vals hi = Some h"
  defines "inside \<equiv> (case map_of candidate (resolve_attribute_name a nms) of
       None \<Rightarrow> False
     | Some actual \<Rightarrow> compare_attribute_values X actual l \<noteq> Less \<and> compare_attribute_values X actual h \<noteq> Greater)"
  shows "match_filter X (join '' '' [a, ''BETWEEN'', lo, ''AND'', hi]) nms vals candidate = Inr inside
    \<and> match_filter X (join '' '' [a, ''>='', lo, ''AND'', a, ''<='', hi]) nms vals candidate = Inr inside"
proof
  have ge: "''>='' \<in> set comparison_operators" and le: "''<='' \<in> set comparison_operators"
    by (simp_all add: comparison_operators_def)
  have "predicate_words [a, ''BETWEEN'', lo, ''AND'', hi]"
    using operand_word assms(1-3) operand_reserved between_keywords
    by (auto simp: predicate_words_def between_words_def operand_def visible_def ascii_def
        eq_ignore_ascii_case_def to_ascii_lowercase_def numeral_eq_Suc)
  then show "match_filter X (join '' '' [a, ''BETWEEN'', lo, ''AND'', hi]) nms vals candidate = Inr inside"
    by (rule filter_one) (auto simp: between_eval[OF assms(1-5)] inside_def simp del: join.simps split: option.split)
  define c1 where "c1 = (case map_of candidate (resolve_attribute_name a nms) of
    None \<Rightarrow> False | Some actual \<Rightarrow> compare_attribute_values X actual l \<noteq> Less)"
  define c2 where "c2 = (case map_of candidate (resolve_attribute_name a nms) of
    None \<Rightarrow> False | Some actual \<Rightarrow> compare_attribute_values X actual h \<noteq> Greater)"
  have "match_predicate X (join '' '' [a, ''>='', lo]) nms vals candidate = Inr c1"
    "match_predicate X (join '' '' [a, ''<='', hi]) nms vals candidate = Inr c2"
    unfolding comparison_words[OF assms(1,2) ge assms(4)] comparison_words[OF assms(1,3) le assms(5)]
    by (simp_all add: c1_def c2_def compare_values_def compare_with_operator_def split: option.split)
  from filter_two[OF operand_predicate[OF assms(1,2) ge] this(1) operand_predicate[OF assms(1,3) le] this(2)]
  have "match_filter X (join '' '' ([a, ''>='', lo] @ ''AND'' # [a, ''<='', hi])) nms vals candidate = Inr (c1 \<and> c2)" .
  moreover have "(c1 \<and> c2) = inside" by (auto simp: c1_def c2_def inside_def split: option.splits)
  ultimately show "match_filter X (join '' '' [a, ''>='', lo, ''AND'', a, ''<='', hi]) nms vals candidate = Inr inside"
    by (simp only: append.simps)
qed

text \<open>The order operators compare numbers by value: \<open><\<close>, \<open><=\<close>, \<open>>\<close> and \<open>>=\<close> between a number attribute and a
  number value hold exactly when the two rationals are in that order.\<close>

theorem comparison_orders_numbers:
  assumes "operand a" "operand v" "map_of vals v = Some (to_json (AV_N y))"
    "map_of candidate (resolve_attribute_name a nms) = Some (to_json (AV_N x))"
    "is_valid_number x" "is_valid_number y"
  shows "match_filter X (join '' '' [a, ''<'', v]) nms vals candidate = Inr (number_value x < number_value y)"
    and "match_filter X (join '' '' [a, ''<='', v]) nms vals candidate = Inr (number_value x \<le> number_value y)"
    and "match_filter X (join '' '' [a, ''>'', v]) nms vals candidate = Inr (number_value x > number_value y)"
    and "match_filter X (join '' '' [a, ''>='', v]) nms vals candidate = Inr (number_value x \<ge> number_value y)"
proof -
  have one: "match_filter X (join '' '' [a, op, v]) nms vals candidate = Inr b"
    if "op \<in> set comparison_operators"
      "compare_values X op (to_json (AV_N x)) (to_json (AV_N y)) = Inr b" for op b
    using comparison_words[OF assms(1,2) that(1) assms(3), of X nms candidate] that(2) assms(4)
    by (intro filter_one[OF operand_predicate[OF assms(1,2) that(1)]]) (simp only: option.case)
  have c: "compare_attribute_values X (to_json (AV_N x)) (to_json (AV_N y)) = cmp (number_value x) (number_value y)"
    using assms(5,6) unfolding compare_typed by (simp add: compare_numbers)
  show "match_filter X (join '' '' [a, ''<'', v]) nms vals candidate = Inr (number_value x < number_value y)"
    by (rule one) (auto simp: comparison_operators_def compare_values_def compare_with_operator_def c cmp_def
      simp del: to_json.simps)
  show "match_filter X (join '' '' [a, ''<='', v]) nms vals candidate = Inr (number_value x \<le> number_value y)"
    by (rule one) (auto simp: comparison_operators_def compare_values_def compare_with_operator_def c cmp_def
      simp del: to_json.simps)
  show "match_filter X (join '' '' [a, ''>'', v]) nms vals candidate = Inr (number_value x > number_value y)"
    by (rule one) (auto simp: comparison_operators_def compare_values_def compare_with_operator_def c cmp_def
      simp del: to_json.simps)
  show "match_filter X (join '' '' [a, ''>='', v]) nms vals candidate = Inr (number_value x \<ge> number_value y)"
    by (rule one) (auto simp: comparison_operators_def compare_values_def compare_with_operator_def c cmp_def
      simp del: to_json.simps)
qed

text \<open>Equality of numbers is equality of their spelling: an attribute \<open>1.0\<close> satisfies \<open>a <= :v AND a >= :v\<close> for
  the value \<open>1\<close> but not \<open>a = :v\<close>.\<close>

theorem number_equality_is_textual:
  "match_filter sample_ddb ''a <= :v AND a >= :v'' [] [('':v'', to_json (AV_N ''1''))] [(''a'', to_json (AV_N ''1.0''))] = Inr True
   \<and> match_filter sample_ddb ''a = :v'' [] [('':v'', to_json (AV_N ''1''))] [(''a'', to_json (AV_N ''1.0''))] = Inr False"
  by code_simp

section \<open>Samples\<close>

definition sample_values :: attribute_values where
  "sample_values = [('':hi'', to_json (AV_N ''10'')), ('':lo'', to_json (AV_N ''1'')), ('':x'', to_json (AV_S ''x''))]"

lemma sample_predicates:
  "predicate_words [''attribute_exists(pk)'']" "predicate_words [''n'', ''BETWEEN'', '':lo'', ''AND'', '':hi'']"
  "predicate_words [''pk'', ''='', '':x'']"
  by code_simp+

lemma sample_truths:
  "match_predicate sample_ddb (join '' '' [''attribute_exists(pk)'']) [] sample_values sample_item = Inr True"
  "match_predicate sample_ddb (join '' '' [''n'', ''BETWEEN'', '':lo'', ''AND'', '':hi'']) [] sample_values sample_item = Inr True"
  "match_predicate sample_ddb (join '' '' [''pk'', ''='', '':x'']) [] sample_values sample_item = Inr False"
  by (subst match_predicate.simps, code_simp)+

theorem condition_is_disjunctive_form_witness:
  "check_condition sample_ddb ''pk = :x OR attribute_exists(pk) AND n BETWEEN :lo AND :hi'' [] sample_values (Some sample_item) = Inr ()"
proof -
  let ?dnf = "[[[''pk'', ''='', '':x'']], [[''attribute_exists(pk)''], [''n'', ''BETWEEN'', '':lo'', ''AND'', '':hi'']]]"
  have "join '' '' (dnf_words ?dnf) = ''pk = :x OR attribute_exists(pk) AND n BETWEEN :lo AND :hi''" by code_simp
  moreover have "\<forall>c \<in> set ?dnf. c \<noteq> [] \<and> (\<forall>p \<in> set c. predicate_words p
      \<and> match_predicate sample_ddb (join '' '' p) [] sample_values sample_item = Inr (p \<noteq> [''pk'', ''='', '':x'']))"
    using sample_predicates sample_truths by (simp del: join.simps)
  ultimately show ?thesis
    using condition_is_disjunctive_form[of ?dnf sample_ddb "[]" sample_values sample_item "\<lambda>p. p \<noteq> [''pk'', ''='', '':x'']"]
    by (simp del: join.simps)
qed

lemma sample_operands: "operand ''n''" "operand '':lo''" "operand '':hi''"
  by code_simp+

theorem between_is_two_comparisons_witness:
  "match_filter sample_ddb ''n BETWEEN :lo AND :hi'' [] sample_values sample_item
   = match_filter sample_ddb ''n >= :lo AND n <= :hi'' [] sample_values sample_item"
proof -
  have v: "map_of sample_values '':lo'' = Some (to_json (AV_N ''1''))" "map_of sample_values '':hi'' = Some (to_json (AV_N ''10''))"
    by (simp_all add: sample_values_def)
  from between_is_two_comparisons[OF sample_operands v, of sample_ddb "[]" sample_item] show ?thesis by simp
qed

theorem comparison_orders_numbers_witness:
  "match_filter sample_ddb ''n < :hi'' [] sample_values sample_item = Inr True"
proof -
  have v: "map_of sample_values '':hi'' = Some (to_json (AV_N ''10''))"
    "map_of sample_item (resolve_attribute_name ''n'' []) = Some (to_json (AV_N ''2''))"
    by (simp_all add: sample_values_def sample_item_def resolve_attribute_name_def)
  have p: "parse ''2'' = Some \<lparr>negative = False, coeff = ''2'', scale = 0\<rparr>"
    "parse ''10'' = Some \<lparr>negative = False, coeff = ''10'', scale = 0\<rparr>"
    and d: "from_digits ''2'' = 2" "from_digits ''10'' = 10" by code_simp+
  have "number_value ''2'' < number_value ''10''"
    by (simp add: number_value_def p decimal_value_def with_sign_def d)
  then show ?thesis
    using comparison_orders_numbers(1)[OF sample_operands(1,3) v, of sample_ddb] by (simp add: is_valid_number_def p)
qed

end
