(* ===== verification/Dynamo_Update.thy ===== *)
theory Dynamo_Update
  imports Dynamo_Expression
begin

text \<open>
  \<open>services/dynamodb/src/update_expression.rs\<close>: the clauses \<open>SET\<close>, \<open>REMOVE\<close>, \<open>ADD\<close> and \<open>DELETE\<close> of an update
  expression, applied to an item. Clause positions are found in the upper-cased text and used as
  byte offsets into the original, so a slice can miss a character boundary or the end of the text and
  panic: the value \<open>None\<close> of the functions below. The item is the callers' working copy, which they
  drop on an error; the functions return it only when they succeed.
\<close>

section \<open>Set helpers\<close>

definition set_strings :: "json \<Rightarrow> string \<Rightarrow> string list option" where
  "set_strings v key = Option.bind (member_array v key) string_entries"

fun union_from :: "string set \<Rightarrow> string list \<Rightarrow> string list" where
  "union_from seen [] = []"
| "union_from seen (v # vs) = (if v \<in> seen then union_from seen vs else v # union_from (insert v seen) vs)"

definition union_strings :: "string list \<Rightarrow> string list \<Rightarrow> string list" where
  "union_strings left right = union_from {} (left @ right)"

definition subtract_strings :: "string list \<Rightarrow> string list \<Rightarrow> string list" where
  "subtract_strings left right = filter (\<lambda>v. v \<notin> set right) left"

definition set_types :: "string list" where
  "set_types = [''SS'', ''NS'', ''BS'']"

definition string_set :: "string \<Rightarrow> string list \<Rightarrow> json" where
  "string_set set_type ss = Object [(set_type, Array (map String ss))]"

section \<open>Operations on values\<close>

definition add_attribute_value :: "json option \<Rightarrow> json \<Rightarrow> json result" where
  "add_attribute_value current increment =
     (case member_str increment ''N'' of
        Some number \<Rightarrow>
          (case current of
             None \<Rightarrow> Inr increment
           | Some c \<Rightarrow>
               bind_res (or_else (member_str c ''N'') ''ADD number requires existing number attribute'')
                 (\<lambda>current_number. bind_res (add_number_strings current_number number)
                    (\<lambda>sum. Inr (Object [(''N'', String sum)]))))
      | None \<Rightarrow>
          (case find (\<lambda>t. set_strings increment t \<noteq> None) set_types of
             None \<Rightarrow> Inl ''ADD supports N, SS, NS, and BS values''
           | Some t \<Rightarrow>
               (case current of
                  None \<Rightarrow> Inr increment
                | Some c \<Rightarrow>
                    bind_res (or_else (set_strings c t) (''ADD '' @ t @ '' requires existing '' @ t @ '' attribute''))
                      (\<lambda>current_values. Inr (string_set t (union_strings current_values (the (set_strings increment t))))))))"

definition negate_number_attribute :: "json \<Rightarrow> json result" where
  "negate_number_attribute v =
     bind_res (or_else (member_str v ''N'') ''subtraction requires number attributes'')
       (\<lambda>number. bind_res (negate_number_string number) (\<lambda>negated. Inr (Object [(''N'', String negated)])))"

definition delete_attribute_value :: "json option \<Rightarrow> json \<Rightarrow> (json option \<times> bool) result" where
  "delete_attribute_value current decrement =
     (case find (\<lambda>t. set_strings decrement t \<noteq> None) set_types of
        None \<Rightarrow> Inl ''DELETE supports SS, NS, and BS values''
      | Some t \<Rightarrow>
          (let values_to_delete = the (set_strings decrement t) in
           if values_to_delete = [] then Inl ''DELETE set value must not be empty''
           else case current of
             None \<Rightarrow> Inr (None, False)
           | Some c \<Rightarrow>
               bind_res (or_else (set_strings c t) (''DELETE '' @ t @ '' requires existing '' @ t @ '' attribute''))
                 (\<lambda>current_values.
                    let remaining = subtract_strings current_values values_to_delete in
                    if remaining = [] then Inr (None, True)
                    else Inr (Some (string_set t remaining), False))))"

definition append_list_attribute_values :: "json \<Rightarrow> json \<Rightarrow> json result" where
  "append_list_attribute_values left right =
     (case (member_array left ''L'', member_array right ''L'') of
        (Some l, Some r) \<Rightarrow> Inr (Object [(''L'', Array (l @ r))])
      | _ \<Rightarrow> Inl ''list_append requires list attributes'')"

section \<open>Tokenizers\<close>

fun split_arith :: "nat \<Rightarrow> string \<Rightarrow> string \<Rightarrow> (string \<times> char \<times> string) option" where
  "split_arith depth pre [] = None"
| "split_arith depth pre (c # s) =
     (if c = CHR ''('' then split_arith (Suc depth) (pre @ [c]) s
      else if c = CHR '')'' then split_arith (depth - 1) (pre @ [c]) s
      else if (c = CHR ''+'' \<or> c = CHR ''-'') \<and> depth = 0 then Some (trim pre, c, trim s)
      else split_arith depth (pre @ [c]) s)"

definition split_arithmetic_update_expression :: "string \<Rightarrow> (string \<times> char \<times> string) option" where
  "split_arithmetic_update_expression expression = split_arith 0 [] expression"

definition is_update_clause_boundary :: "string \<Rightarrow> nat \<Rightarrow> nat \<Rightarrow> bool" where
  "is_update_clause_boundary expression index keyword_len \<longleftrightarrow>
     (index = 0 \<or> expression ! (index - 1) = CHR '' '')
     \<and> index + keyword_len < length expression \<and> expression ! (index + keyword_len) = CHR '' ''"

text \<open>The positions of a keyword, a word that is not empty, found from an offset on.\<close>

function keyword_starts :: "string \<Rightarrow> string \<Rightarrow> nat \<Rightarrow> (string \<times> nat) list" where
  "keyword_starts upper keyword offset =
     (case find_sub (drop offset upper) keyword of
        None \<Rightarrow> []
      | Some rel \<Rightarrow>
          if keyword = [] then []
          else (if is_update_clause_boundary upper (offset + rel) (length keyword) then [(keyword, offset + rel)] else [])
            @ keyword_starts upper keyword (offset + rel + length keyword))"
  by pat_completeness auto

lemma find_sub_bound: "find_sub s p = Some i \<Longrightarrow> i + length p \<le> length s"
proof (induction s arbitrary: i)
  case (Cons c s)
  then show ?case by (auto simp: starts_with_iff split: if_splits dest: arg_cong[of _ _ length])
qed (simp split: if_splits)

termination keyword_starts
proof (relation "measure (\<lambda>(upper, keyword, offset). length upper - offset)", goal_cases)
  case (2 upper keyword offset rel)
  then show ?case using find_sub_bound[of "drop offset upper" keyword rel] by (cases keyword) auto
qed simp

declare keyword_starts.simps [simp del]

definition is_char_boundary :: "string \<Rightarrow> nat \<Rightarrow> bool" where
  "is_char_boundary s i \<longleftrightarrow> i = 0 \<or> i = length s \<or> i < length s \<and> \<not> continuation (s ! i)"

definition str_slice :: "string \<Rightarrow> nat \<Rightarrow> nat \<Rightarrow> string option" where
  "str_slice s a b =
     (if a \<le> b \<and> is_char_boundary s a \<and> is_char_boundary s b then Some (take (b - a) (drop a s)) else None)"

fun build_clauses :: "string \<Rightarrow> (string \<times> nat) list \<Rightarrow> (string \<times> string) list result option" where
  "build_clauses expression [] = Some (Inr [])"
| "build_clauses expression ((keyword, index) # starts) =
     (let next = (case starts of [] \<Rightarrow> length expression | (_, i) # _ \<Rightarrow> i) in
      case str_slice expression (index + length keyword) next of
        None \<Rightarrow> None
      | Some raw \<Rightarrow>
          if trim raw = [] then Some (Inl (keyword @ '' update expression clause is empty''))
          else map_option (\<lambda>r. bind_res r (\<lambda>clauses. Inr ((keyword, trim raw) # clauses))) (build_clauses expression starts))"

definition update_keywords :: "string list" where
  "update_keywords = [''SET'', ''REMOVE'', ''ADD'', ''DELETE'']"

definition split_update_clauses :: "ddb_crates \<Rightarrow> string \<Rightarrow> (string \<times> string) list result option" where
  "split_update_clauses X expression =
     (let upper = to_uppercase X expression;
          starts = concat (map (\<lambda>keyword. keyword_starts upper keyword 0) update_keywords) in
      if starts = [] then Some (Inl ''update expression must include SET, REMOVE, ADD, or DELETE'')
      else build_clauses expression (sort_key snd starts))"

section \<open>Values of a SET assignment\<close>

lemma split_arith_length:
  "split_arith depth pre s = Some (l, c, r) \<Longrightarrow> length l < length pre + length s \<and> length r < length pre + length s"
proof (induction depth pre s rule: split_arith.induct)
  case (2 depth pre c s)
  then show ?case using length_trim[of pre] length_trim[of s] by (auto split: if_splits)
qed simp

lemma split_arithmetic_length:
  "split_arithmetic_update_expression e = Some (l, c, r) \<Longrightarrow> length l < length e \<and> length r < length e"
  using split_arith_length[of 0 "[]" e] by (simp add: split_arithmetic_update_expression_def)

lemma split_commas_length: "p \<in> set (split_commas depth cur s) \<Longrightarrow> length p \<le> length cur + length s"
proof (induction depth cur s rule: split_commas.induct)
  case (1 depth cur)
  then show ?case using length_trim[of cur] by simp
next
  case (2 depth cur c s)
  then show ?case using length_trim[of cur] by (fastforce split: if_splits)
qed

lemma call_argument_length:
  assumes "parse_function_call e name = Some body" "split_comma_separated body = [p, q]"
  shows "length (trim p) < length e" "length (trim q) < length e"
proof -
  have "length p \<le> length body" "length q \<le> length body"
    using split_commas_length[of _ 0 "[]" body] assms(2) by (auto simp: split_comma_separated_def)
  moreover have "length body < length e" using assms(1) by (auto simp: parse_function_call_def Let_def starts_with_iff split: if_splits)
  ultimately show "length (trim p) < length e" "length (trim q) < length e"
    using length_trim[of p] length_trim[of q] by linarith+
qed

definition lookup_update_value :: "item \<Rightarrow> string \<Rightarrow> names \<Rightarrow> attribute_values \<Rightarrow> json result" where
  "lookup_update_value target expression nms vals =
     (case map_of vals expression of
        Some v \<Rightarrow> Inr v
      | None \<Rightarrow> or_else (map_of target (resolve_attribute_name expression nms)) (missing_value expression))"

function evaluate_update_value :: "item \<Rightarrow> string \<Rightarrow> names \<Rightarrow> attribute_values \<Rightarrow> json result" where
  "evaluate_update_value target expression nms vals =
     (case split_arithmetic_update_expression expression of
        Some (left, operator, right) \<Rightarrow>
          bind_res (evaluate_update_value target left nms vals) (\<lambda>left_value.
          bind_res (evaluate_update_value target right nms vals) (\<lambda>right_value.
          bind_res (if operator = CHR ''-'' then negate_number_attribute right_value else Inr right_value)
            (\<lambda>addend. add_attribute_value (Some left_value) addend)))
      | None \<Rightarrow>
     (case parse_function_call expression ''if_not_exists'' of
        Some body \<Rightarrow>
          (case split_comma_separated body of
             [arg0, arg1] \<Rightarrow>
               (case map_of target (resolve_attribute_name (trim arg0) nms) of
                  Some current \<Rightarrow> Inr current
                | None \<Rightarrow> evaluate_update_value target (trim arg1) nms vals)
           | _ \<Rightarrow> Inl ''invalid if_not_exists expression'')
      | None \<Rightarrow>
     (case parse_function_call expression ''list_append'' of
        Some body \<Rightarrow>
          (case split_comma_separated body of
             [arg0, arg1] \<Rightarrow>
               bind_res (evaluate_update_value target (trim arg0) nms vals) (\<lambda>left_value.
               bind_res (evaluate_update_value target (trim arg1) nms vals) (\<lambda>right_value.
                 append_list_attribute_values left_value right_value))
           | _ \<Rightarrow> Inl ''invalid list_append expression'')
      | None \<Rightarrow> lookup_update_value target expression nms vals)))"
  by pat_completeness auto
termination
proof (relation "measure (\<lambda>(target, e, _). length e)", goal_cases)
  case 1
  then show ?case by simp
qed (auto dest: split_arithmetic_length call_argument_length)

declare evaluate_update_value.simps [simp del]

section \<open>Clauses\<close>

fun apply_set :: "names \<Rightarrow> attribute_values \<Rightarrow> string list \<Rightarrow> item \<Rightarrow> item result" where
  "apply_set nms vals [] target = Inr target"
| "apply_set nms vals (assignment # assignments) target =
     (case cut (trim assignment) ''='' of
        None \<Rightarrow> Inl ''invalid SET assignment''
      | Some (name_token, value_token) \<Rightarrow>
          bind_res (evaluate_update_value target (trim value_token) nms vals)
            (\<lambda>v. apply_set nms vals assignments (bt_insert (resolve_attribute_name (trim name_token) nms) v target)))"

fun apply_remove :: "names \<Rightarrow> string list \<Rightarrow> item \<Rightarrow> item result" where
  "apply_remove nms [] target = Inr target"
| "apply_remove nms (removal # removals) target =
     (let attr = resolve_attribute_name (trim removal) nms in
      if attr = [] then Inl ''invalid REMOVE path'' else apply_remove nms removals (bt_remove attr target))"

definition two_words :: "string \<Rightarrow> string \<Rightarrow> names \<Rightarrow> attribute_values \<Rightarrow> (string \<times> json) result" where
  "two_words clause text nms vals =
     (case split_whitespace text of
        [name_token, value_token] \<Rightarrow>
          (let attr = resolve_attribute_name name_token nms in
           if attr = [] then Inl (''invalid '' @ clause @ '' path'')
           else bind_res (value_of vals value_token) (\<lambda>v. Inr (attr, v)))
      | _ \<Rightarrow> Inl (''invalid '' @ clause @ '' assignment''))"

fun apply_add :: "names \<Rightarrow> attribute_values \<Rightarrow> string list \<Rightarrow> item \<Rightarrow> item result" where
  "apply_add nms vals [] target = Inr target"
| "apply_add nms vals (addition # additions) target =
     bind_res (two_words ''ADD'' addition nms vals) (\<lambda>(attr, v).
     bind_res (add_attribute_value (map_of target attr) v)
       (\<lambda>updated. apply_add nms vals additions (bt_insert attr updated target)))"

fun apply_delete :: "names \<Rightarrow> attribute_values \<Rightarrow> string list \<Rightarrow> item \<Rightarrow> item result" where
  "apply_delete nms vals [] target = Inr target"
| "apply_delete nms vals (deletion # deletions) target =
     bind_res (two_words ''DELETE'' deletion nms vals) (\<lambda>(attr, v).
     bind_res (delete_attribute_value (map_of target attr) v)
       (\<lambda>(updated, remove). apply_delete nms vals deletions
          (if remove then bt_remove attr target
           else case updated of Some u \<Rightarrow> bt_insert attr u target | None \<Rightarrow> target)))"

definition apply_clause :: "names \<Rightarrow> attribute_values \<Rightarrow> string \<times> string \<Rightarrow> item \<Rightarrow> item result" where
  "apply_clause nms vals clause target =
     (let parts = split_comma_separated (snd clause) in
      if fst clause = ''SET'' then apply_set nms vals parts target
      else if fst clause = ''REMOVE'' then apply_remove nms parts target
      else if fst clause = ''ADD'' then apply_add nms vals parts target
      else if fst clause = ''DELETE'' then apply_delete nms vals parts target
      else Inl (''unsupported update expression clause '' @ fst clause))"

fun apply_clauses :: "names \<Rightarrow> attribute_values \<Rightarrow> (string \<times> string) list \<Rightarrow> item \<Rightarrow> item result" where
  "apply_clauses nms vals [] target = Inr target"
| "apply_clauses nms vals (clause # clauses) target =
     bind_res (apply_clause nms vals clause target) (apply_clauses nms vals clauses)"

definition apply_update_expression ::
  "ddb_crates \<Rightarrow> item \<Rightarrow> string \<Rightarrow> names \<Rightarrow> attribute_values \<Rightarrow> item result option" where
  "apply_update_expression X target expression nms vals =
     (let expression = trim expression in
      if expression = [] then Some (Inl ''update expression is required'')
      else map_option (\<lambda>r. bind_res r (\<lambda>clauses. apply_clauses nms vals clauses target)) (split_update_clauses X expression))"

section \<open>Set arithmetic\<close>

lemma set_union_from: "set (union_from seen vs) = set vs - seen"
  by (induction vs arbitrary: seen) auto

lemma distinct_union_from: "distinct (union_from seen vs)"
  by (induction vs arbitrary: seen) (auto simp: set_union_from)

lemma union_from_distinct: "distinct vs \<Longrightarrow> set vs \<inter> seen = {} \<Longrightarrow> union_from seen (vs @ ws) = vs @ union_from (set vs \<union> seen) ws"
  by (induction vs arbitrary: seen) (auto simp: insert_commute Un_commute)

lemma string_entries_map [simp]: "string_entries (map String ss) = Some ss"
  by (simp add: string_entries_Some)

lemma set_strings_string_set [simp]: "set_strings (string_set t ss) k = (if k = t then Some ss else None)"
  by (simp add: set_strings_def string_set_def)

lemma find_string_set: "t \<in> set set_types \<Longrightarrow> find (\<lambda>k. set_strings (string_set t ss) k \<noteq> None) set_types = Some t"
  by (auto simp: set_types_def)

lemma string_set_no_number: "t \<in> set set_types \<Longrightarrow> member_str (string_set t ss) ''N'' = None"
  by (auto simp: set_types_def string_set_def)

lemma add_sets:
  "t \<in> set set_types \<Longrightarrow> add_attribute_value (Some (string_set t a)) (string_set t b) = Inr (string_set t (union_strings a b))"
  unfolding add_attribute_value_def by (simp only: string_set_no_number find_string_set) (simp add: or_else_def)

lemma delete_sets:
  "t \<in> set set_types \<Longrightarrow> b \<noteq> [] \<Longrightarrow> delete_attribute_value (Some (string_set t a)) (string_set t b) =
     Inr (if subtract_strings a b = [] then (None, True) else (Some (string_set t (subtract_strings a b)), False))"
  unfolding delete_attribute_value_def by (simp only: find_string_set) (simp add: or_else_def Let_def)

text \<open>\<open>ADD\<close> and \<open>DELETE\<close> compute with sets: \<open>ADD\<close> on a set attribute gives the union, without duplicates and
  with the old members first; \<open>DELETE\<close> gives the difference, and removes the attribute exactly when
  nothing is left, so a stored set is never empty.\<close>

theorem add_delete_are_set_operations:
  assumes "t \<in> set set_types" "set_ok a" "set_ok b"
  shows "(\<exists>c. add_attribute_value (Some (string_set t a)) (string_set t b) = Inr (string_set t c)
      \<and> set c = set a \<union> set b \<and> set_ok c \<and> take (length a) c = a) \<and>
    delete_attribute_value (Some (string_set t a)) (string_set t b) =
      (if set a \<subseteq> set b then Inr (None, True)
       else Inr (Some (string_set t (filter (\<lambda>s. s \<notin> set b) a)), False))"
proof (rule conjI)
  have "union_strings a b = a @ union_from (set a) b"
    using assms(2) union_from_distinct[of a "{}" b] by (simp add: union_strings_def set_ok_def)
  moreover have "distinct (union_strings a b)" "set (union_strings a b) = set a \<union> set b"
    by (auto simp: union_strings_def distinct_union_from set_union_from)
  ultimately show "\<exists>c. add_attribute_value (Some (string_set t a)) (string_set t b) = Inr (string_set t c)
      \<and> set c = set a \<union> set b \<and> set_ok c \<and> take (length a) c = a"
    using assms(2) add_sets[OF assms(1)] by (intro exI[of _ "union_strings a b"]) (auto simp: set_ok_def)
  show "delete_attribute_value (Some (string_set t a)) (string_set t b) =
      (if set a \<subseteq> set b then Inr (None, True)
       else Inr (Some (string_set t (filter (\<lambda>s. s \<notin> set b) a)), False))"
    using assms(3) delete_sets[OF assms(1)] by (auto simp: set_ok_def subtract_strings_def filter_empty_conv)
qed

section \<open>Clauses of an update expression\<close>

definition occurs :: "string \<Rightarrow> string \<Rightarrow> nat \<Rightarrow> bool" where
  "occurs u kw i \<longleftrightarrow> starts_with (drop i u) kw"

definition clause_start :: "string \<Rightarrow> string \<Rightarrow> nat \<Rightarrow> bool" where
  "clause_start u kw i \<longleftrightarrow> occurs u kw i \<and> is_update_clause_boundary u i (length kw)"

text \<open>A keyword none of whose proper ends is also a beginning: its occurrences do not overlap.\<close>

definition border_free :: "string \<Rightarrow> bool" where
  "border_free kw \<longleftrightarrow> kw \<noteq> [] \<and> list_all (\<lambda>k. \<not> starts_with kw (drop k kw)) [1..<length kw]"

lemma find_sub_Some: "find_sub s p = Some i \<Longrightarrow> occurs s p i \<and> (\<forall>j < i. \<not> occurs s p j)"
proof (induction s arbitrary: i)
  case Nil
  then show ?case by (auto simp: occurs_def starts_with_def split: if_splits)
next
  case (Cons c s)
  then show ?case
    by (auto simp: occurs_def less_Suc_eq_0_disj split: if_splits)
qed

lemma find_sub_None: "find_sub s p = None \<Longrightarrow> \<not> occurs s p j"
  using contains_sub_iff[of s p] append_take_drop_id[of j s]
  by (metis contains_sub_def occurs_def starts_with_iff)

lemma no_overlap:
  assumes "border_free kw" "occurs u kw i" "i < j" "j < i + length kw"
  shows "\<not> occurs u kw j"
proof
  assume "occurs u kw j"
  then obtain r q where r: "drop i u = kw @ r" and q: "drop j u = kw @ q"
    using assms(2) by (auto simp: occurs_def starts_with_iff)
  let ?k = "j - i"
  have "drop ?k (drop i u) = drop j u" using assms(3) by simp
  then have "drop ?k kw @ r = kw @ q" unfolding r q using assms(3,4) by simp
  then have "starts_with kw (drop ?k kw)"
    by (metis append_eq_append_conv2 append_eq_conv_conj diff_le_self length_drop starts_with_iff take_all_iff append_take_drop_id)
  moreover have "?k \<in> set [1..<length kw]" using assms(3,4) by auto
  ultimately show False using assms(1) by (auto simp: border_free_def list_all_iff)
qed

lemma occurs_drop: "occurs (drop n u) kw i \<longleftrightarrow> occurs u kw (n + i)"
  by (simp add: occurs_def add.commute)

lemma occurs_bound: "occurs u kw i \<Longrightarrow> kw \<noteq> [] \<Longrightarrow> i < length u"
  by (auto simp: occurs_def starts_with_iff) (metis append_is_Nil_conv drop_all linorder_not_le)

lemma filter_upt_none: "(\<And>i. a \<le> i \<Longrightarrow> i < b \<Longrightarrow> \<not> P i) \<Longrightarrow> a \<le> b \<Longrightarrow> filter P [a..<c] = filter P [b..<c]"
proof (cases "b \<le> c")
  assume none: "\<And>i. a \<le> i \<Longrightarrow> i < b \<Longrightarrow> \<not> P i" "a \<le> b"
  case True
  then have "[a..<c] = [a..<b] @ [b..<c]" using none(2) by (metis le_iff_add upt_add_eq_append)
  moreover have "filter P [a..<b] = []" using none by (auto simp: filter_empty_conv)
  ultimately show ?thesis by simp
qed (auto simp: filter_empty_conv)

lemma keyword_starts_filter:
  "border_free kw \<Longrightarrow> keyword_starts u kw off = map (Pair kw) (filter (clause_start u kw) [off..<length u])"
proof (induction u kw off rule: keyword_starts.induct)
  case (1 u kw off)
  then have ne: "kw \<noteq> []" by (simp add: border_free_def)
  show ?case
  proof (cases "find_sub (drop off u) kw")
    case None
    then have "\<not> clause_start u kw i" if "off \<le> i" for i
      using find_sub_None[OF None, of "i - off"] that by (simp add: occurs_drop clause_start_def)
    then have "filter (clause_start u kw) [off..<length u] = []" by (auto simp: filter_empty_conv)
    then show ?thesis using None by (subst keyword_starts.simps) simp
  next
    case (Some rel)
    define i where "i = off + rel"
    have occ: "occurs u kw i" and before: "\<And>j. off \<le> j \<Longrightarrow> j < i \<Longrightarrow> \<not> clause_start u kw j"
      using find_sub_Some[OF Some] by (auto simp: occurs_drop i_def clause_start_def)
        (metis le_add_diff_inverse less_diff_conv2 add.commute)
    have after: "\<not> clause_start u kw j" if "i < j" "j < i + length kw" for j
      using no_overlap[OF 1(2) occ that] by (simp add: clause_start_def)
    have lt: "i < length u" using occurs_bound[OF occ ne] .
    have "filter (clause_start u kw) [off..<length u] = filter (clause_start u kw) [i..<length u]"
      using before by (intro filter_upt_none) (auto simp: i_def)
    also have "\<dots> = (if clause_start u kw i then [i] else []) @ filter (clause_start u kw) [Suc i..<length u]"
      using lt by (simp add: upt_conv_Cons)
    also have "filter (clause_start u kw) [Suc i..<length u] = filter (clause_start u kw) [i + length kw..<length u]"
      using after ne by (intro filter_upt_none) (auto simp: Suc_le_eq)
    finally have "map (Pair kw) (filter (clause_start u kw) [off..<length u]) =
      (if clause_start u kw i then [(kw, i)] else []) @ keyword_starts u kw (i + length kw)"
      using 1(1)[OF Some ne 1(2)] by (simp add: i_def)
    moreover have "clause_start u kw i = is_update_clause_boundary u i (length kw)" using occ by (simp add: clause_start_def)
    ultimately show ?thesis using Some ne by (subst keyword_starts.simps) (simp add: i_def)
  qed
qed

lemma keywords_border_free: "kw \<in> set update_keywords \<Longrightarrow> border_free kw"
proof -
  have "list_all border_free update_keywords" by code_simp
  then show "kw \<in> set update_keywords \<Longrightarrow> border_free kw" by (simp add: list_all_iff)
qed

text \<open>The words of a text with their positions, the last one apart, which no blank follows.\<close>

fun word_starts :: "nat \<Rightarrow> string list \<Rightarrow> (string \<times> nat) list" where
  "word_starts i [] = []"
| "word_starts i [w] = []"
| "word_starts i (w # v # ws) = (w, i) # word_starts (i + length w + 1) (v # ws)"

lemma word_starts_shift: "word_starts (i + n) ws = map (\<lambda>(w, j). (w, j + n)) (word_starts i ws)"
  by (induction i ws rule: word_starts.induct) (simp_all add: ac_simps)

lemma clause_start_zero:
  assumes "CHR '' '' \<notin> set w" "CHR '' '' \<notin> set kw"
  shows "clause_start (w @ CHR '' '' # e) kw 0 \<longleftrightarrow> kw = w"
proof
  assume "clause_start (w @ CHR '' '' # e) kw 0"
  then have o: "starts_with (w @ CHR '' '' # e) kw" and c: "(w @ CHR '' '' # e) ! length kw = CHR '' ''"
      "length kw < length (w @ CHR '' '' # e)"
    by (auto simp: clause_start_def occurs_def is_update_clause_boundary_def)
  from o obtain r where r: "w @ CHR '' '' # e = kw @ r" unfolding starts_with_iff by blast
  note r = r c[unfolded r]
  from r(2,3) obtain r' where "r = CHR '' '' # r'" by (cases r) (auto simp: nth_append)
  with r(1) first_blank[OF assms] show "kw = w" by blast
qed (simp add: clause_start_def occurs_def is_update_clause_boundary_def)

lemma clause_start_inside:
  assumes "CHR '' '' \<notin> set w" "0 < i" "i \<le> length w"
  shows "\<not> clause_start (w @ CHR '' '' # e) kw i"
proof -
  have "(w @ CHR '' '' # e) ! (i - 1) = w ! (i - 1)" "w ! (i - 1) \<in> set w" using assms(2,3) by (auto simp: nth_append)
  then have "(w @ CHR '' '' # e) ! (i - 1) \<noteq> CHR '' ''" using assms(1) by metis
  then show ?thesis using assms(2) by (auto simp: clause_start_def is_update_clause_boundary_def)
qed

lemma clause_start_later:
  "clause_start (w @ CHR '' '' # e) kw (Suc (length w + k)) \<longleftrightarrow> clause_start e kw k"
proof -
  have "(w @ CHR '' '' # e) ! (length w + k) = CHR '' '' \<longleftrightarrow> k = 0 \<or> e ! (k - 1) = CHR '' ''"
    by (cases k) (auto simp: nth_append)
  then show ?thesis
    by (auto simp: clause_start_def occurs_def is_update_clause_boundary_def nth_append)
qed

lemma clause_start_words:
  "word_list us \<Longrightarrow> kw \<noteq> [] \<Longrightarrow> CHR '' '' \<notin> set kw \<Longrightarrow>
   clause_start (join '' '' us) kw i \<longleftrightarrow> (kw, i) \<in> set (word_starts 0 us)"
proof (induction "'' ''" us arbitrary: i rule: join.induct)
  case 1
  then show ?case by (simp add: clause_start_def occurs_def starts_with_def)
next
  case (2 w)
  then have "CHR '' '' \<notin> set w" using blank_not_visible by (auto simp: list_all_iff)
  then have "w ! k \<noteq> CHR '' ''" if "k < length w" for k using that nth_mem by metis
  then show ?case by (auto simp: clause_start_def is_update_clause_boundary_def)
next
  case (3 w v ws)
  then have b: "CHR '' '' \<notin> set w" using blank_not_visible by (auto simp: list_all_iff)
  consider "i = 0" | "0 < i" "i \<le> length w" | k where "i = Suc (length w + k)"
    by (metis Suc_le_eq gr0I le_iff_add not_less_eq_eq add_Suc)
  then show ?case
  proof cases
    case 1
    then show ?thesis using clause_start_zero[OF b 3(4)] word_starts_shift[of 0 "Suc (length w)" "v # ws"] by auto
  next
    case 2
    then show ?thesis using clause_start_inside[OF b] word_starts_shift[of 0 "Suc (length w)" "v # ws"] by auto
  next
    case (3 k)
    have "(kw, k + Suc (length w)) \<in> set (word_starts (Suc (length w)) (v # ws)) \<longleftrightarrow> (kw, k) \<in> set (word_starts 0 (v # ws))"
      using word_starts_shift[of 0 "Suc (length w)" "v # ws"] by force
    then show ?thesis
      using 3 "3.hyps" "3.prems" clause_start_later[of w "join '' '' (v # ws)" kw k] by (simp add: ac_simps)
  qed
qed

lemma word_starts_sorted: "sorted_wrt (<) (map snd (word_starts i ws)) \<and> (\<forall>x \<in> set (word_starts i ws). i \<le> snd x)"
proof (induction i ws rule: word_starts.induct)
  case (3 i w v ws)
  then show ?case by (auto simp: less_le_trans)
qed simp_all

text \<open>An update as data: clauses, each a keyword and the words of its body.\<close>

definition clause_ok :: "string \<times> string list \<Rightarrow> bool" where
  "clause_ok c \<longleftrightarrow> fst c \<in> set update_keywords \<and> snd c \<noteq> [] \<and> word_list (snd c)
     \<and> list_all (\<lambda>w. to_ascii_uppercase w \<notin> set update_keywords) (snd c)"

definition clause_words :: "(string \<times> string list) list \<Rightarrow> string list" where
  "clause_words cs = concat (map (\<lambda>c. fst c # snd c) cs)"

fun clause_starts :: "nat \<Rightarrow> (string \<times> string list) list \<Rightarrow> (string \<times> nat) list" where
  "clause_starts i [] = []"
| "clause_starts i (c # cs) = (fst c, i) # clause_starts (i + length (join '' '' (fst c # snd c)) + 1) cs"

lemma upper_keyword: "kw \<in> set update_keywords \<Longrightarrow> to_ascii_uppercase kw = kw \<and> kw \<noteq> [] \<and> list_all visible kw"
proof -
  have "list_all (\<lambda>kw. to_ascii_uppercase kw = kw \<and> kw \<noteq> [] \<and> list_all visible kw) update_keywords" by code_simp
  then show "kw \<in> set update_keywords \<Longrightarrow> to_ascii_uppercase kw = kw \<and> kw \<noteq> [] \<and> list_all visible kw"
    by (simp add: list_all_iff)
qed

lemma length_upper [simp]: "length (to_ascii_uppercase w) = length w"
  by (simp add: to_ascii_uppercase_def)

lemma upper_join: "to_ascii_uppercase (join '' '' ws) = join '' '' (map to_ascii_uppercase ws)"
proof -
  have "ascii_upper (CHR '' '') = CHR '' ''" by code_simp
  then show ?thesis by (induction "'' ''" ws rule: join.induct) (simp_all add: to_ascii_uppercase_def)
qed

lemma word_list_upper: "word_list ws \<Longrightarrow> word_list (map to_ascii_uppercase ws)"
  by (auto simp: list_all_iff to_ascii_uppercase_def visible_upper)

lemma clause_words_list: "list_all clause_ok cs \<Longrightarrow> word_list (clause_words cs)"
  using upper_keyword by (induction cs) (auto simp: clause_words_def clause_ok_def)

abbreviation keyword_entries :: "(string \<times> nat) list \<Rightarrow> (string \<times> nat) list" where
  "keyword_entries \<equiv> filter (\<lambda>e. fst e \<in> set update_keywords)"

lemma body_entries:
  "list_all (\<lambda>w. w \<notin> set update_keywords) b \<Longrightarrow> b \<noteq> [] \<Longrightarrow>
   keyword_entries (word_starts i (b @ ws)) = keyword_entries (word_starts (i + length (join '' '' b) + 1) ws)"
proof (induction b arbitrary: i)
  case (Cons w b)
  show ?case
  proof (cases b)
    case Nil
    then show ?thesis using Cons by (cases ws) simp_all
  next
    case (Cons v b')
    with Cons.prems Cons.IH[of "i + length w + 1"] show ?thesis by (simp add: ac_simps)
  qed
qed simp

lemma entries_clauses:
  "list_all clause_ok cs \<Longrightarrow> keyword_entries (word_starts i (map to_ascii_uppercase (clause_words cs))) = clause_starts i cs"
proof (induction cs arbitrary: i)
  case (Cons c cs)
  let ?b = "map to_ascii_uppercase (snd c)" and ?r = "map to_ascii_uppercase (clause_words cs)"
  have c: "fst c \<in> set update_keywords" "snd c \<noteq> []" "list_all (\<lambda>w. w \<notin> set update_keywords) ?b"
    using Cons.prems by (auto simp: clause_ok_def list_all_iff)
  have ws: "map to_ascii_uppercase (clause_words (c # cs)) = fst c # ?b @ ?r"
    using upper_keyword[OF c(1)] by (simp add: clause_words_def)
  obtain x xs where x: "?b @ ?r = x # xs" using c(2) by (cases "?b @ ?r") auto
  have len: "length (join '' '' (fst c # snd c)) = length (fst c) + 1 + length (join '' '' ?b)"
  proof -
    obtain y ys where y: "snd c = y # ys" using c(2) by (cases "snd c") auto
    have "length (join '' '' (fst c # snd c)) = length (fst c) + 1 + length (join '' '' (snd c))" unfolding y by simp
    then show ?thesis using length_upper[of "join '' '' (snd c)"] unfolding upper_join by simp
  qed
  have "keyword_entries (word_starts i (fst c # ?b @ ?r)) = (fst c, i) # keyword_entries (word_starts (i + length (fst c) + 1) (?b @ ?r))"
    unfolding x using c(1) by simp
  also have "\<dots> = (fst c, i) # keyword_entries (word_starts (i + length (join '' '' (fst c # snd c)) + 1) ?r)"
    using body_entries[OF c(3)] c(2) len by (simp add: ac_simps)
  finally show ?case using ws Cons by simp
qed (simp add: clause_words_def)

lemma distinct_concat_map:
  "distinct ks \<Longrightarrow> \<forall>k \<in> set ks. distinct (f k) \<and> (\<forall>x \<in> set (f k). fst x = k) \<Longrightarrow> distinct (concat (map f ks))"
  by (induction ks) fastforce+

lemma starts_sorted:
  assumes "list_all clause_ok cs"
  defines "u \<equiv> to_ascii_uppercase (join '' '' (clause_words cs))"
  shows "sort_key snd (concat (map (\<lambda>kw. keyword_starts u kw 0) update_keywords)) = clause_starts 0 cs"
proof -
  let ?W = "word_starts 0 (map to_ascii_uppercase (clause_words cs))"
  let ?S = "concat (map (\<lambda>kw. keyword_starts u kw 0) update_keywords)"
  have u: "u = join '' '' (map to_ascii_uppercase (clause_words cs))" unfolding u_def by (rule upper_join)
  have start: "clause_start u kw i \<longleftrightarrow> (kw, i) \<in> set ?W" if "kw \<in> set update_keywords" for kw i
    unfolding u using clause_words_list[OF assms(1)] upper_keyword[OF that] blank_not_visible
    by (intro clause_start_words word_list_upper) (auto simp: list_all_iff)
  have mem: "(kw, i) \<in> set (keyword_starts u kw' 0) \<longleftrightarrow> kw = kw' \<and> (kw, i) \<in> set ?W" if "kw' \<in> set update_keywords" for kw kw' i
    unfolding keyword_starts_filter[OF keywords_border_free[OF that]]
    using start[OF that] occurs_bound[of u kw'] upper_keyword[OF that] by (auto simp: clause_start_def)
  have sets: "set ?S = set (keyword_entries ?W)" using mem by fastforce
  have inj: "inj_on snd (set ?W)" and srt: "sorted (map snd ?W)" "distinct (map snd ?W)"
    using word_starts_sorted[of 0 "map to_ascii_uppercase (clause_words cs)"]
    by (simp_all add: strict_sorted_iff distinct_map)
  have "distinct ?S"
  proof (rule distinct_concat_map)
    show "\<forall>kw \<in> set update_keywords. distinct (keyword_starts u kw 0) \<and> (\<forall>x \<in> set (keyword_starts u kw 0). fst x = kw)"
      by (auto simp: keyword_starts_filter keywords_border_free distinct_map inj_on_def)
  qed (simp add: update_keywords_def)
  then have dS: "distinct (map snd ?S)" using inj sets by (auto simp: distinct_map intro: inj_on_subset)
  have "sort_key snd ?S = keyword_entries ?W"
  proof (rule map_sorted_distinct_set_unique[of snd])
    show "inj_on snd (set (sort_key snd ?S) \<union> set (keyword_entries ?W))" using inj sets by (auto intro: inj_on_subset)
    show "distinct (map snd (sort_key snd ?S))" using dS by (simp add: distinct_map)
    show "sorted (map snd (keyword_entries ?W))" using srt(1) by (simp add: sorted_filter)
    show "distinct (map snd (keyword_entries ?W))" using srt(2) by (simp add: distinct_map_filter)
  qed (use sets in simp_all)
  then show ?thesis using entries_clauses[OF assms(1)] by simp
qed

lemma visible_ascii: "visible c \<Longrightarrow> ascii c < 128"
  by (simp add: visible_def)

lemma join_ascii: "word_list ws \<Longrightarrow> is_ascii (join '' '' ws)"
proof (induction "'' ''" ws rule: join.induct)
  case (3 w v ws)
  moreover have "ascii (CHR '' '') < 128" by (simp add: ascii_def)
  ultimately show ?case by (auto simp: is_ascii_def list_all_iff visible_ascii)
qed (auto simp: is_ascii_def list_all_iff visible_ascii)

lemma ascii_boundary: "is_ascii s \<Longrightarrow> i \<le> length s \<Longrightarrow> is_char_boundary s i"
  by (cases "i = length s") (auto simp: is_ascii_def is_char_boundary_def continuation_def list_all_length not_le)

lemma ascii_slice: "is_ascii (a @ b @ c) \<Longrightarrow> str_slice (a @ b @ c) (length a) (length a + length b) = Some b"
  by (simp add: str_slice_def ascii_boundary)

lemma trim_around_left: "trim (CHR '' '' # s @ '' '') = trim (s @ '' '')"
  by (rule trim_blank_left)

lemma trim_right_text:
  assumes "s \<noteq> []" "visible (hd s)" "visible (last s)"
  shows "trim (s @ '' '') = s"
proof -
  have rb: "white_len (map rev white_space) (CHR '' '' # t) = 1" for t
    by (simp add: white_len_def white_space_def starts_with_def)
  have l: "trim_by white_space (s @ '' '') = s @ '' ''"
    using assms white_len_visible[of "hd s" "tl s @ '' ''"] by (subst trim_by.simps) (cases s, auto)
  have "trim_by (map rev white_space) (rev (s @ '' '')) = trim_by (map rev white_space) (rev s)"
    using trim_by_step[of "map rev white_space" "CHR '' '' # rev s"] by (simp add: rb)
  also have "\<dots> = rev s" using assms white_space_ends by (intro trim_by_id) (fastforce simp: hd_rev)
  finally show ?thesis by (simp add: trim_def l)
qed

lemma join_ends:
  assumes "word_list ws" "ws \<noteq> []"
  shows "join '' '' ws \<noteq> []" "visible (hd (join '' '' ws))" "visible (last (join '' '' ws))"
proof -
  have "hd ws \<noteq> [] \<and> list_all visible (hd ws)" "last ws \<noteq> [] \<and> list_all visible (last ws)"
    using assms list_all_hd[of _ ws] list_all_last[of _ ws] by auto
  then show "join '' '' ws \<noteq> []" "visible (hd (join '' '' ws))" "visible (last (join '' '' ws))"
    using assms by (simp_all add: hd_join last_join list_all_hd list_all_last join_eq_Nil)
qed

lemma body_trim:
  assumes "word_list b" "b \<noteq> []"
  shows "trim (CHR '' '' # join '' '' b) = join '' '' b" "trim (CHR '' '' # join '' '' b @ '' '') = join '' '' b"
  using trim_join[OF assms] trim_right_text[OF join_ends[OF assms]] by (simp_all add: trim_blank_left)

lemma clause_words_ne: "clause_words (c # cs) \<noteq> []"
  by (simp add: clause_words_def)

lemma join_clause:
  assumes "snd c \<noteq> []"
  shows "join '' '' (clause_words (c # cs)) = fst c @ CHR '' '' # join '' '' (snd c) @
    (if cs = [] then [] else CHR '' '' # join '' '' (clause_words cs))"
proof -
  obtain y ys where y: "snd c = y # ys" using assms by (cases "snd c") auto
  have "clause_words cs = [] \<longleftrightarrow> cs = []" by (cases cs) (simp_all add: clause_words_def)
  then show ?thesis using y join_append[of "fst c # snd c" "clause_words cs" "'' ''"]
    by (cases "cs = []") (simp_all add: clause_words_def)
qed

lemma build_clauses_words:
  "list_all clause_ok cs \<Longrightarrow> is_ascii p \<Longrightarrow>
   build_clauses (p @ join '' '' (clause_words cs)) (clause_starts (length p) cs) =
     Some (Inr (map (\<lambda>c. (fst c, join '' '' (snd c))) cs))"
proof (induction cs arbitrary: p)
  case (Cons c cs)
  define b where "b = join '' '' (snd c)"
  have c: "snd c \<noteq> []" "word_list (snd c)" using Cons.prems by (auto simp: clause_ok_def)
  let ?e = "p @ join '' '' (clause_words (c # cs))"
  have ascii: "is_ascii ?e"
    using join_ascii[OF clause_words_list[OF Cons.prems(1)]] Cons.prems(2) by (simp add: is_ascii_def)
  have ne: "b \<noteq> []" using join_ends(1)[OF c(2,1)] by (simp add: b_def)
  have len: "length (join '' '' (fst c # snd c)) = length (fst c) + 1 + length b"
    using c(1) unfolding b_def by (cases "snd c") simp_all
  show ?case
  proof (cases cs)
    case Nil
    have e: "?e = (p @ fst c) @ (CHR '' '' # b) @ []" using join_clause[OF c(1), of cs] Nil by (simp add: b_def)
    have "str_slice ?e (length p + length (fst c)) (length ?e) = Some (CHR '' '' # b)"
      using ascii_slice[OF ascii[unfolded e]] unfolding e by (simp add: ac_simps)
    then show ?thesis using Nil body_trim(1)[OF c(2,1)] ne by (simp add: b_def[symmetric] Let_def)
  next
    case (Cons d ds)
    let ?p' = "p @ fst c @ CHR '' '' # b @ '' ''"
    have tail: "?e = ?p' @ join '' '' (clause_words cs)"
      using join_clause[OF c(1), of cs] Cons by (simp add: b_def)
    have e: "?e = (p @ fst c) @ (CHR '' '' # b @ '' '') @ join '' '' (clause_words cs)" using tail by simp
    have sl: "str_slice ?e (length p + length (fst c)) (length p + (length (fst c) + 1 + length b) + 1) = Some (CHR '' '' # b @ '' '')"
      using ascii_slice[OF ascii[unfolded e]] unfolding e by (simp add: ac_simps)
    have "is_ascii ?p'" using ascii unfolding tail by (simp add: is_ascii_def)
    from Cons.IH[OF _ this] Cons.prems(1)
    have ih: "build_clauses ?e (clause_starts (length ?p') cs) = Some (Inr (map (\<lambda>c. (fst c, join '' '' (snd c))) cs))"
      unfolding tail by simp
    have starts: "clause_starts (length p) (c # cs) = (fst c, length p) # clause_starts (length ?p') cs"
      by (simp add: len)
    have nxt: "(case clause_starts (length ?p') cs of [] \<Rightarrow> length ?e | (_, i) # _ \<Rightarrow> i) = length p + (length (fst c) + 1 + length b) + 1"
      by (simp add: Cons)
    show ?thesis unfolding starts build_clauses.simps Let_def nxt sl
      using ih body_trim(2)[OF c(2,1)] ne by (simp add: b_def[symmetric])
  qed
qed simp

lemma split_update_words:
  assumes "list_all clause_ok cs" "cs \<noteq> []"
  shows "split_update_clauses X (join '' '' (clause_words cs)) = Some (Inr (map (\<lambda>c. (fst c, join '' '' (snd c))) cs))"
proof -
  let ?e = "join '' '' (clause_words cs)"
  let ?S = "concat (map (\<lambda>kw. keyword_starts (to_ascii_uppercase ?e) kw 0) update_keywords)"
  have up: "to_uppercase X ?e = to_ascii_uppercase ?e"
    using join_ascii[OF clause_words_list[OF assms(1)]] by (simp add: to_uppercase_def)
  have srt: "sort_key snd ?S = clause_starts 0 cs" by (rule starts_sorted[OF assms(1)])
  have "?S \<noteq> []"
  proof
    assume "?S = []"
    with srt have "clause_starts 0 cs = []" by (simp only: sort_key_simps)
    then show False using assms(2) by (cases cs) simp_all
  qed
  moreover have "build_clauses ?e (clause_starts 0 cs) = Some (Inr (map (\<lambda>c. (fst c, join '' '' (snd c))) cs))"
    using build_clauses_words[OF assms(1), of "[]"] by (simp add: is_ascii_def)
  ultimately show ?thesis unfolding split_update_clauses_def up Let_def srt by simp
qed

lemma update_words:
  assumes "list_all clause_ok cs" "cs \<noteq> []"
  shows "split_update_clauses X (join '' '' (clause_words cs)) = Some (Inr (map (\<lambda>c. (fst c, join '' '' (snd c))) cs))
    \<and> apply_update_expression X target (join '' '' (clause_words cs)) nms vals =
      Some (apply_clauses nms vals (map (\<lambda>c. (fst c, join '' '' (snd c))) cs) target)"
proof -
  have w: "word_list (clause_words cs)" "clause_words cs \<noteq> []"
    using clause_words_list[OF assms(1)] assms(2) by (cases cs, auto simp: clause_words_def)+
  show ?thesis using split_update_words[OF assms] trim_join[OF w] join_ends(1)[OF w]
    by (simp add: apply_update_expression_def Let_def)
qed

text \<open>The text of an update is split back into its clauses: any sequence of \<open>SET\<close>, \<open>REMOVE\<close>, \<open>ADD\<close> and \<open>DELETE\<close>
  clauses, written with blanks between words, none of which is itself a keyword, is recovered clause
  by clause and in order, without a panic, and the clauses are applied one after the other.\<close>

theorem update_text_round_trip:
  assumes "list_all clause_ok cs" "cs \<noteq> []"
  shows "split_update_clauses X (join '' '' (clause_words cs)) = Some (Inr (map (\<lambda>c. (fst c, join '' '' (snd c))) cs))
    \<and> apply_update_expression X target (join '' '' (clause_words cs)) nms vals =
      Some (apply_clauses nms vals (map (\<lambda>c. (fst c, join '' '' (snd c))) cs) target)"
  by (rule update_words[OF assms])

section \<open>Counters\<close>

definition update_operand :: "string \<Rightarrow> bool" where
  "update_operand w \<longleftrightarrow> w \<noteq> [] \<and> list_all (\<lambda>c. visible c \<and> c \<notin> set ''(),=+-'') w \<and> to_ascii_uppercase w \<notin> set update_keywords"

lemma update_operand_word: "update_operand w \<Longrightarrow> w \<noteq> [] \<and> list_all visible w"
  by (auto simp: update_operand_def list_all_iff)

lemma update_operand_chars: "update_operand w \<Longrightarrow> c \<in> set ''(),=+-'' \<Longrightarrow> c \<notin> set w"
  by (auto simp: update_operand_def list_all_iff)

lemma split_commas_plain: "set s \<inter> set ''(),'' = {} \<Longrightarrow> split_commas d cur s = [trim (cur @ s)]"
  by (induction s arbitrary: cur) auto

lemma split_arith_plain: "set s \<inter> set ''()+-'' = {} \<Longrightarrow> split_arith d pre s = None"
  by (induction s arbitrary: pre) auto

lemma split_arith_at:
  "set l \<inter> set ''()+-'' = {} \<Longrightarrow> c \<in> set ''+-'' \<Longrightarrow> split_arith 0 pre (l @ c # r) = Some (trim (pre @ l), c, trim r)"
  by (induction l arbitrary: pre) auto

lemma evaluate_operand:
  assumes "update_operand w"
  shows "evaluate_update_value target w nms vals = lookup_update_value target w nms vals"
proof -
  have "split_arithmetic_update_expression w = None"
    unfolding split_arithmetic_update_expression_def
    using update_operand_chars[OF assms] by (intro split_arith_plain) auto
  moreover have "parse_function_call w n = None" for n using update_operand_chars[OF assms] by (intro no_call) auto
  ultimately show ?thesis by (subst evaluate_update_value.simps) simp
qed

lemma evaluate_sum:
  assumes "update_operand a" "update_operand v" "lookup_update_value target a nms vals = Inr x"
    "lookup_update_value target v nms vals = Inr y"
  shows "evaluate_update_value target (join '' '' [a, ''+'', v]) nms vals = add_attribute_value (Some x) y"
proof -
  note wa = update_operand_word[OF assms(1)] and wv = update_operand_word[OF assms(2)]
  have e: "join '' '' [a, ''+'', v] = (a @ '' '') @ CHR ''+'' # CHR '' '' # v" by simp
  have "split_arithmetic_update_expression (join '' '' [a, ''+'', v]) = Some (trim (a @ '' ''), CHR ''+'', trim (CHR '' '' # v))"
    unfolding e split_arithmetic_update_expression_def
    using update_operand_chars[OF assms(1)] split_arith_at[of "a @ '' ''" "CHR ''+''" "[]"] by auto
  then have "split_arithmetic_update_expression (join '' '' [a, ''+'', v]) = Some (a, CHR ''+'', v)"
    using wa wv trim_blank_right[of a] trim_word[of v] by (simp add: trim_blank_left)
  then show ?thesis
    by (subst evaluate_update_value.simps)
      (simp add: evaluate_operand[OF assms(1)] evaluate_operand[OF assms(2)] assms(3,4) del: join.simps)
qed

lemma apply_set_sum:
  assumes "update_operand a" "update_operand v" "lookup_update_value target a nms vals = Inr x"
    "lookup_update_value target v nms vals = Inr y"
  shows "apply_clause nms vals (''SET'', join '' '' [a, ''='', a, ''+'', v]) target =
    bind_res (add_attribute_value (Some x) y) (\<lambda>s. Inr (bt_insert (resolve_attribute_name a nms) s target))"
proof -
  note wa = update_operand_word[OF assms(1)] and wv = update_operand_word[OF assms(2)]
  have ws: "word_list [a, ''='', a, ''+'', v]" "word_list [a, ''+'', v]" using wa wv by (simp_all add: visible_def ascii_def)
  let ?e = "join '' '' [a, ''='', a, ''+'', v]"
  have tr: "trim ?e = ?e" "trim (join '' '' [a, ''+'', v]) = join '' '' [a, ''+'', v]"
    using trim_join[OF ws(1)] trim_join[OF ws(2)] by simp_all
  have "split_comma_separated ?e = [?e]"
    unfolding split_comma_separated_def
    using update_operand_chars[OF assms(1)] update_operand_chars[OF assms(2)] tr(1) by (subst split_commas_plain) auto
  moreover have "cut ?e ''='' = Some (a @ '' '', CHR '' '' # join '' '' [a, ''+'', v])"
  proof -
    have "find_sub ((a @ '' '') @ ''='' @ CHR '' '' # join '' '' [a, ''+'', v]) ''='' = Some (length (a @ '' ''))"
      using update_operand_chars[OF assms(1), of "CHR ''=''"] by (intro find_sub_first) auto
    then show ?thesis by (simp add: cut_def)
  qed
  ultimately show ?thesis
    using evaluate_sum[OF assms] tr wa trim_blank_right[of a]
    by (simp add: apply_clause_def Let_def trim_blank_left del: join.simps)
qed

text \<open>Counters are exact: \<open>SET a = a + :v\<close> on a number attribute, both numbers written without an exponent,
  replaces the attribute by a valid number that is exactly the sum, and changes no other attribute.\<close>

theorem increment_is_exact:
  assumes "update_operand a" "update_operand v" "map_of vals a = None" "map_of vals v = Some (to_json (AV_N y))"
    "map_of target (resolve_attribute_name a nms) = Some (to_json (AV_N x))"
    "is_valid_number x" "is_valid_number y" "plain_number x" "plain_number y"
  shows "\<exists>t. apply_update_expression X target (join '' '' [''SET'', a, ''='', a, ''+'', v]) nms vals =
      Some (Inr (bt_insert (resolve_attribute_name a nms) (to_json (AV_N t)) target))
    \<and> is_valid_number t \<and> number_value t = number_value x + number_value y"
proof -
  let ?c = "(''SET'', [a, ''='', a, ''+'', v])"
  note wa = update_operand_word[OF assms(1)] and wv = update_operand_word[OF assms(2)]
  have kw: "to_ascii_uppercase ''='' \<notin> set update_keywords" "to_ascii_uppercase ''+'' \<notin> set update_keywords"
    by code_simp+
  have "list_all clause_ok [?c]"
    using wa wv assms(1,2) kw by (simp add: clause_ok_def update_operand_def update_keywords_def visible_def ascii_def)
  from update_words[OF this] have app: "apply_update_expression X target (join '' '' (clause_words [?c])) nms vals =
      Some (apply_clause nms vals (''SET'', join '' '' [a, ''='', a, ''+'', v]) target)"
    by (cases "apply_clause nms vals (''SET'', join '' '' [a, ''='', a, ''+'', v]) target") (simp_all del: join.simps)
  obtain dx dy where d: "parse x = Some dx" "parse y = Some dy" using assms(6,7) by (auto simp: is_valid_number_def)
  obtain t c where t: "add_number_strings x y = Inr t" "parse t = Some c" "decimal_value c = decimal_value dx + decimal_value dy"
    using add_number_strings_value[OF d assms(8,9)] by blast
  have "add_attribute_value (Some (to_json (AV_N x))) (to_json (AV_N y)) = Inr (to_json (AV_N t))"
    by (simp add: add_attribute_value_def or_else_def t(1))
  moreover have "lookup_update_value target a nms vals = Inr (to_json (AV_N x))"
    "lookup_update_value target v nms vals = Inr (to_json (AV_N y))"
    using assms(3-5) by (simp_all add: lookup_update_value_def or_else_def)
  ultimately have "apply_clause nms vals (''SET'', join '' '' [a, ''='', a, ''+'', v]) target =
      Inr (bt_insert (resolve_attribute_name a nms) (to_json (AV_N t)) target)"
    using apply_set_sum[OF assms(1,2)] by (simp del: join.simps to_json.simps)
  then show ?thesis using app t d
    by (intro exI[of _ t]) (simp add: clause_words_def is_valid_number_def number_value_def del: to_json.simps)
qed

section \<open>Where updates go wrong\<close>

text \<open>Subtraction associates to the right: \<open>a - :x - :y\<close> is computed as \<open>a - (:x - :y)\<close>, so \<open>10 - 3 - 2\<close> gives 9.\<close>

theorem subtraction_associates_right:
  "apply_update_expression sample_ddb [(''a'', to_json (AV_N ''10''))] ''SET a = a - :x - :y'' []
     [('':x'', to_json (AV_N ''3'')), ('':y'', to_json (AV_N ''2''))] = Some (Inr [(''a'', to_json (AV_N ''9''))])"
  by code_simp

text \<open>The upper case of text whose only characters outside ASCII are U+0131 (dotless i, to \<open>I\<close>), U+0149 (to
  U+02BC and \<open>N\<close>) and U+00E9 (to U+00C9), as the Unicode tables have it.\<close>

fun upper_text :: "string \<Rightarrow> string" where
  "upper_text (c # d # s) =
     (if c = CHR 0xC4 \<and> d = CHR 0xB1 then CHR ''I'' # upper_text s
      else if c = CHR 0xC5 \<and> d = CHR 0x89 then [CHR 0xCA, CHR 0xBC, CHR ''N''] @ upper_text s
      else if c = CHR 0xC3 \<and> d = CHR 0xA9 then [CHR 0xC3, CHR 0x89] @ upper_text s
      else ascii_upper c # upper_text (d # s))"
| "upper_text s = map ascii_upper s"

definition unicode_ddb :: ddb_crates where
  "unicode_ddb = sample_ddb\<lparr>unicode_upper := upper_text\<rparr>"

definition dotless_i :: string where
  "dotless_i = [CHR 0xC4, CHR 0xB1]"

definition n_apostrophe :: string where
  "n_apostrophe = [CHR 0xC5, CHR 0x89]"

definition e_acute :: string where
  "e_acute = [CHR 0xC3, CHR 0xA9]"

text \<open>Offsets of the upper-cased text do not fit the original when upper-casing changes its length: with a
  dotless i in the first clause, \<open>REMOVE x\<close> is accepted and removes nothing, and with two U+0149 a
  removal of an attribute that starts with an accented letter panics while the server's lock is held.\<close>

theorem uppercase_offsets_misplaced:
  "apply_update_expression unicode_ddb [(''x'', to_json (AV_BOOL True))] (''SET '' @ dotless_i @ '' = :v REMOVE x'') []
     [('':v'', to_json (AV_BOOL True))] = Some (Inr [(''x'', to_json (AV_BOOL True)), (dotless_i, to_json (AV_BOOL True))])
   \<and> apply_update_expression unicode_ddb [] (''SET '' @ n_apostrophe @ n_apostrophe @ '' = :v REMOVE '' @ e_acute) []
       [('':v'', to_json (AV_BOOL True))] = None"
  by code_simp

section \<open>Samples\<close>

theorem add_delete_are_set_operations_witness:
  "(\<exists>c. add_attribute_value (Some (string_set ''SS'' [''a'', ''b''])) (string_set ''SS'' [''b'', ''c'']) = Inr (string_set ''SS'' c)
      \<and> set c = {''a'', ''b'', ''c''})
   \<and> delete_attribute_value (Some (string_set ''SS'' [''a'', ''b''])) (string_set ''SS'' [''b'', ''c'']) =
      Inr (Some (string_set ''SS'' [''a'']), False)"
proof -
  have h: "''SS'' \<in> set set_types" "set_ok [''a'', ''b'']" "set_ok [''b'', ''c'']"
    by (simp_all add: set_types_def set_ok_def)
  show ?thesis using add_delete_are_set_operations[OF h] by (auto simp: insert_commute)
qed

theorem update_text_round_trip_witness:
  "split_update_clauses sample_ddb ''SET a = :v REMOVE b, c ADD n :one'' =
     Some (Inr [(''SET'', ''a = :v''), (''REMOVE'', ''b, c''), (''ADD'', ''n :one'')])"
proof -
  let ?cs = "[(''SET'', [''a'', ''='', '':v'']), (''REMOVE'', [''b,'', ''c'']), (''ADD'', [''n'', '':one''])]"
  have "list_all clause_ok ?cs" "?cs \<noteq> []" by (code_simp, simp)
  from update_text_round_trip[OF this, of sample_ddb "[]" "[]" "[]"] show ?thesis by (simp add: clause_words_def)
qed

theorem increment_is_exact_witness:
  "\<exists>t. apply_update_expression sample_ddb sample_item ''SET n = n + :hi'' [] sample_values =
     Some (Inr (bt_insert ''n'' (to_json (AV_N t)) sample_item)) \<and> number_value t = 12"
proof -
  have ops: "update_operand ''n''" "update_operand '':hi''" by code_simp+
  have v: "map_of sample_values ''n'' = None" "map_of sample_values '':hi'' = Some (to_json (AV_N ''10''))"
    "map_of sample_item (resolve_attribute_name ''n'' []) = Some (to_json (AV_N ''2''))"
    by (simp_all add: sample_values_def sample_item_def resolve_attribute_name_def)
  have p: "parse ''2'' = Some \<lparr>negative = False, coeff = ''2'', scale = 0\<rparr>"
    "parse ''10'' = Some \<lparr>negative = False, coeff = ''10'', scale = 0\<rparr>"
    and d: "from_digits ''2'' = 2" "from_digits ''10'' = 10" by code_simp+
  have num: "number_value ''2'' = 2" "number_value ''10'' = 10"
    by (simp_all add: number_value_def p decimal_value_def with_sign_def d)
  have "resolve_attribute_name ''n'' [] = ''n''" by (simp add: resolve_attribute_name_def starts_with_def)
  then show ?thesis using increment_is_exact[OF ops v, of sample_ddb]
    by (auto simp: is_valid_number_def p plain_number_def num)
qed

end
