(* ===== verification/Dynamo_Query.thy ===== *)
theory Dynamo_Query
  imports Dynamo_Update "HOL-Library.Multiset"
begin

text \<open>
  \<open>services/dynamodb/src/query.rs\<close>: sorting the items of a table by a key schema, collecting a page of
  matches from an exclusive start key, and the \<open>Select\<close> parameter. The matcher is an argument, as in
  the source; a response is the JSON object that the source builds.
\<close>

section \<open>Sorting\<close>

record keyed_item =
  ki_key :: string
  ki_value :: item

text \<open>\<open>sort_by\<close> is a stable sort by a comparator.\<close>

fun insert_by :: "('a \<Rightarrow> 'a \<Rightarrow> ordering) \<Rightarrow> 'a \<Rightarrow> 'a list \<Rightarrow> 'a list" where
  "insert_by c x [] = [x]"
| "insert_by c x (y # ys) = (if c x y = Greater then y # insert_by c x ys else x # y # ys)"

definition sort_by :: "('a \<Rightarrow> 'a \<Rightarrow> ordering) \<Rightarrow> 'a list \<Rightarrow> 'a list" where
  "sort_by c xs = foldr (insert_by c) xs []"

definition query_key_schema :: "table_description \<Rightarrow> string \<Rightarrow> key_schema_element list" where
  "query_key_schema d index_name =
     (if index_name = [] then key_schema d
      else case find (\<lambda>i. gsi_index_name i = index_name) (global_secondary_indexes d) of
        Some i \<Rightarrow> gsi_key_schema i
      | None \<Rightarrow>
          (case find (\<lambda>i. lsi_index_name i = index_name) (local_secondary_indexes d) of
             Some i \<Rightarrow> lsi_key_schema i
           | None \<Rightarrow> key_schema d))"

definition compare_optional_values :: "ddb_crates \<Rightarrow> json option \<Rightarrow> json option \<Rightarrow> ordering" where
  "compare_optional_values X left right =
     (case (left, right) of
        (None, None) \<Rightarrow> Equal
      | (None, Some _) \<Rightarrow> Less
      | (Some _, None) \<Rightarrow> Greater
      | (Some l, Some r) \<Rightarrow> compare_attribute_values X l r)"

fun compare_items_by_schema :: "ddb_crates \<Rightarrow> item \<Rightarrow> item \<Rightarrow> key_schema_element list \<Rightarrow> ordering" where
  "compare_items_by_schema X left right [] = Equal"
| "compare_items_by_schema X left right (element # schema) =
     (let ord = compare_optional_values X (map_of left (attribute_name element)) (map_of right (attribute_name element)) in
      if ord \<noteq> Equal then ord else compare_items_by_schema X left right schema)"

definition compare_keyed :: "ddb_crates \<Rightarrow> key_schema_element list \<Rightarrow> keyed_item \<Rightarrow> keyed_item \<Rightarrow> ordering" where
  "compare_keyed X schema a b =
     (case compare_items_by_schema X (ki_value a) (ki_value b) schema of
        Equal \<Rightarrow> cmp (ki_key a) (ki_key b)
      | ord \<Rightarrow> ord)"

definition sorted_items_for_query ::
  "ddb_crates \<Rightarrow> (string, item) bmap \<Rightarrow> table_description \<Rightarrow> string \<Rightarrow> keyed_item list" where
  "sorted_items_for_query X items d index_name =
     sort_by (compare_keyed X (query_key_schema d index_name)) (map (\<lambda>(k, v). \<lparr>ki_key = k, ki_value = v\<rparr>) items)"

definition item_has_all_keys :: "item \<Rightarrow> key_schema_element list \<Rightarrow> bool" where
  "item_has_all_keys v schema = list_all (\<lambda>e. bt_contains v (attribute_name e)) schema"

definition sorted_items_for_scan ::
  "ddb_crates \<Rightarrow> (string, item) bmap \<Rightarrow> table_description \<Rightarrow> string \<Rightarrow> keyed_item list" where
  "sorted_items_for_scan X items d index_name =
     (let srt = sorted_items_for_query X items d index_name in
      if index_name = [] then srt
      else filter (\<lambda>c. item_has_all_keys (ki_value c) (query_key_schema d index_name)) srt)"

section \<open>Pages\<close>

definition start_key_string :: "ddb_crates \<Rightarrow> table_description \<Rightarrow> item \<Rightarrow> string result" where
  "start_key_string X d start = (if start = [] then Inr [] else item_key X d start)"

definition items_response :: "item list \<Rightarrow> nat \<Rightarrow> (string, json) bmap" where
  "items_response items scanned =
     bt_insert ''ScannedCount'' (Number (Int_num (int scanned)))
       (bt_insert ''Count'' (Number (Int_num (int (length items))))
         (bt_insert ''Items'' (Array (map Object items)) []))"

definition limited_items_response ::
  "table_description \<Rightarrow> keyed_item \<Rightarrow> item list \<Rightarrow> nat \<Rightarrow> bool \<Rightarrow> (string, json) bmap" where
  "limited_items_response d candidate items scanned has_more =
     (if has_more then
        (case extract_key d (ki_value candidate) of
           Inr last_key \<Rightarrow> bt_insert ''LastEvaluatedKey'' (Object last_key) (items_response items scanned)
         | Inl _ \<Rightarrow> items_response items scanned)
      else items_response items scanned)"

fun after_key_from :: "keyed_item list \<Rightarrow> string \<Rightarrow> keyed_item list" where
  "after_key_from [] after_key = []"
| "after_key_from (candidate # source) after_key =
     (if ki_key candidate = after_key then source else after_key_from source after_key)"

definition has_more_items :: "keyed_item list \<Rightarrow> string \<Rightarrow> bool" where
  "has_more_items source after_key \<longleftrightarrow> after_key_from source after_key \<noteq> []"

fun any_match :: "(item \<Rightarrow> bool result) \<Rightarrow> keyed_item list \<Rightarrow> bool result" where
  "any_match matcher [] = Inr False"
| "any_match matcher (candidate # source) =
     bind_res (matcher (ki_value candidate)) (\<lambda>b. if b then Inr True else any_match matcher source)"

definition has_more_matches :: "keyed_item list \<Rightarrow> string \<Rightarrow> (item \<Rightarrow> bool result) \<Rightarrow> bool result" where
  "has_more_matches source after_key matcher = any_match matcher (after_key_from source after_key)"

record collect_args =
  ca_description :: table_description
  ca_index_name :: string
  ca_source :: "keyed_item list"
  ca_limit :: int
  ca_projection :: string
  ca_names :: names
  ca_counts_unmatched :: bool
  ca_matcher :: "item \<Rightarrow> bool result"

fun collect_loop ::
  "collect_args \<Rightarrow> string \<Rightarrow> keyed_item list \<Rightarrow> bool \<Rightarrow> item list \<Rightarrow> nat \<Rightarrow> (string, json) bmap result" where
  "collect_loop A start_key [] started response_items scanned = Inr (items_response response_items scanned)"
| "collect_loop A start_key (candidate # rest) started response_items scanned =
     (if \<not> started then
        collect_loop A start_key rest (ki_key candidate = start_key) response_items scanned
      else bind_res (ca_matcher A (ki_value candidate)) (\<lambda>matched.
        let scanned = (if matched \<or> ca_counts_unmatched A then Suc scanned else scanned);
            full = (ca_limit A > 0 \<and> int scanned = ca_limit A) in
        if \<not> matched then
          (if ca_counts_unmatched A \<and> full then
             Inr (limited_items_response (ca_description A) candidate response_items scanned
               (has_more_items (ca_source A) (ki_key candidate)))
           else collect_loop A start_key rest started response_items scanned)
        else
          (let response_items = response_items @
                 [project_result_item (ca_description A) (ca_index_name A) (ki_value candidate) (ca_projection A) (ca_names A)] in
           if full then
             bind_res (if ca_counts_unmatched A then Inr (has_more_items (ca_source A) (ki_key candidate))
                 else has_more_matches (ca_source A) (ki_key candidate) (ca_matcher A))
               (\<lambda>has_more. Inr (limited_items_response (ca_description A) candidate response_items scanned has_more))
           else collect_loop A start_key rest started response_items scanned)))"

definition collect_items :: "collect_args \<Rightarrow> string \<Rightarrow> (string, json) bmap result" where
  "collect_items A start_key = collect_loop A start_key (ca_source A) (start_key = []) [] 0"

section \<open>Select\<close>

definition validate_select :: "ddb_crates \<Rightarrow> string \<Rightarrow> string \<Rightarrow> unit result" where
  "validate_select X select_value projection_expression =
     (let s = to_uppercase X (trim select_value) in
      if s \<in> {'''', ''ALL_ATTRIBUTES'', ''ALL_PROJECTED_ATTRIBUTES'', ''SPECIFIC_ATTRIBUTES''} then Inr ()
      else if s = ''COUNT'' then
        (if trim projection_expression \<noteq> [] then Inl ''select COUNT cannot be used with ProjectionExpression'' else Inr ())
      else Inl (''unsupported select value '' @ s))"

definition apply_select :: "(string, json) bmap \<Rightarrow> string \<Rightarrow> (string, json) bmap" where
  "apply_select response select_value =
     (if eq_ignore_ascii_case (trim select_value) ''COUNT'' then bt_remove ''Items'' response else response)"

section \<open>The sort\<close>

lemma insert_by_key: "(\<And>y. y \<in> set xs \<Longrightarrow> c x y = cmp (f x) (f y)) \<Longrightarrow> insert_by c x xs = insort_key f x xs"
  by (induction xs) (auto simp: cmp_def)

lemma sort_by_key:
  assumes "\<And>x y. x \<in> set xs \<Longrightarrow> y \<in> set xs \<Longrightarrow> c x y = cmp (f x) (f y)"
  shows "sort_by c xs = sort_key f xs"
  using assms
proof (induction xs)
  case (Cons x xs)
  then have "insert_by c x (sort_key f xs) = insort_key f x (sort_key f xs)" by (intro insert_by_key) simp
  with Cons show ?case by (simp add: sort_by_def)
qed (simp add: sort_by_def)

definition item_ok :: "item \<Rightarrow> bool" where
  "item_ok v \<longleftrightarrow> (\<forall>a \<in> snd ` set v. \<exists>t. av_ok t \<and> a = to_json t)"

lemma cmp_list_same_length: "cmp (x # xs) (y # ys) = (if x = y then cmp xs ys else cmp x y)"
  by (auto simp: cmp_def)

lemma cmp_then: "(case cmp x y of Equal \<Rightarrow> cmp u v | ord \<Rightarrow> ord) = cmp (x, u) (y, v)"
  by (auto simp: cmp_def)

lemma rank_function:
  assumes "json_text (serde_to_vec X)"
  shows "\<exists>r :: json \<Rightarrow> string \<times> rat \<times> string. \<forall>a b. av_ok a \<longrightarrow> av_ok b \<longrightarrow>
    compare_attribute_values X (to_json a) (to_json b) = cmp (r (to_json a)) (r (to_json b))"
proof -
  have "inv to_json (to_json a) = a" for a using to_json_inj by (intro inv_f_f) (auto simp: inj_def)
  then show ?thesis
    using compare_by_rank[OF assms] by (intro exI[of _ "\<lambda>v. av_rank X (inv to_json v)"]) simp
qed

lemma item_ok_get: "item_ok v \<Longrightarrow> map_of v n = Some a \<Longrightarrow> \<exists>t. av_ok t \<and> a = to_json t"
  by (force simp: item_ok_def dest: map_of_SomeD)

lemma compare_items_rank:
  assumes r: "\<And>a b. av_ok a \<Longrightarrow> av_ok b \<Longrightarrow>
      compare_attribute_values X (to_json a) (to_json b) = cmp (r (to_json a)) (r (to_json b))"
    and ok: "item_ok v" "item_ok w"
  defines "rank_of u schema \<equiv> map (\<lambda>e. case map_of u (attribute_name e) of None \<Rightarrow> [] | Some a \<Rightarrow> [r a]) schema"
  shows "compare_items_by_schema X v w schema = cmp (rank_of v schema) (rank_of w schema)"
proof (induction schema)
  case (Cons e schema)
  have "compare_optional_values X (map_of v (attribute_name e)) (map_of w (attribute_name e)) =
    cmp (case map_of v (attribute_name e) of None \<Rightarrow> [] | Some a \<Rightarrow> [r a])
        (case map_of w (attribute_name e) of None \<Rightarrow> [] | Some a \<Rightarrow> [r a])"
  proof (cases "map_of v (attribute_name e)"; cases "map_of w (attribute_name e)")
    fix a b assume "map_of v (attribute_name e) = Some a" "map_of w (attribute_name e) = Some b"
    then show ?thesis using item_ok_get[OF ok(1)] item_ok_get[OF ok(2)] r
      by (fastforce simp: compare_optional_values_def cmp_list_same_length cmp_same)
  qed (simp_all add: compare_optional_values_def cmp_def)
  then show ?case using Cons.IH unfolding rank_of_def
    by (auto simp: Let_def cmp_list_same_length)
qed (simp add: rank_of_def cmp_same)

lemma sorted_items_key:
  assumes "json_text (serde_to_vec X)" "\<forall>v \<in> snd ` set items. item_ok v"
  shows "\<exists>f :: keyed_item \<Rightarrow> (string \<times> rat \<times> string) list list \<times> string.
    (\<forall>a b. item_ok (ki_value a) \<longrightarrow> item_ok (ki_value b) \<longrightarrow>
       compare_keyed X (query_key_schema d index_name) a b = cmp (f a) (f b))
    \<and> sorted_items_for_query X items d index_name = sort_key f (map (\<lambda>(k, v). \<lparr>ki_key = k, ki_value = v\<rparr>) items)"
proof -
  obtain r :: "json \<Rightarrow> string \<times> rat \<times> string" where r: "\<And>a b. av_ok a \<Longrightarrow> av_ok b \<Longrightarrow>
      compare_attribute_values X (to_json a) (to_json b) = cmp (r (to_json a)) (r (to_json b))"
    using rank_function[OF assms(1)] by blast
  define g where "g v = map (\<lambda>e. case map_of v (attribute_name e) of None \<Rightarrow> [] | Some a \<Rightarrow> [r a])
    (query_key_schema d index_name)" for v
  define f where "f c = (g (ki_value c), ki_key c)" for c :: keyed_item
  have c: "compare_keyed X (query_key_schema d index_name) a b = cmp (f a) (f b)"
    if "item_ok (ki_value a)" "item_ok (ki_value b)" for a b
  proof -
    have "compare_items_by_schema X (ki_value a) (ki_value b) (query_key_schema d index_name) = cmp (g (ki_value a)) (g (ki_value b))"
      unfolding g_def by (rule compare_items_rank[OF r that])
    then show ?thesis unfolding compare_keyed_def f_def by (simp only: cmp_then)
  qed
  have "sorted_items_for_query X items d index_name = sort_key f (map (\<lambda>(k, v). \<lparr>ki_key = k, ki_value = v\<rparr>) items)"
    unfolding sorted_items_for_query_def using assms(2) by (intro sort_by_key c) auto
  with c show ?thesis by blast
qed

text \<open>Query results come in key order: on valid items the sorted list holds exactly the items of the table, and
  no item comes before another one that the comparison puts strictly below it.\<close>

theorem query_sorts_by_key_schema:
  assumes "json_text (serde_to_vec X)" "\<forall>v \<in> snd ` set items. item_ok v"
  shows "mset (sorted_items_for_query X items d index_name) = mset (map (\<lambda>(k, v). \<lparr>ki_key = k, ki_value = v\<rparr>) items)
    \<and> sorted_wrt (\<lambda>a b. compare_keyed X (query_key_schema d index_name) a b \<noteq> Greater) (sorted_items_for_query X items d index_name)"
proof -
  obtain f :: "keyed_item \<Rightarrow> (string \<times> rat \<times> string) list list \<times> string"
    where f: "\<And>a b. item_ok (ki_value a) \<Longrightarrow> item_ok (ki_value b) \<Longrightarrow>
      compare_keyed X (query_key_schema d index_name) a b = cmp (f a) (f b)"
    and s: "sorted_items_for_query X items d index_name = sort_key f (map (\<lambda>(k, v). \<lparr>ki_key = k, ki_value = v\<rparr>) items)"
    using sorted_items_key[OF assms, of d index_name] by blast
  have ok: "item_ok (ki_value c)" if "c \<in> set (sorted_items_for_query X items d index_name)" for c
    using that assms(2) unfolding s by auto
  have "sorted_wrt (\<lambda>a b. f a \<le> f b) (sorted_items_for_query X items d index_name)"
    unfolding s using sorted_sort_key[of f] by (simp add: sorted_wrt_map)
  then have "sorted_wrt (\<lambda>a b. compare_keyed X (query_key_schema d index_name) a b \<noteq> Greater) (sorted_items_for_query X items d index_name)"
    by (rule sorted_wrt_mono_rel[rotated]) (auto simp: f ok cmp_def)
  then show ?thesis unfolding s by simp
qed

section \<open>Following the pages\<close>

definition source_ok :: "ddb_crates \<Rightarrow> table_description \<Rightarrow> keyed_item list \<Rightarrow> bool" where
  "source_ok X d source \<longleftrightarrow> key_schema d \<noteq> [] \<and> distinct (map ki_key source)
     \<and> list_all (\<lambda>c. ki_key c \<noteq> [] \<and> item_key X d (ki_value c) = Inr (ki_key c)) source"

text \<open>A client that asks for the next page with the last evaluated key of the page before, as long as there is one
  and at most a given number of times.\<close>

fun follow_query :: "ddb_crates \<Rightarrow> nat \<Rightarrow> collect_args \<Rightarrow> string \<Rightarrow> json list result" where
  "follow_query X 0 A start = Inl ''more pages''"
| "follow_query X (Suc n) A start =
     bind_res (collect_items A start) (\<lambda>response.
       let shown = (case map_of response ''Items'' of Some (Array vs) \<Rightarrow> vs | _ \<Rightarrow> []) in
       case map_of response ''LastEvaluatedKey'' of
         Some (Object key) \<Rightarrow>
           bind_res (start_key_string X (ca_description A) key) (\<lambda>next.
             bind_res (follow_query X n A next) (\<lambda>rest. Inr (shown @ rest)))
       | _ \<Rightarrow> Inr shown)"

text \<open>The number of candidates up to the one that reaches the limit.\<close>

fun page_end :: "bool \<Rightarrow> (item \<Rightarrow> bool) \<Rightarrow> nat \<Rightarrow> keyed_item list \<Rightarrow> nat option" where
  "page_end counts P n [] = None"
| "page_end counts P n (c # cs) =
     (if P (ki_value c) \<or> counts
      then (if n = 1 then Some 1 else map_option Suc (page_end counts P (n - 1) cs))
      else map_option Suc (page_end counts P n cs))"

definition shown_item :: "collect_args \<Rightarrow> keyed_item \<Rightarrow> item" where
  "shown_item A c = project_result_item (ca_description A) (ca_index_name A) (ki_value c) (ca_projection A) (ca_names A)"

lemma response_items: "map_of (items_response its n) ''Items'' = Some (Array (map Object its))"
    "map_of (items_response its n) ''LastEvaluatedKey'' = None"
  by (simp_all add: items_response_def bt_get_insert)

lemma limited_response_items: "map_of (limited_items_response d c its n hm) ''Items'' = Some (Array (map Object its))"
  by (auto simp: limited_items_response_def bt_get_insert response_items split: sum.split)

lemma limited_response_last: "map_of (limited_items_response d c its n hm) ''LastEvaluatedKey'' =
    (if hm then (case extract_key d (ki_value c) of Inr key \<Rightarrow> Some (Object key) | Inl _ \<Rightarrow> None) else None)"
  by (auto simp: limited_items_response_def bt_get_insert response_items split: sum.split)

lemma after_key_split: "distinct (map ki_key (pre @ c # rest)) \<Longrightarrow> after_key_from (pre @ c # rest) (ki_key c) = rest"
  by (induction pre) auto

lemma any_match_total:
  "\<forall>c \<in> set cs. m (ki_value c) = Inr (P (ki_value c)) \<Longrightarrow> any_match m cs = Inr (\<exists>c \<in> set cs. P (ki_value c))"
  by (induction cs) auto

definition more_after :: "collect_args \<Rightarrow> (item \<Rightarrow> bool) \<Rightarrow> keyed_item list \<Rightarrow> bool" where
  "more_after A P cs \<longleftrightarrow> (if ca_counts_unmatched A then cs \<noteq> [] else \<exists>c \<in> set cs. P (ki_value c))"

text \<open>What a page answers: the items it shows and the last evaluated key.\<close>

definition page_answer :: "collect_args \<Rightarrow> (item \<Rightarrow> bool) \<Rightarrow> item list \<Rightarrow> nat \<Rightarrow> keyed_item list \<Rightarrow> json \<times> json option" where
  "page_answer A P acc n rest =
     (case page_end (ca_counts_unmatched A) P n rest of
        None \<Rightarrow> (Array (map Object (acc @ map (shown_item A) (filter (\<lambda>c. P (ki_value c)) rest))), None)
      | Some k \<Rightarrow>
          (Array (map Object (acc @ map (shown_item A) (filter (\<lambda>c. P (ki_value c)) (take k rest)))),
           if more_after A P (drop k rest)
           then (case extract_key (ca_description A) (ki_value (rest ! (k - 1))) of Inr key \<Rightarrow> Some (Object key) | Inl _ \<Rightarrow> None)
           else None))"

lemma page_end_pos: "page_end b P n cs = Some k \<Longrightarrow> 0 < k \<and> k \<le> length cs"
  by (induction b P n cs arbitrary: k rule: page_end.induct) (auto split: if_splits)

lemma page_answer_skip:
  assumes "\<not> (P (ki_value c) \<or> ca_counts_unmatched A)"
  shows "page_answer A P acc n (c # rest) = page_answer A P acc n rest"
  using assms page_end_pos[of "ca_counts_unmatched A" P n rest]
  by (auto simp: page_answer_def nth_Cons split: option.split nat.split)

lemma page_answer_next:
  assumes "P (ki_value c) \<or> ca_counts_unmatched A" "n \<noteq> 1"
  shows "page_answer A P acc n (c # rest) =
    page_answer A P (acc @ (if P (ki_value c) then [shown_item A c] else [])) (n - 1) rest"
  using assms page_end_pos[of "ca_counts_unmatched A" P "n - 1" rest]
  by (auto simp: page_answer_def nth_Cons split: option.split nat.split)

lemma collect_loop_page:
  assumes "ca_limit A = int n" "scanned < n"
    "\<forall>c \<in> set (ca_source A). ca_matcher A (ki_value c) = Inr (P (ki_value c))"
    "distinct (map ki_key (ca_source A))" "ca_source A = pre @ rest"
  shows "\<exists>response. collect_loop A sk rest True acc scanned = Inr response
    \<and> (map_of response ''Items'', map_of response ''LastEvaluatedKey'') = map_prod Some id (page_answer A P acc (n - scanned) rest)"
  using assms(2,5)
proof (induction rest arbitrary: pre acc scanned)
  case Nil
  then show ?case by (simp add: page_answer_def response_items)
next
  case (Cons c rest)
  have m: "ca_matcher A (ki_value c) = Inr (P (ki_value c))" using assms(3) Cons.prems(2) by simp
  have after: "after_key_from (ca_source A) (ki_key c) = rest"
    using after_key_split assms(4) Cons.prems(2) by simp
  have tail: "ca_source A = (pre @ [c]) @ rest" using Cons.prems(2) by simp
  have later: "has_more_items (ca_source A) (ki_key c) = (rest \<noteq> [])"
    "has_more_matches (ca_source A) (ki_key c) (ca_matcher A) = Inr (\<exists>c \<in> set rest. P (ki_value c))"
    using assms(3) any_match_total[of rest "ca_matcher A" P] Cons.prems(2)
    unfolding has_more_items_def has_more_matches_def after by simp_all
  consider (skip) "\<not> (P (ki_value c) \<or> ca_counts_unmatched A)"
    | (full) "P (ki_value c) \<or> ca_counts_unmatched A" "n - scanned = 1"
    | (step) "P (ki_value c) \<or> ca_counts_unmatched A" "n - scanned \<noteq> 1" by blast
  then show ?case
  proof cases
    case skip
    with Cons.IH[OF Cons.prems(1) tail, of acc] show ?thesis by (simp add: m page_answer_skip[of P c A, OF skip])
  next
    case full
    then have eq: "Suc scanned = n" "0 < n" using Cons.prems(1) by linarith+
    then show ?thesis using full
      by (auto simp: m assms(1) Let_def later page_answer_def more_after_def limited_response_items limited_response_last
          shown_item_def)
  next
    case step
    then have lt: "Suc scanned < n" using Cons.prems(1) by linarith
    have d: "n - scanned - 1 = n - Suc scanned" by simp
    show ?thesis
      using Cons.IH[OF lt tail, of "acc @ (if P (ki_value c) then [shown_item A c] else [])"] lt step
      by (auto simp: m assms(1) Let_def page_answer_next[of P c A, OF step] d shown_item_def split: if_splits)
  qed
qed

definition start_after :: "keyed_item list \<Rightarrow> string" where
  "start_after pre = (if pre = [] then [] else ki_key (last pre))"

lemma collect_loop_started:
  "distinct (map ki_key (pre @ c # rest)) \<Longrightarrow>
   collect_loop A (ki_key c) (pre @ c # rest) False acc n = collect_loop A (ki_key c) rest True acc n"
proof (induction pre)
  case (Cons d pre)
  then have "ki_key d \<noteq> ki_key c" by auto
  with Cons show ?case by simp
qed simp

lemma collect_items_after:
  assumes "source_ok X d (ca_source A)" "ca_source A = pre @ rest"
  shows "collect_items A (start_after pre) = collect_loop A (start_after pre) rest True [] 0"
proof (cases pre rule: rev_cases)
  case Nil
  then show ?thesis using assms(2) by (simp add: collect_items_def start_after_def)
next
  case (snoc ys c)
  have "distinct (map ki_key (ys @ c # rest))" "ki_key c \<noteq> []"
    using assms snoc by (simp_all add: source_ok_def)
  from collect_loop_started[OF this(1)] this(2) show ?thesis
    using assms(2) snoc by (simp add: collect_items_def start_after_def)
qed

lemma last_key_string:
  assumes "source_ok X d source" "c \<in> set source"
  shows "\<exists>key. extract_key d (ki_value c) = Inr key \<and> start_key_string X d key = Inr (ki_key c)"
proof -
  have k: "item_key X d (ki_value c) = Inr (ki_key c)" "key_schema d \<noteq> []"
    using assms by (auto simp: source_ok_def list_all_iff)
  obtain key where key: "extract_key d (ki_value c) = Inr key" "item_key X d key = Inr (ki_key c)"
    using item_key_extract[OF k(1)] by blast
  have "key \<noteq> []" using key(2) k(2) by (cases "key_schema d") (auto simp: item_key_def)
  with key show ?thesis by (auto simp: start_key_string_def)
qed

lemma follow_query_from:
  assumes "source_ok X (ca_description A) (ca_source A)" "ca_limit A = int n" "0 < n"
    "\<forall>c \<in> set (ca_source A). ca_matcher A (ki_value c) = Inr (P (ki_value c))"
  shows "ca_source A = pre @ rest \<Longrightarrow> length rest < fuel \<Longrightarrow>
    follow_query X fuel A (start_after pre) = Inr (map (\<lambda>c. Object (shown_item A c)) (filter (\<lambda>c. P (ki_value c)) rest))"
proof (induction fuel arbitrary: pre rest)
  case (Suc fuel)
  have dist: "distinct (map ki_key (ca_source A))" using assms(1) by (simp add: source_ok_def)
  obtain response where r: "collect_items A (start_after pre) = Inr response"
    "(map_of response ''Items'', map_of response ''LastEvaluatedKey'') = map_prod Some id (page_answer A P [] n rest)"
    using collect_loop_page[OF assms(2,3,4) dist Suc.prems(1)] collect_items_after[OF assms(1) Suc.prems(1)] by auto
  show ?case
  proof (cases "page_end (ca_counts_unmatched A) P n rest")
    case None
    with r show ?thesis by (simp add: page_answer_def comp_def)
  next
    case (Some k)
    note k = page_end_pos[OF Some]
    show ?thesis
    proof (cases "more_after A P (drop k rest)")
      case False
      then have "filter (\<lambda>c. P (ki_value c)) (drop k rest) = []" by (auto simp: more_after_def filter_empty_conv split: if_splits)
      then have "filter (\<lambda>c. P (ki_value c)) (take k rest) = filter (\<lambda>c. P (ki_value c)) rest"
        by (metis append_Nil2 append_take_drop_id filter_append)
      with r Some False show ?thesis by (simp add: page_answer_def comp_def)
    next
      case True
      let ?c = "rest ! (k - 1)"
      have "?c \<in> set rest" using k by (intro nth_mem) linarith
      then obtain key where key: "extract_key (ca_description A) (ki_value ?c) = Inr key"
        "start_key_string X (ca_description A) key = Inr (ki_key ?c)"
        using last_key_string[OF assms(1)] Suc.prems(1) by auto
      have ne: "take k rest \<noteq> []" using k by auto
      then have "last (take k rest) = ?c" using k last_conv_nth[OF ne] by (simp add: min_absorb2)
      then have start: "start_after (pre @ take k rest) = ki_key ?c" using ne by (simp add: start_after_def)
      have fuel: "length (drop k rest) < fuel" using k Suc.prems(2) by simp linarith
      have "follow_query X fuel A (ki_key ?c) = Inr (map (\<lambda>c. Object (shown_item A c)) (filter (\<lambda>c. P (ki_value c)) (drop k rest)))"
        using Suc.IH[of "pre @ take k rest" "drop k rest"] Suc.prems(1) fuel unfolding start by simp
      moreover have "filter (\<lambda>c. P (ki_value c)) rest =
          filter (\<lambda>c. P (ki_value c)) (take k rest) @ filter (\<lambda>c. P (ki_value c)) (drop k rest)"
        by (metis append_take_drop_id filter_append)
      ultimately show ?thesis using r Some True key by (simp add: page_answer_def comp_def)
    qed
  qed
qed simp


lemma collect_loop_never_started:
  "start_key \<notin> set (map ki_key rest) \<Longrightarrow> collect_loop A start_key rest False acc n = Inr (items_response acc n)"
  by (induction rest) auto

text \<open>A listing stops when its start key is gone: if the item that ended a page is deleted before the next request,
  the next page is empty and has no \<open>LastEvaluatedKey\<close>, whatever items follow in key order.\<close>

theorem deleted_start_key_ends_listing:
  assumes "start_key \<noteq> []" "start_key \<notin> set (map ki_key (ca_source A))"
  shows "collect_items A start_key = Inr (items_response [] 0)
    \<and> map_of (items_response [] 0) ''LastEvaluatedKey'' = None"
  using assms by (simp add: collect_items_def collect_loop_never_started response_items)


section \<open>Samples\<close>

definition sample_rows :: "(string, item) bmap" where
  "sample_rows = map (\<lambda>p. (print_json (Array [to_json (AV_S p)]), [(''pk'', to_json (AV_S p))])) [''a'', ''b'', ''c'']"

definition sample_scan :: collect_args where
  "sample_scan = \<lparr>ca_description = sample_table, ca_index_name = [],
     ca_source = map (\<lambda>(k, v). \<lparr>ki_key = k, ki_value = v\<rparr>) sample_rows, ca_limit = 1, ca_projection = [],
     ca_names = [], ca_counts_unmatched = True, ca_matcher = (\<lambda>v. Inr True)\<rparr>"

lemma sample_scan_ok: "source_ok sample_ddb (ca_description sample_scan) (ca_source sample_scan)"
  by code_simp


theorem deleted_start_key_ends_listing_witness:
  "collect_items sample_scan (print_json (Array [to_json (AV_S ''aa'')])) = Inr (items_response [] 0)"
proof -
  let ?k = "print_json (Array [to_json (AV_S ''aa'')])"
  have "?k \<noteq> []" "?k \<notin> set (map ki_key (ca_source sample_scan))" by code_simp+
  from deleted_start_key_ends_listing[OF this] show ?thesis by blast
qed

theorem query_sorts_by_key_schema_witness:
  "mset (sorted_items_for_query sample_ddb sample_rows sample_table []) =
    mset (map (\<lambda>(k, v). \<lparr>ki_key = k, ki_value = v\<rparr>) sample_rows)"
proof -
  have "\<forall>v \<in> snd ` set sample_rows. item_ok v"
    by (auto simp: sample_rows_def item_ok_def intro: exI[of _ "AV_S s" for s])
  from query_sorts_by_key_schema[OF sample_ddb_text this] show ?thesis by blast
qed

end
