(* ===== verification/Dynamo_Tables.thy ===== *)
theory Dynamo_Tables
  imports Dynamo_Query
begin

text \<open>
  Tables of the DynamoDB service: the errors of its API (\<open>errors.rs\<close>), the requests that create and change tables
  (\<open>requests.rs\<close>), their validation (\<open>validation.rs\<close>), and the functions of \<open>server.rs\<close> that build
  and update table descriptions. An accepted table has a well-formed key schema and index
  definitions (\<open>schema_ok\<close>), and updates of the indexes keep it so.
\<close>

section \<open>Errors\<close>

record api_error =
  err_status :: nat
  err_name :: string
  err_message :: string
  err_extra :: "(string, json) bmap"

type_synonym 'a api = "api_error + 'a"

definition api_error_new :: "nat \<Rightarrow> string \<Rightarrow> string \<Rightarrow> api_error" where
  "api_error_new status name message = \<lparr>err_status = status, err_name = name, err_message = message, err_extra = []\<rparr>"

definition condition_check_failed :: "string \<Rightarrow> string \<Rightarrow> item option \<Rightarrow> api_error" where
  "condition_check_failed message return_values old_item =
     (let err = api_error_new 400 ''ConditionalCheckFailedException'' message in
      if return_values = ''ALL_OLD'' then
        (case old_item of Some i \<Rightarrow> err\<lparr>err_extra := bt_insert ''Item'' (Object i) (err_extra err)\<rparr> | None \<Rightarrow> err)
      else err)"

definition validation_error :: "string \<Rightarrow> api_error" where
  "validation_error message = api_error_new 400 ''ValidationException'' message"

definition not_found :: "string \<Rightarrow> api_error" where
  "not_found message = api_error_new 400 ''ResourceNotFoundException'' message"

definition in_use :: "string \<Rightarrow> api_error" where
  "in_use message = api_error_new 400 ''ResourceInUseException'' message"

definition internal :: "string \<Rightarrow> api_error" where
  "internal message = api_error_new 500 ''InternalServerError'' message"

definition error_body :: "api_error \<Rightarrow> json" where
  "error_body e = Object (bt_insert ''message'' (String (err_message e))
     (bt_insert ''__type'' (String (''com.amazonaws.dynamodb.v20120810#'' @ err_name e)) (err_extra e)))"

text \<open>\<open>map_err(ApiError::validation)\<close>.\<close>

definition validated :: "'a result \<Rightarrow> 'a api" where
  "validated r = (case r of Inl e \<Rightarrow> Inl (validation_error e) | Inr v \<Rightarrow> Inr v)"

lemma validated_Inr [simp]: "validated r = Inr v \<longleftrightarrow> r = Inr v"
  by (simp add: validated_def split: sum.splits)

section \<open>Requests\<close>

record index_projection_request =
  ipr_projection_type :: string
  ipr_non_key_attributes :: "string list"

record secondary_index_request =
  ixr_index_name :: string
  ixr_key_schema :: "key_schema_element list"
  ixr_projection :: index_projection_request

record create_table_request =
  ctr_table_name :: string
  ctr_attribute_definitions :: "attribute_definition list"
  ctr_key_schema :: "key_schema_element list"
  ctr_global_secondary_indexes :: "secondary_index_request list"
  ctr_local_secondary_indexes :: "secondary_index_request list"
  ctr_billing_mode :: string
  ctr_stream_specification :: stream_specification

text \<open>A global index update names the index to delete or to update, or holds the index to create.\<close>

record global_secondary_index_update =
  giu_create :: "secondary_index_request option"
  giu_delete :: "string option"
  giu_update :: "string option"

record update_table_request =
  utr_table_name :: string
  utr_attribute_definitions :: "attribute_definition list"
  utr_billing_mode :: string
  utr_global_secondary_index_updates :: "global_secondary_index_update list"
  utr_stream_specification :: "stream_specification option"

section \<open>Validation of table requests\<close>

definition validate_stream_specification :: "stream_specification \<Rightarrow> unit result" where
  "validate_stream_specification spec =
     (if \<not> stream_enabled_flag spec then Inr ()
      else if stream_view_type spec \<in> {''KEYS_ONLY'', ''NEW_IMAGE'', ''OLD_IMAGE'', ''NEW_AND_OLD_IMAGES''} then Inr ()
      else if stream_view_type spec = [] then Inl ''stream view type is required when stream is enabled''
      else Inl ''stream view type must be KEYS_ONLY, NEW_IMAGE, OLD_IMAGE, or NEW_AND_OLD_IMAGES'')"

fun table_hash_key :: "key_schema_element list \<Rightarrow> string" where
  "table_hash_key [] = []"
| "table_hash_key (element # schema) = (if key_type element = ''HASH'' then attribute_name element else table_hash_key schema)"

fun check_attribute_definitions :: "attribute_definition list \<Rightarrow> unit result" where
  "check_attribute_definitions [] = Inr ()"
| "check_attribute_definitions (definition # rest) =
     (if ad_attribute_name definition = [] then Inl ''attribute name is required''
      else if attribute_type definition \<notin> {''S'', ''N'', ''B''} then Inl ''attribute type must be S, N, or B''
      else check_attribute_definitions rest)"

text \<open>The loop over the elements of a key schema counts the HASH and RANGE keys; \<open>what\<close> begins its messages.\<close>

definition key_kind :: "string \<Rightarrow> key_schema_element list \<Rightarrow> nat" where
  "key_kind kind schema = length (filter (\<lambda>e. key_type e = kind) schema)"

fun check_table_keys :: "string set \<Rightarrow> key_schema_element list \<Rightarrow> unit result" where
  "check_table_keys attributes [] = Inr ()"
| "check_table_keys attributes (element # schema) =
     (if attribute_name element = [] then Inl ''key attribute name is required''
      else if attribute_name element \<notin> attributes then Inl ''key schema attributes must be defined''
      else if key_type element \<notin> {''HASH'', ''RANGE''} then Inl ''key type must be HASH or RANGE''
      else check_table_keys attributes schema)"

fun check_index_keys :: "string \<Rightarrow> string set \<Rightarrow> key_schema_element list \<Rightarrow> unit result" where
  "check_index_keys what attributes [] = Inr ()"
| "check_index_keys what attributes (element # schema) =
     (if attribute_name element \<notin> attributes then Inl (what @ '' secondary index key schema attributes must be defined'')
      else if key_type element \<notin> {''HASH'', ''RANGE''} then Inl (what @ '' secondary index key type must be HASH or RANGE'')
      else check_index_keys what attributes schema)"

definition one_hash_key :: "key_schema_element list \<Rightarrow> bool" where
  "one_hash_key schema \<longleftrightarrow> key_kind ''HASH'' schema = 1 \<and> key_kind ''RANGE'' schema \<le> 1 \<and> length schema \<le> 2"

definition projection_type_ok :: "string \<Rightarrow> bool" where
  "projection_type_ok t \<longleftrightarrow> t \<in> {'''', ''ALL'', ''KEYS_ONLY'', ''INCLUDE''}"

fun check_global_indexes :: "string set \<Rightarrow> string set \<Rightarrow> secondary_index_request list \<Rightarrow> string set result" where
  "check_global_indexes attributes index_names [] = Inr index_names"
| "check_global_indexes attributes index_names (index # rest) =
     (if ixr_index_name index = [] then Inl ''global secondary index name is required''
      else if ixr_index_name index \<in> index_names then Inl ''global secondary index names must be unique''
      else if ixr_key_schema index = [] then Inl ''global secondary index key schema is required''
      else bind_res (check_index_keys ''global'' attributes (ixr_key_schema index)) (\<lambda>_.
        if \<not> one_hash_key (ixr_key_schema index) then
          Inl ''global secondary index key schema must include one HASH key and at most one RANGE key''
        else if \<not> projection_type_ok (ipr_projection_type (ixr_projection index)) then
          Inl ''global secondary index projection type must be ALL, KEYS_ONLY, or INCLUDE''
        else check_global_indexes attributes (insert (ixr_index_name index) index_names) rest))"

fun check_local_indexes :: "string \<Rightarrow> string set \<Rightarrow> string set \<Rightarrow> secondary_index_request list \<Rightarrow> unit result" where
  "check_local_indexes hash_key attributes index_names [] = Inr ()"
| "check_local_indexes hash_key attributes index_names (index # rest) =
     (if ixr_index_name index = [] then Inl ''local secondary index name is required''
      else if ixr_index_name index \<in> index_names then Inl ''secondary index names must be unique''
      else if length (ixr_key_schema index) \<noteq> 2 then
        Inl ''local secondary index key schema must include table HASH key and one RANGE key''
      else if key_type (ixr_key_schema index ! 0) \<noteq> ''HASH'' \<or> attribute_name (ixr_key_schema index ! 0) \<noteq> hash_key then
        Inl ''local secondary index HASH key must match table HASH key''
      else bind_res (check_index_keys ''local'' attributes (ixr_key_schema index)) (\<lambda>_.
        if key_kind ''RANGE'' (ixr_key_schema index) \<noteq> 1 then
          Inl ''local secondary index key schema must include one RANGE key''
        else if \<not> projection_type_ok (ipr_projection_type (ixr_projection index)) then
          Inl ''local secondary index projection type must be ALL, KEYS_ONLY, or INCLUDE''
        else check_local_indexes hash_key attributes (insert (ixr_index_name index) index_names) rest))"

definition billing_mode_ok :: "string \<Rightarrow> bool" where
  "billing_mode_ok mode \<longleftrightarrow> mode \<in> {'''', ''PAY_PER_REQUEST'', ''PROVISIONED''}"

definition validate_create_table_request :: "create_table_request \<Rightarrow> unit result" where
  "validate_create_table_request r =
     (if ctr_table_name r = [] then Inl ''table name is required''
      else if ctr_key_schema r = [] then Inl ''key schema is required''
      else bind_res (check_attribute_definitions (ctr_attribute_definitions r)) (\<lambda>_.
        let attributes = ad_attribute_name ` set (ctr_attribute_definitions r) in
        bind_res (check_table_keys attributes (ctr_key_schema r)) (\<lambda>_.
        if \<not> one_hash_key (ctr_key_schema r) then Inl ''key schema must include one HASH key and at most one RANGE key''
        else if \<not> billing_mode_ok (ctr_billing_mode r) then Inl ''billing mode must be PAY_PER_REQUEST or PROVISIONED''
        else bind_res (validate_stream_specification (ctr_stream_specification r)) (\<lambda>_.
        bind_res (check_global_indexes attributes {} (ctr_global_secondary_indexes r)) (\<lambda>index_names.
        check_local_indexes (table_hash_key (ctr_key_schema r)) attributes index_names (ctr_local_secondary_indexes r))))))"

fun check_definition_updates :: "(string \<rightharpoonup> string) \<Rightarrow> attribute_definition list \<Rightarrow> unit result" where
  "check_definition_updates types [] = Inr ()"
| "check_definition_updates types (definition # rest) =
     (if ad_attribute_name definition = [] then Inl ''attribute name is required''
      else if attribute_type definition \<notin> {''S'', ''N'', ''B''} then Inl ''attribute type must be S, N, or B''
      else if types (ad_attribute_name definition) \<notin> {None, Some (attribute_type definition)} then
        Inl ''attribute definitions cannot change existing attribute type''
      else check_definition_updates (types(ad_attribute_name definition \<mapsto> attribute_type definition)) rest)"

definition definition_types :: "attribute_definition list \<Rightarrow> (string \<rightharpoonup> string)" where
  "definition_types existing = fold (\<lambda>d types. types(ad_attribute_name d \<mapsto> attribute_type d)) existing Map.empty"

definition validate_attribute_definition_updates :: "attribute_definition list \<Rightarrow> attribute_definition list \<Rightarrow> unit result" where
  "validate_attribute_definition_updates existing updates = check_definition_updates (definition_types existing) updates"

section \<open>Table descriptions\<close>

definition billing_mode :: "string \<Rightarrow> string" where
  "billing_mode value = (if value = [] then ''PAY_PER_REQUEST'' else value)"

definition ACCOUNT_ID :: string where
  "ACCOUNT_ID = ''000000000000''"

definition index_arn :: "string \<Rightarrow> string \<Rightarrow> string \<Rightarrow> string" where
  "index_arn region table index =
     ''arn:aws:dynamodb:'' @ region @ '':'' @ ACCOUNT_ID @ '':table/'' @ table @ ''/index/'' @ index"

definition projection_from_request :: "index_projection_request \<Rightarrow> index_projection" where
  "projection_from_request req =
     \<lparr>projection_type = (if ipr_projection_type req = [] then ''ALL'' else ipr_projection_type req),
      non_key_attributes = ipr_non_key_attributes req\<rparr>"

definition gsi_descriptions :: "string \<Rightarrow> string \<Rightarrow> secondary_index_request list \<Rightarrow> global_secondary_index_description list" where
  "gsi_descriptions region table indexes =
     map (\<lambda>index. \<lparr>gsi_index_arn = index_arn region table (ixr_index_name index), gsi_index_name = ixr_index_name index,
       gsi_index_size_bytes = 0, gsi_index_status = ''ACTIVE'', gsi_item_count = 0, gsi_key_schema = ixr_key_schema index,
       gsi_projection = projection_from_request (ixr_projection index), gsi_provisioned_throughput = []\<rparr>) indexes"

definition lsi_descriptions :: "string \<Rightarrow> string \<Rightarrow> secondary_index_request list \<Rightarrow> local_secondary_index_description list" where
  "lsi_descriptions region table indexes =
     map (\<lambda>index. \<lparr>lsi_index_arn = index_arn region table (ixr_index_name index), lsi_index_name = ixr_index_name index,
       lsi_index_size_bytes = 0, lsi_item_count = 0, lsi_key_schema = ixr_key_schema index,
       lsi_projection = projection_from_request (ixr_projection index)\<rparr>) indexes"

definition table_has_index :: "table_description \<Rightarrow> string \<Rightarrow> bool" where
  "table_has_index d index \<longleftrightarrow>
     list_ex (\<lambda>i. gsi_index_name i = index) (global_secondary_indexes d) \<or>
     list_ex (\<lambda>i. lsi_index_name i = index) (local_secondary_indexes d)"

definition attribute_definition_set :: "attribute_definition list \<Rightarrow> attribute_definition list \<Rightarrow> string set" where
  "attribute_definition_set existing updates =
     ad_attribute_name ` set existing \<union> {n \<in> ad_attribute_name ` set updates. n \<noteq> []}"

fun merge_from :: "string set \<Rightarrow> attribute_definition list \<Rightarrow> attribute_definition list" where
  "merge_from seen [] = []"
| "merge_from seen (definition # rest) =
     (if ad_attribute_name definition = [] \<or> ad_attribute_name definition \<in> seen then merge_from seen rest
      else definition # merge_from (insert (ad_attribute_name definition) seen) rest)"

definition merge_attribute_definitions :: "attribute_definition list \<Rightarrow> attribute_definition list \<Rightarrow> attribute_definition list" where
  "merge_attribute_definitions existing updates = existing @ merge_from (ad_attribute_name ` set existing) updates"

definition validate_global_secondary_index_create ::
  "secondary_index_request \<Rightarrow> string set \<Rightarrow> table_description \<Rightarrow> unit result" where
  "validate_global_secondary_index_create index attributes d =
     (if ixr_index_name index = [] then Inl ''global secondary index name is required''
      else if table_has_index d (ixr_index_name index) then Inl ''secondary index name already exists''
      else if ixr_key_schema index = [] then Inl ''global secondary index key schema is required''
      else bind_res (check_index_keys ''global'' attributes (ixr_key_schema index)) (\<lambda>_.
        if \<not> one_hash_key (ixr_key_schema index) then
          Inl ''global secondary index key schema must include one HASH key and at most one RANGE key''
        else if \<not> projection_type_ok (ipr_projection_type (ixr_projection index)) then
          Inl ''global secondary index projection type must be ALL, KEYS_ONLY, or INCLUDE''
        else Inr ()))"

fun remove_first :: "('a \<Rightarrow> bool) \<Rightarrow> 'a list \<Rightarrow> 'a list" where
  "remove_first P [] = []"
| "remove_first P (x # xs) = (if P x then xs else x # remove_first P xs)"

definition apply_index_update ::
  "string \<Rightarrow> attribute_definition list \<Rightarrow> string set \<Rightarrow> global_secondary_index_update \<Rightarrow> table_description \<Rightarrow> table_description result" where
  "apply_index_update region definitions attributes upd d =
     (let actions = (if giu_create upd \<noteq> None then 1 else 0) + (if giu_delete upd \<noteq> None then 1 else 0)
          + (if giu_update upd \<noteq> None then 1 else (0 :: nat)) in
      if actions \<noteq> 1 then Inl ''each global secondary index update must contain exactly one action''
      else if giu_update upd \<noteq> None then Inl ''global secondary index throughput updates are not supported''
      else case giu_create upd of
        Some create \<Rightarrow>
          bind_res (validate_global_secondary_index_create create attributes d) (\<lambda>_.
            Inr (d\<lparr>attribute_definitions := merge_attribute_definitions (attribute_definitions d) definitions,
                   global_secondary_indexes := global_secondary_indexes d @ gsi_descriptions region (table_name d) [create]\<rparr>))
      | None \<Rightarrow>
          (case giu_delete upd of
             Some index \<Rightarrow>
               if list_ex (\<lambda>i. gsi_index_name i = index) (global_secondary_indexes d)
               then Inr (d\<lparr>global_secondary_indexes := remove_first (\<lambda>i. gsi_index_name i = index) (global_secondary_indexes d)\<rparr>)
               else Inl ''global secondary index does not exist''
           | None \<Rightarrow> Inr d))"

fun apply_index_updates ::
  "string \<Rightarrow> attribute_definition list \<Rightarrow> string set \<Rightarrow> global_secondary_index_update list \<Rightarrow> table_description \<Rightarrow> table_description result" where
  "apply_index_updates region definitions attributes [] d = Inr d"
| "apply_index_updates region definitions attributes (upd # updates) d =
     bind_res (apply_index_update region definitions attributes upd d)
       (\<lambda>d'. apply_index_updates region definitions attributes updates d')"

definition apply_global_secondary_index_updates ::
  "string \<Rightarrow> attribute_definition list \<Rightarrow> global_secondary_index_update list \<Rightarrow> table_description \<Rightarrow> table_description result" where
  "apply_global_secondary_index_updates region definitions updates d =
     bind_res (validate_attribute_definition_updates (attribute_definitions d) definitions) (\<lambda>_.
       apply_index_updates region definitions (attribute_definition_set (attribute_definitions d) definitions) updates d)"

section \<open>Well-formed tables\<close>

definition keys_defined :: "string set \<Rightarrow> key_schema_element list \<Rightarrow> bool" where
  "keys_defined attributes schema \<longleftrightarrow>
     (\<forall>e \<in> set schema. attribute_name e \<in> attributes \<and> key_type e \<in> {''HASH'', ''RANGE''})"

definition index_names :: "table_description \<Rightarrow> string list" where
  "index_names d = map gsi_index_name (global_secondary_indexes d) @ map lsi_index_name (local_secondary_indexes d)"

definition schema_ok :: "table_description \<Rightarrow> bool" where
  "schema_ok d \<longleftrightarrow>
     (let attributes = ad_attribute_name ` set (attribute_definitions d) in
      one_hash_key (key_schema d) \<and> keys_defined attributes (key_schema d) \<and> [] \<notin> attributes
      \<and> distinct (index_names d) \<and> [] \<notin> set (index_names d)
      \<and> (\<forall>i \<in> set (global_secondary_indexes d). one_hash_key (gsi_key_schema i) \<and> keys_defined attributes (gsi_key_schema i))
      \<and> (\<forall>i \<in> set (local_secondary_indexes d). one_hash_key (lsi_key_schema i) \<and> keys_defined attributes (lsi_key_schema i)
           \<and> table_hash_key (lsi_key_schema i) = table_hash_key (key_schema d)))"

lemma check_attribute_definitions_Inr:
  "check_attribute_definitions ds = Inr () \<longleftrightarrow> (\<forall>d \<in> set ds. ad_attribute_name d \<noteq> [] \<and> attribute_type d \<in> {''S'', ''N'', ''B''})"
  by (induction ds) auto

lemma check_table_keys_Inr:
  "check_table_keys A schema = Inr () \<longleftrightarrow> (\<forall>e \<in> set schema. attribute_name e \<noteq> []) \<and> keys_defined A schema"
  by (induction schema) (auto simp: keys_defined_def)

lemma check_index_keys_Inr: "check_index_keys what A schema = Inr () \<longleftrightarrow> keys_defined A schema"
  by (induction schema) (auto simp: keys_defined_def)

definition index_requests_ok :: "string set \<Rightarrow> string set \<Rightarrow> secondary_index_request list \<Rightarrow> bool" where
  "index_requests_ok A names ixs \<longleftrightarrow>
     distinct (map ixr_index_name ixs) \<and> [] \<notin> set (map ixr_index_name ixs) \<and> names \<inter> set (map ixr_index_name ixs) = {}
     \<and> (\<forall>i \<in> set ixs. one_hash_key (ixr_key_schema i) \<and> keys_defined A (ixr_key_schema i))"

lemma index_requests_ok_Cons:
  "index_requests_ok A names (ix # ixs) \<longleftrightarrow>
     ixr_index_name ix \<noteq> [] \<and> ixr_index_name ix \<notin> names \<and> one_hash_key (ixr_key_schema ix)
     \<and> keys_defined A (ixr_key_schema ix) \<and> index_requests_ok A (insert (ixr_index_name ix) names) ixs"
  by (auto simp: index_requests_ok_def)

lemma index_requests_ok_Nil [simp]: "index_requests_ok A names []"
  by (simp add: index_requests_ok_def)

lemma check_global_indexes_Inr:
  "check_global_indexes A names ixs = Inr used \<Longrightarrow>
     index_requests_ok A names ixs \<and> used = names \<union> set (map ixr_index_name ixs)"
proof (induction ixs arbitrary: names)
  case (Cons ix ixs)
  then show ?case
    by (auto simp: index_requests_ok_Cons bind_res_Inr_iff check_index_keys_Inr dest!: Cons.IH split: if_splits)
qed simp

lemma local_one_hash_key:
  assumes "length schema = 2" "key_type (schema ! 0) = ''HASH''" "key_kind ''RANGE'' schema = 1"
  shows "one_hash_key schema \<and> table_hash_key schema = attribute_name (schema ! 0)"
proof -
  obtain a b where s: "schema = [a, b]" using assms(1) by (auto simp: length_Suc_conv numeral_2_eq_2)
  then have "key_type b = ''RANGE''" using assms by (auto simp: key_kind_def split: if_splits)
  then show ?thesis using s assms by (simp add: one_hash_key_def key_kind_def)
qed

lemma check_local_indexes_Inr:
  "check_local_indexes hash A names ixs = Inr () \<Longrightarrow>
     index_requests_ok A names ixs \<and> (\<forall>i \<in> set ixs. table_hash_key (ixr_key_schema i) = hash)"
proof (induction ixs arbitrary: names)
  case (Cons ix ixs)
  then have "one_hash_key (ixr_key_schema ix)" "table_hash_key (ixr_key_schema ix) = hash"
    using local_one_hash_key[of "ixr_key_schema ix"] by (auto simp: bind_res_Inr_iff split: if_splits)
  with Cons show ?case
    by (auto simp: index_requests_ok_Cons bind_res_Inr_iff check_index_keys_Inr dest!: Cons.IH split: if_splits)
qed simp

lemma map_gsi_descriptions:
  "map gsi_index_name (gsi_descriptions r t ixs) = map ixr_index_name ixs"
  "map gsi_key_schema (gsi_descriptions r t ixs) = map ixr_key_schema ixs"
  by (simp_all add: gsi_descriptions_def)

lemma map_lsi_descriptions:
  "map lsi_index_name (lsi_descriptions r t ixs) = map ixr_index_name ixs"
  "map lsi_key_schema (lsi_descriptions r t ixs) = map ixr_key_schema ixs"
  by (simp_all add: lsi_descriptions_def)

lemma valid_request_schema_ok:
  assumes "validate_create_table_request r = Inr ()"
    "attribute_definitions d = ctr_attribute_definitions r" "key_schema d = ctr_key_schema r"
    "global_secondary_indexes d = gsi_descriptions region t (ctr_global_secondary_indexes r)"
    "local_secondary_indexes d = lsi_descriptions region t (ctr_local_secondary_indexes r)"
  shows "schema_ok d"
proof -
  let ?A = "ad_attribute_name ` set (ctr_attribute_definitions r)"
  let ?g = "ctr_global_secondary_indexes r" and ?l = "ctr_local_secondary_indexes r"
  have defs: "check_attribute_definitions (ctr_attribute_definitions r) = Inr ()"
    and keys: "check_table_keys ?A (ctr_key_schema r) = Inr ()" "one_hash_key (ctr_key_schema r)"
    and gl: "\<exists>names. check_global_indexes ?A {} ?g = Inr names
      \<and> check_local_indexes (table_hash_key (ctr_key_schema r)) ?A names ?l = Inr ()"
    using assms(1) by (auto simp: validate_create_table_request_def Let_def bind_res_Inr_iff split: if_splits)
  then have "index_requests_ok ?A {} ?g" "index_requests_ok ?A (set (map ixr_index_name ?g)) ?l"
    "\<forall>i \<in> set ?l. table_hash_key (ixr_key_schema i) = table_hash_key (ctr_key_schema r)"
    by (auto dest!: check_global_indexes_Inr check_local_indexes_Inr)
  moreover have "index_names d = map ixr_index_name ?g @ map ixr_index_name ?l"
    by (simp add: index_names_def assms map_gsi_descriptions map_lsi_descriptions)
  ultimately show ?thesis using defs keys
    by (auto simp: schema_ok_def assms check_table_keys_Inr check_attribute_definitions_Inr index_requests_ok_def
        gsi_descriptions_def lsi_descriptions_def Let_def)
qed


lemma keys_defined_mono: "keys_defined A schema \<Longrightarrow> A \<subseteq> B \<Longrightarrow> keys_defined B schema"
  by (auto simp: keys_defined_def)

lemma merged_definitions:
  "ad_attribute_name ` set (merge_from seen ds) = {n \<in> ad_attribute_name ` set ds. n \<noteq> [] \<and> n \<notin> seen}"
  by (induction ds arbitrary: seen) auto

lemma merge_attribute_definitions_set:
  "ad_attribute_name ` set (merge_attribute_definitions ds us) = attribute_definition_set ds us"
  by (auto simp: merge_attribute_definitions_def attribute_definition_set_def image_Un merged_definitions)

lemma table_has_index_iff: "table_has_index d n \<longleftrightarrow> n \<in> set (index_names d)"
  by (auto simp: table_has_index_def index_names_def list_ex_iff)

lemma remove_first_set: "set (remove_first P xs) \<subseteq> set xs"
  by (induction xs) auto

lemma distinct_remove_first: "distinct (map f xs) \<Longrightarrow> distinct (map f (remove_first P xs))"
proof (induction xs)
  case (Cons x xs)
  then show ?case using remove_first_set[of P xs] by auto
qed simp

lemma apply_index_update_cases:
  assumes "apply_index_update region ds A upd d = Inr d'"
  obtains (create) ix where "validate_global_secondary_index_create ix A d = Inr ()"
      "d' = d\<lparr>attribute_definitions := merge_attribute_definitions (attribute_definitions d) ds,
        global_secondary_indexes := global_secondary_indexes d @ gsi_descriptions region (table_name d) [ix]\<rparr>"
  | (delete) n where "d' = d\<lparr>global_secondary_indexes := remove_first (\<lambda>i. gsi_index_name i = n) (global_secondary_indexes d)\<rparr>"
  using assms
  by (cases "giu_create upd"; cases "giu_delete upd"; cases "giu_update upd")
     (auto simp: apply_index_update_def bind_res_Inr_iff split: if_splits)

lemma merged_definitions_set:
  "attribute_definition_set (merge_attribute_definitions ds us) us = attribute_definition_set ds us"
  using merge_attribute_definitions_set[of ds us] by (auto simp: attribute_definition_set_def)

lemma apply_index_update_attributes:
  assumes "apply_index_update region ds A upd d = Inr d'" 
  shows "attribute_definition_set (attribute_definitions d') ds = attribute_definition_set (attribute_definitions d) ds"
  using assms by (cases rule: apply_index_update_cases) (simp_all add: merged_definitions_set)

lemma created_index_schema_ok:
  assumes "schema_ok d" "validate_global_secondary_index_create ix (attribute_definition_set (attribute_definitions d) ds) d = Inr ()"
  shows "schema_ok (d\<lparr>attribute_definitions := merge_attribute_definitions (attribute_definitions d) ds,
    global_secondary_indexes := global_secondary_indexes d @ gsi_descriptions region t [ix]\<rparr>)"
proof -
  let ?A = "ad_attribute_name ` set (attribute_definitions d)"
    and ?B = "attribute_definition_set (attribute_definitions d) ds"
  have ix: "ixr_index_name ix \<noteq> []" "ixr_index_name ix \<notin> set (index_names d)" "one_hash_key (ixr_key_schema ix)"
    "keys_defined ?B (ixr_key_schema ix)"
    using assms(2) by (auto simp: validate_global_secondary_index_create_def table_has_index_iff bind_res_Inr_iff
      check_index_keys_Inr split: if_splits)
  have "?A \<subseteq> ?B" by (auto simp: attribute_definition_set_def)
  moreover have "[] \<notin> ?B" using assms(1) by (auto simp: schema_ok_def attribute_definition_set_def Let_def)
  ultimately show ?thesis using assms(1) ix
    by (auto simp: schema_ok_def Let_def merge_attribute_definitions_set index_names_def gsi_descriptions_def
      intro: keys_defined_mono)
qed

lemma deleted_index_schema_ok:
  assumes "schema_ok d"
  shows "schema_ok (d\<lparr>global_secondary_indexes := remove_first P (global_secondary_indexes d)\<rparr>)"
proof -
  have sub: "set (remove_first P (global_secondary_indexes d)) \<subseteq> set (global_secondary_indexes d)" by (rule remove_first_set)
  have "distinct (map gsi_index_name (remove_first P (global_secondary_indexes d)) @ map lsi_index_name (local_secondary_indexes d))"
    using assms sub by (auto simp: schema_ok_def Let_def index_names_def intro!: distinct_remove_first)
  then show ?thesis using assms sub by (auto simp: schema_ok_def Let_def index_names_def)
qed

lemma apply_index_update_schema_ok:
  assumes "apply_index_update region ds A upd d = Inr d'" "A = attribute_definition_set (attribute_definitions d) ds" "schema_ok d"
  shows "schema_ok d'"
  using assms(1) by (cases rule: apply_index_update_cases)
    (use assms(2,3) created_index_schema_ok deleted_index_schema_ok in simp_all)

lemma apply_index_updates_schema_ok:
  "apply_index_updates region ds A updates d = Inr d' \<Longrightarrow> A = attribute_definition_set (attribute_definitions d) ds \<Longrightarrow>
   schema_ok d \<Longrightarrow> schema_ok d'"
proof (induction updates arbitrary: d)
  case (Cons upd updates)
  then obtain e where e: "apply_index_update region ds A upd d = Inr e" "apply_index_updates region ds A updates e = Inr d'"
    by (auto simp: bind_res_Inr_iff)
  then show ?case
    using Cons.IH[OF e(2)] apply_index_update_attributes[OF e(1)] apply_index_update_schema_ok[OF e(1)] Cons.prems(2,3) by simp
qed simp

lemma index_updates_schema_ok:
  "apply_global_secondary_index_updates region ds updates d = Inr d' \<Longrightarrow> schema_ok d \<Longrightarrow> schema_ok d'"
  by (auto simp: apply_global_secondary_index_updates_def bind_res_Inr_iff intro: apply_index_updates_schema_ok)

end
