(* ===== verification/Dynamo_Store.thy ===== *)
theory Dynamo_Store
  imports Dynamo_Tables Time_Fmt Contracts
begin

text \<open>
  The state of the DynamoDB server (\<open>services/dynamodb/src/server.rs\<close>), its tables and stream records
  (\<open>streams.rs\<close>), how the state is encoded (\<open>model.rs\<close>, \<open>persistence.rs\<close>), and how it is saved and loaded.
  The text of a struct is that of the object with its fields in the order of their declaration.
  The server keeps the encoded text of each table and writes it again for the tables that did not
  change; \<open>cache_ok\<close> says when that is right, and then the bytes written are the encoding of the whole
  state. Decoding text is \<open>serde\<close>'s and a parameter, the record \<open>serde_parse\<close>. The clock hooks used in
  tests are left out.
\<close>

section \<open>Backups and streams\<close>

record continuous_backups_description =
  continuous_backups_status :: string
  point_in_time_recovery_status :: string

record backup_details =
  bd_backup_arn :: string
  bd_backup_creation_date_time :: int
  bd_backup_name :: string
  bd_backup_size_bytes :: int
  bd_backup_status :: string
  bd_backup_type :: string

record source_table_details =
  src_attribute_definitions :: "attribute_definition list"
  src_billing_mode :: string
  src_item_count :: int
  src_key_schema :: "key_schema_element list"
  src_table_arn :: string
  src_table_creation_date_time :: int
  src_table_id :: string
  src_table_name :: string
  src_table_size_bytes :: int

record backup_description =
  backup_details :: backup_details
  source_table_details :: source_table_details

record stream_record_image =
  approximate_creation_date_time :: int
  sri_keys :: item
  new_image :: item
  old_image :: item
  sequence_number :: string
  size_bytes :: int
  sri_stream_view_type :: string

record stream_record =
  event_id :: string
  event_name :: string
  event_source :: string
  event_version :: string
  aws_region :: string
  sr_dynamodb :: stream_record_image

section \<open>JSON forms\<close>

abbreviation num :: "int \<Rightarrow> json" where
  "num n \<equiv> Number (Int_num n)"

text \<open>A field that is left out under a condition (\<open>skip_serializing_if\<close>).\<close>

definition unless :: "bool \<Rightarrow> string \<Rightarrow> json \<Rightarrow> (string \<times> json) list" where
  "unless skip k v = (if skip then [] else [(k, v)])"

definition attribute_definition_json :: "attribute_definition \<Rightarrow> json" where
  "attribute_definition_json d =
     Object [(''AttributeName'', String (ad_attribute_name d)), (''AttributeType'', String (attribute_type d))]"

definition key_schema_json :: "key_schema_element list \<Rightarrow> json" where
  "key_schema_json schema =
     Array (map (\<lambda>e. Object [(''AttributeName'', String (attribute_name e)), (''KeyType'', String (key_type e))]) schema)"

definition stream_specification_json :: "stream_specification \<Rightarrow> json" where
  "stream_specification_json spec =
     Object ([(''StreamEnabled'', Bool (stream_enabled_flag spec))] @
       unless (stream_view_type spec = []) ''StreamViewType'' (String (stream_view_type spec)))"

definition time_to_live_json :: "time_to_live_description \<Rightarrow> json" where
  "time_to_live_json t =
     Object (unless (ttl_attribute_name t = []) ''AttributeName'' (String (ttl_attribute_name t)) @
       [(''TimeToLiveStatus'', String (time_to_live_status t))])"

definition projection_json :: "index_projection \<Rightarrow> json" where
  "projection_json p =
     Object ([(''ProjectionType'', String (projection_type p))] @
       unless (non_key_attributes p = []) ''NonKeyAttributes'' (Array (map String (non_key_attributes p))))"

definition gsi_json :: "global_secondary_index_description \<Rightarrow> json" where
  "gsi_json i =
     Object ([(''IndexArn'', String (gsi_index_arn i)), (''IndexName'', String (gsi_index_name i)),
       (''IndexSizeBytes'', num (gsi_index_size_bytes i)), (''IndexStatus'', String (gsi_index_status i)),
       (''ItemCount'', num (gsi_item_count i)), (''KeySchema'', key_schema_json (gsi_key_schema i)),
       (''Projection'', projection_json (gsi_projection i))] @
       unless (gsi_provisioned_throughput i = []) ''ProvisionedThroughput''
         (Object (map (\<lambda>(k, n). (k, num n)) (gsi_provisioned_throughput i))))"

definition lsi_json :: "local_secondary_index_description \<Rightarrow> json" where
  "lsi_json i =
     Object [(''IndexArn'', String (lsi_index_arn i)), (''IndexName'', String (lsi_index_name i)),
       (''IndexSizeBytes'', num (lsi_index_size_bytes i)), (''ItemCount'', num (lsi_item_count i)),
       (''KeySchema'', key_schema_json (lsi_key_schema i)), (''Projection'', projection_json (lsi_projection i))]"

definition description_json :: "table_description \<Rightarrow> json" where
  "description_json d =
     Object (
       unless (attribute_definitions d = []) ''AttributeDefinitions'' (Array (map attribute_definition_json (attribute_definitions d))) @
       (case billing_mode_summary d of None \<Rightarrow> [] | Some m \<Rightarrow> [(''BillingModeSummary'', Object [(''BillingMode'', String m)])]) @
       [(''CreationDateTime'', num (creation_date_time d))] @
       unless (global_secondary_indexes d = []) ''GlobalSecondaryIndexes'' (Array (map gsi_json (global_secondary_indexes d))) @
       [(''ItemCount'', num (item_count d))] @
       unless (key_schema d = []) ''KeySchema'' (key_schema_json (key_schema d)) @
       unless (latest_stream_arn d = []) ''LatestStreamArn'' (String (latest_stream_arn d)) @
       unless (latest_stream_label d = []) ''LatestStreamLabel'' (String (latest_stream_label d)) @
       unless (local_secondary_indexes d = []) ''LocalSecondaryIndexes'' (Array (map lsi_json (local_secondary_indexes d))) @
       (case stream_spec d of None \<Rightarrow> [] | Some spec \<Rightarrow> [(''StreamSpecification'', stream_specification_json spec)]) @
       [(''TableArn'', String (table_arn d)), (''TableName'', String (table_name d)),
        (''TableSizeBytes'', num (table_size_bytes d)), (''TableStatus'', String (table_status d))] @
       (case ttl_description d of None \<Rightarrow> [] | Some t \<Rightarrow> [(''TimeToLiveDescription'', time_to_live_json t)]))"

definition continuous_backups_json :: "continuous_backups_description \<Rightarrow> json" where
  "continuous_backups_json c =
     Object [(''ContinuousBackupsStatus'', String (continuous_backups_status c)),
       (''PointInTimeRecoveryDescription'', Object [(''PointInTimeRecoveryStatus'', String (point_in_time_recovery_status c))])]"

definition backup_details_json :: "backup_details \<Rightarrow> json" where
  "backup_details_json b =
     Object [(''BackupArn'', String (bd_backup_arn b)), (''BackupCreationDateTime'', num (bd_backup_creation_date_time b)),
       (''BackupName'', String (bd_backup_name b)), (''BackupSizeBytes'', num (bd_backup_size_bytes b)),
       (''BackupStatus'', String (bd_backup_status b)), (''BackupType'', String (bd_backup_type b))]"

definition source_table_json :: "source_table_details \<Rightarrow> json" where
  "source_table_json t =
     Object (
       unless (src_attribute_definitions t = []) ''AttributeDefinitions''
         (Array (map attribute_definition_json (src_attribute_definitions t))) @
       unless (src_billing_mode t = []) ''BillingMode'' (String (src_billing_mode t)) @
       [(''ItemCount'', num (src_item_count t))] @
       unless (src_key_schema t = []) ''KeySchema'' (key_schema_json (src_key_schema t)) @
       [(''TableArn'', String (src_table_arn t)), (''TableCreationDateTime'', num (src_table_creation_date_time t)),
        (''TableId'', String (src_table_id t)), (''TableName'', String (src_table_name t)),
        (''TableSizeBytes'', num (src_table_size_bytes t))])"

definition backup_json :: "backup_description \<Rightarrow> json" where
  "backup_json b =
     Object [(''BackupDetails'', backup_details_json (backup_details b)),
       (''SourceTableDetails'', source_table_json (source_table_details b))]"

definition stream_image_json :: "stream_record_image \<Rightarrow> json" where
  "stream_image_json i =
     Object ([(''ApproximateCreationDateTime'', num (approximate_creation_date_time i)), (''Keys'', Object (sri_keys i))] @
       unless (new_image i = []) ''NewImage'' (Object (new_image i)) @
       unless (old_image i = []) ''OldImage'' (Object (old_image i)) @
       [(''SequenceNumber'', String (sequence_number i)), (''SizeBytes'', num (size_bytes i)),
        (''StreamViewType'', String (sri_stream_view_type i))])"

definition stream_record_json :: "stream_record \<Rightarrow> json" where
  "stream_record_json r =
     Object [(''eventID'', String (event_id r)), (''eventName'', String (event_name r)), (''eventSource'', String (event_source r)),
       (''eventVersion'', String (event_version r)), (''awsRegion'', String (aws_region r)),
       (''dynamodb'', stream_image_json (sr_dynamodb r))]"

section \<open>Stream records\<close>

definition stream_event_name :: "bool \<Rightarrow> bool \<Rightarrow> string" where
  "stream_event_name existed delete = (if delete then ''REMOVE'' else if existed then ''MODIFY'' else ''INSERT'')"

definition image_of :: "string \<Rightarrow> string \<Rightarrow> item option \<Rightarrow> item option \<Rightarrow> item \<times> item" where
  "image_of view_type event old_item new_item =
     (let new = (if event \<noteq> ''REMOVE'' then (case new_item of Some i \<Rightarrow> i | None \<Rightarrow> []) else []);
          old = (case old_item of Some i \<Rightarrow> i | None \<Rightarrow> []) in
      if view_type = ''NEW_IMAGE'' then (new, [])
      else if view_type = ''OLD_IMAGE'' then ([], old)
      else if view_type = ''NEW_AND_OLD_IMAGES'' then (new, old)
      else ([], []))"

definition build_stream_record ::
  "ddb_crates \<Rightarrow> table_description \<Rightarrow> string \<Rightarrow> nat \<Rightarrow> string \<Rightarrow> item option \<Rightarrow> item option \<Rightarrow> int \<Rightarrow> stream_record option" where
  "build_stream_record X d region existing_count event old_item new_item now =
     (case stream_spec d of None \<Rightarrow> None | Some spec \<Rightarrow>
      if \<not> stream_enabled_flag spec then None
      else if event = ''REMOVE'' \<and> old_item = None then None
      else case (if event = ''REMOVE'' then old_item else new_item) of None \<Rightarrow> None | Some source \<Rightarrow>
        (case extract_key d source of Inl _ \<Rightarrow> None | Inr key_attributes \<Rightarrow>
          let sequence = dec (existing_count + 1);
              (new, old) = image_of (stream_view_type spec) event old_item new_item;
              image = \<lparr>approximate_creation_date_time = now, sri_keys = key_attributes, new_image = new, old_image = old,
                       sequence_number = sequence, size_bytes = 0, sri_stream_view_type = stream_view_type spec\<rparr> in
          Some \<lparr>event_id = table_name d @ '':'' @ sequence, event_name = event, event_source = ''aws:dynamodb'',
                event_version = ''1.1'', aws_region = region,
                sr_dynamodb = image\<lparr>size_bytes := int (length (marshal X (stream_image_json image)))\<rparr>\<rparr>))"

section \<open>Tables\<close>

record table_state =
  description :: table_description
  items :: "(string, item) bmap"
  stream_records :: "stream_record list"
  tags :: "(string, string) bmap"
  continuous_backups :: "continuous_backups_description option"
  resource_policy :: string
  resource_policy_revision :: string

definition table_state_new :: "table_description \<Rightarrow> table_state" where
  "table_state_new d = \<lparr>description = d, items = [], stream_records = [], tags = [], continuous_backups = None,
     resource_policy = [], resource_policy_revision = []\<rparr>"

definition count_with :: "key_schema_element list \<Rightarrow> (string, item) bmap \<Rightarrow> int" where
  "count_with schema its = int (length (filter (\<lambda>e. item_has_all_keys (snd e) schema) its))"

definition update_index_item_counts :: "table_state \<Rightarrow> table_state" where
  "update_index_item_counts t =
     t\<lparr>description := (description t)\<lparr>
         global_secondary_indexes := map (\<lambda>i. i\<lparr>gsi_item_count := count_with (gsi_key_schema i) (items t)\<rparr>)
           (global_secondary_indexes (description t)),
         local_secondary_indexes := map (\<lambda>i. i\<lparr>lsi_item_count := count_with (lsi_key_schema i) (items t)\<rparr>)
           (local_secondary_indexes (description t))\<rparr>\<rparr>"

text \<open>The two steps that follow every change of the items: \<open>item_count\<close>, then the counts of the indexes.\<close>

definition recount :: "table_state \<Rightarrow> table_state" where
  "recount t = update_index_item_counts (t\<lparr>description := (description t)\<lparr>item_count := int (length (items t))\<rparr>\<rparr>)"

section \<open>The server\<close>

record ddb_config =
  dc_addr :: string
  dc_region :: string
  dc_auth_mode :: string
  dc_access_key_id :: string
  dc_secret_access_key :: string
  dc_storage_path :: string
  dc_max_item_bytes :: int
  dc_max_tables :: int

definition dc_region_or_default :: "ddb_config \<Rightarrow> string" where
  "dc_region_or_default c = (if dc_region c = [] then ''us-east-1'' else dc_region c)"

definition max_tables :: "ddb_config \<Rightarrow> int" where
  "max_tables c = (if dc_max_tables c > 0 then dc_max_tables c else 256)"

definition max_item_bytes :: "ddb_config \<Rightarrow> int" where
  "max_item_bytes c = (if dc_max_item_bytes c > 0 then dc_max_item_bytes c else 400000)"

text \<open>The file \<open>state.json\<close> is part of the state: its bytes, once written.\<close>

record ddb_server =
  dconfig :: ddb_config
  tables :: "(string, table_state) bmap"
  backups :: "(string, backup_description) bmap"
  backup_tables :: "(string, table_description) bmap"
  backup_items :: "(string, (string, item) bmap) bmap"
  ddb_load_err :: "string option"
  table_cache :: "(string, string) bmap"
  dirty_tables :: "string set"
  ddb_file :: "string option"

definition append_stream_record ::
  "ddb_crates \<Rightarrow> string \<Rightarrow> int \<Rightarrow> string \<Rightarrow> item option \<Rightarrow> item option \<Rightarrow> table_state \<Rightarrow> table_state" where
  "append_stream_record X region now event old_item new_item t =
     (case build_stream_record X (description t) region (length (stream_records t)) event old_item new_item now of
        None \<Rightarrow> t
      | Some r \<Rightarrow> t\<lparr>stream_records := stream_records t @ [r]\<rparr>)"

definition now_unix :: "env \<Rightarrow> nat \<Rightarrow> int" where
  "now_unix E i = int (clock E i div 10 ^ 9)"

definition now_millis :: "env \<Rightarrow> nat \<Rightarrow> int" where
  "now_millis E i = int (clock E i div 10 ^ 6)"

definition stream_label :: "int \<Rightarrow> string" where
  "stream_label unix_millis =
     (let secs = unix_millis div 1000; millis = unix_millis mod 1000;
          days = secs div 86400; secs_of_day = secs mod 86400;
          (year, month, day) = civil_from_days days in
      pad_int 4 year @ ''-'' @ pad_int 2 month @ ''-'' @ pad_int 2 day @ ''T'' @ pad_int 2 (secs_of_day div 3600) @ '':''
      @ pad_int 2 (secs_of_day mod 3600 div 60) @ '':'' @ pad_int 2 (secs_of_day mod 60) @ ''.'' @ pad_int 3 millis)"

section \<open>Encoding the state\<close>

definition items_json :: "(string, item) bmap \<Rightarrow> json" where
  "items_json its = Object (map (\<lambda>(k, i). (k, Object i)) its)"

definition table_json :: "table_state \<Rightarrow> json" where
  "table_json t =
     Object ([(''description'', description_json (description t)), (''items'', items_json (items t))] @
       unless (stream_records t = []) ''streamRecords'' (Array (map stream_record_json (stream_records t))) @
       unless (tags t = []) ''tags'' (Object (map (\<lambda>(k, v). (k, String v)) (tags t))) @
       (case continuous_backups t of None \<Rightarrow> [] | Some c \<Rightarrow> [(''continuousBackups'', continuous_backups_json c)]) @
       unless (resource_policy t = []) ''resourcePolicy'' (String (resource_policy t)) @
       unless (resource_policy_revision t = []) ''resourcePolicyRevision'' (String (resource_policy_revision t)))"

definition encode_persisted_table :: "ddb_crates \<Rightarrow> table_state \<Rightarrow> string" where
  "encode_persisted_table X t = marshal X (table_json t)"

text \<open>\<open>PersistedTable\<close> has the fields of \<open>TableState\<close> and is the same record here.\<close>

record ddb_persisted =
  ps_tables :: "(string, table_state) bmap"
  ps_backups :: "(string, backup_description) bmap"
  ps_backup_tables :: "(string, table_description) bmap"
  ps_backup_items :: "(string, (string, item) bmap) bmap"

definition backups_json :: "(string, backup_description) bmap \<Rightarrow> json" where
  "backups_json bs = Object (map (\<lambda>(arn, b). (arn, backup_json b)) bs)"

definition backup_tables_json :: "(string, table_description) bmap \<Rightarrow> json" where
  "backup_tables_json bs = Object (map (\<lambda>(arn, d). (arn, description_json d)) bs)"

definition backup_items_json :: "(string, (string, item) bmap) bmap \<Rightarrow> json" where
  "backup_items_json bs = Object (map (\<lambda>(arn, its). (arn, items_json its)) bs)"

definition state_json :: "ddb_persisted \<Rightarrow> json" where
  "state_json p =
     Object ([(''tables'', Object (map (\<lambda>(n, t). (n, table_json t)) (ps_tables p)))] @
       unless (ps_backups p = []) ''backups'' (backups_json (ps_backups p)) @
       unless (ps_backup_tables p = []) ''backupTables'' (backup_tables_json (ps_backup_tables p)) @
       unless (ps_backup_items p = []) ''backupItems'' (backup_items_json (ps_backup_items p)))"

definition newline :: string where
  "newline = [CHR 0x0A]"

definition to_state_json :: "ddb_crates \<Rightarrow> ddb_persisted \<Rightarrow> string" where
  "to_state_json X p = marshal X (state_json p) @ newline"

definition ddb_persisted_of :: "ddb_server \<Rightarrow> ddb_persisted" where
  "ddb_persisted_of s = \<lparr>ps_tables = tables s, ps_backups = backups s, ps_backup_tables = backup_tables s,
     ps_backup_items = backup_items s\<rparr>"

section \<open>Saving and loading\<close>

definition fresh_tables :: "ddb_crates \<Rightarrow> ddb_server \<Rightarrow> (string, string) bmap" where
  "fresh_tables X s =
     map (\<lambda>(n, t). (n, encode_persisted_table X t))
       (filter (\<lambda>(n, t). n \<in> dirty_tables s \<or> \<not> bt_contains (table_cache s) n) (tables s))"

text \<open>The bytes of a table, fresh or cached; a table that is not in the cache is fresh, so one of the two exists.\<close>

definition encoded_table :: "ddb_server \<Rightarrow> (string, string) bmap \<Rightarrow> string \<Rightarrow> string" where
  "encoded_table s fresh n =
     (case map_of fresh n of Some b \<Rightarrow> b | None \<Rightarrow> (case map_of (table_cache s) n of Some b \<Rightarrow> b | None \<Rightarrow> []))"

definition optional_member :: "ddb_crates \<Rightarrow> bool \<Rightarrow> string \<Rightarrow> json \<Rightarrow> string" where
  "optional_member X skip k v = (if skip then [] else '','' @ quoted k @ '':'' @ marshal X v)"

definition assemble_state :: "ddb_crates \<Rightarrow> ddb_server \<Rightarrow> (string, string) bmap \<Rightarrow> string" where
  "assemble_state X s fresh =
     ''{'' @ quoted ''tables'' @ '':{'' @
     join '','' (map (\<lambda>(n, t). marshal X (String n) @ '':'' @ encoded_table s fresh n) (tables s)) @ ''}'' @
     optional_member X (backups s = []) ''backups'' (backups_json (backups s)) @
     optional_member X (backup_tables s = []) ''backupTables'' (backup_tables_json (backup_tables s)) @
     optional_member X (backup_items s = []) ''backupItems'' (backup_items_json (backup_items s)) @
     ''}'' @ newline"

definition persist_failed :: api_error where
  "persist_failed = internal ''failed to persist dynamodb state''"

definition ddb_persist :: "ddb_crates \<Rightarrow> fs_outcome \<Rightarrow> ddb_server \<Rightarrow> unit api \<times> ddb_server" where
  "ddb_persist X io s =
     (if dc_storage_path (dconfig s) = [] then (Inr (), s)
      else if create_dir_err io \<noteq> None then (Inl persist_failed, s)
      else let fresh = fresh_tables X s; buf = assemble_state X s fresh in
        if write_err io \<noteq> None then (Inl persist_failed, s)
        else if rename_err io \<noteq> None then (Inl persist_failed, s)
        else (Inr (), s\<lparr>ddb_file := Some buf,
          table_cache := filter (\<lambda>(n, _). bt_contains (tables s) n) (bt_extend (table_cache s) fresh),
          dirty_tables := {}\<rparr>))"

text \<open>What every handler does last: save, and undo its change when that fails.\<close>

definition save_or_undo :: "ddb_crates \<Rightarrow> fs_outcome \<Rightarrow> (ddb_server \<Rightarrow> ddb_server) \<Rightarrow> 'a \<Rightarrow> ddb_server \<Rightarrow> 'a api \<times> ddb_server" where
  "save_or_undo X io undo answer s =
     (case ddb_persist X io s of (Inl e, s') \<Rightarrow> (Inl e, undo s') | (Inr _, s') \<Rightarrow> (Inr answer, s'))"

record serde_parse =
  state_from_slice :: "string \<Rightarrow> ddb_persisted result"
  is_json_text :: "string \<Rightarrow> bool"

datatype file_bytes =
    Bytes_missing
  | Bytes_unreadable string
  | Bytes string

definition load_table :: "table_state \<Rightarrow> table_state" where
  "load_table t = recount t"

definition ddb_load :: "serde_parse \<Rightarrow> file_bytes \<Rightarrow> ddb_server \<Rightarrow> unit result \<times> ddb_server" where
  "ddb_load D f s =
     (case f of
        Bytes_missing \<Rightarrow> (Inr (), s)
      | Bytes_unreadable e \<Rightarrow> (Inl e, s)
      | Bytes b \<Rightarrow>
          (case state_from_slice D b of
             Inl e \<Rightarrow> (Inl e, s)
           | Inr p \<Rightarrow> (Inr (), s\<lparr>tables := fold (\<lambda>(n, t). bt_insert n (load_table t)) (ps_tables p) (tables s),
               backups := ps_backups p, backup_tables := ps_backup_tables p, backup_items := ps_backup_items p\<rparr>)))"

definition ddb_new :: "serde_parse \<Rightarrow> ddb_config \<Rightarrow> file_bytes \<Rightarrow> ddb_server" where
  "ddb_new D c f =
     (let s = \<lparr>dconfig = c, tables = [], backups = [], backup_tables = [], backup_items = [], ddb_load_err = None,
               table_cache = [], dirty_tables = {}, ddb_file = (case f of Bytes b \<Rightarrow> Some b | _ \<Rightarrow> None)\<rparr> in
      if dc_storage_path c = [] then s
      else (case ddb_load D f s of (Inl e, s') \<Rightarrow> s'\<lparr>ddb_load_err := Some e\<rparr> | (Inr _, s') \<Rightarrow> s'))"

section \<open>The text that is written\<close>

text \<open>What saving relies on of \<open>serde_json\<close>, beyond \<open>json_text\<close>: an object is written member by member, and a text
  begins with an ASCII character.\<close>

definition ascii_start :: "string \<Rightarrow> bool" where
  "ascii_start t \<longleftrightarrow> t = [] \<or> ascii (hd t) < 128"

lemma ascii_start_simps [simp]:
  "ascii_start []" "ascii_start (c # t) \<longleftrightarrow> ascii c < 128"
  by (simp_all add: ascii_start_def)

lemma separator_append:
  assumes "ascii_start t" "ascii c \<ge> 128"
  shows "starts_with (s @ t) [CHR 0x80, c] \<longleftrightarrow> starts_with s [CHR 0x80, c]"
proof -
  have t: "t = [] \<or> (\<exists>d u. t = d # u \<and> d \<noteq> CHR 0x80 \<and> d \<noteq> c)"
    using assms by (cases t) (auto simp: ascii_def)
  then show ?thesis
    by (cases s; cases "tl s") (auto simp: starts_with_simps)
qed

lemma escape_append: "ascii_start t \<Longrightarrow> escape_loop (s @ t) = escape_loop s @ escape_loop t"
proof (induction s rule: escape_loop.induct)
  case (2 b s)
  have eq: "starts_with (s @ t) [CHR 0x80, CHR 0xA8] = starts_with s [CHR 0x80, CHR 0xA8]"
    "starts_with (s @ t) [CHR 0x80, CHR 0xA9] = starts_with s [CHR 0x80, CHR 0xA9]"
    using 2(7) by (simp_all add: separator_append ascii_def)
  have "starts_with s [CHR 0x80, CHR 0xA8] \<Longrightarrow> 2 \<le> length s" "starts_with s [CHR 0x80, CHR 0xA9] \<Longrightarrow> 2 \<le> length s"
    by (auto simp: starts_with_iff)
  with 2 eq show ?case by simp
qed simp

lemma escape_colon: "escape_loop (s @ '':'' @ t) = escape_loop s @ '':'' @ escape_loop t"
  using escape_append[of "'':'' @ t" s] by (simp add: ascii_def)

lemma escape_comma: "escape_loop (s @ '','' @ t) = escape_loop s @ '','' @ escape_loop t"
  using escape_append[of "'','' @ t" s] by (simp add: ascii_def)

lemma escape_braces: "escape_loop (''{'' @ s @ ''}'') = ''{'' @ escape_loop s @ ''}''"
  using escape_append[of "''}''" s] by (simp add: ascii_def)

lemma escape_join: "escape_loop (join '','' ws) = join '','' (map escape_loop ws)"
  by (induction "'',''" ws rule: join.induct) (simp_all only: join.simps list.map escape_comma escape_loop.simps)

lemma escape_quoted: "list_all is_ascii_alphanumeric k \<Longrightarrow> escape_loop (quoted k) = quoted k"
  by (rule escape_loop_plain)
     (auto simp: quoted_def list_ex_iff list_all_iff html_special_def is_ascii_alphanumeric_def
       is_ascii_digit_def is_ascii_uppercase_def is_ascii_lowercase_def ascii_def)

locale json_object_text = json_text +
  assumes to_vec_object:
    "to_vec (Object es) = ''{'' @ join '','' (map (\<lambda>(k, v). to_vec (String k) @ '':'' @ to_vec v) es) @ ''}''"
    and to_vec_string: "list_all is_ascii_alphanumeric k \<Longrightarrow> to_vec (String k) = quoted k"
begin

lemma escaped_object:
  "html_escape (to_vec (Object es)) =
     ''{'' @ join '','' (map (\<lambda>(k, v). html_escape (to_vec (String k)) @ '':'' @ html_escape (to_vec v)) es) @ ''}''"
  by (simp add: html_escape_loop to_vec_object escape_braces[simplified] escape_join escape_colon[simplified] comp_def case_prod_unfold)

lemma escaped_string: "list_all is_ascii_alphanumeric k \<Longrightarrow> html_escape (to_vec (String k)) = quoted k"
  by (simp add: html_escape_loop to_vec_string escape_quoted)

end

text \<open>The texts in the cache are current, and then there are none for tables that are gone.\<close>

definition cache_current :: "ddb_crates \<Rightarrow> ddb_server \<Rightarrow> bool" where
  "cache_current X s \<longleftrightarrow> bt_ok (table_cache s) \<and> (dc_storage_path (dconfig s) = [] \<longrightarrow> table_cache s = []) \<and>
     (\<forall>n b t. map_of (table_cache s) n = Some b \<longrightarrow> map_of (tables s) n = Some t \<longrightarrow> n \<notin> dirty_tables s \<longrightarrow>
        b = encode_persisted_table X t)"

definition cache_ok :: "ddb_crates \<Rightarrow> ddb_server \<Rightarrow> bool" where
  "cache_ok X s \<longleftrightarrow> cache_current X s \<and> dom (map_of (table_cache s)) \<subseteq> dom (map_of (tables s))"

lemma map_of_map_filter:
  "distinct (map fst m) \<Longrightarrow>
   map_of (map (\<lambda>(n, t). (n, f t)) (filter (\<lambda>(n, t). P n) m)) n = (if P n then map_option f (map_of m n) else None)"
  by (induction m) (auto simp: map_of_eq_None_iff[symmetric] split: if_splits)

lemma encoded_table_current:
  assumes "cache_current X s" "bt_ok (tables s)" "(n, t) \<in> set (tables s)"
  shows "encoded_table s (fresh_tables X s) n = encode_persisted_table X t"
proof -
  have t: "map_of (tables s) n = Some t" using assms(2,3) by (simp add: bt_ok_distinct)
  have "map_of (fresh_tables X s) n =
      (if n \<in> dirty_tables s \<or> \<not> bt_contains (table_cache s) n then Some (encode_persisted_table X t) else None)"
    unfolding fresh_tables_def
    using map_of_map_filter[OF bt_ok_distinct[OF assms(2)], of "encode_persisted_table X"
        "\<lambda>n. n \<in> dirty_tables s \<or> \<not> bt_contains (table_cache s) n" n] t by simp
  then show ?thesis using assms(1) t
    by (fastforce simp: encoded_table_def cache_current_def bt_contains_def split: option.splits)
qed

lemma optional_member_text:
  assumes "json_object_text (serde_to_vec X)" "list_all is_ascii_alphanumeric k"
  shows "concat (map (\<lambda>(k, v). '','' @ marshal X (String k) @ '':'' @ marshal X v) (unless skip k v)) = optional_member X skip k v"
  using json_object_text.escaped_string[OF assms] by (simp add: unless_def optional_member_def marshal_def)

lemma assembled_state:
  assumes "json_object_text (serde_to_vec X)" "cache_current X s" "bt_ok (tables s)"
  shows "assemble_state X s (fresh_tables X s) = to_state_json X (ddb_persisted_of s)"
proof -
  let ?m = "\<lambda>(k, v). marshal X (String k) @ '':'' @ marshal X v"
  have obj: "marshal X (Object es) = ''{'' @ join '','' (map ?m es) @ ''}''" for es
    using json_object_text.escaped_object[OF assms(1), of es] by (simp add: marshal_def)
  have tabs: "map (\<lambda>(n, t). marshal X (String n) @ '':'' @ encoded_table s (fresh_tables X s) n) (tables s) =
      map ?m (map (\<lambda>(n, t). (n, table_json t)) (tables s))"
    using encoded_table_current[OF assms(2,3)] by (auto simp: encode_persisted_table_def)
  have name: "list_all is_ascii_alphanumeric k" if "k \<in> {''tables'', ''backups'', ''backupTables'', ''backupItems''}" for k
    using that by (auto simp: is_ascii_alphanumeric_def is_ascii_digit_def is_ascii_uppercase_def is_ascii_lowercase_def ascii_def)
  have q: "marshal X (String ''tables'') = quoted ''tables''"
    using json_object_text.escaped_string[OF assms(1) name] by (simp add: marshal_def)
  have opt: "concat (map (\<lambda>v. '','' @ v) (map ?m (unless skip k v))) = optional_member X skip k v"
    if "k \<in> {''tables'', ''backups'', ''backupTables'', ''backupItems''}" for k v skip
    using optional_member_text[OF assms(1) name[OF that], of skip v] by (simp add: comp_def case_prod_unfold)
  note opt' = opt[simplified append_Cons append_Nil]
  show ?thesis
    unfolding assemble_state_def to_state_json_def state_json_def ddb_persisted_of_def tabs
    by (simp add: obj join_Cons q opt' del: map_map)
qed

lemma print_alphanumeric: "list_all is_ascii_alphanumeric k \<Longrightarrow> concat (map print_char k) = k"
  by (induction k) (auto simp: print_char_def is_ascii_alphanumeric_def is_ascii_digit_def is_ascii_uppercase_def
    is_ascii_lowercase_def ascii_def)

interpretation compact_objects: json_object_text print_json
  by unfold_locales (simp_all add: print_string_def print_alphanumeric case_prod_unfold)

section \<open>Saving\<close>

lemma ddb_persist_cases:
  assumes "ddb_persist X io s = (r, s')"
  obtains (memory) "dc_storage_path (dconfig s) = []" "r = Inr ()" "s' = s"
  | (failed) "r = Inl persist_failed" "s' = s"
  | (saved) "dc_storage_path (dconfig s) \<noteq> []" "r = Inr ()"
      "s' = s\<lparr>ddb_file := Some (assemble_state X s (fresh_tables X s)),
        table_cache := filter (\<lambda>(n, _). bt_contains (tables s) n) (bt_extend (table_cache s) (fresh_tables X s)),
        dirty_tables := {}\<rparr>"
  using assms by (auto simp: ddb_persist_def Let_def split: if_splits)

interpretation ddb_disk: durable "ddb_persist X" tables tables_update for X
proof unfold_locales
  show "\<And>io s e s'. ddb_persist X io s = (Inl e, s') \<Longrightarrow> s' = s"
    by (erule ddb_persist_cases) simp_all
  show "\<And>io s r s'. ddb_persist X io s = (r, s') \<Longrightarrow> tables s' = tables s"
    by (erule ddb_persist_cases) simp_all
qed simp_all

lemma ddb_persist_keeps:
  assumes "ddb_persist X io s = (r, s')"
  shows "tables s' = tables s" "backups s' = backups s" "backup_tables s' = backup_tables s"
    "backup_items s' = backup_items s" "dconfig s' = dconfig s"
  using assms by (auto elim: ddb_persist_cases)

lemma bt_ok_filter_key: "bt_ok m \<Longrightarrow> bt_ok (filter (\<lambda>(n, _). P n) m)"
  by (rule bt_ok_filter)

lemma fresh_tables_get:
  assumes "bt_ok (tables s)"
  shows "map_of (rev (fresh_tables X s)) n =
    (if n \<in> dirty_tables s \<or> \<not> bt_contains (table_cache s) n
     then map_option (encode_persisted_table X) (map_of (tables s) n) else None)"
proof -
  have "distinct (map fst (filter P (tables s)))" for P
    using bt_ok_distinct[OF assms] by (rule distinct_map_filter)
  then have "distinct (map fst (fresh_tables X s))" by (simp add: fresh_tables_def comp_def case_prod_unfold)
  then show ?thesis
    using map_of_map_filter[OF bt_ok_distinct[OF assms], of "encode_persisted_table X"
        "\<lambda>n. n \<in> dirty_tables s \<or> \<not> bt_contains (table_cache s) n" n]
    by (simp add: map_of_rev_distinct fresh_tables_def)
qed

lemma ddb_persist_cache_ok:
  assumes "ddb_persist X io s = (Inr (), s')" "cache_current X s" "bt_ok (tables s)"
  shows "cache_ok X s'"
  using assms(1)
proof (cases rule: ddb_persist_cases)
  case saved
  have "b = encode_persisted_table X t"
    if "map_of (table_cache s') n = Some b" "map_of (tables s) n = Some t" for n b t
    using that assms(2) fresh_tables_get[OF assms(3), of X n]
    by (auto simp: saved(3) map_of_filter_key bt_get_extend bt_contains_def cache_current_def split: if_splits)
  moreover have "dom (map_of (table_cache s')) \<subseteq> dom (map_of (tables s))"
    by (auto simp: saved(3) map_of_filter_key bt_contains_def split: if_splits)
  moreover have "bt_ok (table_cache s')"
    using assms(2) by (simp add: saved(3) cache_current_def bt_ok_filter_key)
  ultimately show ?thesis using saved by (auto simp: cache_ok_def cache_current_def)
qed (use assms in \<open>auto simp: cache_ok_def cache_current_def\<close>)

lemma persist_writes_state:
  assumes "json_object_text (serde_to_vec X)" "cache_current X s" "bt_ok (tables s)"
    "ddb_persist X io s = (Inr (), s')" "dc_storage_path (dconfig s) \<noteq> []"
  shows "ddb_file s' = Some (to_state_json X (ddb_persisted_of s'))"
  using assms(4)
proof (cases rule: ddb_persist_cases)
  case saved
  then show ?thesis using assembled_state[OF assms(1-3)] by (simp add: ddb_persisted_of_def)
qed (use assms(5) in auto)

section \<open>Counts\<close>

definition counted :: "(string, item) bmap \<Rightarrow> table_description \<Rightarrow> table_description" where
  "counted its d = d\<lparr>item_count := int (length its),
     global_secondary_indexes := map (\<lambda>i. i\<lparr>gsi_item_count := count_with (gsi_key_schema i) its\<rparr>) (global_secondary_indexes d),
     local_secondary_indexes := map (\<lambda>i. i\<lparr>lsi_item_count := count_with (lsi_key_schema i) its\<rparr>) (local_secondary_indexes d)\<rparr>"

lemma recount_counted: "recount t = t\<lparr>description := counted (items t) (description t)\<rparr>"
  by (simp add: recount_def update_index_item_counts_def counted_def)

lemma counted_counted [simp]: "counted its (counted its' d) = counted its d"
  by (simp add: counted_def comp_def)

lemma counted_fields [simp]:
  "table_name (counted its d) = table_name d" "key_schema (counted its d) = key_schema d"
  "attribute_definitions (counted its d) = attribute_definitions d" "stream_spec (counted its d) = stream_spec d"
  "ttl_description (counted its d) = ttl_description d" "table_arn (counted its d) = table_arn d"
  "latest_stream_arn (counted its d) = latest_stream_arn d"
  "map gsi_index_name (global_secondary_indexes (counted its d)) = map gsi_index_name (global_secondary_indexes d)"
  "map lsi_index_name (local_secondary_indexes (counted its d)) = map lsi_index_name (local_secondary_indexes d)"
  by (simp_all add: counted_def)

lemma schema_ok_counted [simp]: "schema_ok (counted its d) = schema_ok d"
  by (auto simp: schema_ok_def counted_def index_names_def Let_def comp_def)

lemma append_stream_record_keeps [simp]:
  "description (append_stream_record X region now event old new t) = description t"
  "items (append_stream_record X region now event old new t) = items t"
  "tags (append_stream_record X region now event old new t) = tags t"
  "continuous_backups (append_stream_record X region now event old new t) = continuous_backups t"
  "resource_policy (append_stream_record X region now event old new t) = resource_policy t"
  "resource_policy_revision (append_stream_record X region now event old new t) = resource_policy_revision t"
  "take (length (stream_records t)) (stream_records (append_stream_record X region now event old new t)) = stream_records t"
  by (simp_all add: append_stream_record_def split: option.splits)

end
