(* ===== verification/Dynamo_Server.thy ===== *)
theory Dynamo_Server
  imports Dynamo_Store
begin

text \<open>
  The table operations of the DynamoDB server (\<open>services/dynamodb/src/server.rs\<close>): list, create, describe, update and
  delete. The invariant \<open>server_ok\<close> holds of every state: tables are well formed and filed under their
  names, items are valid, the counts of tables and indexes are those of the items, and cached texts
  are current. The lemma \<open>table_change\<close> is the shape of every handler that changes one table.
\<close>

section \<open>Operations on tables\<close>

definition modify_table :: "string \<Rightarrow> (table_state \<Rightarrow> table_state) \<Rightarrow> ddb_server \<Rightarrow> ddb_server" where
  "modify_table n f s = s\<lparr>tables := bt_modify n f (tables s)\<rparr>"

definition mark_dirty :: "string \<Rightarrow> ddb_server \<Rightarrow> ddb_server" where
  "mark_dirty n s = s\<lparr>dirty_tables := insert n (dirty_tables s)\<rparr>"

definition find_table :: "ddb_server \<Rightarrow> string \<Rightarrow> table_state api" where
  "find_table s n = or_else (map_of (tables s) n) (not_found ''table not found'')"

definition ddb_table_arn :: "ddb_config \<Rightarrow> string \<Rightarrow> string" where
  "ddb_table_arn c n = ''arn:aws:dynamodb:'' @ dc_region_or_default c @ '':'' @ ACCOUNT_ID @ '':table/'' @ n"

text \<open>Start and end of a page of a listing, shared by the three list operations.\<close>

definition page_of :: "nat \<Rightarrow> int \<Rightarrow> 'a list \<Rightarrow> 'a list \<times> bool" where
  "page_of start limit xs =
     (let end' = (if limit > 0 \<and> start + nat limit < length xs then start + nat limit else length xs) in
      (take (end' - start) (drop start xs), end' < length xs))"

definition list_tables :: "string \<Rightarrow> int \<Rightarrow> ddb_server \<Rightarrow> json api" where
  "list_tables exclusive_start limit s =
     (if limit < 0 \<or> limit > 100 then Inl (validation_error ''limit must be between 1 and 100'')
      else let table_names = map fst (tables s) in
        bind_res (if exclusive_start = [] then Inr 0
                  else (case position (\<lambda>n. n = exclusive_start) table_names of
                          Some i \<Rightarrow> Inr (i + 1)
                        | None \<Rightarrow> Inl (validation_error ''exclusive start table name does not exist''))) (\<lambda>start.
          case page_of start limit table_names of (page, has_more) \<Rightarrow>
            Inr (Object ([(''TableNames'', Array (map String page))] @
              unless (\<not> has_more) ''LastEvaluatedTableName'' (String (last page))))))"

definition enable_stream_description ::
  "ddb_config \<Rightarrow> int \<Rightarrow> stream_specification \<Rightarrow> table_description \<Rightarrow> table_description" where
  "enable_stream_description c millis spec d =
     (let label = (if latest_stream_label d = [] then stream_label millis else latest_stream_label d);
          arn = table_arn d @ ''/stream/'' @ label;
          arn = (if arn = ''/stream/'' @ label then ddb_table_arn c (table_name d) @ ''/stream/'' @ label else arn) in
      d\<lparr>latest_stream_label := label, latest_stream_arn := arn,
        stream_spec := Some \<lparr>stream_enabled_flag = True, stream_view_type = stream_view_type spec\<rparr>\<rparr>)"

definition new_description :: "ddb_config \<Rightarrow> env \<Rightarrow> create_table_request \<Rightarrow> table_description" where
  "new_description c E r =
     (let region = dc_region_or_default c in
      \<lparr>attribute_definitions = ctr_attribute_definitions r,
       billing_mode_summary = Some (billing_mode (ctr_billing_mode r)),
       creation_date_time = now_unix E 0,
       global_secondary_indexes = gsi_descriptions region (ctr_table_name r) (ctr_global_secondary_indexes r),
       item_count = 0, key_schema = ctr_key_schema r, latest_stream_arn = [], latest_stream_label = [],
       local_secondary_indexes = lsi_descriptions region (ctr_table_name r) (ctr_local_secondary_indexes r),
       stream_spec = None, table_arn = ddb_table_arn c (ctr_table_name r), table_name = ctr_table_name r,
       table_size_bytes = 0, table_status = ''ACTIVE'', ttl_description = None\<rparr>)"

definition described :: "table_description \<Rightarrow> json" where
  "described d = Object [(''TableDescription'', description_json d)]"

text \<open>Adding a table, and taking it out again when the state cannot be saved.\<close>

definition add_table :: "ddb_crates \<Rightarrow> fs_outcome \<Rightarrow> string \<Rightarrow> table_state \<Rightarrow> ddb_server \<Rightarrow> json api \<times> ddb_server" where
  "add_table X io n t s =
     save_or_undo X io
       (\<lambda>s. s\<lparr>tables := bt_remove n (tables s), dirty_tables := dirty_tables s - {n}\<rparr>) (described (description t))
       (mark_dirty n (s\<lparr>tables := bt_insert n t (tables s)\<rparr>))"

definition create_table :: "ddb_crates \<Rightarrow> env \<Rightarrow> create_table_request \<Rightarrow> ddb_server \<Rightarrow> json api \<times> ddb_server" where
  "create_table X E r s =
     (case validate_create_table_request r of Inl e \<Rightarrow> (Inl (validation_error e), s) | Inr _ \<Rightarrow>
      let d = new_description (dconfig s) E r; spec = ctr_stream_specification r in
      case (if stream_enabled_flag spec then validate_stream_specification spec else Inr ()) of
        Inl e \<Rightarrow> (Inl (validation_error e), s)
      | Inr _ \<Rightarrow>
          let d = (if stream_enabled_flag spec then enable_stream_description (dconfig s) (now_millis E 1) spec d else d) in
          if bt_contains (tables s) (ctr_table_name r) then (Inl (in_use ''table already exists''), s)
          else if int (length (tables s)) \<ge> max_tables (dconfig s)
          then (Inl (api_error_new 400 ''LimitExceededException'' ''table limit exceeded''), s)
          else add_table X (fs E) (ctr_table_name r) (table_state_new d) s)"

definition describe_table :: "string \<Rightarrow> ddb_server \<Rightarrow> json api" where
  "describe_table n s =
     (if n = [] then Inl (validation_error ''table name is required'')
      else bind_res (find_table s n) (\<lambda>t. Inr (Object [(''Table'', description_json (description t))])))"

definition delete_table :: "ddb_crates \<Rightarrow> env \<Rightarrow> string \<Rightarrow> ddb_server \<Rightarrow> json api \<times> ddb_server" where
  "delete_table X E n s =
     (if n = [] then (Inl (validation_error ''table name is required''), s)
      else case find_table s n of
        Inl e \<Rightarrow> (Inl e, s)
      | Inr t \<Rightarrow>
          save_or_undo X (fs E) (\<lambda>s. s\<lparr>tables := bt_insert n t (tables s)\<rparr>) (described (description t))
            (s\<lparr>tables := bt_remove n (tables s)\<rparr>))"

definition updated_stream :: "ddb_config \<Rightarrow> env \<Rightarrow> update_table_request \<Rightarrow> table_description \<Rightarrow> table_description" where
  "updated_stream c E r d =
     (case utr_stream_specification r of
        None \<Rightarrow> d
      | Some spec \<Rightarrow>
          if stream_enabled_flag spec then enable_stream_description c (now_millis E 0) spec d
          else d\<lparr>stream_spec := Some \<lparr>stream_enabled_flag = False, stream_view_type = []\<rparr>,
                 latest_stream_arn := [], latest_stream_label := []\<rparr>)"

definition updated_description :: "ddb_config \<Rightarrow> env \<Rightarrow> update_table_request \<Rightarrow> table_description \<Rightarrow> table_description result" where
  "updated_description c E r d =
     (let d = (if utr_billing_mode r \<noteq> [] then d\<lparr>billing_mode_summary := Some (utr_billing_mode r)\<rparr> else d);
          d = updated_stream c E r d in
      if utr_global_secondary_index_updates r = [] then Inr d
      else apply_global_secondary_index_updates (dc_region_or_default c) (utr_attribute_definitions r)
             (utr_global_secondary_index_updates r) d)"

definition update_table :: "ddb_crates \<Rightarrow> env \<Rightarrow> update_table_request \<Rightarrow> ddb_server \<Rightarrow> json api \<times> ddb_server" where
  "update_table X E r s =
     (let n = utr_table_name r in
      if n = [] then (Inl (validation_error ''table name is required''), s)
      else if \<not> billing_mode_ok (utr_billing_mode r) then
        (Inl (validation_error ''billing mode must be PAY_PER_REQUEST or PROVISIONED''), s)
      else case (case utr_stream_specification r of Some spec \<Rightarrow> validate_stream_specification spec | None \<Rightarrow> Inr ()) of
        Inl e \<Rightarrow> (Inl (validation_error e), s)
      | Inr _ \<Rightarrow> (case find_table s n of Inl e \<Rightarrow> (Inl e, s) | Inr t \<Rightarrow>
         (case updated_description (dconfig s) E r (description t) of
            Inl e \<Rightarrow> (Inl (validation_error e), s)
          | Inr d \<Rightarrow>
              let committed = update_index_item_counts (t\<lparr>description := d\<rparr>) in
              save_or_undo X (fs E) (modify_table n (\<lambda>u. u\<lparr>description := description t\<rparr>)) (described (description committed))
                (mark_dirty n (modify_table n (\<lambda>_. committed) s)))))"

definition describe_limits :: json where
  "describe_limits = Object [(''AccountMaxReadCapacityUnits'', num 80000), (''AccountMaxWriteCapacityUnits'', num 80000),
     (''TableMaxReadCapacityUnits'', num 40000), (''TableMaxWriteCapacityUnits'', num 40000)]"

definition describe_endpoints :: "ddb_config \<Rightarrow> json" where
  "describe_endpoints c = Object [(''Endpoints'', Array [Object [
     (''Address'', String (if dc_addr c = [] then ''127.0.0.1:18000'' else dc_addr c)),
     (''CachePeriodInMinutes'', num 1440)]])]"

section \<open>Well-formed states\<close>

definition stored_item_ok :: "item \<Rightarrow> bool" where
  "stored_item_ok i \<longleftrightarrow> bt_ok i \<and> validate_item_attribute_values i = Inr ()"

definition items_ok :: "(string, item) bmap \<Rightarrow> bool" where
  "items_ok its \<longleftrightarrow> bt_ok its \<and> (\<forall>e \<in> set its. stored_item_ok (snd e))"

text \<open>Stream records are numbered from one in the order they were appended.\<close>

definition numbered :: "stream_record list \<Rightarrow> bool" where
  "numbered rs \<longleftrightarrow> map (\<lambda>r. sequence_number (sr_dynamodb r)) rs = map (\<lambda>i. dec (i + 1)) [0..<length rs]"

definition table_ok :: "string \<Rightarrow> table_state \<Rightarrow> bool" where
  "table_ok n t \<longleftrightarrow> n \<noteq> [] \<and> table_name (description t) = n \<and> schema_ok (description t) \<and> items_ok (items t)
     \<and> recount t = t \<and> bt_ok (tags t) \<and> length (tags t) \<le> 50 \<and> numbered (stream_records t)"

definition tables_ok :: "(string, table_state) bmap \<Rightarrow> bool" where
  "tables_ok ts \<longleftrightarrow> bt_ok ts \<and> (\<forall>n t. map_of ts n = Some t \<longrightarrow> table_ok n t)"

definition backups_ok :: "ddb_server \<Rightarrow> bool" where
  "backups_ok s \<longleftrightarrow> bt_ok (backups s) \<and> bt_ok (backup_tables s) \<and> bt_ok (backup_items s)
     \<and> dom (map_of (backup_tables s)) = dom (map_of (backups s)) \<and> dom (map_of (backup_items s)) = dom (map_of (backups s))
     \<and> (\<forall>arn b. map_of (backups s) arn = Some b \<longrightarrow> bd_backup_arn (backup_details b) = arn)
     \<and> (\<forall>arn d. map_of (backup_tables s) arn = Some d \<longrightarrow> schema_ok d)
     \<and> (\<forall>arn its. map_of (backup_items s) arn = Some its \<longrightarrow> items_ok its)"

definition server_ok :: "ddb_crates \<Rightarrow> ddb_server \<Rightarrow> bool" where
  "server_ok X s \<longleftrightarrow> tables_ok (tables s) \<and> backups_ok s \<and> cache_ok X s"

definition same_data :: "ddb_server \<Rightarrow> ddb_server \<Rightarrow> bool" where
  "same_data s s' \<longleftrightarrow> tables s' = tables s \<and> backups s' = backups s \<and> backup_tables s' = backup_tables s
     \<and> backup_items s' = backup_items s \<and> dconfig s' = dconfig s \<and> ddb_file s' = ddb_file s"

text \<open>A saved state: the file holds the encoding of the data in memory.\<close>

definition saved :: "ddb_crates \<Rightarrow> ddb_server \<Rightarrow> bool" where
  "saved X s \<longleftrightarrow> dc_storage_path (dconfig s) \<noteq> [] \<longrightarrow> ddb_file s = Some (to_state_json X (ddb_persisted_of s))"

section \<open>What a handler does to the state\<close>

definition well_handled :: "ddb_crates \<Rightarrow> ddb_server \<Rightarrow> 'a api \<Rightarrow> ddb_server \<Rightarrow> bool" where
  "well_handled X s r s' \<longleftrightarrow> server_ok X s' \<and> dconfig s' = dconfig s \<and> (if isl r then same_data s s' else saved X s')"

lemma same_data_refl [simp]: "same_data s s"
  by (simp add: same_data_def)

lemma well_handled_refused: "server_ok X s \<Longrightarrow> well_handled X s (Inl e) s"
  by (simp add: well_handled_def)

lemma save_or_undo_cases:
  assumes "save_or_undo X io undo a t = (r, s')"
  obtains (failed) "r = Inl persist_failed" "s' = undo t"
  | (success) "r = Inr a" "ddb_persist X io t = (Inr (), s')"
proof -
  obtain q u where q: "ddb_persist X io t = (q, u)" by fastforce
  show thesis
  proof (cases q)
    case (Inl e)
    then have "e = persist_failed" "u = t" using q by (auto elim: ddb_persist_cases)
    then show thesis using assms Inl q by (intro failed) (simp_all add: save_or_undo_def)
  next
    case (Inr v)
    then show thesis using assms q by (intro success) (simp_all add: save_or_undo_def)
  qed
qed

lemma ddb_persist_saved:
  assumes "json_object_text (serde_to_vec X)" "ddb_persist X io t = (Inr (), s')"
    "tables_ok (tables t)" "backups_ok t" "cache_current X t"
  shows "server_ok X s' \<and> saved X s'"
proof -
  note keeps = ddb_persist_keeps[OF assms(2)]
  have bt: "bt_ok (tables t)" using assms(3) by (simp add: tables_ok_def)
  have "server_ok X s'"
    using assms(3,4) ddb_persist_cache_ok[OF assms(2,5) bt] by (simp add: server_ok_def backups_ok_def keeps)
  moreover have "saved X s'" using persist_writes_state[OF assms(1,5) bt assms(2)] keeps by (simp add: saved_def)
  ultimately show ?thesis ..
qed

lemma save_or_undo_handled:
  assumes "json_object_text (serde_to_vec X)" "save_or_undo X io undo a t = (r, s')"
    and "tables_ok (tables t)" "backups_ok t" "cache_current X t" "dconfig t = dconfig s"
    and "server_ok X (undo t)" "same_data s (undo t)"
  shows "well_handled X s r s'"
  using assms(2)
proof (cases rule: save_or_undo_cases)
  case failed
  then show ?thesis using assms(7,8) by (simp add: well_handled_def same_data_def)
next
  case success
  then show ?thesis using ddb_persist_saved[OF assms(1) _ assms(3-5)] ddb_persist_keeps[OF success(2)] assms(6)
    by (simp add: well_handled_def)
qed

lemma tables_ok_get: "tables_ok ts \<Longrightarrow> map_of ts n = Some t \<Longrightarrow> table_ok n t"
  by (simp add: tables_ok_def)

lemma tables_ok_modify:
  "tables_ok ts \<Longrightarrow> map_of ts n = Some t \<Longrightarrow> table_ok n (f t) \<Longrightarrow> tables_ok (bt_modify n f ts)"
  by (auto simp: tables_ok_def bt_get_modify)

lemma tables_ok_insert: "tables_ok ts \<Longrightarrow> table_ok n t \<Longrightarrow> tables_ok (bt_insert n t ts)"
  by (auto simp: tables_ok_def bt_get_insert split: if_splits)

lemma tables_ok_remove: "tables_ok ts \<Longrightarrow> tables_ok (bt_remove n ts)"
  by (auto simp: tables_ok_def bt_get_remove split: if_splits)

lemma cache_current_changed:
  assumes "cache_current X s" "\<forall>m. m \<notin> D \<longrightarrow> map_of ts m = map_of (tables s) m \<or> map_of ts m = None" "dirty_tables s \<union> D \<subseteq> dt"
  shows "cache_current X (s\<lparr>tables := ts, dirty_tables := dt\<rparr>)"
  unfolding cache_current_def
proof (intro conjI allI impI)
  fix n b t
  assume "map_of (table_cache (s\<lparr>tables := ts, dirty_tables := dt\<rparr>)) n = Some b"
    "map_of (tables (s\<lparr>tables := ts, dirty_tables := dt\<rparr>)) n = Some t" "n \<notin> dirty_tables (s\<lparr>tables := ts, dirty_tables := dt\<rparr>)"
  then have "map_of (table_cache s) n = Some b" "map_of ts n = Some t" "n \<notin> dirty_tables s" "n \<notin> D" using assms(3) by auto
  moreover from this have "map_of (tables s) n = Some t" using assms(2) by (metis option.distinct(1))
  ultimately show "b = encode_persisted_table X t" using assms(1) by (auto simp: cache_current_def)
qed (use assms(1) in \<open>auto simp: cache_current_def\<close>)

lemma cache_ok_dirtier: "cache_ok X s \<Longrightarrow> cache_ok X (s\<lparr>dirty_tables := dirty_tables s \<union> D\<rparr>)"
  by (auto simp: cache_ok_def cache_current_def)

lemma server_ok_dirtier: "server_ok X s \<Longrightarrow> server_ok X (s\<lparr>dirty_tables := dirty_tables s \<union> D\<rparr>)"
  by (simp add: server_ok_def backups_ok_def cache_ok_dirtier)

text \<open>The shape of a handler that changes one table.\<close>

lemma table_change:
  assumes "json_object_text (serde_to_vec X)" "server_ok X s" "map_of (tables s) n = Some t"
    and "table_ok n (f t)" "g (f t) = t"
    and "save_or_undo X io (modify_table n g) a (mark_dirty n (modify_table n f s)) = (r, s')"
  shows "well_handled X s r s'"
    and "r = Inr v \<Longrightarrow> v = a \<and> tables s' = bt_insert n (f t) (tables s) \<and> backups s' = backups s
      \<and> backup_tables s' = backup_tables s \<and> backup_items s' = backup_items s"
proof -
  let ?t = "mark_dirty n (modify_table n f s)"
  have ok: "tables_ok (tables s)" "backups_ok s" "cache_ok X s" using assms(2) by (simp_all add: server_ok_def)
  have bt: "bt_ok (tables s)" using ok(1) by (simp add: tables_ok_def)
  have new: "bt_modify n f (tables s) = bt_insert n (f t) (tables s)" using bt_modify_insert[OF bt assms(3)] .
  have undone: "bt_modify n g (bt_insert n (f t) (tables s)) = tables s"
    using bt assms(3,5) by (subst bt_modify_insert) (auto simp: bt_get_insert bt.ins_twice bt.ins_same)
  have "cache_current X (s\<lparr>tables := bt_insert n (f t) (tables s), dirty_tables := insert n (dirty_tables s)\<rparr>)"
    using ok(3) by (intro cache_current_changed[where D = "{n}"]) (auto simp: cache_ok_def bt_get_insert)
  moreover have "tables_ok (bt_insert n (f t) (tables s))" using ok(1) assms(4) by (rule tables_ok_insert)
  ultimately show "well_handled X s r s'"
    using ok(2) server_ok_dirtier[OF assms(2), of "{n}"]
    by (intro save_or_undo_handled[OF assms(1,6)])
       (simp_all add: same_data_def modify_table_def mark_dirty_def new undone backups_ok_def)
  assume "r = Inr v"
  with assms(6) show "v = a \<and> tables s' = bt_insert n (f t) (tables s) \<and> backups s' = backups s
      \<and> backup_tables s' = backup_tables s \<and> backup_items s' = backup_items s"
    by (cases rule: save_or_undo_cases)
       (auto simp: modify_table_def mark_dirty_def new dest: ddb_persist_keeps)
qed

lemma cache_current_tables:
  assumes "cache_current X s" "\<forall>m. map_of ts m = map_of (tables s) m \<or> map_of ts m = None"
  shows "cache_current X (s\<lparr>tables := ts\<rparr>)"
proof -
  have eq: "s\<lparr>tables := ts\<rparr> = s\<lparr>tables := ts, dirty_tables := dirty_tables s\<rparr>" by simp
  show ?thesis by (subst eq) (rule cache_current_changed[OF assms(1), of "{}"], use assms(2) in auto)
qed

lemma add_table_change:
  assumes "json_object_text (serde_to_vec X)" "server_ok X s" "map_of (tables s) n = None" "table_ok n t"
    and "add_table X io n t s = (r, s')"
  shows "well_handled X s r s'"
    and "r = Inr v \<Longrightarrow> tables s' = bt_insert n t (tables s) \<and> backups s' = backups s
      \<and> backup_tables s' = backup_tables s \<and> backup_items s' = backup_items s"
proof -
  have ok: "tables_ok (tables s)" "backups_ok s" "cache_ok X s" using assms(2) by (simp_all add: server_ok_def)
  have undone: "bt_remove n (bt_insert n t (tables s)) = tables s"
    using ok(1) assms(3) by (intro bt.undo_new) (simp_all add: tables_ok_def)
  have "cache_current X (s\<lparr>tables := bt_insert n t (tables s), dirty_tables := insert n (dirty_tables s)\<rparr>)"
    using ok(3) by (intro cache_current_changed[where D = "{n}"]) (auto simp: cache_ok_def bt_get_insert)
  moreover have "tables_ok (bt_insert n t (tables s))" using ok(1) assms(4) by (rule tables_ok_insert)
  moreover have "cache_ok X (s\<lparr>dirty_tables := dirty_tables s - {n}\<rparr>)"
    using ok(3) assms(3) by (auto simp: cache_ok_def cache_current_def)
  moreover have "s\<lparr>tables := tables s, dirty_tables := D\<rparr> = s\<lparr>dirty_tables := D\<rparr>" for D by simp
  ultimately show "well_handled X s r s'" using ok(1,2)
    by (intro save_or_undo_handled[OF assms(1) assms(5)[unfolded add_table_def]])
       (simp_all add: same_data_def mark_dirty_def undone backups_ok_def server_ok_def cache_ok_def cache_current_def)
  assume "r = Inr v"
  with assms(5) show "tables s' = bt_insert n t (tables s) \<and> backups s' = backups s
      \<and> backup_tables s' = backup_tables s \<and> backup_items s' = backup_items s"
    unfolding add_table_def by (cases rule: save_or_undo_cases) (auto simp: mark_dirty_def dest: ddb_persist_keeps)
qed

lemma enable_stream_keeps [simp]:
  "attribute_definitions (enable_stream_description c m spec d) = attribute_definitions d"
  "key_schema (enable_stream_description c m spec d) = key_schema d"
  "global_secondary_indexes (enable_stream_description c m spec d) = global_secondary_indexes d"
  "local_secondary_indexes (enable_stream_description c m spec d) = local_secondary_indexes d"
  "table_name (enable_stream_description c m spec d) = table_name d"
  "item_count (enable_stream_description c m spec d) = item_count d"
  by (simp_all add: enable_stream_description_def Let_def)

lemma schema_ok_cong:
  "attribute_definitions d' = attribute_definitions d \<Longrightarrow> key_schema d' = key_schema d \<Longrightarrow>
   global_secondary_indexes d' = global_secondary_indexes d \<Longrightarrow> local_secondary_indexes d' = local_secondary_indexes d \<Longrightarrow>
   schema_ok d' = schema_ok d"
  by (simp add: schema_ok_def index_names_def)

lemma counted_unchanged:
  "counted its d = d \<longleftrightarrow> item_count d = int (length its)
     \<and> (\<forall>i \<in> set (global_secondary_indexes d). gsi_item_count i = count_with (gsi_key_schema i) its)
     \<and> (\<forall>i \<in> set (local_secondary_indexes d). lsi_item_count i = count_with (lsi_key_schema i) its)"
proof -
  have g: "gsi_item_count_update (\<lambda>_. c) i = i \<longleftrightarrow> gsi_item_count i = c" for c i
    by (metis global_secondary_index_description.ext_inject global_secondary_index_description.surjective
      global_secondary_index_description.update_convs(5))
  have l: "lsi_item_count_update (\<lambda>_. c) i = i \<longleftrightarrow> lsi_item_count i = c" for c i
    by (metis local_secondary_index_description.ext_inject local_secondary_index_description.surjective
      local_secondary_index_description.update_convs(4))
  have "counted its d = d \<longleftrightarrow> item_count d = int (length its)
     \<and> map (\<lambda>i. i\<lparr>gsi_item_count := count_with (gsi_key_schema i) its\<rparr>) (global_secondary_indexes d) = global_secondary_indexes d
     \<and> map (\<lambda>i. i\<lparr>lsi_item_count := count_with (lsi_key_schema i) its\<rparr>) (local_secondary_indexes d) = local_secondary_indexes d"
    by (cases d) (auto simp: counted_def)
  then show ?thesis by (simp add: map_idI[symmetric] g l list_eq_iff_nth_eq[of "map _ _"] all_set_conv_all_nth)
qed

lemma new_table_ok:
  assumes "validate_create_table_request r = Inr ()" "d = new_description c E r \<or> d = enable_stream_description c m spec (new_description c E r)"
  shows "table_ok (ctr_table_name r) (table_state_new d)"
proof -
  have "schema_ok (new_description c E r)"
    using valid_request_schema_ok[OF assms(1), of "new_description c E r"] by (simp add: new_description_def Let_def)
  then have "schema_ok d" using assms(2) by (elim disjE) (simp_all cong: schema_ok_cong)
  moreover have "ctr_table_name r \<noteq> []" using assms(1) by (auto simp: validate_create_table_request_def)
  moreover have "counted [] d = d"
    using assms(2) by (elim disjE) (simp_all add: counted_unchanged new_description_def Let_def gsi_descriptions_def
      lsi_descriptions_def count_with_def)
  ultimately show ?thesis using assms(2)
    by (auto simp: table_ok_def table_state_new_def items_ok_def recount_counted new_description_def Let_def numbered_def)
qed

lemma create_table_handled:
  assumes "json_object_text (serde_to_vec X)" "server_ok X s" "create_table X E r s = (q, s')"
  shows "well_handled X s q s'"
proof (cases "isl q \<and> s' = s")
  case False
  let ?d = "new_description (dconfig s) E r" and ?spec = "ctr_stream_specification r"
  let ?t = "table_state_new (if stream_enabled_flag ?spec
    then enable_stream_description (dconfig s) (now_millis E 1) ?spec ?d else ?d)"
  have r: "validate_create_table_request r = Inr ()" "map_of (tables s) (ctr_table_name r) = None"
    "add_table X (fs E) (ctr_table_name r) ?t s = (q, s')"
    using assms(3) False
    by (auto simp: create_table_def Let_def bt_contains_def split: sum.splits if_splits)
  then show ?thesis by (intro add_table_change(1)[OF assms(1,2) r(2) _ r(3)] new_table_ok) auto
qed (use assms(2) in \<open>auto simp: isl_def well_handled_refused\<close>)

lemma delete_table_handled:
  assumes "json_object_text (serde_to_vec X)" "server_ok X s" "delete_table X E n s = (q, s')"
  shows "well_handled X s q s'"
proof (cases "isl q \<and> s' = s")
  case False
  then obtain t where t: "map_of (tables s) n = Some t"
    and q: "save_or_undo X (fs E) (\<lambda>s. s\<lparr>tables := bt_insert n t (tables s)\<rparr>) (described (description t))
      (s\<lparr>tables := bt_remove n (tables s)\<rparr>) = (q, s')"
    using assms(3) by (auto simp: delete_table_def find_table_def or_else_def split: if_splits option.splits)
  have ok: "tables_ok (tables s)" "backups_ok s" "cache_ok X s" using assms(2) by (simp_all add: server_ok_def)
  have undone: "bt_insert n t (bt_remove n (tables s)) = tables s"
    using ok(1) t by (intro bt.undo_remove) (simp_all add: tables_ok_def)
  have "cache_current X (s\<lparr>tables := bt_remove n (tables s)\<rparr>)"
    using ok(3) by (intro cache_current_tables) (auto simp: cache_ok_def bt_get_remove)
  then show ?thesis using ok assms(2) tables_ok_remove[OF ok(1)]
    by (intro save_or_undo_handled[OF assms(1) q]) (simp_all add: undone same_data_def backups_ok_def)
qed (use assms(2) in \<open>auto simp: isl_def well_handled_refused\<close>)

lemma apply_index_updates_keeps:
  "apply_index_updates region ds A updates d = Inr d' \<Longrightarrow> table_name d' = table_name d \<and> item_count d' = item_count d"
proof (induction updates arbitrary: d)
  case (Cons upd updates)
  then obtain e where e: "apply_index_update region ds A upd d = Inr e" "apply_index_updates region ds A updates e = Inr d'"
    by (auto simp: bind_res_Inr_iff)
  from e(1) have "table_name e = table_name d \<and> item_count e = item_count d"
    by (cases rule: apply_index_update_cases) simp_all
  with Cons.IH[OF e(2)] show ?case by simp
qed simp

lemma updated_description_ok:
  assumes "updated_description c E r d = Inr d'" "schema_ok d"
  shows "schema_ok d' \<and> table_name d' = table_name d \<and> item_count d' = item_count d"
proof -
  define e where "e = updated_stream c E r (if utr_billing_mode r \<noteq> [] then d\<lparr>billing_mode_summary := Some (utr_billing_mode r)\<rparr> else d)"
  have e: "table_name e = table_name d" "item_count e = item_count d" "attribute_definitions e = attribute_definitions d"
    "key_schema e = key_schema d" "global_secondary_indexes e = global_secondary_indexes d"
    "local_secondary_indexes e = local_secondary_indexes d"
    by (simp_all add: e_def updated_stream_def split: option.splits)
  then have "schema_ok e" using assms(2) by (simp cong: schema_ok_cong)
  moreover have "d' = e \<or> apply_global_secondary_index_updates (dc_region_or_default c) (utr_attribute_definitions r)
      (utr_global_secondary_index_updates r) e = Inr d'"
    using assms(1) by (auto simp: updated_description_def e_def[symmetric] Let_def split: if_splits)
  ultimately show ?thesis using e(1,2) index_updates_schema_ok[of _ _ _ e d'] apply_index_updates_keeps[of _ _ _ _ e d']
    by (auto simp: apply_global_secondary_index_updates_def bind_res_Inr_iff)
qed

lemma recount_recount [simp]: "recount (recount t) = recount t"
  by (simp add: recount_counted)

lemma recount_as_index_counts:
  "item_count (description t) = int (length (items t)) \<Longrightarrow> update_index_item_counts t = recount t"
proof -
  assume "item_count (description t) = int (length (items t))"
  then have "t\<lparr>description := (description t)\<lparr>item_count := int (length (items t))\<rparr>\<rparr> = t" by (cases t) simp
  then show ?thesis by (simp add: recount_def)
qed

lemma table_ok_counts: "table_ok n t \<Longrightarrow> counted (items t) (description t) = description t"
  by (auto simp: table_ok_def recount_counted) (metis table_state.select_convs(1) table_state.surjective table_state.update_convs(1))

lemma update_table_handled:
  assumes "json_object_text (serde_to_vec X)" "server_ok X s" "update_table X E r s = (q, s')"
  shows "well_handled X s q s'"
proof (cases "isl q \<and> s' = s")
  case False
  let ?n = "utr_table_name r"
  obtain t d where t: "map_of (tables s) ?n = Some t" and d: "updated_description (dconfig s) E r (description t) = Inr d"
    and q: "save_or_undo X (fs E) (modify_table ?n (\<lambda>u. u\<lparr>description := description t\<rparr>))
      (described (description (update_index_item_counts (t\<lparr>description := d\<rparr>))))
      (mark_dirty ?n (modify_table ?n (\<lambda>_. update_index_item_counts (t\<lparr>description := d\<rparr>)) s)) = (q, s')"
    using assms(3) False
    by (auto simp: update_table_def Let_def find_table_def or_else_def split: if_splits option.splits sum.splits)
  have t_ok: "table_ok ?n t" using assms(2) t by (auto simp: server_ok_def dest: tables_ok_get)
  have d_ok: "schema_ok d" "table_name d = table_name (description t)" "item_count d = item_count (description t)"
    using updated_description_ok[OF d] t_ok by (auto simp: table_ok_def)
  have "item_count d = int (length (items t))"
    using table_ok_counts[OF t_ok] d_ok(3) by (simp add: counted_unchanged)
  then have c: "update_index_item_counts (t\<lparr>description := d\<rparr>) = recount (t\<lparr>description := d\<rparr>)"
    by (intro recount_as_index_counts) simp
  have "table_ok ?n (recount (t\<lparr>description := d\<rparr>))"
    using t_ok d_ok(1,2) by (simp add: table_ok_def recount_counted)
  then show ?thesis by (intro table_change(1)[OF assms(1,2) t _ _ q]) (simp_all add: c recount_counted)
qed (use assms(2) in \<open>auto simp: isl_def well_handled_refused\<close>)

end
