(* ===== verification/Dynamo_Items.thy ===== *)
theory Dynamo_Items
  imports Dynamo_Server
begin

text \<open>
  The item operations of the DynamoDB server (\<open>services/dynamodb/src/server.rs\<close>): put, get, delete and update of an
  item, query and scan. A request is a record; the maps in it are \<open>BTreeMap\<close>s and so sorted. An
  operation that can panic (an update expression, see \<open>Dynamo_Update\<close>) returns an option.
\<close>

section \<open>Requests\<close>

record put_item_request =
  pir_table_name :: string
  pir_item :: item
  pir_condition_expression :: string
  pir_names :: names
  pir_values :: attribute_values
  pir_return_values :: string
  pir_return_values_on_condition_check_failure :: string
  pir_return_consumed_capacity :: string

record get_item_request =
  gir_table_name :: string
  gir_key :: item
  gir_projection_expression :: string
  gir_names :: names
  gir_return_consumed_capacity :: string

record delete_item_request =
  dir_table_name :: string
  dir_key :: item
  dir_condition_expression :: string
  dir_names :: names
  dir_values :: attribute_values
  dir_return_values :: string
  dir_return_values_on_condition_check_failure :: string
  dir_return_consumed_capacity :: string

record update_item_request =
  uir_table_name :: string
  uir_key :: item
  uir_condition_expression :: string
  uir_update_expression :: string
  uir_names :: names
  uir_values :: attribute_values
  uir_return_values :: string
  uir_return_values_on_condition_check_failure :: string
  uir_return_consumed_capacity :: string

record query_request =
  qr_table_name :: string
  qr_index_name :: string
  qr_key_condition_expression :: string
  qr_names :: names
  qr_values :: attribute_values
  qr_projection_expression :: string
  qr_select :: string
  qr_exclusive_start_key :: item
  qr_limit :: int
  qr_scan_index_forward :: "bool option"
  qr_return_consumed_capacity :: string

record scan_request =
  sc_table_name :: string
  sc_index_name :: string
  sc_filter_expression :: string
  sc_names :: names
  sc_values :: attribute_values
  sc_projection_expression :: string
  sc_select :: string
  sc_exclusive_start_key :: item
  sc_limit :: int
  sc_return_consumed_capacity :: string

section \<open>Parts of the handlers\<close>

definition upper_or_none :: "ddb_crates \<Rightarrow> string \<Rightarrow> string" where
  "upper_or_none X value = (if value = [] then ''NONE'' else to_uppercase X value)"

definition valid_return_consumed_capacity :: "ddb_crates \<Rightarrow> string \<Rightarrow> bool" where
  "valid_return_consumed_capacity X value \<longleftrightarrow> upper_or_none X value \<in> {''NONE'', ''TOTAL'', ''INDEXES''}"

definition check_capacity :: "ddb_crates \<Rightarrow> string \<Rightarrow> unit api" where
  "check_capacity X mode =
     (if valid_return_consumed_capacity X mode then Inr ()
      else Inl (validation_error ''return consumed capacity must be NONE, TOTAL, or INDEXES''))"

definition capacity_entry :: "string \<Rightarrow> json" where
  "capacity_entry n = Object [(''CapacityUnits'', num 1), (''TableName'', String n)]"

definition add_consumed_capacity :: "string \<Rightarrow> string \<Rightarrow> (string, json) bmap \<Rightarrow> (string, json) bmap" where
  "add_consumed_capacity n mode response =
     (if mode = [] \<or> eq_ignore_ascii_case mode ''NONE'' then response
      else bt_insert ''ConsumedCapacity'' (capacity_entry n) response)"

definition validate_item_size :: "ddb_crates \<Rightarrow> ddb_config \<Rightarrow> item \<Rightarrow> unit result" where
  "validate_item_size X c value =
     bind_res (validate_item_attribute_values value) (\<lambda>_.
       if int (length (marshal X (Object value))) > max_item_bytes c
       then Inl (''item size exceeds maximum of '' @ int_to_string (max_item_bytes c) @ '' bytes'') else Inr ())"

text \<open>The checks on \<open>ReturnValues\<close>, \<open>ReturnValuesOnConditionCheckFailure\<close> and \<open>ReturnConsumedCapacity\<close> shared by the writes.\<close>

definition check_returns :: "ddb_crates \<Rightarrow> string set \<Rightarrow> string \<Rightarrow> string \<Rightarrow> string \<Rightarrow> string \<Rightarrow> unit api" where
  "check_returns X allowed message return_values on_failure capacity =
     (if upper_or_none X return_values \<notin> allowed then Inl (validation_error message)
      else if upper_or_none X on_failure \<notin> {''NONE'', ''ALL_OLD''} then
        Inl (validation_error ''return values on condition check failure must be NONE or ALL_OLD'')
      else check_capacity X capacity)"

definition check_item_condition ::
  "ddb_crates \<Rightarrow> string \<Rightarrow> names \<Rightarrow> attribute_values \<Rightarrow> string \<Rightarrow> item option \<Rightarrow> unit api" where
  "check_item_condition X expression nms vals on_failure old_item =
     (case check_condition X expression nms vals old_item of
        Inl msg \<Rightarrow> Inl (condition_check_failed msg (upper_or_none X on_failure) old_item)
      | Inr _ \<Rightarrow> Inr ())"

text \<open>Storing an item in a table with the record of it in the stream, and the roll-back.\<close>

definition store_item :: "ddb_crates \<Rightarrow> string \<Rightarrow> int \<Rightarrow> string \<Rightarrow> item option \<Rightarrow> item \<Rightarrow> table_state \<Rightarrow> table_state" where
  "store_item X region now key old_item new t =
     append_stream_record X region now (stream_event_name (old_item \<noteq> None) False) old_item (Some new)
       (recount (t\<lparr>items := bt_insert key new (items t)\<rparr>))"

definition unstore_item :: "string \<Rightarrow> item option \<Rightarrow> nat \<Rightarrow> table_state \<Rightarrow> table_state" where
  "unstore_item key old_item stream_len t =
     recount (t\<lparr>items := (case old_item of Some prev \<Rightarrow> bt_insert key prev (items t) | None \<Rightarrow> bt_remove key (items t)),
       stream_records := take stream_len (stream_records t)\<rparr>)"

definition drop_item :: "ddb_crates \<Rightarrow> string \<Rightarrow> int \<Rightarrow> string \<Rightarrow> item option \<Rightarrow> table_state \<Rightarrow> table_state" where
  "drop_item X region now key old_item t =
     append_stream_record X region now ''REMOVE'' old_item None (recount (t\<lparr>items := bt_remove key (items t)\<rparr>))"

definition undrop_item :: "string \<Rightarrow> item option \<Rightarrow> nat \<Rightarrow> table_state \<Rightarrow> table_state" where
  "undrop_item key old_item stream_len t =
     recount (t\<lparr>items := (case old_item of Some prev \<Rightarrow> bt_insert key prev (items t) | None \<Rightarrow> items t),
       stream_records := take stream_len (stream_records t)\<rparr>)"

definition old_attributes :: "ddb_crates \<Rightarrow> string \<Rightarrow> item option \<Rightarrow> (string, json) bmap" where
  "old_attributes X return_values old_item =
     (if upper_or_none X return_values = ''ALL_OLD'' then
        (case old_item of Some prev \<Rightarrow> [(''Attributes'', Object prev)] | None \<Rightarrow> []) else [])"

section \<open>Put, get and delete\<close>

definition put_item :: "ddb_crates \<Rightarrow> env \<Rightarrow> put_item_request \<Rightarrow> ddb_server \<Rightarrow> json api \<times> ddb_server" where
  "put_item X E r s =
     (let n = pir_table_name r in
      if n = [] then (Inl (validation_error ''table name is required''), s)
      else if pir_item r = [] then (Inl (validation_error ''item is required''), s)
      else case validated (validate_item_size X (dconfig s) (pir_item r)) of Inl e \<Rightarrow> (Inl e, s) | Inr _ \<Rightarrow>
       (case check_returns X {''NONE'', ''ALL_OLD''} ''return values must be NONE or ALL_OLD'' (pir_return_values r)
          (pir_return_values_on_condition_check_failure r) (pir_return_consumed_capacity r) of Inl e \<Rightarrow> (Inl e, s) | Inr _ \<Rightarrow>
       (case find_table s n of Inl e \<Rightarrow> (Inl e, s) | Inr t \<Rightarrow>
       (case validated (item_key X (description t) (pir_item r)) of Inl e \<Rightarrow> (Inl e, s) | Inr key \<Rightarrow>
        let old_item = map_of (items t) key in
       (case check_item_condition X (pir_condition_expression r) (pir_names r) (pir_values r)
          (pir_return_values_on_condition_check_failure r) old_item of Inl e \<Rightarrow> (Inl e, s) | Inr _ \<Rightarrow>
          save_or_undo X (fs E) (modify_table n (unstore_item key old_item (length (stream_records t))))
            (Object (add_consumed_capacity n (pir_return_consumed_capacity r) (old_attributes X (pir_return_values r) old_item)))
            (mark_dirty n (modify_table n
              (store_item X (dc_region_or_default (dconfig s)) (now_unix E 0) key old_item (pir_item r)) s)))))))"

definition get_item :: "ddb_crates \<Rightarrow> get_item_request \<Rightarrow> ddb_server \<Rightarrow> json api" where
  "get_item X r s =
     (let n = gir_table_name r in
      if n = [] then Inl (validation_error ''table name is required'')
      else bind_res (check_capacity X (gir_return_consumed_capacity r)) (\<lambda>_.
        bind_res (find_table s n) (\<lambda>t.
        bind_res (validated (item_key X (description t) (gir_key r))) (\<lambda>key.
          let response = (case map_of (items t) key of
                Some found \<Rightarrow> [(''Item'', Object (project_item found (gir_projection_expression r) (gir_names r)))]
              | None \<Rightarrow> []) in
          Inr (Object (add_consumed_capacity n (gir_return_consumed_capacity r) response))))))"

definition delete_item :: "ddb_crates \<Rightarrow> env \<Rightarrow> delete_item_request \<Rightarrow> ddb_server \<Rightarrow> json api \<times> ddb_server" where
  "delete_item X E r s =
     (let n = dir_table_name r in
      if n = [] then (Inl (validation_error ''table name is required''), s)
      else case find_table s n of Inl e \<Rightarrow> (Inl e, s) | Inr t \<Rightarrow>
       (case validated (item_key X (description t) (dir_key r)) of Inl e \<Rightarrow> (Inl e, s) | Inr key \<Rightarrow>
       (case check_returns X {''NONE'', ''ALL_OLD''} ''return values must be NONE or ALL_OLD'' (dir_return_values r)
          (dir_return_values_on_condition_check_failure r) (dir_return_consumed_capacity r) of Inl e \<Rightarrow> (Inl e, s) | Inr _ \<Rightarrow>
        let old_item = map_of (items t) key in
       (case check_item_condition X (dir_condition_expression r) (dir_names r) (dir_values r)
          (dir_return_values_on_condition_check_failure r) old_item of Inl e \<Rightarrow> (Inl e, s) | Inr _ \<Rightarrow>
          save_or_undo X (fs E) (modify_table n (undrop_item key old_item (length (stream_records t))))
            (Object (add_consumed_capacity n (dir_return_consumed_capacity r) (old_attributes X (dir_return_values r) old_item)))
            (mark_dirty n (modify_table n
              (drop_item X (dc_region_or_default (dconfig s)) (now_unix E 0) key old_item) s))))))"

section \<open>Update\<close>

definition updated_attributes :: "item \<Rightarrow> item \<Rightarrow> item" where
  "updated_attributes old new =
     filter (\<lambda>(n, a). case map_of old n of Some b \<Rightarrow> \<not> attribute_values_equal b a | None \<Rightarrow> True) new"

definition updated_old_attributes :: "item \<Rightarrow> item \<Rightarrow> item" where
  "updated_old_attributes old new =
     filter (\<lambda>(n, a). case map_of new n of Some b \<Rightarrow> \<not> attribute_values_equal a b | None \<Rightarrow> True) old"

definition attributes_if :: "item \<Rightarrow> (string, json) bmap" where
  "attributes_if attrs = (if attrs = [] then [] else [(''Attributes'', Object attrs)])"

definition update_answer :: "string \<Rightarrow> item option \<Rightarrow> item \<Rightarrow> (string, json) bmap" where
  "update_answer return_values old_item updated =
     (let old_ref = (case old_item of Some i \<Rightarrow> i | None \<Rightarrow> []) in
      if return_values = ''ALL_NEW'' then [(''Attributes'', Object updated)]
      else if return_values = ''ALL_OLD'' then (if old_item \<noteq> None then [(''Attributes'', Object old_ref)] else [])
      else if return_values = ''UPDATED_NEW'' then attributes_if (updated_attributes old_ref updated)
      else if return_values = ''UPDATED_OLD'' then attributes_if (updated_old_attributes old_ref updated)
      else [])"

definition update_item :: "ddb_crates \<Rightarrow> env \<Rightarrow> update_item_request \<Rightarrow> ddb_server \<Rightarrow> (json api \<times> ddb_server) option" where
  "update_item X E r s =
     (let n = uir_table_name r in
      if n = [] then Some (Inl (validation_error ''table name is required''), s)
      else case find_table s n of Inl e \<Rightarrow> Some (Inl e, s) | Inr t \<Rightarrow>
       (case validated (item_key X (description t) (uir_key r)) of Inl e \<Rightarrow> Some (Inl e, s) | Inr key \<Rightarrow>
       (case check_returns X {''NONE'', ''ALL_OLD'', ''UPDATED_OLD'', ''ALL_NEW'', ''UPDATED_NEW''}
          ''return values must be NONE, ALL_OLD, UPDATED_OLD, ALL_NEW, or UPDATED_NEW'' (uir_return_values r)
          (uir_return_values_on_condition_check_failure r) (uir_return_consumed_capacity r) of Inl e \<Rightarrow> Some (Inl e, s) | Inr _ \<Rightarrow>
        let old_item = map_of (items t) key; start = (case old_item of Some i \<Rightarrow> i | None \<Rightarrow> uir_key r) in
       (case check_item_condition X (uir_condition_expression r) (uir_names r) (uir_values r)
          (uir_return_values_on_condition_check_failure r) old_item of Inl e \<Rightarrow> Some (Inl e, s) | Inr _ \<Rightarrow>
       (case apply_update_expression X start (uir_update_expression r) (uir_names r) (uir_values r) of
          None \<Rightarrow> None
        | Some (Inl e) \<Rightarrow> Some (Inl (validation_error e), s)
        | Some (Inr updated) \<Rightarrow>
           (case validated (validate_item_size X (dconfig s) updated) of Inl e \<Rightarrow> Some (Inl e, s) | Inr _ \<Rightarrow>
              Some (save_or_undo X (fs E) (modify_table n (unstore_item key old_item (length (stream_records t))))
                (Object (add_consumed_capacity n (uir_return_consumed_capacity r)
                  (update_answer (upper_or_none X (uir_return_values r)) old_item updated)))
                (mark_dirty n (modify_table n
                  (store_item X (dc_region_or_default (dconfig s)) (now_unix E 0) key old_item updated) s)))))))))"

section \<open>Query and scan\<close>

definition find_index :: "table_description \<Rightarrow> string \<Rightarrow> unit api" where
  "find_index d index = (if index \<noteq> [] \<and> \<not> table_has_index d index then Inl (validation_error ''index not found'') else Inr ())"

definition query :: "ddb_crates \<Rightarrow> query_request \<Rightarrow> ddb_server \<Rightarrow> json api" where
  "query X r s =
     (let n = qr_table_name r in
      if n = [] then Inl (validation_error ''table name is required'')
      else if trim (qr_key_condition_expression r) = [] then Inl (validation_error ''key condition expression is required'')
      else bind_res (validated (validate_select X (qr_select r) (qr_projection_expression r))) (\<lambda>_.
        bind_res (check_capacity X (qr_return_consumed_capacity r)) (\<lambda>_.
        bind_res (find_table s n) (\<lambda>t.
        bind_res (find_index (description t) (qr_index_name r)) (\<lambda>_.
          let source = sorted_items_for_query X (items t) (description t) (qr_index_name r);
              source = (if qr_scan_index_forward r = Some False then rev source else source) in
          bind_res (validated (start_key_string X (description t) (qr_exclusive_start_key r))) (\<lambda>start_key.
          bind_res (validated (collect_items
            \<lparr>ca_description = description t, ca_index_name = qr_index_name r, ca_source = source, ca_limit = qr_limit r,
             ca_projection = qr_projection_expression r, ca_names = qr_names r, ca_counts_unmatched = False,
             ca_matcher = match_key_condition X (qr_key_condition_expression r) (qr_names r) (qr_values r)\<rparr> start_key)) (\<lambda>response.
            Inr (Object (add_consumed_capacity n (qr_return_consumed_capacity r) (apply_select response (qr_select r)))))))))))"

definition scan :: "ddb_crates \<Rightarrow> scan_request \<Rightarrow> ddb_server \<Rightarrow> json api" where
  "scan X r s =
     (let n = sc_table_name r in
      if n = [] then Inl (validation_error ''table name is required'')
      else bind_res (validated (validate_select X (sc_select r) (sc_projection_expression r))) (\<lambda>_.
        bind_res (check_capacity X (sc_return_consumed_capacity r)) (\<lambda>_.
        bind_res (find_table s n) (\<lambda>t.
        bind_res (find_index (description t) (sc_index_name r)) (\<lambda>_.
          bind_res (validated (start_key_string X (description t) (sc_exclusive_start_key r))) (\<lambda>start_key.
          bind_res (validated (collect_items
            \<lparr>ca_description = description t, ca_index_name = sc_index_name r,
             ca_source = sorted_items_for_scan X (items t) (description t) (sc_index_name r), ca_limit = sc_limit r,
             ca_projection = sc_projection_expression r, ca_names = sc_names r, ca_counts_unmatched = True,
             ca_matcher = match_filter X (sc_filter_expression r) (sc_names r) (sc_values r)\<rparr> start_key)) (\<lambda>response.
            Inr (Object (add_consumed_capacity n (sc_return_consumed_capacity r) (apply_select response (sc_select r)))))))))))"

section \<open>Changes of items\<close>

lemma recount_keeps [simp]: "items (recount t) = items t" "stream_records (recount t) = stream_records t"
  by (simp_all add: recount_counted)

lemma append_stream_record_split:
  "append_stream_record X region now ev old new t =
     t\<lparr>stream_records := stream_records (append_stream_record X region now ev old new t)\<rparr>"
  by (simp add: append_stream_record_def split: option.splits)

lemma items_ok_insert: "items_ok its \<Longrightarrow> stored_item_ok i \<Longrightarrow> items_ok (bt_insert k i its)"
  by (auto simp: items_ok_def set_bt_insert)

lemma items_ok_remove: "items_ok its \<Longrightarrow> items_ok (bt_remove k its)"
  by (auto simp: items_ok_def bt_remove_def)

lemma items_ok_get: "items_ok its \<Longrightarrow> map_of its k = Some i \<Longrightarrow> stored_item_ok i"
  by (force simp: items_ok_def dest: map_of_SomeD)

lemma numbered_append:
  "numbered (stream_records t) \<Longrightarrow> numbered (stream_records (append_stream_record X region now ev old new t))"
  by (auto simp: append_stream_record_def build_stream_record_def numbered_def Let_def split: option.splits if_splits sum.splits prod.splits)

lemma table_ok_items:
  assumes "table_ok n t" "items_ok its"
  shows "table_ok n (append_stream_record X region now ev old new (recount (t\<lparr>items := its\<rparr>)))"
proof -
  let ?u = "recount (t\<lparr>items := its\<rparr>)"
  have "numbered (stream_records (append_stream_record X region now ev old new ?u))"
    using assms(1) by (intro numbered_append) (simp add: table_ok_def)
  then show ?thesis using assms by (subst append_stream_record_split) (simp add: table_ok_def recount_counted)
qed

lemma undo_items:
  assumes "table_ok n t" "its = items t"
  shows "recount ((append_stream_record X region now ev old new (recount (t\<lparr>items := its'\<rparr>)))\<lparr>items := its,
    stream_records := take (length (stream_records t)) (stream_records (append_stream_record X region now ev old new
      (recount (t\<lparr>items := its'\<rparr>))))\<rparr>) = t"
proof -
  let ?u = "recount (t\<lparr>items := its'\<rparr>)"
  have "take (length (stream_records t)) (stream_records (append_stream_record X region now ev old new ?u)) = stream_records t"
    using append_stream_record_keeps(7)[where t = ?u] by simp
  moreover have "counted (items t) (description t) = description t" using table_ok_counts[OF assms(1)] .
  ultimately show ?thesis using assms(2)
    by (subst append_stream_record_split) (simp add: recount_counted)
qed

lemma store_item_ok: "table_ok n t \<Longrightarrow> stored_item_ok new \<Longrightarrow> table_ok n (store_item X region now key old new t)"
  unfolding store_item_def by (intro table_ok_items items_ok_insert) (simp_all add: table_ok_def)

lemma drop_item_ok: "table_ok n t \<Longrightarrow> table_ok n (drop_item X region now key old t)"
  unfolding drop_item_def by (intro table_ok_items items_ok_remove) (simp_all add: table_ok_def)

lemma unstore_store:
  assumes "table_ok n t"
  shows "unstore_item key (map_of (items t) key) (length (stream_records t))
    (store_item X region now key (map_of (items t) key) new t) = t"
proof -
  have bt: "bt_ok (items t)" using assms by (simp add: table_ok_def items_ok_def)
  show ?thesis
  proof (cases "map_of (items t) key")
    case None
    from undo_items[OF assms bt.undo_new[OF bt None]] None show ?thesis by (simp add: unstore_item_def store_item_def)
  next
    case (Some prev)
    from undo_items[OF assms bt.undo_overwrite[OF bt Some]] Some show ?thesis by (simp add: unstore_item_def store_item_def)
  qed
qed

lemma undrop_drop:
  assumes "table_ok n t"
  shows "undrop_item key (map_of (items t) key) (length (stream_records t))
    (drop_item X region now key (map_of (items t) key) t) = t"
proof -
  have bt: "bt_ok (items t)" using assms by (simp add: table_ok_def items_ok_def)
  show ?thesis
  proof (cases "map_of (items t) key")
    case None
    then have "bt_remove key (items t) = items t" using bt by (intro bt_ext) (auto simp: bt_simps)
    from undo_items[OF assms this] None show ?thesis by (simp add: undrop_item_def drop_item_def)
  next
    case (Some prev)
    from undo_items[OF assms bt.undo_remove[OF bt Some]] Some show ?thesis by (simp add: undrop_item_def drop_item_def)
  qed
qed

lemma items_store_item: "items (store_item X region now key old new t) = bt_insert key new (items t)"
  "description (store_item X region now key old new t) = counted (bt_insert key new (items t)) (description t)"
  by (simp_all add: store_item_def recount_counted)

lemma items_drop_item: "items (drop_item X region now key old t) = bt_remove key (items t)"
  "description (drop_item X region now key old t) = counted (bt_remove key (items t)) (description t)"
  by (simp_all add: drop_item_def recount_counted)

lemma validate_item_size_valid: "validate_item_size X c i = Inr () \<Longrightarrow> validate_item_attribute_values i = Inr ()"
  by (auto simp: validate_item_size_def bind_res_Inr_iff)

lemma server_table_ok: "server_ok X s \<Longrightarrow> map_of (tables s) n = Some t \<Longrightarrow> table_ok n t"
  by (auto simp: server_ok_def dest: tables_ok_get)

lemma find_table_simps: "find_table s n = Inr t \<longleftrightarrow> map_of (tables s) n = Some t" "find_table s n = Inl e \<longleftrightarrow> map_of (tables s) n = None \<and> e = not_found ''table not found''"
  by (auto simp: find_table_def or_else_def split: option.splits)

section \<open>Put, delete and update\<close>

lemma put_item_cases:
  assumes "put_item X E r s = (q, s')"
  obtains (refused) e where "q = Inl e" "s' = s"
  | (stored) t key where "map_of (tables s) (pir_table_name r) = Some t" "item_key X (description t) (pir_item r) = Inr key"
      "validate_item_size X (dconfig s) (pir_item r) = Inr ()"
      "save_or_undo X (fs E) (modify_table (pir_table_name r) (unstore_item key (map_of (items t) key) (length (stream_records t))))
        (Object (add_consumed_capacity (pir_table_name r) (pir_return_consumed_capacity r)
          (old_attributes X (pir_return_values r) (map_of (items t) key))))
        (mark_dirty (pir_table_name r) (modify_table (pir_table_name r)
          (store_item X (dc_region_or_default (dconfig s)) (now_unix E 0) key (map_of (items t) key) (pir_item r)) s)) = (q, s')"
  using assms unfolding put_item_def Let_def
  by (fastforce simp: find_table_simps split: if_splits sum.splits)

lemma put_item_handled:
  assumes "json_object_text (serde_to_vec X)" "server_ok X s" "bt_ok (pir_item r)" "put_item X E r s = (q, s')"
  shows "well_handled X s q s'"
  using assms(4)
proof (cases rule: put_item_cases)
  case (stored t key)
  have "table_ok (pir_table_name r) t" using assms(2) stored(1) by (rule server_table_ok)
  moreover have "stored_item_ok (pir_item r)"
    using assms(3) stored(3) by (simp add: stored_item_ok_def validate_item_size_valid)
  ultimately show ?thesis
    by (intro table_change(1)[OF assms(1,2) stored(1) _ _ stored(4)] store_item_ok unstore_store)
qed (use assms(2) well_handled_refused in auto)

lemma delete_item_cases:
  assumes "delete_item X E r s = (q, s')"
  obtains (refused) e where "q = Inl e" "s' = s"
  | (dropped) t key where "map_of (tables s) (dir_table_name r) = Some t" "item_key X (description t) (dir_key r) = Inr key"
      "save_or_undo X (fs E) (modify_table (dir_table_name r) (undrop_item key (map_of (items t) key) (length (stream_records t))))
        (Object (add_consumed_capacity (dir_table_name r) (dir_return_consumed_capacity r)
          (old_attributes X (dir_return_values r) (map_of (items t) key))))
        (mark_dirty (dir_table_name r) (modify_table (dir_table_name r)
          (drop_item X (dc_region_or_default (dconfig s)) (now_unix E 0) key (map_of (items t) key)) s)) = (q, s')"
  using assms unfolding delete_item_def Let_def
  by (fastforce simp: find_table_simps split: if_splits sum.splits)

lemma delete_item_handled:
  assumes "json_object_text (serde_to_vec X)" "server_ok X s" "delete_item X E r s = (q, s')"
  shows "well_handled X s q s'"
  using assms(3)
proof (cases rule: delete_item_cases)
  case (dropped t key)
  have "table_ok (dir_table_name r) t" using assms(2) dropped(1) by (rule server_table_ok)
  then show ?thesis by (intro table_change(1)[OF assms(1,2) dropped(1) _ _ dropped(3)] drop_item_ok undrop_drop)
qed (use assms(2) well_handled_refused in auto)

section \<open>Updates\<close>

lemma apply_set_sorted: "apply_set nms vals as target = Inr r \<Longrightarrow> bt_ok target \<Longrightarrow> bt_ok r"
  by (induction as arbitrary: target) (auto simp: bind_res_Inr_iff split: option.splits)

lemma apply_remove_sorted: "apply_remove nms as target = Inr r \<Longrightarrow> bt_ok target \<Longrightarrow> bt_ok r"
  by (induction as arbitrary: target) (auto simp: bind_res_Inr_iff Let_def split: if_splits)

lemma apply_add_sorted: "apply_add nms vals as target = Inr r \<Longrightarrow> bt_ok target \<Longrightarrow> bt_ok r"
  by (induction as arbitrary: target) (auto simp: bind_res_Inr_iff split: option.splits)

lemma apply_delete_sorted: "apply_delete nms vals as target = Inr r \<Longrightarrow> bt_ok target \<Longrightarrow> bt_ok r"
  by (induction as arbitrary: target) (auto simp: bind_res_Inr_iff split: option.splits prod.splits if_splits)

lemmas apply_sorted = apply_set_sorted apply_remove_sorted apply_add_sorted apply_delete_sorted

lemma apply_clause_sorted: "apply_clause nms vals c target = Inr r \<Longrightarrow> bt_ok target \<Longrightarrow> bt_ok r"
  by (auto simp: apply_clause_def Let_def dest: apply_sorted split: prod.splits if_splits)

lemma apply_clauses_sorted: "apply_clauses nms vals cs target = Inr r \<Longrightarrow> bt_ok target \<Longrightarrow> bt_ok r"
  by (induction cs arbitrary: target) (auto simp: bind_res_Inr_iff dest: apply_clause_sorted)

lemma apply_update_sorted: "apply_update_expression X target e nms vals = Some (Inr r) \<Longrightarrow> bt_ok target \<Longrightarrow> bt_ok r"
  by (auto simp: apply_update_expression_def Let_def bind_res_Inr_iff dest: apply_clauses_sorted split: if_splits)

lemma update_item_cases:
  assumes "update_item X E r s = Some (q, s')"
  obtains (refused) e where "q = Inl e" "s' = s"
  | (stored) t key updated where "map_of (tables s) (uir_table_name r) = Some t" "item_key X (description t) (uir_key r) = Inr key"
      "apply_update_expression X (case map_of (items t) key of Some i \<Rightarrow> i | None \<Rightarrow> uir_key r) (uir_update_expression r)
         (uir_names r) (uir_values r) = Some (Inr updated)"
      "validate_item_size X (dconfig s) updated = Inr ()"
      "save_or_undo X (fs E) (modify_table (uir_table_name r) (unstore_item key (map_of (items t) key) (length (stream_records t))))
        (Object (add_consumed_capacity (uir_table_name r) (uir_return_consumed_capacity r)
          (update_answer (upper_or_none X (uir_return_values r)) (map_of (items t) key) updated)))
        (mark_dirty (uir_table_name r) (modify_table (uir_table_name r)
          (store_item X (dc_region_or_default (dconfig s)) (now_unix E 0) key (map_of (items t) key) updated) s)) = (q, s')"
  using assms unfolding update_item_def Let_def
  by (fastforce simp: find_table_simps split: if_splits sum.splits option.splits)

lemma update_item_handled:
  assumes "json_object_text (serde_to_vec X)" "server_ok X s" "bt_ok (uir_key r)" "update_item X E r s = Some (q, s')"
  shows "well_handled X s q s'"
  using assms(4)
proof (cases rule: update_item_cases)
  case (stored t key updated)
  have t: "table_ok (uir_table_name r) t" using assms(2) stored(1) by (rule server_table_ok)
  then have "stored_item_ok i" if "map_of (items t) key = Some i" for i
    using that by (auto simp: table_ok_def intro: items_ok_get)
  then have "bt_ok (case map_of (items t) key of Some i \<Rightarrow> i | None \<Rightarrow> uir_key r)"
    using assms(3) by (auto simp: stored_item_ok_def split: option.splits)
  then have "stored_item_ok updated"
    using apply_update_sorted[OF stored(3)] stored(4) by (simp add: stored_item_ok_def validate_item_size_valid)
  with t show ?thesis by (intro table_change(1)[OF assms(1,2) stored(1) _ _ stored(5)] store_item_ok unstore_store)
qed (use assms(2) well_handled_refused in auto)

section \<open>What a write leaves\<close>

lemma get_item_of:
  assumes "map_of (tables s) (gir_table_name g) = Some t" "gir_table_name g \<noteq> []" "gir_return_consumed_capacity g = []"
  shows "get_item X g s = bind_res (validated (item_key X (description t) (gir_key g))) (\<lambda>key.
    Inr (Object (case map_of (items t) key of
      Some found \<Rightarrow> [(''Item'', Object (project_item found (gir_projection_expression g) (gir_names g)))] | None \<Rightarrow> [])))"
  using assms
  by (simp add: get_item_def find_table_def or_else_def check_capacity_def valid_return_consumed_capacity_def
    upper_or_none_def add_consumed_capacity_def)

lemma item_key_counted [simp]: "item_key X (counted its d) i = item_key X d i"
  by (simp add: item_key_def)

lemma get_item_cong:
  "map_of (tables s') (gir_table_name g) = map_of (tables s) (gir_table_name g) \<Longrightarrow> get_item X g s' = get_item X g s"
  by (simp add: get_item_def find_table_def Let_def)

definition same_key :: "table_description \<Rightarrow> item \<Rightarrow> item \<Rightarrow> bool" where
  "same_key d a b \<longleftrightarrow> (\<forall>e \<in> set (key_schema d). map_of a (attribute_name e) = map_of b (attribute_name e))"

text \<open>Reading after one slot of a table was changed: the slot is found under its key, others as before.\<close>

lemma get_item_changed:
  assumes "json_text (serde_to_vec X)" "item_key X (description t) i = Inr key"
    and "map_of (tables s) n = Some t" "map_of (tables s') = (map_of (tables s))(n \<mapsto> t')" "n \<noteq> []"
    and "description t' = counted its (description t)" "map_of (items t') = (map_of (items t))(key := slot)"
    and "gir_return_consumed_capacity g = []"
  shows "get_item X g s' =
    (if gir_table_name g = n \<and> same_key (description t) (gir_key g) i
     then Inr (Object (case slot of Some found \<Rightarrow>
       [(''Item'', Object (project_item found (gir_projection_expression g) (gir_names g)))] | None \<Rightarrow> []))
     else get_item X g s)"
proof (cases "gir_table_name g = n")
  case True
  have same: "item_key X (description t) (gir_key g) = Inr key \<longleftrightarrow> same_key (description t) (gir_key g) i"
    using item_key_same[OF assms(1,2)] by (simp add: same_key_def)
  have get: "get_item X g s' = bind_res (validated (item_key X (description t) (gir_key g))) (\<lambda>k.
      Inr (Object (case map_of (items t') k of
        Some found \<Rightarrow> [(''Item'', Object (project_item found (gir_projection_expression g) (gir_names g)))] | None \<Rightarrow> [])))"
    "get_item X g s = bind_res (validated (item_key X (description t) (gir_key g))) (\<lambda>k.
      Inr (Object (case map_of (items t) k of
        Some found \<Rightarrow> [(''Item'', Object (project_item found (gir_projection_expression g) (gir_names g)))] | None \<Rightarrow> [])))"
    using assms True by (simp_all add: get_item_of[where t = t'] get_item_of[where t = t])
  show ?thesis
  proof (cases "same_key (description t) (gir_key g) i")
    case True
    then show ?thesis using get same \<open>gir_table_name g = n\<close> assms(7) by (simp add: validated_def)
  next
    case False
    then show ?thesis using get same assms(7)
      by (cases "item_key X (description t) (gir_key g)") (auto simp: validated_def)
  qed
next
  case False
  then show ?thesis using assms(4) get_item_cong[of s' g s X] by simp
qed

text \<open>C23. Put and get: once a put is acknowledged, a get whose key agrees with the item on the key attributes
  answers the item that was put, and every other get answers what it answered before.\<close>

theorem put_then_get:
  assumes "json_object_text (serde_to_vec X)" "server_ok X s" "bt_ok (pir_item r)" "put_item X E r s = (Inr v, s')"
    "map_of (tables s) (pir_table_name r) = Some t" "gir_return_consumed_capacity g = []"
  shows "get_item X g s' =
    (if gir_table_name g = pir_table_name r \<and> same_key (description t) (gir_key g) (pir_item r)
     then Inr (Object [(''Item'', Object (project_item (pir_item r) (gir_projection_expression g) (gir_names g)))])
     else get_item X g s)"
  using assms(4)
proof (cases rule: put_item_cases)
  case (stored u key)
  then have u: "u = t" using assms(5) by simp
  have t: "table_ok (pir_table_name r) t" using assms(2,5) by (rule server_table_ok)
  have "stored_item_ok (pir_item r)"
    using assms(3) stored(3) by (simp add: stored_item_ok_def validate_item_size_valid)
  then have tabs: "tables s' = bt_insert (pir_table_name r) (store_item X (dc_region_or_default (dconfig s)) (now_unix E 0) key
      (map_of (items t) key) (pir_item r) t) (tables s)"
    using table_change(2)[OF assms(1,2) stored(1) _ _ stored(4)] store_item_ok[OF t] unstore_store[OF t] u by simp
  show ?thesis
    using get_item_changed[OF json_object_text.axioms(1)[OF assms(1)] stored(2)[unfolded u] assms(5), of s', OF _ _ items_store_item(2)]
      tabs t assms(6) by (simp add: bt_get_insert items_store_item table_ok_def)
qed simp

text \<open>Delete and get: once a delete is acknowledged, a get with the deleted key finds nothing, and every other
  get answers what it answered before.\<close>

theorem delete_then_get:
  assumes "json_object_text (serde_to_vec X)" "server_ok X s" "delete_item X E r s = (Inr v, s')"
    "map_of (tables s) (dir_table_name r) = Some t" "gir_return_consumed_capacity g = []"
  shows "get_item X g s' =
    (if gir_table_name g = dir_table_name r \<and> same_key (description t) (gir_key g) (dir_key r)
     then Inr (Object []) else get_item X g s)"
  using assms(3)
proof (cases rule: delete_item_cases)
  case (dropped u key)
  then have u: "u = t" using assms(4) by simp
  have t: "table_ok (dir_table_name r) t" using assms(2,4) by (rule server_table_ok)
  then have tabs: "tables s' = bt_insert (dir_table_name r) (drop_item X (dc_region_or_default (dconfig s)) (now_unix E 0) key
      (map_of (items t) key) t) (tables s)"
    using table_change(2)[OF assms(1,2) dropped(1) _ _ dropped(3)] drop_item_ok[OF t] undrop_drop[OF t] u by simp
  show ?thesis
    using get_item_changed[OF json_object_text.axioms(1)[OF assms(1)] dropped(2)[unfolded u] assms(4), of s', OF _ _ items_drop_item(2)]
      tabs t assms(5) by (simp add: bt_get_insert bt_get_remove items_drop_item table_ok_def)
qed simp

section \<open>Samples\<close>

definition sample_parse :: serde_parse where
  "sample_parse = \<lparr>state_from_slice = (\<lambda>_. Inl ''unreadable''), is_json_text = (\<lambda>_. True)\<rparr>"

definition sample_ddb_config :: "string \<Rightarrow> ddb_config" where
  "sample_ddb_config path = \<lparr>dc_addr = [], dc_region = [], dc_auth_mode = [], dc_access_key_id = [], dc_secret_access_key = [],
     dc_storage_path = path, dc_max_item_bytes = 0, dc_max_tables = 0\<rparr>"

definition users_request :: "bool \<Rightarrow> create_table_request" where
  "users_request stream = \<lparr>ctr_table_name = ''users'',
     ctr_attribute_definitions = [\<lparr>ad_attribute_name = ''pk'', attribute_type = ''S''\<rparr>],
     ctr_key_schema = [\<lparr>attribute_name = ''pk'', key_type = ''HASH''\<rparr>],
     ctr_global_secondary_indexes = [], ctr_local_secondary_indexes = [], ctr_billing_mode = [],
     ctr_stream_specification = \<lparr>stream_enabled_flag = stream, stream_view_type = (if stream then ''NEW_IMAGE'' else [])\<rparr>\<rparr>"

definition user :: "string \<Rightarrow> item" where
  "user name = [(''pk'', to_json (AV_S name))]"

definition put_user :: "item \<Rightarrow> put_item_request" where
  "put_user i = \<lparr>pir_table_name = ''users'', pir_item = i, pir_condition_expression = [], pir_names = [], pir_values = [],
     pir_return_values = [], pir_return_values_on_condition_check_failure = [], pir_return_consumed_capacity = []\<rparr>"

definition get_user :: "string \<Rightarrow> get_item_request" where
  "get_user name = \<lparr>gir_table_name = ''users'', gir_key = user name, gir_projection_expression = [], gir_names = [],
     gir_return_consumed_capacity = []\<rparr>"

definition delete_user :: "string \<Rightarrow> delete_item_request" where
  "delete_user name = \<lparr>dir_table_name = ''users'', dir_key = user name, dir_condition_expression = [], dir_names = [], dir_values = [],
     dir_return_values = [], dir_return_values_on_condition_check_failure = [], dir_return_consumed_capacity = []\<rparr>"

definition rename_user :: "string \<Rightarrow> string \<Rightarrow> update_item_request" where
  "rename_user name name' = \<lparr>uir_table_name = ''users'', uir_key = user name, uir_condition_expression = [],
     uir_update_expression = ''SET pk = :n'', uir_names = [], uir_values = [('':n'', to_json (AV_S name'))],
     uir_return_values = [], uir_return_values_on_condition_check_failure = [], uir_return_consumed_capacity = []\<rparr>"

definition users_db :: "string \<Rightarrow> ddb_server" where
  "users_db path = snd (create_table sample_ddb (env_at t0) (users_request False) (ddb_new sample_parse (sample_ddb_config path) Bytes_missing))"

lemma server_ok_new: "server_ok X (ddb_new D c Bytes_missing)"
  by (simp add: ddb_new_def ddb_load_def server_ok_def tables_ok_def backups_ok_def cache_ok_def cache_current_def Let_def)

lemma sample_ddb_objects: "json_object_text (serde_to_vec sample_ddb)"
  using compact_objects.json_object_text_axioms by (simp add: sample_ddb_def)

lemma users_db_ok: "server_ok sample_ddb (users_db path)"
proof -
  have "well_handled sample_ddb s q s' \<Longrightarrow> server_ok sample_ddb s'" for s s' and q :: "json api" by (simp add: well_handled_def)
  then show ?thesis using create_table_handled[OF sample_ddb_objects server_ok_new] by (metis prod.collapse users_db_def)
qed

lemma users_table: "map_of (tables (users_db [])) ''users'' = Some (table_state_new (new_description (sample_ddb_config []) (env_at t0) (users_request False)))"
  by code_simp

theorem put_then_get_witness:
  "\<exists>v s'. put_item sample_ddb (env_at t0) (put_user (user ''ann'')) (users_db []) = (Inr v, s') \<and>
     get_item sample_ddb (get_user ''ann'') s' = Inr (Object [(''Item'', Object (user ''ann''))])"
proof -
  let ?p = "put_item sample_ddb (env_at t0) (put_user (user ''ann'')) (users_db [])"
  have "fst ?p = Inr (Object [])" by code_simp
  then have p: "?p = (Inr (Object []), snd ?p)" by (metis prod.collapse)
  have b: "bt_ok (pir_item (put_user (user ''ann'')))" by (simp add: put_user_def user_def)
  have t: "map_of (tables (users_db [])) (pir_table_name (put_user (user ''ann''))) =
      Some (table_state_new (new_description (sample_ddb_config []) (env_at t0) (users_request False)))"
    using users_table by (simp add: put_user_def)
  have "get_item sample_ddb (get_user ''ann'') (snd ?p) = Inr (Object [(''Item'', Object (user ''ann''))])"
    using put_then_get[OF sample_ddb_objects users_db_ok b p t, of "get_user ''ann''"]
    by (simp add: put_user_def get_user_def same_key_def project_item_def)
  with p show ?thesis by blast
qed

theorem delete_then_get_witness:
  "case put_item sample_ddb (env_at t0) (put_user (user ''ann'')) (users_db []) of (_, s) \<Rightarrow>
   \<exists>v s'. delete_item sample_ddb (env_at t0) (delete_user ''ann'') s = (Inr v, s')
     \<and> get_item sample_ddb (get_user ''ann'') s' = Inr (Object [])"
proof -
  define s where "s = snd (put_item sample_ddb (env_at t0) (put_user (user ''ann'')) (users_db []))"
  have bt: "bt_ok (pir_item (put_user (user ''ann'')))" by (simp add: put_user_def user_def)
  have "put_item sample_ddb (env_at t0) (put_user (user ''ann'')) (users_db []) =
      (fst (put_item sample_ddb (env_at t0) (put_user (user ''ann'')) (users_db [])), s)" by (simp add: s_def)
  from put_item_handled[OF sample_ddb_objects users_db_ok bt this] have ok: "server_ok sample_ddb s" by (simp add: well_handled_def)
  let ?d = "delete_item sample_ddb (env_at t0) (delete_user ''ann'') s"
  have "fst ?d = Inr (Object [])" unfolding s_def by code_simp
  then have d: "?d = (Inr (Object []), snd ?d)" by (metis prod.collapse)
  have "map_of (tables s) (dir_table_name (delete_user ''ann'')) \<noteq> None" unfolding s_def by code_simp
  then obtain t where t: "map_of (tables s) (dir_table_name (delete_user ''ann'')) = Some t" by blast
  have "get_item sample_ddb (get_user ''ann'') (snd ?d) = Inr (Object [])"
    using delete_then_get[OF sample_ddb_objects ok d t, of "get_user ''ann''"] by (simp add: delete_user_def get_user_def same_key_def)
  moreover obtain q where "put_item sample_ddb (env_at t0) (put_user (user ''ann'')) (users_db []) = (q, s)"
    unfolding s_def by (metis prod.collapse)
  ultimately show ?thesis using d by auto
qed

text \<open>C26. Saving writes the whole state although it encodes only the tables that changed: the text put together from fresh
  and cached encodings is, byte for byte, the encoding of the data in memory.\<close>

theorem cached_encoding_exact:
  assumes "json_object_text (serde_to_vec X)" "server_ok X s"
  shows "assemble_state X s (fresh_tables X s) = to_state_json X (ddb_persisted_of s)"
  using assms by (intro assembled_state) (simp_all add: server_ok_def cache_ok_def tables_ok_def)

theorem cached_encoding_exact_witness:
  "table_cache (users_db ''/data'') \<noteq> [] \<and> fresh_tables sample_ddb (users_db ''/data'') = [] \<and>
   assemble_state sample_ddb (users_db ''/data'') [] = to_state_json sample_ddb (ddb_persisted_of (users_db ''/data''))"
proof -
  have c: "table_cache (users_db ''/data'') \<noteq> []" by code_simp
  have f: "fresh_tables sample_ddb (users_db ''/data'') = []" by code_simp
  show ?thesis using cached_encoding_exact[OF sample_ddb_objects users_db_ok, of "''/data''"] c f by simp
qed

text \<open>An update expression may change the key attributes, which DynamoDB refuses: the item stays in the slot of its
  old key. A get with the old key then answers an item with another key, and a get with the key the item has finds nothing.\<close>

theorem update_moves_key:
  "case put_item sample_ddb (env_at t0) (put_user (user ''ann'')) (users_db []) of (_, s) \<Rightarrow>
   (case update_item sample_ddb (env_at t0) (rename_user ''ann'' ''bob'') s of
      Some (Inr _, s') \<Rightarrow> get_item sample_ddb (get_user ''ann'') s' = Inr (Object [(''Item'', Object (user ''bob''))])
        \<and> get_item sample_ddb (get_user ''bob'') s' = Inr (Object [])
    | _ \<Rightarrow> False)"
  by code_simp

end
