(* ===== verification/Dynamo_Batch.thy ===== *)
theory Dynamo_Batch
  imports Dynamo_Items
begin

text \<open>
  The operations of the DynamoDB server on several items (\<open>services/dynamodb/src/server.rs\<close>): batches, and transactions. Writes are planned against the state before them and
  then applied together; \<open>view\<close> is the content of all tables as a function, on which a plan is a
  sequence of updates. The \<open>unwrap\<close> of a table while a plan is applied cannot fail, because
  planning found the table.
\<close>

section \<open>Requests\<close>

record batch_get_table_request =
  bgt_keys :: "item list"
  bgt_projection_expression :: string
  bgt_names :: names

record batch_get_item_request =
  bgr_request_items :: "(string, batch_get_table_request) bmap"
  bgr_return_consumed_capacity :: string

record write_request =
  wr_put_request :: "item option"
  wr_delete_request :: "item option"

record batch_write_item_request =
  bwr_request_items :: "(string, write_request list) bmap"
  bwr_return_consumed_capacity :: string

record transact_get =
  tg_table_name :: string
  tg_key :: item
  tg_projection_expression :: string
  tg_names :: names

record transact_put =
  tp_table_name :: string
  tp_item :: item
  tp_condition_expression :: string
  tp_names :: names
  tp_values :: attribute_values

record transact_update =
  tu_table_name :: string
  tu_key :: item
  tu_update_expression :: string
  tu_condition_expression :: string
  tu_names :: names
  tu_values :: attribute_values

text \<open>\<open>TransactDelete\<close> and \<open>TransactConditionCheck\<close> have the same fields.\<close>

record transact_keyed =
  tk_table_name :: string
  tk_key :: item
  tk_condition_expression :: string
  tk_names :: names
  tk_values :: attribute_values

record transact_write_item =
  twi_put :: "transact_put option"
  twi_update :: "transact_update option"
  twi_delete :: "transact_keyed option"
  twi_condition_check :: "transact_keyed option"

section \<open>Reading several items\<close>

definition append_batch_consumed_capacity :: "string \<Rightarrow> string \<Rightarrow> json list \<Rightarrow> json list" where
  "append_batch_consumed_capacity n mode vs =
     (if mode = [] \<or> eq_ignore_ascii_case mode ''NONE'' then vs else vs @ [capacity_entry n])"

fun batch_get_keys :: "ddb_crates \<Rightarrow> table_state \<Rightarrow> batch_get_table_request \<Rightarrow> item list \<Rightarrow> json list api" where
  "batch_get_keys X t r [] = Inr []"
| "batch_get_keys X t r (key_value # rest) =
     bind_res (validated (item_key X (description t) key_value)) (\<lambda>key.
     bind_res (batch_get_keys X t r rest) (\<lambda>found_items.
       Inr (case map_of (items t) key of
              Some found \<Rightarrow> Object (project_item found (bgt_projection_expression r) (bgt_names r)) # found_items
            | None \<Rightarrow> found_items)))"

fun batch_get_tables ::
  "ddb_crates \<Rightarrow> ddb_server \<Rightarrow> string \<Rightarrow> (string \<times> batch_get_table_request) list \<Rightarrow> (string, json) bmap \<Rightarrow> json list \<Rightarrow>
   ((string, json) bmap \<times> json list) api" where
  "batch_get_tables X s mode [] responses consumed = Inr (responses, consumed)"
| "batch_get_tables X s mode ((n, r) # rest) responses consumed =
     bind_res (find_table s n) (\<lambda>t.
       if bgt_keys r = [] then Inl (validation_error ''keys are required'')
       else bind_res (batch_get_keys X t r (bgt_keys r)) (\<lambda>found_items.
         batch_get_tables X s mode rest (bt_insert n (Array found_items) responses) (append_batch_consumed_capacity n mode consumed)))"

definition with_consumed :: "json list \<Rightarrow> (string, json) bmap \<Rightarrow> json" where
  "with_consumed consumed response =
     Object (if consumed = [] then response else bt_insert ''ConsumedCapacity'' (Array consumed) response)"

definition batch_get_item :: "ddb_crates \<Rightarrow> batch_get_item_request \<Rightarrow> ddb_server \<Rightarrow> json api" where
  "batch_get_item X r s =
     (if bgr_request_items r = [] then Inl (validation_error ''request items are required'')
      else bind_res (check_capacity X (bgr_return_consumed_capacity r)) (\<lambda>_.
        bind_res (batch_get_tables X s (bgr_return_consumed_capacity r) (bgr_request_items r) [] []) (\<lambda>(responses, consumed).
          Inr (with_consumed consumed [(''Responses'', Object responses), (''UnprocessedKeys'', Object [])]))))"

fun transact_gets :: "ddb_crates \<Rightarrow> ddb_server \<Rightarrow> transact_get option list \<Rightarrow> json list api" where
  "transact_gets X s [] = Inr []"
| "transact_gets X s (g # rest) =
     (case g of
        None \<Rightarrow> Inl (validation_error ''each transaction item must contain a Get operation'')
      | Some get \<Rightarrow>
          if tg_table_name get = [] then Inl (validation_error ''table name is required'')
          else bind_res (find_table s (tg_table_name get)) (\<lambda>t.
            bind_res (validated (item_key X (description t) (tg_key get))) (\<lambda>key.
            bind_res (transact_gets X s rest) (\<lambda>responses.
              Inr ((case map_of (items t) key of
                      None \<Rightarrow> Object []
                    | Some found \<Rightarrow> Object [(''Item'', Object (project_item found (tg_projection_expression get) (tg_names get)))])
                   # responses)))))"

definition transact_get_items :: "ddb_crates \<Rightarrow> transact_get option list \<Rightarrow> ddb_server \<Rightarrow> json api" where
  "transact_get_items X transact_items s =
     (if transact_items = [] then Inl (validation_error ''transaction items are required'')
      else bind_res (transact_gets X s transact_items) (\<lambda>responses. Inr (Object [(''Responses'', Array responses)])))"

section \<open>Applying planned writes\<close>

record planned_write =
  pw_table :: string
  pw_key :: string
  pw_put :: "item option"

definition set_slot :: "string \<Rightarrow> item option \<Rightarrow> table_state \<Rightarrow> table_state" where
  "set_slot key slot t =
     t\<lparr>items := (case slot of Some i \<Rightarrow> bt_insert key i (items t) | None \<Rightarrow> bt_remove key (items t))\<rparr>"

definition item_backups :: "planned_write list \<Rightarrow> ddb_server \<Rightarrow> (string \<times> string \<times> item option) list" where
  "item_backups plan s =
     concat (map (\<lambda>w. case map_of (tables s) (pw_table w) of
         Some t \<Rightarrow> [(pw_table w, pw_key w, map_of (items t) (pw_key w))]
       | None \<Rightarrow> []) plan)"

definition write_all :: "planned_write list \<Rightarrow> ddb_server \<Rightarrow> ddb_server" where
  "write_all plan s = fold (\<lambda>w. modify_table (pw_table w) (set_slot (pw_key w) (pw_put w))) plan s"

definition restore_all :: "(string \<times> string \<times> item option) list \<Rightarrow> ddb_server \<Rightarrow> ddb_server" where
  "restore_all bs s = fold (\<lambda>(n, key, prev). modify_table n (set_slot key prev)) bs s"

definition recount_all :: "string list \<Rightarrow> ddb_server \<Rightarrow> ddb_server" where
  "recount_all ns s = fold (\<lambda>n. modify_table n recount) ns s"

definition apply_planned_writes :: "ddb_crates \<Rightarrow> fs_outcome \<Rightarrow> planned_write list \<Rightarrow> ddb_server \<Rightarrow> unit api \<times> ddb_server" where
  "apply_planned_writes X io plan s =
     (let bs = item_backups plan s; touched = sorted_list_of_set (pw_table ` set plan);
          s1 = recount_all touched (write_all plan s) in
      save_or_undo X io (\<lambda>s'. recount_all touched (restore_all (rev bs) s')) ()
        (s1\<lparr>dirty_tables := dirty_tables s1 \<union> set touched\<rparr>))"

definition answer_with :: "'a \<Rightarrow> unit api \<times> ddb_server \<Rightarrow> 'a api \<times> ddb_server" where
  "answer_with a q = (case q of (Inl e, s') \<Rightarrow> (Inl e, s') | (Inr _, s') \<Rightarrow> (Inr a, s'))"

section \<open>Batch writes\<close>

definition plan_write :: "ddb_crates \<Rightarrow> ddb_config \<Rightarrow> string \<Rightarrow> table_state \<Rightarrow> write_request \<Rightarrow> planned_write api" where
  "plan_write X c n t w =
     (case (wr_put_request w, wr_delete_request w) of
        (Some i, None) \<Rightarrow>
          if i = [] then Inl (validation_error ''put item is required'')
          else bind_res (validated (validate_item_size X c i)) (\<lambda>_.
            bind_res (validated (item_key X (description t) i)) (\<lambda>key. Inr \<lparr>pw_table = n, pw_key = key, pw_put = Some i\<rparr>))
      | (None, Some k) \<Rightarrow>
          bind_res (validated (item_key X (description t) k)) (\<lambda>key. Inr \<lparr>pw_table = n, pw_key = key, pw_put = None\<rparr>)
      | _ \<Rightarrow> Inl (validation_error ''each write request must contain exactly one operation''))"

fun plan_writes :: "ddb_crates \<Rightarrow> ddb_config \<Rightarrow> string \<Rightarrow> table_state \<Rightarrow> write_request list \<Rightarrow> planned_write list api" where
  "plan_writes X c n t [] = Inr []"
| "plan_writes X c n t (w # ws) =
     bind_res (plan_write X c n t w) (\<lambda>p. bind_res (plan_writes X c n t ws) (\<lambda>ps. Inr (p # ps)))"

fun plan_batch ::
  "ddb_crates \<Rightarrow> ddb_server \<Rightarrow> string \<Rightarrow> (string \<times> write_request list) list \<Rightarrow> json list \<Rightarrow> (planned_write list \<times> json list) api" where
  "plan_batch X s mode [] consumed = Inr ([], consumed)"
| "plan_batch X s mode ((n, ws) # rest) consumed =
     bind_res (find_table s n) (\<lambda>t.
       if ws = [] then Inl (validation_error ''write requests are required'')
       else bind_res (plan_writes X (dconfig s) n t ws) (\<lambda>ps.
         bind_res (plan_batch X s mode rest (append_batch_consumed_capacity n mode consumed)) (\<lambda>(qs, consumed).
           Inr (ps @ qs, consumed))))"

definition batch_write_item :: "ddb_crates \<Rightarrow> env \<Rightarrow> batch_write_item_request \<Rightarrow> ddb_server \<Rightarrow> json api \<times> ddb_server" where
  "batch_write_item X E r s =
     (if bwr_request_items r = [] then (Inl (validation_error ''request items are required''), s)
      else case check_capacity X (bwr_return_consumed_capacity r) of Inl e \<Rightarrow> (Inl e, s) | Inr _ \<Rightarrow>
       (case plan_batch X s (bwr_return_consumed_capacity r) (bwr_request_items r) [] of
          Inl e \<Rightarrow> (Inl e, s)
        | Inr (plan, consumed) \<Rightarrow>
            answer_with (with_consumed consumed [(''UnprocessedItems'', Object [])]) (apply_planned_writes X (fs E) plan s)))"

section \<open>Transactions\<close>

definition transaction_cancelled :: api_error where
  "transaction_cancelled = api_error_new 400 ''TransactionCanceledException'' ''transaction cancelled''"

definition transact_condition :: "ddb_crates \<Rightarrow> string \<Rightarrow> names \<Rightarrow> attribute_values \<Rightarrow> item option \<Rightarrow> unit api" where
  "transact_condition X expression nms vals old_item =
     (case check_condition X expression nms vals old_item of Inl _ \<Rightarrow> Inl transaction_cancelled | Inr _ \<Rightarrow> Inr ())"

definition validate_transact_put :: "ddb_crates \<Rightarrow> ddb_server \<Rightarrow> transact_put \<Rightarrow> planned_write api" where
  "validate_transact_put X s r =
     (let n = tp_table_name r in
      if n = [] then Inl (validation_error ''table name is required'')
      else if tp_item r = [] then Inl (validation_error ''item is required'')
      else bind_res (find_table s n) (\<lambda>t.
        bind_res (validated (item_key X (description t) (tp_item r))) (\<lambda>key.
        bind_res (transact_condition X (tp_condition_expression r) (tp_names r) (tp_values r) (map_of (items t) key)) (\<lambda>_.
        bind_res (validated (validate_item_size X (dconfig s) (tp_item r))) (\<lambda>_.
          Inr \<lparr>pw_table = n, pw_key = key, pw_put = Some (tp_item r)\<rparr>)))))"

definition validate_transact_update :: "ddb_crates \<Rightarrow> ddb_server \<Rightarrow> transact_update \<Rightarrow> planned_write api option" where
  "validate_transact_update X s r =
     (let n = tu_table_name r in
      if n = [] then Some (Inl (validation_error ''table name is required''))
      else case find_table s n of Inl e \<Rightarrow> Some (Inl e) | Inr t \<Rightarrow>
       (case validated (item_key X (description t) (tu_key r)) of Inl e \<Rightarrow> Some (Inl e) | Inr key \<Rightarrow>
        let old_item = map_of (items t) key; start = (case old_item of Some i \<Rightarrow> i | None \<Rightarrow> tu_key r) in
       (case transact_condition X (tu_condition_expression r) (tu_names r) (tu_values r) old_item of
          Inl e \<Rightarrow> Some (Inl e)
        | Inr _ \<Rightarrow>
           (case apply_update_expression X start (tu_update_expression r) (tu_names r) (tu_values r) of
              None \<Rightarrow> None
            | Some q \<Rightarrow> Some (bind_res (validated q) (\<lambda>updated.
                bind_res (validated (validate_item_size X (dconfig s) updated)) (\<lambda>_.
                  Inr \<lparr>pw_table = n, pw_key = key, pw_put = Some updated\<rparr>)))))))"

definition validate_transact_delete :: "ddb_crates \<Rightarrow> ddb_server \<Rightarrow> transact_keyed \<Rightarrow> planned_write api" where
  "validate_transact_delete X s r =
     (let n = tk_table_name r in
      if n = [] then Inl (validation_error ''table name is required'')
      else bind_res (find_table s n) (\<lambda>t.
        bind_res (validated (item_key X (description t) (tk_key r))) (\<lambda>key.
        bind_res (transact_condition X (tk_condition_expression r) (tk_names r) (tk_values r) (map_of (items t) key)) (\<lambda>_.
          Inr \<lparr>pw_table = n, pw_key = key, pw_put = None\<rparr>))))"

definition validate_transact_condition_check :: "ddb_crates \<Rightarrow> ddb_server \<Rightarrow> transact_keyed \<Rightarrow> unit api" where
  "validate_transact_condition_check X s r =
     (let n = tk_table_name r in
      if n = [] then Inl (validation_error ''table name is required'')
      else if trim (tk_condition_expression r) = [] then Inl (validation_error ''condition expression is required'')
      else bind_res (find_table s n) (\<lambda>t.
        bind_res (validated (item_key X (description t) (tk_key r))) (\<lambda>key.
          transact_condition X (tk_condition_expression r) (tk_names r) (tk_values r) (map_of (items t) key))))"

definition count_transact_write_operations :: "transact_write_item \<Rightarrow> nat" where
  "count_transact_write_operations i =
     (if twi_put i \<noteq> None then 1 else 0) + (if twi_update i \<noteq> None then 1 else 0) +
     (if twi_delete i \<noteq> None then 1 else 0) + (if twi_condition_check i \<noteq> None then 1 else 0)"

text \<open>The table and key attributes of the one operation of a transaction item.\<close>

definition transact_target :: "transact_write_item \<Rightarrow> string \<times> item" where
  "transact_target i =
     (case twi_put i of Some p \<Rightarrow> (tp_table_name p, tp_item p) | None \<Rightarrow>
      (case twi_update i of Some u \<Rightarrow> (tu_table_name u, tu_key u) | None \<Rightarrow>
       (case twi_delete i of Some d \<Rightarrow> (tk_table_name d, tk_key d) | None \<Rightarrow>
        (case twi_condition_check i of Some c \<Rightarrow> (tk_table_name c, tk_key c) | None \<Rightarrow> ([], [])))))"

definition note_key :: "ddb_crates \<Rightarrow> ddb_server \<Rightarrow> string \<times> item \<Rightarrow> (string \<times> string) set \<Rightarrow> (string \<times> string) set api" where
  "note_key X s target seen =
     (case map_of (tables s) (fst target) of
        None \<Rightarrow> Inr seen
      | Some t \<Rightarrow>
          if fst target = [] then Inr seen
          else (case item_key X (description t) (snd target) of
                  Inl _ \<Rightarrow> Inr seen
                | Inr key \<Rightarrow>
                    if (fst target, key) \<in> seen
                    then Inl (validation_error ''Transaction request cannot include multiple operations on one item'')
                    else Inr (insert (fst target, key) seen)))"

text \<open>The writes of one transaction item: one, or none for a condition check.\<close>

definition plan_transact_item :: "ddb_crates \<Rightarrow> ddb_server \<Rightarrow> transact_write_item \<Rightarrow> planned_write list api option" where
  "plan_transact_item X s i =
     (case twi_put i of
        Some p \<Rightarrow> Some (bind_res (validate_transact_put X s p) (\<lambda>w. Inr [w]))
      | None \<Rightarrow> (case twi_update i of
          Some u \<Rightarrow> map_option (\<lambda>q. bind_res q (\<lambda>w. Inr [w])) (validate_transact_update X s u)
        | None \<Rightarrow> (case twi_delete i of
            Some d \<Rightarrow> Some (bind_res (validate_transact_delete X s d) (\<lambda>w. Inr [w]))
          | None \<Rightarrow> (case twi_condition_check i of
              Some c \<Rightarrow> Some (bind_res (validate_transact_condition_check X s c) (\<lambda>_. Inr []))
            | None \<Rightarrow> Some (Inr [])))))"

fun plan_transaction ::
  "ddb_crates \<Rightarrow> ddb_server \<Rightarrow> (string \<times> string) set \<Rightarrow> transact_write_item list \<Rightarrow> planned_write list api option" where
  "plan_transaction X s seen [] = Some (Inr [])"
| "plan_transaction X s seen (i # rest) =
     (if count_transact_write_operations i \<noteq> 1 then
        Some (Inl (validation_error ''each transaction item must contain exactly one operation''))
      else case note_key X s (transact_target i) seen of
        Inl e \<Rightarrow> Some (Inl e)
      | Inr seen' \<Rightarrow>
          (case plan_transact_item X s i of
             None \<Rightarrow> None
           | Some (Inl e) \<Rightarrow> Some (Inl e)
           | Some (Inr ws) \<Rightarrow> map_option (\<lambda>q. bind_res q (\<lambda>ps. Inr (ws @ ps))) (plan_transaction X s seen' rest)))"

definition transact_write_items ::
  "ddb_crates \<Rightarrow> env \<Rightarrow> transact_write_item list \<Rightarrow> ddb_server \<Rightarrow> (json api \<times> ddb_server) option" where
  "transact_write_items X E transact_items s =
     (if transact_items = [] then Some (Inl (validation_error ''transaction items are required''), s)
      else case plan_transaction X s {} transact_items of
        None \<Rightarrow> None
      | Some (Inl e) \<Rightarrow> Some (Inl e, s)
      | Some (Inr plan) \<Rightarrow> Some (answer_with (Object []) (apply_planned_writes X (fs E) plan s)))"

section \<open>Changing several tables\<close>

definition modify_all :: "(string \<Rightarrow> table_state \<Rightarrow> table_state) \<Rightarrow> ddb_server \<Rightarrow> ddb_server" where
  "modify_all F s = s\<lparr>tables := map (\<lambda>(n, t). (n, F n t)) (tables s)\<rparr>"

lemma modify_all_simps [simp]:
  "backups (modify_all F s) = backups s" "backup_tables (modify_all F s) = backup_tables s"
  "backup_items (modify_all F s) = backup_items s" "dconfig (modify_all F s) = dconfig s" "ddb_file (modify_all F s) = ddb_file s"
  "dirty_tables (modify_all F s) = dirty_tables s" "table_cache (modify_all F s) = table_cache s"
  by (simp_all add: modify_all_def)

lemma map_of_modify_all: "map_of (tables (modify_all F s)) n = map_option (F n) (map_of (tables s) n)"
proof -
  have "map_of (map (\<lambda>(n, t). (n, F n t)) m) n = map_option (F n) (map_of m n)" for m by (induction m) auto
  then show ?thesis by (simp add: modify_all_def)
qed

lemma modify_all_modify_all: "modify_all G (modify_all F s) = modify_all (\<lambda>n. G n \<circ> F n) s"
  by (simp add: modify_all_def comp_def case_prod_unfold)

lemma modify_all_id: "(\<And>n t. (n, t) \<in> set (tables s) \<Longrightarrow> F n t = t) \<Longrightarrow> modify_all F s = s"
proof -
  assume "\<And>n t. (n, t) \<in> set (tables s) \<Longrightarrow> F n t = t"
  then have "map (\<lambda>(n, t). (n, F n t)) (tables s) = tables s" by (intro map_idI) auto
  then show ?thesis by (simp add: modify_all_def)
qed

lemma modify_all_cong: "(\<And>n t. (n, t) \<in> set (tables s) \<Longrightarrow> F n t = G n t) \<Longrightarrow> modify_all F s = modify_all G s"
  by (simp add: modify_all_def case_prod_unfold)

lemma modify_table_all: "modify_table n f s = modify_all (\<lambda>m. if m = n then f else id) s"
  by (simp add: modify_table_def modify_all_def bt_modify_def case_prod_unfold if_distrib[of "\<lambda>f. f _"] cong: if_cong)

lemma fold_modify_table:
  "fold (\<lambda>w. modify_table (tb w) (f w)) ws s = modify_all (\<lambda>n. fold f (filter (\<lambda>w. tb w = n) ws)) s"
proof (induction ws arbitrary: s)
  case Nil
  then show ?case by (simp add: modify_all_id)
next
  case (Cons w ws)
  then show ?case by (auto simp: modify_table_all modify_all_modify_all intro!: modify_all_cong)
qed

lemma modify_all_dirty: "modify_all F (s\<lparr>dirty_tables := D\<rparr>) = (modify_all F s)\<lparr>dirty_tables := D\<rparr>"
  by (simp add: modify_all_def)

lemma bt_ok_modify_all: "bt_ok (tables (modify_all F s)) = bt_ok (tables s)"
  by (simp add: modify_all_def bt_ok_def comp_def case_prod_unfold)

text \<open>The shape of a handler that changes several tables.\<close>

lemma tables_change:
  assumes "json_object_text (serde_to_vec X)" "server_ok X s"
    and "\<And>n t. map_of (tables s) n = Some t \<Longrightarrow> table_ok n (F n t)"
    and "\<And>n t. map_of (tables s) n = Some t \<Longrightarrow> G n (F n t) = t"
    and "\<And>n t. map_of (tables s) n = Some t \<Longrightarrow> n \<notin> D \<Longrightarrow> F n t = t"
    and "save_or_undo X io (modify_all G) a ((modify_all F s)\<lparr>dirty_tables := dirty_tables s \<union> D\<rparr>) = (r, s')"
  shows "well_handled X s r s'"
    and "r = Inr v \<Longrightarrow> backups s' = backups s \<and> backup_tables s' = backup_tables s \<and> backup_items s' = backup_items s
      \<and> tables s' = tables (modify_all F s)"
proof -
  let ?t = "(modify_all F s)\<lparr>dirty_tables := dirty_tables s \<union> D\<rparr>"
  have ok: "tables_ok (tables s)" "backups_ok s" "cache_ok X s" using assms(2) by (simp_all add: server_ok_def)
  have bt: "bt_ok (tables s)" using ok(1) by (simp add: tables_ok_def)
  have get: "(n, t) \<in> set (tables s) \<Longrightarrow> map_of (tables s) n = Some t" for n t using bt by (simp add: bt_ok_distinct)
  have undo: "modify_all G ?t = s\<lparr>dirty_tables := dirty_tables s \<union> D\<rparr>"
    using assms(4) get by (simp add: modify_all_dirty modify_all_modify_all modify_all_id)
  have t: "?t = s\<lparr>tables := tables (modify_all F s), dirty_tables := dirty_tables s \<union> D\<rparr>" by (simp add: modify_all_def)
  have "cache_current X ?t" unfolding t
    using ok(3) assms(5) by (intro cache_current_changed[where D = D])
      (auto simp: cache_ok_def map_of_modify_all option.map_comp split: option.splits)
  moreover have "tables_ok (tables ?t)"
    using bt assms(3) by (auto simp: tables_ok_def map_of_modify_all bt_ok_modify_all)
  ultimately show "well_handled X s r s'"
    using ok(2) server_ok_dirtier[OF assms(2), of D]
    by (intro save_or_undo_handled[OF assms(1,6)]) (simp_all add: undo same_data_def backups_ok_def)
  assume "r = Inr v"
  with assms(6) show "backups s' = backups s \<and> backup_tables s' = backup_tables s \<and> backup_items s' = backup_items s
      \<and> tables s' = tables (modify_all F s)"
    by (cases rule: save_or_undo_cases) (auto dest: ddb_persist_keeps)
qed


section \<open>Slots\<close>

definition put_slot :: "string \<Rightarrow> item option \<Rightarrow> (string, item) bmap \<Rightarrow> (string, item) bmap" where
  "put_slot key slot its = (case slot of Some i \<Rightarrow> bt_insert key i its | None \<Rightarrow> bt_remove key its)"

lemma set_slot_put_slot: "set_slot key slot t = t\<lparr>items := put_slot key slot (items t)\<rparr>"
  by (simp add: set_slot_def put_slot_def)

lemma fold_set_slot:
  "fold (\<lambda>w. set_slot (K w) (P w)) ws t = t\<lparr>items := fold (\<lambda>w. put_slot (K w) (P w)) ws (items t)\<rparr>"
  by (induction ws arbitrary: t) (simp_all add: set_slot_put_slot)

lemma map_of_put_slot: "map_of (put_slot key slot its) = (map_of its)(key := slot)"
  by (cases slot) (simp_all add: put_slot_def bt_simps)

lemma bt_ok_put_slot: "bt_ok its \<Longrightarrow> bt_ok (put_slot key slot its)"
  by (simp add: put_slot_def split: option.splits)

lemma bt_ok_fold_put_slot: "bt_ok its \<Longrightarrow> bt_ok (fold (\<lambda>w. put_slot (K w) (P w)) ws its)"
  by (induction ws arbitrary: its) (simp_all add: bt_ok_put_slot)

lemma map_of_fold_put_slot:
  "map_of (fold (\<lambda>w. put_slot (K w) (P w)) ws its) = fold (\<lambda>w m. m(K w := P w)) ws (map_of its)"
  by (induction ws arbitrary: its) (simp_all add: map_of_put_slot)

lemma items_ok_fold_put_slot:
  "items_ok its \<Longrightarrow> (\<And>w i. w \<in> set ws \<Longrightarrow> P w = Some i \<Longrightarrow> stored_item_ok i) \<Longrightarrow>
   items_ok (fold (\<lambda>w. put_slot (K w) (P w)) ws its)"
  by (induction ws arbitrary: its)
     (auto simp: put_slot_def intro!: items_ok_insert items_ok_remove split: option.splits)

lemma fold_upd_outside: "k \<notin> K ` set ws \<Longrightarrow> fold (\<lambda>w m. m(K w := P w)) ws m k = m k"
  by (induction ws arbitrary: m) auto

lemma fold_upd_const:
  "(\<And>w. w \<in> set ws \<Longrightarrow> P w = f (K w)) \<Longrightarrow> fold (\<lambda>w m. m(K w := P w)) ws m k = (if k \<in> K ` set ws then f k else m k)"
proof (induction ws arbitrary: m)
  case (Cons w ws)
  then show ?case using fold_upd_outside[of k K ws P "m(K w := P w)"] by (cases "k \<in> K ` set ws") auto
qed simp

lemma restore_slots:
  assumes "bt_ok its" "K' ` set vs = K ` set ws" "\<And>v. v \<in> set vs \<Longrightarrow> P' v = map_of its (K' v)"
  shows "fold (\<lambda>v. put_slot (K' v) (P' v)) vs (fold (\<lambda>w. put_slot (K w) (P w)) ws its) = its"
proof (rule bt_ext)
  show "map_of (fold (\<lambda>v. put_slot (K' v) (P' v)) vs (fold (\<lambda>w. put_slot (K w) (P w)) ws its)) = map_of its"
    using fold_upd_const[of vs P' "map_of its" K'] assms(2,3) fold_upd_outside[of _ K ws P "map_of its"]
    by (auto simp: map_of_fold_put_slot fun_eq_iff)
qed (use assms(1) in \<open>simp_all add: bt_ok_fold_put_slot\<close>)

section \<open>Planned writes\<close>

definition view :: "ddb_server \<Rightarrow> string \<Rightarrow> string \<Rightarrow> item option" where
  "view s n key = (case map_of (tables s) n of None \<Rightarrow> None | Some t \<Rightarrow> map_of (items t) key)"

definition apply_plan :: "planned_write list \<Rightarrow> (string \<Rightarrow> string \<Rightarrow> item option) \<Rightarrow> string \<Rightarrow> string \<Rightarrow> item option" where
  "apply_plan plan v = fold (\<lambda>w v. v(pw_table w := (v (pw_table w))(pw_key w := pw_put w))) plan v"

definition plan_ok :: "ddb_server \<Rightarrow> planned_write list \<Rightarrow> bool" where
  "plan_ok s plan \<longleftrightarrow> (\<forall>w \<in> set plan. map_of (tables s) (pw_table w) \<noteq> None \<and> (\<forall>i. pw_put w = Some i \<longrightarrow> stored_item_ok i))"

lemma apply_plan_table:
  "apply_plan plan v n = fold (\<lambda>w m. m(pw_key w := pw_put w)) (filter (\<lambda>w. pw_table w = n) plan) (v n)"
  unfolding apply_plan_def by (induction plan arbitrary: v) auto

abbreviation writes_to :: "string \<Rightarrow> planned_write list \<Rightarrow> planned_write list" where
  "writes_to n plan \<equiv> filter (\<lambda>w. pw_table w = n) plan"

lemma write_all_all:
  "write_all plan s = modify_all (\<lambda>n t. t\<lparr>items := fold (\<lambda>w. put_slot (pw_key w) (pw_put w)) (writes_to n plan) (items t)\<rparr>) s"
  unfolding write_all_def fold_modify_table fold_set_slot ..

lemma filter_distinct_eq: "distinct xs \<Longrightarrow> filter (\<lambda>x. x = a) xs = (if a \<in> set xs then [a] else [])"
  by (induction xs) auto

lemma recount_all_all: "distinct ns \<Longrightarrow> recount_all ns s = modify_all (\<lambda>n. if n \<in> set ns then recount else id) s"
  unfolding recount_all_def fold_modify_table[where tb = "\<lambda>n. n"]
  by (rule modify_all_cong) (simp add: filter_distinct_eq)

lemma restore_all_all:
  "restore_all bs s = modify_all (\<lambda>n t. t\<lparr>items := fold (\<lambda>b. put_slot (fst (snd b)) (snd (snd b))) (filter (\<lambda>b. fst b = n) bs) (items t)\<rparr>) s"
  unfolding restore_all_def case_prod_unfold fold_modify_table fold_set_slot ..

lemma item_backups_of:
  assumes "map_of (tables s) n = Some t"
  shows "filter (\<lambda>b. fst b = n) (item_backups plan s) =
    map (\<lambda>w. (n, pw_key w, map_of (items t) (pw_key w))) (writes_to n plan)"
  unfolding item_backups_def using assms by (induction plan) (auto split: option.splits)

lemma apply_planned_writes_change:
  assumes "json_object_text (serde_to_vec X)" "server_ok X s" "plan_ok s plan" "apply_planned_writes X io plan s = (r, s')"
  shows "well_handled X s r s'" and "r = Inr v \<Longrightarrow> view s' = apply_plan plan (view s)"
proof -
  let ?D = "pw_table ` set plan"
  let ?F = "\<lambda>n t. (if n \<in> ?D then recount else id) (t\<lparr>items := fold (\<lambda>w. put_slot (pw_key w) (pw_put w)) (writes_to n plan) (items t)\<rparr>)"
  let ?G = "\<lambda>n t. (if n \<in> ?D then recount else id)
    (t\<lparr>items := fold (\<lambda>b. put_slot (fst (snd b)) (snd (snd b))) (filter (\<lambda>b. fst b = n) (rev (item_backups plan s))) (items t)\<rparr>)"
  have D: "distinct (sorted_list_of_set ?D)" "set (sorted_list_of_set ?D) = ?D" by simp_all
  have F: "recount_all (sorted_list_of_set ?D) (write_all plan s) = modify_all ?F s"
    and G: "(\<lambda>s'. recount_all (sorted_list_of_set ?D) (restore_all (rev (item_backups plan s)) s')) = modify_all ?G"
    by (simp_all add: fun_eq_iff recount_all_all[OF D(1)] D(2) write_all_all restore_all_all modify_all_modify_all comp_def)
  have q: "save_or_undo X io (modify_all ?G) () ((modify_all ?F s)\<lparr>dirty_tables := dirty_tables s \<union> ?D\<rparr>) = (r, s')"
    using assms(4) unfolding apply_planned_writes_def Let_def F G by simp
  have t: "table_ok n t" if "map_of (tables s) n = Some t" for n t using assms(2) that by (rule server_table_ok)
  have same: "?F n t = t" if "map_of (tables s) n = Some t" "n \<notin> ?D" for n t
  proof -
    have "writes_to n plan = []" using that(2) by (auto simp: filter_empty_conv)
    then show ?thesis using that(2) by simp
  qed
  have puts: "items_ok (fold (\<lambda>w. put_slot (pw_key w) (pw_put w)) (writes_to n plan) (items t))"
    if "map_of (tables s) n = Some t" for n t
    by (rule items_ok_fold_put_slot) (use t[OF that] assms(3) in \<open>auto simp: table_ok_def plan_ok_def\<close>)
  have ok: "table_ok n (?F n t)" if "map_of (tables s) n = Some t" for n t
  proof (cases "n \<in> ?D")
    case True
    then show ?thesis using t[OF that] puts[OF that] by (auto simp: table_ok_def recount_counted)
  next
    case False
    show ?thesis by (subst same[OF that False]) (rule t[OF that])
  qed
  have undo: "?G n (?F n t) = t" if "map_of (tables s) n = Some t" for n t
  proof -
    have "bt_ok (items t)" using t[OF that] by (simp add: table_ok_def items_ok_def)
    then have r: "fold (\<lambda>b. put_slot (fst (snd b)) (snd (snd b))) (filter (\<lambda>b. fst b = n) (rev (item_backups plan s)))
        (fold (\<lambda>w. put_slot (pw_key w) (pw_put w)) (writes_to n plan) (items t)) = items t"
      by (rule restore_slots) (auto simp: rev_filter[symmetric] item_backups_of[OF that] image_image)
    show ?thesis using table_ok_counts[OF t[OF that]] by (simp add: recount_counted r)
  qed
  note change = tables_change[where F = ?F and G = ?G and D = ?D, OF assms(1,2) ok undo same q]
  show "well_handled X s r s'" by (rule change(1))
  assume "r = Inr v"
  then have tabs: "tables s' = tables (modify_all ?F s)" by - (rule change(2)[THEN conjunct2, THEN conjunct2, THEN conjunct2], assumption+)
  have "view s' n = apply_plan plan (view s) n" for n
  proof (cases "map_of (tables s) n")
    case None
    then have "writes_to n plan = []" using assms(3) by (auto simp: plan_ok_def filter_empty_conv)
    then show ?thesis using None tabs by (simp add: fun_eq_iff view_def apply_plan_table map_of_modify_all)
  next
    case (Some t)
    then have "items (?F n t) = fold (\<lambda>w. put_slot (pw_key w) (pw_put w)) (writes_to n plan) (items t)" by simp
    moreover have "view s' n = map_of (items (?F n t))" "view s n = map_of (items t)"
      using Some tabs by (simp_all add: fun_eq_iff view_def map_of_modify_all)
    ultimately show ?thesis by (simp add: apply_plan_table map_of_fold_put_slot)
  qed
  then show "view s' = apply_plan plan (view s)" by (rule ext)
qed

section \<open>Planning\<close>

text \<open>Requests as serde builds them: the items in them are sorted maps.\<close>

definition write_request_ok :: "write_request \<Rightarrow> bool" where
  "write_request_ok w \<longleftrightarrow> (case wr_put_request w of Some i \<Rightarrow> bt_ok i | None \<Rightarrow> True)"

definition transact_item_ok :: "transact_write_item \<Rightarrow> bool" where
  "transact_item_ok i \<longleftrightarrow> (case twi_put i of Some p \<Rightarrow> bt_ok (tp_item p) | None \<Rightarrow> True)
     \<and> (case twi_update i of Some u \<Rightarrow> bt_ok (tu_key u) | None \<Rightarrow> True)"

definition planned_ok :: "planned_write \<Rightarrow> bool" where
  "planned_ok w \<longleftrightarrow> (\<forall>i. pw_put w = Some i \<longrightarrow> stored_item_ok i)"

lemmas planning_simps = bind_res_Inr_iff find_table_simps validate_item_size_valid

lemma plan_write_ok:
  "plan_write X c n t w = Inr p \<Longrightarrow> write_request_ok w \<Longrightarrow> pw_table p = n \<and> planned_ok p"
  by (auto simp: plan_write_def write_request_ok_def planned_ok_def stored_item_ok_def planning_simps split: option.splits if_splits)

lemma plan_writes_ok:
  "plan_writes X c n t ws = Inr ps \<Longrightarrow> \<forall>w \<in> set ws. write_request_ok w \<Longrightarrow> \<forall>p \<in> set ps. pw_table p = n \<and> planned_ok p"
  by (induction ws arbitrary: ps) (auto simp: bind_res_Inr_iff dest: plan_write_ok)

lemma plan_ok_append: "plan_ok s (ps @ qs) \<longleftrightarrow> plan_ok s ps \<and> plan_ok s qs"
  by (auto simp: plan_ok_def)

lemma plan_batch_ok:
  "plan_batch X s mode rs consumed = Inr (plan, consumed') \<Longrightarrow> \<forall>r \<in> set rs. \<forall>w \<in> set (snd r). write_request_ok w \<Longrightarrow> plan_ok s plan"
proof (induction rs arbitrary: plan consumed)
  case Nil
  then show ?case by (simp add: plan_ok_def)
next
  case (Cons r rs)
  obtain n ws where r: "r = (n, ws)" by fastforce
  with Cons.prems obtain t ps qs where *: "map_of (tables s) n = Some t" "plan_writes X (dconfig s) n t ws = Inr ps"
    "plan_batch X s mode rs (append_batch_consumed_capacity n mode consumed) = Inr (qs, consumed')" "plan = ps @ qs"
    by (auto simp: planning_simps split: if_splits)
  have "plan_ok s ps" using plan_writes_ok[OF *(2)] Cons.prems(2) r *(1) by (simp add: plan_ok_def planned_ok_def)
  moreover have "plan_ok s qs" using Cons.IH[OF *(3)] Cons.prems(2) by simp
  ultimately show ?case using *(4) by (simp add: plan_ok_append)
qed

lemma answer_with_cases:
  assumes "answer_with a q = (r, s')"
  obtains (failed) e where "q = (Inl e, s')" "r = Inl e" | (success) "q = (Inr (), s')" "r = Inr a"
  using assms by (cases q) (auto simp: answer_with_def split: sum.splits)

lemma answer_planned_change:
  assumes "json_object_text (serde_to_vec X)" "server_ok X s" "plan_ok s plan"
    "answer_with a (apply_planned_writes X io plan s) = (r, s')"
  shows "well_handled X s r s'" and "r = Inr v \<Longrightarrow> view s' = apply_plan plan (view s)"
proof -
  obtain u where q: "apply_planned_writes X io plan s = (u, s')" and u: "isl u = isl r" using assms(4)
    by (cases rule: answer_with_cases) auto
  have "well_handled X s u s'" by (rule apply_planned_writes_change(1)[OF assms(1-3) q])
  with u show "well_handled X s r s'" by (simp add: well_handled_def)
  assume "r = Inr v"
  with u obtain w where "u = Inr w" by (cases u) auto
  then show "view s' = apply_plan plan (view s)" by (rule apply_planned_writes_change(2)[OF assms(1-3) q])
qed

lemma batch_write_item_handled:
  assumes "json_object_text (serde_to_vec X)" "server_ok X s" "\<forall>e \<in> set (bwr_request_items r). \<forall>w \<in> set (snd e). write_request_ok w"
    "batch_write_item X E r s = (q, s')"
  shows "well_handled X s q s'"
proof (cases "isl q \<and> s' = s")
  case False
  then obtain plan consumed where plan: "plan_batch X s (bwr_return_consumed_capacity r) (bwr_request_items r) [] = Inr (plan, consumed)"
    and q: "answer_with (with_consumed consumed [(''UnprocessedItems'', Object [])]) (apply_planned_writes X (fs E) plan s) = (q, s')"
    using assms(4) unfolding batch_write_item_def by (auto split: if_splits sum.splits prod.splits)
  show ?thesis by (rule answer_planned_change(1)[OF assms(1,2) plan_batch_ok[OF plan assms(3)] q])
qed (use assms(2) in \<open>auto simp: isl_def well_handled_refused\<close>)

section \<open>Transactions\<close>

definition transact_condition_of :: "transact_write_item \<Rightarrow> string \<times> names \<times> attribute_values" where
  "transact_condition_of i =
     (case twi_put i of Some p \<Rightarrow> (tp_condition_expression p, tp_names p, tp_values p) | None \<Rightarrow>
      (case twi_update i of Some u \<Rightarrow> (tu_condition_expression u, tu_names u, tu_values u) | None \<Rightarrow>
       (case twi_delete i of Some d \<Rightarrow> (tk_condition_expression d, tk_names d, tk_values d) | None \<Rightarrow>
        (case twi_condition_check i of Some c \<Rightarrow> (tk_condition_expression c, tk_names c, tk_values c) | None \<Rightarrow> ([], [], [])))))"

definition condition_holds :: "ddb_crates \<Rightarrow> ddb_server \<Rightarrow> transact_write_item \<Rightarrow> bool" where
  "condition_holds X s i =
     (case (transact_target i, transact_condition_of i) of ((n, k), (expression, nms, vals)) \<Rightarrow>
      case map_of (tables s) n of None \<Rightarrow> False | Some t \<Rightarrow>
      case item_key X (description t) k of Inl _ \<Rightarrow> False | Inr key \<Rightarrow>
        check_condition X expression nms vals (map_of (items t) key) = Inr ())"

text \<open>What planning a transaction item has checked and what it plans.\<close>

definition item_planned :: "ddb_crates \<Rightarrow> ddb_server \<Rightarrow> transact_write_item \<Rightarrow> planned_write list \<Rightarrow> bool" where
  "item_planned X s i ws \<longleftrightarrow> condition_holds X s i \<and> fst (transact_target i) \<noteq> [] \<and>
     (ws = [] \<or> (\<exists>t w. ws = [w] \<and> planned_ok w \<and> pw_table w = fst (transact_target i) \<and> map_of (tables s) (pw_table w) = Some t
       \<and> item_key X (description t) (snd (transact_target i)) = Inr (pw_key w)))"

lemma transact_condition_Inr_iff: "transact_condition X e nms vals old = Inr u \<longleftrightarrow> check_condition X e nms vals old = Inr ()"
  by (simp add: transact_condition_def split: sum.splits)

lemmas transact_simps = planning_simps transact_condition_Inr_iff condition_holds_def item_planned_def transact_target_def
  transact_condition_of_def planned_ok_def stored_item_ok_def

lemma put_planned:
  assumes "twi_put i = Some p" "validate_transact_put X s p = Inr w" "transact_item_ok i"
  shows "item_planned X s i [w]"
  using assms by (auto simp: validate_transact_put_def Let_def transact_simps transact_item_ok_def split: if_splits)

lemma update_planned:
  assumes "twi_put i = None" "twi_update i = Some u" "validate_transact_update X s u = Some (Inr w)" "transact_item_ok i" "server_ok X s"
  shows "item_planned X s i [w]"
proof -
  obtain t key updated where n: "tu_table_name u \<noteq> []" and t: "map_of (tables s) (tu_table_name u) = Some t"
    and key: "item_key X (description t) (tu_key u) = Inr key"
    and c: "transact_condition X (tu_condition_expression u) (tu_names u) (tu_values u) (map_of (items t) key) = Inr ()"
    and up: "apply_update_expression X (case map_of (items t) key of Some i \<Rightarrow> i | None \<Rightarrow> tu_key u)
        (tu_update_expression u) (tu_names u) (tu_values u) = Some (Inr updated)"
    and size: "validate_item_size X (dconfig s) updated = Inr ()"
    and w: "w = \<lparr>pw_table = tu_table_name u, pw_key = key, pw_put = Some updated\<rparr>"
    using assms(3) unfolding validate_transact_update_def Let_def
    by (auto simp: planning_simps split: if_splits sum.splits option.splits)
  have "stored_item_ok i" if "map_of (items t) key = Some i" for i
    using server_table_ok[OF assms(5) t] that by (auto simp: table_ok_def intro: items_ok_get)
  then have "bt_ok (case map_of (items t) key of Some i \<Rightarrow> i | None \<Rightarrow> tu_key u)"
    using assms(2,4) by (auto simp: stored_item_ok_def transact_item_ok_def split: option.splits)
  then have "bt_ok updated" by (rule apply_update_sorted[OF up])
  then show ?thesis using assms(1,2) n t key c size w by (simp add: transact_simps)
qed

lemma delete_planned:
  assumes "twi_put i = None" "twi_update i = None" "twi_delete i = Some d" "validate_transact_delete X s d = Inr w"
  shows "item_planned X s i [w]"
  using assms by (auto simp: validate_transact_delete_def Let_def transact_simps split: if_splits)

lemma check_planned:
  assumes "twi_put i = None" "twi_update i = None" "twi_delete i = None" "twi_condition_check i = Some c"
    "validate_transact_condition_check X s c = Inr ()"
  shows "item_planned X s i []"
  using assms by (auto simp: validate_transact_condition_check_def Let_def transact_simps split: if_splits)

lemma plan_transact_item_planned:
  assumes "plan_transact_item X s i = Some (Inr ws)" "count_transact_write_operations i = 1" "transact_item_ok i" "server_ok X s"
  shows "item_planned X s i ws"
proof -
  have "twi_put i = None \<Longrightarrow> twi_update i = None \<Longrightarrow> twi_delete i = None \<Longrightarrow> twi_condition_check i \<noteq> None"
    using assms(2) by (auto simp: count_transact_write_operations_def split: if_splits)
  with assms show ?thesis
    by (auto simp: plan_transact_item_def bind_res_Inr_iff intro: put_planned update_planned delete_planned check_planned
      split: option.splits)
qed

abbreviation slots :: "planned_write list \<Rightarrow> (string \<times> string) list" where
  "slots plan \<equiv> map (\<lambda>w. (pw_table w, pw_key w)) plan"

lemma note_key_planned:
  assumes "note_key X s (transact_target i) seen = Inr seen'" "item_planned X s i ws"
  shows "set (slots ws) \<inter> seen = {}" "seen \<subseteq> seen'" "set (slots ws) \<subseteq> seen'" "distinct (slots ws)"
  using assms by (auto simp: note_key_def item_planned_def split: option.splits if_splits sum.splits)

lemma plan_transaction_planned:
  assumes "plan_transaction X s seen is = Some (Inr plan)" "\<forall>i \<in> set is. transact_item_ok i" "server_ok X s"
  shows "plan_ok s plan \<and> distinct (slots plan) \<and> set (slots plan) \<inter> seen = {} \<and> (\<forall>i \<in> set is. condition_holds X s i)"
  using assms
proof (induction "is" arbitrary: seen plan)
  case Nil
  then show ?case by (simp add: plan_ok_def)
next
  case (Cons i "is")
  from Cons.prems(1) obtain seen' ws ps where count: "count_transact_write_operations i = 1"
    and seen: "note_key X s (transact_target i) seen = Inr seen'" and ws: "plan_transact_item X s i = Some (Inr ws)"
    and ps: "plan_transaction X s seen' is = Some (Inr ps)" and plan: "plan = ws @ ps"
    by (auto simp: bind_res_Inr_iff split: if_splits sum.splits option.splits)
  have i: "item_planned X s i ws" using plan_transact_item_planned[OF ws count] Cons.prems(2,3) by simp
  note IH = Cons.IH[OF ps] note_key_planned[OF seen i]
  have "plan_ok s ws" using i by (auto simp: item_planned_def plan_ok_def planned_ok_def)
  with IH Cons.prems(2,3) i show ?case unfolding plan by (auto simp: plan_ok_append item_planned_def)
qed

lemma transact_write_items_cases:
  assumes "transact_write_items X E is s = Some (r, s')"
  obtains (refused) e where "r = Inl e" "s' = s"
  | (applied) plan where "plan_transaction X s {} is = Some (Inr plan)"
      "answer_with (Object []) (apply_planned_writes X (fs E) plan s) = (r, s')"
  using assms by (auto simp: transact_write_items_def split: if_splits option.splits sum.splits)

lemma transact_write_items_handled:
  assumes "json_object_text (serde_to_vec X)" "server_ok X s" "\<forall>i \<in> set is. transact_item_ok i"
    "transact_write_items X E is s = Some (r, s')"
  shows "well_handled X s r s'"
  using assms(4)
proof (cases rule: transact_write_items_cases)
  case (applied plan)
  have "plan_ok s plan" using plan_transaction_planned[OF applied(1) assms(3,2)] by simp
  then show ?thesis by (rule answer_planned_change(1)[OF assms(1,2) _ applied(2)])
qed (use assms(2) well_handled_refused in auto)

lemma apply_plan_distinct:
  "distinct (slots plan) \<Longrightarrow>
   apply_plan plan v n key = (case map_of (map (\<lambda>w. ((pw_table w, pw_key w), pw_put w)) plan) (n, key) of
     Some slot \<Rightarrow> slot | None \<Rightarrow> v n key)"
proof (induction plan arbitrary: v)
  case (Cons w plan)
  have none: "map_of (map (\<lambda>w. ((pw_table w, pw_key w), pw_put w)) plan) (pw_table w, pw_key w) = None"
    using Cons.prems by (auto simp: map_of_eq_None_iff image_image)
  have "apply_plan (w # plan) v = apply_plan plan (v(pw_table w := (v (pw_table w))(pw_key w := pw_put w)))"
    by (simp add: apply_plan_def)
  then show ?case using Cons.IH Cons.prems none by (auto split: option.splits)
qed (simp add: apply_plan_def)

text \<open>C5. A transaction is atomic. When it succeeds, every condition of it held in the state before it, it writes no item
  twice, and the content of all tables is the one before with exactly the planned slots replaced. When it fails, no data changes.\<close>

theorem transaction_atomic:
  assumes "json_object_text (serde_to_vec X)" "server_ok X s" "\<forall>i \<in> set is. transact_item_ok i"
    "transact_write_items X E is s = Some (r, s')"
  shows "case r of
      Inl _ \<Rightarrow> same_data s s'
    | Inr _ \<Rightarrow> \<exists>plan. plan_transaction X s {} is = Some (Inr plan) \<and> (\<forall>i \<in> set is. condition_holds X s i) \<and> distinct (slots plan)
        \<and> (\<forall>n key. view s' n key = (case map_of (map (\<lambda>w. ((pw_table w, pw_key w), pw_put w)) plan) (n, key) of
             Some slot \<Rightarrow> slot | None \<Rightarrow> view s n key))"
proof (cases r)
  case (Inl e)
  then show ?thesis using transact_write_items_handled[OF assms] by (simp add: well_handled_def)
next
  case (Inr v)
  with assms(4) obtain plan where plan: "plan_transaction X s {} is = Some (Inr plan)"
    and q: "answer_with (Object []) (apply_planned_writes X (fs E) plan s) = (Inr v, s')"
    by (auto elim: transact_write_items_cases)
  note p = plan_transaction_planned[OF plan assms(3,2)]
  then have "view s' = apply_plan plan (view s)" using answer_planned_change(2)[OF assms(1,2) _ q] by simp
  with p plan Inr show ?thesis by (auto simp: apply_plan_distinct)
qed

section \<open>Samples\<close>

definition no_item :: transact_write_item where
  "no_item = \<lparr>twi_put = None, twi_update = None, twi_delete = None, twi_condition_check = None\<rparr>"

definition swap_users :: "string \<Rightarrow> string \<Rightarrow> transact_write_item list" where
  "swap_users gone new = [
     no_item\<lparr>twi_delete := Some \<lparr>tk_table_name = ''users'', tk_key = user gone,
       tk_condition_expression = ''attribute_exists(pk)'', tk_names = [], tk_values = []\<rparr>\<rparr>,
     no_item\<lparr>twi_put := Some \<lparr>tp_table_name = ''users'', tp_item = user new,
       tp_condition_expression = ''attribute_not_exists(pk)'', tp_names = [], tp_values = []\<rparr>\<rparr>]"

definition ann_db :: ddb_server where
  "ann_db = snd (put_item sample_ddb (env_at t0) (put_user (user ''ann'')) (users_db []))"

lemma ann_db_ok: "server_ok sample_ddb ann_db"
proof -
  obtain q where q: "put_item sample_ddb (env_at t0) (put_user (user ''ann'')) (users_db []) = (q, ann_db)"
    by (metis ann_db_def prod.collapse)
  have "bt_ok (pir_item (put_user (user ''ann'')))" by (simp add: put_user_def user_def)
  then show ?thesis using put_item_handled[OF sample_ddb_objects users_db_ok _ q] by (simp add: well_handled_def)
qed

theorem transaction_atomic_witness:
  "\<exists>v s' plan. transact_write_items sample_ddb (env_at t0) (swap_users ''ann'' ''bob'') ann_db = Some (Inr v, s') \<and>
     plan_transaction sample_ddb ann_db {} (swap_users ''ann'' ''bob'') = Some (Inr plan) \<and> length plan = 2 \<and> distinct (slots plan)"
proof -
  let ?t = "the (transact_write_items sample_ddb (env_at t0) (swap_users ''ann'' ''bob'') ann_db)"
  have t: "map_option fst (transact_write_items sample_ddb (env_at t0) (swap_users ''ann'' ''bob'') ann_db) = Some (Inr (Object []))"
    by code_simp
  then have q: "transact_write_items sample_ddb (env_at t0) (swap_users ''ann'' ''bob'') ann_db = Some (Inr (Object []), snd ?t)"
    by (cases "transact_write_items sample_ddb (env_at t0) (swap_users ''ann'' ''bob'') ann_db") auto
  have ok: "\<forall>i \<in> set (swap_users ''ann'' ''bob''). transact_item_ok i"
    by (simp add: swap_users_def no_item_def transact_item_ok_def user_def)
  have l: "map_option (map_sum id length) (plan_transaction sample_ddb ann_db {} (swap_users ''ann'' ''bob'')) = Some (Inr 2)"
    by code_simp
  from transaction_atomic[OF sample_ddb_objects ann_db_ok ok q]
  show ?thesis using q l by (auto simp del: not_None_eq)
qed

end
