(* ===== verification/Dynamo_Expiry.thy ===== *)
theory Dynamo_Expiry
  imports Dynamo_Batch
begin

text \<open>
  Time to live in the DynamoDB server (\<open>services/dynamodb/src/server.rs\<close>): its settings, and the expiry of items that runs
  before every operation. Expiry is shown to remove exactly the items whose time has passed.
\<close>

section \<open>Time to live\<close>

definition ttl_description_of :: "table_description \<Rightarrow> time_to_live_description" where
  "ttl_description_of d =
     (case ttl_description d of Some t \<Rightarrow> t | None \<Rightarrow> \<lparr>ttl_attribute_name = [], time_to_live_status = ''DISABLED''\<rparr>)"

record update_time_to_live_request =
  ttr_table_name :: string
  ttr_enabled :: bool
  ttr_attribute_name :: string

definition describe_time_to_live :: "string \<Rightarrow> ddb_server \<Rightarrow> json api" where
  "describe_time_to_live n s =
     (if n = [] then Inl (validation_error ''table name is required'')
      else bind_res (find_table s n) (\<lambda>t.
        Inr (Object [(''TimeToLiveDescription'', time_to_live_json (ttl_description_of (description t)))])))"

definition set_ttl :: "time_to_live_description option \<Rightarrow> table_state \<Rightarrow> table_state" where
  "set_ttl ttl t = t\<lparr>description := (description t)\<lparr>ttl_description := ttl\<rparr>\<rparr>"

definition update_time_to_live :: "ddb_crates \<Rightarrow> env \<Rightarrow> update_time_to_live_request \<Rightarrow> ddb_server \<Rightarrow> json api \<times> ddb_server" where
  "update_time_to_live X E r s =
     (let n = ttr_table_name r in
      if n = [] then (Inl (validation_error ''table name is required''), s)
      else if ttr_enabled r \<and> ttr_attribute_name r = [] then
        (Inl (validation_error ''ttl attribute name is required when ttl is enabled''), s)
      else case find_table s n of Inl e \<Rightarrow> (Inl e, s) | Inr t \<Rightarrow>
        save_or_undo X (fs E) (modify_table n (set_ttl (ttl_description (description t))))
          (Object [(''TimeToLiveSpecification'', Object (unless (ttr_attribute_name r = []) ''AttributeName'' (String (ttr_attribute_name r)) @ [(''Enabled'', Bool (ttr_enabled r))]))])
          (mark_dirty n (modify_table n (set_ttl (Some \<lparr>ttl_attribute_name = ttr_attribute_name r,
             time_to_live_status = (if ttr_enabled r then ''ENABLED'' else ''DISABLED'')\<rparr>)) s)))"

definition ttl_item_expired :: "item \<Rightarrow> string \<Rightarrow> int \<Rightarrow> bool" where
  "ttl_item_expired value attribute now =
     (case Option.bind (map_of value attribute) (\<lambda>a. member_str a ''N'') of
        None \<Rightarrow> False
      | Some seconds \<Rightarrow>
          if \<not> is_valid_number seconds then False
          else compare_number_strings seconds (int_to_string now) \<noteq> Greater)"

definition expired_keys :: "int \<Rightarrow> table_state \<Rightarrow> string list" where
  "expired_keys now t =
     (let ttl = ttl_description_of (description t) in
      if time_to_live_status ttl \<noteq> ''ENABLED'' \<or> ttl_attribute_name ttl = [] then []
      else map fst (filter (\<lambda>(_, i). ttl_item_expired i (ttl_attribute_name ttl) now) (items t)))"

definition changed_tables :: "int \<Rightarrow> ddb_server \<Rightarrow> (string \<times> string list) list" where
  "changed_tables now s = filter (\<lambda>(_, ks). ks \<noteq> []) (map (\<lambda>(n, t). (n, expired_keys now t)) (tables s))"

definition expired_backups :: "(string \<times> string list) list \<Rightarrow> ddb_server \<Rightarrow> (string \<times> string \<times> item) list" where
  "expired_backups changed s =
     concat (map (\<lambda>(n, ks). concat (map (\<lambda>key. case Option.bind (map_of (tables s) n) (\<lambda>t. map_of (items t) key) of
         Some i \<Rightarrow> [(n, key, i)] | None \<Rightarrow> []) ks)) changed)"

definition expire_ttl_items :: "ddb_crates \<Rightarrow> fs_outcome \<Rightarrow> int \<Rightarrow> ddb_server \<Rightarrow> unit api \<times> ddb_server" where
  "expire_ttl_items X io now s =
     (let changed = changed_tables now s in
      if changed = [] then (Inr (), s)
      else let bs = expired_backups changed s;
               s1 = fold (\<lambda>(n, ks). modify_table n (\<lambda>t. recount (fold (\<lambda>key. set_slot key None) ks t))) changed s in
        save_or_undo X io
          (\<lambda>s'. recount_all (map fst changed)
             (fold (\<lambda>(n, key, i). modify_table n (\<lambda>t. t\<lparr>items := bt_insert key i (items t)\<rparr>)) bs s')) ()
          (s1\<lparr>dirty_tables := dirty_tables s1 \<union> set (map fst changed)\<rparr>))"

section \<open>Settings\<close>

lemma table_ok_description:
  assumes "table_ok n t" "table_name d = table_name (description t)" "item_count d = item_count (description t)"
    "attribute_definitions d = attribute_definitions (description t)" "key_schema d = key_schema (description t)"
    "global_secondary_indexes d = global_secondary_indexes (description t)" "local_secondary_indexes d = local_secondary_indexes (description t)"
  shows "table_ok n (t\<lparr>description := d\<rparr>)"
proof -
  have "counted (items t) d = d" using table_ok_counts[OF assms(1)] assms(3,6,7) by (simp add: counted_unchanged)
  then show ?thesis using assms(1,2) schema_ok_cong[OF assms(4-7)] by (simp add: table_ok_def recount_counted)
qed

lemma set_ttl_ok: "table_ok n t \<Longrightarrow> table_ok n (set_ttl ttl t)"
  unfolding set_ttl_def by (rule table_ok_description) simp_all

lemma update_time_to_live_handled:
  assumes "json_object_text (serde_to_vec X)" "server_ok X s" "update_time_to_live X E r s = (q, s')"
  shows "well_handled X s q s'"
proof (cases "isl q \<and> s' = s")
  case False
  then obtain t where t: "map_of (tables s) (ttr_table_name r) = Some t"
    using assms(3) by (auto simp: update_time_to_live_def Let_def find_table_simps split: if_splits sum.splits)
  show ?thesis
    using assms(3) False t set_ttl_ok[OF server_table_ok[OF assms(2) t]]
    by (intro table_change(1)[OF assms(1,2) t])
      (auto simp: update_time_to_live_def Let_def find_table_def or_else_def set_ttl_def split: if_splits)
qed (use assms(2) in \<open>auto simp: isl_def well_handled_refused\<close>)

section \<open>Expiry by time to live\<close>

definition ttl_expired :: "int \<Rightarrow> table_state \<Rightarrow> item \<Rightarrow> bool" where
  "ttl_expired now t i =
     (let ttl = ttl_description_of (description t) in
      time_to_live_status ttl = ''ENABLED'' \<and> ttl_attribute_name ttl \<noteq> [] \<and> ttl_item_expired i (ttl_attribute_name ttl) now)"

lemma expired_keys_eq: "expired_keys now t = map fst (filter (\<lambda>(_, i). ttl_expired now t i) (items t))"
proof (cases "time_to_live_status (ttl_description_of (description t)) \<noteq> ''ENABLED'' \<or> ttl_attribute_name (ttl_description_of (description t)) = []")
  case True
  then have "ttl_expired now t i = False" for i unfolding ttl_expired_def Let_def by blast
  with True show ?thesis by (simp add: expired_keys_def Let_def)
next
  case False
  then have "ttl_expired now t i = ttl_item_expired i (ttl_attribute_name (ttl_description_of (description t))) now" for i
    unfolding ttl_expired_def Let_def by blast
  with False show ?thesis unfolding expired_keys_def Let_def by simp
qed

lemma set_expired_keys:
  "bt_ok (items t) \<Longrightarrow> key \<in> set (expired_keys now t) \<longleftrightarrow> (\<exists>i. map_of (items t) key = Some i \<and> ttl_expired now t i)"
  by (force simp: expired_keys_eq bt_ok_distinct map_of_eq_Some_iff)

lemma filter_assoc_map:
  "distinct (map fst ts) \<Longrightarrow> map_of ts n = Some t \<Longrightarrow>
   filter (\<lambda>w. fst w = n) (filter (\<lambda>(_, ks). ks \<noteq> []) (map (\<lambda>(n, t). (n, f t)) ts)) = (if f t = [] then [] else [(n, f t)])"
proof (induction ts)
  case (Cons e ts)
  obtain m u where e: "e = (m, u)" by fastforce
  have "filter (\<lambda>w. fst w = n) (filter (\<lambda>(_, ks). ks \<noteq> []) (map (\<lambda>(n, t). (n, f t)) ts)) = []" if "n \<notin> fst ` set ts"
    using that by (force simp: filter_empty_conv)
  with Cons e show ?case by (auto split: if_splits)
qed simp

lemma filter_changed_tables:
  "tables_ok (tables s) \<Longrightarrow> map_of (tables s) n = Some t \<Longrightarrow>
   filter (\<lambda>w. fst w = n) (changed_tables now s) = (if expired_keys now t = [] then [] else [(n, expired_keys now t)])"
  unfolding changed_tables_def by (rule filter_assoc_map) (simp_all add: tables_ok_def bt_ok_distinct)

lemma mem_expired_backups:
  assumes "tables_ok (tables s)" "map_of (tables s) n = Some t"
  shows "b \<in> set (filter (\<lambda>b. fst b = n) (expired_backups (changed_tables now s) s)) \<longleftrightarrow>
    (\<exists>key \<in> set (expired_keys now t). \<exists>i. map_of (items t) key = Some i \<and> b = (n, key, i))"
proof -
  have "(n, ks) \<in> set (changed_tables now s) \<longleftrightarrow> ks \<noteq> [] \<and> ks = expired_keys now t" for ks
  proof -
    have "(n, ks) \<in> set (changed_tables now s) \<longleftrightarrow> (n, ks) \<in> set (filter (\<lambda>w. fst w = n) (changed_tables now s))" by simp
    then show ?thesis unfolding filter_changed_tables[OF assms] by auto
  qed
  note changed = this
  have "b \<in> set (expired_backups changed s) \<longleftrightarrow>
      (\<exists>m ks key i. (m, ks) \<in> set changed \<and> key \<in> set ks \<and> Option.bind (map_of (tables s) m) (\<lambda>t. map_of (items t) key) = Some i
        \<and> b = (m, key, i))" for changed
    unfolding expired_backups_def by (simp add: Bex_def eq_commute[of "Some _"] split: option.splits)
  then have "b \<in> set (filter (\<lambda>b. fst b = n) (expired_backups (changed_tables now s) s)) \<longleftrightarrow>
      (\<exists>ks key i. (n, ks) \<in> set (changed_tables now s) \<and> key \<in> set ks \<and> map_of (items t) key = Some i \<and> b = (n, key, i))"
    using assms(2) by auto
  then show ?thesis unfolding changed by force
qed


definition expired_table :: "int \<Rightarrow> table_state \<Rightarrow> table_state" where
  "expired_table now t =
     (if expired_keys now t = [] then t else recount (t\<lparr>items := fold (\<lambda>key. put_slot key None) (expired_keys now t) (items t)\<rparr>))"

definition unexpired_table :: "(string \<times> string \<times> item) list \<Rightarrow> string set \<Rightarrow> string \<Rightarrow> table_state \<Rightarrow> table_state" where
  "unexpired_table bs D n t =
     (if n \<in> D then recount else id) (t\<lparr>items := fold (\<lambda>b. put_slot (fst (snd b)) (Some (snd (snd b)))) (filter (\<lambda>b. fst b = n) bs) (items t)\<rparr>)"

lemma fst_changed_tables:
  assumes "tables_ok (tables s)" "map_of (tables s) n = Some t"
  shows "n \<in> fst ` set (changed_tables now s) \<longleftrightarrow> expired_keys now t \<noteq> []"
proof -
  have "n \<in> fst ` set (changed_tables now s) \<longleftrightarrow> filter (\<lambda>w. fst w = n) (changed_tables now s) \<noteq> []" by (auto simp: filter_empty_conv)
  then show ?thesis by (simp add: filter_changed_tables[OF assms])
qed

lemma distinct_changed_tables: "tables_ok (tables s) \<Longrightarrow> distinct (map fst (changed_tables now s))"
proof -
  assume "tables_ok (tables s)"
  then have "distinct (map fst (map (\<lambda>(n, t). (n, expired_keys now t)) (tables s)))"
    by (simp add: comp_def case_prod_unfold tables_ok_def bt_ok_distinct[unfolded comp_def])
  then show ?thesis unfolding changed_tables_def by (rule distinct_map_filter)
qed

lemma expired_table_items:
  "bt_ok (items t) \<Longrightarrow> map_of (items (expired_table now t)) key =
     (if \<exists>i. map_of (items t) key = Some i \<and> ttl_expired now t i then None else map_of (items t) key)"
  using map_of_fold_put_slot[of "\<lambda>w. w" "\<lambda>_. None" "expired_keys now t" "items t"]
    fold_upd_const[of "expired_keys now t" "\<lambda>_. None" "\<lambda>_. None" "\<lambda>w. w" "map_of (items t)" key]
  by (auto simp: expired_table_def set_expired_keys[symmetric])

lemma expired_table_ok: "table_ok n t \<Longrightarrow> table_ok n (expired_table now t)"
  using items_ok_fold_put_slot[of "items t" "expired_keys now t" "\<lambda>_. None" "\<lambda>w. w"]
  by (auto simp: expired_table_def table_ok_def recount_counted)

lemma expire_shapes:
  assumes "tables_ok (tables s)"
  shows "fold (\<lambda>(n, ks). modify_table n (\<lambda>t. recount (fold (\<lambda>key. set_slot key None) ks t))) (changed_tables now s) s
      = modify_all (\<lambda>_. expired_table now) s"
    and "(\<lambda>s'. recount_all (map fst (changed_tables now s))
        (fold (\<lambda>(n, key, i). modify_table n (\<lambda>t. t\<lparr>items := bt_insert key i (items t)\<rparr>)) bs s'))
      = modify_all (unexpired_table bs (fst ` set (changed_tables now s)))"
proof -
  have get: "(n, t) \<in> set (tables s) \<Longrightarrow> map_of (tables s) n = Some t" for n t
    using assms by (simp add: tables_ok_def bt_ok_distinct)
  show "fold (\<lambda>(n, ks). modify_table n (\<lambda>t. recount (fold (\<lambda>key. set_slot key None) ks t))) (changed_tables now s) s
      = modify_all (\<lambda>_. expired_table now) s"
    unfolding case_prod_unfold fold_modify_table
    by (rule modify_all_cong) (simp add: filter_changed_tables[OF assms get] expired_table_def
        fold_set_slot[of "\<lambda>w. w" "\<lambda>_. None"])
  have "t\<lparr>items := bt_insert key i (items t)\<rparr> = set_slot key (Some i) t" for t key i by (simp add: set_slot_def)
  moreover have "unexpired_table bs D = (\<lambda>n t. (if n \<in> D then recount else id) (t\<lparr>items :=
      fold (\<lambda>b. put_slot (fst (snd b)) (Some (snd (snd b)))) (filter (\<lambda>b. fst b = n) bs) (items t)\<rparr>))" for D
    by (intro ext) (simp add: unexpired_table_def)
  ultimately show "(\<lambda>s'. recount_all (map fst (changed_tables now s))
        (fold (\<lambda>(n, key, i). modify_table n (\<lambda>t. t\<lparr>items := bt_insert key i (items t)\<rparr>)) bs s'))
      = modify_all (unexpired_table bs (fst ` set (changed_tables now s)))"
    by (intro ext) (simp add: case_prod_unfold fold_modify_table recount_all_all[OF distinct_changed_tables[OF assms]]
      modify_all_modify_all fold_set_slot comp_def)
qed

lemma unexpired_expired:
  assumes "tables_ok (tables s)" "map_of (tables s) n = Some t"
  shows "unexpired_table (expired_backups (changed_tables now s) s) (fst ` set (changed_tables now s)) n (expired_table now t) = t"
proof (cases "expired_keys now t = []")
  case True
  let ?bs = "expired_backups (changed_tables now s) s"
  have "b \<notin> set (filter (\<lambda>b. fst b = n) ?bs)" for b unfolding mem_expired_backups[OF assms] by (simp add: True)
  then have "filter (\<lambda>b. fst b = n) ?bs = []" by (metis ex_in_conv set_empty)
  with True show ?thesis by (simp add: unexpired_table_def expired_table_def fst_changed_tables[OF assms])
next
  case False
  let ?bs = "filter (\<lambda>b. fst b = n) (expired_backups (changed_tables now s) s)"
  have ok: "table_ok n t" using assms by (rule tables_ok_get)
  have bt: "bt_ok (items t)" using ok by (simp add: table_ok_def items_ok_def)
  have "fold (\<lambda>b. put_slot (fst (snd b)) (Some (snd (snd b)))) ?bs (fold (\<lambda>key. put_slot key None) (expired_keys now t) (items t)) = items t"
  proof (rule restore_slots[OF bt])
    have "\<exists>i. (n, key, i) \<in> set ?bs" if "key \<in> set (expired_keys now t)" for key
      using that set_expired_keys[OF bt] unfolding mem_expired_backups[OF assms] by blast
    then have "set (expired_keys now t) \<subseteq> (\<lambda>b. fst (snd b)) ` set ?bs" by (force simp del: set_filter)
    moreover have "(\<lambda>b. fst (snd b)) ` set ?bs \<subseteq> set (expired_keys now t)"
      unfolding image_subset_iff Ball_def mem_expired_backups[OF assms] by auto
    ultimately show "(\<lambda>b. fst (snd b)) ` set ?bs = (\<lambda>key. key) ` set (expired_keys now t)" by simp
  qed (auto simp: mem_expired_backups[OF assms] simp del: set_filter)
  then show ?thesis using False table_ok_counts[OF ok]
    by (simp add: unexpired_table_def expired_table_def fst_changed_tables[OF assms] recount_counted)
qed

lemma expire_ttl_items_change:
  assumes "json_object_text (serde_to_vec X)" "server_ok X s" "expire_ttl_items X io now s = (r, s')"
  shows "server_ok X s' \<and> dconfig s' = dconfig s \<and>
    (if isl r then same_data s s' else backups s' = backups s \<and> backup_tables s' = backup_tables s \<and> backup_items s' = backup_items s
      \<and> tables s' = tables (modify_all (\<lambda>_. expired_table now) s) \<and> (s' = s \<or> saved X s'))"
proof -
  have ok: "tables_ok (tables s)" using assms(2) by (simp add: server_ok_def)
  have get: "(n, t) \<in> set (tables s) \<Longrightarrow> map_of (tables s) n = Some t" for n t
    using ok by (simp add: tables_ok_def bt_ok_distinct)
  show ?thesis
  proof (cases "changed_tables now s = []")
    case True
    then have "expired_keys now t = []" if "map_of (tables s) n = Some t" for n t using fst_changed_tables[OF ok that, of now] by simp
    then have "modify_all (\<lambda>_. expired_table now) s = s" by (intro modify_all_id) (auto simp: expired_table_def dest: get)
    with True assms show ?thesis by (auto simp: expire_ttl_items_def)
  next
    case False
    let ?bs = "expired_backups (changed_tables now s) s" and ?D = "fst ` set (changed_tables now s)"
    have q: "save_or_undo X io (modify_all (unexpired_table ?bs ?D)) ()
        ((modify_all (\<lambda>_. expired_table now) s)\<lparr>dirty_tables := dirty_tables s \<union> ?D\<rparr>) = (r, s')"
      using assms(3) False by (simp add: expire_ttl_items_def Let_def expire_shapes[OF ok])
    have same: "expired_table now t = t" if "map_of (tables s) n = Some t" "n \<notin> ?D" for n t
      using fst_changed_tables[OF ok that(1), of now] that(2) by (simp add: expired_table_def)
    note change = tables_change[where F = "\<lambda>_. expired_table now", OF assms(1,2) expired_table_ok[OF tables_ok_get[OF ok]]
      unexpired_expired[OF ok] same q]
    have "well_handled X s r s'" by (rule change(1))
    moreover have "backups s' = backups s \<and> backup_tables s' = backup_tables s \<and> backup_items s' = backup_items s
        \<and> tables s' = tables (modify_all (\<lambda>_. expired_table now) s)" if "r = Inr u" for u
      using that by - (rule change(2), assumption+)
    ultimately show ?thesis by (cases r) (auto simp: well_handled_def)
  qed
qed

text \<open>C24. Expiry removes exactly the items whose time to live has passed: after it an item is found in a table
  iff it was there before and the table's time-to-live attribute, when enabled, does not say it has expired.\<close>

theorem expiry_removes_expired:
  assumes "json_object_text (serde_to_vec X)" "server_ok X s" "expire_ttl_items X io now s = (Inr u, s')"
  shows "view s' n key = (case map_of (tables s) n of None \<Rightarrow> None | Some t \<Rightarrow>
    (case map_of (items t) key of None \<Rightarrow> None | Some i \<Rightarrow> if ttl_expired now t i then None else Some i))"
proof -
  have "view s' n key = (case map_of (tables s) n of None \<Rightarrow> None | Some t \<Rightarrow> map_of (items (expired_table now t)) key)"
    using expire_ttl_items_change[OF assms] by (simp add: view_def map_of_modify_all split: option.splits)
  moreover have "bt_ok (items t)" if "map_of (tables s) n = Some t" for t
    using server_table_ok[OF assms(2) that] by (simp add: table_ok_def items_ok_def)
  ultimately show ?thesis by (auto simp: expired_table_items split: option.splits)
qed

section \<open>Samples\<close>

definition ttl_db :: ddb_server where
  "ttl_db = snd (update_time_to_live sample_ddb (env_at t0) \<lparr>ttr_table_name = ''users'', ttr_enabled = True, ttr_attribute_name = ''exp''\<rparr>
     (snd (put_item sample_ddb (env_at t0) (put_user [(''exp'', to_json (AV_N ''1.7e9'')), (''pk'', to_json (AV_S ''old''))]) ann_db)))"

lemma ttl_db_ok: "server_ok sample_ddb ttl_db"
proof -
  let ?i = "[(''exp'', to_json (AV_N ''1.7e9'')), (''pk'', to_json (AV_S ''old''))]"
  obtain q s where q: "put_item sample_ddb (env_at t0) (put_user ?i) ann_db = (q, s)" by fastforce
  have "bt_ok (pir_item (put_user ?i))" unfolding put_user_def by code_simp
  then have ok: "server_ok sample_ddb s" using put_item_handled[OF sample_ddb_objects ann_db_ok _ q] by (simp add: well_handled_def)
  obtain q' s' where u: "update_time_to_live sample_ddb (env_at t0) \<lparr>ttr_table_name = ''users'', ttr_enabled = True, ttr_attribute_name = ''exp''\<rparr> s = (q', s')"
    by fastforce
  have "ttl_db = s'" unfolding ttl_db_def q snd_conv u ..
  then show ?thesis using update_time_to_live_handled[OF sample_ddb_objects ok u] by (simp add: well_handled_def)
qed

definition user_slot :: "string \<Rightarrow> string" where
  "user_slot name = (case item_key sample_ddb (new_description (sample_ddb_config []) (env_at t0) (users_request False)) (user name) of
     Inr key \<Rightarrow> key | Inl _ \<Rightarrow> [])"

theorem expiry_removes_expired_witness:
  "\<exists>s'. expire_ttl_items sample_ddb (fs (env_at t0)) 1700000000 ttl_db = (Inr (), s') \<and>
     view ttl_db ''users'' (user_slot ''old'') \<noteq> None \<and> view s' ''users'' (user_slot ''old'') = None \<and>
     view s' ''users'' (user_slot ''ann'') = Some (user ''ann'')"
proof -
  let ?e = "expire_ttl_items sample_ddb (fs (env_at t0)) 1700000000 ttl_db"
  have "fst ?e = Inr ()" by code_simp
  then have e: "?e = (Inr (), snd ?e)" by (metis prod.collapse)
  note gone = expiry_removes_expired[OF sample_ddb_objects ttl_db_ok e]
  have "view (snd ?e) ''users'' (user_slot ''old'') = None" unfolding gone by code_simp
  moreover have "view (snd ?e) ''users'' (user_slot ''ann'') = Some (user ''ann'')" unfolding gone by code_simp
  moreover have "view ttl_db ''users'' (user_slot ''old'') \<noteq> None" by code_simp
  ultimately show ?thesis using e by blast
qed

end
