(* ===== verification/Dynamo_Backups.thy ===== *)
theory Dynamo_Backups
  imports Dynamo_Expiry
begin

text \<open>
  Backups, tags and resource policies of the DynamoDB server (\<open>services/dynamodb/src/server.rs\<close>). A backup keeps a copy
  of a table's description and items under its ARN; restoring makes a new table from them. Tags and
  policies belong to the table whose ARN a request names, so the lookup of the table by its name
  that follows in the code finds the table that was just found by its ARN.
\<close>

section \<open>Requests\<close>

record update_continuous_backups_request =
  ucb_table_name :: string
  ucb_point_in_time_recovery_enabled :: bool

record create_backup_request =
  cbr_table_name :: string
  cbr_backup_name :: string

record list_backups_request =
  lbr_table_name :: string
  lbr_exclusive_start_backup_arn :: string
  lbr_limit :: int

record restore_table_from_backup_request =
  rbr_backup_arn :: string
  rbr_target_table_name :: string

record tag_resource_request =
  trr_resource_arn :: string
  trr_tags :: "(string \<times> string) list"

record list_tags_of_resource_request =
  ltr_resource_arn :: string
  ltr_next_token :: string

record untag_resource_request =
  urr_resource_arn :: string
  urr_tag_keys :: "string list"

record put_resource_policy_request =
  prp_resource_arn :: string
  prp_policy :: string

section \<open>Continuous backups\<close>

definition continuous_backups_for_state :: "continuous_backups_description option \<Rightarrow> continuous_backups_description" where
  "continuous_backups_for_state value =
     (case value of Some d \<Rightarrow> d
      | None \<Rightarrow> \<lparr>continuous_backups_status = ''ENABLED'', point_in_time_recovery_status = ''DISABLED''\<rparr>)"

definition describe_continuous_backups :: "string \<Rightarrow> ddb_server \<Rightarrow> json api" where
  "describe_continuous_backups n s =
     (if n = [] then Inl (validation_error ''table name is required'')
      else bind_res (find_table s n) (\<lambda>t. Inr (Object [(''ContinuousBackupsDescription'',
        continuous_backups_json (continuous_backups_for_state (continuous_backups t)))])))"

definition update_continuous_backups ::
  "ddb_crates \<Rightarrow> env \<Rightarrow> update_continuous_backups_request \<Rightarrow> ddb_server \<Rightarrow> json api \<times> ddb_server" where
  "update_continuous_backups X E r s =
     (let n = ucb_table_name r in
      if n = [] then (Inl (validation_error ''table name is required''), s)
      else let d = \<lparr>continuous_backups_status = ''ENABLED'',
                    point_in_time_recovery_status = (if ucb_point_in_time_recovery_enabled r then ''ENABLED'' else ''DISABLED'')\<rparr> in
       (case find_table s n of Inl e \<Rightarrow> (Inl e, s) | Inr t \<Rightarrow>
          save_or_undo X (fs E) (modify_table n (\<lambda>u. u\<lparr>continuous_backups := continuous_backups t\<rparr>))
            (Object [(''ContinuousBackupsDescription'', continuous_backups_json d)])
            (mark_dirty n (modify_table n (\<lambda>u. u\<lparr>continuous_backups := Some d\<rparr>) s))))"

section \<open>Backups\<close>

definition backup_description_for_table :: "table_description \<Rightarrow> string \<Rightarrow> int \<Rightarrow> backup_description" where
  "backup_description_for_table d backup_name created_at =
     \<lparr>backup_details = \<lparr>
        bd_backup_arn = table_arn d @ ''/backup/'' @ int_to_string created_at @ ''-'' @ backup_name,
        bd_backup_creation_date_time = created_at, bd_backup_name = backup_name, bd_backup_size_bytes = table_size_bytes d,
        bd_backup_status = ''AVAILABLE'', bd_backup_type = ''USER''\<rparr>,
      source_table_details = \<lparr>
        src_attribute_definitions = attribute_definitions d,
        src_billing_mode = (case billing_mode_summary d of Some m \<Rightarrow> m | None \<Rightarrow> ''PAY_PER_REQUEST''),
        src_item_count = item_count d, src_key_schema = key_schema d, src_table_arn = table_arn d,
        src_table_creation_date_time = creation_date_time d, src_table_id = table_arn d, src_table_name = table_name d,
        src_table_size_bytes = table_size_bytes d\<rparr>\<rparr>"

definition insert_backup :: "string \<Rightarrow> backup_description \<Rightarrow> table_description \<Rightarrow> (string, item) bmap \<Rightarrow> ddb_server \<Rightarrow> ddb_server" where
  "insert_backup arn b d its s =
     s\<lparr>backups := bt_insert arn b (backups s), backup_tables := bt_insert arn d (backup_tables s),
       backup_items := bt_insert arn its (backup_items s)\<rparr>"

definition remove_backup :: "string \<Rightarrow> ddb_server \<Rightarrow> ddb_server" where
  "remove_backup arn s =
     s\<lparr>backups := bt_remove arn (backups s), backup_tables := bt_remove arn (backup_tables s),
       backup_items := bt_remove arn (backup_items s)\<rparr>"

definition create_backup :: "ddb_crates \<Rightarrow> env \<Rightarrow> create_backup_request \<Rightarrow> ddb_server \<Rightarrow> json api \<times> ddb_server" where
  "create_backup X E r s =
     (let n = cbr_table_name r in
      if n = [] then (Inl (validation_error ''table name is required''), s)
      else if cbr_backup_name r = [] then (Inl (validation_error ''backup name is required''), s)
      else case find_table s n of Inl e \<Rightarrow> (Inl e, s) | Inr t \<Rightarrow>
        let b = backup_description_for_table (description t) (cbr_backup_name r) (now_unix E 0);
            arn = bd_backup_arn (backup_details b) in
        if bt_contains (backups s) arn then (Inl (api_error_new 400 ''BackupInUseException'' ''backup already exists''), s)
        else save_or_undo X (fs E) (remove_backup arn)
          (Object [(''BackupDetails'', backup_details_json (backup_details b))])
          (insert_backup arn b (description t) (items t) s))"

definition backup_not_found :: api_error where
  "backup_not_found = api_error_new 400 ''BackupNotFoundException'' ''backup not found''"

definition describe_backup :: "string \<Rightarrow> ddb_server \<Rightarrow> json api" where
  "describe_backup arn s =
     (if arn = [] then Inl (validation_error ''backup arn is required'')
      else bind_res (or_else (map_of (backups s) arn) backup_not_found) (\<lambda>b. Inr (Object [(''BackupDescription'', backup_json b)])))"

record backup_summary =
  bs_backup_arn :: string
  bs_backup_creation_date_time :: int
  bs_backup_name :: string
  bs_backup_size_bytes :: int
  bs_backup_status :: string
  bs_backup_type :: string
  bs_table_arn :: string
  bs_table_name :: string

definition backup_summary_for_description :: "backup_description \<Rightarrow> backup_summary" where
  "backup_summary_for_description b =
     \<lparr>bs_backup_arn = bd_backup_arn (backup_details b),
      bs_backup_creation_date_time = bd_backup_creation_date_time (backup_details b),
      bs_backup_name = bd_backup_name (backup_details b), bs_backup_size_bytes = bd_backup_size_bytes (backup_details b),
      bs_backup_status = bd_backup_status (backup_details b), bs_backup_type = bd_backup_type (backup_details b),
      bs_table_arn = src_table_arn (source_table_details b), bs_table_name = src_table_name (source_table_details b)\<rparr>"

definition backup_summary_json :: "backup_summary \<Rightarrow> json" where
  "backup_summary_json b =
     Object [(''BackupArn'', String (bs_backup_arn b)), (''BackupCreationDateTime'', num (bs_backup_creation_date_time b)),
       (''BackupName'', String (bs_backup_name b)), (''BackupSizeBytes'', num (bs_backup_size_bytes b)),
       (''BackupStatus'', String (bs_backup_status b)), (''BackupType'', String (bs_backup_type b)),
       (''TableArn'', String (bs_table_arn b)), (''TableName'', String (bs_table_name b))]"

definition backup_summaries :: "string \<Rightarrow> ddb_server \<Rightarrow> backup_summary list" where
  "backup_summaries n s =
     sort_by (\<lambda>a b. if bs_table_name a = bs_table_name b then cmp (bs_backup_arn a) (bs_backup_arn b)
                    else cmp (bs_table_name a) (bs_table_name b))
       (map backup_summary_for_description
         (filter (\<lambda>d. n = [] \<or> src_table_name (source_table_details d) = n) (map snd (backups s))))"

definition list_backups :: "list_backups_request \<Rightarrow> ddb_server \<Rightarrow> json api" where
  "list_backups r s =
     (if lbr_limit r < 0 \<or> lbr_limit r > 100 then Inl (validation_error ''limit must be between 1 and 100'')
      else let summaries = backup_summaries (lbr_table_name r) s; start_arn = lbr_exclusive_start_backup_arn r in
        bind_res (if start_arn = [] then Inr 0
                  else (case position (\<lambda>b. bs_backup_arn b = start_arn) summaries of
                          Some i \<Rightarrow> Inr (i + 1)
                        | None \<Rightarrow> Inl (validation_error ''exclusive start backup arn does not exist''))) (\<lambda>start.
          case page_of start (lbr_limit r) summaries of (page, has_more) \<Rightarrow>
            Inr (Object ([(''BackupSummaries'', Array (map backup_summary_json page))] @
              unless (\<not> has_more) ''LastEvaluatedBackupArn'' (String (bs_backup_arn (last page)))))))"

definition delete_backup :: "ddb_crates \<Rightarrow> env \<Rightarrow> string \<Rightarrow> ddb_server \<Rightarrow> json api \<times> ddb_server" where
  "delete_backup X E arn s =
     (if arn = [] then (Inl (validation_error ''backup arn is required''), s)
      else case map_of (backups s) arn of None \<Rightarrow> (Inl backup_not_found, s) | Some b \<Rightarrow>
        save_or_undo X (fs E)
          (\<lambda>s'. s'\<lparr>backups := bt_insert arn b (backups s'),
             backup_tables := (case map_of (backup_tables s) arn of Some d \<Rightarrow> bt_insert arn d (backup_tables s') | None \<Rightarrow> backup_tables s'),
             backup_items := (case map_of (backup_items s) arn of Some its \<Rightarrow> bt_insert arn its (backup_items s') | None \<Rightarrow> backup_items s')\<rparr>)
          (Object [(''BackupDescription'', backup_json b)]) (remove_backup arn s))"

definition empty_description :: "backup_description \<Rightarrow> table_description" where
  "empty_description b =
     (let src = source_table_details b in
      \<lparr>attribute_definitions = src_attribute_definitions src,
       billing_mode_summary = Some (if src_billing_mode src = [] then ''PAY_PER_REQUEST'' else src_billing_mode src),
       creation_date_time = 0, global_secondary_indexes = [], item_count = 0, key_schema = src_key_schema src,
       latest_stream_arn = [], latest_stream_label = [], local_secondary_indexes = [], stream_spec = None, table_arn = [],
       table_name = [], table_size_bytes = 0, table_status = [], ttl_description = None\<rparr>)"

definition restored_table_description :: "string \<Rightarrow> backup_description \<Rightarrow> int \<Rightarrow> ddb_server \<Rightarrow> table_description" where
  "restored_table_description target b created_at s =
     (let arn = bd_backup_arn (backup_details b);
          d = (case map_of (backup_tables s) arn of Some d \<Rightarrow> d | None \<Rightarrow> empty_description b);
          new_arn = ddb_table_arn (dconfig s) target in
      d\<lparr>creation_date_time := created_at,
        item_count := (case map_of (backup_items s) arn of Some its \<Rightarrow> int (length its) | None \<Rightarrow> 0),
        latest_stream_arn := [], latest_stream_label := [], stream_spec := None, table_arn := new_arn, table_name := target,
        table_size_bytes := bd_backup_size_bytes (backup_details b), table_status := ''ACTIVE'',
        global_secondary_indexes := map (\<lambda>i. i\<lparr>gsi_index_arn := new_arn @ ''/index/'' @ gsi_index_name i\<rparr>) (global_secondary_indexes d),
        local_secondary_indexes := map (\<lambda>i. i\<lparr>lsi_index_arn := new_arn @ ''/index/'' @ lsi_index_name i\<rparr>) (local_secondary_indexes d)\<rparr>)"

definition restored_table :: "string \<Rightarrow> string \<Rightarrow> backup_description \<Rightarrow> int \<Rightarrow> ddb_server \<Rightarrow> table_state" where
  "restored_table arn target b created_at s =
     recount ((table_state_new (restored_table_description target b created_at s))\<lparr>
       items := (case map_of (backup_items s) arn of Some its \<Rightarrow> its | None \<Rightarrow> [])\<rparr>)"

definition restore_table_from_backup ::
  "ddb_crates \<Rightarrow> env \<Rightarrow> restore_table_from_backup_request \<Rightarrow> ddb_server \<Rightarrow> json api \<times> ddb_server" where
  "restore_table_from_backup X E r s =
     (let arn = rbr_backup_arn r; target = rbr_target_table_name r in
      if arn = [] then (Inl (validation_error ''backup arn is required''), s)
      else if target = [] then (Inl (validation_error ''target table name is required''), s)
      else case map_of (backups s) arn of None \<Rightarrow> (Inl backup_not_found, s) | Some b \<Rightarrow>
        if bt_contains (tables s) target then (Inl (in_use ''table already exists''), s)
        else if int (length (tables s)) \<ge> max_tables (dconfig s)
        then (Inl (api_error_new 400 ''LimitExceededException'' ''table limit exceeded''), s)
        else add_table X (fs E) target (restored_table arn target b (now_unix E 0) s) s)"

section \<open>Tags and policies\<close>

definition table_for_arn :: "ddb_server \<Rightarrow> string \<Rightarrow> (string \<times> table_state) option" where
  "table_for_arn s arn = find (\<lambda>(_, t). table_arn (description t) = arn) (tables s)"

definition find_resource :: "ddb_server \<Rightarrow> string \<Rightarrow> (string \<times> table_state) api" where
  "find_resource s arn = or_else (table_for_arn s arn) (not_found ''resource not found'')"

fun project_tags :: "(string \<times> string) list \<Rightarrow> (string, string) bmap \<Rightarrow> (string, string) bmap api" where
  "project_tags [] projected = Inr projected"
| "project_tags ((k, v) # rest) projected =
     (if k = [] then Inl (validation_error ''tag key is required'') else project_tags rest (bt_insert k v projected))"

definition set_tags :: "(string, string) bmap \<Rightarrow> table_state \<Rightarrow> table_state" where
  "set_tags ts t = t\<lparr>tags := ts\<rparr>"

definition tag_resource :: "ddb_crates \<Rightarrow> env \<Rightarrow> tag_resource_request \<Rightarrow> ddb_server \<Rightarrow> json api \<times> ddb_server" where
  "tag_resource X E r s =
     (if trr_resource_arn r = [] then (Inl (validation_error ''resource arn is required''), s)
      else if trr_tags r = [] then (Inl (validation_error ''tags are required''), s)
      else case find_resource s (trr_resource_arn r) of Inl e \<Rightarrow> (Inl e, s) | Inr (n, t) \<Rightarrow>
       (case project_tags (trr_tags r) (tags t) of Inl e \<Rightarrow> (Inl e, s) | Inr projected \<Rightarrow>
          if length projected > 50 then (Inl (api_error_new 400 ''LimitExceededException'' ''tag limit exceeded''), s)
          else save_or_undo X (fs E) (modify_table n (set_tags (tags t))) (Object [])
            (mark_dirty n (modify_table n (set_tags projected) s))))"

definition list_tags_of_resource :: "list_tags_of_resource_request \<Rightarrow> ddb_server \<Rightarrow> json api" where
  "list_tags_of_resource r s =
     (if ltr_resource_arn r = [] then Inl (validation_error ''resource arn is required'')
      else if ltr_next_token r \<noteq> [] then Inl (validation_error ''next token is invalid'')
      else bind_res (find_resource s (ltr_resource_arn r)) (\<lambda>(_, t).
        Inr (Object [(''Tags'', Array (map (\<lambda>(k, v). Object [(''Key'', String k), (''Value'', String v)]) (tags t)))])))"

definition untag_resource :: "ddb_crates \<Rightarrow> env \<Rightarrow> untag_resource_request \<Rightarrow> ddb_server \<Rightarrow> json api \<times> ddb_server" where
  "untag_resource X E r s =
     (if urr_resource_arn r = [] then (Inl (validation_error ''resource arn is required''), s)
      else if urr_tag_keys r = [] then (Inl (validation_error ''tag keys are required''), s)
      else case find_resource s (urr_resource_arn r) of Inl e \<Rightarrow> (Inl e, s) | Inr (n, t) \<Rightarrow>
        save_or_undo X (fs E) (modify_table n (set_tags (tags t))) (Object [])
          (mark_dirty n (modify_table n (\<lambda>u. set_tags (fold bt_remove (urr_tag_keys r) (tags u)) u) s)))"

definition resource_policy_revision_of :: "ddb_crates \<Rightarrow> string \<Rightarrow> string" where
  "resource_policy_revision_of X policy = ddb_crates.sha256_hex X policy"

definition set_policy :: "string \<Rightarrow> string \<Rightarrow> table_state \<Rightarrow> table_state" where
  "set_policy policy revision t = t\<lparr>resource_policy := policy, resource_policy_revision := revision\<rparr>"

definition put_resource_policy ::
  "ddb_crates \<Rightarrow> serde_parse \<Rightarrow> env \<Rightarrow> put_resource_policy_request \<Rightarrow> ddb_server \<Rightarrow> json api \<times> ddb_server" where
  "put_resource_policy X D E r s =
     (if prp_resource_arn r = [] then (Inl (validation_error ''resource arn is required''), s)
      else if trim (prp_policy r) = [] then (Inl (validation_error ''policy is required''), s)
      else if \<not> is_json_text D (prp_policy r) then (Inl (validation_error ''policy must be valid JSON''), s)
      else case find_resource s (prp_resource_arn r) of Inl e \<Rightarrow> (Inl e, s) | Inr (n, t) \<Rightarrow>
        let revision = resource_policy_revision_of X (prp_policy r) in
        save_or_undo X (fs E) (modify_table n (set_policy (resource_policy t) (resource_policy_revision t)))
          (Object [(''RevisionId'', String revision)])
          (mark_dirty n (modify_table n (set_policy (prp_policy r) revision) s)))"

definition get_resource_policy :: "string \<Rightarrow> ddb_server \<Rightarrow> json api" where
  "get_resource_policy arn s =
     (if arn = [] then Inl (validation_error ''resource arn is required'')
      else bind_res (find_resource s arn) (\<lambda>(_, t).
        if resource_policy t = [] then Inl (api_error_new 400 ''PolicyNotFoundException'' ''resource policy not found'')
        else Inr (Object [(''Policy'', String (resource_policy t)), (''RevisionId'', String (resource_policy_revision t))])))"

definition delete_resource_policy :: "ddb_crates \<Rightarrow> env \<Rightarrow> string \<Rightarrow> ddb_server \<Rightarrow> json api \<times> ddb_server" where
  "delete_resource_policy X E arn s =
     (if arn = [] then (Inl (validation_error ''resource arn is required''), s)
      else case find_resource s arn of Inl e \<Rightarrow> (Inl e, s) | Inr (n, t) \<Rightarrow>
        save_or_undo X (fs E) (modify_table n (set_policy (resource_policy t) (resource_policy_revision t))) (Object [])
          (mark_dirty n (modify_table n (set_policy [] []) s)))"

section \<open>Handlers keep the invariant\<close>

text \<open>A change of neither the description nor the items.\<close>

lemma table_ok_settings:
  assumes "table_ok n t" "description u = description t" "items u = items t" "bt_ok (tags u)" "length (tags u) \<le> 50"
    "stream_records u = stream_records t"
  shows "table_ok n u"
proof -
  have "recount u = u\<lparr>description := description u\<rparr>" using table_ok_counts[OF assms(1)] assms(2,3) by (simp add: recount_counted)
  then show ?thesis using assms by (simp add: table_ok_def)
qed

lemma update_continuous_backups_handled:
  assumes "json_object_text (serde_to_vec X)" "server_ok X s" "update_continuous_backups X E r s = (q, s')"
  shows "well_handled X s q s'"
proof (cases "isl q \<and> s' = s")
  case False
  then obtain t where t: "map_of (tables s) (ucb_table_name r) = Some t"
    using assms(3) by (auto simp: update_continuous_backups_def Let_def find_table_simps split: if_splits sum.splits)
  show ?thesis
    using assms(3) False t server_table_ok[OF assms(2) t]
      table_ok_settings[of "ucb_table_name r" t "t\<lparr>continuous_backups := c\<rparr>" for c]
    by (intro table_change(1)[OF assms(1,2) t])
      (auto simp: update_continuous_backups_def Let_def find_table_def or_else_def table_ok_def split: if_splits)
qed (use assms(2) in \<open>auto simp: isl_def well_handled_refused\<close>)

text \<open>The shape of a handler that changes the backups.\<close>

lemma backups_change:
  assumes "json_object_text (serde_to_vec X)" "server_ok X s"
    and "t = s\<lparr>backups := b, backup_tables := bt, backup_items := bi\<rparr>" "backups_ok t" "undo t = s"
    and "save_or_undo X io undo a t = (r, s')"
  shows "well_handled X s r s'"
    and "r = Inr v \<Longrightarrow> tables s' = tables s \<and> backups s' = b \<and> backup_tables s' = bt \<and> backup_items s' = bi"
proof -
  have ok: "tables_ok (tables s)" "cache_ok X s" using assms(2) by (simp_all add: server_ok_def)
  then have "tables_ok (tables t)" "cache_current X t" by (simp_all add: assms(3) cache_ok_def cache_current_def)
  then show "well_handled X s r s'"
    using assms(2,4,5) by (intro save_or_undo_handled[OF assms(1,6)]) (simp_all add: assms(3))
  assume "r = Inr v"
  with assms(6) show "tables s' = tables s \<and> backups s' = b \<and> backup_tables s' = bt \<and> backup_items s' = bi"
    by (cases rule: save_or_undo_cases) (auto simp: assms(3) dest: ddb_persist_keeps)
qed

lemma backups_ok_insert:
  assumes "backups_ok s" "bd_backup_arn (backup_details b) = arn" "schema_ok d" "items_ok its"
  shows "backups_ok (insert_backup arn b d its s)"
  using assms by (auto simp: backups_ok_def insert_backup_def bt_get_insert)

lemma backups_ok_remove: "backups_ok s \<Longrightarrow> backups_ok (remove_backup arn s)"
  by (auto simp: backups_ok_def remove_backup_def bt_get_remove)

lemma backups_ok_None:
  assumes "backups_ok s" "map_of (backups s) arn = None"
  shows "map_of (backup_tables s) arn = None" "map_of (backup_items s) arn = None"
  using assms by (metis backups_ok_def domIff)+

lemma backups_ok_Some:
  assumes "backups_ok s" "map_of (backups s) arn = Some b"
  obtains d its where "map_of (backup_tables s) arn = Some d" "map_of (backup_items s) arn = Some its"
proof -
  have "arn \<in> dom (map_of (backup_tables s))" "arn \<in> dom (map_of (backup_items s))" using assms by (auto simp: backups_ok_def)
  then show thesis using that by blast
qed

lemma remove_insert_backup:
  assumes "backups_ok s" "map_of (backups s) arn = None"
  shows "remove_backup arn (insert_backup arn b d its s) = s"
  using assms backups_ok_None[OF assms]
  by (simp add: remove_backup_def insert_backup_def backups_ok_def bt.undo_new)

lemma create_backup_cases:
  assumes "create_backup X E r s = (q, s')"
  obtains (refused) e where "q = Inl e" "s' = s"
  | (added) t b arn where "map_of (tables s) (cbr_table_name r) = Some t"
      "b = backup_description_for_table (description t) (cbr_backup_name r) (now_unix E 0)"
      "arn = bd_backup_arn (backup_details b)" "map_of (backups s) arn = None"
      "save_or_undo X (fs E) (remove_backup arn) (Object [(''BackupDetails'', backup_details_json (backup_details b))])
        (insert_backup arn b (description t) (items t) s) = (q, s')"
  using assms unfolding create_backup_def Let_def
  by (auto simp: find_table_simps bt_contains_def split: if_splits sum.splits)

lemma create_backup_change:
  assumes "json_object_text (serde_to_vec X)" "server_ok X s" "create_backup X E r s = (q, s')"
  shows "well_handled X s q s'"
    and "q = Inr v \<Longrightarrow> \<exists>t b. map_of (tables s) (cbr_table_name r) = Some t
      \<and> b = backup_description_for_table (description t) (cbr_backup_name r) (now_unix E 0) \<and> tables s' = tables s
      \<and> map_of (backups s') = (map_of (backups s))(bd_backup_arn (backup_details b) \<mapsto> b)
      \<and> map_of (backup_tables s') (bd_backup_arn (backup_details b)) = Some (description t)
      \<and> map_of (backup_items s') (bd_backup_arn (backup_details b)) = Some (items t)"
proof -
  have ok: "backups_ok s" using assms(2) by (simp add: server_ok_def)
  have "well_handled X s q s' \<and> (q = Inr v \<longrightarrow> (\<exists>t b. map_of (tables s) (cbr_table_name r) = Some t
      \<and> b = backup_description_for_table (description t) (cbr_backup_name r) (now_unix E 0) \<and> tables s' = tables s
      \<and> map_of (backups s') = (map_of (backups s))(bd_backup_arn (backup_details b) \<mapsto> b)
      \<and> map_of (backup_tables s') (bd_backup_arn (backup_details b)) = Some (description t)
      \<and> map_of (backup_items s') (bd_backup_arn (backup_details b)) = Some (items t)))"
    using assms(3)
  proof (cases rule: create_backup_cases)
    case (added t b arn)
    have t: "table_ok (cbr_table_name r) t" using assms(2) added(1) by (rule server_table_ok)
    then have b: "backups_ok (insert_backup arn b (description t) (items t) s)"
      by (intro backups_ok_insert[OF ok]) (simp_all add: added(3) table_ok_def)
    note change = backups_change[OF assms(1,2) insert_backup_def b remove_insert_backup[OF ok added(4)] added(5)]
    show ?thesis using change(1) change(2)[of v] added(1-3) by (auto simp: bt_simps)
  qed (use assms(2) well_handled_refused in auto)
  then show "well_handled X s q s'" "q = Inr v \<Longrightarrow> \<exists>t b. map_of (tables s) (cbr_table_name r) = Some t
      \<and> b = backup_description_for_table (description t) (cbr_backup_name r) (now_unix E 0) \<and> tables s' = tables s
      \<and> map_of (backups s') = (map_of (backups s))(bd_backup_arn (backup_details b) \<mapsto> b)
      \<and> map_of (backup_tables s') (bd_backup_arn (backup_details b)) = Some (description t)
      \<and> map_of (backup_items s') (bd_backup_arn (backup_details b)) = Some (items t)" by simp_all
qed

lemma delete_backup_handled:
  assumes "json_object_text (serde_to_vec X)" "server_ok X s" "delete_backup X E arn s = (q, s')"
  shows "well_handled X s q s'"
proof (cases "isl q \<and> s' = s")
  case False
  have ok: "backups_ok s" using assms(2) by (simp add: server_ok_def)
  from False assms(3) obtain b where b: "map_of (backups s) arn = Some b"
    by (auto simp: delete_backup_def split: if_splits option.splits)
  obtain d its where d: "map_of (backup_tables s) arn = Some d" and its: "map_of (backup_items s) arn = Some its"
    by (rule backups_ok_Some[OF ok b])
  have q: "save_or_undo X (fs E) (insert_backup arn b d its) (Object [(''BackupDescription'', backup_json b)]) (remove_backup arn s) = (q, s')"
    using False assms(3) b d its by (auto simp: delete_backup_def insert_backup_def[abs_def] split: if_splits)
  have "insert_backup arn b d its (remove_backup arn s) = s"
    using ok b d its by (simp add: insert_backup_def remove_backup_def backups_ok_def bt.undo_remove)
  then show ?thesis by (rule backups_change(1)[OF assms(1,2) remove_backup_def backups_ok_remove[OF ok] _ q])
qed (use assms(2) in \<open>auto simp: isl_def well_handled_refused\<close>)

lemma restored_description_keeps [simp]:
  "table_name (restored_table_description n b m s) = n"
  "bt_ok (items (table_state_new d))" "tags (table_state_new d) = []" "description (table_state_new d) = d"
  "stream_records (table_state_new d) = []"
  by (simp_all add: restored_table_description_def Let_def table_state_new_def)

lemma restored_description_of:
  assumes "map_of (backup_tables s) (bd_backup_arn (backup_details b)) = Some d"
  shows "attribute_definitions (restored_table_description n b m s) = attribute_definitions d"
    "key_schema (restored_table_description n b m s) = key_schema d" "schema_ok (restored_table_description n b m s) = schema_ok d"
  using assms by (auto simp: restored_table_description_def Let_def schema_ok_def index_names_def comp_def)

lemma restore_change:
  assumes "json_object_text (serde_to_vec X)" "server_ok X s" "restore_table_from_backup X E r s = (q, s')"
  shows "well_handled X s q s'"
    and "q = Inr v \<Longrightarrow> \<exists>b d its u. map_of (backups s) (rbr_backup_arn r) = Some b \<and> map_of (backup_tables s) (rbr_backup_arn r) = Some d
      \<and> map_of (backup_items s) (rbr_backup_arn r) = Some its
      \<and> tables s' = bt_insert (rbr_target_table_name r) u (tables s) \<and> map_of (tables s) (rbr_target_table_name r) = None
      \<and> items u = its \<and> key_schema (description u) = key_schema d \<and> attribute_definitions (description u) = attribute_definitions d"
proof -
  let ?arn = "rbr_backup_arn r" and ?n = "rbr_target_table_name r"
  consider "isl q" "s' = s" | b where "?n \<noteq> []" "map_of (backups s) ?arn = Some b" "map_of (tables s) ?n = None"
      "add_table X (fs E) ?n (restored_table ?arn ?n b (now_unix E 0) s) s = (q, s')"
    using assms(3) unfolding restore_table_from_backup_def Let_def
    by (auto simp: bt_contains_def split: if_splits option.splits)
  then have "well_handled X s q s' \<and> (q = Inr v \<longrightarrow> (\<exists>b d its u. map_of (backups s) ?arn = Some b \<and> map_of (backup_tables s) ?arn = Some d
      \<and> map_of (backup_items s) ?arn = Some its \<and> tables s' = bt_insert ?n u (tables s) \<and> map_of (tables s) ?n = None
      \<and> items u = its \<and> key_schema (description u) = key_schema d \<and> attribute_definitions (description u) = attribute_definitions d))"
  proof cases
    case 1
    then show ?thesis using assms(2) by (cases q) (auto simp: well_handled_refused)
  next
    case (2 b)
    have ok: "backups_ok s" using assms(2) by (simp add: server_ok_def)
    then have arn: "bd_backup_arn (backup_details b) = ?arn" using 2(2) by (simp add: backups_ok_def)
    obtain d its where d: "map_of (backup_tables s) ?arn = Some d" and its: "map_of (backup_items s) ?arn = Some its"
      by (rule backups_ok_Some[OF ok 2(2)])
    with ok have "schema_ok d" "items_ok its" by (auto simp: backups_ok_def)
    note keeps = restored_description_of[of s b d, unfolded arn, OF d]
    let ?u = "restored_table ?arn ?n b (now_unix E 0) s"
    have u: "description ?u = counted its (restored_table_description ?n b (now_unix E 0) s)" "items ?u = its" "tags ?u = []" "stream_records ?u = []"
      by (simp_all add: restored_table_def its recount_counted)
    then have t: "table_ok ?n ?u" using 2(1) keeps \<open>schema_ok d\<close> \<open>items_ok its\<close>
      by (simp add: table_ok_def schema_ok_counted recount_counted numbered_def)
    show ?thesis using add_table_change[OF assms(1,2) 2(3) t 2(4)] 2(2,3) d its u keeps by auto
  qed
  then show "well_handled X s q s'" "q = Inr v \<Longrightarrow> \<exists>b d its u. map_of (backups s) ?arn = Some b \<and> map_of (backup_tables s) ?arn = Some d
      \<and> map_of (backup_items s) ?arn = Some its \<and> tables s' = bt_insert ?n u (tables s) \<and> map_of (tables s) ?n = None
      \<and> items u = its \<and> key_schema (description u) = key_schema d \<and> attribute_definitions (description u) = attribute_definitions d"
    by blast+
qed

section \<open>Tags and policies\<close>

lemma find_resource_Inr:
  assumes "server_ok X s" "find_resource s arn = Inr (n, t)"
  shows "map_of (tables s) n = Some t" "table_ok n t" "table_arn (description t) = arn"
proof -
  have f: "find (\<lambda>(_, t). table_arn (description t) = arn) (tables s) = Some (n, t)"
    using assms(2) by (simp add: find_resource_def table_for_arn_def or_else_def split: option.splits)
  then have "(n, t) \<in> set (tables s)" "table_arn (description t) = arn" by (auto simp: find_Some_iff in_set_conv_nth)
  then show "map_of (tables s) n = Some t" "table_arn (description t) = arn"
    using assms(1) by (simp_all add: server_ok_def tables_ok_def bt_ok_distinct)
  then show "table_ok n t" using assms(1) by (simp add: server_table_ok)
qed

lemma project_tags_ok: "project_tags ts m = Inr m' \<Longrightarrow> bt_ok m \<Longrightarrow> bt_ok m'"
  by (induction ts m rule: project_tags.induct) (auto split: if_splits)

lemma fold_bt_remove_ok: "bt_ok m \<Longrightarrow> bt_ok (fold bt_remove ks m) \<and> length (fold bt_remove ks m) \<le> length m"
proof (induction ks arbitrary: m)
  case (Cons k ks)
  have "length (bt_remove k m) \<le> length m" by (simp add: bt_remove_def)
  then show ?case using Cons.IH[of "bt_remove k m"] Cons.prems by auto
qed simp

lemma resource_change:
  assumes "json_object_text (serde_to_vec X)" "server_ok X s" "find_resource s arn = Inr (n, t)"
    and "description (f t) = description t" "items (f t) = items t" "bt_ok (tags (f t))" "length (tags (f t)) \<le> 50"
      "stream_records (f t) = stream_records t" "g (f t) = t"
    and "save_or_undo X io (modify_table n g) a (mark_dirty n (modify_table n f s)) = (r, s')"
  shows "well_handled X s r s'"
    and "r = Inr v \<Longrightarrow> tables s' = bt_insert n (f t) (tables s)"
  using table_change[where f = f and g = g, OF assms(1,2) find_resource_Inr(1)[OF assms(2,3)] table_ok_settings[OF find_resource_Inr(2)[OF assms(2,3)] assms(4-8)] assms(9,10)]
  by blast+

lemma tag_resource_handled:
  assumes "json_object_text (serde_to_vec X)" "server_ok X s" "tag_resource X E r s = (q, s')"
  shows "well_handled X s q s'"
proof (cases "isl q \<and> s' = s")
  case False
  then obtain n t projected where t: "find_resource s (trr_resource_arn r) = Inr (n, t)"
    and p: "project_tags (trr_tags r) (tags t) = Inr projected" "length projected \<le> 50"
    and q: "save_or_undo X (fs E) (modify_table n (set_tags (tags t))) (Object []) (mark_dirty n (modify_table n (set_tags projected) s)) = (q, s')"
    using assms(3) by (auto simp: tag_resource_def split: if_splits sum.splits prod.splits)
  have "bt_ok projected" using project_tags_ok[OF p(1)] find_resource_Inr(2)[OF assms(2) t] by (simp add: table_ok_def)
  with p(2) show ?thesis by (intro resource_change(1)[OF assms(1,2) t _ _ _ _ _ _ q]) (simp_all add: set_tags_def)
qed (use assms(2) in \<open>auto simp: isl_def well_handled_refused\<close>)

lemma untag_resource_handled:
  assumes "json_object_text (serde_to_vec X)" "server_ok X s" "untag_resource X E r s = (q, s')"
  shows "well_handled X s q s'"
proof (cases "isl q \<and> s' = s")
  case False
  then obtain n t where t: "find_resource s (urr_resource_arn r) = Inr (n, t)"
    and q: "save_or_undo X (fs E) (modify_table n (set_tags (tags t))) (Object [])
      (mark_dirty n (modify_table n (\<lambda>u. set_tags (fold bt_remove (urr_tag_keys r) (tags u)) u) s)) = (q, s')"
    using assms(3) by (auto simp: untag_resource_def split: if_splits sum.splits prod.splits)
  have "bt_ok (tags t)" "length (tags t) \<le> 50" using find_resource_Inr(2)[OF assms(2) t] by (simp_all add: table_ok_def)
  then show ?thesis using fold_bt_remove_ok[of "tags t" "urr_tag_keys r"]
    by (intro resource_change(1)[OF assms(1,2) t _ _ _ _ _ _ q]) (simp_all add: set_tags_def)
qed (use assms(2) in \<open>auto simp: isl_def well_handled_refused\<close>)

lemma put_resource_policy_handled:
  assumes "json_object_text (serde_to_vec X)" "server_ok X s" "put_resource_policy X D E r s = (q, s')"
  shows "well_handled X s q s'"
proof (cases "isl q \<and> s' = s")
  case False
  then obtain n t where t: "find_resource s (prp_resource_arn r) = Inr (n, t)"
    and q: "save_or_undo X (fs E) (modify_table n (set_policy (resource_policy t) (resource_policy_revision t)))
        (Object [(''RevisionId'', String (resource_policy_revision_of X (prp_policy r)))])
        (mark_dirty n (modify_table n (set_policy (prp_policy r) (resource_policy_revision_of X (prp_policy r))) s)) = (q, s')"
    using assms(3) by (auto simp: put_resource_policy_def Let_def split: if_splits sum.splits prod.splits)
  show ?thesis using find_resource_Inr(2)[OF assms(2) t]
    by (intro resource_change(1)[OF assms(1,2) t _ _ _ _ _ _ q]) (simp_all add: set_policy_def table_ok_def)
qed (use assms(2) in \<open>auto simp: isl_def well_handled_refused\<close>)

lemma delete_resource_policy_handled:
  assumes "json_object_text (serde_to_vec X)" "server_ok X s" "delete_resource_policy X E arn s = (q, s')"
  shows "well_handled X s q s'"
proof (cases "isl q \<and> s' = s")
  case False
  then obtain n t where t: "find_resource s arn = Inr (n, t)"
    and q: "save_or_undo X (fs E) (modify_table n (set_policy (resource_policy t) (resource_policy_revision t))) (Object [])
        (mark_dirty n (modify_table n (set_policy [] []) s)) = (q, s')"
    using assms(3) by (auto simp: delete_resource_policy_def split: if_splits sum.splits prod.splits)
  show ?thesis using find_resource_Inr(2)[OF assms(2) t]
    by (intro resource_change(1)[OF assms(1,2) t _ _ _ _ _ _ q]) (simp_all add: set_policy_def table_ok_def)
qed (use assms(2) in \<open>auto simp: isl_def well_handled_refused\<close>)

section \<open>Round trip\<close>

text \<open>C25. A backup restores: a table restored from a backup, at any later time while the backup exists, has the items, the key
  schema and the attribute definitions that the source table had when the backup was made; no other table changes.\<close>

theorem backup_restores:
  assumes "json_object_text (serde_to_vec X)" "server_ok X s" "map_of (tables s) (cbr_table_name r) = Some t"
    "create_backup X E r s = (Inr v, s1)"
    "arn = bd_backup_arn (backup_details (backup_description_for_table (description t) (cbr_backup_name r) (now_unix E 0)))"
    "server_ok X s2" "map_of (backup_tables s2) arn = map_of (backup_tables s1) arn" "map_of (backup_items s2) arn = map_of (backup_items s1) arn"
    "restore_table_from_backup X E' \<lparr>rbr_backup_arn = arn, rbr_target_table_name = n\<rparr> s2 = (Inr w, s3)"
  shows "\<exists>u. map_of (tables s2) n = None \<and> map_of (tables s3) = (map_of (tables s2))(n \<mapsto> u) \<and> items u = items t
    \<and> key_schema (description u) = key_schema (description t) \<and> attribute_definitions (description u) = attribute_definitions (description t)"
  using create_backup_change(2)[OF assms(1,2,4) refl] restore_change(2)[OF assms(1,6,9) refl] assms(3,5,7,8)
  by (auto simp: bt_get_insert)

section \<open>Samples\<close>

definition users_backup :: create_backup_request where
  "users_backup = \<lparr>cbr_table_name = ''users'', cbr_backup_name = ''nightly''\<rparr>"

definition ann_table :: table_state where
  "ann_table = (case map_of (tables ann_db) ''users'' of Some t \<Rightarrow> t | None \<Rightarrow> table_state_new (empty_description
     (backup_description_for_table sample_table [] 0)))"

theorem backup_restores_witness:
  "case create_backup sample_ddb (env_at t0) users_backup ann_db of (_, s1) \<Rightarrow>
   case restore_table_from_backup sample_ddb (env_at t0) \<lparr>rbr_backup_arn = bd_backup_arn (backup_details
       (backup_description_for_table (description ann_table) ''nightly'' (now_unix (env_at t0) 0))),
     rbr_target_table_name = ''copy''\<rparr> s1 of (_, s3) \<Rightarrow>
   (\<exists>u. map_of (tables s3) = (map_of (tables s1))(''copy'' \<mapsto> u) \<and> items u = items ann_table)"
proof -
  let ?arn = "bd_backup_arn (backup_details (backup_description_for_table (description ann_table) ''nightly'' (now_unix (env_at t0) 0)))"
  let ?r = "\<lparr>rbr_backup_arn = ?arn, rbr_target_table_name = ''copy''\<rparr>"
  define b where "b = create_backup sample_ddb (env_at t0) users_backup ann_db"
  define c where "c = restore_table_from_backup sample_ddb (env_at t0) ?r (snd b)"
  have "\<not> isl (fst b)" "\<not> isl (fst c)" unfolding c_def b_def by code_simp+
  then obtain v w where "fst b = Inr v" "fst c = Inr w" by (metis sum.collapse(2))
  then have b: "create_backup sample_ddb (env_at t0) users_backup ann_db = (Inr v, snd b)"
    and c: "restore_table_from_backup sample_ddb (env_at t0) ?r (snd b) = (Inr w, snd c)"
    unfolding b_def[symmetric] c_def[symmetric] by (metis prod.collapse)+
  have ok: "server_ok sample_ddb (snd b)"
    using create_backup_change(1)[OF sample_ddb_objects ann_db_ok b] by (simp add: well_handled_def)
  have t: "map_of (tables ann_db) (cbr_table_name users_backup) = Some ann_table" by code_simp
  have arn: "?arn = bd_backup_arn (backup_details (backup_description_for_table (description ann_table)
      (cbr_backup_name users_backup) (now_unix (env_at t0) 0)))" by (simp add: users_backup_def)
  show ?thesis using backup_restores[OF sample_ddb_objects ann_db_ok t b arn ok refl refl c]
    unfolding b prod.case c by blast
qed

end
