(* ===== verification/Dynamo_Partiql.thy ===== *)
theory Dynamo_Partiql
  imports Dynamo_Backups
begin

text \<open>
  PartiQL (\<open>services/dynamodb/src/partiql.rs\<close>) and the three operations that run it (\<open>server.rs\<close>). Only \<open>SELECT\<close> with equality predicates is supported.
  The parser slices the statement at offsets found in its upper-case copy, so a slice can be out of
  range; \<open>None\<close> is the panic. For ASCII statements the panic is characterised exactly.
\<close>

section \<open>Parsing\<close>

record partiql_condition =
  pc_attribute :: string
  pc_value :: json

record partiql_select =
  psel_table_name :: string
  psel_projections :: "string list"
  psel_conditions :: "partiql_condition list"

definition quoted_by :: "char \<Rightarrow> string \<Rightarrow> bool" where
  "quoted_by q v \<longleftrightarrow> hd v = q \<and> last v = q"

definition trim_identifier :: "string \<Rightarrow> string" where
  "trim_identifier value =
     (let v = trim value in
      if length v \<ge> 2 \<and> (quoted_by (CHR 0x22) v \<or> quoted_by (CHR 0x27) v \<or> quoted_by (CHR 0x60) v)
      then butlast (tl v) else v)"

fun projection_names :: "string list \<Rightarrow> string list result" where
  "projection_names [] = Inr []"
| "projection_names (token # rest) =
     (let name = trim_identifier (trim token) in
      if name = [] then Inl ''invalid SELECT projection''
      else bind_res (projection_names rest) (\<lambda>ns. Inr (name # ns)))"

definition parse_projections :: "string \<Rightarrow> string list result" where
  "parse_projections value =
     (let v = trim value in
      if v = [] then Inl ''SELECT projection is required''
      else if v = ''*'' then Inr []
      else projection_names (split_on (\<lambda>c. c = CHR '','') v))"

fun partiql_split_and_loop :: "string list \<Rightarrow> string list \<Rightarrow> string list" where
  "partiql_split_and_loop current [] = (if current = [] then [] else [join '' '' current])"
| "partiql_split_and_loop current (field # rest) =
     (if eq_ignore_ascii_case field ''AND'' then join '' '' current # partiql_split_and_loop [] rest
      else partiql_split_and_loop (current @ [field]) rest)"

definition partiql_split_and :: "string \<Rightarrow> string list" where
  "partiql_split_and value = partiql_split_and_loop [] (split_whitespace value)"

fun where_conditions :: "string list \<Rightarrow> json list \<Rightarrow> partiql_condition list result" where
  "where_conditions [] parameters = (if parameters \<noteq> [] then Inl ''too many PartiQL parameters'' else Inr [])"
| "where_conditions (part # rest) parameters =
     (case split_once (CHR ''='') part of
        None \<Rightarrow> Inl ''WHERE supports equality predicates only''
      | Some (left, right) \<Rightarrow>
          let attribute = trim_identifier (trim left) in
          if attribute = [] then Inl ''invalid WHERE attribute''
          else if trim right \<noteq> ''?'' then Inl ''WHERE predicates must use positional parameters''
          else (case parameters of
                  [] \<Rightarrow> Inl ''missing PartiQL parameter''
                | p # ps \<Rightarrow> bind_res (where_conditions rest ps) (\<lambda>cs. Inr (\<lparr>pc_attribute = attribute, pc_value = p\<rparr> # cs))))"

definition parse_where :: "string \<Rightarrow> json list \<Rightarrow> partiql_condition list result" where
  "parse_where value parameters =
     (let v = trim value in
      if v = [] then (if parameters \<noteq> [] then Inl ''too many PartiQL parameters'' else Inr [])
      else where_conditions (partiql_split_and v) parameters)"

text \<open>The table name and the predicates after \<open>FROM\<close>.\<close>

definition split_where :: "ddb_crates \<Rightarrow> string \<Rightarrow> (string \<times> string) option" where
  "split_where X after_from =
     (case find_sub (to_uppercase X after_from) '' WHERE '' of
        None \<Rightarrow> Some (after_from, [])
      | Some i \<Rightarrow>
          (case (str_slice after_from 0 i, str_slice after_from (i + 7) (length after_from)) of
             (Some table_part, Some where_part) \<Rightarrow> Some (trim table_part, trim where_part)
           | _ \<Rightarrow> None))"

definition parse_select :: "ddb_crates \<Rightarrow> string \<Rightarrow> json list \<Rightarrow> partiql_select result option" where
  "parse_select X statement parameters =
     (let st = trim statement; st = trim (case strip_suffix st '';'' of Some t \<Rightarrow> t | None \<Rightarrow> st) in
      if st = [] then Some (Inl ''statement is required'')
      else let upper = to_uppercase X st in
      if \<not> starts_with upper ''SELECT '' then Some (Inl ''only SELECT statements are supported'')
      else case find_sub upper '' FROM '' of
        None \<Rightarrow> Some (Inl ''SELECT statement must include FROM'')
      | Some i \<Rightarrow>
          (case (str_slice st 7 i, str_slice st (i + 6) (length st)) of
             (Some projection_part, Some after_from) \<Rightarrow>
               (case split_where X (trim after_from) of
                  None \<Rightarrow> None
                | Some (table_raw, where_part) \<Rightarrow>
                    let n = trim_identifier table_raw in
                    Some (if n = [] then Inl ''table name is required''
                      else bind_res (parse_projections (trim projection_part)) (\<lambda>projections.
                        bind_res (parse_where where_part parameters) (\<lambda>conditions.
                          Inr \<lparr>psel_table_name = n, psel_projections = projections, psel_conditions = conditions\<rparr>))))
           | _ \<Rightarrow> None))"

section \<open>Evaluation\<close>

definition conditions_match :: "item \<Rightarrow> partiql_condition list \<Rightarrow> bool" where
  "conditions_match value conditions = list_all (\<lambda>c. map_of value (pc_attribute c) = Some (pc_value c)) conditions"

definition partiql_project_item :: "item \<Rightarrow> string list \<Rightarrow> item" where
  "partiql_project_item value projections =
     (if projections = [] then value
      else fold (\<lambda>n m. case map_of value n of Some a \<Rightarrow> bt_insert n a m | None \<Rightarrow> m) projections [])"

definition conditions_cover_key :: "table_description \<Rightarrow> partiql_condition list \<Rightarrow> bool" where
  "conditions_cover_key d conditions =
     list_all (\<lambda>e. attribute_name e \<in> pc_attribute ` set conditions) (key_schema d)"

section \<open>Operations\<close>

record execute_statement_request =
  esr_statement :: string
  esr_parameters :: "json list"
  esr_limit :: int
  esr_return_consumed_capacity :: string

record batch_statement_request =
  bsr_statement :: string
  bsr_parameters :: "json list"

fun select_items :: "partiql_select \<Rightarrow> int \<Rightarrow> nat \<Rightarrow> keyed_item list \<Rightarrow> item list" where
  "select_items st limit got [] = []"
| "select_items st limit got (c # rest) =
     (if \<not> conditions_match (ki_value c) (psel_conditions st) then select_items st limit got rest
      else partiql_project_item (ki_value c) (psel_projections st) #
        (if limit > 0 \<and> int (got + 1) = limit then [] else select_items st limit (got + 1) rest))"

definition execute_statement :: "ddb_crates \<Rightarrow> execute_statement_request \<Rightarrow> ddb_server \<Rightarrow> json api option" where
  "execute_statement X r s =
     map_option (\<lambda>q. bind_res (validated q) (\<lambda>st.
       bind_res (find_table s (psel_table_name st)) (\<lambda>t.
         let source = sorted_items_for_query X (items t) (description t) [] in
         Inr (Object (add_consumed_capacity (psel_table_name st) (esr_return_consumed_capacity r)
           [(''Items'', Array (map Object (select_items st (esr_limit r) 0 source)))])))))
     (parse_select X (esr_statement r) (esr_parameters r))"

definition statement_response :: "(string \<times> string) option \<Rightarrow> item option \<Rightarrow> string \<Rightarrow> json" where
  "statement_response err found n =
     Object ((case err of None \<Rightarrow> [] | Some (code, message) \<Rightarrow>
         [(''Error'', Object [(''Code'', String code), (''Message'', String message)])]) @
       (case found of None \<Rightarrow> [] | Some i \<Rightarrow> [(''Item'', Object i)]) @
       unless (n = []) ''TableName'' (String n))"

definition key_conditions_message :: string where
  "key_conditions_message = ''SELECT statement must include equality conditions for all key attributes''"

definition first_match :: "ddb_crates \<Rightarrow> table_state \<Rightarrow> partiql_select \<Rightarrow> item option" where
  "first_match X t st =
     map_option (\<lambda>c. partiql_project_item (ki_value c) (psel_projections st))
       (find (\<lambda>c. conditions_match (ki_value c) (psel_conditions st)) (sorted_items_for_query X (items t) (description t) []))"

fun batch_statements ::
  "ddb_crates \<Rightarrow> ddb_server \<Rightarrow> string \<Rightarrow> batch_statement_request list \<Rightarrow> json list \<Rightarrow> (json list \<times> json list) option" where
  "batch_statements X s mode [] consumed = Some ([], consumed)"
| "batch_statements X s mode (r # rest) consumed =
     (case parse_select X (bsr_statement r) (bsr_parameters r) of
        None \<Rightarrow> None
      | Some (Inl msg) \<Rightarrow>
          map_option (\<lambda>(rs, c). (statement_response (Some (''ValidationError'', msg)) None [] # rs, c)) (batch_statements X s mode rest consumed)
      | Some (Inr st) \<Rightarrow>
          let n = psel_table_name st;
              response = (case map_of (tables s) n of
                  None \<Rightarrow> statement_response (Some (''ResourceNotFound'', ''table not found'')) None n
                | Some t \<Rightarrow>
                    if \<not> conditions_cover_key (description t) (psel_conditions st)
                    then statement_response (Some (''ValidationError'', key_conditions_message)) None n
                    else statement_response None (first_match X t st) n) in
          map_option (\<lambda>(rs, c). (response # rs, c)) (batch_statements X s mode rest (append_batch_consumed_capacity n mode consumed)))"

definition batch_execute_statement ::
  "ddb_crates \<Rightarrow> batch_statement_request list \<Rightarrow> string \<Rightarrow> ddb_server \<Rightarrow> json api option" where
  "batch_execute_statement X statements mode s =
     (if statements = [] then Some (Inl (validation_error ''statements are required''))
      else if length statements > 25 then Some (Inl (validation_error ''statements must contain 25 or fewer entries''))
      else map_option (\<lambda>(responses, consumed). Inr (with_consumed consumed [(''Responses'', Array responses)]))
        (batch_statements X s mode statements []))"

fun transaction_statements ::
  "ddb_crates \<Rightarrow> ddb_server \<Rightarrow> string \<Rightarrow> batch_statement_request list \<Rightarrow> json list \<Rightarrow> (json list \<times> json list) api option" where
  "transaction_statements X s mode [] consumed = Some (Inr ([], consumed))"
| "transaction_statements X s mode (r # rest) consumed =
     (case parse_select X (bsr_statement r) (bsr_parameters r) of
        None \<Rightarrow> None
      | Some (Inl msg) \<Rightarrow> Some (Inl (validation_error msg))
      | Some (Inr st) \<Rightarrow>
          let n = psel_table_name st in
          (case find_table s n of
             Inl e \<Rightarrow> Some (Inl e)
           | Inr t \<Rightarrow>
               if \<not> conditions_cover_key (description t) (psel_conditions st)
               then Some (Inl (validation_error key_conditions_message))
               else map_option (\<lambda>q. bind_res q (\<lambda>(rs, c). Inr (statement_response None (first_match X t st) n # rs, c)))
                 (transaction_statements X s mode rest (append_batch_consumed_capacity n mode consumed))))"

definition execute_transaction ::
  "ddb_crates \<Rightarrow> batch_statement_request list \<Rightarrow> string \<Rightarrow> ddb_server \<Rightarrow> json api option" where
  "execute_transaction X statements mode s =
     (if statements = [] then Some (Inl (validation_error ''transaction statements are required''))
      else if length statements > 100 then Some (Inl (validation_error ''transaction statements must contain 100 or fewer entries''))
      else map_option (\<lambda>q. bind_res q (\<lambda>(responses, consumed). Inr (with_consumed consumed [(''Responses'', Array responses)])))
        (transaction_statements X s mode statements []))"

section \<open>Limits\<close>

lemma select_items_eq:
  "select_items st limit got source =
     map (\<lambda>c. partiql_project_item (ki_value c) (psel_projections st))
       (let found = filter (\<lambda>c. conditions_match (ki_value c) (psel_conditions st)) source in
        if limit > 0 \<and> int got < limit then take (nat limit - got) found else found)"
proof (induction source arbitrary: got)
  case (Cons c source)
  have "Suc (nat limit - Suc got) = nat limit - got" if "int got < limit" using that by linarith
  then show ?case using Cons.IH[of got] Cons.IH[of "Suc got"]
    by (cases "limit > 0 \<and> int got < limit"; cases "int (got + 1) = limit")
       (auto simp: Let_def take_Cons' dest!: arg_cong[where f = nat])
qed simp

section \<open>When parsing panics\<close>

definition bare_statement :: "string \<Rightarrow> string" where
  "bare_statement statement = (let st = trim statement in trim (case strip_suffix st '';'' of Some t \<Rightarrow> t | None \<Rightarrow> st))"

lemma ascii_trim: "is_ascii s \<Longrightarrow> is_ascii (trim s)"
  using trim_parts[of s] by (metis is_ascii_def list_all_append)

lemma ascii_bare: "is_ascii s \<Longrightarrow> is_ascii (bare_statement s)"
proof -
  assume "is_ascii s"
  then have "is_ascii (trim s)" by (rule ascii_trim)
  moreover from this have "is_ascii t" if "strip_suffix (trim s) '';'' = Some t" for t
    using that by (auto simp: strip_suffix_def is_ascii_def list_all_iff dest: in_set_takeD split: if_splits)
  ultimately show ?thesis by (auto simp: bare_statement_def Let_def intro!: ascii_trim split: option.splits)
qed

lemma ascii_str_slice: "is_ascii s \<Longrightarrow> b \<le> length s \<Longrightarrow> str_slice s a b = (if a \<le> b then Some (take (b - a) (drop a s)) else None)"
  by (simp add: str_slice_def ascii_boundary)

lemma ascii_drop: "is_ascii s \<Longrightarrow> is_ascii (drop n s)"
  by (auto simp: is_ascii_def list_all_iff dest: in_set_dropD)

lemma length_uppercase: "is_ascii s \<Longrightarrow> length (to_uppercase X s) = length s"
  by (simp add: to_uppercase_def to_ascii_uppercase_def)

lemma split_where_total: "is_ascii s \<Longrightarrow> \<exists>p. split_where X s = Some p"
  using find_sub_bound[of "to_uppercase X s" "'' WHERE ''"]
  by (auto simp: split_where_def ascii_str_slice length_uppercase split: option.splits)

lemma select_from:
  assumes "starts_with u ''SELECT ''" "find_sub u '' FROM '' = Some i"
  shows "6 \<le> i" "i = 6 \<longleftrightarrow> starts_with u ''SELECT FROM ''"
proof -
  obtain v where u: "u = ''SELECT '' @ v" using assms(1) unfolding starts_with_iff by blast
  have occ: "occurs u '' FROM '' i" "\<And>j. j < i \<Longrightarrow> \<not> occurs u '' FROM '' j" using find_sub_Some[OF assms(2)] by auto
  show "6 \<le> i"
  proof (rule ccontr)
    assume "\<not> 6 \<le> i"
    then have "i \<in> {0, 1, 2, 3, 4, 5}" by auto
    then show False using occ(1) unfolding u occurs_def starts_with_iff by (elim insertE) simp_all
  qed
  moreover have "occurs u '' FROM '' 6 \<longleftrightarrow> starts_with u ''SELECT FROM ''"
    unfolding occurs_def starts_with_iff u by simp
  ultimately show "i = 6 \<longleftrightarrow> starts_with u ''SELECT FROM ''" using occ by (metis le_neq_implies_less)
qed

lemma parse_select_None:
  assumes "is_ascii statement"
  shows "parse_select X statement parameters = None \<longleftrightarrow> starts_with (to_ascii_uppercase (bare_statement statement)) ''SELECT FROM ''"
proof -
  let ?s = "bare_statement statement" and ?u = "to_ascii_uppercase (bare_statement statement)"
  have s: "is_ascii ?s" using assms by (rule ascii_bare)
  have u: "to_uppercase X ?s = ?u" using s by (simp add: to_uppercase_def)
  have len: "length ?u = length ?s" by (simp add: to_ascii_uppercase_def)
  have from_select: "starts_with ?u ''SELECT ''" "?s \<noteq> []" if "starts_with ?u ''SELECT FROM ''"
    using that len unfolding starts_with_iff by (auto simp: to_ascii_uppercase_def)
  show ?thesis
  proof (cases "?s = [] \<or> \<not> starts_with ?u ''SELECT ''")
    case True
    then show ?thesis using from_select unfolding parse_select_def Let_def bare_statement_def[unfolded Let_def, symmetric] u by auto
  next
    case False
    show ?thesis
    proof (cases "find_sub ?u '' FROM ''")
      case None
      then have "\<not> occurs ?u '' FROM '' 6" by (rule find_sub_None)
      then have "\<not> starts_with ?u ''SELECT FROM ''" unfolding starts_with_iff occurs_def by auto
      then show ?thesis using False None unfolding parse_select_def Let_def bare_statement_def[unfolded Let_def, symmetric] u by simp
    next
      case (Some i)
      have i: "i + 6 \<le> length ?s" using find_sub_bound[OF Some] len by simp
      note six = select_from[OF _ Some]
      obtain p where "split_where X (trim (drop (i + 6) ?s)) = Some p"
        using split_where_total[OF ascii_trim[OF ascii_drop[OF s]]] by blast
      then show ?thesis using False Some i six s
        unfolding parse_select_def Let_def bare_statement_def[unfolded Let_def, symmetric] u
        by (cases p) (auto simp: ascii_str_slice)
    qed
  qed
qed

text \<open>On an ASCII statement the parser panics exactly when the statement begins with \<open>SELECT FROM\<close>: the slice for
  the projections then ends before it starts. Every other ASCII statement is answered with a result or an error.\<close>

theorem parse_select_panics:
  assumes "is_ascii statement"
  shows "parse_select X statement parameters = None \<longleftrightarrow> starts_with (to_ascii_uppercase (bare_statement statement)) ''SELECT FROM ''"
  using assms by (rule parse_select_None)

theorem parse_select_panics_witness: "parse_select sample_ddb ''select from users'' [] = None"
proof -
  have "is_ascii ''select from users''" by code_simp
  moreover have "starts_with (to_ascii_uppercase (bare_statement ''select from users'')) ''SELECT FROM ''" by code_simp
  ultimately show ?thesis using parse_select_panics by blast
qed

end
