(* ===== verification/Base64_Url.thy ===== *)
theory Base64_Url
  imports Rust_Prelude
begin

unbundle bit_operations_syntax

text \<open>
  The unpadded base64url codec of the DynamoDB shard iterators (\<open>services/dynamodb/src/streams.rs\<close>), on \<open>u32\<close> words as
  the code has it, and its round trip.
\<close>

section \<open>The codec\<close>

type_synonym u32 = "32 word"

definition ALPHABET :: string where
  "ALPHABET = ''ABCDEFGHIJKLMNOPQRSTUVWXYZabcdefghijklmnopqrstuvwxyz0123456789-_''"

definition byte_u32 :: "char \<Rightarrow> u32" where
  "byte_u32 c = of_nat (ascii c)"

definition sextet :: "u32 \<Rightarrow> nat \<Rightarrow> char" where
  "sextet n k = ALPHABET ! unat (drop_bit k n AND 63)"

definition pack :: "u32 \<Rightarrow> u32 \<Rightarrow> u32 \<Rightarrow> u32" where
  "pack b0 b1 b2 = (push_bit 16 b0 OR push_bit 8 b1) OR b2"

fun base64url_encode :: "string \<Rightarrow> string" where
  "base64url_encode [] = []"
| "base64url_encode [a] = (let n = pack (byte_u32 a) 0 0 in [sextet n 18, sextet n 12])"
| "base64url_encode [a, b] = (let n = pack (byte_u32 a) (byte_u32 b) 0 in [sextet n 18, sextet n 12, sextet n 6])"
| "base64url_encode (a # b # c # rest) =
     (let n = pack (byte_u32 a) (byte_u32 b) (byte_u32 c) in
      [sextet n 18, sextet n 12, sextet n 6, sextet n 0] @ base64url_encode rest)"

definition base64_val :: "char \<Rightarrow> u32 option" where
  "base64_val c =
     (if is_ascii_uppercase c then Some (of_nat (ascii c - ascii CHR ''A''))
      else if is_ascii_lowercase c then Some (of_nat (ascii c - ascii CHR ''a'' + 26))
      else if is_ascii_digit c then Some (of_nat (ascii c - ascii CHR ''0'' + 52))
      else if c = CHR ''-'' then Some 62
      else if c = CHR ''_'' then Some 63
      else None)"

fun accumulate :: "u32 \<Rightarrow> string \<Rightarrow> u32 option" where
  "accumulate n [] = Some n"
| "accumulate n (c # cs) = (case base64_val c of None \<Rightarrow> None | Some v \<Rightarrow> accumulate (push_bit 6 n OR v) cs)"

definition byte_at :: "u32 \<Rightarrow> nat \<Rightarrow> char" where
  "byte_at n k = char_of (unat (drop_bit k n))"

definition decode_chunk :: "string \<Rightarrow> string option" where
  "decode_chunk chunk =
     (if length chunk = 1 then None
      else case accumulate 0 chunk of None \<Rightarrow> None | Some m \<Rightarrow>
        let n = push_bit (6 * (4 - length chunk)) m in
        Some ([byte_at n 16] @ (if length chunk > 2 then [byte_at n 8] else []) @ (if length chunk > 3 then [byte_at n 0] else [])))"

fun base64url_decode :: "string \<Rightarrow> string option" where
  "base64url_decode [] = Some []"
| "base64url_decode (a # b # c # d # rest) =
     (case decode_chunk [a, b, c, d] of None \<Rightarrow> None | Some bs \<Rightarrow> map_option (\<lambda>ds. bs @ ds) (base64url_decode rest))"
| "base64url_decode chunk = decode_chunk chunk"

section \<open>Words as numbers\<close>

lemma unat_two_power: "k < 32 \<Longrightarrow> unat (2 ^ k :: u32) = 2 ^ k"
proof -
  assume "k < 32"
  then have "(2::nat) ^ k < 2 ^ 32" by (intro power_strict_increasing) simp_all
  then show "unat (2 ^ k :: u32) = 2 ^ k" using unat_of_nat[where ?'a = 32, of "2 ^ k"] by simp
qed

lemma shift_or:
  fixes n v :: u32
  assumes "unat v < 2 ^ k" "unat n * 2 ^ k + unat v < 2 ^ 32" "k < 32"
  shows "unat (push_bit k n OR v) = unat n * 2 ^ k + unat v"
proof -
  have "take_bit k v = v" using assms(1,3) by (simp add: take_bit_eq_mod word_unat_eq_iff unat_mod unat_two_power)
  then have "push_bit k n AND v = 0" by (metis (no_types, lifting) bit_eq_iff bit_0_eq bit_and_iff bit_push_bit_iff bit_take_bit_iff bot_apply bot_bool_def leD)
  then have "push_bit k n OR v = push_bit k n + v" by (simp add: disjunctive_add_eq_or)
  moreover have "unat (push_bit k n) = unat n * 2 ^ k" using assms(2,3) by (simp add: push_bit_eq_mult unat_word_ariths unat_two_power)
  ultimately show ?thesis using assms(2) by (simp add: unat_word_ariths)
qed

lemma unat_byte: "unat (byte_u32 c) = ascii c" "ascii c < 256"
proof -
  show "ascii c < 256" using nat_of_char_less_256[of c] by (simp add: ascii_def)
  then show "unat (byte_u32 c) = ascii c" by (simp add: byte_u32_def unat_of_nat)
qed

lemma unat_pack:
  assumes "unat b0 < 256" "unat b1 < 256" "unat b2 < 256"
  shows "unat (pack b0 b1 b2) = (unat b0 * 256 + unat b1) * 256 + unat b2"
proof -
  have "pack b0 b1 b2 = push_bit 8 (push_bit 8 b0 OR b1) OR b2" by (simp add: pack_def push_bit_or)
  moreover have "unat (push_bit 8 b0 OR b1) = unat b0 * 256 + unat b1" using assms by (subst shift_or) simp_all
  ultimately show ?thesis using assms shift_or[of b2 8 "push_bit 8 b0 OR b1"] by simp
qed

lemma unat_sextet: "unat (drop_bit k n AND 63) = unat n div 2 ^ k mod 64" for n :: u32
proof -
  have "drop_bit k n AND 63 = take_bit 6 (drop_bit k n)" by (simp add: take_bit_eq_mask mask_eq_exp_minus_1)
  then show ?thesis by (simp only: take_bit_eq_mod unat_mod unat_drop_bit_eq) (simp add: drop_bit_eq_div)
qed

text \<open>A digit of the alphabet has its position as its value.\<close>

lemma base64_val_ALPHABET: "i < 64 \<Longrightarrow> base64_val (ALPHABET ! i) = Some (of_nat i)"
proof -
  have "list_all (\<lambda>i. base64_val (ALPHABET ! i) = Some (of_nat i)) [0..<64]" by code_simp
  then show "i < 64 \<Longrightarrow> base64_val (ALPHABET ! i) = Some (of_nat i)" by (simp add: list_all_iff)
qed

lemma base64_val_sextet: "\<exists>v. base64_val (sextet n k) = Some v \<and> unat v = unat n div 2 ^ k mod 64"
  using base64_val_ALPHABET[of "unat n div 2 ^ k mod 64"] by (simp add: sextet_def unat_sextet unat_of_nat)

lemma byte_at_unat: "byte_at n k = char_of (unat n div 2 ^ k)"
  by (simp only: byte_at_def unat_drop_bit_eq) (simp only: drop_bit_eq_div)

section \<open>Round trip\<close>

lemma accumulate_sextets:
  "(unat m + 1) * 64 ^ length ks \<le> 2 ^ 32 \<Longrightarrow>
   \<exists>m'. accumulate m (map (sextet n) ks) = Some m' \<and> unat m' = foldl (\<lambda>a k. a * 64 + unat n div 2 ^ k mod 64) (unat m) ks"
proof (induction ks arbitrary: m)
  case (Cons k ks)
  obtain v where v: "base64_val (sextet n k) = Some v" "unat v = unat n div 2 ^ k mod 64" using base64_val_sextet by blast
  have b: "unat v < 64" using v(2) by simp
  have "(unat m * 64 + unat v + 1) * 64 ^ length ks \<le> (unat m + 1) * 64 * 64 ^ length ks"
    using b by (intro mult_right_mono) simp_all
  also have "\<dots> = (unat m + 1) * 64 ^ length (k # ks)" by (simp add: algebra_simps)
  also note Cons.prems
  finally have bound: "(unat m * 64 + unat v + 1) * 64 ^ length ks \<le> 2 ^ 32" .
  have "1 \<le> (64::nat) ^ length ks" by simp
  from mult_le_mono2[OF this, of "unat m * 64 + unat v + 1"]
  have "unat m * 64 + unat v + 1 \<le> (unat m * 64 + unat v + 1) * 64 ^ length ks" by (simp only: mult_1_right)
  with bound have "unat (push_bit 6 m OR v) = unat m * 64 + unat v" using b by (subst shift_or) simp_all
  with Cons.IH[of "push_bit 6 m OR v"] bound v show ?case by simp
qed simp

lemma split_sextet: "N div 2 ^ (k + 6) * 64 + N div 2 ^ k mod 64 = N div 2 ^ k" for N :: nat
  using div_mult_mod_eq[of "N div 2 ^ k" 64] by (simp add: power_add div_mult2_eq)

lemma sextets_value:
  fixes N :: nat
  assumes "N < 2 ^ 24" "j \<in> {2, 3, 4}"
  shows "foldl (\<lambda>a k. a * 64 + N div 2 ^ k mod 64) 0 (take j [18, 12, 6, 0]) = N div 2 ^ (6 * (4 - j))"
proof -
  have "N div 2 ^ 18 mod 64 = N div 2 ^ 18" using assms(1) by (simp add: less_mult_imp_div_less)
  moreover note split_sextet[of N 12] split_sextet[of N 6] split_sextet[of N 0]
  ultimately show ?thesis using assms(2) by auto
qed

text \<open>Decoding the digits of a 24-bit group gives the group back.\<close>

lemma decode_word_group:
  assumes "unat n < 2 ^ 24" "j \<in> {2, 3, 4}" "2 ^ (6 * (4 - j)) dvd unat n"
  shows "decode_chunk (map (sextet n) (take j [18, 12, 6, 0])) = Some (take (j - 1) [byte_at n 16, byte_at n 8, byte_at n 0])"
proof -
  let ?ks = "take j [18, 12, 6, 0 :: nat]" and ?k = "6 * (4 - j)"
  have j: "length ?ks = j" using assms(2) by auto
  have "(unat (0::u32) + 1) * 64 ^ length ?ks \<le> 2 ^ 32" using assms(2) by auto
  from accumulate_sextets[OF this] obtain m where m: "accumulate 0 (map (sextet n) ?ks) = Some m" "unat m = unat n div 2 ^ ?k"
    using sextets_value[OF assms(1,2)] by (metis unat_0)
  have "unat m * 2 ^ ?k = unat n" using m(2) assms(3) by simp
  then have "unat (push_bit ?k m OR 0) = unat n" using assms(1,2) by (subst shift_or) auto
  then have "push_bit ?k m = n" by (simp add: word_unat_eq_iff)
  then show ?thesis using assms(2) m(1) j by (auto simp: decode_chunk_def)
qed

lemma packed_bytes:
  fixes a b c :: char
  defines "n \<equiv> pack (byte_u32 a) (byte_u32 b) (byte_u32 c)"
  shows "unat n = (ascii a * 256 + ascii b) * 256 + ascii c" "unat n < 2 ^ 24" "byte_at n 16 = a" "byte_at n 8 = b" "byte_at n 0 = c"
proof -
  note small = unat_byte(2)[of a] unat_byte(2)[of b] unat_byte(2)[of c]
  show N: "unat n = (ascii a * 256 + ascii b) * 256 + ascii c" using unat_byte small unfolding n_def by (subst unat_pack) auto
  then show "unat n < 2 ^ 24" using small by simp
  have char: "char_of (ascii x) = x" "char_of (y * 256 + ascii x) = x" for x y
    using char_of_mod_256[of "y * 256 + ascii x"] unat_byte(2)[of x] by (simp_all add: ascii_def)
  have "unat n div 2 ^ 16 = ascii a" "unat n div 2 ^ 8 = ascii a * 256 + ascii b" "unat n div 2 ^ 0 = (ascii a * 256 + ascii b) * 256 + ascii c"
    using N small by (simp_all; linarith)+
  then show "byte_at n 16 = a" "byte_at n 8 = b" "byte_at n 0 = c" by (simp_all only: byte_at_unat char)
qed

lemma zero_byte: "(0::u32) = byte_u32 (CHR 0x00)" "ascii (CHR 0x00) = 0"
  by (simp_all add: byte_u32_def ascii_def)

lemma base64url_decode_encode: "base64url_decode (base64url_encode bs) = Some bs"
proof (induction bs rule: base64url_encode.induct)
  case (2 a)
  let ?n = "pack (byte_u32 a) (byte_u32 (CHR 0x00)) (byte_u32 (CHR 0x00))"
  have "2 ^ 12 dvd unat ?n" by (simp add: packed_bytes(1) zero_byte)
  then have "decode_chunk (map (sextet ?n) (take 2 [18, 12, 6, 0])) = Some [a]"
    using decode_word_group[OF packed_bytes(2), of 2] by (simp add: packed_bytes(3))
  then show ?case by (simp add: Let_def zero_byte(1)[symmetric])
next
  case (3 a b)
  let ?n = "pack (byte_u32 a) (byte_u32 b) (byte_u32 (CHR 0x00))"
  have "2 ^ 6 dvd unat ?n" by (simp add: packed_bytes(1) zero_byte)
  then have "decode_chunk (map (sextet ?n) (take 3 [18, 12, 6, 0])) = Some [a, b]"
    using decode_word_group[OF packed_bytes(2), of 3] by (simp add: packed_bytes(3,4))
  then show ?case by (simp add: Let_def zero_byte(1)[symmetric])
next
  case (4 a b c rest)
  let ?n = "pack (byte_u32 a) (byte_u32 b) (byte_u32 c)"
  have "decode_chunk (map (sextet ?n) (take 4 [18, 12, 6, 0])) = Some [a, b, c]"
    using decode_word_group[OF packed_bytes(2), of 4] by (simp add: packed_bytes(3-5))
  with 4 show ?case by (simp add: Let_def)
qed simp

text \<open>Any bytes survive the base64url codec: decoding what was encoded gives them back.\<close>

theorem base64url_round_trip: "base64url_decode (base64url_encode bs) = Some bs"
  by (rule base64url_decode_encode)

end
