(* ===== verification/Dynamo_Streams.thy ===== *)
theory Dynamo_Streams
  imports Dynamo_Partiql Base64_Url
begin

text \<open>
  DynamoDB streams: the shard iterator (\<open>services/dynamodb/src/streams.rs\<close>) and the four read operations (\<open>server.rs\<close>). A table has
  one shard. An iterator is the base64url text of a JSON object; decoding that object is \<open>serde\<close>'s and
  the parameter \<open>P\<close>. Reading page after page is shown to give the records in order, each once.
\<close>

section \<open>Iterators\<close>

record stream_iterator =
  sit_stream_arn :: string
  sit_shard_id :: string
  sit_position :: int

definition iterator_json :: "stream_iterator \<Rightarrow> json" where
  "iterator_json it = Object [(''streamArn'', String (sit_stream_arn it)), (''shardId'', String (sit_shard_id it)),
     (''position'', num (sit_position it))]"

definition encode_iterator :: "ddb_crates \<Rightarrow> stream_iterator \<Rightarrow> string" where
  "encode_iterator X it = base64url_encode (marshal X (iterator_json it))"

definition decode_iterator :: "(string \<Rightarrow> stream_iterator result) \<Rightarrow> string \<Rightarrow> stream_iterator result" where
  "decode_iterator P value =
     bind_res (or_else (base64url_decode value) ''invalid base64'') (\<lambda>payload.
     bind_res (P payload) (\<lambda>it.
       if sit_stream_arn it = [] \<or> sit_shard_id it = [] then Inl ''invalid stream iterator'' else Inr it))"

section \<open>Operations\<close>

record list_streams_request =
  lsr_table_name :: string
  lsr_exclusive_start_stream_arn :: string
  lsr_limit :: int

record describe_stream_request =
  dsr_stream_arn :: string
  dsr_exclusive_start_shard_id :: string
  dsr_limit :: int

record get_shard_iterator_request =
  gsr_stream_arn :: string
  gsr_shard_id :: string
  gsr_shard_iterator_type :: string
  gsr_sequence_number :: string

record get_records_request =
  grr_shard_iterator :: string
  grr_limit :: int

definition stream_enabled :: "table_description \<Rightarrow> bool" where
  "stream_enabled d = (case stream_spec d of Some spec \<Rightarrow> stream_enabled_flag spec | None \<Rightarrow> False)"

record stream_summary =
  ss_stream_arn :: string
  ss_stream_label :: string
  ss_table_name :: string

definition stream_summaries :: "string \<Rightarrow> ddb_server \<Rightarrow> stream_summary list" where
  "stream_summaries n s =
     sort_by (\<lambda>a b. if ss_table_name a = ss_table_name b then cmp (ss_stream_arn a) (ss_stream_arn b)
                    else cmp (ss_table_name a) (ss_table_name b))
       (map (\<lambda>d. \<lparr>ss_stream_arn = latest_stream_arn d, ss_stream_label = latest_stream_label d, ss_table_name = table_name d\<rparr>)
         (filter (\<lambda>d. (n = [] \<or> table_name d = n) \<and> latest_stream_arn d \<noteq> [] \<and> stream_enabled d)
           (map (\<lambda>(_, t). description t) (tables s))))"

definition stream_summary_json :: "stream_summary \<Rightarrow> json" where
  "stream_summary_json x = Object [(''StreamArn'', String (ss_stream_arn x)), (''StreamLabel'', String (ss_stream_label x)),
     (''TableName'', String (ss_table_name x))]"

definition list_streams :: "list_streams_request \<Rightarrow> ddb_server \<Rightarrow> json api" where
  "list_streams r s =
     (if lsr_limit r < 0 \<or> lsr_limit r > 100 then Inl (validation_error ''limit must be between 1 and 100'')
      else if lsr_table_name r \<noteq> [] \<and> \<not> bt_contains (tables s) (lsr_table_name r) then Inl (not_found ''table not found'')
      else let streams = stream_summaries (lsr_table_name r) s; start_arn = lsr_exclusive_start_stream_arn r in
        bind_res (if start_arn = [] then Inr 0
                  else (case position (\<lambda>x. ss_stream_arn x = start_arn) streams of
                          Some i \<Rightarrow> Inr (i + 1)
                        | None \<Rightarrow> Inl (validation_error ''exclusive start stream arn does not exist''))) (\<lambda>start.
          case page_of start (lsr_limit r) streams of (page, has_more) \<Rightarrow>
            Inr (Object (unless (\<not> has_more) ''LastEvaluatedStreamArn'' (String (ss_stream_arn (last page))) @
              [(''Streams'', Array (map stream_summary_json page))]))))"

definition SHARD_ID :: string where
  "SHARD_ID = ''shardId-000000000000''"

definition stream_description_for_table :: "table_description \<Rightarrow> json" where
  "stream_description_for_table d =
     Object ([(''CreationRequestDateTime'', num (creation_date_time d))] @
       unless (key_schema d = []) ''KeySchema'' (key_schema_json (key_schema d)) @
       [(''Shards'', Array [Object [(''SequenceNumberRange'', Object [(''StartingSequenceNumber'', String ''0'')]),
           (''ShardId'', String SHARD_ID)]]),
        (''StreamArn'', String (latest_stream_arn d)), (''StreamLabel'', String (latest_stream_label d)),
        (''StreamStatus'', String ''ENABLED''),
        (''StreamViewType'', String (case stream_spec d of Some spec \<Rightarrow> stream_view_type spec | None \<Rightarrow> [])),
        (''TableName'', String (table_name d))])"

definition table_for_stream :: "ddb_server \<Rightarrow> string \<Rightarrow> table_state option" where
  "table_for_stream s arn =
     find (\<lambda>t. latest_stream_arn (description t) = arn \<and> stream_enabled (description t)) (map snd (tables s))"

definition stream_shard_exists :: "ddb_server \<Rightarrow> string \<Rightarrow> string \<Rightarrow> bool" where
  "stream_shard_exists s arn shard \<longleftrightarrow> table_for_stream s arn \<noteq> None \<and> shard = SHARD_ID"

definition describe_stream :: "describe_stream_request \<Rightarrow> ddb_server \<Rightarrow> json api" where
  "describe_stream r s =
     (if dsr_stream_arn r = [] then Inl (validation_error ''stream arn is required'')
      else if dsr_limit r < 0 \<or> dsr_limit r > 100 then Inl (validation_error ''limit must be between 1 and 100'')
      else if dsr_exclusive_start_shard_id r \<noteq> [] then Inl (validation_error ''exclusive start shard id does not exist'')
      else bind_res (or_else (table_for_stream s (dsr_stream_arn r)) (not_found ''stream not found'')) (\<lambda>t.
        Inr (Object [(''StreamDescription'', stream_description_for_table (description t))])))"

definition stream_position_for_sequence :: "ddb_server \<Rightarrow> string \<Rightarrow> string \<Rightarrow> bool \<Rightarrow> int option" where
  "stream_position_for_sequence s arn sequence after =
     Option.bind (table_for_stream s arn) (\<lambda>t.
       map_option (\<lambda>i. if after then int i + 1 else int i)
         (position (\<lambda>r. sequence_number (sr_dynamodb r) = sequence) (stream_records t)))"

definition needs_sequence :: "string \<Rightarrow> bool" where
  "needs_sequence kind \<longleftrightarrow> kind \<in> {''AT_SEQUENCE_NUMBER'', ''AFTER_SEQUENCE_NUMBER''}"

definition shard_position :: "get_shard_iterator_request \<Rightarrow> ddb_server \<Rightarrow> int api" where
  "shard_position r s =
     (let kind = gsr_shard_iterator_type r; arn = gsr_stream_arn r in
      if needs_sequence kind then
        or_else (stream_position_for_sequence s arn (gsr_sequence_number r) (kind = ''AFTER_SEQUENCE_NUMBER''))
          (api_error_new 400 ''TrimmedDataAccessException'' ''sequence number is invalid'')
      else Inr (if kind = ''LATEST'' then (case table_for_stream s arn of Some t \<Rightarrow> int (length (stream_records t)) | None \<Rightarrow> 0) else 0))"

definition get_shard_iterator :: "ddb_crates \<Rightarrow> get_shard_iterator_request \<Rightarrow> ddb_server \<Rightarrow> json api" where
  "get_shard_iterator X r s =
     (let kind = gsr_shard_iterator_type r in
      if gsr_stream_arn r = [] then Inl (validation_error ''stream arn is required'')
      else if gsr_shard_id r = [] then Inl (validation_error ''shard id is required'')
      else if kind = [] then Inl (validation_error ''shard iterator type is required'')
      else if \<not> (needs_sequence kind \<or> kind \<in> {''TRIM_HORIZON'', ''LATEST''}) then Inl (validation_error ''unsupported shard iterator type'')
      else if needs_sequence kind \<and> gsr_sequence_number r = [] then Inl (validation_error ''sequence number is required'')
      else if \<not> stream_shard_exists s (gsr_stream_arn r) (gsr_shard_id r) then Inl (not_found ''stream shard not found'')
      else bind_res (shard_position r s) (\<lambda>p.
        Inr (Object [(''ShardIterator'', String (encode_iterator X
          \<lparr>sit_stream_arn = gsr_stream_arn r, sit_shard_id = gsr_shard_id r, sit_position = p\<rparr>))])))"

definition stream_records_from :: "ddb_server \<Rightarrow> string \<Rightarrow> int \<Rightarrow> int \<Rightarrow> stream_record list" where
  "stream_records_from s arn pos limit =
     (case table_for_stream s arn of
        None \<Rightarrow> []
      | Some t \<Rightarrow>
          let len = int (length (stream_records t)) in
          if pos \<ge> len then []
          else let start = max pos 0; effective_limit = (if limit \<le> 0 \<or> limit > 1000 then 1000 else limit);
                   end' = min (start + effective_limit) len in
            take (nat (end' - start)) (drop (nat start) (stream_records t)))"

definition records_response :: "string \<Rightarrow> stream_record list \<Rightarrow> json" where
  "records_response next_iterator rs = Object [(''NextShardIterator'', String next_iterator), (''Records'', Array (map stream_record_json rs))]"

definition get_records :: "ddb_crates \<Rightarrow> (string \<Rightarrow> stream_iterator result) \<Rightarrow> get_records_request \<Rightarrow> ddb_server \<Rightarrow> json api" where
  "get_records X P r s =
     (if grr_shard_iterator r = [] then Inl (validation_error ''shard iterator is required'')
      else if grr_limit r < 0 \<or> grr_limit r > 1000 then Inl (validation_error ''limit must be between 1 and 1000'')
      else case decode_iterator P (grr_shard_iterator r) of
        Inl _ \<Rightarrow> Inl (api_error_new 400 ''TrimmedDataAccessException'' ''shard iterator is invalid'')
      | Inr it \<Rightarrow>
          if \<not> stream_shard_exists s (sit_stream_arn it) (sit_shard_id it) then Inl (not_found ''stream shard not found'')
          else let rs = stream_records_from s (sit_stream_arn it) (sit_position it) (grr_limit r) in
            Inr (records_response (encode_iterator X (it\<lparr>sit_position := sit_position it + int (length rs)\<rparr>)) rs))"

section \<open>Paging\<close>

lemma decode_encode_iterator:
  "P (marshal X (iterator_json it)) = Inr it \<Longrightarrow> sit_stream_arn it \<noteq> [] \<Longrightarrow> sit_shard_id it \<noteq> [] \<Longrightarrow>
   decode_iterator P (encode_iterator X it) = Inr it"
  using base64url_decode_encode[of "marshal X (iterator_json it)"] by (simp add: decode_iterator_def encode_iterator_def or_else_def)

lemma encode_nonempty: "bs \<noteq> [] \<Longrightarrow> base64url_encode bs \<noteq> []"
  by (induction bs rule: base64url_encode.induct) (simp_all add: Let_def)

lemma marshal_object_nonempty: "json_object_text (serde_to_vec X) \<Longrightarrow> marshal X (Object es) \<noteq> []"
  by (simp add: marshal_def json_object_text.escaped_object)

definition shard_at :: "string \<Rightarrow> nat \<Rightarrow> stream_iterator" where
  "shard_at arn p = \<lparr>sit_stream_arn = arn, sit_shard_id = SHARD_ID, sit_position = int p\<rparr>"

lemma records_page:
  assumes "table_for_stream s arn = Some t" "1 \<le> limit" "limit \<le> 1000"
  shows "stream_records_from s arn (int p) (int limit) = take limit (drop p (stream_records t))"
  using assms by (auto simp: stream_records_from_def Let_def min_def nat_diff_distrib nat_add_distrib)

lemma get_records_page:
  assumes "table_for_stream s arn = Some t" "arn \<noteq> []" "1 \<le> limit" "limit \<le> 1000"
    "P (marshal X (iterator_json (shard_at arn p))) = Inr (shard_at arn p)" "json_object_text (serde_to_vec X)"
  shows "get_records X P \<lparr>grr_shard_iterator = encode_iterator X (shard_at arn p), grr_limit = int limit\<rparr> s =
    Inr (let rs = take limit (drop p (stream_records t)) in records_response (encode_iterator X (shard_at arn (p + length rs))) rs)"
proof -
  have d: "decode_iterator P (encode_iterator X (shard_at arn p)) = Inr (shard_at arn p)"
    using assms(2,5) by (intro decode_encode_iterator) (simp_all add: shard_at_def SHARD_ID_def)
  have "encode_iterator X (shard_at arn p) \<noteq> []" 
    using encode_nonempty[OF marshal_object_nonempty[OF assms(6)]] by (simp add: encode_iterator_def iterator_json_def)
  moreover have "stream_shard_exists s arn SHARD_ID" using assms(1) by (simp add: stream_shard_exists_def)
  moreover have "(shard_at arn p)\<lparr>sit_position := int p + int k\<rparr> = shard_at arn (p + k)" for k by (simp add: shard_at_def)
  moreover have "sit_stream_arn (shard_at arn p) = arn" "sit_shard_id (shard_at arn p) = SHARD_ID" "sit_position (shard_at arn p) = int p"
    by (simp_all add: shard_at_def)
  ultimately show ?thesis using assms(3,4) d by (simp add: get_records_def Let_def records_page[OF assms(1,3,4)])
qed

text \<open>A client that follows the iterators of the answers.\<close>

fun read_pages :: "ddb_crates \<Rightarrow> (string \<Rightarrow> stream_iterator result) \<Rightarrow> ddb_server \<Rightarrow> int \<Rightarrow> nat \<Rightarrow> string \<Rightarrow> json list option" where
  "read_pages X P s limit 0 it = Some []"
| "read_pages X P s limit (Suc k) it =
     (case get_records X P \<lparr>grr_shard_iterator = it, grr_limit = limit\<rparr> s of
        Inl _ \<Rightarrow> None
      | Inr (Object es) \<Rightarrow>
          (case (map_of es ''NextShardIterator'', map_of es ''Records'') of
             (Some (String next_it), Some (Array rs)) \<Rightarrow> map_option (\<lambda>more. rs @ more) (read_pages X P s limit k next_it)
           | _ \<Rightarrow> None)
      | Inr _ \<Rightarrow> None)"

lemma read_pages_from:
  assumes "table_for_stream s arn = Some t" "arn \<noteq> []" "1 \<le> limit" "limit \<le> 1000" "json_object_text (serde_to_vec X)"
    "\<forall>p \<le> length (stream_records t). P (marshal X (iterator_json (shard_at arn p))) = Inr (shard_at arn p)"
  shows "p \<le> length (stream_records t) \<Longrightarrow> read_pages X P s (int limit) k (encode_iterator X (shard_at arn p)) =
    Some (map stream_record_json (take (k * limit) (drop p (stream_records t))))"
proof (induction k arbitrary: p)
  case (Suc k)
  define rs where "rs = take limit (drop p (stream_records t))"
  define q where "q = p + length rs"
  have page: "get_records X P \<lparr>grr_shard_iterator = encode_iterator X (shard_at arn p), grr_limit = int limit\<rparr> s =
      Inr (records_response (encode_iterator X (shard_at arn q)) rs)"
    using get_records_page[OF assms(1-4) _ assms(5)] assms(6) Suc.prems by (simp add: Let_def q_def rs_def)
  have "q \<le> length (stream_records t)" using Suc.prems by (simp add: q_def rs_def)
  note IH = Suc.IH[OF this]
  have "drop q (stream_records t) = drop limit (drop p (stream_records t))"
    by (simp add: q_def rs_def min_def add.commute)
  then have "map stream_record_json rs @ map stream_record_json (take (k * limit) (drop q (stream_records t))) =
      map stream_record_json (take (Suc k * limit) (drop p (stream_records t)))"
    by (simp only: rs_def map_append[symmetric] mult_Suc take_add)
  then show ?case by (simp only: read_pages.simps page) (simp add: records_response_def IH)
qed simp

text \<open>C27. Reading a stream from its start page by page, each page from the iterator of the one before, gives the
  records in the order they were written, none twice and none left out.\<close>

theorem paging_reads_stream:
  assumes "table_for_stream s arn = Some t" "arn \<noteq> []" "1 \<le> limit" "limit \<le> 1000" "json_object_text (serde_to_vec X)"
    "\<forall>p \<le> length (stream_records t). P (marshal X (iterator_json (shard_at arn p))) = Inr (shard_at arn p)"
  shows "read_pages X P s (int limit) k (encode_iterator X (shard_at arn 0)) = Some (map stream_record_json (take (k * limit) (stream_records t)))"
  using read_pages_from[OF assms, of 0 k] by simp

lemma stream_table:
  assumes "server_ok X s" "table_for_stream s arn = Some t"
  shows "numbered (stream_records t)"
proof -
  have "t \<in> set (map snd (tables s))" using assms(2) by (auto simp: table_for_stream_def find_Some_iff intro!: imageI nth_mem)
  then obtain n where "(n, t) \<in> set (tables s)" by auto
  then have "map_of (tables s) n = Some t" using assms(1) by (simp add: server_ok_def tables_ok_def bt_ok_distinct)
  then show ?thesis using server_table_ok[OF assms(1)] by (simp add: table_ok_def)
qed

lemma position_numbered:
  assumes "numbered rs" "i < length rs"
  shows "position (\<lambda>r. sequence_number (sr_dynamodb r) = dec (i + 1)) rs = Some i"
proof -
  have seq: "sequence_number (sr_dynamodb (rs ! j)) = dec (j + 1)" if "j < length rs" for j
    using arg_cong[OF assms(1)[unfolded numbered_def], of "\<lambda>l. l ! j"] that by simp
  then have "position (\<lambda>r. sequence_number (sr_dynamodb r) = dec (i + 1)) rs \<noteq> None"
    using assms(2) nth_mem[OF assms(2)] unfolding position_None by blast
  then obtain j where j: "position (\<lambda>r. sequence_number (sr_dynamodb r) = dec (i + 1)) rs = Some j" by blast
  then have "j = i" using position_Some[OF j] seq[of j] by simp
  then show ?thesis using j by simp
qed

text \<open>A sequence number names its record: in every reachable state the record numbered i + 1 is at position i of the
  stream, which is where an iterator at that sequence number starts reading.\<close>

theorem iterator_at_sequence:
  assumes "server_ok X s" "table_for_stream s arn = Some t" "i < length (stream_records t)"
  shows "stream_position_for_sequence s arn (dec (i + 1)) after = Some (int i + (if after then 1 else 0))"
  using position_numbered[OF stream_table[OF assms(1,2)] assms(3)] assms(2) by (simp add: stream_position_for_sequence_def)

section \<open>Samples\<close>

definition stream_db :: ddb_server where
  "stream_db = snd (put_item sample_ddb (env_at t0) (put_user (user ''bob''))
     (snd (put_item sample_ddb (env_at t0) (put_user (user ''ann''))
       (snd (create_table sample_ddb (env_at t0) (users_request True) (ddb_new sample_parse (sample_ddb_config []) Bytes_missing))))))"

definition stream_arn_of :: "ddb_server \<Rightarrow> string" where
  "stream_arn_of s = (case map_of (tables s) ''users'' of Some t \<Rightarrow> latest_stream_arn (description t) | None \<Rightarrow> [])"

definition stream_table_of :: "ddb_server \<Rightarrow> table_state" where
  "stream_table_of s = (case map_of (tables s) ''users'' of Some t \<Rightarrow> t | None \<Rightarrow> table_state_new sample_table)"

definition sample_iterator_parse :: "string \<Rightarrow> string \<Rightarrow> stream_iterator result" where
  "sample_iterator_parse arn payload =
     (case find (\<lambda>p. marshal sample_ddb (iterator_json (shard_at arn p)) = payload) [0, 1, 2] of
        Some p \<Rightarrow> Inr (shard_at arn p) | None \<Rightarrow> Inl ''not an iterator'')"

lemma put_user_ok: "server_ok sample_ddb s \<Longrightarrow> server_ok sample_ddb (snd (put_item sample_ddb E (put_user (user name)) s))"
proof -
  assume s: "server_ok sample_ddb s"
  obtain q s' where q: "put_item sample_ddb E (put_user (user name)) s = (q, s')" by fastforce
  have "bt_ok (pir_item (put_user (user name)))" by (simp add: put_user_def user_def)
  from put_item_handled[OF sample_ddb_objects s this q] show ?thesis unfolding q snd_conv by (simp add: well_handled_def)
qed

lemma stream_db_ok: "server_ok sample_ddb stream_db"
proof -
  obtain q s where q: "create_table sample_ddb (env_at t0) (users_request True) (ddb_new sample_parse (sample_ddb_config []) Bytes_missing) = (q, s)"
    by fastforce
  have "server_ok sample_ddb s" using create_table_handled[OF sample_ddb_objects server_ok_new q] by (simp add: well_handled_def)
  then show ?thesis unfolding stream_db_def q snd_conv by (intro put_user_ok)
qed

lemma stream_db_table: "table_for_stream stream_db (stream_arn_of stream_db) = Some (stream_table_of stream_db)"
  by code_simp

theorem iterator_at_sequence_witness:
  "stream_position_for_sequence stream_db (stream_arn_of stream_db) ''2'' True = Some 2"
proof -
  have "1 < length (stream_records (stream_table_of stream_db))" by code_simp
  moreover have "dec (1 + 1) = ''2''" by code_simp
  ultimately show ?thesis using iterator_at_sequence[OF stream_db_ok stream_db_table, of 1 True] by simp
qed

theorem paging_reads_stream_witness:
  "read_pages sample_ddb (sample_iterator_parse (stream_arn_of stream_db)) stream_db 1 2
     (encode_iterator sample_ddb (shard_at (stream_arn_of stream_db) 0)) =
   Some (map stream_record_json (take 2 (stream_records (stream_table_of stream_db))))"
proof -
  have ne: "stream_arn_of stream_db \<noteq> []" by code_simp
  have "length (stream_records (stream_table_of stream_db)) = 2" by code_simp
  moreover have "list_all (\<lambda>p. sample_iterator_parse (stream_arn_of stream_db) (marshal sample_ddb (iterator_json (shard_at (stream_arn_of stream_db) p))) =
      Inr (shard_at (stream_arn_of stream_db) p)) [0, 1, 2]" by code_simp
  ultimately have "\<forall>p \<le> length (stream_records (stream_table_of stream_db)).
      sample_iterator_parse (stream_arn_of stream_db) (marshal sample_ddb (iterator_json (shard_at (stream_arn_of stream_db) p))) =
      Inr (shard_at (stream_arn_of stream_db) p)" by (auto simp: le_Suc_eq numeral_2_eq_2)
  from paging_reads_stream[OF stream_db_table ne _ _ sample_ddb_objects this, of 1 2] show ?thesis by simp
qed

end
