(* ===== verification/Dynamo_Api.thy ===== *)
theory Dynamo_Api
  imports Dynamo_Streams
begin

text \<open>
  The DynamoDB service as a whole: the dispatch of requests (\<open>services/dynamodb/src/http.rs\<close>) and the machine it makes of the
  server. A request is a value of \<open>ddb_request\<close>, one constructor per operation; reading it from the body
  is \<open>serde\<close>'s and the parameter \<open>decode\<close> of \<open>dispatch\<close>, checking the signature (\<open>sigv4.rs\<close>) the parameter
  \<open>sig\<close>. The server stands behind a mutex: a panic inside an operation poisons it, and every later
  request panics on the lock, so the machine's state is an option.
\<close>

section \<open>Requests\<close>

datatype ddb_request =
    ListTables string int
  | CreateTable create_table_request
  | DescribeTable string
  | DeleteTable string
  | UpdateTable update_table_request
  | DescribeLimits
  | DescribeEndpoints
  | PutItem put_item_request
  | GetItem get_item_request
  | DeleteItem delete_item_request
  | UpdateItem update_item_request
  | Query query_request
  | Scan scan_request
  | BatchGetItem batch_get_item_request
  | BatchWriteItem batch_write_item_request
  | ExecuteStatement execute_statement_request
  | BatchExecuteStatement "batch_statement_request list" string
  | ExecuteTransaction "batch_statement_request list" string
  | TransactGetItems "transact_get option list"
  | TransactWriteItems "transact_write_item list"
  | ListStreams list_streams_request
  | DescribeStream describe_stream_request
  | GetShardIterator get_shard_iterator_request
  | GetRecords get_records_request
  | DescribeTimeToLive string
  | UpdateTimeToLive update_time_to_live_request
  | DescribeContinuousBackups string
  | UpdateContinuousBackups update_continuous_backups_request
  | CreateBackup create_backup_request
  | DescribeBackup string
  | ListBackups list_backups_request
  | DeleteBackup string
  | RestoreTableFromBackup restore_table_from_backup_request
  | TagResource tag_resource_request
  | ListTagsOfResource list_tags_of_resource_request
  | UntagResource untag_resource_request
  | PutResourcePolicy put_resource_policy_request
  | GetResourcePolicy string
  | DeleteResourcePolicy string

text \<open>What \<open>serde\<close> builds: the items of a request that may be stored are sorted maps.\<close>

fun request_ok :: "ddb_request \<Rightarrow> bool" where
  "request_ok (PutItem r) = bt_ok (pir_item r)"
| "request_ok (UpdateItem r) = bt_ok (uir_key r)"
| "request_ok (BatchWriteItem r) = (\<forall>e \<in> set (bwr_request_items r). \<forall>w \<in> set (snd e). write_request_ok w)"
| "request_ok (TransactWriteItems is) = (\<forall>i \<in> set is. transact_item_ok i)"
| "request_ok _ = True"

section \<open>Running an operation\<close>

text \<open>A read leaves the server as it is.\<close>

definition answer :: "json api \<Rightarrow> ddb_server \<Rightarrow> (json api \<times> ddb_server) option" where
  "answer q s = Some (q, s)"

definition answer_or_panic :: "json api option \<Rightarrow> ddb_server \<Rightarrow> (json api \<times> ddb_server) option" where
  "answer_or_panic q s = map_option (\<lambda>a. (a, s)) q"

record ddb_parsers =
  dp_serde :: serde_parse
  dp_iterator :: "string \<Rightarrow> stream_iterator result"

fun run_op :: "ddb_crates \<Rightarrow> ddb_parsers \<Rightarrow> env \<Rightarrow> ddb_request \<Rightarrow> ddb_server \<Rightarrow> (json api \<times> ddb_server) option" where
  "run_op X D E (ListTables start limit) s = answer (list_tables start limit s) s"
| "run_op X D E (CreateTable r) s = Some (create_table X E r s)"
| "run_op X D E (DescribeTable n) s = answer (describe_table n s) s"
| "run_op X D E (DeleteTable n) s = Some (delete_table X E n s)"
| "run_op X D E (UpdateTable r) s = Some (update_table X E r s)"
| "run_op X D E DescribeLimits s = answer (Inr describe_limits) s"
| "run_op X D E DescribeEndpoints s = answer (Inr (describe_endpoints (dconfig s))) s"
| "run_op X D E (PutItem r) s = Some (put_item X E r s)"
| "run_op X D E (GetItem r) s = answer (get_item X r s) s"
| "run_op X D E (DeleteItem r) s = Some (delete_item X E r s)"
| "run_op X D E (UpdateItem r) s = update_item X E r s"
| "run_op X D E (Query r) s = answer (query X r s) s"
| "run_op X D E (Scan r) s = answer (scan X r s) s"
| "run_op X D E (BatchGetItem r) s = answer (batch_get_item X r s) s"
| "run_op X D E (BatchWriteItem r) s = Some (batch_write_item X E r s)"
| "run_op X D E (ExecuteStatement r) s = answer_or_panic (execute_statement X r s) s"
| "run_op X D E (BatchExecuteStatement rs mode) s = answer_or_panic (batch_execute_statement X rs mode s) s"
| "run_op X D E (ExecuteTransaction rs mode) s = answer_or_panic (execute_transaction X rs mode s) s"
| "run_op X D E (TransactGetItems gs) s = answer (transact_get_items X gs s) s"
| "run_op X D E (TransactWriteItems is) s = transact_write_items X E is s"
| "run_op X D E (ListStreams r) s = answer (list_streams r s) s"
| "run_op X D E (DescribeStream r) s = answer (describe_stream r s) s"
| "run_op X D E (GetShardIterator r) s = answer (get_shard_iterator X r s) s"
| "run_op X D E (GetRecords r) s = answer (get_records X (dp_iterator D) r s) s"
| "run_op X D E (DescribeTimeToLive n) s = answer (describe_time_to_live n s) s"
| "run_op X D E (UpdateTimeToLive r) s = Some (update_time_to_live X E r s)"
| "run_op X D E (DescribeContinuousBackups n) s = answer (describe_continuous_backups n s) s"
| "run_op X D E (UpdateContinuousBackups r) s = Some (update_continuous_backups X E r s)"
| "run_op X D E (CreateBackup r) s = Some (create_backup X E r s)"
| "run_op X D E (DescribeBackup arn) s = answer (describe_backup arn s) s"
| "run_op X D E (ListBackups r) s = answer (list_backups r s) s"
| "run_op X D E (DeleteBackup arn) s = Some (delete_backup X E arn s)"
| "run_op X D E (RestoreTableFromBackup r) s = Some (restore_table_from_backup X E r s)"
| "run_op X D E (TagResource r) s = Some (tag_resource X E r s)"
| "run_op X D E (ListTagsOfResource r) s = answer (list_tags_of_resource r s) s"
| "run_op X D E (UntagResource r) s = Some (untag_resource X E r s)"
| "run_op X D E (PutResourcePolicy r) s = Some (put_resource_policy X (dp_serde D) E r s)"
| "run_op X D E (GetResourcePolicy arn) s = answer (get_resource_policy arn s) s"
| "run_op X D E (DeleteResourcePolicy arn) s = Some (delete_resource_policy X E arn s)"

section \<open>Dispatch\<close>

record ddb_outcome =
  out_status :: nat
  out_error_type :: "string option"
  out_body :: string

definition to_wire :: "ddb_crates \<Rightarrow> json \<Rightarrow> string" where
  "to_wire X v = marshal X v @ newline"

definition outcome_ok :: "ddb_crates \<Rightarrow> json \<Rightarrow> ddb_outcome" where
  "outcome_ok X body = \<lparr>out_status = 200, out_error_type = None, out_body = to_wire X body\<rparr>"

definition from_error :: "ddb_crates \<Rightarrow> api_error \<Rightarrow> ddb_outcome" where
  "from_error X e = \<lparr>out_status = err_status e, out_error_type = Some (err_name e), out_body = to_wire X (error_body e)\<rparr>"

definition to_outcome :: "ddb_crates \<Rightarrow> json api \<Rightarrow> ddb_outcome" where
  "to_outcome X q = (case q of Inl e \<Rightarrow> from_error X e | Inr body \<Rightarrow> outcome_ok X body)"

definition unknown_operation :: api_error where
  "unknown_operation = api_error_new 400 ''UnknownOperationException'' ''unknown operation''"

definition operations :: "string list" where
  "operations = [''ListTables'', ''CreateTable'', ''DescribeTable'', ''DeleteTable'', ''UpdateTable'', ''DescribeLimits'',
     ''DescribeEndpoints'', ''PutItem'', ''GetItem'', ''DeleteItem'', ''UpdateItem'', ''Query'', ''Scan'', ''BatchGetItem'',
     ''BatchWriteItem'', ''ExecuteStatement'', ''BatchExecuteStatement'', ''ExecuteTransaction'', ''TransactGetItems'',
     ''TransactWriteItems'', ''ListStreams'', ''DescribeStream'', ''GetShardIterator'', ''GetRecords'', ''DescribeTimeToLive'',
     ''UpdateTimeToLive'', ''DescribeContinuousBackups'', ''UpdateContinuousBackups'', ''CreateBackup'', ''DescribeBackup'',
     ''ListBackups'', ''DeleteBackup'', ''RestoreTableFromBackup'', ''TagResource'', ''ListTagsOfResource'', ''UntagResource'',
     ''PutResourcePolicy'', ''GetResourcePolicy'', ''DeleteResourcePolicy'']"

text \<open>The request named \<open>op\<close>: the two operations without a body are not decoded; an empty body is that of \<open>{}\<close>.\<close>

definition read_request :: "(string \<Rightarrow> string \<Rightarrow> ddb_request option) \<Rightarrow> string \<Rightarrow> string \<Rightarrow> ddb_request api" where
  "read_request decode op body =
     (if op = ''DescribeLimits'' then Inr DescribeLimits
      else if op = ''DescribeEndpoints'' then Inr DescribeEndpoints
      else if op \<notin> set operations then Inl unknown_operation
      else or_else (decode op (if body = [] then ''{}'' else body))
        (api_error_new 400 ''SerializationException'' ''invalid json request''))"

record ddb_call =
  call_target :: string
  call_body :: string
  call_signature :: "(nat \<times> string) option"
  call_now :: int
  call_expiry_fs :: fs_outcome
  call_env :: env

text \<open>\<open>call_signature\<close> is the refusal of the signature check, if it refuses; \<open>call_now\<close> is the clock read before the lock,
  \<open>call_expiry_fs\<close> the disk during expiry and \<open>call_env\<close> the environment of the operation.\<close>

definition dispatch ::
  "ddb_crates \<Rightarrow> ddb_parsers \<Rightarrow> (string \<Rightarrow> string \<Rightarrow> ddb_request option) \<Rightarrow> ddb_call \<Rightarrow> ddb_server \<Rightarrow> (ddb_outcome \<times> ddb_server) option" where
  "dispatch X D decode c s =
     (case call_signature c of Some (status, code) \<Rightarrow> Some (from_error X (api_error_new status code code), s) | None \<Rightarrow>
      case strip_prefix (call_target c) ''DynamoDB_20120810.'' of None \<Rightarrow> Some (from_error X unknown_operation, s) | Some op \<Rightarrow>
      case expire_ttl_items X (call_expiry_fs c) (call_now c) s of
        (Inl e, s1) \<Rightarrow> Some (from_error X e, s1)
      | (Inr _, s1) \<Rightarrow>
          (case read_request decode op (call_body c) of
             Inl e \<Rightarrow> Some (from_error X e, s1)
           | Inr r \<Rightarrow> map_option (\<lambda>(q, s2). (to_outcome X q, s2)) (run_op X D (call_env c) r s1)))"

text \<open>One request through the mutex.\<close>

definition serve_call ::
  "ddb_crates \<Rightarrow> ddb_parsers \<Rightarrow> (string \<Rightarrow> string \<Rightarrow> ddb_request option) \<Rightarrow> ddb_call \<Rightarrow> ddb_server option \<Rightarrow> ddb_server option" where
  "serve_call X D decode c m = Option.bind m (\<lambda>s. map_option snd (dispatch X D decode c s))"

section \<open>Every operation keeps the invariant\<close>

definition op_handled :: "ddb_crates \<Rightarrow> ddb_server \<Rightarrow> json api \<Rightarrow> ddb_server \<Rightarrow> bool" where
  "op_handled X s q s' \<longleftrightarrow> server_ok X s' \<and> dconfig s' = dconfig s \<and> (if isl q then same_data s s' else s' = s \<or> saved X s')"

lemma well_op_handled: "well_handled X s q s' \<Longrightarrow> op_handled X s q s'"
  by (auto simp: op_handled_def well_handled_def)

lemma read_op_handled: "server_ok X s \<Longrightarrow> op_handled X s q s"
  by (simp add: op_handled_def)

lemmas write_handled = create_table_handled delete_table_handled update_table_handled delete_item_handled
  update_time_to_live_handled update_continuous_backups_handled create_backup_change(1) delete_backup_handled restore_change(1)
  tag_resource_handled untag_resource_handled put_resource_policy_handled delete_resource_policy_handled

lemma run_op_handled:
  assumes "json_object_text (serde_to_vec X)" "server_ok X s" "request_ok r" "run_op X D E r s = Some (q, s')"
  shows "op_handled X s q s'"
proof (cases "s' = s")
  case True
  then show ?thesis using assms(2) by (simp add: read_op_handled)
next
  case False
  note H = write_handled[OF assms(1,2)] put_item_handled[OF assms(1,2)] update_item_handled[OF assms(1,2)]
    batch_write_item_handled[OF assms(1,2)] transact_write_items_handled[OF assms(1,2)]
  show ?thesis using assms(3,4) False
    by (cases r) (auto simp: answer_def answer_or_panic_def intro!: well_op_handled intro: H)
qed

section \<open>Calls\<close>

definition contracts_ok :: "ddb_crates \<Rightarrow> (string \<Rightarrow> string \<Rightarrow> ddb_request option) \<Rightarrow> bool" where
  "contracts_ok X decode \<longleftrightarrow> json_object_text (serde_to_vec X) \<and> (\<forall>op body r. decode op body = Some r \<longrightarrow> request_ok r)"

text \<open>The file holds the data in memory, or there is no file yet and no data.\<close>

definition no_data :: ddb_persisted where
  "no_data = \<lparr>ps_tables = [], ps_backups = [], ps_backup_tables = [], ps_backup_items = []\<rparr>"

definition synced :: "ddb_crates \<Rightarrow> ddb_server \<Rightarrow> bool" where
  "synced X s \<longleftrightarrow> dc_storage_path (dconfig s) \<noteq> [] \<longrightarrow>
     ddb_file s = Some (to_state_json X (ddb_persisted_of s)) \<or> ddb_file s = None \<and> ddb_persisted_of s = no_data"

lemma saved_synced: "saved X s \<Longrightarrow> synced X s"
  by (simp add: saved_def synced_def)

lemma same_data_synced: "same_data s s' \<Longrightarrow> synced X s \<Longrightarrow> synced X s'"
  by (simp add: same_data_def synced_def ddb_persisted_of_def)

lemma read_request_ok: "contracts_ok X decode \<Longrightarrow> read_request decode op body = Inr r \<Longrightarrow> request_ok r"
  by (auto simp: read_request_def contracts_ok_def or_else_def split: if_splits option.splits)

text \<open>How a call can go: it is refused at once, or expiry runs and the operation follows it.\<close>

lemma dispatch_cases:
  assumes "dispatch X D decode c s = Some (res, s')"
  obtains (refused) e where "res = from_error X e" "s' = s"
  | (expiry) e where "expire_ttl_items X (call_expiry_fs c) (call_now c) s = (Inl e, s')" "res = from_error X e"
  | (unread) e u where "expire_ttl_items X (call_expiry_fs c) (call_now c) s = (Inr u, s')" "res = from_error X e"
  | (run) u s1 op r q where "expire_ttl_items X (call_expiry_fs c) (call_now c) s = (Inr u, s1)"
      "read_request decode op (call_body c) = Inr r" "run_op X D (call_env c) r s1 = Some (q, s')" "res = to_outcome X q"
  using assms unfolding dispatch_def
  by (auto split: option.splits sum.splits prod.splits)

lemma dispatch_ok:
  assumes "contracts_ok X decode" "server_ok X s" "synced X s" "dispatch X D decode c s = Some (res, s')"
  shows "server_ok X s'" "synced X s'" "dconfig s' = dconfig s"
proof -
  have json: "json_object_text (serde_to_vec X)" using assms(1) by (simp add: contracts_ok_def)
  note expired = expire_ttl_items_change[OF json assms(2)]
  have "server_ok X s' \<and> synced X s' \<and> dconfig s' = dconfig s"
    using assms(4)
  proof (cases rule: dispatch_cases)
    case (expiry e)
    then show ?thesis using expired[OF expiry(1)] assms(3) by (auto dest: same_data_synced)
  next
    case (unread e u)
    then show ?thesis using expired[OF unread(1)] assms(3) by (auto dest: saved_synced)
  next
    case (run u s1 op r q)
    then have s1: "server_ok X s1" "synced X s1" "dconfig s1 = dconfig s" using expired[OF run(1)] assms(3) by (auto dest: saved_synced)
    then show ?thesis
      using run_op_handled[OF json s1(1) read_request_ok[OF assms(1) run(2)] run(3)]
      by (auto simp: op_handled_def dest: saved_synced same_data_synced split: if_splits)
  qed (use assms in auto)
  then show "server_ok X s'" "synced X s'" "dconfig s' = dconfig s" by simp_all
qed

section \<open>The machine\<close>

definition machine_ok :: "ddb_crates \<Rightarrow> ddb_config \<Rightarrow> ddb_server option \<Rightarrow> bool" where
  "machine_ok X cfg m = (case m of None \<Rightarrow> True | Some s \<Rightarrow> server_ok X s \<and> synced X s \<and> dconfig s = cfg)"

interpretation ddb_machine: invariant_machine "serve_call X D decode" "\<lambda>_. contracts_ok X decode" "machine_ok X cfg" for X D decode cfg
proof
  fix c m
  assume contracts: "contracts_ok X decode" and m: "machine_ok X cfg m"
  show "machine_ok X cfg (serve_call X D decode c m)"
  proof (cases "serve_call X D decode c m")
    case (Some s')
    then obtain s res where s: "m = Some s" "dispatch X D decode c s = Some (res, s')"
      by (cases m) (auto simp: serve_call_def)
    then have "server_ok X s" "synced X s" "dconfig s = cfg" using m by (simp_all add: machine_ok_def)
    then show ?thesis using dispatch_ok[OF contracts _ _ s(2)] Some by (simp add: machine_ok_def)
  qed (simp add: machine_ok_def)
qed

lemma machine_ok_new: "machine_ok X cfg (Some (ddb_new D cfg Bytes_missing))"
  using server_ok_new[of X D cfg]
  by (simp add: machine_ok_def synced_def ddb_new_def ddb_load_def no_data_def ddb_persisted_of_def Let_def)

text \<open>C4. In every state a server reaches from an empty start, whatever requests arrive and whatever the disk does, the
  invariant holds: tables are well formed and filed under their names, stored items are valid, counts agree with the
  items, stream records are numbered in order, backups are complete, cached texts are current; and the file holds
  exactly the data in memory.\<close>

theorem reachable_ok:
  assumes "contracts_ok X decode" "fold (serve_call X D decode) cs (Some (ddb_new (dp_serde D) cfg Bytes_missing)) = Some s"
  shows "server_ok X s \<and> synced X s"
  using ddb_machine.run_inv[of X decode cs cfg "Some (ddb_new (dp_serde D) cfg Bytes_missing)" D] assms machine_ok_new[of X cfg "dp_serde D"]
  by (simp add: machine_ok_def list_all_iff)

text \<open>C6. A call that is answered with an error changes no data: the tables are the ones before or, when the error came
  after expiry, the ones before without their expired items; backups do not change.\<close>

theorem failed_call_changes_nothing:
  assumes "contracts_ok X decode" "server_ok X s" "dispatch X D decode c s = Some (res, s')" "out_error_type res \<noteq> None"
  shows "(tables s' = tables s \<or> tables s' = tables (modify_all (\<lambda>_. expired_table (call_now c)) s))
    \<and> backups s' = backups s \<and> backup_tables s' = backup_tables s \<and> backup_items s' = backup_items s"
proof -
  have json: "json_object_text (serde_to_vec X)" using assms(1) by (simp add: contracts_ok_def)
  note expired = expire_ttl_items_change[OF json assms(2)]
  show ?thesis using assms(3)
  proof (cases rule: dispatch_cases)
    case (expiry e)
    then show ?thesis using expired[OF expiry(1)] by (simp add: same_data_def)
  next
    case (unread e u)
    then show ?thesis using expired[OF unread(1)] by simp
  next
    case (run u s1 op r q)
    have s1: "server_ok X s1" using expired[OF run(1)] by simp
    have "isl q" using run(4) assms(4) by (cases q) (simp_all add: to_outcome_def outcome_ok_def)
    then have "same_data s1 s'" using run_op_handled[OF json s1 read_request_ok[OF assms(1) run(2)] run(3)] by (simp add: op_handled_def)
    then show ?thesis using expired[OF run(1)] by (simp add: same_data_def)
  qed simp
qed

section \<open>Restart\<close>

definition disk_bytes :: "ddb_server \<Rightarrow> file_bytes" where
  "disk_bytes s = (case ddb_file s of Some b \<Rightarrow> Bytes b | None \<Rightarrow> Bytes_missing)"

lemma reload_tables:
  assumes "tables_ok ts"
  shows "fold (\<lambda>(n, t). bt_insert n (load_table t)) ts [] = ts"
proof -
  have "load_table t = t" if "(n, t) \<in> set ts" for n t
  proof -
    have "map_of ts n = Some t" using that assms by (simp add: tables_ok_def bt_ok_distinct)
    then show ?thesis using assms by (simp add: tables_ok_def table_ok_def load_table_def)
  qed
  then have "fold (\<lambda>(n, t). bt_insert n (load_table t)) ts [] = fold (\<lambda>(n, t). bt_insert n t) ts []"
    by (intro fold_cong) auto
  also have "\<dots> = ts" using bt_extend_Nil[of ts] assms by (simp add: bt_extend_def tables_ok_def)
  finally show ?thesis .
qed

text \<open>C3. Nothing acknowledged is lost: a server started again from the file of any reachable state, after any
  sequence of requests and of failed writes, has exactly the data of that state, and satisfies the invariant.\<close>

theorem restart_restores:
  assumes "contracts_ok X decode" "fold (serve_call X D decode) cs (Some (ddb_new (dp_serde D) cfg Bytes_missing)) = Some s"
    "dc_storage_path cfg \<noteq> []" "state_from_slice (dp_serde D) (to_state_json X (ddb_persisted_of s)) = Inr (ddb_persisted_of s)"
  shows "ddb_persisted_of (ddb_new (dp_serde D) cfg (disk_bytes s)) = ddb_persisted_of s
    \<and> server_ok X (ddb_new (dp_serde D) cfg (disk_bytes s)) \<and> ddb_load_err (ddb_new (dp_serde D) cfg (disk_bytes s)) = None"
proof -
  have "machine_ok X cfg (Some s)"
    using ddb_machine.run_inv[of X decode cs cfg "Some (ddb_new (dp_serde D) cfg Bytes_missing)" D] assms(1,2) machine_ok_new
    by (simp add: list_all_iff)
  then have ok: "server_ok X s" "synced X s" "dconfig s = cfg" by (simp_all add: machine_ok_def)
  have t: "fold (\<lambda>(n, t). bt_insert n (load_table t)) (tables s) [] = tables s"
    using ok(1) by (intro reload_tables) (simp add: server_ok_def)
  from ok(2,3) assms(3) consider "ddb_file s = Some (to_state_json X (ddb_persisted_of s))" | "ddb_file s = None" "ddb_persisted_of s = no_data"
    by (auto simp: synced_def)
  then show ?thesis
  proof cases
    case 1
    let ?n = "ddb_new (dp_serde D) cfg (disk_bytes s)"
    have n: "tables ?n = tables s" "backups ?n = backups s" "backup_tables ?n = backup_tables s" "backup_items ?n = backup_items s"
      "table_cache ?n = []" "ddb_load_err ?n = None" "dconfig ?n = cfg"
      using 1 assms(3,4) t by (simp_all add: ddb_new_def ddb_load_def disk_bytes_def Let_def ddb_persisted_of_def)
    then show ?thesis using ok(1)
      by (simp add: ddb_persisted_of_def server_ok_def backups_ok_def cache_ok_def cache_current_def)
  next
    case 2
    then show ?thesis using server_ok_new[of X "dp_serde D" cfg]
      by (simp add: disk_bytes_def ddb_new_def ddb_load_def Let_def ddb_persisted_of_def no_data_def)
  qed
qed

section \<open>Samples\<close>

definition sample_decode :: "string \<Rightarrow> string \<Rightarrow> ddb_request option" where
  "sample_decode op body =
     (if op = ''CreateTable'' then Some (CreateTable (users_request False))
      else if op = ''PutItem'' then Some (PutItem (put_user (user body))) else None)"

definition sample_call :: "string \<Rightarrow> string \<Rightarrow> fs_outcome \<Rightarrow> ddb_call" where
  "sample_call op body io = \<lparr>call_target = ''DynamoDB_20120810.'' @ op, call_body = body, call_signature = None, call_now = 1,
     call_expiry_fs = disk_ok, call_env = \<lparr>clock = (\<lambda>_. t0), fs = io\<rparr>\<rparr>"

definition sample_calls :: "ddb_call list" where
  "sample_calls = [sample_call ''CreateTable'' [] disk_ok, sample_call ''PutItem'' ''ann'' disk_ok, sample_call ''PutItem'' ''bob'' disk_full]"

definition sample_run :: "ddb_parsers \<Rightarrow> ddb_server option" where
  "sample_run D = fold (serve_call sample_ddb D sample_decode) sample_calls (Some (ddb_new (dp_serde D) (sample_ddb_config ''/data'') Bytes_missing))"

definition first_parsers :: ddb_parsers where
  "first_parsers = \<lparr>dp_serde = sample_parse, dp_iterator = (\<lambda>_. Inl ''no iterator'')\<rparr>"

definition sample_state :: ddb_server where
  "sample_state = (case sample_run first_parsers of Some s \<Rightarrow> s | None \<Rightarrow> users_db [])"

definition reading_parsers :: ddb_parsers where
  "reading_parsers = \<lparr>dp_serde = \<lparr>state_from_slice = (\<lambda>b. if b = to_state_json sample_ddb (ddb_persisted_of sample_state)
       then Inr (ddb_persisted_of sample_state) else Inl ''unreadable''), is_json_text = (\<lambda>_. True)\<rparr>,
     dp_iterator = (\<lambda>_. Inl ''no iterator'')\<rparr>"

lemma sample_contracts: "contracts_ok sample_ddb sample_decode"
  using sample_ddb_objects by (auto simp: contracts_ok_def sample_decode_def put_user_def user_def)

lemma sample_runs: "sample_run reading_parsers = Some sample_state"
  by code_simp

lemma sample_state_items: "map_of (tables sample_state) ''users'' \<noteq> None \<and> view sample_state ''users'' (user_slot ''ann'') = Some (user ''ann'')
    \<and> view sample_state ''users'' (user_slot ''bob'') = None"
  by code_simp


theorem reachable_ok_witness: "server_ok sample_ddb sample_state \<and> synced sample_ddb sample_state"
  using reachable_ok[OF sample_contracts sample_runs[unfolded sample_run_def]] .

theorem restart_restores_witness:
  "ddb_persisted_of (ddb_new (dp_serde reading_parsers) (sample_ddb_config ''/data'') (disk_bytes sample_state)) = ddb_persisted_of sample_state
   \<and> view sample_state ''users'' (user_slot ''ann'') = Some (user ''ann'')"
proof -
  have path: "dc_storage_path (sample_ddb_config ''/data'') \<noteq> []" by (simp add: sample_ddb_config_def)
  have parse: "state_from_slice (dp_serde reading_parsers) (to_state_json sample_ddb (ddb_persisted_of sample_state)) = Inr (ddb_persisted_of sample_state)"
    by (simp add: reading_parsers_def)
  show ?thesis using restart_restores[OF sample_contracts sample_runs[unfolded sample_run_def] path parse] sample_state_items by simp
qed

theorem failed_call_changes_nothing_witness:
  "\<exists>res s'. dispatch sample_ddb reading_parsers sample_decode (sample_call ''PutItem'' ''bob'' disk_full) sample_state = Some (res, s')
     \<and> out_error_type res = Some ''InternalServerError'' \<and> backups s' = backups sample_state"
proof -
  let ?d = "dispatch sample_ddb reading_parsers sample_decode (sample_call ''PutItem'' ''bob'' disk_full) sample_state"
  have t: "map_option (\<lambda>(r, s). out_error_type r) ?d = Some (Some ''InternalServerError'')" by code_simp
  then obtain res s' where d: "?d = Some (res, s')" "out_error_type res = Some ''InternalServerError''" by (cases ?d) auto
  have ok: "server_ok sample_ddb sample_state"
    using ddb_machine.run_inv[of sample_ddb sample_decode sample_calls "sample_ddb_config ''/data''"
      "Some (ddb_new (dp_serde reading_parsers) (sample_ddb_config ''/data'') Bytes_missing)" reading_parsers]
      sample_contracts machine_ok_new sample_runs[unfolded sample_run_def] by (simp add: list_all_iff machine_ok_def)
  show ?thesis using failed_call_changes_nothing[OF sample_contracts ok d(1)] d by auto
qed

section \<open>A statement that stops the server\<close>

lemma poisoned: "fold (serve_call X D decode) cs None = None"
  by (induction cs) (simp_all add: serve_call_def)

lemma statement_panics:
  assumes "is_ascii (esr_statement r)" "starts_with (to_ascii_uppercase (bare_statement (esr_statement r))) ''SELECT FROM ''"
  shows "run_op X D E (ExecuteStatement r) s = None"
  using parse_select_None[of "esr_statement r"] assms by (simp add: execute_statement_def answer_or_panic_def)

text \<open>C28. One statement that begins with \<open>SELECT FROM\<close> stops the service: its panic poisons the mutex of the server, and no
  later request of any kind is answered.\<close>

theorem select_from_stops_server:
  assumes "call_signature c = None" "strip_prefix (call_target c) ''DynamoDB_20120810.'' = Some op"
    "expire_ttl_items X (call_expiry_fs c) (call_now c) s = (Inr u, s1)" "read_request decode op (call_body c) = Inr (ExecuteStatement r)"
    "is_ascii (esr_statement r)" "starts_with (to_ascii_uppercase (bare_statement (esr_statement r))) ''SELECT FROM ''"
  shows "fold (serve_call X D decode) (c # cs) (Some s) = None"
proof -
  have "dispatch X D decode c s = None" using assms statement_panics[OF assms(5,6)] by (simp add: dispatch_def)
  then have "serve_call X D decode c (Some s) = None" by (simp add: serve_call_def)
  then show ?thesis by (simp add: poisoned)
qed

definition select_from_request :: execute_statement_request where
  "select_from_request = \<lparr>esr_statement = ''SELECT FROM users'', esr_parameters = [], esr_limit = 0, esr_return_consumed_capacity = []\<rparr>"

theorem select_from_stops_server_witness:
  "fold (serve_call sample_ddb first_parsers (\<lambda>_ _. Some (ExecuteStatement select_from_request)))
     [sample_call ''ExecuteStatement'' [] disk_ok, sample_call ''ListTables'' [] disk_ok] (Some (users_db [])) = None"
proof -
  let ?c = "sample_call ''ExecuteStatement'' [] disk_ok" and ?decode = "\<lambda>(_::string) (_::string). Some (ExecuteStatement select_from_request)"
  obtain s1 where e: "expire_ttl_items sample_ddb (call_expiry_fs ?c) (call_now ?c) (users_db []) = (Inr (), s1)"
  proof -
    have "fst (expire_ttl_items sample_ddb (call_expiry_fs ?c) (call_now ?c) (users_db [])) = Inr ()" by code_simp
    then show thesis using that by (metis prod.collapse)
  qed
  have "call_signature ?c = None" "strip_prefix (call_target ?c) ''DynamoDB_20120810.'' = Some ''ExecuteStatement''"
    "read_request ?decode ''ExecuteStatement'' (call_body ?c) = Inr (ExecuteStatement select_from_request)"
    "is_ascii (esr_statement select_from_request)" "starts_with (to_ascii_uppercase (bare_statement (esr_statement select_from_request))) ''SELECT FROM ''"
    by code_simp+
  from select_from_stops_server[OF this(1,2) e this(3-5)] show ?thesis .
qed

end
