(* ===== verification/Request_Signing.thy ===== *)
theory Request_Signing
  imports Dynamo_Api
begin

unbundle bit_operations_syntax

text \<open>
  \<open>services/dynamodb/src/sigv4.rs\<close>: verification of AWS Signature Version 4, and its place in front of the dispatch of
  \<open>Dynamo_Api\<close>. SHA-256, HMAC-SHA-256 and \<open>hex::encode\<close> are parameters, as is the lower-casing of text that is not
  ASCII; bytes are characters. Percent encoding and decoding, UTF-8 repair and the comparison in constant time are modelled.
\<close>

section \<open>Data\<close>

record sig_crates =
  sha256 :: "string \<Rightarrow> string"
  hmac :: "string \<Rightarrow> string \<Rightarrow> string"
  sig_hex_encode :: "string \<Rightarrow> string"
  unicode_lower :: "string \<Rightarrow> string"

definition ALGORITHM :: string where "ALGORITHM = ''AWS4-HMAC-SHA256''"

definition SERVICE :: string where "SERVICE = ''dynamodb''"

record signature_error =
  se_code :: string
  se_status :: nat

definition sig_err :: "string \<Rightarrow> nat \<Rightarrow> signature_error" where
  "sig_err code status = \<lparr>se_code = code, se_status = status\<rparr>"

record signed_request =
  sr_method :: string
  sr_path :: string
  sr_query :: string
  sr_host :: string
  sr_headers :: "(string, string) bmap"
  sr_body :: string

record credentials =
  cr_auth_mode :: string
  cr_region :: string
  cr_access_key_id :: string
  cr_secret_access_key :: string

definition sr_header :: "signed_request \<Rightarrow> string \<Rightarrow> string" where
  "sr_header req name = (case map_of (sr_headers req) name of Some v \<Rightarrow> v | None \<Rightarrow> [])"

definition access_key :: "credentials \<Rightarrow> string" where
  "access_key c = (if cr_access_key_id c = [] then ''dev'' else cr_access_key_id c)"

definition sig_region :: "credentials \<Rightarrow> string" where
  "sig_region c = (if cr_region c = [] then ''us-east-1'' else cr_region c)"

definition secret :: "credentials \<Rightarrow> string" where
  "secret c = (if cr_secret_access_key c = [] then ''dev'' else cr_secret_access_key c)"

definition to_lowercase :: "sig_crates \<Rightarrow> string \<Rightarrow> string" where
  "to_lowercase Y s = (if is_ascii s then to_ascii_lowercase s else unicode_lower Y s)"

section \<open>Encodings\<close>

definition hex_digit_upper :: "nat \<Rightarrow> char" where
  "hex_digit_upper d = ''0123456789ABCDEF'' ! d"

definition unreserved :: "string \<Rightarrow> char \<Rightarrow> bool" where
  "unreserved safe c \<longleftrightarrow> is_ascii_alphanumeric c \<or> c \<in> set ''-_.~'' \<or> c \<in> set safe"

definition aws_percent_encode :: "string \<Rightarrow> string \<Rightarrow> string" where
  "aws_percent_encode value safe =
     concat (map (\<lambda>c. if unreserved safe c then [c]
       else [CHR ''%'', hex_digit_upper (ascii c div 16), hex_digit_upper (ascii c mod 16)]) value)"

text \<open>\<open>char::to_digit(16)\<close> of a byte.\<close>

definition hex_value :: "char \<Rightarrow> nat option" where
  "hex_value c =
     (let n = ascii c in
      if 48 \<le> n \<and> n \<le> 57 then Some (n - 48)
      else if 65 \<le> n \<and> n \<le> 70 then Some (n - 55)
      else if 97 \<le> n \<and> n \<le> 102 then Some (n - 87)
      else None)"

definition percent_byte :: "string \<Rightarrow> char option" where
  "percent_byte s =
     (case s of h # l # _ \<Rightarrow> (case (hex_value h, hex_value l) of (Some a, Some b) \<Rightarrow> Some (char_of (16 * a + b)) | _ \<Rightarrow> None) | _ \<Rightarrow> None)"

fun url_decode_bytes :: "string \<Rightarrow> string" where
  "url_decode_bytes [] = []"
| "url_decode_bytes (c # s) =
     (if c = CHR ''%'' then
        (case percent_byte s of Some b \<Rightarrow> b # url_decode_bytes (drop 2 s) | None \<Rightarrow> c # url_decode_bytes s)
      else if c = CHR ''+'' then CHR '' '' # url_decode_bytes s
      else c # url_decode_bytes s)"

text \<open>\<open>String::from_utf8_lossy\<close>: well-formed sequences are kept, and each maximal ill-formed part becomes U+FFFD. \<open>utf8_chunk\<close> is
  the length of the first part and whether it is well formed.\<close>

definition utf8_width :: "nat \<Rightarrow> nat" where
  "utf8_width a = (if a < 0x80 then 1 else if 0xC2 \<le> a \<and> a \<le> 0xDF then 2 else if 0xE0 \<le> a \<and> a \<le> 0xEF then 3
     else if 0xF0 \<le> a \<and> a \<le> 0xF4 then 4 else 0)"

definition utf8_second :: "nat \<Rightarrow> nat \<Rightarrow> bool" where
  "utf8_second a b \<longleftrightarrow>
     (if a = 0xE0 then 0xA0 \<le> b \<and> b \<le> 0xBF else if a = 0xED then 0x80 \<le> b \<and> b \<le> 0x9F
      else if a = 0xF0 then 0x90 \<le> b \<and> b \<le> 0xBF else if a = 0xF4 then 0x80 \<le> b \<and> b \<le> 0x8F
      else 0x80 \<le> b \<and> b \<le> 0xBF)"

definition utf8_chunk :: "char \<Rightarrow> string \<Rightarrow> nat \<times> bool" where
  "utf8_chunk a s =
     (let w = utf8_width (ascii a) in
      if w = 0 then (1, False) else if w = 1 then (1, True)
      else if s = [] \<or> \<not> utf8_second (ascii a) (ascii (hd s)) then (1, False) else if w = 2 then (2, True)
      else if length s < 2 \<or> \<not> continuation (s ! 1) then (2, False) else if w = 3 then (3, True)
      else if length s < 3 \<or> \<not> continuation (s ! 2) then (3, False) else (4, True))"

fun from_utf8_lossy :: "string \<Rightarrow> string" where
  "from_utf8_lossy [] = []"
| "from_utf8_lossy (a # s) =
     (let (n, ok) = utf8_chunk a s in
      (if ok then a # take (n - 1) s else [CHR 0xEF, CHR 0xBF, CHR 0xBD]) @ from_utf8_lossy (drop (n - 1) s))"

fun valid_utf8 :: "string \<Rightarrow> bool" where
  "valid_utf8 [] = True"
| "valid_utf8 (a # s) = (let (n, ok) = utf8_chunk a s in ok \<and> valid_utf8 (drop (n - 1) s))"

definition url_decode :: "string \<Rightarrow> string" where
  "url_decode value = from_utf8_lossy (url_decode_bytes value)"

definition byte_u8 :: "char \<Rightarrow> 8 word" where
  "byte_u8 c = of_nat (ascii c)"

definition constant_time_eq :: "string \<Rightarrow> string \<Rightarrow> bool" where
  "constant_time_eq a b =
     (if length a \<noteq> length b then False
      else fold (\<lambda>(x, y) diff. diff OR (x XOR y)) (zip (map byte_u8 a) (map byte_u8 b)) 0 = 0)"

definition is_lower_hex :: "string \<Rightarrow> nat \<Rightarrow> bool" where
  "is_lower_hex value n \<longleftrightarrow> length value = n \<and> list_all (\<lambda>c. is_ascii_digit c \<or> 97 \<le> ascii c \<and> ascii c \<le> 102) value"

section \<open>The canonical request\<close>

definition canonical_uri :: "string \<Rightarrow> string" where
  "canonical_uri path = (if path = [] then ''/'' else aws_percent_encode path ''/~'')"

definition query_pair :: "string \<Rightarrow> string \<times> string" where
  "query_pair part = (case split_once (CHR ''='') part of Some (k, v) \<Rightarrow> (url_decode k, url_decode v) | None \<Rightarrow> (url_decode part, []))"

text \<open>\<open>pairs.sort()\<close> orders pairs by their first component, then by their second.\<close>

definition cmp_pair :: "string \<times> string \<Rightarrow> string \<times> string \<Rightarrow> ordering" where
  "cmp_pair a b = (case cmp (fst a) (fst b) of Equal \<Rightarrow> cmp (snd a) (snd b) | ord \<Rightarrow> ord)"

definition canonical_query_string :: "string \<Rightarrow> string" where
  "canonical_query_string q =
     (if q = [] then []
      else join ''&'' (map (\<lambda>(k, v). aws_percent_encode k ''~-_'' @ ''='' @ aws_percent_encode v ''~-_'')
        (sort_by cmp_pair (map query_pair (filter (\<lambda>p. p \<noteq> []) (split_on (\<lambda>c. c = CHR ''&'') q))))))"

definition normalize_header_value :: "string \<Rightarrow> string" where
  "normalize_header_value value = join '' '' (split_whitespace value)"

definition canonical_header :: "signed_request \<Rightarrow> string \<Rightarrow> string" where
  "canonical_header req name =
     name @ '':'' @ normalize_header_value (if name = ''host'' then sr_host req else sr_header req name) @ [CHR 0x0A]"

definition canonical_headers :: "sig_crates \<Rightarrow> signed_request \<Rightarrow> string \<Rightarrow> string" where
  "canonical_headers Y req signed_headers =
     concat (map (canonical_header req)
       (filter (\<lambda>n. n \<noteq> []) (map trim (split_on (\<lambda>c. c = CHR '';'') (to_lowercase Y signed_headers)))))"

definition canonical_request :: "sig_crates \<Rightarrow> signed_request \<Rightarrow> string \<Rightarrow> string \<Rightarrow> string" where
  "canonical_request Y req signed_headers payload_hash =
     join [CHR 0x0A] [sr_method req, canonical_uri (sr_path req), canonical_query_string (sr_query req),
       canonical_headers Y req signed_headers, to_lowercase Y signed_headers, payload_hash]"

definition sig_sha256_hex :: "sig_crates \<Rightarrow> string \<Rightarrow> string" where
  "sig_sha256_hex Y value = sig_hex_encode Y (sha256 Y value)"

definition derive_signing_key :: "sig_crates \<Rightarrow> string \<Rightarrow> string \<Rightarrow> string \<Rightarrow> string" where
  "derive_signing_key Y sec date_stamp region =
     hmac Y (hmac Y (hmac Y (hmac Y (''AWS4'' @ sec) date_stamp) region) SERVICE) ''aws4_request''"

definition string_to_sign :: "sig_crates \<Rightarrow> signed_request \<Rightarrow> string \<Rightarrow> string \<Rightarrow> string \<Rightarrow> string \<Rightarrow> string" where
  "string_to_sign Y req date_stamp region signed_headers payload_hash =
     join [CHR 0x0A] [ALGORITHM, sr_header req ''x-amz-date'', join ''/'' [date_stamp, region, SERVICE, ''aws4_request''],
       sig_sha256_hex Y (canonical_request Y req signed_headers payload_hash)]"

definition signature_for_request :: "sig_crates \<Rightarrow> credentials \<Rightarrow> signed_request \<Rightarrow> string \<Rightarrow> string \<Rightarrow> string \<Rightarrow> string \<Rightarrow> string" where
  "signature_for_request Y creds req date_stamp region signed_headers payload_hash =
     sig_hex_encode Y (hmac Y (derive_signing_key Y (secret creds) date_stamp region)
       (string_to_sign Y req date_stamp region signed_headers payload_hash))"

section \<open>Verification\<close>

definition parse_credential_scope :: "string \<Rightarrow> (string \<times> string \<times> string \<times> string) option" where
  "parse_credential_scope credential =
     (case split_on (\<lambda>c. c = CHR ''/'') credential of
        [key, date, region, service, final] \<Rightarrow> if final = ''aws4_request'' then Some (key, date, region, service) else None
      | _ \<Rightarrow> None)"

definition parse_auth_params :: "string \<Rightarrow> (string, string) bmap" where
  "parse_auth_params value =
     fold (\<lambda>part result. case split_once (CHR ''='') (trim part) of Some (k, v) \<Rightarrow> bt_insert k v result | None \<Rightarrow> result)
       (split_on (\<lambda>c. c = CHR '','') value) []"

definition auth_param :: "(string, string) bmap \<Rightarrow> string \<Rightarrow> string" where
  "auth_param values name = (case map_of values name of Some v \<Rightarrow> v | None \<Rightarrow> [])"

definition verify_payload_hash :: "sig_crates \<Rightarrow> signed_request \<Rightarrow> string \<Rightarrow> signature_error + unit" where
  "verify_payload_hash Y req payload_hash =
     (if payload_hash = ''UNSIGNED-PAYLOAD'' then Inr ()
      else if starts_with payload_hash ''STREAMING-'' then Inl (sig_err ''NotImplemented'' 501)
      else if \<not> constant_time_eq (to_lowercase Y payload_hash) (sig_sha256_hex Y (sr_body req)) then
        Inl (sig_err ''InvalidSignatureException'' 403)
      else Inr ())"

definition incomplete :: signature_error where
  "incomplete = sig_err ''IncompleteSignatureException'' 400"

definition verify_authorization_header :: "sig_crates \<Rightarrow> credentials \<Rightarrow> signed_request \<Rightarrow> string \<Rightarrow> signature_error + unit" where
  "verify_authorization_header Y creds req auth =
     (case strip_prefix auth (ALGORITHM @ '' '') of None \<Rightarrow> Inl incomplete | Some rest \<Rightarrow>
      let values = parse_auth_params rest;
          signed_headers = auth_param values ''SignedHeaders'';
          signature = auth_param values ''Signature'' in
      (case parse_credential_scope (auth_param values ''Credential'') of None \<Rightarrow> Inl incomplete | Some (key, date_stamp, region, service) \<Rightarrow>
       if signed_headers = [] \<or> signature = [] then Inl incomplete
       else if key \<noteq> access_key creds \<or> region \<noteq> sig_region creds \<or> service \<noteq> SERVICE then
         Inl (sig_err ''UnrecognizedClientException'' 403)
       else if sr_header req ''x-amz-date'' = [] then Inl incomplete
       else let given = sr_header req ''x-amz-content-sha256'' in
         bind_res (if given = [] then Inr () else verify_payload_hash Y req given) (\<lambda>_.
           if constant_time_eq signature (signature_for_request Y creds req date_stamp region signed_headers
                (if given = [] then ''UNSIGNED-PAYLOAD'' else given))
           then Inr () else Inl (sig_err ''InvalidSignatureException'' 403))))"

definition verify_header_shape :: "sig_crates \<Rightarrow> signed_request \<Rightarrow> string \<Rightarrow> signature_error + unit" where
  "verify_header_shape Y req auth =
     (case strip_prefix auth (ALGORITHM @ '' '') of None \<Rightarrow> Inl incomplete | Some rest \<Rightarrow>
      let values = parse_auth_params rest;
          signed_headers = auth_param values ''SignedHeaders'';
          signature = auth_param values ''Signature'' in
      (case parse_credential_scope (auth_param values ''Credential'') of None \<Rightarrow> Inl incomplete | Some (_, _, _, service) \<Rightarrow>
       if signed_headers = [] \<or> signature = [] then Inl incomplete
       else if service \<noteq> SERVICE \<or> \<not> is_lower_hex signature 64 then Inl incomplete
       else if sr_header req ''x-amz-date'' = [] then Inl incomplete
       else let payload_hash = sr_header req ''x-amz-content-sha256'' in
         if payload_hash \<noteq> [] then verify_payload_hash Y req payload_hash else Inr ()))"

definition verify_signature :: "sig_crates \<Rightarrow> credentials \<Rightarrow> signed_request \<Rightarrow> signature_error + unit" where
  "verify_signature Y creds req =
     (if cr_auth_mode creds = [] \<or> eq_ignore_ascii_case (cr_auth_mode creds) ''relaxed'' then Inr ()
      else let auth = trim (sr_header req ''authorization'') in
        if auth = [] then Inl (sig_err ''AccessDeniedException'' 403)
        else if eq_ignore_ascii_case (cr_auth_mode creds) ''signed-relaxed'' then verify_header_shape Y req auth
        else verify_authorization_header Y creds req auth)"

section \<open>Comparison in constant time\<close>

lemma byte_u8_eq: "byte_u8 c = byte_u8 d \<longleftrightarrow> c = d"
proof
  assume "byte_u8 c = byte_u8 d"
  then have "unat (byte_u8 c) = unat (byte_u8 d)" by simp
  then show "c = d" by (simp add: byte_u8_def unat_of_nat ascii_def)
qed simp

lemma diff_zero:
  "length a = length b \<Longrightarrow> fold (\<lambda>(x, y) diff. diff OR (x XOR y)) (zip a b) (d :: 8 word) = 0 \<longleftrightarrow> d = 0 \<and> a = b"
proof (induction a b arbitrary: d rule: list_induct2)
  case (Cons x xs y ys)
  have "d OR (x XOR y) = 0 \<longleftrightarrow> d = 0 \<and> x = y"
    by (auto simp: bit_eq_iff bit_simps)
  then show ?case using Cons.IH[of "d OR (x XOR y)"] by auto
qed simp

lemma constant_time_eq_iff: "constant_time_eq a b \<longleftrightarrow> a = b"
proof (cases "length a = length b")
  case True
  have "constant_time_eq a b \<longleftrightarrow> map byte_u8 a = map byte_u8 b"
    unfolding constant_time_eq_def using True diff_zero[of "map byte_u8 a" "map byte_u8 b" 0] by simp
  also have "\<dots> \<longleftrightarrow> a = b" by (rule inj_map_eq_map) (rule injI, simp only: byte_u8_eq)
  finally show ?thesis .
qed (auto simp: constant_time_eq_def)

section \<open>What strict mode accepts\<close>

definition strict :: "credentials \<Rightarrow> bool" where
  "strict creds \<longleftrightarrow> cr_auth_mode creds \<noteq> [] \<and> \<not> eq_ignore_ascii_case (cr_auth_mode creds) ''relaxed''
     \<and> \<not> eq_ignore_ascii_case (cr_auth_mode creds) ''signed-relaxed''"

text \<open>The Authorization header of a request and the parameters in it.\<close>

definition authorization_params :: "signed_request \<Rightarrow> (string, string) bmap option" where
  "authorization_params req = map_option parse_auth_params (strip_prefix (trim (sr_header req ''authorization'')) (ALGORITHM @ '' ''))"

text \<open>A payload hash that the body has, or that says the body is not signed.\<close>

definition payload_matches :: "sig_crates \<Rightarrow> signed_request \<Rightarrow> string \<Rightarrow> bool" where
  "payload_matches Y req payload \<longleftrightarrow> payload = ''UNSIGNED-PAYLOAD'' \<or> to_lowercase Y payload = sig_sha256_hex Y (sr_body req)"

lemma accepted_parts:
  assumes "strict creds" "verify_signature Y creds req = Inr ()"
  shows "\<exists>values date payload. authorization_params req = Some values \<and> payload_matches Y req payload
    \<and> parse_credential_scope (auth_param values ''Credential'') = Some (access_key creds, date, sig_region creds, SERVICE)
    \<and> auth_param values ''Signature'' = signature_for_request Y creds req date (sig_region creds) (auth_param values ''SignedHeaders'') payload"
proof -
  let ?auth = "trim (sr_header req ''authorization'')" and ?given = "sr_header req ''x-amz-content-sha256''"
  have v: "verify_authorization_header Y creds req ?auth = Inr ()"
    using assms by (auto simp: verify_signature_def strict_def Let_def split: if_splits)
  obtain rest where rest: "strip_prefix ?auth (ALGORITHM @ '' '') = Some rest"
    using v by (auto simp: verify_authorization_header_def split: option.splits)
  obtain date where scope: "parse_credential_scope (auth_param (parse_auth_params rest) ''Credential'')
      = Some (access_key creds, date, sig_region creds, SERVICE)"
    using v rest by (auto simp: verify_authorization_header_def Let_def split: option.splits if_splits)
  have "payload_matches Y req (if ?given = [] then ''UNSIGNED-PAYLOAD'' else ?given)
    \<and> auth_param (parse_auth_params rest) ''Signature'' = signature_for_request Y creds req date (sig_region creds)
        (auth_param (parse_auth_params rest) ''SignedHeaders'') (if ?given = [] then ''UNSIGNED-PAYLOAD'' else ?given)"
    using v rest scope by (auto simp: verify_authorization_header_def Let_def bind_res_Inr_iff constant_time_eq_iff verify_payload_hash_def
        payload_matches_def split: if_splits)
  then show ?thesis using rest scope by (auto simp: authorization_params_def)
qed


text \<open>A body is authenticated only through the \<open>x-amz-content-sha256\<close> header: without it, strict mode accepts the same signature
  with every body.\<close>

theorem body_not_signed_without_hash:
  assumes "sr_header req ''x-amz-content-sha256'' = []"
  shows "verify_signature Y creds (req\<lparr>sr_body := b\<rparr>) = verify_signature Y creds req"
proof -
  have h: "sr_header (req\<lparr>sr_body := b\<rparr>) = sr_header req" by (simp add: sr_header_def fun_eq_iff)
  then have "canonical_header (req\<lparr>sr_body := b\<rparr>) = canonical_header req" by (simp add: canonical_header_def fun_eq_iff)
  then have "canonical_request Y (req\<lparr>sr_body := b\<rparr>) = canonical_request Y req"
    by (intro ext) (simp add: canonical_request_def canonical_headers_def)
  then have "signature_for_request Y creds (req\<lparr>sr_body := b\<rparr>) = signature_for_request Y creds req"
    by (intro ext) (simp add: signature_for_request_def string_to_sign_def h)
  then show ?thesis using assms
    by (simp add: verify_signature_def verify_authorization_header_def verify_header_shape_def h cong: if_cong option.case_cong)
qed

section \<open>Percent encoding\<close>

lemma hex_digit_value: "d < 16 \<Longrightarrow> hex_value (hex_digit_upper d) = Some d"
proof -
  have "list_all (\<lambda>d. hex_value (hex_digit_upper d) = Some d) [0..<16]" by code_simp
  then show "d < 16 \<Longrightarrow> ?thesis" by (simp add: list_all_iff)
qed

lemma hex_digit_plain: "d < 16 \<Longrightarrow> is_ascii_alphanumeric (hex_digit_upper d)"
proof -
  have "list_all (\<lambda>d. is_ascii_alphanumeric (hex_digit_upper d)) [0..<16]" by code_simp
  then show "d < 16 \<Longrightarrow> ?thesis" by (simp add: list_all_iff)
qed

lemma percent_not_alphanumeric: "\<not> is_ascii_alphanumeric (CHR ''%'')" "\<not> is_ascii_alphanumeric (CHR ''+'')"
  "\<not> is_ascii_alphanumeric (CHR ''&'')" "\<not> is_ascii_alphanumeric (CHR ''='')"
  by code_simp+

definition escapes :: "string \<Rightarrow> bool" where
  "escapes safe \<longleftrightarrow> list_all (\<lambda>c. c \<notin> set safe) ''%+''"

lemma decode_encoded_byte:
  "percent_byte (hex_digit_upper (ascii c div 16) # hex_digit_upper (ascii c mod 16) # s) = Some c"
proof -
  have "ascii c < 256" by (simp add: ascii_def)
  then have "ascii c div 16 < 16" by (simp add: less_mult_imp_div_less)
  then show ?thesis by (simp add: percent_byte_def hex_digit_value) (simp add: ascii_def)
qed

lemma decode_encode_bytes:
  assumes "escapes safe"
  shows "url_decode_bytes (aws_percent_encode v safe) = v"
proof (induction v)
  case (Cons c v)
  have "\<not> unreserved safe (CHR ''%'')" "\<not> unreserved safe (CHR ''+'')"
    using assms percent_not_alphanumeric by (simp_all add: unreserved_def escapes_def)
  then show ?case using Cons.IH
    by (cases "unreserved safe c") (auto simp: aws_percent_encode_def decode_encoded_byte)
qed (simp add: aws_percent_encode_def)

section \<open>UTF-8\<close>

lemma chunk_pos: "utf8_chunk a s = (n, ok) \<Longrightarrow> 1 \<le> n \<and> n \<le> length s + 1"
  by (cases s) (auto simp: utf8_chunk_def Let_def Suc_le_eq split: if_splits)

lemma lossy_valid: "valid_utf8 s \<Longrightarrow> from_utf8_lossy s = s"
proof (induction s rule: from_utf8_lossy.induct)
  case (2 a s)
  obtain n ok where c: "utf8_chunk a s = (n, ok)" by fastforce
  show ?case using "2.IH"[OF c[symmetric] refl] "2.prems" c by simp
qed simp

lemma chunk_length: "utf8_chunk a s = (n, ok) \<Longrightarrow> length (take (n - 1) s) = n - 1"
  using chunk_pos[of a s n ok] by auto

lemma chunk_cases:
  assumes "utf8_chunk a s = (n, True)"
  obtains (one) "n = 1" "utf8_width (ascii a) = 1"
    | (two) b r where "n = 2" "utf8_width (ascii a) = 2" "s = b # r" "utf8_second (ascii a) (ascii b)"
    | (three) b c r where "n = 3" "utf8_width (ascii a) = 3" "s = b # c # r" "utf8_second (ascii a) (ascii b)" "continuation c"
    | (four) b c d r where "n = 4" "utf8_width (ascii a) = 4" "s = b # c # d # r" "utf8_second (ascii a) (ascii b)" "continuation c" "continuation d"
proof -
  have w: "utf8_width (ascii a) \<le> 4" by (simp add: utf8_width_def)
  consider "s = []" | b where "s = [b]" | b c where "s = [b, c]" | b c d r where "s = b # c # d # r" by (metis neq_Nil_conv)
  then show ?thesis using assms w one two three four by cases (auto simp: utf8_chunk_def Let_def split: if_splits)
qed

lemma chunk_prefix:
  assumes "utf8_chunk a s = (n, True)"
  shows "utf8_chunk a (take (n - 1) s @ t) = (n, True)"
  using assms by (cases rule: chunk_cases) (simp_all add: utf8_chunk_def)

lemma replacement_chunk: "utf8_chunk (CHR 0xEF) ([CHR 0xBF, CHR 0xBD] @ t) = (3, True)"
  by (simp add: utf8_chunk_def utf8_width_def utf8_second_def continuation_def ascii_def)

lemma lossy_is_valid: "valid_utf8 (from_utf8_lossy s)"
proof (induction s rule: from_utf8_lossy.induct)
  case (2 a s)
  obtain n ok where c: "utf8_chunk a s = (n, ok)" by fastforce
  note IH = "2.IH"[OF c[symmetric] refl]
  show ?case
  proof (cases ok)
    case True
    have "drop (n - 1) (take (n - 1) s @ from_utf8_lossy (drop (n - 1) s)) = from_utf8_lossy (drop (n - 1) s)"
      using chunk_length[OF c] by (simp only: drop_append) simp
    then show ?thesis using IH chunk_prefix[of a s n] c True by simp
  next
    case False
    have "drop 2 ([CHR 0xBF, CHR 0xBD] @ from_utf8_lossy (drop (n - 1) s)) = from_utf8_lossy (drop (n - 1) s)" by simp
    then show ?thesis using IH c False replacement_chunk[of "from_utf8_lossy (drop (n - 1) s)"] by simp
  qed
qed simp

lemma url_decode_encode: "escapes safe \<Longrightarrow> valid_utf8 v \<Longrightarrow> url_decode (aws_percent_encode v safe) = v"
  by (simp add: url_decode_def decode_encode_bytes lossy_valid)

text \<open>Decoding inverts percent encoding on every text, whatever characters are kept as they are, as long as the percent sign and
  the plus sign are not among them.\<close>

theorem percent_encoding_round_trip:
  assumes "valid_utf8 v" "CHR ''%'' \<notin> set safe" "CHR ''+'' \<notin> set safe"
  shows "url_decode (aws_percent_encode v safe) = v"
  using assms by (intro url_decode_encode) (simp_all add: escapes_def)

section \<open>The canonical query string\<close>

lemma split_on_join:
  assumes "ws \<noteq> []" "\<And>w. w \<in> set ws \<Longrightarrow> c \<notin> set w"
  shows "split_on (\<lambda>x. x = c) (join [c] ws) = ws"
  using assms
proof (induction "[c]" ws rule: join.induct)
  case (3 w v ws)
  then have "split_on (\<lambda>x. x = c) (w @ c # join [c] (v # ws)) = w # split_on (\<lambda>x. x = c) (join [c] (v # ws))"
    by (intro split_on_append) auto
  then show ?case using 3 by simp
qed (auto intro: split_on_none)

definition encode_pair :: "string \<times> string \<Rightarrow> string" where
  "encode_pair p = aws_percent_encode (fst p) ''~-_'' @ ''='' @ aws_percent_encode (snd p) ''~-_''"

lemma encoded_chars:
  assumes "c \<in> set (aws_percent_encode v safe)"
  shows "unreserved safe c \<or> c = CHR ''%''"
proof -
  have "unreserved safe (hex_digit_upper (ascii d div 16)) \<and> unreserved safe (hex_digit_upper (ascii d mod 16))" for d
  proof -
    have "ascii d < 256" by (simp add: ascii_def)
    then have "ascii d div 16 < 16" by (simp add: less_mult_imp_div_less)
    then show ?thesis by (simp add: unreserved_def hex_digit_plain)
  qed
  then show ?thesis using assms by (auto simp: aws_percent_encode_def split: if_splits)
qed

lemma encoded_pair_chars: "CHR ''='' \<notin> set (aws_percent_encode v ''~-_'')" "CHR ''&'' \<notin> set (encode_pair p)"
  using encoded_chars[of _ _ "''~-_''"] percent_not_alphanumeric(3,4) by (auto simp: encode_pair_def unreserved_def)

lemma query_pair_encoded: "valid_utf8 (fst p) \<Longrightarrow> valid_utf8 (snd p) \<Longrightarrow> query_pair (encode_pair p) = p"
  using split_once_append[OF encoded_pair_chars(1)[of "fst p"]]
  by (simp add: query_pair_def encode_pair_def url_decode_encode escapes_def)

definition query_pairs :: "string \<Rightarrow> (string \<times> string) list" where
  "query_pairs q = sort_by cmp_pair (map query_pair (filter (\<lambda>p. p \<noteq> []) (split_on (\<lambda>c. c = CHR ''&'') q)))"

lemma sort_pairs: "sort_by cmp_pair ps = sort ps"
  using sort_by_key[of ps cmp_pair "\<lambda>p. p"] by (simp add: cmp_pair_def cmp_then)

lemma canonical_query_pairs: "canonical_query_string q = join ''&'' (map encode_pair (query_pairs q))"
proof -
  have "(\<lambda>(k, v). aws_percent_encode k ''~-_'' @ ''='' @ aws_percent_encode v ''~-_'') = encode_pair" by (auto simp: encode_pair_def)
  then show ?thesis by (simp add: canonical_query_string_def query_pairs_def sort_pairs)
qed

lemma query_pairs_valid: "p \<in> set (query_pairs q) \<Longrightarrow> valid_utf8 (fst p) \<and> valid_utf8 (snd p)"
  by (auto simp: query_pairs_def sort_pairs query_pair_def url_decode_def lossy_is_valid split: option.splits)

text \<open>The canonical query string is a normal form: canonicalising it again changes nothing.\<close>

theorem canonical_query_idempotent: "canonical_query_string (canonical_query_string q) = canonical_query_string q"
proof (cases "query_pairs q = []")
  case False
  let ?ps = "query_pairs q"
  have "split_on (\<lambda>c. c = CHR ''&'') (canonical_query_string q) = map encode_pair ?ps"
    unfolding canonical_query_pairs using False by (intro split_on_join) (auto simp: encoded_pair_chars)
  moreover have "filter (\<lambda>p. p \<noteq> []) (map encode_pair ?ps) = map encode_pair ?ps" by (simp add: filter_id_conv encode_pair_def)
  moreover have "map query_pair (map encode_pair ?ps) = ?ps" by (simp add: map_idI query_pair_encoded query_pairs_valid)
  ultimately have "query_pairs (canonical_query_string q) = sort ?ps" unfolding query_pairs_def[of "canonical_query_string q"] sort_pairs by simp
  also have "\<dots> = ?ps" by (simp add: query_pairs_def sort_pairs sorted_sort_id)
  finally show ?thesis by (simp only: canonical_query_pairs)
qed (simp add: canonical_query_pairs query_pairs_def sort_by_def)

section \<open>What a client signs is accepted\<close>

definition authorization_value :: "credentials \<Rightarrow> string \<Rightarrow> string \<Rightarrow> string \<Rightarrow> string" where
  "authorization_value creds date signed_headers signature =
     ALGORITHM @ '' Credential='' @ join ''/'' [access_key creds, date, sig_region creds, SERVICE, ''aws4_request'']
     @ '', SignedHeaders='' @ signed_headers @ '', Signature='' @ signature"

text \<open>A field of the Authorization header: visible characters, without the separators.\<close>

definition auth_field :: "string \<Rightarrow> bool" where
  "auth_field w \<longleftrightarrow> w \<noteq> [] \<and> list_all (\<lambda>c. visible c \<and> c \<notin> set '',/'') w"

definition hex_text :: "sig_crates \<Rightarrow> bool" where
  "hex_text Y \<longleftrightarrow> (\<forall>v. auth_field (sig_hex_encode Y v) \<and> to_lowercase Y (sig_hex_encode Y v) = sig_hex_encode Y v)"

lemma auth_fieldD: "auth_field w \<Longrightarrow> w \<noteq> []" "auth_field w \<Longrightarrow> list_all visible w" "auth_field w \<Longrightarrow> CHR '','' \<notin> set w"
  "auth_field w \<Longrightarrow> CHR ''/'' \<notin> set w"
  by (auto simp: auth_field_def list_all_iff)

lemma strip_prefix_append: "strip_prefix (p @ s) p = Some s"
  by (simp add: strip_prefix_def)

lemma auth_param_parsed:
  assumes "auth_field a" "auth_field d" "auth_field r" "auth_field sh" "auth_field sg"
  shows "parse_auth_params (''Credential='' @ join ''/'' [a, d, r, SERVICE, ''aws4_request''] @ '', SignedHeaders='' @ sh @ '', Signature='' @ sg)
    = [(''Credential'', join ''/'' [a, d, r, SERVICE, ''aws4_request'']), (''Signature'', sg), (''SignedHeaders'', sh)]"
proof -
  let ?c = "''Credential='' @ join ''/'' [a, d, r, SERVICE, ''aws4_request'']"
  let ?h = "''SignedHeaders='' @ sh" and ?g = "''Signature='' @ sg"
  have "split_on (\<lambda>c. c = CHR '','') (join '','' [?c, '' '' @ ?h, '' '' @ ?g]) = [?c, '' '' @ ?h, '' '' @ ?g]"
    using auth_fieldD(3) assms by (intro split_on_join) (auto simp: SERVICE_def)
  moreover have "list_all visible ?c" "list_all visible ?h" "list_all visible ?g"
    using auth_fieldD(2) assms by (auto simp: SERVICE_def visible_def ascii_def)
  then have "trim ?c = ?c" "trim ('' '' @ ?h) = ?h" "trim ('' '' @ ?g) = ?g"
    using trim_word trim_blank_left by (simp_all only: append_Cons append_Nil)
  moreover have "split_once (CHR ''='') ?c = Some (''Credential'', join ''/'' [a, d, r, SERVICE, ''aws4_request''])"
    "split_once (CHR ''='') ?h = Some (''SignedHeaders'', sh)" "split_once (CHR ''='') ?g = Some (''Signature'', sg)"
    by (subst split_once_Some_iff, simp)+
  ultimately show ?thesis unfolding parse_auth_params_def by simp
qed


section \<open>In front of the dispatch\<close>

text \<open>The refusal of the signature check, as \<open>dispatch\<close> of \<open>http.rs\<close> reports it.\<close>

definition signature_refusal :: "sig_crates \<Rightarrow> credentials \<Rightarrow> signed_request \<Rightarrow> (nat \<times> string) option" where
  "signature_refusal Y creds req = (case verify_signature Y creds req of Inl e \<Rightarrow> Some (se_status e, se_code e) | Inr _ \<Rightarrow> None)"

text \<open>In strict mode the data is reached only by signed requests: a call whose signature is not the one of the server's secret is
  answered with an error and leaves the server exactly as it was.\<close>

theorem unsigned_call_refused:
  assumes "strict creds" "call_signature c = signature_refusal Y creds req"
    "\<And>values date payload. authorization_params req = Some values \<Longrightarrow>
       auth_param values ''Signature'' \<noteq> signature_for_request Y creds req date (sig_region creds) (auth_param values ''SignedHeaders'') payload"
  shows "\<exists>out. dispatch X D decode c s = Some (out, s) \<and> out_error_type out \<noteq> None"
proof -
  have "verify_signature Y creds req \<noteq> Inr ()"
    using accepted_parts[OF assms(1)] assms(3) by blast
  then obtain e where "verify_signature Y creds req = Inl e" by (cases "verify_signature Y creds req") auto
  then show ?thesis using assms(2) by (simp add: dispatch_def signature_refusal_def from_error_def)
qed

section \<open>Samples\<close>

definition sample_sig :: sig_crates where
  "sample_sig = \<lparr>sha256 = (\<lambda>v. v), hmac = (\<lambda>k v. k @ v), sig_hex_encode = (\<lambda>v. replicate (length v + 1) (CHR ''a'')), unicode_lower = (\<lambda>s. s)\<rparr>"

definition strict_creds :: credentials where
  "strict_creds = \<lparr>cr_auth_mode = ''strict'', cr_region = [], cr_access_key_id = [], cr_secret_access_key = ''s3cret''\<rparr>"

definition request_with :: "string \<Rightarrow> signed_request" where
  "request_with auth = \<lparr>sr_method = ''POST'', sr_path = ''/'', sr_query = [], sr_host = ''localhost'',
     sr_headers = [(''authorization'', auth), (''x-amz-date'', ''20260101T000000Z'')], sr_body = ''{}''\<rparr>"

definition client_request :: signed_request where
  "client_request = request_with (authorization_value strict_creds ''20260101'' ''host;x-amz-date''
     (signature_for_request sample_sig strict_creds (request_with []) ''20260101'' ''us-east-1'' ''host;x-amz-date'' ''UNSIGNED-PAYLOAD''))"

lemma sample_hex_text: "hex_text sample_sig"
  unfolding hex_text_def sample_sig_def
  by (auto simp: auth_field_def visible_def ascii_def list_all_iff to_lowercase_def is_ascii_def to_ascii_lowercase_def ascii_lower_def
      is_ascii_uppercase_def)



theorem body_not_signed_without_hash_witness:
  "verify_signature sample_sig strict_creds (client_request\<lparr>sr_body := ''forged''\<rparr>) = verify_signature sample_sig strict_creds client_request"
proof -
  have "sr_header client_request ''x-amz-content-sha256'' = []" by code_simp
  then show ?thesis by (rule body_not_signed_without_hash)
qed

theorem percent_encoding_round_trip_witness:
  "aws_percent_encode [CHR ''a'', CHR '' '', CHR 0xC3, CHR 0xA9] ''~-_'' = ''a%20%C3%A9''
   \<and> url_decode (aws_percent_encode [CHR ''a'', CHR '' '', CHR 0xC3, CHR 0xA9] ''~-_'') = [CHR ''a'', CHR '' '', CHR 0xC3, CHR 0xA9]"
proof -
  have e: "aws_percent_encode [CHR ''a'', CHR '' '', CHR 0xC3, CHR 0xA9] ''~-_'' = ''a%20%C3%A9''" by code_simp
  have "valid_utf8 [CHR ''a'', CHR '' '', CHR 0xC3, CHR 0xA9]" by code_simp
  from percent_encoding_round_trip[OF this, of "''~-_''"] e show ?thesis by simp
qed

definition forged_request :: signed_request where
  "forged_request = request_with (authorization_value strict_creds ''20260101'' ''host'' ''forged'')"

definition forged_call :: ddb_call where
  "forged_call = (sample_call ''DynamoDB_20120810.DeleteTable'' ''{}'' disk_ok)\<lparr>call_signature := signature_refusal sample_sig strict_creds forged_request\<rparr>"

theorem unsigned_call_refused_witness:
  "\<exists>out. dispatch sample_ddb reading_parsers sample_decode forged_call sample_state = Some (out, sample_state) \<and> out_error_type out \<noteq> None"
proof (rule unsigned_call_refused)
  show "strict strict_creds" by code_simp
  show "call_signature forged_call = signature_refusal sample_sig strict_creds forged_request" by (simp add: forged_call_def)
  fix "values" date payload
  assume "authorization_params forged_request = Some values"
  moreover have "map_option (\<lambda>v. auth_param v ''Signature'') (authorization_params forged_request) = Some ''forged''" by code_simp
  ultimately have g: "auth_param values ''Signature'' = ''forged''" by simp
  show "auth_param values ''Signature'' \<noteq> signature_for_request sample_sig strict_creds forged_request date (sig_region strict_creds)
      (auth_param values ''SignedHeaders'') payload"
    unfolding g by (simp add: signature_for_request_def sample_sig_def)
qed

end
