(* ===== verification/Auto_Scaling.thy ===== *)
theory Auto_Scaling
  imports Contracts Json_Value Time_Fmt
begin

text \<open>
  \<open>services/applicationautoscaling/src/{types,server,http}.rs\<close>: scalable targets, scaling policies, scheduled actions and
  tags. The \<open>Server\<close> struct is the record \<open>as_server\<close>: the configuration, the \<open>State\<close> behind the mutex, the load error, the
  process-wide counter of \<open>new_uuid\<close>, and the decoded content of \<open>state.json\<close> beside it (\<open>as_file\<close>, \<open>None\<close> when there is no
  file). Decoding a request body (\<open>serde_json\<close>) and \<open>hex::encode\<close> are parameters, in the record \<open>as_crates\<close>. An operation
  returns its \<open>Outcome\<close> with the server after it.
\<close>

section \<open>Data\<close>

record suspended_state =
  dynamic_scaling_in_suspended :: "bool option"
  dynamic_scaling_out_suspended :: "bool option"
  scheduled_scaling_suspended :: "bool option"

record scalable_target =
  tgt_service_namespace :: string
  tgt_resource_id :: string
  tgt_scalable_dimension :: string
  tgt_min_capacity :: int
  tgt_max_capacity :: int
  tgt_role_arn :: string
  tgt_suspended_state :: suspended_state
  tgt_creation_time :: string

record scaling_policy =
  pol_policy_arn :: string
  pol_policy_name :: string
  pol_service_namespace :: string
  pol_resource_id :: string
  pol_scalable_dimension :: string
  pol_policy_type :: string
  pol_step_configuration :: "json option"
  pol_target_tracking_configuration :: "json option"
  pol_alarms :: "json list"
  pol_creation_time :: string

record scheduled_action =
  act_scheduled_action_name :: string
  act_service_namespace :: string
  act_resource_id :: string
  act_scalable_dimension :: string
  act_schedule :: string
  act_timezone :: string
  act_start_time :: "string option"
  act_end_time :: "string option"
  act_scalable_target_action :: "json option"
  act_creation_time :: string

text \<open>\<open>State\<close>, which is also the content of \<open>PersistedState\<close>.\<close>

record as_state =
  scalable_targets :: "(string, scalable_target) bmap"
  scaling_policies :: "(string, scaling_policy) bmap"
  scheduled_actions :: "(string, scheduled_action) bmap"
  as_tags :: "(string, (string, string) bmap) bmap"

record as_config =
  as_region :: string
  as_account_id :: string
  as_storage_path :: string

record as_server =
  as_config :: as_config
  as_state :: as_state
  as_load_err :: "string option"
  as_counter :: "64 word"
  as_file :: "as_state option"

record as_outcome =
  as_status :: nat
  as_error_type :: "string option"
  as_body :: json

section \<open>Requests\<close>

record register_scalable_target_request =
  rst_service_namespace :: string
  rst_resource_id :: string
  rst_scalable_dimension :: string
  rst_min_capacity :: "int option"
  rst_max_capacity :: "int option"
  rst_role_arn :: string
  rst_suspended_state :: "suspended_state option"

record describe_scalable_targets_request =
  dst_service_namespace :: string
  dst_resource_ids :: "string list"
  dst_scalable_dimension :: string

record deregister_scalable_target_request =
  drt_service_namespace :: string
  drt_resource_id :: string
  drt_scalable_dimension :: string

record put_scaling_policy_request =
  psp_policy_name :: string
  psp_service_namespace :: string
  psp_resource_id :: string
  psp_scalable_dimension :: string
  psp_policy_type :: string
  psp_step_configuration :: "json option"
  psp_target_tracking_configuration :: "json option"

record describe_scaling_policies_request =
  dsp_policy_names :: "string list"
  dsp_service_namespace :: string
  dsp_resource_id :: string
  dsp_scalable_dimension :: string

record delete_scaling_policy_request =
  xsp_policy_name :: string
  xsp_service_namespace :: string
  xsp_resource_id :: string
  xsp_scalable_dimension :: string

record describe_scaling_activities_request =
  dsa_service_namespace :: string

record put_scheduled_action_request =
  psa_service_namespace :: string
  psa_scheduled_action_name :: string
  psa_resource_id :: string
  psa_scalable_dimension :: string
  psa_schedule :: string
  psa_timezone :: string
  psa_start_time :: "string option"
  psa_end_time :: "string option"
  psa_scalable_target_action :: "json option"

record describe_scheduled_actions_request =
  dsc_service_namespace :: string
  dsc_scheduled_action_names :: "string list"
  dsc_resource_id :: string
  dsc_scalable_dimension :: string

record delete_scheduled_action_request =
  xsa_service_namespace :: string
  xsa_scheduled_action_name :: string
  xsa_resource_id :: string
  xsa_scalable_dimension :: string

record as_tag_resource_request =
  atr_resource_arn :: string
  atr_tags :: "(string, string) bmap"

record as_untag_resource_request =
  aur_resource_arn :: string
  aur_tag_keys :: "string list"

record list_tags_for_resource_request =
  ltr_resource_arn :: string

record as_crates =
  as_decode_register :: "string \<Rightarrow> register_scalable_target_request option"
  as_decode_describe_targets :: "string \<Rightarrow> describe_scalable_targets_request option"
  as_decode_deregister :: "string \<Rightarrow> deregister_scalable_target_request option"
  as_decode_put_policy :: "string \<Rightarrow> put_scaling_policy_request option"
  as_decode_describe_policies :: "string \<Rightarrow> describe_scaling_policies_request option"
  as_decode_delete_policy :: "string \<Rightarrow> delete_scaling_policy_request option"
  as_decode_activities :: "string \<Rightarrow> describe_scaling_activities_request option"
  as_decode_put_action :: "string \<Rightarrow> put_scheduled_action_request option"
  as_decode_describe_actions :: "string \<Rightarrow> describe_scheduled_actions_request option"
  as_decode_delete_action :: "string \<Rightarrow> delete_scheduled_action_request option"
  as_decode_tag :: "string \<Rightarrow> as_tag_resource_request option"
  as_decode_untag :: "string \<Rightarrow> as_untag_resource_request option"
  as_decode_list_tags :: "string \<Rightarrow> list_tags_for_resource_request option"
  hex_encode :: "8 word list \<Rightarrow> string"

section \<open>Outcomes and keys\<close>

text \<open>A value built by \<open>json!\<close> or \<open>to_value\<close>: the members of an object are sorted.\<close>

definition json_object :: "(string \<times> json) list \<Rightarrow> json" where
  "json_object es = Object (bt_extend [] es)"

definition as_outcome_ok :: "json \<Rightarrow> as_outcome" where
  "as_outcome_ok b = \<lparr>as_status = 200, as_error_type = None, as_body = b\<rparr>"

definition as_error_outcome :: "nat \<Rightarrow> string \<Rightarrow> string \<Rightarrow> as_outcome" where
  "as_error_outcome status name message =
     \<lparr>as_status = status, as_error_type = Some name,
      as_body = json_object [(''__type'', String (''com.amazonaws.application-autoscaling.v20160206#'' @ name)), (''message'', String message)]\<rparr>"

definition as_validation :: "string \<Rightarrow> as_outcome" where
  "as_validation message = as_error_outcome 400 ''ValidationException'' message"

definition as_persist_error :: as_outcome where
  "as_persist_error = as_error_outcome 500 ''InternalServerError'' ''failed to persist application-autoscaling state''"

definition as_decode :: "(string \<Rightarrow> 'a option) \<Rightarrow> string \<Rightarrow> as_outcome + 'a" where
  "as_decode from_slice body = or_else (from_slice body) (as_error_outcome 400 ''SerializationException'' ''invalid json request'')"

definition SUPPORTED_NAMESPACE :: string where
  "SUPPORTED_NAMESPACE = ''dynamodb''"

definition validate_namespace :: "string \<Rightarrow> as_outcome + unit" where
  "validate_namespace ns =
     (if ns = [] then Inl (as_validation ''ServiceNamespace is required'')
      else if ns \<noteq> SUPPORTED_NAMESPACE then Inl (as_validation ''only dynamodb namespace is supported'')
      else Inr ())"

definition scalable_target_key :: "string \<Rightarrow> string \<Rightarrow> string \<Rightarrow> string" where
  "scalable_target_key namespace resource_id dimension = join ''|'' [namespace, resource_id, dimension]"

definition scaling_policy_key :: "string \<Rightarrow> string \<Rightarrow> string \<Rightarrow> string \<Rightarrow> string" where
  "scaling_policy_key namespace resource_id dimension policy = join ''|'' [namespace, resource_id, dimension, policy]"

definition scheduled_action_key :: "string \<Rightarrow> string \<Rightarrow> string \<Rightarrow> string \<Rightarrow> string" where
  "scheduled_action_key namespace resource_id dimension name = join ''|'' [namespace, resource_id, dimension, name]"

definition restore_entry :: "string \<Rightarrow> 'v option \<Rightarrow> (string, 'v) bmap \<Rightarrow> (string, 'v) bmap" where
  "restore_entry key previous m = (case previous of Some v \<Rightarrow> bt_insert key v m | None \<Rightarrow> bt_remove key m)"

text \<open>The entries removed and the map without them.\<close>

definition drain_matching :: "string \<Rightarrow> (string, 'v) bmap \<Rightarrow> (string \<times> 'v) list \<times> (string, 'v) bmap" where
  "drain_matching prefix m =
     (filter (\<lambda>(k, _). starts_with k prefix) m,
      fold (\<lambda>(k, _). bt_remove k) (filter (\<lambda>(k, _). starts_with k prefix) m) m)"

text \<open>\<open>new_uuid\<close>: the clock in nanoseconds and the counter, both as eight big-endian bytes, with the version and variant bits.\<close>

definition be64 :: "64 word \<Rightarrow> 8 word list" where
  "be64 w = map (\<lambda>i. ucast (drop_bit (8 * i) w)) [7, 6, 5, 4, 3, 2, 1, 0]"

definition uuid_bytes :: "64 word \<Rightarrow> 64 word \<Rightarrow> 8 word list" where
  "uuid_bytes nanos n =
     (let b = be64 nanos @ be64 n;
          b = b[6 := or (and (b ! 6) 0x0F) 0x40] in
      b[8 := or (and (b ! 8) 0x3F) 0x80])"

definition new_uuid :: "as_crates \<Rightarrow> nat \<Rightarrow> 64 word \<Rightarrow> string" where
  "new_uuid X now n =
     (let h = hex_encode X (uuid_bytes (of_nat now) n) in
      join ''-'' [take 8 h, take 4 (drop 8 h), take 4 (drop 12 h), take 4 (drop 16 h), take 12 (drop 20 h)])"

definition build_policy_arn :: "string \<Rightarrow> string \<Rightarrow> string \<Rightarrow> string \<Rightarrow> string \<Rightarrow> string \<Rightarrow> string" where
  "build_policy_arn uuid region account namespace resource_id policy_name =
     ''arn:aws:autoscaling:'' @ region @ '':'' @ account @ '':scalingPolicy:'' @ uuid @ '':resource/'' @ namespace @ ''/'' @ resource_id
     @ '':policyName/'' @ policy_name"

definition as_default_str :: "string \<Rightarrow> string \<Rightarrow> string" where
  "as_default_str value fallback = (if value = [] then fallback else value)"

section \<open>Starting and saving\<close>

datatype as_state_read =
    As_missing
  | As_unreadable string
  | As_undecodable string
  | As_state_of as_state

definition empty_state :: as_state where
  "empty_state = \<lparr>scalable_targets = [], scaling_policies = [], scheduled_actions = [], as_tags = []\<rparr>"

definition as_load :: "as_state_read \<Rightarrow> as_server \<Rightarrow> unit result \<times> as_server" where
  "as_load f s =
     (case f of
        As_missing \<Rightarrow> (Inr (), s)
      | As_unreadable e \<Rightarrow> (Inl e, s)
      | As_undecodable e \<Rightarrow> (Inl e, s)
      | As_state_of st \<Rightarrow> (Inr (), s\<lparr>as_state := st\<rparr>))"

definition as_new :: "as_config \<Rightarrow> as_state_read \<Rightarrow> as_server" where
  "as_new c f =
     (let s = \<lparr>as_config = c, as_state = empty_state, as_load_err = None, as_counter = 0,
               as_file = (case f of As_state_of st \<Rightarrow> Some st | _ \<Rightarrow> None)\<rparr> in
      if as_storage_path c = [] then s
      else (case as_load f s of
              (Inl e, s') \<Rightarrow> s'\<lparr>as_load_err := Some e\<rparr>
            | (Inr _, s') \<Rightarrow> s'))"

text \<open>The file is replaced by a rename, so it changes only when all three steps succeed.\<close>

definition as_persist :: "fs_outcome \<Rightarrow> as_server \<Rightarrow> unit result \<times> as_server" where
  "as_persist io s =
     (if as_storage_path (as_config s) = [] then (Inr (), s)
      else case create_dir_err io of Some e \<Rightarrow> (Inl e, s)
      | None \<Rightarrow> (case write_err io of Some e \<Rightarrow> (Inl e, s)
      | None \<Rightarrow> (case rename_err io of Some e \<Rightarrow> (Inl e, s)
      | None \<Rightarrow> (Inr (), s\<lparr>as_file := Some (as_state s)\<rparr>))))"

text \<open>The tail of every handler that changes the state: save it, or undo the change.\<close>

definition as_save_or_undo :: "fs_outcome \<Rightarrow> (as_state \<Rightarrow> as_state) \<Rightarrow> json \<Rightarrow> as_server \<Rightarrow> as_outcome \<times> as_server" where
  "as_save_or_undo io undo body s =
     (case as_persist io s of
        (Inl _, s') \<Rightarrow> (as_persist_error, s'\<lparr>as_state := undo (as_state s')\<rparr>)
      | (Inr _, s') \<Rightarrow> (as_outcome_ok body, s'))"

section \<open>Scalable targets\<close>

definition registered_target :: "string \<Rightarrow> register_scalable_target_request \<Rightarrow> scalable_target option \<Rightarrow> scalable_target" where
  "registered_target now req existing =
     (let t = \<lparr>tgt_service_namespace = rst_service_namespace req, tgt_resource_id = rst_resource_id req,
               tgt_scalable_dimension = rst_scalable_dimension req, tgt_min_capacity = 0, tgt_max_capacity = 0,
               tgt_role_arn = rst_role_arn req, tgt_suspended_state = \<lparr>dynamic_scaling_in_suspended = None,
                 dynamic_scaling_out_suspended = None, scheduled_scaling_suspended = None\<rparr>, tgt_creation_time = now\<rparr>;
          t = (case existing of None \<Rightarrow> t | Some e \<Rightarrow>
                 t\<lparr>tgt_creation_time := tgt_creation_time e, tgt_min_capacity := tgt_min_capacity e, tgt_max_capacity := tgt_max_capacity e,
                   tgt_role_arn := (if rst_role_arn req \<noteq> [] then rst_role_arn req else tgt_role_arn e),
                   tgt_suspended_state := tgt_suspended_state e\<rparr>);
          t = (case rst_min_capacity req of Some m \<Rightarrow> t\<lparr>tgt_min_capacity := m\<rparr> | None \<Rightarrow> t);
          t = (case rst_max_capacity req of Some m \<Rightarrow> t\<lparr>tgt_max_capacity := m\<rparr> | None \<Rightarrow> t) in
      case rst_suspended_state req of Some u \<Rightarrow> t\<lparr>tgt_suspended_state := u\<rparr> | None \<Rightarrow> t)"

definition register_scalable_target :: "as_crates \<Rightarrow> env \<Rightarrow> string \<Rightarrow> as_server \<Rightarrow> as_outcome \<times> as_server" where
  "register_scalable_target X E body s =
     (case as_decode (as_decode_register X) body of Inl o' \<Rightarrow> (o', s) | Inr req \<Rightarrow>
      (case validate_namespace (rst_service_namespace req) of Inl o' \<Rightarrow> (o', s) | Inr _ \<Rightarrow>
       if rst_resource_id req = [] then (as_validation ''ResourceId is required'', s)
       else if rst_scalable_dimension req = [] then (as_validation ''ScalableDimension is required'', s)
       else let key = scalable_target_key (rst_service_namespace req) (rst_resource_id req) (rst_scalable_dimension req);
                previous = map_of (scalable_targets (as_state s)) key in
         as_save_or_undo (fs E) (scalable_targets_update (restore_entry key previous)) (Object [])
           (as_state_update (scalable_targets_update (bt_insert key (registered_target (now_rfc3339 (clock E 0)) req previous))) s)))"

definition opt_member :: "string \<Rightarrow> ('a \<Rightarrow> json) \<Rightarrow> 'a option \<Rightarrow> (string \<times> json) list" where
  "opt_member name f v = (case v of Some x \<Rightarrow> [(name, f x)] | None \<Rightarrow> [])"

definition str_member :: "string \<Rightarrow> string \<Rightarrow> (string \<times> json) list" where
  "str_member name v = (if v = [] then [] else [(name, String v)])"

definition suspended_state_json :: "suspended_state \<Rightarrow> json" where
  "suspended_state_json u = json_object (
     opt_member ''DynamicScalingInSuspended'' Bool (dynamic_scaling_in_suspended u) @
     opt_member ''DynamicScalingOutSuspended'' Bool (dynamic_scaling_out_suspended u) @
     opt_member ''ScheduledScalingSuspended'' Bool (scheduled_scaling_suspended u))"

definition scalable_target_json :: "scalable_target \<Rightarrow> json" where
  "scalable_target_json t = json_object (
     [(''ServiceNamespace'', String (tgt_service_namespace t)), (''ResourceId'', String (tgt_resource_id t)),
      (''ScalableDimension'', String (tgt_scalable_dimension t)), (''MinCapacity'', Number (Int_num (tgt_min_capacity t))),
      (''MaxCapacity'', Number (Int_num (tgt_max_capacity t)))] @
     str_member ''RoleARN'' (tgt_role_arn t) @
     [(''SuspendedState'', suspended_state_json (tgt_suspended_state t)), (''CreationTime'', String (tgt_creation_time t))])"

definition selects_target :: "describe_scalable_targets_request \<Rightarrow> scalable_target \<Rightarrow> bool" where
  "selects_target req t \<longleftrightarrow>
     tgt_service_namespace t = dst_service_namespace req
     \<and> (dst_resource_ids req = [] \<or> tgt_resource_id t \<in> set (dst_resource_ids req))
     \<and> (dst_scalable_dimension req = [] \<or> tgt_scalable_dimension t = dst_scalable_dimension req)"

definition describe_scalable_targets :: "as_crates \<Rightarrow> string \<Rightarrow> as_server \<Rightarrow> as_outcome" where
  "describe_scalable_targets X body s =
     (case as_decode (as_decode_describe_targets X) body of Inl o' \<Rightarrow> o' | Inr req \<Rightarrow>
      (case validate_namespace (dst_service_namespace req) of Inl o' \<Rightarrow> o' | Inr _ \<Rightarrow>
       as_outcome_ok (json_object [(''ScalableTargets'',
         Array (map scalable_target_json (filter (selects_target req) (map snd (scalable_targets (as_state s))))))])))"

definition deregister_scalable_target :: "as_crates \<Rightarrow> env \<Rightarrow> string \<Rightarrow> as_server \<Rightarrow> as_outcome \<times> as_server" where
  "deregister_scalable_target X E body s =
     (case as_decode (as_decode_deregister X) body of Inl o' \<Rightarrow> (o', s) | Inr req \<Rightarrow>
      (case validate_namespace (drt_service_namespace req) of Inl o' \<Rightarrow> (o', s) | Inr _ \<Rightarrow>
       if drt_resource_id req = [] \<or> drt_scalable_dimension req = [] then
         (as_validation ''ResourceId and ScalableDimension are required'', s)
       else let key = scalable_target_key (drt_service_namespace req) (drt_resource_id req) (drt_scalable_dimension req);
                st = as_state s in
         (case map_of (scalable_targets st) key of
            None \<Rightarrow> (as_error_outcome 400 ''ObjectNotFoundException'' ''scalable target not found'', s)
          | Some removed_target \<Rightarrow>
              let (removed_policies, policies) = drain_matching (key @ ''|'') (scaling_policies st);
                  (removed_actions, actions) = drain_matching (key @ ''|'') (scheduled_actions st) in
              as_save_or_undo (fs E)
                (\<lambda>st'. st'\<lparr>scalable_targets := bt_insert key removed_target (scalable_targets st'),
                   scaling_policies := bt_extend (scaling_policies st') removed_policies,
                   scheduled_actions := bt_extend (scheduled_actions st') removed_actions\<rparr>)
                (Object [])
                (s\<lparr>as_state := st\<lparr>scalable_targets := bt_remove key (scalable_targets st), scaling_policies := policies,
                   scheduled_actions := actions\<rparr>\<rparr>))))"

section \<open>Scaling policies\<close>

definition put_policy_type :: "put_scaling_policy_request \<Rightarrow> string" where
  "put_policy_type req = (if psp_policy_type req = [] then ''StepScaling'' else psp_policy_type req)"

text \<open>The stored policy; the ARN of a new one takes a UUID, and with it a value of the counter.\<close>

definition put_policy_entry :: "string \<Rightarrow> string \<Rightarrow> put_scaling_policy_request \<Rightarrow> scaling_policy option \<Rightarrow> scaling_policy" where
  "put_policy_entry now new_arn req existing =
     \<lparr>pol_policy_arn = (case existing of Some e \<Rightarrow> pol_policy_arn e | None \<Rightarrow> new_arn),
      pol_policy_name = psp_policy_name req, pol_service_namespace = psp_service_namespace req,
      pol_resource_id = psp_resource_id req, pol_scalable_dimension = psp_scalable_dimension req,
      pol_policy_type = put_policy_type req, pol_step_configuration = psp_step_configuration req,
      pol_target_tracking_configuration = psp_target_tracking_configuration req, pol_alarms = [],
      pol_creation_time = (case existing of Some e \<Rightarrow> pol_creation_time e | None \<Rightarrow> now)\<rparr>"

definition put_scaling_policy :: "as_crates \<Rightarrow> env \<Rightarrow> string \<Rightarrow> as_server \<Rightarrow> as_outcome \<times> as_server" where
  "put_scaling_policy X E body s =
     (case as_decode (as_decode_put_policy X) body of Inl o' \<Rightarrow> (o', s) | Inr req \<Rightarrow>
      (case validate_namespace (psp_service_namespace req) of Inl o' \<Rightarrow> (o', s) | Inr _ \<Rightarrow>
       if psp_policy_name req = [] then (as_validation ''PolicyName is required'', s)
       else if psp_resource_id req = [] \<or> psp_scalable_dimension req = [] then
         (as_validation ''ResourceId and ScalableDimension are required'', s)
       else if put_policy_type req \<noteq> ''StepScaling'' \<and> put_policy_type req \<noteq> ''TargetTrackingScaling'' then
         (as_validation ''PolicyType must be StepScaling or TargetTrackingScaling'', s)
       else let key = scaling_policy_key (psp_service_namespace req) (psp_resource_id req) (psp_scalable_dimension req) (psp_policy_name req);
                region = as_default_str (as_region (as_config s)) ''us-east-1'';
                account = as_default_str (as_account_id (as_config s)) ''000000000000'';
                previous = map_of (scaling_policies (as_state s)) key;
                new_arn = build_policy_arn (new_uuid X (clock E 1) (as_counter s)) region account
                  (psp_service_namespace req) (psp_resource_id req) (psp_policy_name req);
                policy = put_policy_entry (now_rfc3339 (clock E 0)) new_arn req previous;
                s = (if previous = None then s\<lparr>as_counter := as_counter s + 1\<rparr> else s) in
         as_save_or_undo (fs E) (scaling_policies_update (restore_entry key previous))
           (json_object [(''PolicyARN'', String (pol_policy_arn policy)), (''Alarms'', Array [])])
           (as_state_update (scaling_policies_update (bt_insert key policy)) s)))"

definition scaling_policy_json :: "scaling_policy \<Rightarrow> json" where
  "scaling_policy_json p = json_object (
     [(''PolicyARN'', String (pol_policy_arn p)), (''PolicyName'', String (pol_policy_name p)),
      (''ServiceNamespace'', String (pol_service_namespace p)), (''ResourceId'', String (pol_resource_id p)),
      (''ScalableDimension'', String (pol_scalable_dimension p)), (''PolicyType'', String (pol_policy_type p))] @
     opt_member ''StepScalingPolicyConfiguration'' (\<lambda>v. v) (pol_step_configuration p) @
     opt_member ''TargetTrackingScalingPolicyConfiguration'' (\<lambda>v. v) (pol_target_tracking_configuration p) @
     [(''Alarms'', Array (pol_alarms p)), (''CreationTime'', String (pol_creation_time p))])"

definition selects_policy :: "describe_scaling_policies_request \<Rightarrow> scaling_policy \<Rightarrow> bool" where
  "selects_policy req p \<longleftrightarrow>
     pol_service_namespace p = dsp_service_namespace req
     \<and> (dsp_resource_id req = [] \<or> pol_resource_id p = dsp_resource_id req)
     \<and> (dsp_scalable_dimension req = [] \<or> pol_scalable_dimension p = dsp_scalable_dimension req)
     \<and> (dsp_policy_names req = [] \<or> pol_policy_name p \<in> set (dsp_policy_names req))"

definition describe_scaling_policies :: "as_crates \<Rightarrow> string \<Rightarrow> as_server \<Rightarrow> as_outcome" where
  "describe_scaling_policies X body s =
     (case as_decode (as_decode_describe_policies X) body of Inl o' \<Rightarrow> o' | Inr req \<Rightarrow>
      (case validate_namespace (dsp_service_namespace req) of Inl o' \<Rightarrow> o' | Inr _ \<Rightarrow>
       as_outcome_ok (json_object [(''ScalingPolicies'',
         Array (map scaling_policy_json (filter (selects_policy req) (map snd (scaling_policies (as_state s))))))])))"

definition delete_scaling_policy :: "as_crates \<Rightarrow> env \<Rightarrow> string \<Rightarrow> as_server \<Rightarrow> as_outcome \<times> as_server" where
  "delete_scaling_policy X E body s =
     (case as_decode (as_decode_delete_policy X) body of Inl o' \<Rightarrow> (o', s) | Inr req \<Rightarrow>
      (case validate_namespace (xsp_service_namespace req) of Inl o' \<Rightarrow> (o', s) | Inr _ \<Rightarrow>
       if xsp_policy_name req = [] \<or> xsp_resource_id req = [] \<or> xsp_scalable_dimension req = [] then
         (as_validation ''PolicyName, ResourceId, and ScalableDimension are required'', s)
       else let key = scaling_policy_key (xsp_service_namespace req) (xsp_resource_id req) (xsp_scalable_dimension req) (xsp_policy_name req) in
         (case map_of (scaling_policies (as_state s)) key of
            None \<Rightarrow> (as_error_outcome 400 ''ObjectNotFoundException'' ''scaling policy not found'', s)
          | Some removed \<Rightarrow>
              as_save_or_undo (fs E) (scaling_policies_update (bt_insert key removed)) (Object [])
                (as_state_update (scaling_policies_update (bt_remove key)) s))))"

definition describe_scaling_activities :: "as_crates \<Rightarrow> string \<Rightarrow> as_outcome" where
  "describe_scaling_activities X body =
     (case as_decode (as_decode_activities X) body of Inl o' \<Rightarrow> o' | Inr req \<Rightarrow>
      (case validate_namespace (dsa_service_namespace req) of Inl o' \<Rightarrow> o' | Inr _ \<Rightarrow>
       as_outcome_ok (json_object [(''ScalingActivities'', Array [])])))"

section \<open>Scheduled actions\<close>

definition put_action_entry :: "string \<Rightarrow> put_scheduled_action_request \<Rightarrow> scheduled_action option \<Rightarrow> scheduled_action" where
  "put_action_entry now req existing =
     \<lparr>act_scheduled_action_name = psa_scheduled_action_name req, act_service_namespace = psa_service_namespace req,
      act_resource_id = psa_resource_id req, act_scalable_dimension = psa_scalable_dimension req,
      act_schedule = psa_schedule req, act_timezone = psa_timezone req, act_start_time = psa_start_time req,
      act_end_time = psa_end_time req, act_scalable_target_action = psa_scalable_target_action req,
      act_creation_time = (case existing of Some e \<Rightarrow> act_creation_time e | None \<Rightarrow> now)\<rparr>"

definition put_scheduled_action :: "as_crates \<Rightarrow> env \<Rightarrow> string \<Rightarrow> as_server \<Rightarrow> as_outcome \<times> as_server" where
  "put_scheduled_action X E body s =
     (case as_decode (as_decode_put_action X) body of Inl o' \<Rightarrow> (o', s) | Inr req \<Rightarrow>
      (case validate_namespace (psa_service_namespace req) of Inl o' \<Rightarrow> (o', s) | Inr _ \<Rightarrow>
       if psa_scheduled_action_name req = [] then (as_validation ''ScheduledActionName is required'', s)
       else if psa_resource_id req = [] \<or> psa_scalable_dimension req = [] then
         (as_validation ''ResourceId and ScalableDimension are required'', s)
       else let key = scheduled_action_key (psa_service_namespace req) (psa_resource_id req) (psa_scalable_dimension req) (psa_scheduled_action_name req);
                previous = map_of (scheduled_actions (as_state s)) key in
         as_save_or_undo (fs E) (scheduled_actions_update (restore_entry key previous)) (Object [])
           (as_state_update (scheduled_actions_update (bt_insert key (put_action_entry (now_rfc3339 (clock E 0)) req previous))) s)))"

definition scheduled_action_json :: "scheduled_action \<Rightarrow> json" where
  "scheduled_action_json a = json_object (
     [(''ScheduledActionName'', String (act_scheduled_action_name a)), (''ServiceNamespace'', String (act_service_namespace a)),
      (''ResourceId'', String (act_resource_id a))] @
     str_member ''ScalableDimension'' (act_scalable_dimension a) @
     [(''Schedule'', String (act_schedule a))] @
     str_member ''Timezone'' (act_timezone a) @
     opt_member ''StartTime'' String (act_start_time a) @
     opt_member ''EndTime'' String (act_end_time a) @
     opt_member ''ScalableTargetAction'' (\<lambda>v. v) (act_scalable_target_action a) @
     [(''CreationTime'', String (act_creation_time a))])"

definition selects_action :: "describe_scheduled_actions_request \<Rightarrow> scheduled_action \<Rightarrow> bool" where
  "selects_action req a \<longleftrightarrow>
     act_service_namespace a = dsc_service_namespace req
     \<and> (dsc_resource_id req = [] \<or> act_resource_id a = dsc_resource_id req)
     \<and> (dsc_scalable_dimension req = [] \<or> act_scalable_dimension a = dsc_scalable_dimension req)
     \<and> (dsc_scheduled_action_names req = [] \<or> act_scheduled_action_name a \<in> set (dsc_scheduled_action_names req))"

definition describe_scheduled_actions :: "as_crates \<Rightarrow> string \<Rightarrow> as_server \<Rightarrow> as_outcome" where
  "describe_scheduled_actions X body s =
     (case as_decode (as_decode_describe_actions X) body of Inl o' \<Rightarrow> o' | Inr req \<Rightarrow>
      (case validate_namespace (dsc_service_namespace req) of Inl o' \<Rightarrow> o' | Inr _ \<Rightarrow>
       as_outcome_ok (json_object [(''ScheduledActions'',
         Array (map scheduled_action_json (filter (selects_action req) (map snd (scheduled_actions (as_state s))))))])))"

definition delete_scheduled_action :: "as_crates \<Rightarrow> env \<Rightarrow> string \<Rightarrow> as_server \<Rightarrow> as_outcome \<times> as_server" where
  "delete_scheduled_action X E body s =
     (case as_decode (as_decode_delete_action X) body of Inl o' \<Rightarrow> (o', s) | Inr req \<Rightarrow>
      (case validate_namespace (xsa_service_namespace req) of Inl o' \<Rightarrow> (o', s) | Inr _ \<Rightarrow>
       if xsa_scheduled_action_name req = [] \<or> xsa_resource_id req = [] \<or> xsa_scalable_dimension req = [] then
         (as_validation ''ScheduledActionName, ResourceId, and ScalableDimension are required'', s)
       else let key = scheduled_action_key (xsa_service_namespace req) (xsa_resource_id req) (xsa_scalable_dimension req) (xsa_scheduled_action_name req) in
         (case map_of (scheduled_actions (as_state s)) key of
            None \<Rightarrow> (as_error_outcome 400 ''ObjectNotFoundException'' ''scheduled action not found'', s)
          | Some removed \<Rightarrow>
              as_save_or_undo (fs E) (scheduled_actions_update (bt_insert key removed)) (Object [])
                (as_state_update (scheduled_actions_update (bt_remove key)) s))))"

section \<open>Tags\<close>

definition as_tag_resource :: "as_crates \<Rightarrow> env \<Rightarrow> string \<Rightarrow> as_server \<Rightarrow> as_outcome \<times> as_server" where
  "as_tag_resource X E body s =
     (case as_decode (as_decode_tag X) body of Inl o' \<Rightarrow> (o', s) | Inr req \<Rightarrow>
      if atr_resource_arn req = [] then (as_validation ''ResourceARN is required'', s)
      else let arn = atr_resource_arn req;
               previous = map_of (as_tags (as_state s)) arn;
               bucket = bt_extend (case previous of Some b \<Rightarrow> b | None \<Rightarrow> []) (atr_tags req) in
        as_save_or_undo (fs E) (as_tags_update (restore_entry arn previous)) (Object [])
          (as_state_update (as_tags_update (bt_insert arn bucket)) s))"

definition as_untag_resource :: "as_crates \<Rightarrow> env \<Rightarrow> string \<Rightarrow> as_server \<Rightarrow> as_outcome \<times> as_server" where
  "as_untag_resource X E body s =
     (case as_decode (as_decode_untag X) body of Inl o' \<Rightarrow> (o', s) | Inr req \<Rightarrow>
      if aur_resource_arn req = [] then (as_validation ''ResourceARN is required'', s)
      else let arn = aur_resource_arn req;
               previous = map_of (as_tags (as_state s)) arn;
               untag = (case previous of None \<Rightarrow> (\<lambda>m. m) | Some b \<Rightarrow>
                 let bucket = fold bt_remove (aur_tag_keys req) b in
                 if bucket = [] then bt_remove arn else bt_insert arn bucket) in
        as_save_or_undo (fs E) (as_tags_update (restore_entry arn previous)) (Object [])
          (as_state_update (as_tags_update untag) s))"

definition list_tags_for_resource :: "as_crates \<Rightarrow> string \<Rightarrow> as_server \<Rightarrow> as_outcome" where
  "list_tags_for_resource X body s =
     (case as_decode (as_decode_list_tags X) body of Inl o' \<Rightarrow> o' | Inr req \<Rightarrow>
      if ltr_resource_arn req = [] then as_validation ''ResourceARN is required''
      else as_outcome_ok (json_object [(''Tags'',
        Object (map (\<lambda>(k, v). (k, String v)) (case map_of (as_tags (as_state s)) (ltr_resource_arn req) of Some b \<Rightarrow> b | None \<Rightarrow> [])))]))"

section \<open>Dispatch\<close>

definition as_dispatch :: "as_crates \<Rightarrow> env \<Rightarrow> string \<Rightarrow> string \<Rightarrow> as_server \<Rightarrow> as_outcome \<times> as_server" where
  "as_dispatch X E operation body s =
     (if operation = ''RegisterScalableTarget'' then register_scalable_target X E body s
      else if operation = ''DescribeScalableTargets'' then (describe_scalable_targets X body s, s)
      else if operation = ''DeregisterScalableTarget'' then deregister_scalable_target X E body s
      else if operation = ''PutScalingPolicy'' then put_scaling_policy X E body s
      else if operation = ''DescribeScalingPolicies'' then (describe_scaling_policies X body s, s)
      else if operation = ''DeleteScalingPolicy'' then delete_scaling_policy X E body s
      else if operation = ''DescribeScalingActivities'' then (describe_scaling_activities X body, s)
      else if operation = ''PutScheduledAction'' then put_scheduled_action X E body s
      else if operation = ''DescribeScheduledActions'' then (describe_scheduled_actions X body s, s)
      else if operation = ''DeleteScheduledAction'' then delete_scheduled_action X E body s
      else if operation = ''TagResource'' then as_tag_resource X E body s
      else if operation = ''UntagResource'' then as_untag_resource X E body s
      else if operation = ''ListTagsForResource'' then (list_tags_for_resource X body s, s)
      else (as_error_outcome 400 ''UnknownOperationException'' ''unknown operation'', s))"

text \<open>A request as the HTTP layer reads it; \<open>rq_signature\<close> is the refusal of the signature check, if it refuses, and a
  header that is absent is empty.\<close>

record as_request =
  rq_method :: string
  rq_path :: string
  rq_content_type :: string
  rq_target :: string
  rq_body :: string
  rq_signature :: "(nat \<times> string) option"

definition TARGET_PREFIX :: string where
  "TARGET_PREFIX = ''AnyScaleFrontendService.''"

definition as_process :: "as_crates \<Rightarrow> env \<Rightarrow> as_request \<Rightarrow> as_server \<Rightarrow> as_outcome \<times> as_server" where
  "as_process X E req s =
     (if as_load_err s \<noteq> None then (as_error_outcome 500 ''InternalServerError'' ''failed to load application-autoscaling state'', s)
      else if rq_path req \<noteq> ''/'' then (as_error_outcome 404 ''ResourceNotFoundException'' ''not found'', s)
      else if rq_method req \<noteq> ''POST'' then (as_error_outcome 405 ''ValidationException'' ''method not allowed'', s)
      else if rq_content_type req \<noteq> [] \<and> \<not> starts_with (rq_content_type req) ''application/x-amz-json-1.1'' then
        (as_error_outcome 400 ''ValidationException'' ''unsupported content type'', s)
      else (case rq_signature req of Some (status, name) \<Rightarrow> (as_error_outcome status name name, s) | None \<Rightarrow>
       (case strip_prefix (rq_target req) TARGET_PREFIX of
          None \<Rightarrow> (as_error_outcome 400 ''UnknownOperationException'' ''unknown operation'', s)
        | Some operation \<Rightarrow> as_dispatch X E operation (rq_body req) s)))"

section \<open>Saving and rolling back\<close>

lemma as_persist_cases:
  assumes "as_persist io s = (r, s')"
  obtains (failed) e where "r = Inl e" "s' = s"
    | (kept) "r = Inr ()" "s' = s" "as_storage_path (as_config s) = []"
    | (written) "r = Inr ()" "s' = s\<lparr>as_file := Some (as_state s)\<rparr>" "as_storage_path (as_config s) \<noteq> []"
  using assms by (auto simp: as_persist_def split: if_splits option.splits)

interpretation as_disk: durable as_persist as_state as_state_update
proof unfold_locales
  show "\<And>io s e s'. as_persist io s = (Inl e, s') \<Longrightarrow> s' = s"
    by (erule as_persist_cases) simp_all
  show "\<And>io s r s'. as_persist io s = (r, s') \<Longrightarrow> as_state s' = as_state s"
    by (erule as_persist_cases) simp_all
qed simp_all

lemma as_status_simps [simp]:
  "as_status (as_outcome_ok b) = 200" "as_status (as_error_outcome st n m) = st" "as_status (as_validation m) = 400"
  "as_status as_persist_error = 500"
  by (simp_all add: as_outcome_ok_def as_error_outcome_def as_validation_def as_persist_error_def)

lemma as_decode_error: "as_decode f b = Inl o' \<Longrightarrow> as_status o' = 400"
  by (auto simp: as_decode_def or_else_def split: option.splits)

lemma namespace_error: "validate_namespace n = Inl o' \<Longrightarrow> as_status o' = 400"
  by (auto simp: validate_namespace_def split: if_splits)

lemma namespace_accepted: "validate_namespace n = Inr u \<longleftrightarrow> n = SUPPORTED_NAMESPACE"
  by (simp add: validate_namespace_def SUPPORTED_NAMESPACE_def)

lemma save_cases:
  assumes "as_save_or_undo io undo b (as_state_update f s) = (r, s')" "undo (f (as_state s)) = as_state s"
  obtains (unsaved) "r = as_persist_error" "s' = s"
    | (saved) "r = as_outcome_ok b" "as_persist io (as_state_update f s) = (Inr (), s')"
proof -
  obtain q s1 where q: "as_persist io (as_state_update f s) = (q, s1)" by fastforce
  show ?thesis
  proof (cases q)
    case (Inl e)
    then show ?thesis using assms q as_disk.rollback[of io f s e s1 undo] by (intro unsaved) (auto simp: as_save_or_undo_def)
  next
    case (Inr u)
    then show ?thesis using assms q by (intro saved) (auto simp: as_save_or_undo_def)
  qed
qed

lemma restore_insert: "bt_ok m \<Longrightarrow> restore_entry k (map_of m k) (bt_insert k v m) = m"
  by (cases "map_of m k") (simp_all add: restore_entry_def bt.undo_new bt.undo_overwrite)

lemma restore_remove: "bt_ok m \<Longrightarrow> map_of m k = Some w \<Longrightarrow> restore_entry k (Some w) (bt_remove k m) = m"
  by (simp add: restore_entry_def bt.undo_remove)

lemma restore_same: "bt_ok m \<Longrightarrow> restore_entry k (map_of m k) m = m"
  by (rule bt_ext) (auto simp: restore_entry_def bt_simps fun_eq_iff split: option.splits)

lemma fold_remove_keys: "fold (\<lambda>(k, _). bt_remove k) es m = filter (\<lambda>(k, _). k \<notin> fst ` set es) m"
  proof (induction es arbitrary: m)
  case (Cons e es)
  show ?case using Cons.IH[of "bt_remove (fst e) m"] by (simp add: bt_remove_def filter_filter split_beta)
qed (simp add: split_beta)

lemma drained_rest:
  assumes "bt_ok m"
  shows "snd (drain_matching p m) = filter (\<lambda>(k, _). \<not> starts_with k p) m"
  unfolding drain_matching_def snd_conv fold_remove_keys by (rule filter_cong) force+

lemma drained_restored:
  assumes "bt_ok m" "drain_matching p m = (removed, rest)"
  shows "bt_extend rest removed = m"
proof (rule bt_ext)
  have removed: "removed = filter (\<lambda>(k, _). starts_with k p) m" and rest: "rest = filter (\<lambda>(k, _). \<not> starts_with k p) m"
    using assms drained_rest[OF assms(1), of p] by (auto simp: drain_matching_def)
  then show "bt_ok (bt_extend rest removed)" using assms(1) by simp
  have "distinct (map fst removed)" using bt_ok_distinct[OF bt_ok_filter[OF assms(1)]] removed by simp
  then show "map_of (bt_extend rest removed) = map_of m"
    by (auto simp: bt_get_extend map_of_rev_distinct removed rest map_of_filter_key map_add_def fun_eq_iff split: option.splits)
qed (rule assms(1))

section \<open>The invariant\<close>

text \<open>Every entry is filed under the key made of its own fields, and holds what the handlers check.\<close>

definition target_filed :: "string \<Rightarrow> scalable_target \<Rightarrow> bool" where
  "target_filed k t \<longleftrightarrow> k = scalable_target_key (tgt_service_namespace t) (tgt_resource_id t) (tgt_scalable_dimension t)
     \<and> tgt_service_namespace t = SUPPORTED_NAMESPACE \<and> tgt_resource_id t \<noteq> [] \<and> tgt_scalable_dimension t \<noteq> []"

definition policy_filed :: "string \<Rightarrow> scaling_policy \<Rightarrow> bool" where
  "policy_filed k p \<longleftrightarrow>
     k = scaling_policy_key (pol_service_namespace p) (pol_resource_id p) (pol_scalable_dimension p) (pol_policy_name p)
     \<and> pol_service_namespace p = SUPPORTED_NAMESPACE \<and> pol_resource_id p \<noteq> [] \<and> pol_scalable_dimension p \<noteq> []
     \<and> pol_policy_name p \<noteq> [] \<and> pol_policy_type p \<in> {''StepScaling'', ''TargetTrackingScaling''}"

definition action_filed :: "string \<Rightarrow> scheduled_action \<Rightarrow> bool" where
  "action_filed k a \<longleftrightarrow>
     k = scheduled_action_key (act_service_namespace a) (act_resource_id a) (act_scalable_dimension a) (act_scheduled_action_name a)
     \<and> act_service_namespace a = SUPPORTED_NAMESPACE \<and> act_resource_id a \<noteq> [] \<and> act_scalable_dimension a \<noteq> []
     \<and> act_scheduled_action_name a \<noteq> []"

definition map_filed :: "(string \<Rightarrow> 'v \<Rightarrow> bool) \<Rightarrow> (string, 'v) bmap \<Rightarrow> bool" where
  "map_filed P m \<longleftrightarrow> bt_ok m \<and> (\<forall>(k, v) \<in> set m. P k v)"

definition state_filed :: "as_state \<Rightarrow> bool" where
  "state_filed st \<longleftrightarrow> map_filed target_filed (scalable_targets st) \<and> map_filed policy_filed (scaling_policies st)
     \<and> map_filed action_filed (scheduled_actions st) \<and> map_filed (\<lambda>arn b. arn \<noteq> [] \<and> bt_ok b) (as_tags st)"

lemma map_filed_ok: "map_filed P m \<Longrightarrow> bt_ok m"
  by (simp add: map_filed_def)

lemma map_filed_insert: "map_filed P m \<Longrightarrow> P k v \<Longrightarrow> map_filed P (bt_insert k v m)"
  by (auto simp: map_filed_def set_bt_insert)

lemma map_filed_remove: "map_filed P m \<Longrightarrow> map_filed P (bt_remove k m)"
  by (auto simp: map_filed_def bt_remove_def)

lemma map_filed_filter: "map_filed P m \<Longrightarrow> map_filed P (filter Q m)"
  by (auto simp: map_filed_def)

lemma map_filed_get: "map_filed P m \<Longrightarrow> map_of m k = Some v \<Longrightarrow> P k v"
  by (auto simp: map_filed_def dest!: map_of_SomeD)

lemma map_filed_drained: "map_filed P m \<Longrightarrow> drain_matching p m = (removed, rest) \<Longrightarrow> map_filed P rest"
  using drained_rest[of m p] map_filed_filter[of P m] by (auto simp: map_filed_def)

lemmas map_filed_intros = map_filed_insert map_filed_remove

text \<open>The contract of a handler: it refuses and leaves the server alone, or it changes the state, keeping the invariant, saves
  it, and undoes the change when saving fails. Only the counter of UUIDs may advance on the way.\<close>

definition as_handles :: "as_server \<Rightarrow> as_outcome \<times> as_server \<Rightarrow> bool" where
  "as_handles s p \<longleftrightarrow> (as_status (fst p) \<noteq> 200 \<and> snd p = s)
     \<or> (\<exists>io undo b f n. p = as_save_or_undo io undo b (as_state_update f (s\<lparr>as_counter := n\<rparr>))
          \<and> undo (f (as_state s)) = as_state s \<and> state_filed (f (as_state s)))"

lemma handles_refused: "as_status o' \<noteq> 200 \<Longrightarrow> as_handles s (o', s)"
  by (simp add: as_handles_def)

lemma handles_counted:
  "undo (f (as_state s)) = as_state s \<Longrightarrow> state_filed (f (as_state s)) \<Longrightarrow>
    as_handles s (as_save_or_undo io undo b (as_state_update f (s\<lparr>as_counter := n\<rparr>)))"
  unfolding as_handles_def by blast

lemma handles_saved:
  "undo (f (as_state s)) = as_state s \<Longrightarrow> state_filed (f (as_state s)) \<Longrightarrow> as_handles s (as_save_or_undo io undo b (as_state_update f s))"
  using handles_counted[of undo f s io b "as_counter s"] by simp

lemma state_filed_ok:
  assumes "state_filed st"
  shows "bt_ok (scalable_targets st)" "bt_ok (scaling_policies st)" "bt_ok (scheduled_actions st)" "bt_ok (as_tags st)"
  using assms by (auto simp: state_filed_def map_filed_def)

lemmas as_refused = handles_refused as_decode_error namespace_error

lemma register_handles:
  assumes "state_filed (as_state s)"
  shows "as_handles s (register_scalable_target X E body s)"
proof (cases "as_decode (as_decode_register X) body")
  case (Inr req)
  let ?k = "scalable_target_key (rst_service_namespace req) (rst_resource_id req) (rst_scalable_dimension req)"
  let ?t = "registered_target (now_rfc3339 (clock E 0)) req (map_of (scalable_targets (as_state s)) ?k)"
  have "target_filed ?k ?t" if "validate_namespace (rst_service_namespace req) = Inr ()" "rst_resource_id req \<noteq> []" "rst_scalable_dimension req \<noteq> []"
    using that by (simp add: target_filed_def registered_target_def Let_def namespace_accepted split: option.splits)
  then show ?thesis using assms Inr
    by (auto simp: register_scalable_target_def Let_def as_refused state_filed_def state_filed_ok restore_insert split: sum.splits
        intro!: handles_saved map_filed_insert)
qed (simp add: register_scalable_target_def as_refused)

lemma deregister_handles:
  assumes "state_filed (as_state s)"
  shows "as_handles s (deregister_scalable_target X E body s)"
proof (cases "as_decode (as_decode_deregister X) body")
  case (Inr req)
  let ?k = "scalable_target_key (drt_service_namespace req) (drt_resource_id req) (drt_scalable_dimension req)" and ?st = "as_state s"
  obtain rp ps where ps: "drain_matching (?k @ ''|'') (scaling_policies ?st) = (rp, ps)" by fastforce
  obtain ra acts where acts: "drain_matching (?k @ ''|'') (scheduled_actions ?st) = (ra, acts)" by fastforce
  note filed = assms[unfolded state_filed_def] and ok = state_filed_ok[OF assms]
  have saved: "as_handles s (as_save_or_undo (fs E)
      (\<lambda>st'. st'\<lparr>scalable_targets := bt_insert ?k t (scalable_targets st'), scaling_policies := bt_extend (scaling_policies st') rp,
         scheduled_actions := bt_extend (scheduled_actions st') ra\<rparr>) (Object [])
      (s\<lparr>as_state := ?st\<lparr>scalable_targets := bt_remove ?k (scalable_targets ?st), scaling_policies := ps, scheduled_actions := acts\<rparr>\<rparr>))"
    if "map_of (scalable_targets ?st) ?k = Some t" for t
    using filed that map_filed_drained[OF _ ps] map_filed_drained[OF _ acts] drained_restored[OF ok(2) ps] drained_restored[OF ok(3) acts]
    by (intro handles_saved) (simp_all add: state_filed_def map_filed_remove bt.undo_remove ok)
  show ?thesis using Inr ps acts
    by (auto simp: deregister_scalable_target_def Let_def as_refused saved split: sum.splits option.splits)
qed (simp add: deregister_scalable_target_def as_refused)

lemma put_policy_handles:
  assumes "state_filed (as_state s)"
  shows "as_handles s (put_scaling_policy X E body s)"
proof (cases "as_decode (as_decode_put_policy X) body")
  case (Inr req)
  let ?k = "scaling_policy_key (psp_service_namespace req) (psp_resource_id req) (psp_scalable_dimension req) (psp_policy_name req)"
  define prev where "prev = map_of (scaling_policies (as_state s)) ?k"
  define arn where "arn = build_policy_arn (new_uuid X (clock E 1) (as_counter s)) (as_default_str (as_region (as_config s)) ''us-east-1'')
      (as_default_str (as_account_id (as_config s)) ''000000000000'') (psp_service_namespace req) (psp_resource_id req) (psp_policy_name req)"
  define p where "p = put_policy_entry (now_rfc3339 (clock E 0)) arn req prev"
  have s: "(if prev = None then s\<lparr>as_counter := as_counter s + 1\<rparr> else s) = s\<lparr>as_counter := if prev = None then as_counter s + 1 else as_counter s\<rparr>"
    by simp
  have saved: "as_handles s (as_save_or_undo (fs E) (scaling_policies_update (restore_entry ?k prev)) b
      (as_state_update (scaling_policies_update (bt_insert ?k p)) (s\<lparr>as_counter := n\<rparr>)))" if "policy_filed ?k p" for b n
    using assms that by (intro handles_counted) (auto simp: prev_def state_filed_def state_filed_ok restore_insert map_filed_insert)
  show ?thesis
  proof (cases "validate_namespace (psp_service_namespace req)")
    case ns: (Inr u)
    show ?thesis
    proof (cases "psp_policy_name req = [] \<or> psp_resource_id req = [] \<or> psp_scalable_dimension req = []
        \<or> put_policy_type req \<notin> {''StepScaling'', ''TargetTrackingScaling''}")
      case False
      then have filed: "policy_filed ?k p"
        using ns by (auto simp: policy_filed_def p_def put_policy_entry_def namespace_accepted)
      from False have checks: "psp_policy_name req \<noteq> []" "\<not> (psp_resource_id req = [] \<or> psp_scalable_dimension req = [])"
        "\<not> (put_policy_type req \<noteq> ''StepScaling'' \<and> put_policy_type req \<noteq> ''TargetTrackingScaling'')" by auto
      show ?thesis
        unfolding put_scaling_policy_def Inr ns sum.case Let_def prev_def[symmetric] arn_def[symmetric] p_def[symmetric] s if_not_P[OF checks(1)]
          if_not_P[OF checks(2)] if_not_P[OF checks(3)] by (rule saved[OF filed])
    qed (auto simp: put_scaling_policy_def Inr ns as_refused)
  qed (simp add: put_scaling_policy_def Inr as_refused)
qed (simp add: put_scaling_policy_def as_refused)

lemma delete_policy_handles:
  assumes "state_filed (as_state s)"
  shows "as_handles s (delete_scaling_policy X E body s)"
  using assms state_filed_ok[OF assms]
  by (auto simp: delete_scaling_policy_def Let_def as_refused state_filed_def bt.undo_remove split: sum.splits option.splits
      intro!: handles_saved map_filed_remove)

lemma put_action_handles:
  assumes "state_filed (as_state s)"
  shows "as_handles s (put_scheduled_action X E body s)"
proof (cases "as_decode (as_decode_put_action X) body")
  case (Inr req)
  let ?k = "scheduled_action_key (psa_service_namespace req) (psa_resource_id req) (psa_scalable_dimension req) (psa_scheduled_action_name req)"
  have "action_filed ?k (put_action_entry now req prev)" if "validate_namespace (psa_service_namespace req) = Inr ()"
    "psa_scheduled_action_name req \<noteq> []" "psa_resource_id req \<noteq> []" "psa_scalable_dimension req \<noteq> []" for now prev
    using that by (simp add: action_filed_def put_action_entry_def namespace_accepted)
  then show ?thesis using assms Inr
    by (auto simp: put_scheduled_action_def Let_def as_refused state_filed_def state_filed_ok restore_insert split: sum.splits
        intro!: handles_saved map_filed_insert)
qed (simp add: put_scheduled_action_def as_refused)

lemma delete_action_handles:
  assumes "state_filed (as_state s)"
  shows "as_handles s (delete_scheduled_action X E body s)"
  using assms state_filed_ok[OF assms]
  by (auto simp: delete_scheduled_action_def Let_def as_refused state_filed_def bt.undo_remove split: sum.splits option.splits
      intro!: handles_saved map_filed_remove)

abbreviation tags_filed :: "(string, (string, string) bmap) bmap \<Rightarrow> bool" where
  "tags_filed m \<equiv> map_filed (\<lambda>arn b. arn \<noteq> [] \<and> bt_ok b) m"

lemma handles_tags:
  assumes "state_filed (as_state s)" "undo (f (as_tags (as_state s))) = as_tags (as_state s)" "tags_filed (f (as_tags (as_state s)))"
  shows "as_handles s (as_save_or_undo io (as_tags_update undo) b (as_state_update (as_tags_update f) s))"
  using assms by (intro handles_saved) (simp_all add: state_filed_def)

lemma tag_handles:
  assumes "state_filed (as_state s)"
  shows "as_handles s (as_tag_resource X E body s)"
proof (cases "as_decode (as_decode_tag X) body")
  case (Inr req)
  let ?a = "atr_resource_arn req" and ?m = "as_tags (as_state s)"
  have filed: "tags_filed ?m" using assms by (simp add: state_filed_def)
  then have "bt_ok (bt_extend (case map_of ?m ?a of Some b \<Rightarrow> b | None \<Rightarrow> []) (atr_tags req))"
    by (auto dest: map_filed_get split: option.splits)
  then show ?thesis using filed Inr restore_insert[OF state_filed_ok(4)[OF assms], of ?a]
    by (auto simp: as_tag_resource_def Let_def as_refused intro!: handles_tags[OF assms] map_filed_insert)
qed (simp add: as_tag_resource_def as_refused)

lemma untag_handles:
  assumes "state_filed (as_state s)"
  shows "as_handles s (as_untag_resource X E body s)"
proof (cases "as_decode (as_decode_untag X) body")
  case (Inr req)
  let ?a = "aur_resource_arn req" and ?m = "as_tags (as_state s)"
  note ok = state_filed_ok(4)[OF assms]
  have filed: "tags_filed ?m" using assms by (simp add: state_filed_def)
  show ?thesis
  proof (cases "map_of ?m ?a")
    case None
    then show ?thesis using filed Inr restore_same[OF ok, of ?a]
      by (auto simp: as_untag_resource_def as_refused intro!: handles_tags[OF assms])
  next
    case (Some b)
    have "bt_ok (fold bt_remove ks b)" for ks using map_filed_get[OF filed Some] by simp
    then show ?thesis using Inr Some filed restore_remove[OF ok Some] restore_insert[OF ok, of ?a]
      by (auto simp: as_untag_resource_def Let_def as_refused intro!: handles_tags[OF assms] map_filed_intros)
  qed
qed (simp add: as_untag_resource_def as_refused)

lemma process_handles:
  assumes "state_filed (as_state s)" "as_process X E req s = (r, s')"
  shows "as_handles s (r, s') \<or> s' = s"
proof -
  have "as_handles s (as_dispatch X E op (rq_body req) s) \<or> snd (as_dispatch X E op (rq_body req) s) = s" for op
    using assms(1) register_handles deregister_handles put_policy_handles delete_policy_handles put_action_handles delete_action_handles
      tag_handles untag_handles by (simp add: as_dispatch_def)
  moreover have "s' = s \<or> (\<exists>op. as_dispatch X E op (rq_body req) s = (r, s'))"
    using assms(2) by (auto simp: as_process_def split: if_splits option.splits)
  ultimately show ?thesis by (metis snd_conv)
qed

section \<open>Reachable states\<close>

text \<open>The server with its file: the state is filed, and the file, when there is a storage path, holds the state in memory.\<close>

definition as_synced :: "as_server \<Rightarrow> bool" where
  "as_synced s \<longleftrightarrow> state_filed (as_state s) \<and> as_load_err s = None
     \<and> (as_storage_path (as_config s) \<noteq> [] \<longrightarrow> as_file s = Some (as_state s) \<or> as_file s = None \<and> as_state s = empty_state)"

lemma handles_cases:
  assumes "as_handles s (r, s')"
  obtains (failed) n where "as_status r \<noteq> 200" "s' = s\<lparr>as_counter := n\<rparr>"
    | (changed) io f n where "as_status r = 200" "state_filed (f (as_state s))"
        "as_persist io (as_state_update f (s\<lparr>as_counter := n\<rparr>)) = (Inr (), s')"
proof -
  consider "as_status r \<noteq> 200" "s' = s" | io undo b f n where "as_save_or_undo io undo b (as_state_update f (s\<lparr>as_counter := n\<rparr>)) = (r, s')"
      "undo (f (as_state (s\<lparr>as_counter := n\<rparr>))) = as_state (s\<lparr>as_counter := n\<rparr>)" "state_filed (f (as_state s))"
    using assms by (auto simp: as_handles_def)
  then show ?thesis
  proof cases
    case 1
    then show ?thesis using failed[of "as_counter s"] by simp
  next
    case 2
    from 2(1,2) show ?thesis by (cases rule: save_cases) (use 2(3) failed[of n] changed in \<open>auto\<close>)
  qed
qed

lemma process_synced:
  assumes "as_synced s"
  shows "as_synced (snd (as_process X E req s))"
proof -
  obtain r s' where p: "as_process X E req s = (r, s')" by fastforce
  consider "as_handles s (r, s')" | "s' = s" using process_handles[OF _ p] assms by (auto simp: as_synced_def)
  then have "as_synced s'"
  proof cases
    case 1
    then show ?thesis
    proof (cases rule: handles_cases)
      case (changed io f n)
      from changed(3) show ?thesis by (cases rule: as_persist_cases) (use assms changed(2) in \<open>auto simp: as_synced_def\<close>)
    qed (use assms in \<open>auto simp: as_synced_def\<close>)
  qed (use assms in simp)
  then show ?thesis using p by simp
qed

text \<open>The server as a machine: requests, and crashes followed by a start on the same file.\<close>

datatype as_event =
    As_call as_crates env as_request
  | As_restart

definition as_restart :: "as_server \<Rightarrow> as_server" where
  "as_restart s = as_new (as_config s) (case as_file s of None \<Rightarrow> As_missing | Some st \<Rightarrow> As_state_of st)"

fun as_step :: "as_event \<Rightarrow> as_server \<Rightarrow> as_server" where
  "as_step (As_call X E req) s = snd (as_process X E req s)"
| "as_step As_restart s = as_restart s"

lemma empty_state_filed: "state_filed empty_state"
  by (simp add: state_filed_def empty_state_def map_filed_def)

lemma restart_synced:
  assumes "as_synced s"
  shows "as_synced (as_restart s)" "as_storage_path (as_config s) \<noteq> [] \<Longrightarrow> as_state (as_restart s) = as_state s"
  using assms empty_state_filed
  by (auto simp: as_synced_def as_restart_def as_new_def as_load_def Let_def split: option.splits)

interpretation as_machine: invariant_machine as_step "\<lambda>_. True" as_synced
proof
  show "as_synced (as_step e s)" if "as_synced s" for e s
    using that by (cases e) (simp_all add: process_synced restart_synced)
qed

lemma reached_synced: "as_synced (fold as_step es (as_new c As_missing))"
  by (rule as_machine.run_inv)
    (use empty_state_filed in \<open>auto simp: list_all_iff as_synced_def as_new_def as_load_def Let_def\<close>)

text \<open>C30. Whatever the requests, disk failures and restarts, every target, policy and scheduled action is filed under the key made
  of its own fields, in order, with the fields the handlers require, and the file holds the state in memory.\<close>

theorem as_reachable_synced: "as_synced (fold as_step es (as_new c As_missing))"
  by (rule reached_synced)

text \<open>A request that is not answered with 200 changes nothing, in memory or on disk: refused requests and requests whose
  state could not be saved alike.\<close>

theorem as_failed_request_changes_nothing:
  assumes "as_synced s" "as_process X E req s = (r, s')" "as_status r \<noteq> 200"
  shows "as_state s' = as_state s \<and> as_file s' = as_file s"
proof -
  consider "as_handles s (r, s')" | "s' = s" using process_handles[OF _ assms(2)] assms(1) by (auto simp: as_synced_def)
  then show ?thesis using assms(3) by cases (auto elim: handles_cases)
qed

section \<open>Deregistering a target\<close>

definition bar_free :: "string \<Rightarrow> bool" where
  "bar_free w \<longleftrightarrow> CHR ''|'' \<notin> set w"

text \<open>The resource ids and dimensions of the stored entries, which the keys are made of.\<close>

definition bars_absent :: "as_state \<Rightarrow> bool" where
  "bars_absent st \<longleftrightarrow>
     list_all (\<lambda>(_, p). bar_free (pol_resource_id p) \<and> bar_free (pol_scalable_dimension p)) (scaling_policies st)
     \<and> list_all (\<lambda>(_, a). bar_free (act_resource_id a) \<and> bar_free (act_scalable_dimension a)) (scheduled_actions st)"

lemma cut_at_bar:
  "bar_free a \<Longrightarrow> bar_free a' \<Longrightarrow> a @ CHR ''|'' # r = a' @ CHR ''|'' # r' \<longleftrightarrow> a = a' \<and> r = r'"
  unfolding bar_free_def by (metis split_once_append option.inject prod.inject)

lemma namespace_bar_free: "bar_free SUPPORTED_NAMESPACE"
  by (simp add: bar_free_def SUPPORTED_NAMESPACE_def)

lemma key_prefix:
  assumes "bar_free r" "bar_free d" "bar_free r'" "bar_free d'"
  shows "starts_with (join ''|'' [SUPPORTED_NAMESPACE, r', d', n]) (join ''|'' [SUPPORTED_NAMESPACE, r, d] @ ''|'') \<longleftrightarrow> r' = r \<and> d' = d"
proof -
  have "starts_with (join ''|'' [SUPPORTED_NAMESPACE, r', d', n]) (join ''|'' [SUPPORTED_NAMESPACE, r, d] @ ''|'') \<longleftrightarrow>
    (\<exists>t. SUPPORTED_NAMESPACE @ CHR ''|'' # r' @ CHR ''|'' # d' @ CHR ''|'' # n = SUPPORTED_NAMESPACE @ CHR ''|'' # r @ CHR ''|'' # d @ CHR ''|'' # t)"
    by (simp add: starts_with_iff)
  also have "\<dots> \<longleftrightarrow> r' = r \<and> d' = d" using assms by (simp add: cut_at_bar)
  finally show ?thesis .
qed

lemma drained_filed:
  assumes "map_filed P m" "\<And>k v. (k, v) \<in> set m \<Longrightarrow> P k v \<Longrightarrow> starts_with k p = Q v"
  shows "snd (drain_matching p m) = filter (\<lambda>(_, v). \<not> Q v) m"
  unfolding drained_rest[OF map_filed_ok[OF assms(1)]]
  by (rule filter_cong) (use assms in \<open>auto simp: map_filed_def\<close>)

lemma deregister_changes:
  assumes "state_filed (as_state s)" "deregister_scalable_target X E body s = (r, s')" "as_status r = 200"
    "as_decode_deregister X body = Some req"
  shows "as_state s' = (let key = scalable_target_key SUPPORTED_NAMESPACE (drt_resource_id req) (drt_scalable_dimension req); st = as_state s in
    st\<lparr>scalable_targets := bt_remove key (scalable_targets st), scaling_policies := snd (drain_matching (key @ ''|'') (scaling_policies st)),
      scheduled_actions := snd (drain_matching (key @ ''|'') (scheduled_actions st))\<rparr>)"
  using assms(2-4)
  by (auto simp: deregister_scalable_target_def as_decode_def or_else_def Let_def namespace_accepted as_save_or_undo_def
      dest!: namespace_error split: sum.splits if_splits option.splits prod.splits elim!: as_persist_cases)

text \<open>Deregistering a target removes it and exactly its scaling policies and scheduled actions, as long as no resource id and no
  dimension contains the bar that separates the fields of a key.\<close>

theorem deregister_cascades:
  assumes "state_filed (as_state s)" "deregister_scalable_target X E body s = (r, s')" "as_status r = 200"
    "as_decode_deregister X body = Some req" "bar_free (drt_resource_id req)" "bar_free (drt_scalable_dimension req)" "bars_absent (as_state s)"
  shows "as_state s' = (as_state s)\<lparr>
    scalable_targets := bt_remove (scalable_target_key SUPPORTED_NAMESPACE (drt_resource_id req) (drt_scalable_dimension req)) (scalable_targets (as_state s)),
    scaling_policies := filter (\<lambda>(_, p). \<not> (pol_resource_id p = drt_resource_id req \<and> pol_scalable_dimension p = drt_scalable_dimension req))
      (scaling_policies (as_state s)),
    scheduled_actions := filter (\<lambda>(_, a). \<not> (act_resource_id a = drt_resource_id req \<and> act_scalable_dimension a = drt_scalable_dimension req))
      (scheduled_actions (as_state s))\<rparr>"
proof -
  let ?p = "scalable_target_key SUPPORTED_NAMESPACE (drt_resource_id req) (drt_scalable_dimension req) @ ''|''" and ?st = "as_state s"
  have "snd (drain_matching ?p (scaling_policies ?st)) =
      filter (\<lambda>(_, p). \<not> (pol_resource_id p = drt_resource_id req \<and> pol_scalable_dimension p = drt_scalable_dimension req)) (scaling_policies ?st)"
    using assms(1,5-7) key_prefix by (intro drained_filed[of policy_filed])
      (auto simp: state_filed_def policy_filed_def scaling_policy_key_def scalable_target_key_def bars_absent_def list_all_iff split: prod.splits)
  moreover have "snd (drain_matching ?p (scheduled_actions ?st)) =
      filter (\<lambda>(_, a). \<not> (act_resource_id a = drt_resource_id req \<and> act_scalable_dimension a = drt_scalable_dimension req)) (scheduled_actions ?st)"
    using assms(1,5-7) key_prefix by (intro drained_filed[of action_filed])
      (auto simp: state_filed_def action_filed_def scheduled_action_key_def scalable_target_key_def bars_absent_def list_all_iff split: prod.splits)
  ultimately show ?thesis using deregister_changes[OF assms(1-4)] by (simp add: Let_def)
qed

section \<open>Registering a target\<close>

lemma register_changes:
  assumes "state_filed (as_state s)" "register_scalable_target X E body s = (r, s')" "as_status r = 200" "as_decode_register X body = Some req"
  shows "rst_service_namespace req = SUPPORTED_NAMESPACE \<and> rst_resource_id req \<noteq> [] \<and> rst_scalable_dimension req \<noteq> []
    \<and> as_state s' = (let key = scalable_target_key SUPPORTED_NAMESPACE (rst_resource_id req) (rst_scalable_dimension req) in
      scalable_targets_update (bt_insert key (registered_target (now_rfc3339 (clock E 0)) req (map_of (scalable_targets (as_state s)) key))) (as_state s))"
  using assms(2-4)
  by (auto simp: register_scalable_target_def as_decode_def or_else_def Let_def namespace_accepted as_save_or_undo_def
      dest!: namespace_error split: sum.splits if_splits option.splits prod.splits elim!: as_persist_cases)

lemma one_selected:
  assumes "map_filed P m" "map_of m k = Some v" "Q v" "\<And>k' v'. (k', v') \<in> set m \<Longrightarrow> Q v' \<Longrightarrow> k' = k"
  shows "filter Q (map snd m) = [v]"
proof -
  obtain a b where m: "m = a @ (k, v) # b" using map_of_SomeD[OF assms(2)] by (auto simp: in_set_conv_decomp)
  have "distinct (map fst m)" using bt_ok_distinct[OF map_filed_ok[OF assms(1)]] .
  then have "\<forall>e \<in> set a \<union> set b. fst e \<noteq> k" unfolding m by (force simp: image_iff)
  then have "filter (Q \<circ> snd) a = [] \<and> filter (Q \<circ> snd) b = []" using assms(4) unfolding m filter_empty_conv comp_def by (metis UnI1 UnI2 in_set_conv_decomp list.set_intros(2) prod.collapse set_append)
  then show ?thesis using assms(3) unfolding m by (simp add: filter_map)
qed

text \<open>A registered target is described by its resource id and dimension alone, with the values of the request where it
  gives them and, where it gives none, those it had before.\<close>

theorem register_then_describe:
  assumes "state_filed (as_state s)" "register_scalable_target X E body s = (r, s')" "as_status r = 200" "as_decode_register X body = Some req"
    "as_decode_describe_targets X body' = Some \<lparr>dst_service_namespace = SUPPORTED_NAMESPACE, dst_resource_ids = [rst_resource_id req],
       dst_scalable_dimension = rst_scalable_dimension req\<rparr>"
  shows "describe_scalable_targets X body' s' = as_outcome_ok (json_object [(''ScalableTargets'', Array [scalable_target_json
    (registered_target (now_rfc3339 (clock E 0)) req (map_of (scalable_targets (as_state s))
      (scalable_target_key SUPPORTED_NAMESPACE (rst_resource_id req) (rst_scalable_dimension req))))])])"
proof -
  let ?q = "\<lparr>dst_service_namespace = SUPPORTED_NAMESPACE, dst_resource_ids = [rst_resource_id req], dst_scalable_dimension = rst_scalable_dimension req\<rparr>"
  let ?k = "scalable_target_key SUPPORTED_NAMESPACE (rst_resource_id req) (rst_scalable_dimension req)"
  let ?t = "registered_target (now_rfc3339 (clock E 0)) req (map_of (scalable_targets (as_state s)) ?k)"
  note c = register_changes[OF assms(1-4), unfolded Let_def]
  then have m: "scalable_targets (as_state s') = bt_insert ?k ?t (scalable_targets (as_state s))" by simp
  have "target_filed ?k ?t" using c by (simp add: target_filed_def registered_target_def Let_def split: option.splits)
  then have filed: "map_filed target_filed (scalable_targets (as_state s'))"
    unfolding m using assms(1) by (intro map_filed_insert) (simp_all add: state_filed_def)
  have "filter (selects_target ?q) (map snd (scalable_targets (as_state s'))) = [?t]"
  proof (rule one_selected[OF filed])
    show "map_of (scalable_targets (as_state s')) ?k = Some ?t" by (simp add: m bt_get_insert)
    show "selects_target ?q ?t" using \<open>target_filed ?k ?t\<close> c
      by (auto simp: selects_target_def target_filed_def registered_target_def Let_def split: option.splits)
    show "k' = ?k" if "(k', t') \<in> set (scalable_targets (as_state s'))" "selects_target ?q t'" for k' t'
      using that filed c by (auto simp: map_filed_def target_filed_def selects_target_def)
  qed
  then show ?thesis using assms(5) namespace_accepted[of SUPPORTED_NAMESPACE] by (simp add: describe_scalable_targets_def as_decode_def or_else_def)
qed

section \<open>Samples\<close>

text \<open>Requests for one target and one policy of it, and a disk that works or does not.\<close>

definition as_sample :: "string \<Rightarrow> string \<Rightarrow> int option \<Rightarrow> as_crates" where
  "as_sample r d cap =
     \<lparr>as_decode_register = (\<lambda>_. Some \<lparr>rst_service_namespace = ''dynamodb'', rst_resource_id = r, rst_scalable_dimension = d,
        rst_min_capacity = cap, rst_max_capacity = None, rst_role_arn = [], rst_suspended_state = None\<rparr>),
      as_decode_describe_targets = (\<lambda>_. Some \<lparr>dst_service_namespace = ''dynamodb'', dst_resource_ids = [r], dst_scalable_dimension = d\<rparr>),
      as_decode_deregister = (\<lambda>_. Some \<lparr>drt_service_namespace = ''dynamodb'', drt_resource_id = r, drt_scalable_dimension = d\<rparr>),
      as_decode_put_policy = (\<lambda>_. Some \<lparr>psp_policy_name = ''p'', psp_service_namespace = ''dynamodb'', psp_resource_id = r,
        psp_scalable_dimension = d, psp_policy_type = [], psp_step_configuration = None, psp_target_tracking_configuration = None\<rparr>),
      as_decode_describe_policies = (\<lambda>_. None), as_decode_delete_policy = (\<lambda>_. None), as_decode_activities = (\<lambda>_. None),
      as_decode_put_action = (\<lambda>_. None), as_decode_describe_actions = (\<lambda>_. None), as_decode_delete_action = (\<lambda>_. None),
      as_decode_tag = (\<lambda>_. None), as_decode_untag = (\<lambda>_. None), as_decode_list_tags = (\<lambda>_. None),
      hex_encode = (\<lambda>bs. concat (map (\<lambda>b. zero_pad 2 (hex (unat b))) bs))\<rparr>"

definition as_post :: "string \<Rightarrow> as_request" where
  "as_post operation = \<lparr>rq_method = ''POST'', rq_path = ''/'', rq_content_type = [], rq_target = TARGET_PREFIX @ operation,
     rq_body = ''{}'', rq_signature = None\<rparr>"

definition as_sample_policy :: "string \<Rightarrow> string \<Rightarrow> string \<times> scaling_policy" where
  "as_sample_policy r d = (scaling_policy_key ''dynamodb'' r d ''p'',
     \<lparr>pol_policy_arn = ''arn'', pol_policy_name = ''p'', pol_service_namespace = ''dynamodb'', pol_resource_id = r, pol_scalable_dimension = d,
      pol_policy_type = ''StepScaling'', pol_step_configuration = None, pol_target_tracking_configuration = None, pol_alarms = [],
      pol_creation_time = ''2026-01-01T00:00:00Z''\<rparr>)"

text \<open>A server with one target and policies of the dimensions given.\<close>

definition as_sample_server :: "string list \<Rightarrow> as_server" where
  "as_sample_server ds =
     (let st = \<lparr>scalable_targets = [(scalable_target_key ''dynamodb'' ''table/t'' ''read'',
            registered_target ''2026-01-01T00:00:00Z'' (the (as_decode_register (as_sample ''table/t'' ''read'' (Some 3)) [])) None)],
          scaling_policies = map (as_sample_policy ''table/t'') ds, scheduled_actions = [], as_tags = []\<rparr> in
      \<lparr>as_config = \<lparr>as_region = [], as_account_id = [], as_storage_path = ''/data''\<rparr>, as_state = st, as_load_err = None,
       as_counter = 2, as_file = Some st\<rparr>)"

abbreviation two_policies :: as_server where
  "two_policies \<equiv> as_sample_server [''read'', ''write'']"

lemma two_policies_synced: "as_synced two_policies"
  by code_simp

lemma two_policies_filed: "state_filed (as_state two_policies)"
  using two_policies_synced by (simp add: as_synced_def)

theorem as_failed_request_changes_nothing_witness:
  "case as_process (as_sample ''table/t'' ''read'' None) \<lparr>clock = (\<lambda>_. 7), fs = disk_full\<rparr> (as_post ''DeregisterScalableTarget'') two_policies of
     (r, s') \<Rightarrow> as_status r = 500 \<and> as_state s' = as_state two_policies \<and> as_file s' = as_file two_policies"
proof -
  let ?p = "as_process (as_sample ''table/t'' ''read'' None) \<lparr>clock = (\<lambda>_. 7), fs = disk_full\<rparr> (as_post ''DeregisterScalableTarget'') two_policies"
  have r: "as_status (fst ?p) = 500" by code_simp
  from as_failed_request_changes_nothing[OF two_policies_synced surjective_pairing] r show ?thesis by (simp add: split_beta)
qed

theorem register_then_describe_witness:
  "case register_scalable_target (as_sample ''table/t'' ''read'' (Some 5)) (env_at 7) [] two_policies of (_, s') \<Rightarrow>
     describe_scalable_targets (as_sample ''table/t'' ''read'' (Some 5)) [] s' = as_outcome_ok (json_object [(''ScalableTargets'',
       Array [scalable_target_json (registered_target (now_rfc3339 7) (the (as_decode_register (as_sample ''table/t'' ''read'' (Some 5)) []))
         (map_of (scalable_targets (as_state two_policies)) ''dynamodb|table/t|read''))])])"
proof -
  let ?X = "as_sample ''table/t'' ''read'' (Some 5)"
  let ?p = "register_scalable_target ?X (env_at 7) [] two_policies"
  have r: "as_status (fst ?p) = 200" by code_simp
  let ?req = "the (as_decode_register ?X [])"
  have d: "as_decode_register ?X [] = Some ?req" by (simp add: as_sample_def)
  have q: "as_decode_describe_targets ?X [] = Some \<lparr>dst_service_namespace = SUPPORTED_NAMESPACE, dst_resource_ids = [rst_resource_id ?req],
      dst_scalable_dimension = rst_scalable_dimension ?req\<rparr>" by (simp add: as_sample_def SUPPORTED_NAMESPACE_def)
  have k: "scalable_target_key SUPPORTED_NAMESPACE (rst_resource_id ?req) (rst_scalable_dimension ?req) = ''dynamodb|table/t|read''" by code_simp
  show ?thesis using register_then_describe[OF two_policies_filed surjective_pairing r d q] unfolding k env_at_clock by (simp only: split_beta)
qed

theorem deregister_cascades_witness:
  "case deregister_scalable_target (as_sample ''table/t'' ''read'' None) (env_at 7) [] two_policies of (r, s') \<Rightarrow>
     as_status r = 200 \<and> map fst (scaling_policies (as_state two_policies)) = [''dynamodb|table/t|read|p'', ''dynamodb|table/t|write|p'']
     \<and> scaling_policies (as_state s') = filter (\<lambda>(_, p). \<not> (pol_resource_id p = ''table/t'' \<and> pol_scalable_dimension p = ''read''))
         (scaling_policies (as_state two_policies))"
proof -
  let ?p = "deregister_scalable_target (as_sample ''table/t'' ''read'' None) (env_at 7) [] two_policies"
  have r: "as_status (fst ?p) = 200" by code_simp
  have k: "map fst (scaling_policies (as_state two_policies)) = [''dynamodb|table/t|read|p'', ''dynamodb|table/t|write|p'']" by code_simp
  have b: "bars_absent (as_state two_policies)" by code_simp
  from deregister_cascades[OF two_policies_filed surjective_pairing r _ _ _ b] show ?thesis
    using r k by (simp add: as_sample_def bar_free_def split_beta)
qed


end
