(* ===== verification/Pubsub_Types.thy ===== *)
theory Pubsub_Types
  imports Contracts Json_Value Time_Fmt Base64_Url
begin

text \<open>
  The data of the Pub/Sub service and its pure helpers: \<open>model.rs\<close>, \<open>errors.rs\<close>, \<open>paths.rs\<close> (names of resources), \<open>duration.rs\<close>,
  \<open>time_fmt.rs\<close>, \<open>delivery.rs\<close> and \<open>validation.rs\<close> of \<open>services/pubsub/src\<close>. Formatting of times is the same algorithm as in SQS,
  so \<open>rfc3339_from_unix\<close> of \<open>Time_Fmt\<close> is used; parsing differs and is modelled here. Whether a text is JSON is a parameter.
\<close>

section \<open>Data\<close>

record topic =
  top_name :: string
  top_labels :: "(string, string) bmap"
  top_created_at :: string
  top_updated_at :: string
  top_message_retention_duration :: string
  top_schema_settings :: "json option"
  top_kms_key_name :: string

record subscription =
  sub_name :: string
  sub_topic :: string
  sub_detached :: bool
  sub_labels :: "(string, string) bmap"
  sub_created_at :: string
  sub_updated_at :: string
  sub_ack_deadline_seconds :: int
  sub_enable_message_ordering :: bool
  sub_enable_exactly_once_delivery :: bool
  sub_retain_acked_messages :: bool
  sub_message_retention_duration :: string
  sub_expiration_policy :: "json option"
  sub_filter :: string
  sub_dead_letter_policy :: "json option"
  sub_retry_policy :: "json option"
  sub_push_config :: "json option"

record delivery_record =
  del_message_id :: string
  del_ack_id :: string
  del_lease_deadline :: string
  del_next_delivery_time :: string
  del_delivery_attempt :: int
  del_acked :: bool

record snapshot =
  snap_name :: string
  snap_topic :: string
  snap_subscription :: string
  snap_expire_time :: string
  snap_labels :: "(string, string) bmap"
  snap_deliveries :: "delivery_record list"

record pubsub_message =
  msg_data :: string
  msg_attributes :: "(string, string) bmap"
  msg_message_id :: string
  msg_publish_time :: string
  msg_ordering_key :: string

definition new_delivery :: "string \<Rightarrow> delivery_record" where
  "new_delivery i = \<lparr>del_message_id = i, del_ack_id = [], del_lease_deadline = ZERO_TIME, del_next_delivery_time = ZERO_TIME,
     del_delivery_attempt = 0, del_acked = False\<rparr>"

record schema_revision =
  rev_type :: string
  rev_definition :: string
  rev_revision_id :: string
  rev_revision_create_time :: string

record schema =
  sch_name :: string
  sch_type :: string
  sch_definition :: string
  sch_revision_id :: string
  sch_revision_create_time :: string
  sch_revisions :: "schema_revision list"

record ps_error =
  pe_status :: nat
  pe_code :: string
  pe_message :: string

definition ps_invalid_argument :: "string \<Rightarrow> ps_error" where
  "ps_invalid_argument m = \<lparr>pe_status = 400, pe_code = ''INVALID_ARGUMENT'', pe_message = m\<rparr>"

definition ps_not_found :: "string \<Rightarrow> ps_error" where
  "ps_not_found m = \<lparr>pe_status = 404, pe_code = ''NOT_FOUND'', pe_message = m\<rparr>"

definition ps_already_exists :: "string \<Rightarrow> ps_error" where
  "ps_already_exists m = \<lparr>pe_status = 409, pe_code = ''ALREADY_EXISTS'', pe_message = m\<rparr>"

definition ps_failed_precondition :: "string \<Rightarrow> ps_error" where
  "ps_failed_precondition m = \<lparr>pe_status = 400, pe_code = ''FAILED_PRECONDITION'', pe_message = m\<rparr>"

definition ps_internal :: "string \<Rightarrow> ps_error" where
  "ps_internal m = \<lparr>pe_status = 500, pe_code = ''INTERNAL'', pe_message = m\<rparr>"

section \<open>Names\<close>

definition valid_resource_id :: "string \<Rightarrow> bool" where
  "valid_resource_id i \<longleftrightarrow>
     (case i of [] \<Rightarrow> False | c # cs \<Rightarrow>
        length i \<le> 255 \<and> is_ascii_alphanumeric c \<and> list_all (\<lambda>c. is_ascii_alphanumeric c \<or> c \<in> set ''._~+%-'') cs)"

definition valid_project_id :: "string \<Rightarrow> bool" where
  "valid_project_id i \<longleftrightarrow> valid_resource_id i"

definition valid_full_name :: "string \<Rightarrow> string \<Rightarrow> bool" where
  "valid_full_name collection name \<longleftrightarrow>
     (case split_on (\<lambda>c. c = CHR ''/'') name of
        [a, project, b, i] \<Rightarrow> a = ''projects'' \<and> b = collection \<and> valid_project_id project \<and> valid_resource_id i
      | _ \<Rightarrow> False)"

definition valid_full_topic_name :: "string \<Rightarrow> bool" where
  "valid_full_topic_name name \<longleftrightarrow> valid_full_name ''topics'' name"

definition valid_full_schema_name :: "string \<Rightarrow> bool" where
  "valid_full_schema_name name \<longleftrightarrow> valid_full_name ''schemas'' name"

definition schema_name :: "string \<Rightarrow> string \<Rightarrow> string" where
  "schema_name project i = ''projects/'' @ project @ ''/schemas/'' @ i"

definition valid_full_subscription_name :: "string \<Rightarrow> bool" where
  "valid_full_subscription_name name \<longleftrightarrow> valid_full_name ''subscriptions'' name"

definition valid_full_snapshot_name :: "string \<Rightarrow> bool" where
  "valid_full_snapshot_name name \<longleftrightarrow> valid_full_name ''snapshots'' name"

definition topic_name :: "string \<Rightarrow> string \<Rightarrow> string" where
  "topic_name project i = ''projects/'' @ project @ ''/topics/'' @ i"

definition subscription_name :: "string \<Rightarrow> string \<Rightarrow> string" where
  "subscription_name project i = ''projects/'' @ project @ ''/subscriptions/'' @ i"

definition snapshot_name :: "string \<Rightarrow> string \<Rightarrow> string" where
  "snapshot_name project i = ''projects/'' @ project @ ''/snapshots/'' @ i"

definition resource_project :: "string \<Rightarrow> string" where
  "resource_project name =
     (case split_on (\<lambda>c. c = CHR ''/'') name of a # project # _ \<Rightarrow> if a = ''projects'' then project else [] | _ \<Rightarrow> [])"

section \<open>Times of deliveries\<close>

definition parse_u32 :: "string \<Rightarrow> int option" where
  "parse_u32 s = (case parse_u64 s of Some n \<Rightarrow> if n < 2 ^ 32 then Some (int n) else None | None \<Rightarrow> None)"

definition ps_parse_date :: "string \<Rightarrow> (int \<times> int \<times> int) option" where
  "ps_parse_date date =
     (case split_on (\<lambda>c. c = CHR ''-'') date of
        [y, m, d] \<Rightarrow> (case (parse_i64 y, parse_u32 m, parse_u32 d) of (Some y', Some m', Some d') \<Rightarrow> Some (y', m', d') | _ \<Rightarrow> None)
      | _ \<Rightarrow> None)"

definition ps_parse_hms :: "string \<Rightarrow> (int \<times> int \<times> int) option" where
  "ps_parse_hms hms =
     (case split_on (\<lambda>c. c = CHR '':'') hms of
        [h, m, s] \<Rightarrow> (case (parse_i64 h, parse_i64 m, parse_i64 s) of (Some h', Some m', Some s') \<Rightarrow> Some (h', m', s') | _ \<Rightarrow> None)
      | _ \<Rightarrow> None)"

definition ps_nanos :: "string \<Rightarrow> nat" where
  "ps_nanos frac = from_digits (take 9 frac) * 10 ^ (9 - min 9 (length frac))"

definition parse_rfc3339 :: "string \<Rightarrow> (int \<times> nat) option" where
  "parse_rfc3339 value =
     (case strip_suffix value ''Z'' of None \<Rightarrow> None | Some s \<Rightarrow>
      (case split_once (CHR ''T'') s of None \<Rightarrow> None | Some (date, time) \<Rightarrow>
       (case ps_parse_date date of None \<Rightarrow> None | Some (year, month, day) \<Rightarrow>
        (case (case split_once (CHR ''.'') time of
                 Some (hms, frac) \<Rightarrow> if frac = [] \<or> \<not> list_all is_ascii_digit frac then None else Some (hms, frac)
               | None \<Rightarrow> Some (time, [])) of None \<Rightarrow> None | Some (hms, frac) \<Rightarrow>
         (case ps_parse_hms hms of None \<Rightarrow> None | Some (hour, minute, second) \<Rightarrow>
          Some (wrap_s 64 (days_from_civil year month day * 86400 + hour * 3600 + minute * 60 + second), ps_nanos frac))))))"

definition ps_is_zero :: "string \<Rightarrow> bool" where
  "ps_is_zero value \<longleftrightarrow> value = [] \<or> value = ZERO_TIME"

definition unix_secs :: "string \<Rightarrow> int" where
  "unix_secs value =
     (if ps_is_zero value then i64_min else case parse_rfc3339 value of Some (s, _) \<Rightarrow> s | None \<Rightarrow> i64_min)"

definition after_secs :: "string \<Rightarrow> int \<Rightarrow> bool" where
  "after_secs value now \<longleftrightarrow> \<not> ps_is_zero value \<and> unix_secs value > now"

definition plus_seconds :: "int \<Rightarrow> int \<Rightarrow> string" where
  "plus_seconds now seconds = rfc3339_from_unix (wrap_s 64 (now + seconds)) 0"

section \<open>Durations\<close>

definition checked_i128 :: "int \<Rightarrow> int option" where
  "checked_i128 x = (if i128_min \<le> x \<and> x \<le> i128_max then Some x else None)"

definition unit_nanos :: "string \<Rightarrow> int option" where
  "unit_nanos u =
     (if u = ''ns'' then Some 1
      else if u = ''us'' \<or> u = [CHR 0xC2, CHR 0xB5, CHR ''s''] then Some 1000
      else if u = ''ms'' then Some 1000000
      else if u = ''s'' then Some 1000000000
      else if u = ''m'' then Some 60000000000
      else if u = ''h'' then Some 3600000000000
      else None)"

text \<open>The digits before and after an optional decimal point, and the rest of the text.\<close>

definition scan_number :: "string \<Rightarrow> string \<times> string \<times> string" where
  "scan_number s =
     (let int_digits = takeWhile is_ascii_digit s in
      case dropWhile is_ascii_digit s of
        [] \<Rightarrow> (int_digits, [], [])
      | c # r \<Rightarrow>
          if c = CHR ''.'' then (int_digits, takeWhile is_ascii_digit r, dropWhile is_ascii_digit r)
          else (int_digits, [], c # r))"

definition unit_char :: "char \<Rightarrow> bool" where
  "unit_char c \<longleftrightarrow> \<not> is_ascii_digit c \<and> c \<noteq> CHR ''.''"

text \<open>One segment of a duration, a number and its unit: its nanoseconds and the rest of the text.\<close>

definition duration_segment :: "string \<Rightarrow> (int \<times> string) option" where
  "duration_segment s =
     (case scan_number s of (int_digits, frac_digits, r) \<Rightarrow>
      if int_digits = [] \<and> frac_digits = [] then None
      else
        Option.bind (unit_nanos (takeWhile unit_char r)) (\<lambda>unit_ns.
        Option.bind (if int_digits = [] then Some 0 else parse_i128 int_digits) (\<lambda>int_val.
        Option.bind (checked_i128 (int_val * unit_ns)) (\<lambda>segment.
        map_option (\<lambda>v. (v, dropWhile unit_char r))
          (if frac_digits = [] then Some segment
           else Option.bind (parse_i128 frac_digits) (\<lambda>frac_val.
                Option.bind (checked_i128 (10 ^ length frac_digits)) (\<lambda>scale.
                Option.bind (checked_i128 (frac_val * unit_ns)) (\<lambda>p. checked_i128 (segment + p sdiv scale))))))))) "

lemma scan_number_rest: "scan_number s = (i, f, r) \<Longrightarrow> length r \<le> length s"
proof -
  have d: "length (dropWhile P xs) \<le> length xs" for P and xs :: string by (rule length_dropWhile_le)
  assume "scan_number s = (i, f, r)"
  then show ?thesis using d[of is_ascii_digit s] le_trans[OF d Suc_leD]
    by (cases "dropWhile is_ascii_digit s") (auto simp: scan_number_def Let_def length_dropWhile_le split: if_splits)
qed

lemma duration_segment_shorter: "duration_segment s = Some (v, r) \<Longrightarrow> length r < length s"
proof -
  assume a: "duration_segment s = Some (v, r)"
  obtain i f w where n: "scan_number s = (i, f, w)" by (cases "scan_number s") auto
  then have r: "r = dropWhile unit_char w" "unit_nanos (takeWhile unit_char w) \<noteq> None" using a
    by (auto simp: duration_segment_def bind_eq_Some_conv split: if_splits)
  have "unit_nanos [] = None" by (simp add: unit_nanos_def)
  then obtain c w' where w: "w = c # w'" "unit_char c" using r(2) by (cases w) (auto split: if_splits)
  then have "length r \<le> length w'" using r(1) length_dropWhile_le[of unit_char w'] by simp
  then show "length r < length s" using w(1) scan_number_rest[OF n] by simp
qed

function duration_loop :: "int \<Rightarrow> string \<Rightarrow> int option" where
  "duration_loop acc s =
     (if s = [] then Some acc
      else case duration_segment s of None \<Rightarrow> None
       | Some (v, r) \<Rightarrow> (case checked_i128 (acc + v) of None \<Rightarrow> None | Some t \<Rightarrow> duration_loop t r))"
  by pat_completeness auto
termination
  by (relation "measure (\<lambda>(_, s). length s)") (auto dest: duration_segment_shorter)

declare duration_loop.simps [simp del]

definition parse_go_duration :: "string \<Rightarrow> int option" where
  "parse_go_duration value =
     (let s = trim value in
      case s of [] \<Rightarrow> None | c # cs \<Rightarrow>
        let signed = (c = CHR ''+'' \<or> c = CHR ''-''); r = (if signed then cs else s) in
        if r = ''0'' then Some 0 else if r = [] then None
        else map_option (\<lambda>n. if c = CHR ''-'' then - n else n) (duration_loop 0 r))"

definition valid_google_duration :: "string \<Rightarrow> bool" where
  "valid_google_duration value \<longleftrightarrow> (case parse_go_duration (trim value) of Some n \<Rightarrow> n \<ge> 0 | None \<Rightarrow> False)"

section \<open>Base64\<close>

definition std_val :: "char \<Rightarrow> u32 option" where
  "std_val c =
     (if is_ascii_uppercase c then Some (of_nat (ascii c - ascii CHR ''A''))
      else if is_ascii_lowercase c then Some (of_nat (ascii c - ascii CHR ''a'' + 26))
      else if is_ascii_digit c then Some (of_nat (ascii c - ascii CHR ''0'' + 52))
      else if c = CHR ''+'' then Some 62
      else if c = CHR ''/'' then Some 63
      else None)"

definition ps_chunk_value :: "u32 option list \<Rightarrow> u32 option" where
  "ps_chunk_value vs =
     fold (\<lambda>v acc. Option.bind acc (\<lambda>n. map_option (\<lambda>w. push_bit 6 n OR w) v)) vs (Some 0)"

text \<open>A chunk of four characters with padding, and a chunk of at most four without.\<close>

definition padded_chunk :: "string \<Rightarrow> string option" where
  "padded_chunk chunk =
     (let pads = length (takeWhile (\<lambda>c. c = CHR ''='') (rev chunk)) in
      if pads > 2 then None
      else map_option (\<lambda>acc. [byte_at acc 16] @ (if pads < 2 then [byte_at acc 8] else []) @ (if pads < 1 then [byte_at acc 0] else []))
        (ps_chunk_value (map (\<lambda>(j, c). if c = CHR ''='' then if j < 4 - pads then None else Some 0 else std_val c) (enumerate 0 chunk))))"

definition raw_chunk :: "string \<Rightarrow> string option" where
  "raw_chunk chunk =
     (if length chunk = 1 then None
      else map_option (\<lambda>m. let acc = push_bit (6 * (4 - length chunk)) m in
          [byte_at acc 16] @ (if length chunk > 2 then [byte_at acc 8] else []) @ (if length chunk > 3 then [byte_at acc 0] else []))
        (ps_chunk_value (map std_val chunk)))"

fun base64_chunks :: "(string \<Rightarrow> string option) \<Rightarrow> string \<Rightarrow> string option" where
  "base64_chunks f [] = Some []"
| "base64_chunks f (a # b # c # d # rest) =
     Option.bind (f [a, b, c, d]) (\<lambda>bs. map_option (\<lambda>ds. bs @ ds) (base64_chunks f rest))"
| "base64_chunks f chunk = f chunk"

definition ps_base64_decode :: "string \<Rightarrow> bool \<Rightarrow> string option" where
  "ps_base64_decode input padded =
     (if padded then if length input mod 4 \<noteq> 0 then None else base64_chunks padded_chunk input
      else if CHR ''='' \<in> set input then None else base64_chunks raw_chunk input)"

definition decode_base64_bytes :: "string \<Rightarrow> string option" where
  "decode_base64_bytes value =
     (case ps_base64_decode value True of Some b \<Rightarrow> Some b | None \<Rightarrow> ps_base64_decode value False)"

section \<open>Filters\<close>

definition trim_start :: "string \<Rightarrow> string" where
  "trim_start s = trim_by white_space s"

definition attribute_key_char :: "char \<Rightarrow> bool" where
  "attribute_key_char c \<longleftrightarrow> is_ascii_alphanumeric c \<or> c \<in> set ''_.-''"

definition quoted_value :: "string \<Rightarrow> string option" where
  "quoted_value s =
     Option.bind (strip_prefix s [CHR 34]) (\<lambda>v. Option.bind (strip_suffix v [CHR 34]) (\<lambda>v.
       if CHR 34 \<in> set v then None else Some v))"

definition parse_comparison_filter :: "string \<Rightarrow> (string \<times> string \<times> string) option" where
  "parse_comparison_filter filter_text =
     Option.bind (strip_prefix filter_text ''attributes.'') (\<lambda>rest.
       let key = takeWhile attribute_key_char rest;
           after_key = trim_start (dropWhile attribute_key_char rest) in
       if key = [] then None
       else Option.bind
         (case strip_prefix after_key ''!='' of Some r \<Rightarrow> Some (''!='', r)
          | None \<Rightarrow> map_option (\<lambda>r. (''='', r)) (strip_prefix after_key ''=''))
         (\<lambda>(op, after_op). map_option (\<lambda>v. (key, op, v)) (quoted_value (trim_start after_op))))"

definition parse_prefix_filter :: "string \<Rightarrow> (string \<times> string) option" where
  "parse_prefix_filter filter_text =
     Option.bind (Option.bind (strip_prefix filter_text ''hasPrefix('') (\<lambda>r. strip_suffix r '')'')) (\<lambda>inner.
     Option.bind (strip_prefix (trim inner) ''attributes.'') (\<lambda>inner.
     Option.bind (split_once (CHR '','') inner) (\<lambda>(key_part, value_part).
       let key = trim key_part in
       if key = [] \<or> \<not> list_all attribute_key_char key then None
       else map_option (\<lambda>v. (key, v)) (quoted_value (trim value_part)))))"

definition validate_subscription_filter :: "string \<Rightarrow> ps_error + unit" where
  "validate_subscription_filter filter_text =
     (let f = trim filter_text in
      if f = [] then Inr ()
      else if parse_comparison_filter f = None \<and> parse_prefix_filter f = None
      then Inl (ps_invalid_argument ''unsupported subscription filter'')
      else Inr ())"

definition subscription_matches_message :: "subscription \<Rightarrow> pubsub_message \<Rightarrow> bool" where
  "subscription_matches_message sub message =
     (let f = trim (sub_filter sub);
          actual = (\<lambda>key. case map_of (msg_attributes message) key of Some v \<Rightarrow> v | None \<Rightarrow> []) in
      if f = [] then True
      else case parse_comparison_filter f of
        Some (key, op, v) \<Rightarrow> if op = ''!='' then actual key \<noteq> v else actual key = v
      | None \<Rightarrow>
          (case parse_prefix_filter f of
             Some (key, prefix) \<Rightarrow> starts_with (actual key) prefix
           | None \<Rightarrow> False))"

section \<open>Metadata and policies\<close>

definition valid_schema_type :: "string \<Rightarrow> bool" where
  "valid_schema_type t \<longleftrightarrow> t \<in> set [[], ''TYPE_UNSPECIFIED'', ''PROTOCOL_BUFFER'', ''AVRO'']"

definition valid_schema_encoding :: "string \<Rightarrow> bool" where
  "valid_schema_encoding e \<longleftrightarrow> e \<in> set [[], ''ENCODING_UNSPECIFIED'', ''JSON'', ''BINARY'']"

definition validate_schema_definition :: "(string \<Rightarrow> json option) \<Rightarrow> string \<Rightarrow> string \<Rightarrow> ps_error + unit" where
  "validate_schema_definition from_str schema_type d =
     (if trim d = [] then Inr ()
      else if schema_type = ''AVRO'' then
        case from_str d of
          Some (Object _) \<Rightarrow> Inr ()
        | Some _ \<Rightarrow> Inl (ps_invalid_argument ''avro schema definition must be a json object'')
        | None \<Rightarrow> Inl (ps_invalid_argument ''avro schema definition must be valid json'')
      else Inr ())"

definition valid_schema_message_data :: "(string \<Rightarrow> json option) \<Rightarrow> string \<Rightarrow> string \<Rightarrow> bool" where
  "valid_schema_message_data from_slice message encoding \<longleftrightarrow>
     message = [] \<or> encoding \<noteq> ''JSON'' \<or> from_slice message \<noteq> None"

text \<open>A value that has to be a string with something in it.\<close>

definition filled_str :: "json \<Rightarrow> string option" where
  "filled_str v = (case v of String s \<Rightarrow> if trim s = [] then None else Some s | _ \<Rightarrow> None)"

definition retention_duration_ok :: "string \<Rightarrow> ps_error + unit" where
  "retention_duration_ok d =
     (if trim d \<noteq> [] \<and> \<not> valid_google_duration d
      then Inl (ps_invalid_argument ''messageRetentionDuration must be a non-negative duration'') else Inr ())"

text \<open>The members of a policy that is present, an object and not empty.\<close>

definition policy_members :: "json option \<Rightarrow> (string, json) bmap option" where
  "policy_members policy =
     (case Option.bind policy as_object of Some es \<Rightarrow> if es = [] then None else Some es | None \<Rightarrow> None)"

definition validate_expiration_policy :: "json option \<Rightarrow> ps_error + unit" where
  "validate_expiration_policy policy =
     (case policy_members policy of None \<Rightarrow> Inr () | Some es \<Rightarrow>
      (case map_of es ''ttl'' of None \<Rightarrow> Inl (ps_invalid_argument ''expirationPolicy.ttl is required'') | Some v \<Rightarrow>
       (case filled_str v of None \<Rightarrow> Inl (ps_invalid_argument ''expirationPolicy.ttl must be a duration string'') | Some ttl \<Rightarrow>
        if valid_google_duration ttl then Inr ()
        else Inl (ps_invalid_argument ''expirationPolicy.ttl must be a non-negative duration''))))"

definition validate_subscription_metadata :: "string \<Rightarrow> json option \<Rightarrow> ps_error + unit" where
  "validate_subscription_metadata retention policy =
     bind_res (retention_duration_ok retention) (\<lambda>_. validate_expiration_policy policy)"

definition dead_letter_max_delivery_attempts :: "(string, json) bmap \<Rightarrow> int option" where
  "dead_letter_max_delivery_attempts policy =
     (case map_of policy ''maxDeliveryAttempts'' of
        Some (Number n) \<Rightarrow>
          (case as_i64 (Number n) of Some i \<Rightarrow> Some i | None \<Rightarrow> map_option saturate_i64 (integral_f64 n))
      | _ \<Rightarrow> None)"

definition validate_dead_letter_policy :: "json option \<Rightarrow> ps_error + unit" where
  "validate_dead_letter_policy policy =
     (case policy_members policy of None \<Rightarrow> Inr () | Some es \<Rightarrow>
      (case map_of es ''deadLetterTopic'' of
         None \<Rightarrow> Inl (ps_invalid_argument ''deadLetterPolicy.deadLetterTopic is required'')
       | Some v \<Rightarrow>
          if \<not> (case as_str v of Some t \<Rightarrow> valid_full_topic_name t | None \<Rightarrow> False)
          then Inl (ps_invalid_argument ''invalid deadLetterPolicy.deadLetterTopic'')
          else (case dead_letter_max_delivery_attempts es of
             None \<Rightarrow> Inl (ps_invalid_argument ''deadLetterPolicy.maxDeliveryAttempts is required'')
           | Some n \<Rightarrow>
               if 5 \<le> n \<and> n \<le> 100 then Inr ()
               else Inl (ps_invalid_argument ''deadLetterPolicy.maxDeliveryAttempts must be between 5 and 100''))))"

definition dead_letter_topic :: "json option \<Rightarrow> string" where
  "dead_letter_topic policy =
     (case Option.bind policy (\<lambda>v. member_str v ''deadLetterTopic'') of Some t \<Rightarrow> t | None \<Rightarrow> [])"

definition retry_policy_duration :: "(string, json) bmap \<Rightarrow> string \<Rightarrow> ps_error + int option" where
  "retry_policy_duration policy field =
     (case map_of policy field of None \<Rightarrow> Inr None | Some v \<Rightarrow>
      (case filled_str v of None \<Rightarrow> Inl (ps_invalid_argument (''retryPolicy.'' @ field @ '' must be a duration string'')) | Some d \<Rightarrow>
       (case parse_go_duration d of
          Some n \<Rightarrow> if n \<ge> 0 then Inr (Some n)
                    else Inl (ps_invalid_argument (''retryPolicy.'' @ field @ '' must be a non-negative duration''))
        | None \<Rightarrow> Inl (ps_invalid_argument (''retryPolicy.'' @ field @ '' must be a non-negative duration'')))))"

definition validate_retry_policy :: "json option \<Rightarrow> ps_error + unit" where
  "validate_retry_policy policy =
     (case policy_members policy of None \<Rightarrow> Inr () | Some es \<Rightarrow>
      bind_res (retry_policy_duration es ''minimumBackoff'') (\<lambda>mn.
      bind_res (retry_policy_duration es ''maximumBackoff'') (\<lambda>mx.
      (case (mn, mx) of
         (Some a, Some b) \<Rightarrow>
           if a > b then Inl (ps_invalid_argument
             ''retryPolicy.minimumBackoff must be less than or equal to retryPolicy.maximumBackoff'') else Inr ()
       | _ \<Rightarrow> Inr ()))))"

definition validate_push_endpoint :: "string \<Rightarrow> ps_error + unit" where
  "validate_push_endpoint endpoint =
     (let bad = ps_invalid_argument ''pushConfig.pushEndpoint must be an http or https URL'' in
      case cut endpoint ''://'' of None \<Rightarrow> Inl bad | Some (scheme, rest) \<Rightarrow>
        if scheme \<noteq> ''http'' \<and> scheme \<noteq> ''https'' then Inl bad
        else let authority = takeWhile (\<lambda>c. c \<notin> set ''/?#'') rest in
          case rsplit_once (CHR ''@'') authority of
            Some (user, host) \<Rightarrow>
              if user \<noteq> [] then Inl (ps_invalid_argument ''pushConfig.pushEndpoint must not include user info'')
              else if host = [] then Inl bad else Inr ()
          | None \<Rightarrow> if authority = [] then Inl bad else Inr ())"

definition validate_push_config :: "json option \<Rightarrow> ps_error + unit" where
  "validate_push_config config =
     (case policy_members config of None \<Rightarrow> Inr () | Some es \<Rightarrow>
      (case map_of es ''pushEndpoint'' of None \<Rightarrow> Inr () | Some v \<Rightarrow>
       (case filled_str v of
          None \<Rightarrow> Inl (ps_invalid_argument ''pushConfig.pushEndpoint must be an http or https URL'')
        | Some endpoint \<Rightarrow> validate_push_endpoint endpoint)))"

definition validate_topic_metadata :: "topic \<Rightarrow> ps_error + unit" where
  "validate_topic_metadata t =
     bind_res (retention_duration_ok (top_message_retention_duration t)) (\<lambda>_.
     (case policy_members (top_schema_settings t) of None \<Rightarrow> Inr () | Some es \<Rightarrow>
      (case map_of es ''schema'' of None \<Rightarrow> Inl (ps_invalid_argument ''schemaSettings.schema is required'') | Some v \<Rightarrow>
       if \<not> (case as_str v of Some s \<Rightarrow> valid_full_schema_name s | None \<Rightarrow> False)
       then Inl (ps_invalid_argument ''invalid schemaSettings.schema'')
       else (case map_of es ''encoding'' of None \<Rightarrow> Inr () | Some e \<Rightarrow>
         if (case as_str e of Some s \<Rightarrow> valid_schema_encoding s | None \<Rightarrow> False) then Inr ()
         else Inl (ps_invalid_argument ''invalid schemaSettings.encoding'')))))"

definition validate_publish_message :: "string \<Rightarrow> (string, json) bmap option \<Rightarrow> ps_error + unit" where
  "validate_publish_message data attributes =
     (if data = [] \<and> (case attributes of Some a \<Rightarrow> a = [] | None \<Rightarrow> True)
      then Inl (ps_invalid_argument ''message data or attributes are required'')
      else if data \<noteq> [] \<and> decode_base64_bytes data = None
      then Inl (ps_invalid_argument ''message data must be base64 encoded'')
      else if (case attributes of Some a \<Rightarrow> list_ex (\<lambda>(k, _). trim k = []) a | None \<Rightarrow> False)
      then Inl (ps_invalid_argument ''message attributes must not contain empty keys'')
      else Inr ())"

definition validate_message_against_topic_schema :: "(string \<Rightarrow> json option) \<Rightarrow> string \<Rightarrow> json option \<Rightarrow> ps_error + unit" where
  "validate_message_against_topic_schema from_slice data settings =
     (case policy_members settings of None \<Rightarrow> Inr () | Some es \<Rightarrow>
      let encoding = (case Option.bind (map_of es ''encoding'') as_str of Some e \<Rightarrow> e | None \<Rightarrow> []) in
      if encoding = [] then Inr ()
      else (case decode_base64_bytes data of
          None \<Rightarrow> Inl (ps_invalid_argument ''message data must be base64 encoded'')
        | Some decoded \<Rightarrow>
            if valid_schema_message_data from_slice decoded encoding then Inr ()
            else Inl (ps_invalid_argument ''message is invalid for topic schema encoding'')))"

definition subscription_push_endpoint :: "subscription \<Rightarrow> string option" where
  "subscription_push_endpoint sub =
     Option.bind (sub_push_config sub) (\<lambda>v. Option.bind (member v ''pushEndpoint'') filled_str)"

definition normalize_any_map :: "json option \<Rightarrow> json option" where
  "normalize_any_map value = map_option Object (policy_members value)"

section \<open>Formatting followed by parsing\<close>

lemma parse_u32_pad: "0 \<le> n \<Longrightarrow> n \<le> 31 \<Longrightarrow> parse_u32 (pad_int w n) = Some n"
proof -
  assume n: "0 \<le> n" "n \<le> 31"
  have d: "list_all is_ascii_digit (pad_int w n)" "from_digits (pad_int w n) = nat n" "pad_int w n \<noteq> []"
    using n pad_int_field(1)[of n w] from_digits_zero_pad[of w "dec (nat n)"] by (auto simp: pad_int_def zero_pad_def)
  then show ?thesis using n by (simp add: parse_u32_def parse_u64_def split_sign_digits)
qed

lemma ps_nanos_format: "0 < n \<Longrightarrow> n < 10 ^ 9 \<Longrightarrow> ps_nanos (trim_end_matches (CHR ''0'') (zero_pad 9 (dec n))) = n"
proof -
  assume n: "0 < n" "n < 10 ^ 9"
  let ?G = "trim_end_matches (CHR ''0'') (zero_pad 9 (dec n))"
  have "from_digits ?G * 10 ^ (9 - length ?G) = n"
    using from_digits_padded[of ?G "9 - length ?G"] fraction_digits(4)[OF n] by simp
  then show "ps_nanos ?G = n" using fraction_digits(3)[OF n] by (simp add: ps_nanos_def min_absorb2)
qed

lemma parse_rfc3339_format:
  assumes r: "rfc3339_range secs" and n: "nanos < 10 ^ 9"
  shows "parse_rfc3339 (rfc3339_from_unix secs nanos) = Some (secs, nanos)"
proof -
  obtain y m d h mi se where
    fmt: "rfc3339_from_unix secs nanos = (pad_int 4 y @ CHR ''-'' # pad_int 2 m @ CHR ''-'' # pad_int 2 d)
       @ CHR ''T'' # ((pad_int 2 h @ CHR '':'' # pad_int 2 mi @ CHR '':'' # pad_int 2 se)
         @ (if nanos > 0 then CHR ''.'' # trim_end_matches (CHR ''0'') (zero_pad 9 (dec nanos)) else [])) @ ''Z''"
    and secs: "days_from_civil y m d * 86400 + h * 3600 + mi * 60 + se = secs"
    and F: "0 \<le> y" "y \<le> i64_max" "1 \<le> m" "m \<le> 12" "1 \<le> d" "d \<le> 31"
      "0 \<le> h" "h \<le> i64_max" "0 \<le> mi" "mi \<le> i64_max" "0 \<le> se" "se \<le> i64_max"
    using rfc3339_shape[OF r] by blast
  define date where "date = pad_int 4 y @ CHR ''-'' # pad_int 2 m @ CHR ''-'' # pad_int 2 d"
  define hms where "hms = pad_int 2 h @ CHR '':'' # pad_int 2 mi @ CHR '':'' # pad_int 2 se"
  define G where "G = trim_end_matches (CHR ''0'') (zero_pad 9 (dec nanos))"
  note fmt = fmt[folded date_def hms_def G_def]
  have T: "CHR ''T'' \<notin> set date" unfolding date_def using F by (intro no_separator) simp_all
  have dot: "CHR ''.'' \<notin> set hms" unfolding hms_def using F by (intro no_separator) simp_all
  have date: "ps_parse_date date = Some (y, m, d)" unfolding date_def ps_parse_date_def using F
    by (simp add: split_three digit_not_in pad_int_field parse_u32_pad)
  have hms: "ps_parse_hms hms = Some (h, mi, se)" unfolding hms_def ps_parse_hms_def using F
    by (simp add: split_three digit_not_in pad_int_field)
  have strip: "strip_suffix (rfc3339_from_unix secs nanos) ''Z'' = Some (date @ CHR ''T'' # hms @ (if nanos > 0 then CHR ''.'' # G else []))"
    unfolding fmt by (simp add: strip_suffix_Some)
  have split: "split_once (CHR ''T'') (date @ CHR ''T'' # rest) = Some (date, rest)" for rest
    using T by (rule split_once_append)
  have w: "wrap_s 64 secs = secs" using r by (intro wrap_s64_id) (simp_all add: rfc3339_range_def)
  show ?thesis
  proof (cases "nanos > 0")
    case True
    then show ?thesis using n fraction_digits(1,2)[OF True n] ps_nanos_format[OF True n] split_once_append[OF dot, of G]
      by (simp add: parse_rfc3339_def strip split date hms secs w G_def)
  next
    case False
    then show ?thesis using split_once_None[of "CHR ''.''" hms] dot strip
      by (simp add: parse_rfc3339_def split date hms secs w ps_nanos_def)
  qed
qed


text \<open>The clock as the server reads it, and a deadline set from it.\<close>

lemma parse_now: "clock_ok t \<Longrightarrow> parse_rfc3339 (now_rfc3339 t) = Some (int (t div 10 ^ 9), t mod 10 ^ 9)"
proof -
  assume "clock_ok t"
  then have "t div 10 ^ 9 < 2 ^ 62" unfolding clock_ok_def by (intro less_mult_imp_div_less) (simp add: mult.commute)
  then have b: "int (t div 10 ^ 9) \<le> 2 ^ 62" by (metis less_imp_le of_nat_less_numeral_power_cancel_iff)
  then have "rfc3339_range (int (t div 10 ^ 9))" by (simp add: rfc3339_range_def)
  moreover have "wrap_s 64 (int (t div 10 ^ 9)) = int (t div 10 ^ 9)" using b by (intro wrap_s64_id) simp_all
  ultimately show ?thesis by (simp add: now_rfc3339_def parse_rfc3339_format)
qed

lemma unix_secs_plus:
  assumes "0 \<le> now" "now \<le> 2 ^ 62" "0 \<le> n" "n \<le> 2 ^ 61"
  shows "unix_secs (plus_seconds now n) = now + n" "\<not> ps_is_zero (plus_seconds now n)"
proof -
  have w: "wrap_s 64 (now + n) = now + n" using assms by (intro wrap_s64_id) simp_all
  have p: "parse_rfc3339 (plus_seconds now n) = Some (now + n, 0)"
    unfolding plus_seconds_def w using assms by (intro parse_rfc3339_format) (simp_all add: rfc3339_range_def)
  have "parse_rfc3339 [] = None" "parse_rfc3339 ZERO_TIME = Some (- 62135596800, 0)" by code_simp+
  then show "\<not> ps_is_zero (plus_seconds now n)" using p assms by (auto simp: ps_is_zero_def)
  then show "unix_secs (plus_seconds now n) = now + n" by (simp add: unix_secs_def p)
qed

lemma after_plus:
  "0 \<le> now \<Longrightarrow> now \<le> 2 ^ 62 \<Longrightarrow> 0 \<le> n \<Longrightarrow> n \<le> 2 ^ 61 \<Longrightarrow> after_secs (plus_seconds now n) t \<longleftrightarrow> t < now + n"
  by (simp add: after_secs_def unix_secs_plus)

lemma zero_never_after [simp]: "\<not> after_secs ZERO_TIME t"
  by (simp add: after_secs_def ps_is_zero_def)

end
