(* ===== verification/Pubsub_Server.thy ===== *)
theory Pubsub_Server
  imports Pubsub_Types
begin

text \<open>
  The state of the Pub/Sub server (\<open>services/pubsub/src/server.rs\<close>), its two files, the clean-up of messages, and the REST operations on
  topics, subscriptions, snapshots and schemas. The record \<open>ps_server\<close> is the \<open>Server\<close> struct with the decoded contents of
  \<open>resources.json\<close> and \<open>pubsub.json\<close> beside it. The hook that pins the clock in tests is left out. Counters are \<open>u64\<close>. An operation
  returns its result with the server after it; a result is the value the response encodes (\<open>ps_answer\<close>), or the \<open>ApiError\<close>. Decoding
  of JSON is a parameter (\<open>ps_crates\<close>). What the environment decides during a call is \<open>ps_env\<close>: successive readings of the clock, and
  the outcome of the file-system steps of the write of each file.
\<close>

section \<open>State\<close>

record ps_config =
  pc_project :: string
  pc_auth_mode :: string
  pc_bearer_token :: string
  pc_storage_path :: string
  pc_message_storage_path :: string
  pc_default_ack_deadline_seconds :: int
  pc_message_retention_seconds :: int
  pc_max_ack_deadline_seconds :: int
  pc_max_pull_messages :: int

record ps_message_state =
  mf_messages :: "pubsub_message list"
  mf_deliveries :: "(string, delivery_record list) bmap"
  mf_next_message_id :: nat
  mf_next_ack_id :: nat

record resource_state =
  rf_topics :: "topic list"
  rf_subscriptions :: "subscription list"
  rf_snapshots :: "snapshot list"
  rf_schemas :: "schema list"
  rf_message_state :: ps_message_state

record ps_server =
  ps_config :: ps_config
  ps_topics :: "(string, topic) bmap"
  ps_subscriptions :: "(string, subscription) bmap"
  ps_snapshots :: "(string, snapshot) bmap"
  ps_schemas :: "(string, schema) bmap"
  ps_messages :: "(string, pubsub_message) bmap"
  ps_deliveries :: "(string, delivery_record list) bmap"
  ps_next_message_id :: nat
  ps_next_ack_id :: nat
  ps_load_err :: "string option"
  resource_dirty :: bool
  messages_dirty :: bool
  resource_file :: "resource_state option"
  message_file :: "ps_message_state option"

record ps_env =
  ps_clock :: "nat \<Rightarrow> nat"
  resource_fs :: fs_outcome
  message_fs :: fs_outcome

record ps_crates =
  ps_json_from :: "string \<Rightarrow> json option"
  ps_schema_from :: "json \<Rightarrow> schema option"

record ps_received_message =
  rcv_ack_id :: string
  rcv_message :: pubsub_message
  rcv_delivery_attempt :: int

datatype ps_answer =
    A_empty
  | A_no_content
  | A_topic topic
  | A_topics "topic list" string
  | A_subscription subscription
  | A_subscriptions "subscription list" string
  | A_snapshot snapshot
  | A_snapshots "snapshot list" string
  | A_schema schema
  | A_schemas "schema list" string
  | A_names "string list" string
  | A_message_ids "string list"
  | A_received "ps_received_message list"
  | A_json json

type_synonym ps_result = "(ps_error + ps_answer) \<times> ps_server"

definition ps_now :: "ps_env \<Rightarrow> nat \<Rightarrow> string" where
  "ps_now E i = now_rfc3339 (ps_clock E i)"

definition now_parts :: "ps_env \<Rightarrow> nat \<Rightarrow> int \<times> nat" where
  "now_parts E i = (case parse_rfc3339 (ps_now E i) of Some p \<Rightarrow> p | None \<Rightarrow> (0, 0))"

definition ps_project :: "ps_config \<Rightarrow> string" where
  "ps_project c = (if pc_project c = [] then ''devcloud'' else pc_project c)"

definition bump :: "nat \<Rightarrow> nat" where
  "bump n = (n + 1) mod 2 ^ 64"

section \<open>Loading\<close>

definition no_messages :: ps_message_state where
  "no_messages = \<lparr>mf_messages = [], mf_deliveries = [], mf_next_message_id = 0, mf_next_ack_id = 0\<rparr>"

definition load_message :: "pubsub_message \<Rightarrow> ps_server \<Rightarrow> ps_server" where
  "load_message m s =
     (if msg_message_id m = [] then s
      else s\<lparr>ps_next_message_id := (case parse_u64 (msg_message_id m) of
                Some i \<Rightarrow> max i (ps_next_message_id s) | None \<Rightarrow> ps_next_message_id s),
             ps_messages := bt_insert (msg_message_id m) m (ps_messages s)\<rparr>)"

definition load_message_state :: "ps_message_state \<Rightarrow> ps_server \<Rightarrow> ps_server" where
  "load_message_state f s =
     (let s = fold load_message (mf_messages f) s;
          s = s\<lparr>ps_deliveries := bt_extend (ps_deliveries s) (filter (\<lambda>(n, _). n \<noteq> []) (mf_deliveries f))\<rparr> in
      s\<lparr>ps_next_message_id := max (mf_next_message_id f) (ps_next_message_id s), ps_next_ack_id := mf_next_ack_id f\<rparr>)"

definition load_named :: "('v \<Rightarrow> string) \<Rightarrow> 'v list \<Rightarrow> (string, 'v) bmap \<Rightarrow> (string, 'v) bmap" where
  "load_named name vs m = bt_extend m (map (\<lambda>v. (name v, v)) (filter (\<lambda>v. name v \<noteq> []) vs))"

definition load_resources :: "resource_state \<Rightarrow> ps_server \<Rightarrow> ps_server" where
  "load_resources f s =
     (let s = s\<lparr>ps_topics := load_named top_name (rf_topics f) (ps_topics s),
                ps_subscriptions := load_named sub_name (rf_subscriptions f) (ps_subscriptions s),
                ps_snapshots := load_named snap_name (rf_snapshots f) (ps_snapshots s),
                ps_schemas := load_named sch_name (rf_schemas f) (ps_schemas s)\<rparr> in
      if pc_message_storage_path (ps_config s) = [] then load_message_state (rf_message_state f) s else s)"

text \<open>What reading a file gives: nothing there, an error, or its decoded content.\<close>

datatype 'a ps_file_read = Missing | Unreadable string | Content 'a

definition load_message_file :: "ps_message_state ps_file_read \<Rightarrow> ps_server \<Rightarrow> (string + unit) \<times> ps_server" where
  "load_message_file r s =
     (if pc_message_storage_path (ps_config s) = [] then (Inr (), s)
      else case r of
        Content f \<Rightarrow> (Inr (), load_message_state f (s\<lparr>ps_messages := [], ps_deliveries := [], ps_next_message_id := 0\<rparr>))
      | Missing \<Rightarrow> (Inr (), s)
      | Unreadable e \<Rightarrow> (Inl e, s))"

definition ps_load :: "resource_state ps_file_read \<Rightarrow> ps_message_state ps_file_read \<Rightarrow> ps_server \<Rightarrow> (string + unit) \<times> ps_server" where
  "ps_load rr mr s =
     (if pc_storage_path (ps_config s) = [] then load_message_file mr s
      else case rr of
        Content f \<Rightarrow> load_message_file mr (load_resources f s)
      | Missing \<Rightarrow> load_message_file mr s
      | Unreadable e \<Rightarrow> (Inl e, s))"

definition file_content :: "'a ps_file_read \<Rightarrow> 'a option" where
  "file_content r = (case r of Content f \<Rightarrow> Some f | _ \<Rightarrow> None)"

definition ps_blank :: "ps_config \<Rightarrow> ps_server" where
  "ps_blank cfg =
     \<lparr>ps_config = cfg, ps_topics = [], ps_subscriptions = [], ps_snapshots = [], ps_schemas = [], ps_messages = [],
      ps_deliveries = [], ps_next_message_id = 0, ps_next_ack_id = 0, ps_load_err = None, resource_dirty = False,
      messages_dirty = False, resource_file = None, message_file = None\<rparr>"

definition ps_new :: "ps_config \<Rightarrow> resource_state ps_file_read \<Rightarrow> ps_message_state ps_file_read \<Rightarrow> ps_server" where
  "ps_new cfg rr mr =
     (let s = (ps_blank cfg)\<lparr>resource_file := file_content rr, message_file := file_content mr\<rparr> in
      if pc_storage_path cfg = [] \<and> pc_message_storage_path cfg = [] then s
      else case ps_load rr mr s of (Inl e, s') \<Rightarrow> s'\<lparr>ps_load_err := Some e\<rparr> | (Inr _, s') \<Rightarrow> s')"

section \<open>Clean-up\<close>

definition referenced_by_subscription :: "ps_server \<Rightarrow> string \<times> delivery_record list \<Rightarrow> string list" where
  "referenced_by_subscription s = (\<lambda>(n, records).
     let retain_acked = (case map_of (ps_subscriptions s) n of Some sub \<Rightarrow> sub_retain_acked_messages sub | None \<Rightarrow> False) in
     map del_message_id (filter (\<lambda>r. \<not> (del_acked r \<and> \<not> retain_acked)) records))"

definition referenced :: "ps_server \<Rightarrow> string list" where
  "referenced s =
     concat (map (referenced_by_subscription s) (ps_deliveries s))
     @ concat (map (\<lambda>(_, snap). map del_message_id (snap_deliveries snap)) (ps_snapshots s))"

definition cleanup_unreferenced_messages :: "ps_server \<Rightarrow> ps_server" where
  "cleanup_unreferenced_messages s =
     (let kept = filter (\<lambda>(i, _). i \<in> set (referenced s)) (ps_messages s) in
      s\<lparr>ps_messages := kept, messages_dirty := messages_dirty s \<or> length kept \<noteq> length (ps_messages s)\<rparr>)"

definition subscription_message_retention_nanos :: "ps_server \<Rightarrow> string \<Rightarrow> int" where
  "subscription_message_retention_nanos s n =
     (let fallback = pc_message_retention_seconds (ps_config s) * 10 ^ 9;
          parsed = (\<lambda>d. case parse_go_duration d of Some ns \<Rightarrow> if ns > 0 then ns else fallback | None \<Rightarrow> fallback) in
      case map_of (ps_subscriptions s) n of None \<Rightarrow> fallback
      | Some sub \<Rightarrow>
          if trim (sub_message_retention_duration sub) = [] then
            case map_of (ps_topics s) (sub_topic sub) of None \<Rightarrow> fallback
            | Some t \<Rightarrow> if trim (top_message_retention_duration t) = [] then fallback else parsed (top_message_retention_duration t)
          else parsed (sub_message_retention_duration sub))"

definition published_nanos :: "ps_server \<Rightarrow> delivery_record \<Rightarrow> int option" where
  "published_nanos s d =
     Option.bind (map_of (ps_messages s) (del_message_id d)) (\<lambda>m.
       map_option (\<lambda>(secs, nanos). secs * 10 ^ 9 + int nanos) (parse_rfc3339 (msg_publish_time m)))"

definition within_retention :: "ps_server \<Rightarrow> int \<Rightarrow> delivery_record \<Rightarrow> bool" where
  "within_retention s cutoff d = (case published_nanos s d of Some p \<Rightarrow> p \<ge> cutoff | None \<Rightarrow> False)"

definition retain_deliveries :: "int \<Rightarrow> ps_server \<Rightarrow> ps_server" where
  "retain_deliveries now_nanos s =
     (let kept = map (\<lambda>(n, ds). (n, filter (within_retention s (now_nanos - subscription_message_retention_nanos s n)) ds)) (ps_deliveries s) in
      s\<lparr>messages_dirty := messages_dirty s \<or> map (length \<circ> snd) kept \<noteq> map (length \<circ> snd) (ps_deliveries s),
        ps_deliveries := filter (\<lambda>(_, ds). ds \<noteq> []) kept\<rparr>)"

definition retain_snapshots :: "int \<Rightarrow> ps_server \<Rightarrow> ps_server" where
  "retain_snapshots now_nanos s =
     (let cutoff = now_nanos - pc_message_retention_seconds (ps_config s) * 10 ^ 9;
          kept = map (\<lambda>(n, snap). (n, snap\<lparr>snap_deliveries := filter (within_retention s cutoff) (snap_deliveries snap)\<rparr>)) (ps_snapshots s) in
      s\<lparr>resource_dirty := resource_dirty s
           \<or> map (length \<circ> snap_deliveries \<circ> snd) kept \<noteq> map (length \<circ> snap_deliveries \<circ> snd) (ps_snapshots s),
        ps_snapshots := kept\<rparr>)"

definition snapshot_expired :: "ps_env \<Rightarrow> nat \<Rightarrow> snapshot \<Rightarrow> bool" where
  "snapshot_expired E i snap =
     (let expire = trim (snap_expire_time snap) in
      if expire = [] then False
      else case parse_rfc3339 expire of None \<Rightarrow> False | Some (exp_secs, _) \<Rightarrow>
        (case parse_rfc3339 (ps_now E i) of None \<Rightarrow> False | Some (now_secs, _) \<Rightarrow> exp_secs \<le> now_secs))"

text \<open>The clock is read again for every snapshot, from the second reading of the call on.\<close>

definition cleanup_expired_snapshots :: "ps_env \<Rightarrow> ps_server \<Rightarrow> ps_server" where
  "cleanup_expired_snapshots E s =
     (let kept = map snd (filter (\<lambda>(i, _, snap). \<not> snapshot_expired E i snap) (enumerate 1 (ps_snapshots s))) in
      s\<lparr>resource_dirty := resource_dirty s \<or> length kept \<noteq> length (ps_snapshots s), ps_snapshots := kept\<rparr>)"

definition cleanup_retained_messages :: "ps_env \<Rightarrow> int \<Rightarrow> ps_server \<Rightarrow> ps_server" where
  "cleanup_retained_messages E now_secs s =
     (let s = cleanup_expired_snapshots E s in
      if pc_message_retention_seconds (ps_config s) \<le> 0 \<or> ps_messages s = [] then s
      else cleanup_unreferenced_messages (retain_snapshots (now_secs * 10 ^ 9) (retain_deliveries (now_secs * 10 ^ 9) s)))"

section \<open>Saving\<close>

definition store_unavailable :: ps_error where
  "store_unavailable = ps_internal ''pubsub resource store unavailable''"

text \<open>Creating the directory, writing the temporary file and renaming it: any failure is the same error, and the old file stays.\<close>

definition written :: "fs_outcome \<Rightarrow> bool" where
  "written f \<longleftrightarrow> create_dir_err f = None \<and> write_err f = None \<and> rename_err f = None"

definition message_state_of :: "ps_server \<Rightarrow> ps_message_state" where
  "message_state_of s =
     \<lparr>mf_messages = map snd (ps_messages s), mf_deliveries = filter (\<lambda>(_, ds). ds \<noteq> []) (ps_deliveries s),
      mf_next_message_id = ps_next_message_id s, mf_next_ack_id = ps_next_ack_id s\<rparr>"

definition resource_state_of :: "ps_server \<Rightarrow> resource_state" where
  "resource_state_of s =
     \<lparr>rf_topics = map snd (ps_topics s), rf_subscriptions = map snd (ps_subscriptions s), rf_snapshots = map snd (ps_snapshots s),
      rf_schemas = map snd (ps_schemas s),
      rf_message_state = (if pc_message_storage_path (ps_config s) = [] then message_state_of s else no_messages)\<rparr>"

definition ps_persist :: "ps_env \<Rightarrow> ps_server \<Rightarrow> (ps_error + unit) \<times> ps_server" where
  "ps_persist E s =
     (let s = (if messages_dirty s then cleanup_unreferenced_messages s else s);
          one_file = (pc_message_storage_path (ps_config s) = []);
          has_resources = (pc_storage_path (ps_config s) \<noteq> []) in
      if \<not> has_resources \<and> one_file then (Inr (), s\<lparr>resource_dirty := False, messages_dirty := False\<rparr>)
      else
        let write_resources = (has_resources \<and> (resource_dirty s \<or> one_file \<and> messages_dirty s));
            write_messages = (\<not> one_file \<and> messages_dirty s) in
        if write_resources \<and> \<not> written (resource_fs E) then (Inl store_unavailable, s)
        else
          let s = (if write_resources then s\<lparr>resource_file := Some (resource_state_of s), resource_dirty := False\<rparr> else s) in
          if \<not> write_messages then (Inr (), s)
          else if \<not> written (message_fs E) then (Inl store_unavailable, s)
          else (Inr (), s\<lparr>message_file := Some (message_state_of s), messages_dirty := False\<rparr>))"

section \<open>Handlers\<close>

text \<open>The checks of a handler, the first of which that fails gives the error.\<close>

definition ensure :: "bool \<Rightarrow> ps_error \<Rightarrow> ps_error + unit" where
  "ensure ok e = (if ok then Inr () else Inl e)"

definition checked :: "(ps_error + unit) list \<Rightarrow> ps_server \<Rightarrow> ps_result \<Rightarrow> ps_result" where
  "checked checks s body = (case try_all (\<lambda>c. c) checks of Inl e \<Rightarrow> (Inl e, s) | Inr _ \<Rightarrow> body)"

text \<open>Saving the changed state, and putting back what was changed when that fails.\<close>

definition commit :: "ps_env \<Rightarrow> ps_server \<Rightarrow> (ps_server \<Rightarrow> ps_server) \<Rightarrow> ps_answer \<Rightarrow> ps_result" where
  "commit E s undo answer = (case ps_persist E s of (Inl e, s') \<Rightarrow> (Inl e, undo s') | (Inr _, s') \<Rightarrow> (Inr answer, s'))"

definition valid_id :: "string \<Rightarrow> string \<Rightarrow> ps_error + unit" where
  "valid_id kind i = ensure (valid_resource_id i) (ps_invalid_argument (''invalid '' @ kind @ '' name''))"

definition valid_project :: "string \<Rightarrow> ps_error + unit" where
  "valid_project p = ensure (valid_project_id p) (ps_invalid_argument ''invalid project name'')"

definition page_bounds :: "nat \<Rightarrow> int \<Rightarrow> int \<Rightarrow> nat \<times> nat \<times> string" where
  "page_bounds n page_token page_size =
     (let start = min n (nat page_token) in
      if page_size > 0 \<and> start + nat page_size < n
      then (start, start + nat page_size, dec (start + nat page_size)) else (start, n, []))"

definition ps_page_of :: "'a list \<Rightarrow> int \<Rightarrow> int \<Rightarrow> 'a list \<times> string" where
  "ps_page_of xs page_token page_size =
     (case page_bounds (length xs) page_token page_size of (start, stop, next_token) \<Rightarrow> (drop start (take stop xs), next_token))"

section \<open>Topics\<close>

definition create_topic :: "ps_env \<Rightarrow> string \<Rightarrow> string \<Rightarrow> topic \<Rightarrow> ps_server \<Rightarrow> ps_result" where
  "create_topic E project topic_id request s =
     (let name = topic_name project topic_id; now = ps_now E 0;
          t = request\<lparr>top_name := name, top_created_at := now, top_updated_at := now\<rparr> in
      checked [valid_id ''topic'' topic_id, valid_project project,
          ensure (top_name request = [] \<or> top_name request = name) (ps_invalid_argument ''topic name does not match request path''),
          validate_topic_metadata request,
          ensure (\<not> bt_contains (ps_topics s) name) (ps_already_exists ''topic already exists'')] s
        (commit E (s\<lparr>ps_topics := bt_insert name t (ps_topics s), resource_dirty := True\<rparr>)
          (\<lambda>s'. s'\<lparr>ps_topics := bt_remove name (ps_topics s')\<rparr>) (A_topic t)))"

definition get_topic :: "string \<Rightarrow> string \<Rightarrow> ps_server \<Rightarrow> ps_result" where
  "get_topic project topic_id s =
     checked [valid_id ''topic'' topic_id, valid_project project] s
       (case map_of (ps_topics s) (topic_name project topic_id) of
          Some t \<Rightarrow> (Inr (A_topic t), s) | None \<Rightarrow> (Inl (ps_not_found ''topic not found''), s))"

definition apply_topic_field :: "topic \<Rightarrow> string \<Rightarrow> topic \<Rightarrow> topic" where
  "apply_topic_field patch field t =
     (if field = ''labels'' then t\<lparr>top_labels := top_labels patch\<rparr>
      else if field = ''messageRetentionDuration'' then t\<lparr>top_message_retention_duration := top_message_retention_duration patch\<rparr>
      else if field = ''schemaSettings'' then t\<lparr>top_schema_settings := top_schema_settings patch\<rparr>
      else if field = ''kmsKeyName'' then t\<lparr>top_kms_key_name := top_kms_key_name patch\<rparr>
      else t)"

definition patch_topic :: "ps_env \<Rightarrow> string \<Rightarrow> string \<Rightarrow> topic \<Rightarrow> string list \<Rightarrow> ps_server \<Rightarrow> ps_result" where
  "patch_topic E project topic_id patch update_mask s =
     (let name = topic_name project topic_id in
      checked [valid_id ''topic'' topic_id, valid_project project,
          ensure (top_name patch = [] \<or> top_name patch = name) (ps_invalid_argument ''topic name does not match request path''),
          validate_topic_metadata patch] s
        (case map_of (ps_topics s) name of
           None \<Rightarrow> (Inl (ps_not_found ''topic not found''), s)
         | Some old \<Rightarrow>
             let t = (fold (apply_topic_field patch) update_mask old)\<lparr>top_updated_at := ps_now E 0\<rparr> in
             commit E (s\<lparr>ps_topics := bt_insert name t (ps_topics s), resource_dirty := True\<rparr>)
               (\<lambda>s'. s'\<lparr>ps_topics := bt_insert name old (ps_topics s')\<rparr>) (A_topic t)))"

definition delete_topic :: "ps_env \<Rightarrow> string \<Rightarrow> string \<Rightarrow> ps_server \<Rightarrow> ps_result" where
  "delete_topic E project topic_id s =
     (let name = topic_name project topic_id in
      checked [valid_id ''topic'' topic_id, valid_project project] s
        (case map_of (ps_topics s) name of
           None \<Rightarrow> (Inl (ps_not_found ''topic not found''), s)
         | Some t \<Rightarrow>
             if list_ex (\<lambda>(_, sub). sub_topic sub = name \<and> \<not> sub_detached sub) (ps_subscriptions s)
             then (Inl (ps_failed_precondition ''topic has attached subscriptions''), s)
             else commit E (s\<lparr>ps_topics := bt_remove name (ps_topics s), resource_dirty := True\<rparr>)
               (\<lambda>s'. s'\<lparr>ps_topics := bt_insert name t (ps_topics s')\<rparr>) A_no_content))"

definition list_topics :: "string \<Rightarrow> int \<Rightarrow> int \<Rightarrow> ps_server \<Rightarrow> ps_result" where
  "list_topics project page_size page_token s =
     checked [valid_project project] s
       (case ps_page_of (filter (\<lambda>t. resource_project (top_name t) = project) (map snd (ps_topics s))) page_token page_size of
          (page, next_token) \<Rightarrow> (Inr (A_topics page next_token), s))"

definition list_topic_names ::
    "(ps_server \<Rightarrow> string \<Rightarrow> string list) \<Rightarrow> string \<Rightarrow> string \<Rightarrow> int \<Rightarrow> int \<Rightarrow> ps_server \<Rightarrow> ps_result" where
  "list_topic_names names project topic_id page_size page_token s =
     (let name = topic_name project topic_id in
      checked [valid_project project, valid_id ''topic'' topic_id,
          ensure (bt_contains (ps_topics s) name) (ps_not_found ''topic not found'')] s
        (case ps_page_of (sort (names s name)) page_token page_size of
           (page, next_token) \<Rightarrow> (Inr (A_names page next_token), s)))"

definition list_topic_subscriptions :: "string \<Rightarrow> string \<Rightarrow> int \<Rightarrow> int \<Rightarrow> ps_server \<Rightarrow> ps_result" where
  "list_topic_subscriptions = list_topic_names (\<lambda>s name.
     map sub_name (filter (\<lambda>sub. sub_topic sub = name \<and> \<not> sub_detached sub) (map snd (ps_subscriptions s))))"

definition list_topic_snapshots :: "string \<Rightarrow> string \<Rightarrow> int \<Rightarrow> int \<Rightarrow> ps_server \<Rightarrow> ps_result" where
  "list_topic_snapshots = list_topic_names (\<lambda>s name.
     map snap_name (filter (\<lambda>snap. snap_topic snap = name) (map snd (ps_snapshots s))))"

section \<open>Subscriptions\<close>

definition default_ack_deadline :: "ps_server \<Rightarrow> int" where
  "default_ack_deadline s =
     (if pc_default_ack_deadline_seconds (ps_config s) > 0 then pc_default_ack_deadline_seconds (ps_config s) else 10)"

definition max_ack_deadline :: "ps_server \<Rightarrow> int" where
  "max_ack_deadline s = (if pc_max_ack_deadline_seconds (ps_config s) > 0 then pc_max_ack_deadline_seconds (ps_config s) else 600)"

definition dead_letter_topic_exists :: "ps_server \<Rightarrow> json option \<Rightarrow> bool" where
  "dead_letter_topic_exists s policy \<longleftrightarrow> dead_letter_topic policy = [] \<or> bt_contains (ps_topics s) (dead_letter_topic policy)"

definition subscription_request_checks :: "ps_server \<Rightarrow> subscription \<Rightarrow> (ps_error + unit) list" where
  "subscription_request_checks s request =
     [ensure (sub_topic request \<noteq> []) (ps_invalid_argument ''subscription topic is required''),
      ensure (valid_full_topic_name (sub_topic request)) (ps_invalid_argument ''invalid topic name''),
      ensure (sub_ack_deadline_seconds request \<ge> 0) (ps_invalid_argument ''ackDeadlineSeconds must be non-negative''),
      ensure ((if sub_ack_deadline_seconds request = 0 then default_ack_deadline s else sub_ack_deadline_seconds request) \<le> max_ack_deadline s)
        (ps_invalid_argument ''ackDeadlineSeconds exceeds maxAckDeadlineSeconds''),
      validate_subscription_filter (sub_filter request),
      validate_subscription_metadata (sub_message_retention_duration request) (sub_expiration_policy request),
      validate_dead_letter_policy (sub_dead_letter_policy request),
      validate_retry_policy (sub_retry_policy request),
      validate_push_config (sub_push_config request)]"

definition create_subscription :: "ps_env \<Rightarrow> string \<Rightarrow> string \<Rightarrow> subscription \<Rightarrow> ps_server \<Rightarrow> ps_result" where
  "create_subscription E project subscription_id request s =
     (let name = subscription_name project subscription_id; now = ps_now E 0;
          ack = (if sub_ack_deadline_seconds request = 0 then default_ack_deadline s else sub_ack_deadline_seconds request);
          sub = request\<lparr>sub_name := name, sub_ack_deadline_seconds := ack, sub_created_at := now, sub_updated_at := now\<rparr> in
      checked ([valid_id ''subscription'' subscription_id, valid_project project] @ subscription_request_checks s request @
          [ensure (\<not> bt_contains (ps_subscriptions s) name) (ps_already_exists ''subscription already exists''),
           ensure (bt_contains (ps_topics s) (sub_topic request)) (ps_not_found ''topic not found''),
           ensure (dead_letter_topic_exists s (sub_dead_letter_policy request)) (ps_not_found ''dead-letter topic not found'')]) s
        (commit E (s\<lparr>ps_subscriptions := bt_insert name sub (ps_subscriptions s), resource_dirty := True\<rparr>)
          (\<lambda>s'. s'\<lparr>ps_subscriptions := bt_remove name (ps_subscriptions s')\<rparr>) (A_subscription sub)))"

definition get_subscription :: "string \<Rightarrow> string \<Rightarrow> ps_server \<Rightarrow> ps_result" where
  "get_subscription project subscription_id s =
     checked [valid_id ''subscription'' subscription_id, valid_project project] s
       (case map_of (ps_subscriptions s) (subscription_name project subscription_id) of
          Some sub \<Rightarrow> (Inr (A_subscription sub), s) | None \<Rightarrow> (Inl (ps_not_found ''subscription not found''), s))"

definition when_field :: "string list \<Rightarrow> string \<Rightarrow> ps_error + unit \<Rightarrow> ps_error + unit" where
  "when_field update_mask f c = (if f \<in> set update_mask then c else Inr ())"

definition patch_subscription_checks :: "ps_server \<Rightarrow> subscription \<Rightarrow> string list \<Rightarrow> (ps_error + unit) list" where
  "patch_subscription_checks s patch update_mask =
     [ensure (sub_ack_deadline_seconds patch \<ge> 0) (ps_invalid_argument ''ackDeadlineSeconds must be non-negative''),
      ensure (sub_ack_deadline_seconds patch \<le> max_ack_deadline s) (ps_invalid_argument ''ackDeadlineSeconds exceeds maxAckDeadlineSeconds''),
      when_field update_mask ''filter'' (validate_subscription_filter (sub_filter patch)),
      (if ''messageRetentionDuration'' \<in> set update_mask \<or> ''expirationPolicy'' \<in> set update_mask
       then validate_subscription_metadata (sub_message_retention_duration patch) (sub_expiration_policy patch) else Inr ()),
      when_field update_mask ''deadLetterPolicy'' (validate_dead_letter_policy (sub_dead_letter_policy patch)),
      when_field update_mask ''retryPolicy'' (validate_retry_policy (sub_retry_policy patch)),
      when_field update_mask ''pushConfig'' (validate_push_config (sub_push_config patch))]"

definition apply_subscription_patch :: "ps_server \<Rightarrow> subscription \<Rightarrow> string list \<Rightarrow> subscription \<Rightarrow> subscription" where
  "apply_subscription_patch s patch update_mask sub =
     sub\<lparr>sub_labels := (if ''labels'' \<in> set update_mask then sub_labels patch else sub_labels sub),
         sub_ack_deadline_seconds :=
           (if ''ackDeadlineSeconds'' \<in> set update_mask
            then if sub_ack_deadline_seconds patch = 0 then default_ack_deadline s else sub_ack_deadline_seconds patch
            else sub_ack_deadline_seconds sub),
         sub_enable_message_ordering := (if ''enableMessageOrdering'' \<in> set update_mask then sub_enable_message_ordering patch else sub_enable_message_ordering sub),
         sub_enable_exactly_once_delivery :=
           (if ''enableExactlyOnceDelivery'' \<in> set update_mask then sub_enable_exactly_once_delivery patch else sub_enable_exactly_once_delivery sub),
         sub_retain_acked_messages := (if ''retainAckedMessages'' \<in> set update_mask then sub_retain_acked_messages patch else sub_retain_acked_messages sub),
         sub_message_retention_duration :=
           (if ''messageRetentionDuration'' \<in> set update_mask then sub_message_retention_duration patch else sub_message_retention_duration sub),
         sub_expiration_policy := (if ''expirationPolicy'' \<in> set update_mask then sub_expiration_policy patch else sub_expiration_policy sub),
         sub_filter := (if ''filter'' \<in> set update_mask then sub_filter patch else sub_filter sub),
         sub_dead_letter_policy := (if ''deadLetterPolicy'' \<in> set update_mask then sub_dead_letter_policy patch else sub_dead_letter_policy sub),
         sub_retry_policy := (if ''retryPolicy'' \<in> set update_mask then sub_retry_policy patch else sub_retry_policy sub),
         sub_push_config := (if ''pushConfig'' \<in> set update_mask then sub_push_config patch else sub_push_config sub)\<rparr>"

definition patch_subscription :: "ps_env \<Rightarrow> string \<Rightarrow> string \<Rightarrow> subscription \<Rightarrow> string list \<Rightarrow> ps_server \<Rightarrow> ps_result" where
  "patch_subscription E project subscription_id patch update_mask s =
     (let name = subscription_name project subscription_id in
      checked ([valid_id ''subscription'' subscription_id, valid_project project,
          ensure (sub_name patch = [] \<or> sub_name patch = name) (ps_invalid_argument ''subscription name does not match request path'')]
          @ patch_subscription_checks s patch update_mask) s
        (case map_of (ps_subscriptions s) name of
           None \<Rightarrow> (Inl (ps_not_found ''subscription not found''), s)
         | Some old \<Rightarrow>
             if ''deadLetterPolicy'' \<in> set update_mask \<and> \<not> dead_letter_topic_exists s (sub_dead_letter_policy patch)
             then (Inl (ps_not_found ''dead-letter topic not found''), s)
             else if ''topic'' \<in> set update_mask \<and> sub_topic patch \<noteq> [] \<and> sub_topic patch \<noteq> sub_topic old
             then (Inl (ps_failed_precondition ''subscription topic cannot be changed''), s)
             else
               let sub = (apply_subscription_patch s patch update_mask old)\<lparr>sub_updated_at := ps_now E 0\<rparr> in
               commit E (s\<lparr>ps_subscriptions := bt_insert name sub (ps_subscriptions s), resource_dirty := True\<rparr>)
                 (\<lambda>s'. s'\<lparr>ps_subscriptions := bt_insert name old (ps_subscriptions s')\<rparr>) (A_subscription sub)))"

text \<open>The snapshots of a subscription, and the snapshots without them.\<close>

definition snapshots_of :: "string \<Rightarrow> ps_server \<Rightarrow> (string, snapshot) bmap" where
  "snapshots_of name s = filter (\<lambda>(_, snap). snap_subscription snap = name) (ps_snapshots s)"

definition snapshots_besides :: "string \<Rightarrow> ps_server \<Rightarrow> (string, snapshot) bmap" where
  "snapshots_besides name s = filter (\<lambda>(_, snap). snap_subscription snap \<noteq> name) (ps_snapshots s)"

definition delete_subscription :: "ps_env \<Rightarrow> string \<Rightarrow> string \<Rightarrow> ps_server \<Rightarrow> ps_result" where
  "delete_subscription E project subscription_id s =
     (let name = subscription_name project subscription_id in
      checked [valid_id ''subscription'' subscription_id, valid_project project] s
        (case map_of (ps_subscriptions s) name of
           None \<Rightarrow> (Inl (ps_not_found ''subscription not found''), s)
         | Some sub \<Rightarrow>
             commit E (s\<lparr>ps_subscriptions := bt_remove name (ps_subscriptions s), ps_snapshots := snapshots_besides name s,
                 ps_deliveries := bt_remove name (ps_deliveries s), resource_dirty := True, messages_dirty := True\<rparr>)
               (\<lambda>s'. s'\<lparr>ps_subscriptions := bt_insert name sub (ps_subscriptions s'),
                   ps_snapshots := bt_extend (ps_snapshots s') (snapshots_of name s),
                   ps_deliveries := (case map_of (ps_deliveries s) name of
                      Some ds \<Rightarrow> bt_insert name ds (ps_deliveries s') | None \<Rightarrow> ps_deliveries s'),
                   ps_messages := ps_messages s\<rparr>)
               A_no_content))"

definition list_subscriptions :: "string \<Rightarrow> int \<Rightarrow> int \<Rightarrow> ps_server \<Rightarrow> ps_result" where
  "list_subscriptions project page_size page_token s =
     checked [valid_project project] s
       (case ps_page_of (filter (\<lambda>sub. resource_project (sub_name sub) = project) (map snd (ps_subscriptions s))) page_token page_size of
          (page, next_token) \<Rightarrow> (Inr (A_subscriptions page next_token), s))"

definition modify_push_config :: "ps_env \<Rightarrow> string \<Rightarrow> string \<Rightarrow> json option \<Rightarrow> ps_server \<Rightarrow> ps_result" where
  "modify_push_config E project subscription_id push_config s =
     (let name = subscription_name project subscription_id in
      checked [valid_id ''subscription'' subscription_id, valid_project project, validate_push_config push_config] s
        (case map_of (ps_subscriptions s) name of
           None \<Rightarrow> (Inl (ps_not_found ''subscription not found''), s)
         | Some old \<Rightarrow>
             let sub = old\<lparr>sub_push_config := normalize_any_map push_config, sub_updated_at := ps_now E 0\<rparr> in
             commit E (s\<lparr>ps_subscriptions := bt_insert name sub (ps_subscriptions s), resource_dirty := True\<rparr>)
               (\<lambda>s'. s'\<lparr>ps_subscriptions := bt_insert name old (ps_subscriptions s')\<rparr>) A_empty))"

definition detach_subscription :: "ps_env \<Rightarrow> string \<Rightarrow> string \<Rightarrow> ps_server \<Rightarrow> ps_result" where
  "detach_subscription E project subscription_id s =
     (let name = subscription_name project subscription_id in
      checked [valid_id ''subscription'' subscription_id, valid_project project] s
        (case map_of (ps_subscriptions s) name of
           None \<Rightarrow> (Inl (ps_not_found ''subscription not found''), s)
         | Some old \<Rightarrow>
             let sub = old\<lparr>sub_detached := True, sub_updated_at := ps_now E 0\<rparr> in
             commit E (s\<lparr>ps_snapshots := snapshots_besides name s, ps_subscriptions := bt_insert name sub (ps_subscriptions s),
                 resource_dirty := True, messages_dirty := True\<rparr>)
               (\<lambda>s'. s'\<lparr>ps_subscriptions := bt_insert name old (ps_subscriptions s'),
                   ps_snapshots := bt_extend (ps_snapshots s') (snapshots_of name s), ps_messages := ps_messages s\<rparr>)
               A_empty))"

section \<open>Snapshots\<close>

definition snapshot_expire_time :: "ps_env \<Rightarrow> nat \<Rightarrow> string" where
  "snapshot_expire_time E i =
     (case parse_rfc3339 (ps_now E i) of
        Some (secs, nanos) \<Rightarrow> rfc3339_from_unix (wrap_s 64 (secs + 7 * 24 * 3600)) nanos | None \<Rightarrow> [])"

definition snapshot_public :: "snapshot \<Rightarrow> snapshot" where
  "snapshot_public snap = snap\<lparr>snap_deliveries := []\<rparr>"

definition create_snapshot :: "ps_env \<Rightarrow> string \<Rightarrow> string \<Rightarrow> string \<Rightarrow> ps_server \<Rightarrow> ps_result" where
  "create_snapshot E project snapshot_id subscription s =
     (let name = snapshot_name project snapshot_id in
      checked [valid_project project, valid_id ''snapshot'' snapshot_id,
          ensure (valid_full_subscription_name subscription) (ps_invalid_argument ''invalid subscription name''),
          ensure (\<not> bt_contains (ps_snapshots s) name) (ps_already_exists ''snapshot already exists'')] s
        (case map_of (ps_subscriptions s) subscription of
           None \<Rightarrow> (Inl (ps_not_found ''subscription not found''), s)
         | Some sub \<Rightarrow>
             let snap = \<lparr>snap_name = name, snap_topic = sub_topic sub, snap_subscription = sub_name sub,
                         snap_expire_time = snapshot_expire_time E 0, snap_labels = [], snap_deliveries = []\<rparr> in
             commit E (s\<lparr>ps_snapshots := bt_insert name snap (ps_snapshots s), resource_dirty := True\<rparr>)
               (\<lambda>s'. s'\<lparr>ps_snapshots := bt_remove name (ps_snapshots s')\<rparr>) (A_snapshot (snapshot_public snap))))"

definition get_snapshot :: "ps_env \<Rightarrow> string \<Rightarrow> string \<Rightarrow> ps_server \<Rightarrow> ps_result" where
  "get_snapshot E project snapshot_id s =
     checked [valid_project project, valid_id ''snapshot'' snapshot_id] s
       (case map_of (ps_snapshots s) (snapshot_name project snapshot_id) of
          Some snap \<Rightarrow> if snapshot_expired E 0 snap then (Inl (ps_not_found ''snapshot not found''), s) else (Inr (A_snapshot (snapshot_public snap)), s)
        | None \<Rightarrow> (Inl (ps_not_found ''snapshot not found''), s))"

definition delete_snapshot :: "ps_env \<Rightarrow> string \<Rightarrow> string \<Rightarrow> ps_server \<Rightarrow> ps_result" where
  "delete_snapshot E project snapshot_id s =
     (let name = snapshot_name project snapshot_id in
      checked [valid_project project, valid_id ''snapshot'' snapshot_id] s
        (case map_of (ps_snapshots s) name of
           None \<Rightarrow> (Inl (ps_not_found ''snapshot not found''), s)
         | Some snap \<Rightarrow>
             commit E (s\<lparr>ps_snapshots := bt_remove name (ps_snapshots s), resource_dirty := True, messages_dirty := True\<rparr>)
               (\<lambda>s'. s'\<lparr>ps_snapshots := bt_insert name snap (ps_snapshots s'), ps_messages := ps_messages s\<rparr>) A_no_content))"

definition list_snapshots :: "ps_env \<Rightarrow> string \<Rightarrow> int \<Rightarrow> int \<Rightarrow> ps_server \<Rightarrow> ps_result" where
  "list_snapshots E project page_size page_token s =
     checked [valid_project project] s
       (case ps_page_of (map (snapshot_public \<circ> snd)
            (filter (\<lambda>(i, snap). resource_project (snap_name snap) = project \<and> \<not> snapshot_expired E i snap)
              (enumerate 0 (map snd (ps_snapshots s))))) page_token page_size of
          (page, next_token) \<Rightarrow> (Inr (A_snapshots page next_token), s))"

section \<open>Schemas\<close>

definition create_schema :: "ps_crates \<Rightarrow> ps_env \<Rightarrow> string \<Rightarrow> string \<Rightarrow> schema \<Rightarrow> ps_server \<Rightarrow> ps_result" where
  "create_schema X E project schema_id request s =
     (let name = schema_name project schema_id;
          sch = request\<lparr>sch_name := name, sch_revision_id := (if sch_revision_id request = [] then ''1'' else sch_revision_id request)\<rparr> in
      checked [valid_project project,
          ensure (trim schema_id \<noteq> []) (ps_invalid_argument ''schemaId is required''),
          valid_id ''schema'' schema_id,
          ensure (sch_name request = [] \<or> sch_name request = name) (ps_invalid_argument ''schema name does not match request path''),
          ensure (sch_type request = [] \<or> valid_schema_type (sch_type request)) (ps_invalid_argument ''invalid schema type''),
          validate_schema_definition (ps_json_from X) (sch_type request) (sch_definition request),
          ensure (\<not> bt_contains (ps_schemas s) name) (ps_already_exists ''schema already exists'')] s
        (commit E (s\<lparr>ps_schemas := bt_insert name sch (ps_schemas s), resource_dirty := True\<rparr>)
          (\<lambda>s'. s'\<lparr>ps_schemas := bt_remove name (ps_schemas s')\<rparr>) (A_schema sch)))"

definition schema_public :: "string \<Rightarrow> schema \<Rightarrow> schema" where
  "schema_public view sch = (if view = ''BASIC'' then sch\<lparr>sch_definition := []\<rparr> else sch)"

definition get_schema :: "string \<Rightarrow> string \<Rightarrow> string \<Rightarrow> ps_server \<Rightarrow> ps_result" where
  "get_schema project schema_id view s =
     checked [valid_project project, valid_id ''schema'' schema_id] s
       (case map_of (ps_schemas s) (schema_name project schema_id) of
          Some sch \<Rightarrow> (Inr (A_schema (schema_public view sch)), s) | None \<Rightarrow> (Inl (ps_not_found ''schema not found''), s))"

definition delete_schema :: "ps_env \<Rightarrow> string \<Rightarrow> string \<Rightarrow> ps_server \<Rightarrow> ps_result" where
  "delete_schema E project schema_id s =
     (let name = schema_name project schema_id in
      checked [valid_project project, valid_id ''schema'' schema_id] s
        (case map_of (ps_schemas s) name of
           None \<Rightarrow> (Inl (ps_not_found ''schema not found''), s)
         | Some sch \<Rightarrow>
             commit E (s\<lparr>ps_schemas := bt_remove name (ps_schemas s), resource_dirty := True\<rparr>)
               (\<lambda>s'. s'\<lparr>ps_schemas := bt_insert name sch (ps_schemas s')\<rparr>) A_no_content))"

definition list_schemas :: "string \<Rightarrow> string \<Rightarrow> int \<Rightarrow> int \<Rightarrow> ps_server \<Rightarrow> ps_result" where
  "list_schemas project view page_size page_token s =
     checked [valid_project project] s
       (case ps_page_of (map (schema_public view) (filter (\<lambda>sch. resource_project (sch_name sch) = project) (map snd (ps_schemas s))))
            page_token page_size of
          (page, next_token) \<Rightarrow> (Inr (A_schemas page next_token), s))"

definition empty_schema :: schema where
  "empty_schema =
     \<lparr>sch_name = [], sch_type = [], sch_definition = [], sch_revision_id = [], sch_revision_create_time = [], sch_revisions = []\<rparr>"

definition validate_message_data :: "ps_crates \<Rightarrow> string \<Rightarrow> string \<Rightarrow> ps_error + unit" where
  "validate_message_data X message encoding =
     (if message = [] then Inr ()
      else case decode_base64_bytes message of None \<Rightarrow> Inl (ps_invalid_argument ''message must be base64 encoded'')
        | Some decoded \<Rightarrow> ensure (valid_schema_message_data (ps_json_from X) decoded encoding)
            (ps_invalid_argument ''message is invalid for schema encoding''))"

definition validate_message :: "ps_crates \<Rightarrow> string \<Rightarrow> json \<Rightarrow> ps_server \<Rightarrow> ps_result" where
  "validate_message X project request s =
     (let text = (\<lambda>k. case member_str request k of Some v \<Rightarrow> v | None \<Rightarrow> []);
          name = text ''name''; encoding = text ''encoding'';
          inline = (case Option.bind (member request ''schema'') (ps_schema_from X) of Some sch \<Rightarrow> sch | None \<Rightarrow> empty_schema);
          has_inline = (inline \<noteq> empty_schema);
          other_project = ps_failed_precondition ''schema belongs to a different project'' in
      checked [valid_project project,
          ensure (name \<noteq> [] \<or> has_inline) (ps_invalid_argument ''schema name or inline schema is required''),
          ensure (name = [] \<or> \<not> has_inline) (ps_invalid_argument ''only one of schema name or inline schema may be set''),
          ensure (encoding = [] \<or> valid_schema_encoding encoding) (ps_invalid_argument ''invalid schema encoding''),
          validate_message_data X (text ''message'') encoding] s
        (if name \<noteq> [] then
           checked [ensure (valid_full_schema_name name) (ps_invalid_argument ''invalid schema name''),
             ensure (resource_project name = project) other_project,
             ensure (bt_contains (ps_schemas s) name) (ps_not_found ''schema not found'')] s (Inr A_empty, s)
         else
           checked [ensure (sch_name inline = [] \<or> valid_full_schema_name (sch_name inline)) (ps_invalid_argument ''invalid schema name''),
             ensure (sch_name inline = [] \<or> resource_project (sch_name inline) = project) other_project,
             ensure (valid_schema_type (sch_type inline)) (ps_invalid_argument ''invalid schema type''),
             validate_schema_definition (ps_json_from X) (sch_type inline) (sch_definition inline)] s (Inr A_empty, s)))"

section \<open>Access\<close>

definition no_bindings :: json where
  "no_bindings = Object [(''bindings'', Array []), (''version'', Number (Int_num 1))]"

definition iam_action :: "string \<Rightarrow> json \<Rightarrow> ps_error + ps_answer" where
  "iam_action action body =
     (if action = ''getIamPolicy'' then Inr (A_json no_bindings)
      else if action = ''setIamPolicy'' then
        Inr (A_json (case member body ''policy'' of Some (Object es) \<Rightarrow> Object es | _ \<Rightarrow> no_bindings))
      else if action = ''testIamPermissions'' then
        Inr (A_json (Object [(''permissions'', case member body ''permissions'' of Some (Array vs) \<Rightarrow> Array vs | _ \<Rightarrow> Array [])]))
      else Inl (ps_not_found ''not found''))"

definition topic_iam :: "string \<Rightarrow> string \<Rightarrow> string \<Rightarrow> json \<Rightarrow> ps_server \<Rightarrow> ps_result" where
  "topic_iam project topic_id action body s =
     checked [valid_project project, valid_id ''topic'' topic_id,
         ensure (bt_contains (ps_topics s) (topic_name project topic_id)) (ps_not_found ''topic not found'')] s (iam_action action body, s)"

definition subscription_iam :: "string \<Rightarrow> string \<Rightarrow> string \<Rightarrow> json \<Rightarrow> ps_server \<Rightarrow> ps_result" where
  "subscription_iam project subscription_id action body s =
     checked [valid_id ''subscription'' subscription_id, valid_project project,
         ensure (bt_contains (ps_subscriptions s) (subscription_name project subscription_id)) (ps_not_found ''subscription not found'')] s
       (iam_action action body, s)"

text \<open>The comparison that looks at every byte, and the token check by mode. The names of the modes are ASCII, and so are the
  only letters whose lower case they contain.\<close>

definition differing_bits :: "string \<Rightarrow> string \<Rightarrow> 8 word" where
  "differing_bits a b = fold (\<lambda>(x, y) diff. or diff (xor (of_nat (ascii x)) (of_nat (ascii y)))) (zip a b) 0"

definition ps_constant_time_eq :: "string \<Rightarrow> string \<Rightarrow> bool" where
  "ps_constant_time_eq a b \<longleftrightarrow> length a = length b \<and> differing_bits a b = 0"

definition ps_authorized :: "ps_config \<Rightarrow> string \<Rightarrow> bool" where
  "ps_authorized c token =
     (let mode = to_ascii_lowercase (trim (pc_auth_mode c)); expected = trim (pc_bearer_token c) in
      if mode \<in> set [[], ''off'', ''relaxed''] then True
      else if mode = ''oauth-relaxed'' then token \<noteq> []
      else if mode = ''bearer-dev'' \<or> mode = ''strict'' then token \<noteq> [] \<and> expected \<noteq> [] \<and> ps_constant_time_eq token expected
      else False)"

end
