(* ===== verification/Pubsub_Delivery.thy ===== *)
theory Pubsub_Delivery
  imports Pubsub_Server
begin

text \<open>
  Messages of the Pub/Sub server (\<open>services/pubsub/src/server.rs\<close>): publishing, pulling with leases, ordering keys, retries and dead
  letters, acknowledging, changing deadlines, and seeking to a time or a snapshot.
\<close>

section \<open>Publishing\<close>

definition default_ack_deadline_cfg :: "ps_server \<Rightarrow> int" where
  "default_ack_deadline_cfg s =
     (if pc_default_ack_deadline_seconds (ps_config s) > 0 then pc_default_ack_deadline_seconds (ps_config s) else 10)"

definition max_pull_messages :: "ps_server \<Rightarrow> int" where
  "max_pull_messages s = (if pc_max_pull_messages (ps_config s) > 0 then pc_max_pull_messages (ps_config s) else 1000)"

definition member_text :: "json \<Rightarrow> string \<Rightarrow> string" where
  "member_text v k = (case member_str v k of Some t \<Rightarrow> t | None \<Rightarrow> [])"

definition message_of :: "string \<Rightarrow> string \<Rightarrow> json \<Rightarrow> pubsub_message" where
  "message_of i now incoming =
     \<lparr>msg_data = member_text incoming ''data'',
      msg_attributes = (case Option.bind (member incoming ''attributes'') as_object of
         Some es \<Rightarrow> map (\<lambda>(k, v). (k, the (as_str v))) (filter (\<lambda>(_, v). as_str v \<noteq> None) es) | None \<Rightarrow> []),
      msg_message_id = i, msg_publish_time = now, msg_ordering_key = member_text incoming ''orderingKey''\<rparr>"

definition push_delivery :: "string \<Rightarrow> string \<Rightarrow> (string, delivery_record list) bmap \<Rightarrow> (string, delivery_record list) bmap" where
  "push_delivery i n ds = bt_insert n ((case map_of ds n of Some rs \<Rightarrow> rs | None \<Rightarrow> []) @ [new_delivery i]) ds"

definition matching_subscriptions :: "string \<Rightarrow> pubsub_message \<Rightarrow> ps_server \<Rightarrow> string list" where
  "matching_subscriptions name m s =
     map sub_name (filter (\<lambda>sub. sub_topic sub = name \<and> \<not> sub_detached sub \<and> subscription_matches_message sub m) (map snd (ps_subscriptions s)))"

definition publish_one :: "string \<Rightarrow> string \<Rightarrow> json \<Rightarrow> string list \<times> ps_server \<Rightarrow> string list \<times> ps_server" where
  "publish_one name now incoming = (\<lambda>(ids, s).
     let n = bump (ps_next_message_id s); i = dec n; m = message_of i now incoming in
     (ids @ [i],
      s\<lparr>ps_next_message_id := n, ps_messages := bt_insert i m (ps_messages s),
        ps_deliveries := fold (push_delivery i) (matching_subscriptions name m s) (ps_deliveries s)\<rparr>))"

definition publish :: "ps_crates \<Rightarrow> ps_env \<Rightarrow> string \<Rightarrow> string \<Rightarrow> json list \<Rightarrow> ps_server \<Rightarrow> ps_result" where
  "publish X E project topic_id messages s =
     (let name = topic_name project topic_id in
      checked ([valid_id ''topic'' topic_id, valid_project project,
          ensure (messages \<noteq> []) (ps_invalid_argument ''messages are required'')]
          @ map (\<lambda>m. validate_publish_message (member_text m ''data'') (Option.bind (member m ''attributes'') as_object)) messages) s
        (case map_of (ps_topics s) name of
           None \<Rightarrow> (Inl (ps_not_found ''topic not found''), s)
         | Some t \<Rightarrow>
             checked (map (\<lambda>m. validate_message_against_topic_schema (ps_json_from X) (member_text m ''data'') (top_schema_settings t)) messages) s
               (case fold (publish_one name (ps_now E 0)) messages ([], s) of (ids, s1) \<Rightarrow>
                  commit E (s1\<lparr>messages_dirty := True\<rparr>)
                    (\<lambda>s'. s'\<lparr>ps_next_message_id := ps_next_message_id s, ps_messages := ps_messages s, ps_deliveries := ps_deliveries s\<rparr>)
                    (A_message_ids ids))))"

section \<open>Leases and retries\<close>

definition policy_backoff_secs :: "json option \<Rightarrow> string \<Rightarrow> int option" where
  "policy_backoff_secs policy field =
     Option.bind (Option.bind policy (\<lambda>v. member_str v field)) (\<lambda>d.
       case parse_go_duration d of Some nanos \<Rightarrow> if nanos \<ge> 0 then Some (wrap_s 64 (nanos sdiv 10 ^ 9)) else None | None \<Rightarrow> None)"

text \<open>The loop doubles the backoff once for every attempt after the first, and stops at the maximum.\<close>

fun backoff_loop :: "int option \<Rightarrow> nat \<Rightarrow> int \<Rightarrow> int" where
  "backoff_loop mx 0 backoff = (case mx of Some m \<Rightarrow> if backoff > m then m else backoff | None \<Rightarrow> backoff)"
| "backoff_loop mx (Suc n) backoff =
     (if (case mx of Some m \<Rightarrow> backoff \<ge> m | None \<Rightarrow> False) then the mx else backoff_loop mx n (saturate_i64 (backoff * 2)))"

definition retry_backoff :: "ps_server \<Rightarrow> string \<Rightarrow> int \<Rightarrow> int" where
  "retry_backoff s n attempt =
     (case map_of (ps_subscriptions s) n of None \<Rightarrow> 0
      | Some sub \<Rightarrow>
          (case policy_backoff_secs (sub_retry_policy sub) ''minimumBackoff'' of None \<Rightarrow> 0
           | Some mn \<Rightarrow> backoff_loop (policy_backoff_secs (sub_retry_policy sub) ''maximumBackoff'') (nat (attempt - 1)) mn))"

definition lease_expired :: "int \<Rightarrow> delivery_record \<Rightarrow> bool" where
  "lease_expired now d \<longleftrightarrow> \<not> del_acked d \<and> \<not> ps_is_zero (del_lease_deadline d) \<and> \<not> after_secs (del_lease_deadline d) now"

definition expire_record :: "ps_server \<Rightarrow> string \<Rightarrow> int \<Rightarrow> delivery_record \<Rightarrow> delivery_record" where
  "expire_record s n now d =
     (if lease_expired now d then
        let backoff = retry_backoff s n (del_delivery_attempt d) in
        d\<lparr>del_ack_id := [], del_lease_deadline := ZERO_TIME,
          del_next_delivery_time := (if backoff > 0 then plus_seconds (unix_secs (del_lease_deadline d)) backoff else del_next_delivery_time d)\<rparr>
      else d)"

definition expire_leases :: "int \<Rightarrow> ps_server \<Rightarrow> ps_server" where
  "expire_leases now s =
     s\<lparr>ps_deliveries := map (\<lambda>(n, ds). (n, map (expire_record s n now) ds)) (ps_deliveries s),
       messages_dirty := messages_dirty s \<or> list_ex (\<lambda>(_, ds). list_ex (lease_expired now) ds) (ps_deliveries s)\<rparr>"

definition dead_letter_target :: "ps_server \<Rightarrow> subscription \<Rightarrow> (string \<times> int) option" where
  "dead_letter_target s sub =
     Option.bind (Option.bind (sub_dead_letter_policy sub) as_object) (\<lambda>es.
     Option.bind (Option.bind (map_of es ''maxDeliveryAttempts'') as_i64) (\<lambda>mx.
     Option.bind (Option.bind (map_of es ''deadLetterTopic'') as_str) (\<lambda>t.
       if t = [] \<or> \<not> bt_contains (ps_topics s) t then None else Some (t, mx))))"

definition compact_acked :: "bool \<Rightarrow> delivery_record list \<Rightarrow> delivery_record list" where
  "compact_acked retain_acked ds = (if retain_acked then ds else filter (\<lambda>d. \<not> del_acked d) ds)"

definition acked_record :: "delivery_record \<Rightarrow> delivery_record" where
  "acked_record d = d\<lparr>del_acked := True, del_ack_id := [], del_lease_deadline := ZERO_TIME, del_next_delivery_time := ZERO_TIME\<rparr>"

section \<open>Pulling\<close>

record pull_state =
  pl_blocked :: "string set"
  pl_received :: "ps_received_message list"
  pl_dead_lettered :: "(string \<times> pubsub_message) list"
  pl_next_message_id :: nat
  pl_next_ack_id :: nat

text \<open>What the loop of a pull reads: the server after the clean-up, the subscription, the time, the limit and the deadline.\<close>

record pull_context =
  ctx_env :: ps_env
  ctx_server :: ps_server
  ctx_sub :: subscription
  ctx_now :: int
  ctx_max :: int
  ctx_ack_deadline :: int

definition ordering_key_of :: "ps_server \<Rightarrow> delivery_record \<Rightarrow> string option" where
  "ordering_key_of s d =
     (case map_of (ps_messages s) (del_message_id d) of
        Some m \<Rightarrow> if msg_ordering_key m = [] then None else Some (msg_ordering_key m) | None \<Rightarrow> None)"

definition leased_keys :: "ps_server \<Rightarrow> subscription \<Rightarrow> int \<Rightarrow> delivery_record list \<Rightarrow> string set" where
  "leased_keys s sub now ds =
     (if sub_enable_message_ordering sub
      then set (List.map_filter (ordering_key_of s) (filter (\<lambda>d. \<not> del_acked d \<and> after_secs (del_lease_deadline d) now) ds))
      else {})"

definition lease_record :: "pull_context \<Rightarrow> nat \<Rightarrow> delivery_record \<Rightarrow> delivery_record" where
  "lease_record C ack d =
     d\<lparr>del_ack_id := del_message_id d @ ''-'' @ dec ack, del_lease_deadline := plus_seconds (ctx_now C) (ctx_ack_deadline C),
       del_next_delivery_time := ZERO_TIME, del_delivery_attempt := wrap_s 64 (del_delivery_attempt d + 1)\<rparr>"

text \<open>The topic a delivery goes to when its attempts are used up.\<close>

definition dead_letter_for :: "ps_server \<Rightarrow> subscription \<Rightarrow> delivery_record \<Rightarrow> string option" where
  "dead_letter_for s sub d =
     (case dead_letter_target s sub of Some (t, mx) \<Rightarrow> if del_delivery_attempt d \<ge> mx then Some t else None | None \<Rightarrow> None)"

definition pull_step :: "pull_context \<Rightarrow> nat \<Rightarrow> pull_state \<Rightarrow> delivery_record \<Rightarrow> pull_state \<times> delivery_record" where
  "pull_step C i st d =
     (let s = ctx_server C; sub = ctx_sub C; now = ctx_now C; ordered = sub_enable_message_ordering sub in
      if del_acked d \<or> after_secs (del_lease_deadline d) now then (st, d)
      else if after_secs (del_next_delivery_time d) now then
        (st\<lparr>pl_blocked := (if ordered then set_option (ordering_key_of s d) else {}) \<union> pl_blocked st\<rparr>, d)
      else case map_of (ps_messages s) (del_message_id d) of None \<Rightarrow> (st, d)
      | Some m \<Rightarrow>
         (case dead_letter_for s sub d of
            Some t \<Rightarrow>
              let n = bump (pl_next_message_id st);
                  dl = m\<lparr>msg_message_id := dec n, msg_publish_time := ps_now (ctx_env C) i\<rparr> in
              (st\<lparr>pl_next_message_id := n, pl_dead_lettered := pl_dead_lettered st @ [(t, dl)]\<rparr>, acked_record d)
          | None \<Rightarrow>
              if ordered \<and> msg_ordering_key m \<noteq> [] \<and> msg_ordering_key m \<in> pl_blocked st then (st, d)
              else
                let a = bump (pl_next_ack_id st); d' = lease_record C a d in
                (st\<lparr>pl_blocked := (if ordered \<and> msg_ordering_key m \<noteq> [] then {msg_ordering_key m} else {}) \<union> pl_blocked st,
                    pl_next_ack_id := a,
                    pl_received := pl_received st @ [\<lparr>rcv_ack_id = del_ack_id d', rcv_message = m, rcv_delivery_attempt = del_delivery_attempt d'\<rparr>]\<rparr>,
                 d')))"

fun pull_loop :: "pull_context \<Rightarrow> nat \<Rightarrow> pull_state \<Rightarrow> delivery_record list \<Rightarrow> pull_state \<times> delivery_record list" where
  "pull_loop C i st [] = (st, [])"
| "pull_loop C i st (d # ds) =
     (if int (length (pl_received st)) \<ge> ctx_max C then (st, d # ds)
      else case pull_step C i st d of (st', d') \<Rightarrow>
        (case pull_loop C (Suc i) st' ds of (st'', ds') \<Rightarrow> (st'', d' # ds')))"

text \<open>A dead-lettered message is stored and put on every attached subscription of its topic.\<close>

definition deliver_dead_letter :: "string \<times> pubsub_message \<Rightarrow> ps_server \<Rightarrow> ps_server" where
  "deliver_dead_letter = (\<lambda>(t, m) s.
     s\<lparr>ps_messages := bt_insert (msg_message_id m) m (ps_messages s),
       ps_deliveries := fold (push_delivery (msg_message_id m))
         (map sub_name (filter (\<lambda>c. sub_topic c = t \<and> \<not> sub_detached c) (map snd (ps_subscriptions s)))) (ps_deliveries s)\<rparr>)"

definition deliveries_of :: "string \<Rightarrow> ps_server \<Rightarrow> delivery_record list" where
  "deliveries_of name s = (case map_of (ps_deliveries s) name of Some ds \<Rightarrow> ds | None \<Rightarrow> [])"

text \<open>The body of a pull on the server after the clean-up: the messages received and the server with the leases.\<close>

definition pull_deliveries ::
    "ps_env \<Rightarrow> nat \<Rightarrow> string \<Rightarrow> subscription \<Rightarrow> int \<Rightarrow> int \<Rightarrow> ps_server \<Rightarrow> ps_received_message list \<times> ps_server" where
  "pull_deliveries E i name sub now mx s =
     (let C = \<lparr>ctx_env = E, ctx_server = s, ctx_sub = sub, ctx_now = now, ctx_max = mx,
               ctx_ack_deadline = (if sub_ack_deadline_seconds sub > 0 then sub_ack_deadline_seconds sub else default_ack_deadline_cfg s)\<rparr>;
          ds = deliveries_of name s;
          st = \<lparr>pl_blocked = leased_keys s sub now ds, pl_received = [], pl_dead_lettered = [],
                pl_next_message_id = ps_next_message_id s, pl_next_ack_id = ps_next_ack_id s\<rparr> in
      case pull_loop C i st ds of (st', ds') \<Rightarrow>
        let s = s\<lparr>ps_next_message_id := pl_next_message_id st', ps_next_ack_id := pl_next_ack_id st'\<rparr>;
            s = fold deliver_dead_letter (pl_dead_lettered st') s in
        (pl_received st',
         s\<lparr>ps_deliveries := bt_insert name (compact_acked (sub_retain_acked_messages sub) ds') (ps_deliveries s), messages_dirty := True\<rparr>))"

definition pull :: "ps_env \<Rightarrow> string \<Rightarrow> string \<Rightarrow> int \<Rightarrow> ps_server \<Rightarrow> ps_result" where
  "pull E project subscription_id max_messages s =
     (let name = subscription_name project subscription_id;
          mx = min (if max_messages \<le> 0 then 1 else max_messages) (max_pull_messages s) in
      checked [valid_id ''subscription'' subscription_id, valid_project project] s
        (case map_of (ps_subscriptions s) name of
           None \<Rightarrow> (Inl (ps_not_found ''subscription not found''), s)
         | Some sub \<Rightarrow>
             if sub_detached sub then (Inl (ps_failed_precondition ''subscription is detached''), s)
             else if subscription_push_endpoint sub \<noteq> None
             then (Inl (ps_failed_precondition ''subscription is configured for push delivery''), s)
             else
               let now = fst (now_parts E 0) in
               (case pull_deliveries E (Suc (length (ps_snapshots s))) name sub now mx
                   (expire_leases now (cleanup_retained_messages E now s)) of (received, s1) \<Rightarrow>
                  commit E s1
                    (\<lambda>s'. s'\<lparr>ps_messages := ps_messages s, ps_deliveries := ps_deliveries s, ps_snapshots := ps_snapshots s,
                        ps_next_message_id := ps_next_message_id s, ps_next_ack_id := ps_next_ack_id s\<rparr>)
                    (if received = [] then A_empty else A_received received))))"

section \<open>Acknowledging\<close>

text \<open>\<open>None\<close> acknowledges; \<open>Some n\<close> sets the deadline \<open>n\<close> seconds from now, and \<open>0\<close> gives the message back.\<close>

definition update_record :: "int option \<Rightarrow> string list \<Rightarrow> int \<Rightarrow> delivery_record \<Rightarrow> delivery_record" where
  "update_record deadline ack_ids now d =
     (if del_ack_id d \<notin> set ack_ids \<or> del_acked d then d
      else case deadline of
        None \<Rightarrow> acked_record d
      | Some n \<Rightarrow>
          if n = 0 then d\<lparr>del_ack_id := [], del_lease_deadline := ZERO_TIME, del_next_delivery_time := ZERO_TIME\<rparr>
          else d\<lparr>del_lease_deadline := plus_seconds now n, del_next_delivery_time := ZERO_TIME\<rparr>)"

definition update_ack_deadlines ::
    "ps_env \<Rightarrow> string \<Rightarrow> string \<Rightarrow> string list \<Rightarrow> int option \<Rightarrow> ps_server \<Rightarrow> ps_result" where
  "update_ack_deadlines E project subscription_id ack_ids deadline s =
     (let name = subscription_name project subscription_id in
      checked [valid_id ''subscription'' subscription_id, valid_project project] s
        (if ack_ids = [] then (Inr A_empty, s)
         else checked [ensure (list_all (\<lambda>a. trim a \<noteq> []) ack_ids) (ps_invalid_argument ''ackIds must not contain empty values''),
             ensure (case deadline of Some n \<Rightarrow> n \<ge> 0 | None \<Rightarrow> True) (ps_invalid_argument ''ackDeadlineSeconds must be non-negative''),
             ensure (case deadline of Some n \<Rightarrow> n \<le> max_ack_deadline s | None \<Rightarrow> True)
               (ps_invalid_argument ''ackDeadlineSeconds exceeds maxAckDeadlineSeconds'')] s
           (case map_of (ps_subscriptions s) name of
              None \<Rightarrow> (Inl (ps_not_found ''subscription not found''), s)
            | Some sub \<Rightarrow>
                let now = fst (now_parts E 0); s1 = expire_leases now s in
                commit E (s1\<lparr>ps_deliveries := bt_insert name
                      (compact_acked (sub_retain_acked_messages sub) (map (update_record deadline ack_ids now) (deliveries_of name s1)))
                      (ps_deliveries s1), messages_dirty := True\<rparr>)
                  (\<lambda>s'. s'\<lparr>ps_deliveries := ps_deliveries s, ps_messages := ps_messages s\<rparr>) A_empty)))"

definition acknowledge :: "ps_env \<Rightarrow> string \<Rightarrow> string \<Rightarrow> string list \<Rightarrow> ps_server \<Rightarrow> ps_result" where
  "acknowledge E project subscription_id ack_ids s = update_ack_deadlines E project subscription_id ack_ids None s"

definition modify_ack_deadline :: "ps_env \<Rightarrow> string \<Rightarrow> string \<Rightarrow> string list \<Rightarrow> int \<Rightarrow> ps_server \<Rightarrow> ps_result" where
  "modify_ack_deadline E project subscription_id ack_ids seconds s =
     update_ack_deadlines E project subscription_id ack_ids (Some seconds) s"

section \<open>Seeking\<close>

definition snapshot_record :: "delivery_record \<Rightarrow> delivery_record" where
  "snapshot_record d = d\<lparr>del_ack_id := [], del_lease_deadline := ZERO_TIME, del_next_delivery_time := ZERO_TIME, del_acked := False\<rparr>"

definition snapshot_deliveries :: "delivery_record list \<Rightarrow> delivery_record list" where
  "snapshot_deliveries ds = map snapshot_record (filter (\<lambda>d. \<not> del_acked d) ds)"

definition published_since :: "ps_server \<Rightarrow> int \<Rightarrow> delivery_record \<Rightarrow> bool" where
  "published_since s secs d =
     (case map_of (ps_messages s) (del_message_id d) of None \<Rightarrow> False
      | Some m \<Rightarrow> (case parse_rfc3339 (msg_publish_time m) of None \<Rightarrow> False | Some (p, _) \<Rightarrow> p \<ge> secs))"

definition seek_deliveries_by_time :: "ps_server \<Rightarrow> string \<Rightarrow> int \<Rightarrow> delivery_record list" where
  "seek_deliveries_by_time s name secs = map (new_delivery \<circ> del_message_id) (filter (published_since s secs) (deliveries_of name s))"

definition restore_deliveries_entry ::
    "string \<Rightarrow> delivery_record list option \<Rightarrow> (string, delivery_record list) bmap \<Rightarrow> (string, delivery_record list) bmap" where
  "restore_deliveries_entry name previous ds = (case previous of Some rs \<Rightarrow> bt_insert name rs ds | None \<Rightarrow> bt_remove name ds)"

definition replace_deliveries :: "ps_env \<Rightarrow> string \<Rightarrow> delivery_record list \<Rightarrow> ps_server \<Rightarrow> ps_result" where
  "replace_deliveries E name replayed s =
     commit E (s\<lparr>ps_deliveries := bt_insert name replayed (ps_deliveries s), messages_dirty := True\<rparr>)
       (\<lambda>s'. s'\<lparr>ps_deliveries := restore_deliveries_entry name (map_of (ps_deliveries s) name) (ps_deliveries s'), ps_messages := ps_messages s\<rparr>)
       A_empty"

definition seek :: "ps_env \<Rightarrow> string \<Rightarrow> string \<Rightarrow> string \<Rightarrow> string \<Rightarrow> ps_server \<Rightarrow> ps_result" where
  "seek E project subscription_id snap time s =
     (let name = subscription_name project subscription_id in
      checked [valid_project project, valid_id ''subscription'' subscription_id,
          ensure (snap \<noteq> [] \<or> time \<noteq> []) (ps_invalid_argument ''snapshot or time is required''),
          ensure (snap = [] \<or> time = []) (ps_invalid_argument ''only one of snapshot or time may be set''),
          ensure (time = [] \<or> parse_rfc3339 time \<noteq> None) (ps_invalid_argument ''invalid seek time''),
          ensure (snap = [] \<or> valid_full_snapshot_name snap) (ps_invalid_argument ''invalid snapshot name''),
          ensure (bt_contains (ps_subscriptions s) name) (ps_not_found ''subscription not found'')] s
        (if time \<noteq> [] then replace_deliveries E name (seek_deliveries_by_time s name (fst (the (parse_rfc3339 time)))) s
         else case map_of (ps_snapshots s) snap of
             None \<Rightarrow> (Inl (ps_not_found ''snapshot not found''), s)
           | Some sn \<Rightarrow>
               if snapshot_expired E 0 sn then (Inl (ps_not_found ''snapshot not found''), s)
               else if snap_subscription sn \<noteq> name
               then (Inl (ps_failed_precondition ''snapshot belongs to a different subscription''), s)
               else replace_deliveries E name (snapshot_deliveries (snap_deliveries sn)) s))"

end
