(* ===== verification/Pubsub_Pull.thy ===== *)
theory Pubsub_Pull
  imports Pubsub_Delivery
begin

text \<open>
  What a pull returns. For a subscription without message ordering it is the first messages of the backlog that are due and have
  attempts left; with ordering, the first such message of a key, and nothing of a key that is out or waits for a retry.
\<close>

section \<open>Saving keeps the data\<close>

lemma persist_same:
  assumes "ps_persist E s = (r, s')"
  shows "ps_config s' = ps_config s" "ps_topics s' = ps_topics s" "ps_subscriptions s' = ps_subscriptions s"
    "ps_snapshots s' = ps_snapshots s" "ps_schemas s' = ps_schemas s" "ps_deliveries s' = ps_deliveries s"
    "ps_next_message_id s' = ps_next_message_id s" "ps_next_ack_id s' = ps_next_ack_id s" "ps_load_err s' = ps_load_err s"
    "ps_messages s' = (if messages_dirty s then filter (\<lambda>(i, _). i \<in> set (referenced s)) (ps_messages s) else ps_messages s)"
  using assms by (auto simp: ps_persist_def cleanup_unreferenced_messages_def Let_def split: if_splits)

lemma commit_Inr: "commit E s undo a = (Inr b, s') \<Longrightarrow> b = a \<and> ps_persist E s = (Inr (), s')"
  by (auto simp: commit_def split: prod.splits sum.splits)

lemma checked_Inr: "checked cs s body = (Inr a, s') \<longleftrightarrow> (\<forall>c \<in> set cs. c = Inr ()) \<and> body = (Inr a, s')"
  using try_all_Inr_iff[of "\<lambda>c. c" cs] by (auto simp: checked_def split: sum.splits)

section \<open>One record of a pull\<close>

definition deliverable :: "ps_server \<Rightarrow> subscription \<Rightarrow> int \<Rightarrow> delivery_record \<Rightarrow> bool" where
  "deliverable s sub now d \<longleftrightarrow>
     \<not> del_acked d \<and> \<not> after_secs (del_lease_deadline d) now \<and> \<not> after_secs (del_next_delivery_time d) now
     \<and> map_of (ps_messages s) (del_message_id d) \<noteq> None \<and> dead_letter_for s sub d = None"

definition message_for :: "ps_server \<Rightarrow> delivery_record \<Rightarrow> pubsub_message" where
  "message_for s d = the (map_of (ps_messages s) (del_message_id d))"

definition answer_for :: "pull_context \<Rightarrow> nat \<Rightarrow> delivery_record \<Rightarrow> ps_received_message" where
  "answer_for C a d =
     \<lparr>rcv_ack_id = del_ack_id (lease_record C a d), rcv_message = message_for (ctx_server C) d,
      rcv_delivery_attempt = del_delivery_attempt (lease_record C a d)\<rparr>"

text \<open>A record that holds back later messages of its key: not acknowledged, not out, not given up.\<close>

definition waiting :: "ps_server \<Rightarrow> subscription \<Rightarrow> int \<Rightarrow> delivery_record \<Rightarrow> bool" where
  "waiting s sub now d \<longleftrightarrow>
     \<not> del_acked d \<and> \<not> after_secs (del_lease_deadline d) now \<and> (after_secs (del_next_delivery_time d) now \<or> dead_letter_for s sub d = None)"

text \<open>The three things a step does with a record: leave it, give it up, or lease it.\<close>

lemma pull_step_cases:
  assumes "pull_step C i st d = (st', d')"
  obtains
    (left) "d' = d" "pl_received st' = pl_received st" "pl_dead_lettered st' = pl_dead_lettered st"
      "pl_next_message_id st' = pl_next_message_id st" "pl_next_ack_id st' = pl_next_ack_id st"
      "deliverable (ctx_server C) (ctx_sub C) (ctx_now C) d \<Longrightarrow> sub_enable_message_ordering (ctx_sub C)"
      "pl_blocked st \<subseteq> pl_blocked st'"
      "sub_enable_message_ordering (ctx_sub C) \<Longrightarrow> waiting (ctx_server C) (ctx_sub C) (ctx_now C) d \<Longrightarrow>
         set_option (ordering_key_of (ctx_server C) d) \<subseteq> pl_blocked st'"
  | (given_up) t m where "d' = acked_record d" "pl_received st' = pl_received st"
      "dead_letter_for (ctx_server C) (ctx_sub C) d = Some t" "map_of (ps_messages (ctx_server C)) (del_message_id d) = Some m"
      "pl_dead_lettered st' = pl_dead_lettered st @ [(t, m\<lparr>msg_message_id := dec (bump (pl_next_message_id st)), msg_publish_time := ps_now (ctx_env C) i\<rparr>)]"
      "pl_next_message_id st' = bump (pl_next_message_id st)" "pl_next_ack_id st' = pl_next_ack_id st"
      "\<not> deliverable (ctx_server C) (ctx_sub C) (ctx_now C) d" "\<not> waiting (ctx_server C) (ctx_sub C) (ctx_now C) d" "pl_blocked st' = pl_blocked st"
  | (leased) "d' = lease_record C (bump (pl_next_ack_id st)) d"
      "pl_received st' = pl_received st @ [answer_for C (bump (pl_next_ack_id st)) d]" "pl_dead_lettered st' = pl_dead_lettered st"
      "pl_next_message_id st' = pl_next_message_id st" "pl_next_ack_id st' = bump (pl_next_ack_id st)"
      "deliverable (ctx_server C) (ctx_sub C) (ctx_now C) d"
      "sub_enable_message_ordering (ctx_sub C) \<Longrightarrow> set_option (ordering_key_of (ctx_server C) d) \<inter> pl_blocked st = {}"
      "pl_blocked st \<subseteq> pl_blocked st'"
      "sub_enable_message_ordering (ctx_sub C) \<Longrightarrow> set_option (ordering_key_of (ctx_server C) d) \<subseteq> pl_blocked st'"
proof -
  show thesis
  proof (cases "del_acked d \<or> after_secs (del_lease_deadline d) (ctx_now C) \<or> after_secs (del_next_delivery_time d) (ctx_now C)
      \<or> map_of (ps_messages (ctx_server C)) (del_message_id d) = None")
    case True
    show thesis
      by (rule left)
        (use assms True in \<open>auto simp: pull_step_def Let_def deliverable_def waiting_def ordering_key_of_def split: if_splits option.splits\<close>)
  next
    case False
    then obtain m where m: "map_of (ps_messages (ctx_server C)) (del_message_id d) = Some m" by auto
    show thesis
    proof (cases "dead_letter_for (ctx_server C) (ctx_sub C) d")
      case (Some t)
      show thesis
        by (rule given_up[of t m]) (use assms False Some m in \<open>auto simp: pull_step_def Let_def deliverable_def waiting_def\<close>)
    next
      case None
      show thesis
      proof (cases "sub_enable_message_ordering (ctx_sub C) \<and> msg_ordering_key m \<noteq> [] \<and> msg_ordering_key m \<in> pl_blocked st")
        case True
        show thesis
          by (rule left) (use assms False None m True in \<open>auto simp: pull_step_def Let_def ordering_key_of_def split: if_splits\<close>)
      next
        case free: False
        show thesis
          by (rule leased)
            (use assms False None m free in \<open>auto simp: pull_step_def Let_def ordering_key_of_def deliverable_def answer_for_def message_for_def split: if_splits\<close>)
      qed
    qed
  qed
qed

section \<open>The loop\<close>

lemma pull_loop_Cons:
  assumes "pull_loop C i st (d # ds) = (st', ds')" "\<not> ctx_max C \<le> int (length (pl_received st))"
  shows "\<exists>st1 d1 ds1. pull_step C i st d = (st1, d1) \<and> pull_loop C (Suc i) st1 ds = (st', ds1) \<and> ds' = d1 # ds1"
  using assms by (auto split: prod.splits)

text \<open>Without ordering: the first records that are due, up to the limit, and nothing else.\<close>

lemma pull_loop_unordered:
  assumes "pull_loop C i st ds = (st', ds')" "\<not> sub_enable_message_ordering (ctx_sub C)" "int (length (pl_received st)) \<le> ctx_max C"
  shows "map rcv_message (pl_received st') = map rcv_message (pl_received st) @
    map (message_for (ctx_server C))
      (take (nat (ctx_max C) - length (pl_received st)) (filter (deliverable (ctx_server C) (ctx_sub C) (ctx_now C)) ds))"
  using assms
proof (induction ds arbitrary: i st ds')
  case (Cons d ds)
  show ?case
  proof (cases "int (length (pl_received st)) \<ge> ctx_max C")
    case True
    then show ?thesis using Cons.prems by auto
  next
    case False
    with pull_loop_Cons[OF Cons.prems(1)]
    obtain st1 d1 ds1 where p: "pull_step C i st d = (st1, d1)" "pull_loop C (Suc i) st1 ds = (st', ds1)" by blast
    have n: "nat (ctx_max C) - length (pl_received st) = Suc (nat (ctx_max C) - Suc (length (pl_received st)))" using False by simp
    show ?thesis
      using p(1)
    proof (cases rule: pull_step_cases)
      case leased
      have "int (length (pl_received st1)) \<le> ctx_max C" using False leased(2) by simp
      from Cons.IH[OF p(2) Cons.prems(2) this] leased show ?thesis by (simp add: n answer_for_def)
    qed (use Cons.IH[OF p(2) Cons.prems(2)] Cons.prems(2,3) in auto)
  qed
qed simp

lemma pull_loop_limit:
  assumes "pull_loop C i st ds = (st', ds')" "int (length (pl_received st)) \<le> ctx_max C"
  shows "int (length (pl_received st')) \<le> ctx_max C"
  using assms
proof (induction ds arbitrary: i st ds')
  case (Cons d ds)
  show ?case
  proof (cases "int (length (pl_received st)) \<ge> ctx_max C")
    case False
    with pull_loop_Cons[OF Cons.prems(1)]
    obtain st1 d1 ds1 where p: "pull_step C i st d = (st1, d1)" "pull_loop C (Suc i) st1 ds = (st', ds1)" by blast
    have "int (length (pl_received st1)) \<le> ctx_max C" using p(1) False by (cases rule: pull_step_cases) simp_all
    then show ?thesis by (rule Cons.IH[OF p(2)])
  qed (use Cons.prems in simp)
qed simp

text \<open>What the loop does to the records: message ids stay, acknowledgements stay, and every answer is a lease.\<close>

definition record_after :: "pull_context \<Rightarrow> delivery_record \<Rightarrow> delivery_record \<Rightarrow> bool" where
  "record_after C d d' \<longleftrightarrow> d' = d \<or> d' = acked_record d \<or> (deliverable (ctx_server C) (ctx_sub C) (ctx_now C) d \<and> (\<exists>a. d' = lease_record C a d))"

lemma pull_loop_records:
  assumes "pull_loop C i st ds = (st', ds')"
  shows "list_all2 (record_after C) ds ds'"
  using assms
proof (induction ds arbitrary: i st ds')
  case (Cons d ds)
  show ?case
  proof (cases "int (length (pl_received st)) \<ge> ctx_max C")
    case True
    then show ?thesis using Cons.prems by (auto simp: record_after_def list.rel_refl)
  next
    case False
    with pull_loop_Cons[OF Cons.prems(1)]
    obtain st1 d1 ds1 where p: "pull_step C i st d = (st1, d1)" "pull_loop C (Suc i) st1 ds = (st', ds1)" "ds' = d1 # ds1" by blast
    have "record_after C d d1" using p(1) by (cases rule: pull_step_cases) (auto simp: record_after_def)
    then show ?thesis using Cons.IH[OF p(2)] p(3) by simp
  qed
qed simp

text \<open>Every message received was due; its record holds its lease under the answer's acknowledgement id.\<close>

lemma pull_loop_received:
  assumes "pull_loop C i st ds = (st', ds')"
  shows "\<exists>rs. pl_received st' = pl_received st @ rs \<and>
    (\<forall>r \<in> set rs. \<exists>d a. d \<in> set ds \<and> deliverable (ctx_server C) (ctx_sub C) (ctx_now C) d \<and> r = answer_for C a d \<and> lease_record C a d \<in> set ds')"
  using assms
proof (induction ds arbitrary: i st ds')
  case (Cons d ds)
  show ?case
  proof (cases "int (length (pl_received st)) \<ge> ctx_max C")
    case False
    with pull_loop_Cons[OF Cons.prems(1)]
    obtain st1 d1 ds1 where p: "pull_step C i st d = (st1, d1)" "pull_loop C (Suc i) st1 ds = (st', ds1)" "ds' = d1 # ds1" by blast
    from Cons.IH[OF p(2)] obtain rs where rs: "pl_received st' = pl_received st1 @ rs"
      "\<forall>r \<in> set rs. \<exists>d a. d \<in> set ds \<and> deliverable (ctx_server C) (ctx_sub C) (ctx_now C) d \<and> r = answer_for C a d \<and> lease_record C a d \<in> set ds1"
      by blast
    let ?G = "\<lambda>r. \<exists>d' a. d' \<in> set (d # ds) \<and> deliverable (ctx_server C) (ctx_sub C) (ctx_now C) d' \<and> r = answer_for C a d' \<and> lease_record C a d' \<in> set ds'"
    have later: "\<forall>r \<in> set rs. ?G r" using rs(2) p(3) by (metis list.set_intros(2))
    show ?thesis
      using p(1)
    proof (cases rule: pull_step_cases)
      case leased
      let ?r = "answer_for C (bump (pl_next_ack_id st)) d"
      have "?G ?r" using leased(1,6) p(3) by (intro exI[of _ d] exI[of _ "bump (pl_next_ack_id st)"]) simp
      then show ?thesis using rs(1) leased(2) later by (intro exI[of _ "?r # rs"]) simp
    qed (use rs(1) later in \<open>intro exI[of _ rs], simp\<close>)+
  qed (use Cons.prems in auto)
qed auto

text \<open>With ordering: at most one message of a key, none of a blocked key, and none behind a waiting record of its key.\<close>

definition key_list :: "ps_received_message list \<Rightarrow> string list" where
  "key_list rs = filter (\<lambda>k. k \<noteq> []) (map (msg_ordering_key \<circ> rcv_message) rs)"

lemma key_of_answer:
  "deliverable (ctx_server C) (ctx_sub C) (ctx_now C) d \<Longrightarrow> ordering_key_of (ctx_server C) d =
     (let k = msg_ordering_key (rcv_message (answer_for C a d)) in if k = [] then None else Some k)"
  by (auto simp: deliverable_def ordering_key_of_def answer_for_def message_for_def)

lemma pull_loop_ordered:
  assumes "pull_loop C i st ds = (st', ds')" "sub_enable_message_ordering (ctx_sub C)"
  shows "\<exists>rs. pl_received st' = pl_received st @ rs \<and> distinct (key_list rs) \<and> set (key_list rs) \<inter> pl_blocked st = {} \<and>
    (\<forall>k \<in> set (key_list rs). \<exists>ds1 d ds2. ds = ds1 @ d # ds2 \<and> deliverable (ctx_server C) (ctx_sub C) (ctx_now C) d
       \<and> ordering_key_of (ctx_server C) d = Some k
       \<and> (\<forall>d0 \<in> set ds1. waiting (ctx_server C) (ctx_sub C) (ctx_now C) d0 \<longrightarrow> ordering_key_of (ctx_server C) d0 \<noteq> Some k))"
  using assms(1)
proof (induction ds arbitrary: i st ds')
  case (Cons d ds)
  let ?D = "deliverable (ctx_server C) (ctx_sub C) (ctx_now C)" and ?W = "waiting (ctx_server C) (ctx_sub C) (ctx_now C)"
    and ?K = "ordering_key_of (ctx_server C)"
  show ?case
  proof (cases "int (length (pl_received st)) \<ge> ctx_max C")
    case False
    with pull_loop_Cons[OF Cons.prems]
    obtain st1 d1 ds1 where p: "pull_step C i st d = (st1, d1)" "pull_loop C (Suc i) st1 ds = (st', ds1)" by blast
    from Cons.IH[OF p(2)] obtain rs where rs: "pl_received st' = pl_received st1 @ rs" "distinct (key_list rs)"
        "set (key_list rs) \<inter> pl_blocked st1 = {}"
        "\<forall>k \<in> set (key_list rs). \<exists>ds1 d ds2. ds = ds1 @ d # ds2 \<and> ?D d \<and> ?K d = Some k \<and> (\<forall>d0 \<in> set ds1. ?W d0 \<longrightarrow> ?K d0 \<noteq> Some k)"
      by auto
    have later: "\<exists>ds1 d' ds2. d # ds = ds1 @ d' # ds2 \<and> ?D d' \<and> ?K d' = Some k \<and> (\<forall>d0 \<in> set ds1. ?W d0 \<longrightarrow> ?K d0 \<noteq> Some k)"
      if k: "k \<in> set (key_list rs)" and w: "?W d \<longrightarrow> ?K d \<noteq> Some k" for k
    proof -
      from rs(4) k obtain ds1 d' ds2 where "ds = ds1 @ d' # ds2" "?D d'" "?K d' = Some k" "\<forall>d0 \<in> set ds1. ?W d0 \<longrightarrow> ?K d0 \<noteq> Some k" by blast
      with w show ?thesis by (intro exI[of _ "d # ds1"] exI[of _ d'] exI[of _ ds2]) simp
    qed
    show ?thesis
      using p(1)
    proof (cases rule: pull_step_cases)
      case left
      have "?W d \<longrightarrow> ?K d \<noteq> Some k" if "k \<in> set (key_list rs)" for k using left(8)[OF assms(2)] rs(3) that by force
      then show ?thesis using rs left(2,7) later by (intro exI[of _ rs]) auto
    next
      case given_up
      then show ?thesis using rs later by (intro exI[of _ rs]) auto
    next
      case leased
      let ?r = "answer_for C (bump (pl_next_ack_id st)) d"
      have K: "set (key_list [?r]) = set_option (?K d)" using key_of_answer[OF leased(6), of "bump (pl_next_ack_id st)"] by (auto simp: key_list_def Let_def split: if_splits)
      have dist: "distinct (key_list (?r # rs))"
        using rs(2,3) K leased(9)[OF assms(2)] by (auto simp: key_list_def split: if_splits)
      have keys: "set (key_list (?r # rs)) = set_option (?K d) \<union> set (key_list rs)" using K by (auto simp: key_list_def)
      have disj: "set (key_list (?r # rs)) \<inter> pl_blocked st = {}" using keys rs(3) leased(7)[OF assms(2)] leased(8) by auto
      have here: "\<exists>ds1 d' ds2. d # ds = ds1 @ d' # ds2 \<and> ?D d' \<and> ?K d' = Some k \<and> (\<forall>d0 \<in> set ds1. ?W d0 \<longrightarrow> ?K d0 \<noteq> Some k)"
        if k: "k \<in> set (key_list (?r # rs))" for k
      proof (cases "?K d = Some k")
        case True
        then show ?thesis using leased(6) by (intro exI[of _ "[]"]) auto
      next
        case other: False
        then have "k \<in> set (key_list rs)" using k keys by auto
        then show ?thesis using later other by blast
      qed
      show ?thesis using rs(1) leased(2) dist disj here by (intro exI[of _ "?r # rs"]) simp
    qed
  qed (use Cons.prems in \<open>auto simp: key_list_def\<close>)
qed (simp add: key_list_def)

end
