(* ===== verification/Pubsub_Invariant.thy ===== *)
theory Pubsub_Invariant
  imports Pubsub_Pull
begin

text \<open>
  The invariant of the Pub/Sub server and that every REST operation keeps it. A failed operation leaves every resource, delivery and
  counter as it was, and of the messages drops at most ones nothing refers to.
\<close>

section \<open>The invariant\<close>

definition named :: "('v \<Rightarrow> string) \<Rightarrow> (string, 'v) bmap \<Rightarrow> bool" where
  "named name m \<longleftrightarrow> bt_ok m \<and> (\<forall>(k, v) \<in> set m. name v = k \<and> k \<noteq> [])"

text \<open>Ids are given out by the counters: a message id is a number up to the last, an acknowledgement id belongs to its message.\<close>

definition issued_id :: "nat \<Rightarrow> string \<Rightarrow> bool" where
  "issued_id n i \<longleftrightarrow> (\<exists>k. k \<le> n \<and> i = dec k)"

definition record_ok :: "nat \<Rightarrow> nat \<Rightarrow> delivery_record \<Rightarrow> bool" where
  "record_ok n a d \<longleftrightarrow> issued_id n (del_message_id d)
     \<and> (del_ack_id d = [] \<or> \<not> del_acked d \<and> (\<exists>k. k \<le> a \<and> del_ack_id d = del_message_id d @ ''-'' @ dec k))"

definition queue_ok :: "ps_server \<Rightarrow> delivery_record list \<Rightarrow> bool" where
  "queue_ok s ds \<longleftrightarrow> distinct (map del_message_id ds) \<and>
     (\<forall>d \<in> set ds. record_ok (ps_next_message_id s) (ps_next_ack_id s) d \<and> (\<not> del_acked d \<longrightarrow> bt_contains (ps_messages s) (del_message_id d)))"

definition ps_ok :: "ps_server \<Rightarrow> bool" where
  "ps_ok s \<longleftrightarrow>
     named top_name (ps_topics s) \<and> named sub_name (ps_subscriptions s) \<and> named snap_name (ps_snapshots s) \<and> named sch_name (ps_schemas s)
     \<and> named msg_message_id (ps_messages s) \<and> (\<forall>(i, _) \<in> set (ps_messages s). issued_id (ps_next_message_id s) i)
     \<and> bt_ok (ps_deliveries s) \<and> (\<forall>(n, ds) \<in> set (ps_deliveries s). bt_contains (ps_subscriptions s) n \<and> queue_ok s ds)
     \<and> (\<forall>(_, snap) \<in> set (ps_snapshots s).
          bt_contains (ps_subscriptions s) (snap_subscription snap) \<and> queue_ok s (snap_deliveries snap) \<and> list_all (Not \<circ> del_acked) (snap_deliveries snap))
     \<and> ps_next_message_id s < 2 ^ 64 \<and> ps_next_ack_id s < 2 ^ 64"

text \<open>The messages someone still waits for; and states that are equal but for the files, the flags, and other messages.\<close>

definition pending :: "ps_server \<Rightarrow> string list" where
  "pending s =
     concat (map (\<lambda>(_, ds). map del_message_id (filter (Not \<circ> del_acked) ds)) (ps_deliveries s))
     @ concat (map (\<lambda>(_, snap). map del_message_id (snap_deliveries snap)) (ps_snapshots s))"

definition intact :: "ps_server \<Rightarrow> ps_server \<Rightarrow> bool" where
  "intact s s' \<longleftrightarrow>
     ps_config s' = ps_config s \<and> ps_topics s' = ps_topics s \<and> ps_subscriptions s' = ps_subscriptions s \<and> ps_snapshots s' = ps_snapshots s
     \<and> ps_schemas s' = ps_schemas s \<and> ps_deliveries s' = ps_deliveries s \<and> ps_next_message_id s' = ps_next_message_id s
     \<and> ps_next_ack_id s' = ps_next_ack_id s \<and> ps_load_err s' = ps_load_err s
     \<and> (\<exists>P. ps_messages s' = filter (\<lambda>(i, _). P i) (ps_messages s) \<and> (\<forall>i \<in> set (pending s). P i))"

lemma pending_referenced: "set (pending s) \<subseteq> set (referenced s)"
  by (force simp: pending_def referenced_def referenced_by_subscription_def Let_def)

lemma intact_same_messages: "ps_messages s' = ps_messages s \<Longrightarrow> \<exists>P. ps_messages s' = filter (\<lambda>(i, _). P i) (ps_messages s) \<and> (\<forall>i \<in> set (pending s). P i)"
  by (intro exI[of _ "\<lambda>_. True"]) simp

lemma intact_refl [simp]: "intact s s"
  by (simp add: intact_def intact_same_messages)

lemma intact_persist: "ps_persist E s = (r, s') \<Longrightarrow> intact s s'"
proof -
  assume p: "ps_persist E s = (r, s')"
  have "\<exists>P. ps_messages s' = filter (\<lambda>(i, _). P i) (ps_messages s) \<and> (\<forall>i \<in> set (pending s). P i)"
  proof (cases "messages_dirty s")
    case True
    then show ?thesis using persist_same(10)[OF p] pending_referenced[of s] by (intro exI[of _ "\<lambda>i. i \<in> set (referenced s)"]) auto
  next
    case False
    then show ?thesis using persist_same(10)[OF p] by (intro intact_same_messages) simp
  qed
  then show ?thesis using persist_same[OF p] by (simp add: intact_def)
qed

lemma named_insert [simp]: "named f m \<Longrightarrow> f v = k \<Longrightarrow> k \<noteq> [] \<Longrightarrow> named f (bt_insert k v m)"
  by (fastforce simp: named_def dest: set_bt_insert_sub[THEN subsetD])

lemma named_remove [simp]: "named f m \<Longrightarrow> named f (bt_remove k m)"
  by (auto simp: named_def bt_remove_def)

lemma named_filter [simp]: "named f m \<Longrightarrow> named f (filter P m)"
  by (auto simp: named_def)

lemma named_get: "named f m \<Longrightarrow> map_of m k = Some v \<Longrightarrow> f v = k \<and> k \<noteq> []"
  by (auto simp: named_def dest: map_of_SomeD)

lemma named_bt_ok: "named f m \<Longrightarrow> bt_ok m"
  by (simp add: named_def)

lemma pending_delivery:
  "(n, ds) \<in> set (ps_deliveries s) \<Longrightarrow> d \<in> set ds \<Longrightarrow> \<not> del_acked d \<Longrightarrow> del_message_id d \<in> set (pending s)"
  by (force simp: pending_def)

lemma pending_snapshot:
  "(n, snap) \<in> set (ps_snapshots s) \<Longrightarrow> d \<in> set (snap_deliveries snap) \<Longrightarrow> del_message_id d \<in> set (pending s)"
  by (force simp: pending_def)

lemma contains_filter: "bt_contains (filter (\<lambda>(i, _). P i) m) i \<longleftrightarrow> P i \<and> bt_contains m i"
  using map_of_filter_key[of P m i] by (simp add: bt_contains_def)

lemma queue_ok_filtered:
  assumes "queue_ok s ds" "ps_next_message_id s' = ps_next_message_id s" "ps_next_ack_id s' = ps_next_ack_id s"
    "ps_messages s' = filter (\<lambda>(i, _). P i) (ps_messages s)" "\<And>d. d \<in> set ds \<Longrightarrow> \<not> del_acked d \<Longrightarrow> P (del_message_id d)"
  shows "queue_ok s' ds"
  using assms by (simp add: queue_ok_def contains_filter)

lemma intact_ok:
  assumes ok: "ps_ok s" and i: "intact s s'"
  shows "ps_ok s'"
proof -
  obtain P where P: "ps_messages s' = filter (\<lambda>(i, _). P i) (ps_messages s)" "\<And>i. i \<in> set (pending s) \<Longrightarrow> P i"
    using i by (auto simp: intact_def)
  have same: "ps_topics s' = ps_topics s" "ps_subscriptions s' = ps_subscriptions s" "ps_snapshots s' = ps_snapshots s"
    "ps_schemas s' = ps_schemas s" "ps_deliveries s' = ps_deliveries s" "ps_next_message_id s' = ps_next_message_id s"
    "ps_next_ack_id s' = ps_next_ack_id s" using i by (simp_all add: intact_def)
  have dels: "queue_ok s' ds" if "(n, ds) \<in> set (ps_deliveries s)" for n ds
    using ok that pending_delivery[OF that] P(2) by (intro queue_ok_filtered[OF _ same(6,7) P(1)]) (auto simp: ps_ok_def)
  have snaps: "queue_ok s' (snap_deliveries snap)" if "(n, snap) \<in> set (ps_snapshots s)" for n snap
    using ok that pending_snapshot[OF that] P(2) by (intro queue_ok_filtered[OF _ same(6,7) P(1)]) (auto simp: ps_ok_def)
  show ?thesis using ok dels snaps unfolding ps_ok_def same P(1) by auto
qed

section \<open>Handlers\<close>

text \<open>An operation that succeeds goes to a state that satisfies the invariant; one that fails leaves the server intact.\<close>

definition keeps :: "ps_server \<Rightarrow> ps_result \<Rightarrow> bool" where
  "keeps s r \<longleftrightarrow> (case r of (Inl _, s') \<Rightarrow> intact s s' | (Inr _, s') \<Rightarrow> ps_ok s')"

lemma keeps_ok: "ps_ok s \<Longrightarrow> keeps s r \<Longrightarrow> ps_ok (snd r)"
  by (auto simp: keeps_def intact_ok split: prod.splits sum.splits)

lemma keeps_fail [simp]: "keeps s (Inl e, s)"
  by (simp add: keeps_def)

lemma keeps_read [simp]: "ps_ok s \<Longrightarrow> keeps s (r, s)"
  by (cases r) (simp_all add: keeps_def)

lemma keeps_checked: "(\<forall>c \<in> set cs. c = Inr () \<Longrightarrow> keeps s body) \<Longrightarrow> keeps s (checked cs s body)"
  using try_all_Inr_iff[of "\<lambda>c. c" cs] by (auto simp: checked_def split: sum.splits)

lemma keeps_commit:
  assumes "ps_ok s1" "\<And>s'. intact s1 s' \<Longrightarrow> intact s (undo s')"
  shows "keeps s (commit E s1 undo a)"
  using assms intact_persist[of E s1] intact_ok[OF assms(1)] by (auto simp: keeps_def commit_def split: prod.splits sum.splits)

lemma queue_ok_updates [simp]:
  "queue_ok (ps_topics_update f s) = queue_ok s" "queue_ok (ps_schemas_update g s) = queue_ok s"
  "queue_ok (ps_subscriptions_update h s) = queue_ok s" "queue_ok (ps_snapshots_update k s) = queue_ok s"
  "queue_ok (ps_deliveries_update l s) = queue_ok s" "queue_ok (resource_dirty_update b s) = queue_ok s"
  "queue_ok (messages_dirty_update b s) = queue_ok s"
  by (simp_all add: fun_eq_iff queue_ok_def)

lemma queue_ok_Nil [simp]: "queue_ok s []"
  by (simp add: queue_ok_def)

lemma intact_undo:
  assumes "intact s1 s'" "set (pending s) \<subseteq> set (pending s1)" "ps_messages s1 = ps_messages s" "ps_messages t = ps_messages s'"
    "ps_config t = ps_config s" "ps_topics t = ps_topics s" "ps_subscriptions t = ps_subscriptions s" "ps_snapshots t = ps_snapshots s"
    "ps_schemas t = ps_schemas s" "ps_deliveries t = ps_deliveries s" "ps_next_message_id t = ps_next_message_id s"
    "ps_next_ack_id t = ps_next_ack_id s" "ps_load_err t = ps_load_err s"
  shows "intact s t"
proof -
  obtain P where "ps_messages s' = filter (\<lambda>(i, _). P i) (ps_messages s1)" "\<forall>i \<in> set (pending s1). P i"
    using assms(1) by (auto simp: intact_def)
  then show ?thesis using assms(2-) unfolding intact_def by (intro conjI exI[of _ P]) auto
qed

lemma names_nonempty [simp]:
  "topic_name p i \<noteq> []" "subscription_name p i \<noteq> []" "snapshot_name p i \<noteq> []" "schema_name p i \<noteq> []"
  by (simp_all add: topic_name_def subscription_name_def snapshot_name_def schema_name_def)

text \<open>A change of one of the maps, undone when it cannot be saved.\<close>

lemma topics_commit:
  assumes "ps_ok s" "named top_name ts" "g ts = ps_topics s"
  shows "keeps s (commit E (s\<lparr>ps_topics := ts, resource_dirty := True\<rparr>) (\<lambda>s'. s'\<lparr>ps_topics := g (ps_topics s')\<rparr>) a)"
proof (rule keeps_commit)
  show "ps_ok (s\<lparr>ps_topics := ts, resource_dirty := True\<rparr>)" using assms by (simp add: ps_ok_def)
qed (use assms in \<open>simp add: intact_def pending_def\<close>)

lemma schemas_commit:
  assumes "ps_ok s" "named sch_name ss" "g ss = ps_schemas s"
  shows "keeps s (commit E (s\<lparr>ps_schemas := ss, resource_dirty := True\<rparr>) (\<lambda>s'. s'\<lparr>ps_schemas := g (ps_schemas s')\<rparr>) a)"
proof (rule keeps_commit)
  show "ps_ok (s\<lparr>ps_schemas := ss, resource_dirty := True\<rparr>)" using assms by (simp add: ps_ok_def)
qed (use assms in \<open>simp add: intact_def pending_def\<close>)

lemma subscriptions_commit:
  assumes "ps_ok s" "named sub_name subs" "g subs = ps_subscriptions s" "\<And>n. bt_contains (ps_subscriptions s) n \<Longrightarrow> bt_contains subs n"
  shows "keeps s (commit E (s\<lparr>ps_subscriptions := subs, resource_dirty := True\<rparr>) (\<lambda>s'. s'\<lparr>ps_subscriptions := g (ps_subscriptions s')\<rparr>) a)"
proof (rule keeps_commit)
  show "ps_ok (s\<lparr>ps_subscriptions := subs, resource_dirty := True\<rparr>)" using assms
    by (auto simp: ps_ok_def split: prod.splits)
qed (use assms in \<open>simp add: intact_def pending_def\<close>)

text \<open>The facts a handler's proof uses: a check that passed, a map entry found, an undo law.\<close>

lemma ensure_Inr [simp]: "ensure b e = Inr () \<longleftrightarrow> b"
  by (simp add: ensure_def)

lemma ok_named:
  "ps_ok s \<Longrightarrow> named top_name (ps_topics s)" "ps_ok s \<Longrightarrow> named sub_name (ps_subscriptions s)" "ps_ok s \<Longrightarrow> named snap_name (ps_snapshots s)"
  "ps_ok s \<Longrightarrow> named sch_name (ps_schemas s)" "ps_ok s \<Longrightarrow> named msg_message_id (ps_messages s)"
  by (simp_all add: ps_ok_def)

lemma ok_maps:
  "ps_ok s \<Longrightarrow> bt_ok (ps_topics s)" "ps_ok s \<Longrightarrow> bt_ok (ps_subscriptions s)" "ps_ok s \<Longrightarrow> bt_ok (ps_snapshots s)"
  "ps_ok s \<Longrightarrow> bt_ok (ps_schemas s)" "ps_ok s \<Longrightarrow> bt_ok (ps_messages s)" "ps_ok s \<Longrightarrow> bt_ok (ps_deliveries s)"
  by (simp_all add: ps_ok_def named_def)

lemma ok_names:
  "ps_ok s \<Longrightarrow> map_of (ps_topics s) k = Some t \<Longrightarrow> top_name t = k"
  "ps_ok s \<Longrightarrow> map_of (ps_subscriptions s) k = Some sub \<Longrightarrow> sub_name sub = k"
  "ps_ok s \<Longrightarrow> map_of (ps_snapshots s) k = Some snap \<Longrightarrow> snap_name snap = k"
  "ps_ok s \<Longrightarrow> map_of (ps_messages s) k = Some m \<Longrightarrow> msg_message_id m = k"
  using named_get by (fastforce dest: ok_named)+

lemmas handler_facts = ok_named ok_maps ok_names bt.undo_new bt.undo_overwrite bt.undo_remove bt_contains_def bt_get_insert bt_get_remove

section \<open>Topics and schemas\<close>

lemma create_topic_keeps: "ps_ok s \<Longrightarrow> keeps s (create_topic E p i request s)"
  unfolding create_topic_def Let_def by (intro keeps_checked topics_commit) (auto simp: handler_facts)

lemma patch_fields_name: "top_name (fold (apply_topic_field patch) us t) = top_name t"
  by (induction us arbitrary: t) (auto simp: apply_topic_field_def)

lemma patch_topic_keeps: "ps_ok s \<Longrightarrow> keeps s (patch_topic E p i patch us s)"
  unfolding patch_topic_def Let_def
  by (intro keeps_checked) (auto simp: handler_facts patch_fields_name dest: named_get split: option.splits intro!: topics_commit)

lemma delete_topic_keeps: "ps_ok s \<Longrightarrow> keeps s (delete_topic E p i s)"
  unfolding delete_topic_def Let_def
  by (intro keeps_checked) (auto simp: handler_facts split: option.splits intro!: topics_commit)

lemma create_schema_keeps: "ps_ok s \<Longrightarrow> keeps s (create_schema X E p i request s)"
  unfolding create_schema_def Let_def by (intro keeps_checked schemas_commit) (auto simp: handler_facts)

lemma delete_schema_keeps: "ps_ok s \<Longrightarrow> keeps s (delete_schema E p i s)"
  unfolding delete_schema_def Let_def
  by (intro keeps_checked) (auto simp: handler_facts split: option.splits intro!: schemas_commit)

section \<open>Subscriptions and snapshots\<close>

lemma create_subscription_keeps: "ps_ok s \<Longrightarrow> keeps s (create_subscription E p i request s)"
  unfolding create_subscription_def Let_def by (intro keeps_checked subscriptions_commit) (auto simp: handler_facts)

lemma subscription_overwritten:
  assumes "ps_ok s" "map_of (ps_subscriptions s) n = Some old" "sub_name sub = n"
  shows "keeps s (commit E (s\<lparr>ps_subscriptions := bt_insert n sub (ps_subscriptions s), resource_dirty := True\<rparr>)
    (\<lambda>s'. s'\<lparr>ps_subscriptions := bt_insert n old (ps_subscriptions s')\<rparr>) a)"
  using assms named_get[OF ok_named(2) assms(2)] bt_contains_insert[of "ps_subscriptions s"]
  by (intro subscriptions_commit) (simp_all add: bt.undo_overwrite ok_maps ok_named)

lemma patched_name: "sub_name (apply_subscription_patch s patch us sub) = sub_name sub"
  by (simp add: apply_subscription_patch_def)

lemma patch_subscription_keeps: "ps_ok s \<Longrightarrow> keeps s (patch_subscription E p i patch us s)"
  unfolding patch_subscription_def Let_def
  by (intro keeps_checked) (simp add: subscription_overwritten ok_names patched_name split: option.split)

lemma modify_push_config_keeps: "ps_ok s \<Longrightarrow> keeps s (modify_push_config E p i c s)"
  unfolding modify_push_config_def Let_def
  by (intro keeps_checked) (simp add: subscription_overwritten ok_names split: option.split)

lemma bt_extend_rest: "bt_ok m \<Longrightarrow> bt_extend (filter (\<lambda>(_, v). \<not> P v) m) (filter (\<lambda>(_, v). P v) m) = m"
proof (rule bt_ext)
  assume m: "bt_ok m"
  let ?A = "filter (\<lambda>(_, v). \<not> P v) m" and ?B = "filter (\<lambda>(_, v). P v) m"
  have mem: "map_of (filter Q m) k = Some v \<longleftrightarrow> (k, v) \<in> set m \<and> Q (k, v)" for Q k v
    using bt_in_set_iff[OF bt_ok_filter[OF m], of k v Q] by auto
  have B: "map_of (rev ?B) = map_of ?B" using bt_ok_distinct[OF bt_ok_filter[OF m]] by (rule map_of_rev_distinct)
  have "map_of (bt_extend ?A ?B) k = Some v \<longleftrightarrow> map_of m k = Some v" for k v
  proof -
    have "map_of (bt_extend ?A ?B) k = Some v \<longleftrightarrow> map_of ?B k = Some v \<or> map_of ?B k = None \<and> map_of ?A k = Some v"
      by (simp add: bt_get_extend B map_add_Some_iff)
    also have "\<dots> \<longleftrightarrow> map_of m k = Some v"
    proof (cases "map_of m k")
      case None
      then have "(k, u) \<notin> set m" for u using bt_in_set_iff[OF m, of k u] by simp
      then show ?thesis using None by (simp add: mem)
    next
      case (Some w)
      then have "(k, u) \<in> set m \<longleftrightarrow> u = w" for u using bt_in_set_iff[OF m, of k u] by auto
      then show ?thesis using Some mem[of "\<lambda>(_, v). P v" k] mem[of "\<lambda>(_, v). \<not> P v" k] by (cases "map_of ?B k") auto
    qed
    finally show ?thesis .
  qed
  note same = this
  have "map_of (bt_extend ?A ?B) k = map_of m k" for k
    using same[of k] by (metis not_Some_eq)
  then show "map_of (bt_extend ?A ?B) = map_of m" ..
qed simp_all

lemma snapshots_undo: "ps_ok s \<Longrightarrow> bt_extend (snapshots_besides n s) (snapshots_of n s) = ps_snapshots s"
  using bt_extend_rest[of "ps_snapshots s" "\<lambda>snap. snap_subscription snap = n"] ok_maps(3)[of s]
  by (simp add: snapshots_besides_def snapshots_of_def)

lemma besides_ok:
  assumes ok: "ps_ok s"
  shows "ps_ok (s\<lparr>ps_snapshots := snapshots_besides n s\<rparr>)"
  using assms by (simp add: ps_ok_def snapshots_besides_def)

lemma delete_subscription_keeps:
  assumes ok: "ps_ok s"
  shows "keeps s (delete_subscription E p i s)"
proof -
  let ?n = "subscription_name p i"
  have keep: "bt_contains (bt_remove ?n (ps_subscriptions s)) m" if "bt_contains (ps_subscriptions s) m" "m \<noteq> ?n" for m
    using that by (simp add: bt_contains_def bt_get_remove)
  have "ps_ok (s\<lparr>ps_subscriptions := bt_remove ?n (ps_subscriptions s), ps_snapshots := snapshots_besides ?n s,
      ps_deliveries := bt_remove ?n (ps_deliveries s), resource_dirty := True, messages_dirty := True\<rparr>)"
    using ok keep by (auto simp: ps_ok_def snapshots_besides_def bt_remove_def[of _ "ps_deliveries s"])
  moreover have "(case map_of (ps_deliveries s) ?n of Some ds \<Rightarrow> bt_insert ?n ds (bt_remove ?n (ps_deliveries s))
      | None \<Rightarrow> bt_remove ?n (ps_deliveries s)) = ps_deliveries s"
  proof (cases "map_of (ps_deliveries s) ?n")
    case None
    then have "bt_remove ?n (ps_deliveries s) = ps_deliveries s" by (force simp: bt_remove_def map_of_eq_None_iff filter_id_conv)
    then show ?thesis using None by simp
  qed (simp add: handler_facts ok)
  ultimately show ?thesis using ok unfolding delete_subscription_def Let_def
    by (intro keeps_checked)
      (auto simp: handler_facts snapshots_undo intact_def intact_same_messages split: option.splits intro!: keeps_commit)
qed

lemma detach_subscription_keeps:
  assumes ok: "ps_ok s"
  shows "keeps s (detach_subscription E p i s)"
proof -
  let ?n = "subscription_name p i"
  have "ps_ok (s\<lparr>ps_snapshots := snapshots_besides ?n s, ps_subscriptions := bt_insert ?n (old\<lparr>sub_detached := True, sub_updated_at := t\<rparr>) (ps_subscriptions s),
      resource_dirty := True, messages_dirty := True\<rparr>)" if "map_of (ps_subscriptions s) ?n = Some old" for old t
    using besides_ok[OF ok, of ?n] ok_names(2)[OF ok that] bt_contains_insert[of "ps_subscriptions s"]
    by (auto simp: ps_ok_def split: prod.splits)
  then show ?thesis using ok unfolding detach_subscription_def Let_def
    by (intro keeps_checked)
      (auto simp: handler_facts snapshots_undo intact_def intact_same_messages split: option.splits intro!: keeps_commit)
qed

lemma create_snapshot_keeps:
  assumes ok: "ps_ok s"
  shows "keeps s (create_snapshot E p i sub s)"
proof -
  let ?n = "snapshot_name p i"
  have "ps_ok (s\<lparr>ps_snapshots := bt_insert ?n snap (ps_snapshots s), resource_dirty := True\<rparr>)"
    if "snap_name snap = ?n" "snap_deliveries snap = []" "map_of (ps_subscriptions s) (snap_subscription snap) = Some x" for snap x
  proof -
    have "bt_contains (ps_subscriptions s) (snap_subscription snap)" using that(3) by (simp add: bt_contains_def)
    then show ?thesis using ok that(1,2) by (auto simp: ps_ok_def dest!: set_bt_insert_sub[THEN subsetD] split: prod.splits)
  qed
  moreover have "intact s (s'\<lparr>ps_snapshots := bt_remove ?n (ps_snapshots s')\<rparr>)"
    if s': "intact (s\<lparr>ps_snapshots := bt_insert ?n snap (ps_snapshots s), resource_dirty := True\<rparr>) s'" and new: "map_of (ps_snapshots s) ?n = None" for snap s'
  proof (rule intact_undo[OF s'])
    have "set (ps_snapshots s) \<subseteq> set (bt_insert ?n snap (ps_snapshots s))"
      using set_bt_insert[OF ok_maps(3)[OF ok], of ?n snap] new by (force simp: map_of_eq_None_iff)
    then show "set (pending s) \<subseteq> set (pending (s\<lparr>ps_snapshots := bt_insert ?n snap (ps_snapshots s), resource_dirty := True\<rparr>))"
      by (auto simp: pending_def)
  qed (use s' new ok in \<open>auto simp: intact_def handler_facts\<close>)
  ultimately show ?thesis using ok unfolding create_snapshot_def Let_def
    by (intro keeps_checked) (auto simp: bt_contains_def ok_names split: option.splits intro!: keeps_commit)
qed

lemma delete_snapshot_keeps:
  assumes ok: "ps_ok s"
  shows "keeps s (delete_snapshot E p i s)"
proof -
  have "ps_ok (s\<lparr>ps_snapshots := bt_remove n (ps_snapshots s), resource_dirty := True, messages_dirty := True\<rparr>)" for n
    using ok by (auto simp: ps_ok_def bt_remove_def)
  then show ?thesis using ok unfolding delete_snapshot_def Let_def
    by (intro keeps_checked)
      (auto simp: handler_facts intact_def intact_same_messages split: option.splits intro!: keeps_commit)
qed

end
