(* ===== verification/Pubsub_Messages.thy ===== *)
theory Pubsub_Messages
  imports Pubsub_Invariant
begin

text \<open>
  The message operations of the Pub/Sub server keep the invariant, as long as the \<open>u64\<close> counters have room for the ids the operation gives out.
\<close>

section \<open>Queues\<close>

text \<open>A record changed in ways that need no new id: its acknowledgement id is kept or cleared, and it may become acknowledged.\<close>

definition weakened :: "delivery_record \<Rightarrow> delivery_record \<Rightarrow> bool" where
  "weakened d d' \<longleftrightarrow> del_message_id d' = del_message_id d \<and> (del_acked d \<longrightarrow> del_acked d')
     \<and> (del_ack_id d' = [] \<or> del_ack_id d' = del_ack_id d \<and> del_acked d' = del_acked d)"

lemma record_weakened: "record_ok n a d \<Longrightarrow> weakened d d' \<Longrightarrow> record_ok n a d'"
  by (auto simp: weakened_def record_ok_def)

lemma queue_ok_map:
  assumes "queue_ok s ds" "\<And>d. d \<in> set ds \<Longrightarrow> weakened d (f d)"
  shows "queue_ok s (map f ds)"
proof -
  have f: "del_message_id (f d) = del_message_id d" "del_acked d \<Longrightarrow> del_acked (f d)" if "d \<in> set ds" for d
    using assms(2)[OF that] by (simp_all add: weakened_def)
  have "map (del_message_id \<circ> f) ds = map del_message_id ds" using f(1) by simp
  then have "distinct (map (del_message_id \<circ> f) ds)" using assms(1) unfolding queue_ok_def by metis
  then show ?thesis using assms(1) record_weakened[OF _ assms(2)] f by (auto simp: queue_ok_def)
qed

lemma queue_ok_filter: "queue_ok s ds \<Longrightarrow> queue_ok s (filter P ds)"
  by (auto simp: queue_ok_def distinct_map_filter)

lemma queue_ok_compact: "queue_ok s ds \<Longrightarrow> queue_ok s (compact_acked r ds)"
  by (simp add: compact_acked_def queue_ok_filter)

lemma queue_ok_of: "ps_ok s \<Longrightarrow> queue_ok s (deliveries_of n s)"
  by (auto simp: deliveries_of_def ps_ok_def split: option.splits dest!: map_of_SomeD)

lemma map_values_ok [simp]: "bt_ok (map (\<lambda>(n, ds). (n, f n ds)) m) = bt_ok m"
  by (induction m) auto

lemma expire_weakened: "weakened d (expire_record s n now d)"
  by (simp add: weakened_def expire_record_def Let_def)

lemma update_weakened: "weakened d (update_record deadline ids now d)"
  by (simp add: weakened_def update_record_def acked_record_def split: option.splits)

lemma expire_leases_ok: "ps_ok s \<Longrightarrow> ps_ok (expire_leases now s)"
  by (auto simp: ps_ok_def expire_leases_def intro!: queue_ok_map expire_weakened)

lemma retain_deliveries_ok: "ps_ok s \<Longrightarrow> ps_ok (retain_deliveries now s)"
  by (auto simp: ps_ok_def retain_deliveries_def Let_def intro!: queue_ok_filter)

lemma named_map: "named f m \<Longrightarrow> (\<And>v. f (g v) = f v) \<Longrightarrow> named f (map (\<lambda>(n, v). (n, g v)) m)"
  using map_values_ok[of "\<lambda>_. g" m] by (auto simp: named_def)

lemma retain_snapshots_ok: "ps_ok s \<Longrightarrow> ps_ok (retain_snapshots now s)"
  by (auto simp: ps_ok_def retain_snapshots_def Let_def list_all_iff intro!: queue_ok_filter named_map)

lemma snapshots_subset_ok:
  assumes "ps_ok s" "named snap_name ss" "set ss \<subseteq> set (ps_snapshots s)"
  shows "ps_ok (s\<lparr>resource_dirty := b, ps_snapshots := ss\<rparr>)"
  using assms by (auto simp: ps_ok_def)

lemma set_enumerate_kept: "set (map snd (filter P (enumerate n xs))) \<subseteq> set xs"
  by (auto simp: enumerate_eq_zip dest: set_zip_rightD)

lemma bt_ok_enumerate_kept: "bt_ok xs \<Longrightarrow> bt_ok (map snd (filter P (enumerate n xs)))"
proof (induction xs arbitrary: n)
  case (Cons e xs)
  then have "\<forall>x \<in> set (map snd (filter P (enumerate (Suc n) xs))). fst e < fst x" using set_enumerate_kept[of P "Suc n" xs] by fastforce
  then show ?case using Cons by simp
qed simp

lemma cleanup_expired_ok:
  assumes ok: "ps_ok s"
  shows "ps_ok (cleanup_expired_snapshots E s)"
proof -
  let ?ss = "map snd (filter (\<lambda>(i, _, snap). \<not> snapshot_expired E i snap) (enumerate 1 (ps_snapshots s)))"
  have sub: "set ?ss \<subseteq> set (ps_snapshots s)" by (rule set_enumerate_kept)
  have "named snap_name ?ss"
    using sub ok_named(3)[OF ok] bt_ok_enumerate_kept[OF ok_maps(3)[OF ok]] unfolding named_def by blast
  then show ?thesis using snapshots_subset_ok[OF ok _ sub] by (simp add: cleanup_expired_snapshots_def Let_def)
qed

lemma cleanup_unreferenced_intact: "intact s (cleanup_unreferenced_messages s)"
  using pending_referenced[of s] unfolding intact_def cleanup_unreferenced_messages_def Let_def
  by (auto intro!: exI[of _ "\<lambda>i. i \<in> set (referenced s)"])

lemma cleanup_retained_ok: "ps_ok s \<Longrightarrow> ps_ok (cleanup_retained_messages E now s)"
  by (simp add: cleanup_retained_messages_def Let_def cleanup_expired_ok retain_deliveries_ok retain_snapshots_ok
      intact_ok[OF _ cleanup_unreferenced_intact])

section \<open>Arrivals\<close>

lemma fold_push_ok [simp]: "bt_ok m \<Longrightarrow> bt_ok (fold (push_delivery i) ns m)"
  by (induction ns arbitrary: m) (auto simp: push_delivery_def)

lemma fold_push_get:
  "distinct ns \<Longrightarrow> map_of (fold (push_delivery i) ns m) n =
     (if n \<in> set ns then Some ((case map_of m n of Some rs \<Rightarrow> rs | None \<Rightarrow> []) @ [new_delivery i]) else map_of m n)"
  by (induction ns arbitrary: m) (auto simp: push_delivery_def bt_get_insert)

text \<open>No delivery has an id beyond \<open>c\<close>.\<close>

definition ids_upto :: "nat \<Rightarrow> ps_server \<Rightarrow> bool" where
  "ids_upto c s \<longleftrightarrow> (\<forall>(n, ds) \<in> set (ps_deliveries s). \<forall>d \<in> set ds. issued_id c (del_message_id d))"

lemma ids_upto_next: "ps_ok s \<Longrightarrow> ids_upto (ps_next_message_id s) s"
  by (fastforce simp: ids_upto_def ps_ok_def queue_ok_def record_ok_def)

lemma issued_mono: "issued_id c i \<Longrightarrow> c \<le> c' \<Longrightarrow> issued_id c' i"
  unfolding issued_id_def using le_trans by blast

lemma issued_dec: "issued_id c (dec k) \<longleftrightarrow> k \<le> c"
  by (metis dec_inj issued_id_def)

lemma record_ok_mono: "record_ok n a d \<Longrightarrow> n \<le> n' \<Longrightarrow> a \<le> a' \<Longrightarrow> record_ok n' a' d"
  unfolding record_ok_def using issued_mono le_trans by blast

lemma queue_ok_mono:
  assumes "queue_ok s ds" "ps_next_message_id s \<le> ps_next_message_id s'" "ps_next_ack_id s \<le> ps_next_ack_id s'"
    "\<And>i. bt_contains (ps_messages s) i \<Longrightarrow> bt_contains (ps_messages s') i"
  shows "queue_ok s' ds"
  using assms record_ok_mono by (fastforce simp: queue_ok_def)

lemma counters_ok:
  assumes ok: "ps_ok s" and n: "ps_next_message_id s \<le> n" "n < 2 ^ 64" and a: "ps_next_ack_id s \<le> a" "a < 2 ^ 64"
  shows "ps_ok (s\<lparr>ps_next_message_id := n, ps_next_ack_id := a\<rparr>)"
proof -
  let ?s = "s\<lparr>ps_next_message_id := n, ps_next_ack_id := a\<rparr>"
  have q: "queue_ok ?s ds" if "queue_ok s ds" for ds by (rule queue_ok_mono[OF that]) (use n a in simp_all)
  have i: "issued_id n i" if "issued_id (ps_next_message_id s) i" for i using that n(1) by (rule issued_mono)
  show ?thesis using ok n(2) a(2) unfolding ps_ok_def by (auto simp: q i split: prod.splits)
qed

lemma queue_ok_append:
  assumes q: "queue_ok s ds" and k: "k \<le> ps_next_message_id s" "c < k" "\<forall>d \<in> set ds. issued_id c (del_message_id d)"
    and m: "bt_contains (ps_messages s) (dec k)"
  shows "queue_ok s (ds @ [new_delivery (dec k)])"
proof -
  have "\<not> issued_id c (dec k)" using k(2) by (simp add: issued_dec)
  then have "dec k \<notin> del_message_id ` set ds" using k(3) by (metis imageE)
  then show ?thesis using q k(1) m by (simp add: queue_ok_def new_delivery_def record_ok_def issued_dec)
qed

lemma arrival_ok:
  assumes ok: "ps_ok s" and k: "k \<le> ps_next_message_id s" "c < k" "ids_upto c s" and m: "msg_message_id m = dec k"
    and ns: "distinct ns" "\<forall>n \<in> set ns. bt_contains (ps_subscriptions s) n"
  defines "s' \<equiv> s\<lparr>ps_messages := bt_insert (dec k) m (ps_messages s), ps_deliveries := fold (push_delivery (dec k)) ns (ps_deliveries s)\<rparr>"
  shows "ps_ok s'" "ids_upto k s'"
proof -
  have q: "queue_ok s' ds" if "queue_ok s ds" for ds
    by (rule queue_ok_mono[OF that]) (simp_all add: s'_def bt_contains_insert)
  have here: "bt_contains (ps_messages s') (dec k)" by (simp add: s'_def bt_contains_def bt_get_insert)
  have old: "queue_ok s ds" "bt_contains (ps_subscriptions s) n" "\<forall>d \<in> set ds. issued_id c (del_message_id d)"
    if "map_of (ps_deliveries s) n = Some ds" for n ds
    using ok k(3) that by (auto simp: ps_ok_def ids_upto_def dest!: map_of_SomeD)
  have bt: "bt_ok (ps_deliveries s')" using ok by (simp add: s'_def ok_maps)
  have new: "bt_contains (ps_subscriptions s') n \<and> queue_ok s' ds \<and> (\<forall>d \<in> set ds. issued_id k (del_message_id d))"
    if "(n, ds) \<in> set (ps_deliveries s')" for n ds
  proof -
    have g: "map_of (fold (push_delivery (dec k)) ns (ps_deliveries s)) n = Some ds" using that bt by (simp add: bt_in_set_iff s'_def)
    show ?thesis
    proof (cases "n \<in> set ns")
      case True
      let ?old = "case map_of (ps_deliveries s) n of Some rs \<Rightarrow> rs | None \<Rightarrow> []"
      have ds: "ds = ?old @ [new_delivery (dec k)]" using g True by (simp add: fold_push_get[OF ns(1)])
      have "queue_ok s ?old" "\<forall>d \<in> set ?old. issued_id c (del_message_id d)" using old[of n] by (cases "map_of (ps_deliveries s) n"; simp)+
      then have "queue_ok s' ds" "\<forall>d \<in> set ds. issued_id k (del_message_id d)"
        unfolding ds using queue_ok_append[OF q, of ?old k c] k(1,2) here issued_mono[of c _ k]
        by (simp_all add: s'_def new_delivery_def issued_dec)
      then show ?thesis using ns(2) True by (simp add: s'_def)
    next
      case False
      then have "map_of (ps_deliveries s) n = Some ds" using g by (simp add: fold_push_get[OF ns(1)])
      from old[OF this] show ?thesis using q issued_mono[of c _ k] k(2) by (auto simp: s'_def)
    qed
  qed
  show "ids_upto k s'" using new by (auto simp: ids_upto_def)
  have msgs: "named msg_message_id (ps_messages s')" using ok m by (simp add: s'_def ok_named)
  have ids: "\<forall>(i, _) \<in> set (ps_messages s'). issued_id (ps_next_message_id s') i"
    using ok k(1) by (auto simp: s'_def ps_ok_def issued_dec dest!: set_bt_insert_sub[THEN subsetD] split: prod.splits)
  have snaps: "\<forall>(_, snap) \<in> set (ps_snapshots s'). bt_contains (ps_subscriptions s') (snap_subscription snap) \<and> queue_ok s' (snap_deliveries snap)
      \<and> list_all (Not \<circ> del_acked) (snap_deliveries snap)"
    using ok q by (auto simp: ps_ok_def s'_def split: prod.splits)
  have rest: "named top_name (ps_topics s')" "named sub_name (ps_subscriptions s')" "named snap_name (ps_snapshots s')" "named sch_name (ps_schemas s')"
    "ps_next_message_id s' < 2 ^ 64" "ps_next_ack_id s' < 2 ^ 64" using ok by (simp_all add: s'_def ps_ok_def)
  have dels: "\<forall>(n, ds) \<in> set (ps_deliveries s'). bt_contains (ps_subscriptions s') n \<and> queue_ok s' ds" using new by blast
  show "ps_ok s'" unfolding ps_ok_def using msgs ids bt dels snaps rest by blast
qed

section \<open>Publishing\<close>

lemma bump_id: "n + 1 < 2 ^ 64 \<Longrightarrow> bump n = Suc n"
  by (simp add: bump_def)

lemma names_distinct:
  assumes "named f m"
  shows "distinct (map f (filter P (map snd m)))" "n \<in> set (map f (filter P (map snd m))) \<Longrightarrow> bt_contains m n"
proof -
  have m: "map f (map snd m) = map fst m" using assms by (auto simp: named_def)
  then have "distinct (map f (map snd m))" using bt_ok_distinct[OF named_bt_ok[OF assms]] by metis
  then show "distinct (map f (filter P (map snd m)))" by (rule distinct_map_filter)
  assume "n \<in> set (map f (filter P (map snd m)))"
  then have "n \<in> set (map f (map snd m))" by auto
  then have "n \<in> set (map fst m)" by (simp only: m)
  then show "bt_contains m n" by (simp add: bt_contains_def map_of_eq_None_iff)
qed

lemma publish_one_ok:
  assumes ok: "ps_ok s" and room: "ps_next_message_id s + 1 < 2 ^ 64"
  shows "ps_ok (snd (publish_one name now m (ids, s)))"
    "ps_next_message_id (snd (publish_one name now m (ids, s))) = Suc (ps_next_message_id s)"
proof -
  let ?n = "Suc (ps_next_message_id s)" and ?M = "message_of (dec (Suc (ps_next_message_id s))) now m"
  let ?s = "s\<lparr>ps_next_message_id := ?n, ps_next_ack_id := ps_next_ack_id s\<rparr>"
  have s: "ps_ok ?s" "ids_upto (ps_next_message_id s) ?s"
    using counters_ok[OF ok, of ?n "ps_next_ack_id s"] room ok ids_upto_next[OF ok] by (simp_all add: ps_ok_def ids_upto_def)
  let ?ns = "matching_subscriptions name ?M s"
  have "distinct ?ns" "\<forall>n \<in> set ?ns. bt_contains (ps_subscriptions s) n"
    using names_distinct[OF ok_named(2)[OF ok]] by (simp_all add: matching_subscriptions_def)
  then have "ps_ok (?s\<lparr>ps_messages := bt_insert (dec ?n) ?M (ps_messages ?s), ps_deliveries := fold (push_delivery (dec ?n)) ?ns (ps_deliveries ?s)\<rparr>)"
    using arrival_ok(1)[OF s(1) _ _ s(2), of ?n ?M ?ns] by (simp add: message_of_def)
  then show "ps_ok (snd (publish_one name now m (ids, s)))" by (simp add: publish_one_def bump_id[OF room] Let_def)
  show "ps_next_message_id (snd (publish_one name now m (ids, s))) = ?n" by (simp add: publish_one_def bump_id[OF room] Let_def)
qed

lemma publish_all_ok:
  "ps_ok s \<Longrightarrow> ps_next_message_id s + length ms < 2 ^ 64 \<Longrightarrow> ps_ok (snd (fold (publish_one name now) ms (ids, s)))"
proof (induction ms arbitrary: ids s)
  case (Cons m ms)
  obtain ids' s' where p: "publish_one name now m (ids, s) = (ids', s')" by fastforce
  have "ps_ok s'" "ps_next_message_id s' = Suc (ps_next_message_id s)" using publish_one_ok[OF Cons.prems(1), of name now m ids] Cons.prems(2) p by simp_all
  then show ?case using Cons.IH[of s' ids'] Cons.prems(2) p by simp
qed simp

lemma publish_all_same:
  "fold (publish_one name now) ms (ids, s) = (ids', s') \<Longrightarrow> ps_config s' = ps_config s \<and> ps_topics s' = ps_topics s \<and> ps_subscriptions s' = ps_subscriptions s
     \<and> ps_snapshots s' = ps_snapshots s \<and> ps_schemas s' = ps_schemas s \<and> ps_next_ack_id s' = ps_next_ack_id s \<and> ps_load_err s' = ps_load_err s
     \<and> resource_file s' = resource_file s"
proof (induction ms arbitrary: ids s)
  case (Cons m ms)
  obtain ids1 s1 where p: "publish_one name now m (ids, s) = (ids1, s1)" by fastforce
  then show ?case using Cons.IH[of ids1 s1] Cons.prems by (auto simp: publish_one_def Let_def)
qed simp

lemma publish_keeps:
  assumes ok: "ps_ok s" and room: "ps_next_message_id s + length ms < 2 ^ 64"
  shows "keeps s (publish X E p i ms s)"
proof -
  obtain ids s1 where f: "fold (publish_one (topic_name p i) (ps_now E 0)) ms ([], s) = (ids, s1)" by fastforce
  have "ps_ok s1" using publish_all_ok[OF ok room, of "topic_name p i" "ps_now E 0" "[]"] f by simp
  then have "ps_ok (s1\<lparr>messages_dirty := True\<rparr>)" by (simp add: ps_ok_def)
  then have "keeps s (commit E (s1\<lparr>messages_dirty := True\<rparr>)
      (\<lambda>s'. s'\<lparr>ps_next_message_id := ps_next_message_id s, ps_messages := ps_messages s, ps_deliveries := ps_deliveries s\<rparr>) a)" for a
    using publish_all_same[OF f] by (intro keeps_commit) (auto simp: intact_def intact_same_messages)
  then show ?thesis unfolding publish_def Let_def f
    by (intro keeps_checked) (auto split: option.split intro!: keeps_checked)
qed

section \<open>Acknowledging and seeking\<close>

lemma deliveries_replaced:
  assumes ok: "ps_ok s" and sub: "bt_contains (ps_subscriptions s) n" and q: "queue_ok s ds"
  shows "ps_ok (s\<lparr>ps_deliveries := bt_insert n ds (ps_deliveries s), messages_dirty := True\<rparr>)"
  using assms by (auto simp: ps_ok_def dest!: set_bt_insert_sub[THEN subsetD] split: prod.splits)

lemma update_ack_deadlines_keeps:
  assumes ok: "ps_ok s"
  shows "keeps s (update_ack_deadlines E p i ids deadline s)"
proof -
  let ?n = "subscription_name p i" and ?s = "expire_leases (fst (now_parts E 0)) s"
  have "ps_ok (?s\<lparr>ps_deliveries := bt_insert ?n (compact_acked r (map (update_record deadline ids now) (deliveries_of ?n ?s))) (ps_deliveries ?s), messages_dirty := True\<rparr>)"
    if "map_of (ps_subscriptions s) ?n = Some sub" for r now sub
    using that expire_leases_ok[OF ok] queue_ok_of[OF expire_leases_ok[OF ok]]
    by (intro deliveries_replaced queue_ok_compact queue_ok_map update_weakened) (simp_all add: bt_contains_def expire_leases_def)
  then show ?thesis unfolding update_ack_deadlines_def Let_def
    by (intro keeps_checked)
      (auto simp: ok intact_def intact_same_messages expire_leases_def split: option.split intro!: keeps_checked keeps_commit)
qed

lemma replace_deliveries_keeps:
  assumes ok: "ps_ok s" and sub: "bt_contains (ps_subscriptions s) n" and q: "queue_ok s ds"
  shows "keeps s (replace_deliveries E n ds s)"
proof -
  have "restore_deliveries_entry n (map_of (ps_deliveries s) n) (bt_insert n ds (ps_deliveries s)) = ps_deliveries s"
    using ok by (auto simp: restore_deliveries_entry_def handler_facts split: option.splits)
  then show ?thesis unfolding replace_deliveries_def
    using deliveries_replaced[OF assms] by (intro keeps_commit) (auto simp: intact_def intact_same_messages)
qed

lemma seek_by_time_queue:
  assumes "queue_ok s ds"
  shows "queue_ok s (map (new_delivery \<circ> del_message_id) (filter (published_since s t) ds))"
proof -
  have "distinct (map del_message_id (filter (published_since s t) ds))" using assms by (simp add: queue_ok_def distinct_map_filter)
  then show ?thesis using assms
    by (auto simp: queue_ok_def new_delivery_def comp_def record_ok_def published_since_def bt_contains_def split: option.splits)
qed

lemma seek_keeps:
  assumes ok: "ps_ok s"
  shows "keeps s (seek E p i snap t s)"
proof -
  let ?n = "subscription_name p i"
  have snaps: "queue_ok s (snapshot_deliveries (snap_deliveries sn))" if "map_of (ps_snapshots s) snap = Some sn" for sn
    unfolding snapshot_deliveries_def using ok that
    by (intro queue_ok_map queue_ok_filter) (auto simp: ps_ok_def weakened_def snapshot_record_def dest!: map_of_SomeD)
  then show ?thesis unfolding seek_def Let_def seek_deliveries_by_time_def
    by (intro keeps_checked) (auto simp: ok queue_ok_of split: option.split intro!: replace_deliveries_keeps seek_by_time_queue)
qed

section \<open>Pulling\<close>

definition pulled :: "pull_context \<Rightarrow> nat \<Rightarrow> delivery_record \<Rightarrow> delivery_record \<Rightarrow> bool" where
  "pulled C n d d' \<longleftrightarrow> weakened d d' \<or> \<not> del_acked d \<and> (\<exists>a \<le> n. d' = lease_record C a d)"

lemma pulled_same: "pulled C n d d'  \<Longrightarrow> n \<le> n' \<Longrightarrow> pulled C n' d d'"
  unfolding pulled_def using le_trans by blast

lemma pulled_refl: "list_all2 (pulled C n) ds ds"
  by (simp add: list.rel_refl pulled_def weakened_def)

lemma pull_loop_ids:
  assumes "pull_loop C i st ds = (st', ds')" "pl_next_message_id st + length ds < 2 ^ 64" "pl_next_ack_id st + length ds < 2 ^ 64"
  shows "pl_next_message_id st \<le> pl_next_message_id st' \<and> pl_next_message_id st' \<le> pl_next_message_id st + length ds
    \<and> pl_next_ack_id st \<le> pl_next_ack_id st' \<and> pl_next_ack_id st' \<le> pl_next_ack_id st + length ds
    \<and> (\<exists>dls. pl_dead_lettered st' = pl_dead_lettered st @ dls
         \<and> map (msg_message_id \<circ> snd) dls = map dec [Suc (pl_next_message_id st) ..< Suc (pl_next_message_id st')])
    \<and> list_all2 (pulled C (pl_next_ack_id st')) ds ds'"
  using assms
proof (induction ds arbitrary: i st ds')
  case (Cons d ds)
  show ?case
  proof (cases "ctx_max C \<le> int (length (pl_received st))")
    case True
    then show ?thesis using Cons.prems(1) pulled_refl by auto
  next
    case False
    with pull_loop_Cons[OF Cons.prems(1)]
    obtain st1 d1 ds1 where p: "pull_step C i st d = (st1, d1)" "pull_loop C (Suc i) st1 ds = (st', ds1)" "ds' = d1 # ds1" by blast
    have b: "bump (pl_next_message_id st) = Suc (pl_next_message_id st)" "bump (pl_next_ack_id st) = Suc (pl_next_ack_id st)"
      using Cons.prems(2,3) by (simp_all add: bump_id)
    have step: "pl_next_message_id st \<le> pl_next_message_id st1 \<and> pl_next_message_id st1 \<le> Suc (pl_next_message_id st)
      \<and> pl_next_ack_id st \<le> pl_next_ack_id st1 \<and> pl_next_ack_id st1 \<le> Suc (pl_next_ack_id st)
      \<and> (\<exists>dl. pl_dead_lettered st1 = pl_dead_lettered st @ dl
           \<and> map (msg_message_id \<circ> snd) dl = map dec [Suc (pl_next_message_id st) ..< Suc (pl_next_message_id st1)])
      \<and> pulled C (pl_next_ack_id st1) d d1"
      using p(1)
    proof (cases rule: pull_step_cases)
      case left
      then show ?thesis by (simp add: pulled_def weakened_def)
    next
      case (given_up t m)
      then show ?thesis by (simp add: b pulled_def weakened_def acked_record_def)
    next
      case leased
      then show ?thesis by (auto simp: b pulled_def deliverable_def)
    qed
    let ?n = "pl_next_message_id st" and ?n1 = "pl_next_message_id st1" and ?n2 = "pl_next_message_id st'"
    have room: "?n1 + length ds < 2 ^ 64" "pl_next_ack_id st1 + length ds < 2 ^ 64" using step Cons.prems(2,3) by simp_all
    note IH = Cons.IH[OF p(2) room]
    from step IH obtain dl dls where dl: "pl_dead_lettered st1 = pl_dead_lettered st @ dl" "map (msg_message_id \<circ> snd) dl = map dec [Suc ?n ..< Suc ?n1]"
      "pl_dead_lettered st' = pl_dead_lettered st1 @ dls" "map (msg_message_id \<circ> snd) dls = map dec [Suc ?n1 ..< Suc ?n2]" by blast
    have "[Suc ?n ..< Suc ?n1] @ [Suc ?n1 ..< Suc ?n2] = [Suc ?n ..< Suc ?n2]"
      using step IH upt_add_eq_append[of "Suc ?n" "Suc ?n1" "?n2 - ?n1"] by simp
    then have "map (msg_message_id \<circ> snd) (dl @ dls) = map dec [Suc ?n ..< Suc ?n2]" using dl(2,4) by (metis map_append)
    moreover have "pl_dead_lettered st' = pl_dead_lettered st @ (dl @ dls)" using dl(1,3) by simp
    moreover have "list_all2 (pulled C (pl_next_ack_id st')) (d # ds) ds'" using step IH p(3) pulled_same[of C "pl_next_ack_id st1" d d1 "pl_next_ack_id st'"] by simp
    moreover have "?n \<le> ?n2" "?n2 \<le> ?n + length (d # ds)" "pl_next_ack_id st \<le> pl_next_ack_id st'" "pl_next_ack_id st' \<le> pl_next_ack_id st + length (d # ds)"
      using step IH by simp_all
    ultimately show ?thesis by blast
  qed
qed simp

lemma pulled_ids: "list_all2 (pulled C n) ds ds' \<Longrightarrow> map del_message_id ds' = map del_message_id ds"
  by (induction rule: list_all2_induct) (auto simp: pulled_def weakened_def lease_record_def)

lemma list_all2_member: "list_all2 R xs ys \<Longrightarrow> y \<in> set ys \<Longrightarrow> \<exists>x \<in> set xs. R x y"
  by (induction rule: list_all2_induct) auto

lemma record_leased:
  assumes "record_ok n m d" "\<not> del_acked d" "a \<le> m"
  shows "record_ok n m (lease_record C a d)"
proof -
  have "\<exists>k \<le> m. del_ack_id (lease_record C a d) = del_message_id d @ ''-'' @ dec k" using assms(3) by (intro exI[of _ a]) (simp add: lease_record_def)
  moreover have "del_message_id (lease_record C a d) = del_message_id d" "del_acked (lease_record C a d) = del_acked d" by (simp_all add: lease_record_def)
  ultimately show ?thesis using assms(1,2) unfolding record_ok_def by metis
qed

lemma pulled_queue:
  assumes p: "list_all2 (pulled C (ps_next_ack_id s')) ds ds'" and q: "queue_ok s ds"
    and n: "ps_next_message_id s \<le> ps_next_message_id s'" "ps_next_ack_id s \<le> ps_next_ack_id s'"
    and m: "\<And>i. bt_contains (ps_messages s) i \<Longrightarrow> bt_contains (ps_messages s') i"
  shows "queue_ok s' ds'"
proof -
  have q': "queue_ok s' ds" using q n m by (rule queue_ok_mono)
  have "record_ok (ps_next_message_id s') (ps_next_ack_id s') d' \<and> (\<not> del_acked d' \<longrightarrow> bt_contains (ps_messages s') (del_message_id d'))"
    if d': "d' \<in> set ds'" for d'
  proof -
    obtain d where d: "d \<in> set ds" "pulled C (ps_next_ack_id s') d d'" using list_all2_member[OF p d'] by blast
    then have ok: "record_ok (ps_next_message_id s') (ps_next_ack_id s') d" "\<not> del_acked d \<Longrightarrow> bt_contains (ps_messages s') (del_message_id d)"
      using q' by (simp_all add: queue_ok_def)
    from d(2) show ?thesis unfolding pulled_def
    proof
      assume "weakened d d'"
      then show ?thesis using record_weakened[OF ok(1)] ok(2) by (auto simp: weakened_def)
    next
      assume "\<not> del_acked d \<and> (\<exists>a \<le> ps_next_ack_id s'. d' = lease_record C a d)"
      then obtain a where a: "\<not> del_acked d" "a \<le> ps_next_ack_id s'" "d' = lease_record C a d" by blast
      then show ?thesis using record_leased[OF ok(1) a(1,2)] ok(2) by (simp add: lease_record_def)
    qed
  qed
  then show ?thesis using q' pulled_ids[OF p] by (simp add: queue_ok_def)
qed

lemma dead_letters_ok:
  assumes "ps_ok s" "ids_upto c s" "map (msg_message_id \<circ> snd) dls = map dec [Suc c ..< Suc n]" "n \<le> ps_next_message_id s"
  defines "s' \<equiv> fold deliver_dead_letter dls s"
  shows "ps_ok s' \<and> ps_config s' = ps_config s \<and> ps_topics s' = ps_topics s \<and> ps_subscriptions s' = ps_subscriptions s \<and> ps_snapshots s' = ps_snapshots s
    \<and> ps_schemas s' = ps_schemas s \<and> ps_load_err s' = ps_load_err s \<and> ps_next_message_id s' = ps_next_message_id s \<and> ps_next_ack_id s' = ps_next_ack_id s
    \<and> (\<forall>i. bt_contains (ps_messages s) i \<longrightarrow> bt_contains (ps_messages s') i)"
  using assms(1-4) unfolding s'_def
proof (induction dls arbitrary: s c)
  case (Cons x dls)
  obtain t m where x: "x = (t, m)" by fastforce
  have "Suc c \<le> n" using Cons.prems(3) by (cases "Suc c \<le> n") auto
  then have u: "[Suc c ..< Suc n] = Suc c # [Suc (Suc c) ..< Suc n]" by (simp only: upt_conv_Cons)
  have m: "msg_message_id m = dec (Suc c)" and tl: "map (msg_message_id \<circ> snd) dls = map dec [Suc (Suc c) ..< Suc n]"
    using Cons.prems(3) x unfolding u by (simp_all del: upt_Suc add: comp_def)
  let ?ns = "map sub_name (filter (\<lambda>c. sub_topic c = t \<and> \<not> sub_detached c) (map snd (ps_subscriptions s)))"
  have "distinct ?ns" "\<forall>n \<in> set ?ns. bt_contains (ps_subscriptions s) n" using names_distinct[OF ok_named(2)[OF Cons.prems(1)]] by blast+
  then have s1: "ps_ok (deliver_dead_letter x s)" "ids_upto (Suc c) (deliver_dead_letter x s)"
    using arrival_ok[OF Cons.prems(1) _ _ Cons.prems(2) m, of ?ns] Cons.prems(4) \<open>Suc c \<le> n\<close>
    by (simp_all add: deliver_dead_letter_def x m)
  have "ps_next_message_id (deliver_dead_letter x s) = ps_next_message_id s" by (simp add: deliver_dead_letter_def x)
  with Cons.IH[OF s1 tl] Cons.prems(4) show ?case by (auto simp: deliver_dead_letter_def x bt_contains_insert)
qed simp

lemma pull_deliveries_ok:
  assumes ok: "ps_ok s" and sub: "map_of (ps_subscriptions s) name = Some sub"
    and room: "ps_next_message_id s + length (deliveries_of name s) < 2 ^ 64" "ps_next_ack_id s + length (deliveries_of name s) < 2 ^ 64"
    and p: "pull_deliveries E i name sub now mx s = (received, s')"
  shows "ps_ok s'" "ps_config s' = ps_config s" "ps_topics s' = ps_topics s" "ps_subscriptions s' = ps_subscriptions s" "ps_schemas s' = ps_schemas s"
    "ps_load_err s' = ps_load_err s"
proof -
  let ?ds = "deliveries_of name s"
  define C where "C = \<lparr>ctx_env = E, ctx_server = s, ctx_sub = sub, ctx_now = now, ctx_max = mx,
    ctx_ack_deadline = (if sub_ack_deadline_seconds sub > 0 then sub_ack_deadline_seconds sub else default_ack_deadline_cfg s)\<rparr>"
  define st where "st = \<lparr>pl_blocked = leased_keys s sub now ?ds, pl_received = [], pl_dead_lettered = [],
    pl_next_message_id = ps_next_message_id s, pl_next_ack_id = ps_next_ack_id s\<rparr>"
  obtain st' ds' where l: "pull_loop C i st ?ds = (st', ds')" by fastforce
  have st: "pl_next_message_id st = ps_next_message_id s" "pl_next_ack_id st = ps_next_ack_id s" "pl_dead_lettered st = []" by (simp_all add: st_def)
  note ids = pull_loop_ids[OF l, unfolded st, OF room]
  let ?s1 = "s\<lparr>ps_next_message_id := pl_next_message_id st', ps_next_ack_id := pl_next_ack_id st'\<rparr>"
  let ?s2 = "fold deliver_dead_letter (pl_dead_lettered st') ?s1"
  have s1: "ps_ok ?s1" "ids_upto (ps_next_message_id s) ?s1"
    using counters_ok[OF ok, of "pl_next_message_id st'" "pl_next_ack_id st'"] ids room ids_upto_next[OF ok] by (simp_all add: ids_upto_def)
  have dl: "map (msg_message_id \<circ> snd) (pl_dead_lettered st') = map dec [Suc (ps_next_message_id s) ..< Suc (pl_next_message_id st')]" using ids by auto
  note s2 = dead_letters_ok[OF s1 dl]
  have "queue_ok ?s2 ds'"
    using ids s2 by (intro pulled_queue[where s = s and C = C, OF _ queue_ok_of[OF ok, of name]]) simp_all
  then have "ps_ok (?s2\<lparr>ps_deliveries := bt_insert name (compact_acked (sub_retain_acked_messages sub) ds') (ps_deliveries ?s2), messages_dirty := True\<rparr>)"
    using s2 sub by (intro deliveries_replaced queue_ok_compact) (simp_all add: bt_contains_def)
  moreover have "s' = ?s2\<lparr>ps_deliveries := bt_insert name (compact_acked (sub_retain_acked_messages sub) ds') (ps_deliveries ?s2), messages_dirty := True\<rparr>"
    using p by (simp add: pull_deliveries_def Let_def l flip: C_def st_def)
  ultimately show "ps_ok s'" "ps_config s' = ps_config s" "ps_topics s' = ps_topics s" "ps_subscriptions s' = ps_subscriptions s"
    "ps_schemas s' = ps_schemas s" "ps_load_err s' = ps_load_err s" using s2 by simp_all
qed

text \<open>The server a pull works on, after the clean-up and the end of leases: its backlog is part of the one before, with leases ended.\<close>

definition swept :: "ps_env \<Rightarrow> ps_server \<Rightarrow> ps_server" where
  "swept E s = expire_leases (fst (now_parts E 0)) (cleanup_retained_messages E (fst (now_parts E 0)) s)"

lemma map_of_values: "map_of (map (\<lambda>(n, v). (n, f n v)) m) n = map_option (f n) (map_of m n)"
  by (induction m) auto

lemma expired_deliveries: "deliveries_of n (expire_leases now s) = map (expire_record s n now) (deliveries_of n s)"
  by (simp add: deliveries_of_def expire_leases_def map_of_values split: option.split)

lemma retained_deliveries:
  assumes "bt_ok (ps_deliveries s)"
  shows "deliveries_of n (retain_deliveries now s) =
    filter (within_retention s (now - subscription_message_retention_nanos s n)) (deliveries_of n s)"
proof -
  define kept where "kept = map (\<lambda>(n, ds). (n, filter (within_retention s (now - subscription_message_retention_nanos s n)) ds)) (ps_deliveries s)"
  have ok: "bt_ok kept" using assms by (simp add: kept_def)
  have get: "map_of kept n = map_option (filter (within_retention s (now - subscription_message_retention_nanos s n))) (map_of (ps_deliveries s) n)"
    by (simp add: kept_def map_of_values)
  have "map_of (filter (\<lambda>(_, ds). ds \<noteq> []) kept) n = (case map_of kept n of Some ds \<Rightarrow> if ds = [] then None else Some ds | None \<Rightarrow> None)"
  proof (cases "map_of (filter (\<lambda>(_, ds). ds \<noteq> []) kept) n")
    case None
    then have "(n, ds) \<in> set kept \<Longrightarrow> ds = []" for ds by (force simp: map_of_eq_None_iff)
    then show ?thesis using None by (auto dest: map_of_SomeD split: option.splits)
  next
    case (Some ds)
    then have "(n, ds) \<in> set kept" "ds \<noteq> []" by (auto dest!: map_of_SomeD)
    then show ?thesis using Some bt_in_set_iff[OF ok] by auto
  qed
  then show ?thesis by (auto simp: deliveries_of_def retain_deliveries_def Let_def get simp flip: kept_def split: option.splits)
qed

lemma cleanup_deliveries:
  assumes "bt_ok (ps_deliveries s)"
  shows "\<exists>P. deliveries_of n (cleanup_retained_messages E now s) = filter P (deliveries_of n s)"
proof -
  let ?s = "cleanup_expired_snapshots E s"
  have d: "ps_deliveries ?s = ps_deliveries s" by (simp add: cleanup_expired_snapshots_def Let_def)
  have unref: "deliveries_of n (cleanup_unreferenced_messages (retain_snapshots t u)) = deliveries_of n u" for t u
    by (simp add: deliveries_of_def cleanup_unreferenced_messages_def retain_snapshots_def Let_def)
  show ?thesis
  proof (cases "pc_message_retention_seconds (ps_config ?s) \<le> 0 \<or> ps_messages ?s = []")
    case True
    then have "deliveries_of n (cleanup_retained_messages E now s) = filter (\<lambda>_. True) (deliveries_of n s)"
      using d unfolding cleanup_retained_messages_def Let_def deliveries_of_def by simp
    then show ?thesis by blast
  next
    case False
    let ?r = "retain_deliveries (now * 10 ^ 9) ?s"
    have "cleanup_retained_messages E now s = cleanup_unreferenced_messages (retain_snapshots (now * 10 ^ 9) ?r)"
      unfolding cleanup_retained_messages_def Let_def by (rule if_not_P[OF False])
    then have "deliveries_of n (cleanup_retained_messages E now s) = deliveries_of n ?r" by (simp only: unref)
    also have "\<dots> = filter (within_retention ?s (now * 10 ^ 9 - subscription_message_retention_nanos ?s n)) (deliveries_of n ?s)"
      by (rule retained_deliveries) (simp only: d assms)
    also have "deliveries_of n ?s = deliveries_of n s" by (simp only: deliveries_of_def d)
    finally show ?thesis by blast
  qed
qed

lemma expired_same:
  "ps_config (cleanup_expired_snapshots E s) = ps_config s"
  "ps_topics (cleanup_expired_snapshots E s) = ps_topics s"
  "ps_subscriptions (cleanup_expired_snapshots E s) = ps_subscriptions s"
  "ps_schemas (cleanup_expired_snapshots E s) = ps_schemas s"
  "ps_load_err (cleanup_expired_snapshots E s) = ps_load_err s"
  "ps_next_message_id (cleanup_expired_snapshots E s) = ps_next_message_id s"
  "ps_next_ack_id (cleanup_expired_snapshots E s) = ps_next_ack_id s"
  by (simp_all add: cleanup_expired_snapshots_def Let_def)

lemma retained_same:
  "ps_config (retain_deliveries now s) = ps_config s"
  "ps_topics (retain_deliveries now s) = ps_topics s"
  "ps_subscriptions (retain_deliveries now s) = ps_subscriptions s"
  "ps_schemas (retain_deliveries now s) = ps_schemas s"
  "ps_load_err (retain_deliveries now s) = ps_load_err s"
  "ps_next_message_id (retain_deliveries now s) = ps_next_message_id s"
  "ps_next_ack_id (retain_deliveries now s) = ps_next_ack_id s"
  by (simp_all add: retain_deliveries_def Let_def)

lemma retained_snapshots_same:
  "ps_config (retain_snapshots now s) = ps_config s"
  "ps_topics (retain_snapshots now s) = ps_topics s"
  "ps_subscriptions (retain_snapshots now s) = ps_subscriptions s"
  "ps_schemas (retain_snapshots now s) = ps_schemas s"
  "ps_load_err (retain_snapshots now s) = ps_load_err s"
  "ps_next_message_id (retain_snapshots now s) = ps_next_message_id s"
  "ps_next_ack_id (retain_snapshots now s) = ps_next_ack_id s"
  by (simp_all add: retain_snapshots_def Let_def)

lemma unreferenced_same:
  "ps_config (cleanup_unreferenced_messages s) = ps_config s"
  "ps_topics (cleanup_unreferenced_messages s) = ps_topics s"
  "ps_subscriptions (cleanup_unreferenced_messages s) = ps_subscriptions s"
  "ps_schemas (cleanup_unreferenced_messages s) = ps_schemas s"
  "ps_load_err (cleanup_unreferenced_messages s) = ps_load_err s"
  "ps_next_message_id (cleanup_unreferenced_messages s) = ps_next_message_id s"
  "ps_next_ack_id (cleanup_unreferenced_messages s) = ps_next_ack_id s"
  by (simp_all add: cleanup_unreferenced_messages_def Let_def)

lemma cleanup_same:
  "ps_config (cleanup_retained_messages E now s) = ps_config s"
  "ps_topics (cleanup_retained_messages E now s) = ps_topics s"
  "ps_subscriptions (cleanup_retained_messages E now s) = ps_subscriptions s"
  "ps_schemas (cleanup_retained_messages E now s) = ps_schemas s"
  "ps_load_err (cleanup_retained_messages E now s) = ps_load_err s"
  "ps_next_message_id (cleanup_retained_messages E now s) = ps_next_message_id s"
  "ps_next_ack_id (cleanup_retained_messages E now s) = ps_next_ack_id s"
  by (simp_all add: cleanup_retained_messages_def Let_def expired_same retained_same retained_snapshots_same unreferenced_same)

lemma swept_same:
  "ps_config (swept E s) = ps_config s" "ps_topics (swept E s) = ps_topics s" "ps_subscriptions (swept E s) = ps_subscriptions s"
  "ps_schemas (swept E s) = ps_schemas s" "ps_load_err (swept E s) = ps_load_err s" "ps_next_message_id (swept E s) = ps_next_message_id s"
  "ps_next_ack_id (swept E s) = ps_next_ack_id s"
  by (simp_all add: swept_def expire_leases_def cleanup_same)

lemma swept_ok: "ps_ok s \<Longrightarrow> ps_ok (swept E s)"
  by (simp add: swept_def expire_leases_ok cleanup_retained_ok)

lemma swept_length:
  assumes "ps_ok s"
  shows "length (deliveries_of n (swept E s)) \<le> length (deliveries_of n s)"
proof -
  obtain P where "deliveries_of n (cleanup_retained_messages E (fst (now_parts E 0)) s) = filter P (deliveries_of n s)"
    using cleanup_deliveries[OF ok_maps(6)[OF assms]] by blast
  then show ?thesis by (simp add: swept_def expired_deliveries)
qed

definition id_room :: "nat \<Rightarrow> ps_server \<Rightarrow> bool" where
  "id_room k s \<longleftrightarrow> ps_next_message_id s + k < 2 ^ 64 \<and> ps_next_ack_id s + k < 2 ^ 64"

lemma pull_keeps:
  assumes ok: "ps_ok s" and room: "id_room (length (deliveries_of (subscription_name p i) s)) s"
  shows "keeps s (pull E p i n s)"
proof -
  let ?n = "subscription_name p i"
  have "keeps s (commit E s1 (\<lambda>s'. s'\<lparr>ps_messages := ps_messages s, ps_deliveries := ps_deliveries s, ps_snapshots := ps_snapshots s,
      ps_next_message_id := ps_next_message_id s, ps_next_ack_id := ps_next_ack_id s\<rparr>) a)"
    if sub: "map_of (ps_subscriptions s) ?n = Some sub" and p: "pull_deliveries E k ?n sub (fst (now_parts E 0)) mx (swept E s) = (rs, s1)" for sub k mx rs s1 a
  proof -
    have r: "ps_next_message_id (swept E s) + length (deliveries_of ?n (swept E s)) < 2 ^ 64" "ps_next_ack_id (swept E s) + length (deliveries_of ?n (swept E s)) < 2 ^ 64"
      using room swept_length[OF ok, of ?n E] by (simp_all add: id_room_def swept_same)
    note s1 = pull_deliveries_ok[OF swept_ok[OF ok] _ r p]
    then show ?thesis using sub by (intro keeps_commit) (auto simp: swept_same intact_def intact_same_messages)
  qed
  then show ?thesis unfolding pull_def Let_def
    by (intro keeps_checked) (auto simp flip: swept_def split: option.split prod.split)
qed

end
