(* ===== verification/Pubsub_Api.thy ===== *)
theory Pubsub_Api
  imports Pubsub_Messages
begin

text \<open>
  The REST operations of the Pub/Sub server as the steps of a machine, and what holds of its deliveries.
\<close>

section \<open>Operations\<close>

datatype ps_op =
    Create_topic string string topic
  | Get_topic string string
  | Patch_topic string string topic "string list"
  | Delete_topic string string
  | List_topics string int int
  | List_topic_subscriptions string string int int
  | List_topic_snapshots string string int int
  | Create_subscription string string subscription
  | Get_subscription string string
  | Patch_subscription string string subscription "string list"
  | Delete_subscription string string
  | List_subscriptions string int int
  | Modify_push_config string string "json option"
  | Detach_subscription string string
  | Create_snapshot string string string
  | Get_snapshot string string
  | Delete_snapshot string string
  | List_snapshots string int int
  | Create_schema string string schema
  | Get_schema string string string
  | Delete_schema string string
  | List_schemas string string int int
  | Validate_message string json
  | Topic_iam string string string json
  | Subscription_iam string string string json
  | Publish string string "json list"
  | Pull string string int
  | Acknowledge string string "string list"
  | Modify_ack_deadline string string "string list" int
  | Seek string string string string

fun ps_exec :: "ps_crates \<Rightarrow> ps_env \<Rightarrow> ps_op \<Rightarrow> ps_server \<Rightarrow> ps_result" where
  "ps_exec X E (Create_topic p i t) s = create_topic E p i t s"
| "ps_exec X E (Get_topic p i) s = get_topic p i s"
| "ps_exec X E (Patch_topic p i t us) s = patch_topic E p i t us s"
| "ps_exec X E (Delete_topic p i) s = delete_topic E p i s"
| "ps_exec X E (List_topics p n k) s = list_topics p n k s"
| "ps_exec X E (List_topic_subscriptions p i n k) s = list_topic_subscriptions p i n k s"
| "ps_exec X E (List_topic_snapshots p i n k) s = list_topic_snapshots p i n k s"
| "ps_exec X E (Create_subscription p i r) s = create_subscription E p i r s"
| "ps_exec X E (Get_subscription p i) s = get_subscription p i s"
| "ps_exec X E (Patch_subscription p i r us) s = patch_subscription E p i r us s"
| "ps_exec X E (Delete_subscription p i) s = delete_subscription E p i s"
| "ps_exec X E (List_subscriptions p n k) s = list_subscriptions p n k s"
| "ps_exec X E (Modify_push_config p i c) s = modify_push_config E p i c s"
| "ps_exec X E (Detach_subscription p i) s = detach_subscription E p i s"
| "ps_exec X E (Create_snapshot p i sub) s = create_snapshot E p i sub s"
| "ps_exec X E (Get_snapshot p i) s = get_snapshot E p i s"
| "ps_exec X E (Delete_snapshot p i) s = delete_snapshot E p i s"
| "ps_exec X E (List_snapshots p n k) s = list_snapshots E p n k s"
| "ps_exec X E (Create_schema p i r) s = create_schema X E p i r s"
| "ps_exec X E (Get_schema p i v) s = get_schema p i v s"
| "ps_exec X E (Delete_schema p i) s = delete_schema E p i s"
| "ps_exec X E (List_schemas p v n k) s = list_schemas p v n k s"
| "ps_exec X E (Validate_message p b) s = validate_message X p b s"
| "ps_exec X E (Topic_iam p i a b) s = topic_iam p i a b s"
| "ps_exec X E (Subscription_iam p i a b) s = subscription_iam p i a b s"
| "ps_exec X E (Publish p i ms) s = publish X E p i ms s"
| "ps_exec X E (Pull p i n) s = pull E p i n s"
| "ps_exec X E (Acknowledge p i ids) s = acknowledge E p i ids s"
| "ps_exec X E (Modify_ack_deadline p i ids n) s = modify_ack_deadline E p i ids n s"
| "ps_exec X E (Seek p i snap t) s = seek E p i snap t s"

text \<open>How many ids an operation may give out.\<close>

fun ids_needed :: "ps_op \<Rightarrow> ps_server \<Rightarrow> nat" where
  "ids_needed (Publish _ _ ms) s = length ms"
| "ids_needed (Pull p i _) s = length (deliveries_of (subscription_name p i) s)"
| "ids_needed _ s = 0"

text \<open>The states of a server that was started without files, while its counters have not used up 64 bits.\<close>

inductive ps_reachable :: "ps_crates \<Rightarrow> ps_config \<Rightarrow> ps_server \<Rightarrow> bool" for X cfg where
  ps_start: "ps_reachable X cfg (ps_new cfg Missing Missing)"
| ps_step: "ps_reachable X cfg s \<Longrightarrow> id_room (ids_needed op s) s \<Longrightarrow> ps_reachable X cfg (snd (ps_exec X E op s))"

section \<open>The invariant\<close>

lemma reads_keep:
  "ps_ok s \<Longrightarrow> keeps s (get_topic p i s)" "ps_ok s \<Longrightarrow> keeps s (list_topics p n k s)" "ps_ok s \<Longrightarrow> keeps s (list_topic_subscriptions p i n k s)"
  "ps_ok s \<Longrightarrow> keeps s (list_topic_snapshots p i n k s)" "ps_ok s \<Longrightarrow> keeps s (get_subscription p i s)" "ps_ok s \<Longrightarrow> keeps s (list_subscriptions p n k s)"
  "ps_ok s \<Longrightarrow> keeps s (get_snapshot E p i s)" "ps_ok s \<Longrightarrow> keeps s (list_snapshots E p n k s)" "ps_ok s \<Longrightarrow> keeps s (get_schema p i v s)"
  "ps_ok s \<Longrightarrow> keeps s (list_schemas p v n k s)" "ps_ok s \<Longrightarrow> keeps s (topic_iam p i a b s)" "ps_ok s \<Longrightarrow> keeps s (subscription_iam p i a b s)"
  by (auto simp: get_topic_def list_topics_def list_topic_subscriptions_def list_topic_snapshots_def list_topic_names_def get_subscription_def
      list_subscriptions_def get_snapshot_def list_snapshots_def get_schema_def list_schemas_def topic_iam_def subscription_iam_def Let_def
      split: option.split prod.split intro!: keeps_checked)

lemma validate_message_keeps: "ps_ok s \<Longrightarrow> keeps s (validate_message X p b s)"
  unfolding validate_message_def Let_def by (rule keeps_checked) (auto intro!: keeps_checked)

lemma exec_keeps:
  assumes ok: "ps_ok s" and room: "id_room (ids_needed op s) s"
  shows "keeps s (ps_exec X E op s)"
proof (cases op)
  case (Publish p i ms)
  then show ?thesis using publish_keeps[OF ok] room by (simp add: id_room_def)
next
  case (Pull p i n)
  then show ?thesis using pull_keeps[OF ok] room by simp
qed (simp_all add: ok reads_keep validate_message_keeps create_topic_keeps patch_topic_keeps delete_topic_keeps create_subscription_keeps
    patch_subscription_keeps delete_subscription_keeps modify_push_config_keeps detach_subscription_keeps create_snapshot_keeps
    delete_snapshot_keeps create_schema_keeps delete_schema_keeps acknowledge_def modify_ack_deadline_def update_ack_deadlines_keeps seek_keeps)

lemma new_ok: "ps_ok (ps_new cfg Missing Missing)"
  by (simp add: ps_new_def ps_blank_def ps_load_def load_message_file_def ps_ok_def named_def file_content_def Let_def)

section \<open>What a pull returns\<close>

definition received_of :: "ps_answer \<Rightarrow> ps_received_message list" where
  "received_of a = (case a of A_received rs \<Rightarrow> rs | _ \<Rightarrow> [])"

definition pull_limit :: "int \<Rightarrow> ps_server \<Rightarrow> int" where
  "pull_limit n s = min (if n \<le> 0 then 1 else n) (max_pull_messages s)"

lemma pull_Inr:
  assumes "pull E p i n s = (Inr a, s')" "map_of (ps_subscriptions s) (subscription_name p i) = Some sub"
  obtains s1 where "ps_persist E s1 = (Inr (), s')"
    "pull_deliveries E (Suc (length (ps_snapshots s))) (subscription_name p i) sub (fst (now_parts E 0)) (pull_limit n s) (swept E s) = (received_of a, s1)"
  using assms
  by (auto simp: pull_def Let_def checked_Inr pull_limit_def received_of_def split: if_splits prod.splits dest!: commit_Inr simp flip: swept_def)

lemma pull_deliveries_loop:
  assumes "pull_deliveries E k name sub now mx s = (rs, s1)"
  obtains C st st' ds' where "ctx_server C = s" "ctx_sub C = sub" "ctx_now C = now" "ctx_max C = mx"
    "ctx_ack_deadline C = (if sub_ack_deadline_seconds sub > 0 then sub_ack_deadline_seconds sub else default_ack_deadline_cfg s)"
    "pl_received st = []" "pl_blocked st = leased_keys s sub now (deliveries_of name s)"
    "pull_loop C k st (deliveries_of name s) = (st', ds')" "rs = pl_received st'"
    "deliveries_of name s1 = compact_acked (sub_retain_acked_messages sub) ds'"
proof -
  let ?C = "\<lparr>ctx_env = E, ctx_server = s, ctx_sub = sub, ctx_now = now, ctx_max = mx,
    ctx_ack_deadline = (if sub_ack_deadline_seconds sub > 0 then sub_ack_deadline_seconds sub else default_ack_deadline_cfg s)\<rparr>"
  let ?st = "\<lparr>pl_blocked = leased_keys s sub now (deliveries_of name s), pl_received = [], pl_dead_lettered = [],
    pl_next_message_id = ps_next_message_id s, pl_next_ack_id = ps_next_ack_id s\<rparr>"
  obtain st' ds' where l: "pull_loop ?C k ?st (deliveries_of name s) = (st', ds')" by fastforce
  show thesis
    by (rule that[OF _ _ _ _ _ _ _ l]) (use assms l in \<open>auto simp: pull_deliveries_def Let_def deliveries_of_def bt_get_insert\<close>)
qed

lemma pull_limit_pos: "1 \<le> pull_limit n s"
  by (simp add: pull_limit_def max_pull_messages_def)

lemma swept_limit: "pull_limit n (swept E s) = pull_limit n s"
  by (simp add: pull_limit_def max_pull_messages_def swept_same)

text \<open>A message of a subscription that is acknowledged there, or out on a lease that holds at time \<open>t\<close>.\<close>

definition settled :: "ps_server \<Rightarrow> string \<Rightarrow> int \<Rightarrow> string \<Rightarrow> bool" where
  "settled s name t i \<longleftrightarrow> (\<forall>d \<in> set (deliveries_of name s). del_message_id d = i \<longrightarrow> del_acked d \<or> after_secs (del_lease_deadline d) t)"

lemma settled_swept:
  assumes ok: "ps_ok s" and st: "settled s name (fst (now_parts E 0)) i"
  shows "settled (swept E s) name (fst (now_parts E 0)) i"
proof -
  obtain P where "deliveries_of name (cleanup_retained_messages E (fst (now_parts E 0)) s) = filter P (deliveries_of name s)"
    using cleanup_deliveries[OF ok_maps(6)[OF ok]] by blast
  then show ?thesis using st by (auto simp: settled_def swept_def expired_deliveries expire_record_def lease_expired_def Let_def)
qed

lemma settled_not_pulled:
  assumes ok: "ps_ok s" and st: "settled s (subscription_name p i) (fst (now_parts E 0)) m"
    and p: "pull E p i n s = (Inr a, s')" and r: "r \<in> set (received_of a)"
  shows "msg_message_id (rcv_message r) \<noteq> m"
proof -
  obtain sub where sub: "map_of (ps_subscriptions s) (subscription_name p i) = Some sub"
    using p by (auto simp: pull_def Let_def checked_Inr split: option.splits)
  obtain s1 where "pull_deliveries E (Suc (length (ps_snapshots s))) (subscription_name p i) sub (fst (now_parts E 0)) (pull_limit n s) (swept E s)
      = (received_of a, s1)" using pull_Inr[OF p sub] by blast
  then obtain C st st' ds' where C: "ctx_server C = swept E s" "ctx_now C = fst (now_parts E 0)" "pl_received st = []"
    "pull_loop C (Suc (length (ps_snapshots s))) st (deliveries_of (subscription_name p i) (swept E s)) = (st', ds')" "received_of a = pl_received st'"
    by (rule pull_deliveries_loop)
  then obtain d where d: "d \<in> set (deliveries_of (subscription_name p i) (swept E s))" "deliverable (swept E s) (ctx_sub C) (fst (now_parts E 0)) d"
      "rcv_message r = message_for (swept E s) d"
    using pull_loop_received[OF C(4)] r by (fastforce simp: answer_for_def)
  then have "msg_message_id (rcv_message r) = del_message_id d"
    using ok_names(4)[OF swept_ok[OF ok]] by (auto simp: deliverable_def message_for_def)
  moreover have "del_message_id d \<noteq> m" using settled_swept[OF ok st] d(1,2) by (auto simp: settled_def deliverable_def)
  ultimately show ?thesis by simp
qed

section \<open>Deliveries over time\<close>

text \<open>Of a subscription: records with ids given out before come from records before, and stay acknowledged.\<close>

definition carries :: "string \<Rightarrow> ps_server \<Rightarrow> ps_server \<Rightarrow> bool" where
  "carries n s s' \<longleftrightarrow> ps_next_message_id s \<le> ps_next_message_id s' \<and>
     (\<forall>d' \<in> set (deliveries_of n s'). issued_id (ps_next_message_id s) (del_message_id d') \<longrightarrow>
        (\<exists>d \<in> set (deliveries_of n s). del_message_id d = del_message_id d' \<and> (del_acked d \<longrightarrow> del_acked d')))"

definition moves :: "string \<Rightarrow> ps_server \<Rightarrow> ps_result \<Rightarrow> bool" where
  "moves n s r \<longleftrightarrow> (\<forall>a s'. r = (Inr a, s') \<longrightarrow> carries n s s')"

lemma carries_same: "ps_next_message_id s' = ps_next_message_id s \<Longrightarrow> set (deliveries_of n s') \<subseteq> set (deliveries_of n s) \<Longrightarrow> carries n s s'"
  by (auto simp: carries_def)

lemma carries_same_map: "ps_next_message_id s' = ps_next_message_id s \<Longrightarrow> ps_deliveries s' = ps_deliveries s \<Longrightarrow> carries n s s'"
  by (rule carries_same) (simp_all add: deliveries_of_def)

lemma carries_trans:
  assumes a: "carries n s s'" and b: "carries n s' s''"
  shows "carries n s s''"
  unfolding carries_def
proof (intro conjI ballI impI)
  show "ps_next_message_id s \<le> ps_next_message_id s''" using a b unfolding carries_def by linarith
  fix d'' assume d'': "d'' \<in> set (deliveries_of n s'')" "issued_id (ps_next_message_id s) (del_message_id d'')"
  then have "issued_id (ps_next_message_id s') (del_message_id d'')" using a issued_mono unfolding carries_def by blast
  then obtain d' where d': "d' \<in> set (deliveries_of n s')" "del_message_id d' = del_message_id d''" "del_acked d' \<longrightarrow> del_acked d''"
    using b d''(1) unfolding carries_def by blast
  then obtain d where "d \<in> set (deliveries_of n s)" "del_message_id d = del_message_id d'" "del_acked d \<longrightarrow> del_acked d'"
    using a d''(2) unfolding carries_def by metis
  then show "\<exists>d \<in> set (deliveries_of n s). del_message_id d = del_message_id d'' \<and> (del_acked d \<longrightarrow> del_acked d'')" using d' by auto
qed

lemma carries_map:
  "ps_next_message_id s' = ps_next_message_id s \<Longrightarrow> deliveries_of n s' = map f (deliveries_of n s) \<Longrightarrow> (\<And>d. weakened d (f d)) \<Longrightarrow> carries n s s'"
  unfolding carries_def weakened_def by fastforce

lemma carries_intact: "intact s s' \<Longrightarrow> carries n s s'"
  by (rule carries_same_map) (simp_all add: intact_def)

lemma moves_commit: "carries n s s1 \<Longrightarrow> moves n s (commit E s1 undo a)"
  using carries_trans[OF _ carries_intact[OF intact_persist]] by (auto simp: moves_def dest!: commit_Inr)

lemma moves_checked: "moves n s body \<Longrightarrow> moves n s (checked cs s body)"
  by (simp add: moves_def checked_Inr)

lemma moves_fail [simp]: "moves n s (Inl e, s')"
  by (simp add: moves_def)

lemma moves_read [simp]: "moves n s (r, s)"
  by (simp add: moves_def carries_same_map)

lemmas moves_intros = moves_checked moves_commit carries_same_map

lemma topic_moves:
  "moves n s (create_topic E p i t s)" "moves n s (get_topic p i s)" "moves n s (patch_topic E p i t us s)" "moves n s (delete_topic E p i s)"
  "moves n s (list_topics p k l s)" "moves n s (list_topic_subscriptions p i k l s)" "moves n s (list_topic_snapshots p i k l s)"
  "moves n s (topic_iam p i act b s)"
  by (auto simp: create_topic_def get_topic_def patch_topic_def delete_topic_def list_topics_def list_topic_subscriptions_def
      list_topic_snapshots_def list_topic_names_def topic_iam_def Let_def split: option.split prod.split intro!: moves_intros)

lemma schema_moves:
  "moves n s (create_schema X E p i r s)" "moves n s (get_schema p i v s)" "moves n s (delete_schema E p i s)" "moves n s (list_schemas p v k l s)"
  by (auto simp: create_schema_def get_schema_def delete_schema_def list_schemas_def Let_def split: option.split prod.split intro!: moves_intros)

lemma validate_moves: "moves n s (validate_message X p b s)"
  unfolding validate_message_def Let_def by (rule moves_checked) (auto intro!: moves_checked)

lemma subscription_moves:
  "moves n s (create_subscription E p i r s)" "moves n s (get_subscription p i s)" "moves n s (list_subscriptions p k l s)"
  "moves n s (modify_push_config E p i c s)" "moves n s (detach_subscription E p i s)" "moves n s (subscription_iam p i act b s)"
  by (auto simp: create_subscription_def get_subscription_def list_subscriptions_def modify_push_config_def detach_subscription_def
      subscription_iam_def Let_def split: option.split prod.split intro!: moves_intros)

lemma patch_subscription_moves: "moves n s (patch_subscription E p i r us s)"
  unfolding patch_subscription_def Let_def by (rule moves_checked) (simp add: moves_intros split: option.split)

lemma delete_subscription_moves: "moves n s (delete_subscription E p i s)"
  unfolding delete_subscription_def Let_def
  by (rule moves_checked) (auto simp: deliveries_of_def bt_get_remove split: option.splits if_splits intro!: moves_commit carries_same)

lemma snapshot_moves:
  "moves n s (create_snapshot E p i sub s)" "moves n s (get_snapshot E p i s)" "moves n s (delete_snapshot E p i s)" "moves n s (list_snapshots E p k l s)"
  by (auto simp: create_snapshot_def get_snapshot_def delete_snapshot_def list_snapshots_def Let_def
      split: option.split prod.split intro!: moves_intros)

lemma expire_carries: "carries n s (expire_leases now s)"
  by (rule carries_map[OF _ expired_deliveries expire_weakened]) (simp add: expire_leases_def)

lemma deliveries_of_insert: "deliveries_of n (s\<lparr>ps_deliveries := bt_insert m ds (ps_deliveries s), messages_dirty := b\<rparr>) = (if n = m then ds else deliveries_of n s)"
  by (simp add: deliveries_of_def bt_get_insert)

lemma update_ack_moves: "moves n s (update_ack_deadlines E p i ids deadline s)"
proof -
  let ?s = "expire_leases (fst (now_parts E 0)) s" and ?m = "subscription_name p i"
  have "carries n ?s (?s\<lparr>ps_deliveries := bt_insert ?m (compact_acked r (map (update_record dl ids now) (deliveries_of ?m ?s))) (ps_deliveries ?s), messages_dirty := True\<rparr>)" for r now dl
    unfolding carries_def deliveries_of_insert compact_acked_def using update_weakened[unfolded weakened_def] by (fastforce split: if_splits)
  note c = carries_trans[OF expire_carries this]
  show ?thesis unfolding update_ack_deadlines_def Let_def
    by (rule moves_checked) (auto split: option.split intro!: moves_checked moves_commit c)
qed

lemma seek_moves: "n \<noteq> subscription_name p i \<Longrightarrow> moves n s (seek E p i snap t s)"
proof -
  assume n: "n \<noteq> subscription_name p i"
  then have "moves n s (replace_deliveries E (subscription_name p i) ds s)" for ds
    unfolding replace_deliveries_def by (intro moves_commit carries_same) (simp_all add: deliveries_of_insert)
  then show ?thesis unfolding seek_def Let_def by (rule_tac moves_checked) (auto split: option.split)
qed

text \<open>Publishing and dead letters bring new ids only.\<close>

lemma push_carries:
  assumes k: "ps_next_message_id s < k" and s': "ps_next_message_id s \<le> ps_next_message_id s'"
    and d: "ps_deliveries s' = fold (push_delivery (dec k)) ns (ps_deliveries s1)" and c: "\<forall>d' \<in> set (deliveries_of n s1).
      issued_id (ps_next_message_id s) (del_message_id d') \<longrightarrow> (\<exists>d \<in> set (deliveries_of n s). del_message_id d = del_message_id d' \<and> (del_acked d \<longrightarrow> del_acked d'))"
  shows "carries n s s'"
proof -
  have "\<not> issued_id (ps_next_message_id s) (dec k)" using k by (simp add: issued_dec)
  moreover have "set (case map_of (fold (push_delivery (dec k)) ns m) n of Some ds \<Rightarrow> ds | None \<Rightarrow> [])
      \<subseteq> insert (new_delivery (dec k)) (set (case map_of m n of Some ds \<Rightarrow> ds | None \<Rightarrow> []))" for m
    by (induction ns arbitrary: m) (force simp: push_delivery_def bt_get_insert split: if_splits option.splits)+
  then have "set (deliveries_of n s') \<subseteq> insert (new_delivery (dec k)) (set (deliveries_of n s1))" by (simp add: deliveries_of_def d)
  ultimately show ?thesis using s' c unfolding carries_def by (auto simp: new_delivery_def)
qed

lemma publish_one_carries:
  assumes "ps_next_message_id s + 1 < 2 ^ 64"
  shows "carries n s (snd (publish_one name now m (ids, s)))"
  using assms by (intro push_carries[where s = s and ?s1.0 = s and k = "Suc (ps_next_message_id s)"])
    (auto simp: publish_one_def Let_def bump_id)

lemma publish_all_carries:
  "ps_ok s \<Longrightarrow> ps_next_message_id s + length ms < 2 ^ 64 \<Longrightarrow> carries n s (snd (fold (publish_one name now) ms (ids, s)))"
proof (induction ms arbitrary: ids s)
  case (Cons m ms)
  obtain ids' s' where p: "publish_one name now m (ids, s) = (ids', s')" by fastforce
  have "ps_ok s'" "ps_next_message_id s' = Suc (ps_next_message_id s)" "carries n s s'"
    using publish_one_ok[OF Cons.prems(1), of name now m ids] publish_one_carries[of s n name now m ids] Cons.prems(2) p by simp_all
  then show ?case using Cons.IH[of s' ids'] Cons.prems(2) p carries_trans by simp
qed (simp add: carries_same_map)

lemma publish_moves:
  assumes "ps_ok s" "ps_next_message_id s + length ms < 2 ^ 64"
  shows "moves n s (publish X E p i ms s)"
proof -
  obtain ids s1 where f: "fold (publish_one (topic_name p i) (ps_now E 0)) ms ([], s) = (ids, s1)" by fastforce
  have "carries n s (s1\<lparr>messages_dirty := True\<rparr>)"
    using publish_all_carries[OF assms, of n "topic_name p i" "ps_now E 0" "[]"] f carries_trans[OF _ carries_same_map] by simp
  then show ?thesis unfolding publish_def Let_def f
    by (rule_tac moves_checked) (auto split: option.split intro!: moves_checked moves_commit)
qed

lemma dead_letters_carry:
  assumes "\<forall>x \<in> set dls. \<exists>k > ps_next_message_id s. msg_message_id (snd x) = dec k" "carries n s s1"
  shows "carries n s (fold deliver_dead_letter dls s1)"
  using assms
proof (induction dls arbitrary: s1)
  case (Cons x dls)
  obtain t m where x: "x = (t, m)" by fastforce
  obtain k where k: "ps_next_message_id s < k" "msg_message_id m = dec k" using Cons.prems(1) x by auto
  have "carries n s (deliver_dead_letter x s1)"
    using Cons.prems(2) by (intro push_carries[OF k(1), where ?s1.0 = s1]) (auto simp: deliver_dead_letter_def x k(2) carries_def)
  then show ?case using Cons.IH Cons.prems(1) by simp
qed simp

lemma pull_deliveries_carries:
  assumes room: "ps_next_message_id s + length (deliveries_of name s) < 2 ^ 64" "ps_next_ack_id s + length (deliveries_of name s) < 2 ^ 64"
    and p: "pull_deliveries E i name sub now mx s = (received, s')"
  shows "carries n s s'"
proof -
  define C where "C = \<lparr>ctx_env = E, ctx_server = s, ctx_sub = sub, ctx_now = now, ctx_max = mx,
    ctx_ack_deadline = (if sub_ack_deadline_seconds sub > 0 then sub_ack_deadline_seconds sub else default_ack_deadline_cfg s)\<rparr>"
  define st where "st = \<lparr>pl_blocked = leased_keys s sub now (deliveries_of name s), pl_received = [], pl_dead_lettered = [],
    pl_next_message_id = ps_next_message_id s, pl_next_ack_id = ps_next_ack_id s\<rparr>"
  obtain st' ds' where l: "pull_loop C i st (deliveries_of name s) = (st', ds')" by fastforce
  have st: "pl_next_message_id st = ps_next_message_id s" "pl_next_ack_id st = ps_next_ack_id s" "pl_dead_lettered st = []" by (simp_all add: st_def)
  note ids = pull_loop_ids[OF l, unfolded st, OF room]
  let ?s1 = "s\<lparr>ps_next_message_id := pl_next_message_id st', ps_next_ack_id := pl_next_ack_id st'\<rparr>"
  let ?s2 = "fold deliver_dead_letter (pl_dead_lettered st') ?s1"
  have s1: "carries n s ?s1" using ids by (auto simp: carries_def deliveries_of_def)
  have dl: "map (msg_message_id \<circ> snd) (pl_dead_lettered st') = map dec [Suc (ps_next_message_id s) ..< Suc (pl_next_message_id st')]" using ids by auto
  have "\<exists>k > ps_next_message_id s. msg_message_id (snd x) = dec k" if "x \<in> set (pl_dead_lettered st')" for x
  proof -
    have "msg_message_id (snd x) \<in> set (map (msg_message_id \<circ> snd) (pl_dead_lettered st'))" using that by auto
    then show ?thesis unfolding dl by auto
  qed
  then have s2: "carries n s ?s2" by (intro dead_letters_carry[OF _ s1]) blast
  have ds': "\<exists>d \<in> set (deliveries_of name s). del_message_id d = del_message_id d' \<and> (del_acked d \<longrightarrow> del_acked d')" if d': "d' \<in> set ds'" for d'
  proof -
    obtain d where "d \<in> set (deliveries_of name s)" "pulled C (pl_next_ack_id st') d d'" using list_all2_member[of _ _ ds', OF _ d'] ids by blast
    then show ?thesis by (auto simp: pulled_def weakened_def lease_record_def intro!: bexI[of _ d])
  qed
  have "s' = ?s2\<lparr>ps_deliveries := bt_insert name (compact_acked (sub_retain_acked_messages sub) ds') (ps_deliveries ?s2), messages_dirty := True\<rparr>"
    using p by (simp add: pull_deliveries_def Let_def l flip: C_def st_def)
  then show ?thesis using s2 ds' by (auto simp: carries_def deliveries_of_insert compact_acked_def split: if_splits)
qed

lemma pull_moves:
  assumes ok: "ps_ok s" and room: "id_room (length (deliveries_of (subscription_name p i) s)) s"
  shows "moves n s (pull E p i k s)"
proof -
  let ?n = "subscription_name p i"
  obtain P where P: "deliveries_of n (cleanup_retained_messages E (fst (now_parts E 0)) s) = filter P (deliveries_of n s)"
    using cleanup_deliveries[OF ok_maps(6)[OF ok]] by blast
  have "carries n s (cleanup_retained_messages E (fst (now_parts E 0)) s)" by (rule carries_same) (auto simp: P cleanup_same)
  then have sw: "carries n s (swept E s)" unfolding swept_def by (rule carries_trans[OF _ expire_carries])
  have r: "ps_next_message_id (swept E s) + length (deliveries_of ?n (swept E s)) < 2 ^ 64" "ps_next_ack_id (swept E s) + length (deliveries_of ?n (swept E s)) < 2 ^ 64"
    using room swept_length[OF ok, of ?n E] by (simp_all add: id_room_def swept_same)
  have "moves n s (commit E s1 undo a)" if "pull_deliveries E j ?n sub (fst (now_parts E 0)) mx (swept E s) = (rs, s1)" for j sub mx rs s1 undo a
    using carries_trans[OF sw pull_deliveries_carries[OF r that]] by (rule moves_commit)
  then show ?thesis unfolding pull_def Let_def
    by (rule_tac moves_checked) (auto simp flip: swept_def split: option.split prod.split)
qed

fun seeks :: "string \<Rightarrow> ps_op \<Rightarrow> bool" where
  "seeks n (Seek p i _ _) = (subscription_name p i = n)"
| "seeks n _ = False"

lemma exec_carries:
  assumes ok: "ps_ok s" and room: "id_room (ids_needed op s) s" and op: "\<not> seeks n op"
  shows "carries n s (snd (ps_exec X E op s))"
proof -
  have "moves n s (ps_exec X E op s)"
  proof (cases op)
    case (Publish p i ms)
    then show ?thesis using publish_moves[OF ok] room by (simp add: id_room_def)
  next
    case (Pull p i k)
    then show ?thesis using pull_moves[OF ok] room by simp
  next
    case (Seek p i snap t)
    then show ?thesis using seek_moves[of n p i] op by auto
  qed (simp_all add: topic_moves schema_moves validate_moves subscription_moves patch_subscription_moves delete_subscription_moves
      snapshot_moves acknowledge_def modify_ack_deadline_def update_ack_moves)
  moreover have "keeps s (ps_exec X E op s)" by (rule exec_keeps[OF ok room])
  ultimately show ?thesis
    by (cases "ps_exec X E op s"; cases "fst (ps_exec X E op s)") (auto simp: keeps_def moves_def carries_intact)
qed

text \<open>Any sequence of operations that does not seek on the subscription \<open>n\<close>.\<close>

inductive ps_runs :: "ps_crates \<Rightarrow> string \<Rightarrow> ps_server \<Rightarrow> ps_server \<Rightarrow> bool" for X n s where
  runs_none: "ps_runs X n s s"
| runs_step: "ps_runs X n s s' \<Longrightarrow> id_room (ids_needed op s') s' \<Longrightarrow> \<not> seeks n op \<Longrightarrow> ps_runs X n s (snd (ps_exec X E op s'))"

text \<open>The service as a machine over operations with their environments; an operation the counters have no room for is left out.\<close>

definition ps_serve :: "ps_crates \<Rightarrow> ps_env \<times> ps_op \<Rightarrow> ps_server \<Rightarrow> ps_server" where
  "ps_serve X = (\<lambda>(E, op) s. if id_room (ids_needed op s) s then snd (ps_exec X E op s) else s)"

interpretation ps_machine: invariant_machine "ps_serve X" "\<lambda>_. True" ps_ok for X
  by unfold_locales (auto simp: ps_serve_def intro: keeps_ok[OF _ exec_keeps])

lemma reachable_run: "ps_reachable X cfg s \<Longrightarrow> \<exists>calls. s = fold (ps_serve X) calls (ps_new cfg Missing Missing)"
proof (induction rule: ps_reachable.induct)
  case (ps_step s op E)
  then obtain calls where "s = fold (ps_serve X) calls (ps_new cfg Missing Missing)" by blast
  with ps_step.hyps(2) show ?case by (intro exI[of _ "calls @ [(E, op)]"]) (simp add: ps_serve_def)
qed (simp add: exI[of _ "[]"])

lemma reach_ok: "ps_reachable X cfg s \<Longrightarrow> ps_ok s"
  using reachable_run ps_machine.run_inv new_ok by (metis list.pred_True)

lemma runs_carry: "ps_runs X n s s' \<Longrightarrow> ps_ok s \<Longrightarrow> ps_ok s' \<and> carries n s s'"
proof (induction rule: ps_runs.induct)
  case (runs_step s' op E)
  then show ?case using keeps_ok[OF _ exec_keeps] exec_carries carries_trans by blast
qed (simp add: carries_same_map)

text \<open>The message is known and every record the subscription has of it is acknowledged.\<close>

definition acked_for_good :: "ps_server \<Rightarrow> string \<Rightarrow> string \<Rightarrow> bool" where
  "acked_for_good s n m \<longleftrightarrow> issued_id (ps_next_message_id s) m \<and> (\<forall>d \<in> set (deliveries_of n s). del_message_id d = m \<longrightarrow> del_acked d)"

lemma acked_carries: "acked_for_good s n m \<Longrightarrow> carries n s s' \<Longrightarrow> acked_for_good s' n m"
  unfolding acked_for_good_def carries_def using issued_mono by metis

lemma acked_settled: "acked_for_good s n m \<Longrightarrow> settled s n t m"
  by (simp add: acked_for_good_def settled_def)

lemma same_record: "queue_ok s ds \<Longrightarrow> d \<in> set ds \<Longrightarrow> d' \<in> set ds \<Longrightarrow> del_message_id d = del_message_id d' \<Longrightarrow> d = d'"
  by (auto simp: queue_ok_def distinct_map inj_on_def)

lemma acknowledge_acks:
  assumes ok: "ps_ok s" and a: "acknowledge E p i ids s = (Inr a, s')"
    and d: "d \<in> set (deliveries_of (subscription_name p i) s)" "del_ack_id d \<in> set ids" "\<not> lease_expired (fst (now_parts E 0)) d"
  shows "acked_for_good s' (subscription_name p i) (del_message_id d)"
proof -
  let ?n = "subscription_name p i" and ?now = "fst (now_parts E 0)"
  let ?s = "expire_leases ?now s"
  from d(2) have ne: "ids \<noteq> []" by auto
  obtain sub where sub: "map_of (ps_subscriptions s) ?n = Some sub"
    using a ne by (auto simp: acknowledge_def update_ack_deadlines_def Let_def checked_Inr split: option.splits)
  have "ps_persist E (?s\<lparr>ps_deliveries := bt_insert ?n
      (compact_acked (sub_retain_acked_messages sub) (map (update_record None ids ?now) (deliveries_of ?n ?s))) (ps_deliveries ?s), messages_dirty := True\<rparr>) = (Inr (), s')"
    using a ne sub by (auto simp: acknowledge_def update_ack_deadlines_def Let_def checked_Inr dest!: commit_Inr)
  note same = persist_same[OF this]
  have ds: "deliveries_of ?n s' = compact_acked (sub_retain_acked_messages sub) (map (update_record None ids ?now \<circ> expire_record s ?n ?now) (deliveries_of ?n s))"
    using same(6) by (simp add: deliveries_of_def[of _ s'] bt_get_insert expired_deliveries)
  have next_id: "ps_next_message_id s' = ps_next_message_id s" using same(7) by (simp add: expire_leases_def)
  have q: "queue_ok s (deliveries_of ?n s)" by (rule queue_ok_of[OF ok])
  have upd: "del_message_id (update_record None ids ?now (expire_record s ?n ?now e)) = del_message_id e" for e
    using update_weakened[of "expire_record s ?n ?now e"] expire_weakened[of e s ?n ?now] by (simp add: weakened_def)
  have "del_acked (update_record None ids ?now (expire_record s ?n ?now e))"
    if "e \<in> set (deliveries_of ?n s)" "del_message_id (update_record None ids ?now (expire_record s ?n ?now e)) = del_message_id d" for e
  proof -
    have "e = d" using same_record[OF q that(1) d(1)] that(2) by (simp add: upd)
    then show ?thesis using d(2,3) by (simp add: expire_record_def update_record_def acked_record_def)
  qed
  moreover have "issued_id (ps_next_message_id s) (del_message_id d)" using q d(1) by (simp add: queue_ok_def record_ok_def)
  ultimately show ?thesis unfolding acked_for_good_def ds next_id by (auto simp: compact_acked_def)
qed

section \<open>Leases\<close>

lemma now_secs: "clock_ok (ps_clock E 0) \<Longrightarrow> fst (now_parts E 0) = int (ps_clock E 0 div 10 ^ 9)"
  by (simp add: now_parts_def ps_now_def parse_now)

lemma pulled_settled:
  assumes ok: "ps_ok s" and room: "id_room (length (deliveries_of (subscription_name p i) s)) s"
    and p: "pull E p i n s = (Inr a, s')" and sub: "map_of (ps_subscriptions s) (subscription_name p i) = Some sub"
    and r: "r \<in> set (received_of a)"
    and t: "clock_ok (ps_clock E 0)" "t < fst (now_parts E 0) + dl" "0 \<le> dl" "dl \<le> 2 ^ 61"
    and dl: "dl = (if sub_ack_deadline_seconds sub > 0 then sub_ack_deadline_seconds sub else default_ack_deadline_cfg s)"
  shows "settled s' (subscription_name p i) t (msg_message_id (rcv_message r))"
proof -
  let ?n = "subscription_name p i" and ?now = "fst (now_parts E 0)"
  obtain s1 where s1: "ps_persist E s1 = (Inr (), s')"
    "pull_deliveries E (Suc (length (ps_snapshots s))) ?n sub ?now (pull_limit n s) (swept E s) = (received_of a, s1)" using pull_Inr[OF p sub] by blast
  have rm: "ps_next_message_id (swept E s) + length (deliveries_of ?n (swept E s)) < 2 ^ 64" "ps_next_ack_id (swept E s) + length (deliveries_of ?n (swept E s)) < 2 ^ 64"
    using room swept_length[OF ok, of ?n E] by (simp_all add: id_room_def swept_same)
  have ok1: "ps_ok s1" using pull_deliveries_ok(1)[OF swept_ok[OF ok] _ rm s1(2)] sub by (simp add: swept_same)
  obtain C st st' ds' where C: "ctx_server C = swept E s" "ctx_now C = ?now"
    "ctx_ack_deadline C = (if sub_ack_deadline_seconds sub > 0 then sub_ack_deadline_seconds sub else default_ack_deadline_cfg (swept E s))" "pl_received st = []"
    "pull_loop C (Suc (length (ps_snapshots s))) st (deliveries_of ?n (swept E s)) = (st', ds')" "received_of a = pl_received st'"
    "deliveries_of ?n s1 = compact_acked (sub_retain_acked_messages sub) ds'"
    using s1(2) by (rule pull_deliveries_loop)
  have deadline: "ctx_ack_deadline C = dl" using C(3) by (simp add: dl default_ack_deadline_cfg_def swept_same)
  obtain d k where d: "deliverable (swept E s) (ctx_sub C) ?now d" "r = answer_for C k d" "lease_record C k d \<in> set ds'"
    using pull_loop_received[OF C(5)] r C(1,2,4,6) by auto
  have id: "msg_message_id (rcv_message r) = del_message_id d"
    using ok_names(4)[OF swept_ok[OF ok]] d(1,2) C(1) by (auto simp: deliverable_def message_for_def answer_for_def)
  have now: "0 \<le> ?now" "?now \<le> 2 ^ 62"
  proof -
    have "ps_clock E 0 div 10 ^ 9 < 2 ^ 62" using t(1) unfolding clock_ok_def by (intro less_mult_imp_div_less) (simp add: mult.commute)
    then show "0 \<le> ?now" "?now \<le> 2 ^ 62" unfolding now_secs[OF t(1)] by (simp_all add: zdiv_int) 
  qed
  have lease: "after_secs (del_lease_deadline (lease_record C k d)) t"
    using after_plus[OF now t(3,4)] t(2) by (simp add: lease_record_def C(2) deadline)
  have mem: "lease_record C k d \<in> set (deliveries_of ?n s1)" using d(1,3) by (simp add: C(7) compact_acked_def lease_record_def deliverable_def)
  have "deliveries_of ?n s' = deliveries_of ?n s1" using persist_same(6)[OF s1(1)] by (simp add: deliveries_of_def)
  moreover have "e = lease_record C k d" if "e \<in> set (deliveries_of ?n s1)" "del_message_id e = del_message_id d" for e
    using same_record[OF queue_ok_of[OF ok1] that(1) mem] that(2) by (simp add: lease_record_def)
  ultimately show ?thesis using lease by (auto simp: settled_def id)
qed

end
