(* ===== verification/Pubsub_Correct.thy ===== *)
theory Pubsub_Correct
  imports Pubsub_Api
begin

text \<open>
  The properties of the Pub/Sub server, with a small sample run that their witnesses use.
\<close>

section \<open>Publishing\<close>

text \<open>The deliveries that published messages, with their ids, bring to a subscription.\<close>

definition arrivals :: "string \<Rightarrow> string \<Rightarrow> subscription \<Rightarrow> (string \<times> json) list \<Rightarrow> delivery_record list" where
  "arrivals name now sub ims =
     (if sub_topic sub = name \<and> \<not> sub_detached sub
      then map (new_delivery \<circ> fst) (filter (\<lambda>(i, m). subscription_matches_message sub (message_of i now m)) ims) else [])"

lemma arrivals_Cons: "arrivals name now sub (x # ims) = arrivals name now sub [x] @ arrivals name now sub ims"
  by (simp add: arrivals_def)

lemma matching_iff:
  assumes "named sub_name (ps_subscriptions s)" "map_of (ps_subscriptions s) n = Some sub"
  shows "n \<in> set (matching_subscriptions name m s) \<longleftrightarrow> sub_topic sub = name \<and> \<not> sub_detached sub \<and> subscription_matches_message sub m"
proof -
  have "sub' = sub" if "(k, sub') \<in> set (ps_subscriptions s)" "sub_name sub' = n" for k sub'
  proof -
    have "k = n" using assms(1) that by (auto simp: named_def)
    then show ?thesis using that(1) assms bt_in_set_iff[OF named_bt_ok[OF assms(1)], of n sub'] by simp
  qed
  moreover have "(n, sub) \<in> set (ps_subscriptions s)" "sub_name sub = n"
    using map_of_SomeD[OF assms(2)] named_get[OF assms] by simp_all
  ultimately show ?thesis by (force simp: matching_subscriptions_def)
qed

lemma publish_one_arrival:
  assumes ok: "ps_ok s" and room: "ps_next_message_id s + 1 < 2 ^ 64" and sub: "map_of (ps_subscriptions s) n = Some sub"
    and p: "publish_one name now m (ids, s) = (ids', s')"
  shows "ids' = ids @ [dec (Suc (ps_next_message_id s))]"
    "deliveries_of n s' = deliveries_of n s @ arrivals name now sub [(dec (Suc (ps_next_message_id s)), m)]"
proof -
  let ?i = "dec (Suc (ps_next_message_id s))"
  let ?ns = "matching_subscriptions name (message_of ?i now m) s"
  show "ids' = ids @ [?i]" using p by (auto simp: publish_one_def Let_def bump_id[OF room])
  have d: "distinct ?ns" using names_distinct(1)[OF ok_named(2)[OF ok]] by (simp add: matching_subscriptions_def)
  have s': "ps_deliveries s' = fold (push_delivery ?i) ?ns (ps_deliveries s)"
    using p by (auto simp: publish_one_def Let_def bump_id[OF room])
  have "deliveries_of n s' = (if n \<in> set ?ns then deliveries_of n s @ [new_delivery ?i] else deliveries_of n s)"
    unfolding deliveries_of_def s' fold_push_get[OF d] by simp
  then show "deliveries_of n s' = deliveries_of n s @ arrivals name now sub [(?i, m)]"
    using matching_iff[OF ok_named(2)[OF ok] sub] by (simp add: arrivals_def)
qed

lemma publish_all_arrivals:
  assumes "ps_ok s" "ps_next_message_id s + length ms < 2 ^ 64" "map_of (ps_subscriptions s) n = Some sub"
    "fold (publish_one name now) ms (ids, s) = (ids', s')"
  shows "ids' = ids @ map dec [Suc (ps_next_message_id s) ..< Suc (ps_next_message_id s + length ms)] \<and>
    deliveries_of n s' = deliveries_of n s @ arrivals name now sub (zip (map dec [Suc (ps_next_message_id s) ..< Suc (ps_next_message_id s + length ms)]) ms)"
  using assms
proof (induction ms arbitrary: ids s)
  case (Cons m ms)
  obtain ids1 s1 where p: "publish_one name now m (ids, s) = (ids1, s1)" by fastforce
  have room: "ps_next_message_id s + 1 < 2 ^ 64" using Cons.prems(2) by simp
  have s1: "ps_ok s1" "ps_next_message_id s1 = Suc (ps_next_message_id s)" using publish_one_ok[OF Cons.prems(1) room, of name now m ids] p by simp_all
  have sub: "map_of (ps_subscriptions s1) n = Some sub" using p Cons.prems(3) by (auto simp: publish_one_def Let_def)
  let ?N = "Suc (ps_next_message_id s)"
  have u: "[?N ..< Suc (ps_next_message_id s + length (m # ms))] = ?N # [Suc ?N ..< Suc (?N + length ms)]"
    by (subst upt_conv_Cons) simp_all
  have "ids' = ids1 @ map dec [Suc ?N ..< Suc (?N + length ms)] \<and>
      deliveries_of n s' = deliveries_of n s1 @ arrivals name now sub (zip (map dec [Suc ?N ..< Suc (?N + length ms)]) ms)"
    using Cons.IH[OF s1(1) _ sub, of ids1] Cons.prems(2,4) p s1(2) by simp
  then show ?case using publish_one_arrival[OF Cons.prems(1) room Cons.prems(3) p] unfolding u list.map zip_Cons_Cons
    by (subst arrivals_Cons) (simp del: upt_Suc)
qed (simp add: arrivals_def)

section \<open>Retries\<close>

lemma backoff_closed:
  "0 \<le> b \<Longrightarrow> b \<le> i64_max \<Longrightarrow> backoff_loop mx n b = (case mx of Some m \<Rightarrow> min m | None \<Rightarrow> id) (min i64_max (b * 2 ^ n))"
proof (induction n arbitrary: b)
  case (Suc n)
  have sat: "saturate_i64 (b * 2) = min i64_max (b * 2)" using Suc.prems by (simp add: saturate_i64_def)
  have grow: "min i64_max (min i64_max (b * 2) * 2 ^ n) = min i64_max (b * 2 ^ Suc n)"
  proof (cases "b * 2 \<le> i64_max")
    case False
    have "1 \<le> (2::int) ^ n" by simp
    then have "i64_max \<le> i64_max * 2 ^ n" "i64_max \<le> b * 2 * 2 ^ n" using False mult_mono[of i64_max "b * 2" 1 "2 ^ n"] by simp_all
    then show ?thesis using False by (simp add: mult.assoc)
  qed (simp add: mult.assoc)
  have le: "b \<le> min i64_max (b * 2 ^ Suc n)"
  proof -
    have "b * 1 \<le> b * 2 ^ Suc n" using Suc.prems by (intro mult_left_mono one_le_power) simp_all
    then show ?thesis using Suc.prems by simp
  qed
  have "0 \<le> saturate_i64 (b * 2)" "saturate_i64 (b * 2) \<le> i64_max" using Suc.prems by (simp_all add: sat)
  note IH = Suc.IH[OF this]
  show ?case
  proof (cases "case mx of Some m \<Rightarrow> b \<ge> m | None \<Rightarrow> False")
    case True
    then obtain m where "mx = Some m" "m \<le> b" by (cases mx) auto
    then show ?thesis using le by simp
  next
    case False
    then show ?thesis using IH by (simp add: sat grow)
  qed
qed (auto split: option.split)

section \<open>Saving and loading\<close>

lemma load_named_values: "named f m \<Longrightarrow> load_named f (map snd m) [] = m"
proof -
  assume m: "named f m"
  have "map (\<lambda>v. (f v, v)) (filter (\<lambda>v. f v \<noteq> []) (map snd m)) = m"
    using m by (induction m) (auto simp: named_def)
  then show ?thesis using bt_extend_Nil[OF named_bt_ok[OF m]] by (simp add: load_named_def)
qed

lemma parse_u64_dec: "k < 2 ^ 64 \<Longrightarrow> parse_u64 (dec k) = Some k"
  by (simp add: parse_u64_def split_sign_digits list_all_digit_dec)

lemma load_messages:
  assumes "\<forall>m \<in> set ms. msg_message_id m \<noteq> [] \<and> issued_id c (msg_message_id m)" "c < 2 ^ 64"
  shows "\<exists>k \<le> max c (ps_next_message_id s). fold load_message ms s = s\<lparr>ps_messages := bt_extend (ps_messages s) (map (\<lambda>m. (msg_message_id m, m)) ms),
    ps_next_message_id := k\<rparr>"
  using assms(1)
proof (induction ms arbitrary: s)
  case (Cons m ms)
  obtain k where k: "k \<le> c" "msg_message_id m = dec k" using Cons.prems by (auto simp: issued_id_def)
  then have p: "parse_u64 (msg_message_id m) = Some k" using assms(2) by (simp add: parse_u64_dec)
  let ?s = "load_message m s"
  have s: "?s = s\<lparr>ps_next_message_id := max k (ps_next_message_id s), ps_messages := bt_insert (msg_message_id m) m (ps_messages s)\<rparr>"
    using Cons.prems p by (simp add: load_message_def)
  have ms: "\<forall>m \<in> set ms. msg_message_id m \<noteq> [] \<and> issued_id c (msg_message_id m)" using Cons.prems by simp
  obtain j where j: "j \<le> max c (ps_next_message_id ?s)" "fold load_message ms ?s =
      ?s\<lparr>ps_messages := bt_extend (ps_messages ?s) (map (\<lambda>m. (msg_message_id m, m)) ms), ps_next_message_id := j\<rparr>" using Cons.IH[OF ms] by blast
  have "fold load_message (m # ms) s = s\<lparr>ps_messages := bt_extend (ps_messages s) (map (\<lambda>m. (msg_message_id m, m)) (m # ms)), ps_next_message_id := j\<rparr>"
    using j(2) by (simp add: s bt_extend_def)
  moreover have "j \<le> max c (ps_next_message_id s)" using j(1) k(1) by (simp add: s)
  ultimately show ?case by blast
next
  case Nil
  show ?case by (rule exI[of _ "ps_next_message_id s"]) (simp add: bt_extend_def)
qed

lemma load_message_state_of:
  assumes ok: "ps_ok s" and t: "ps_messages t = []" "ps_deliveries t = []" "ps_next_message_id t = 0"
  shows "load_message_state (message_state_of s) t = t\<lparr>ps_messages := ps_messages s, ps_deliveries := filter (\<lambda>(_, ds). ds \<noteq> []) (ps_deliveries s),
    ps_next_message_id := ps_next_message_id s, ps_next_ack_id := ps_next_ack_id s\<rparr>"
proof -
  have m: "\<forall>m \<in> set (map snd (ps_messages s)). msg_message_id m \<noteq> [] \<and> issued_id (ps_next_message_id s) (msg_message_id m)"
    using ok by (fastforce simp: ps_ok_def named_def)
  have "map (\<lambda>m. (msg_message_id m, m)) (map snd (ps_messages s)) = ps_messages s"
    using ok_named(5)[OF ok] by (auto simp: named_def intro!: map_idI)
  then have e: "bt_extend [] (map (\<lambda>m. (msg_message_id m, m)) (map snd (ps_messages s))) = ps_messages s" using bt_extend_Nil[OF ok_maps(5)[OF ok]] by metis
  obtain k where k: "k \<le> ps_next_message_id s" "fold load_message (map snd (ps_messages s)) t = t\<lparr>ps_messages := ps_messages s, ps_next_message_id := k\<rparr>"
    using load_messages[OF m, of t] ok t(1,3) e by (auto simp: ps_ok_def)
  have "n \<noteq> []" if "(n, ds) \<in> set (ps_deliveries s)" for n ds
    using ok that named_get[OF ok_named(2)[OF ok]] by (fastforce simp: ps_ok_def bt_contains_def)
  then have f: "filter (\<lambda>(n, _). n \<noteq> []) (filter (\<lambda>(_, ds). ds \<noteq> []) (ps_deliveries s)) = filter (\<lambda>(_, ds). ds \<noteq> []) (ps_deliveries s)"
    by (intro filter_True) auto
  have "bt_extend [] (filter (\<lambda>(_, ds). ds \<noteq> []) (ps_deliveries s)) = filter (\<lambda>(_, ds). ds \<noteq> []) (ps_deliveries s)"
    using ok_maps(6)[OF ok] by (intro bt_extend_Nil) simp
  then show ?thesis using k t(2) by (simp del: filter_filter add: load_message_state_def message_state_of_def Let_def f)
qed

lemma nonempty_deliveries:
  assumes "bt_ok m"
  shows "(case map_of (filter (\<lambda>(_, ds). ds \<noteq> []) m) n of Some ds \<Rightarrow> ds | None \<Rightarrow> []) = (case map_of m n of Some ds \<Rightarrow> ds | None \<Rightarrow> [])"
  using assms
proof (induction m)
  case (Cons e m)
  have "fst e = n \<Longrightarrow> map_of (filter (\<lambda>(_, ds). ds \<noteq> []) m) n = None"
    using Cons.prems by (auto simp: map_of_eq_None_iff)
  then show ?case using Cons by (cases e) auto
qed simp

lemma restart_state:
  assumes ok: "ps_ok s" and cfg: "pc_storage_path (ps_config s) \<noteq> []"
    and files: "r = resource_state_of s" "pc_message_storage_path (ps_config s) \<noteq> [] \<Longrightarrow> mr = Content (message_state_of s)"
  defines "t \<equiv> ps_new (ps_config s) (Content r) mr"
  shows "ps_topics t = ps_topics s \<and> ps_subscriptions t = ps_subscriptions s \<and> ps_snapshots t = ps_snapshots s \<and> ps_schemas t = ps_schemas s
    \<and> ps_messages t = ps_messages s \<and> ps_next_message_id t = ps_next_message_id s \<and> ps_next_ack_id t = ps_next_ack_id s \<and> ps_load_err t = None
    \<and> (\<forall>n. deliveries_of n t = deliveries_of n s)"
proof -
  define b where "b = (ps_blank (ps_config s))\<lparr>resource_file := Some r, message_file := file_content mr\<rparr>"
  let ?named = "b\<lparr>ps_topics := ps_topics s, ps_subscriptions := ps_subscriptions s, ps_snapshots := ps_snapshots s, ps_schemas := ps_schemas s\<rparr>"
  let ?full = "?named\<lparr>ps_messages := ps_messages s, ps_deliveries := filter (\<lambda>(_, ds). ds \<noteq> []) (ps_deliveries s),
    ps_next_message_id := ps_next_message_id s, ps_next_ack_id := ps_next_ack_id s\<rparr>"
  have named: "load_named top_name (map snd (ps_topics s)) [] = ps_topics s" "load_named sub_name (map snd (ps_subscriptions s)) [] = ps_subscriptions s"
    "load_named snap_name (map snd (ps_snapshots s)) [] = ps_snapshots s" "load_named sch_name (map snd (ps_schemas s)) [] = ps_schemas s"
    using ok by (simp_all add: load_named_values ok_named)
  have lm: "load_message_state (message_state_of s) ?named = ?full" by (rule load_message_state_of[OF ok]) (simp_all add: b_def ps_blank_def)
  have b: "ps_topics b = []" "ps_subscriptions b = []" "ps_snapshots b = []" "ps_schemas b = []" "ps_messages b = []" "ps_deliveries b = []"
    "ps_next_message_id b = 0" "ps_config b = ps_config s" by (simp_all add: b_def ps_blank_def)
  have "t = ?full"
  proof (cases "pc_message_storage_path (ps_config s) = []")
    case True
    have "load_resources r b = ?full" using True lm by (simp add: load_resources_def Let_def resource_state_of_def files(1) named b)
    then show ?thesis using cfg True by (simp add: t_def ps_new_def Let_def ps_load_def load_message_file_def file_content_def[of "Content r"] b flip: b_def)
  next
    case False
    have "load_resources r b = ?named" using False by (simp add: load_resources_def Let_def resource_state_of_def files(1) named b)
    moreover have e: "?named\<lparr>ps_messages := [], ps_deliveries := [], ps_next_message_id := 0\<rparr> = ?named" using b by simp
    ultimately have "t = load_message_state (message_state_of s) ?named"
      using cfg False by (simp add: t_def ps_new_def Let_def ps_load_def load_message_file_def file_content_def[of "Content r"] b e files(2)[OF False] flip: b_def[unfolded files(2)[OF False]])
    then show ?thesis using lm by simp
  qed
  then show ?thesis using nonempty_deliveries[OF ok_maps(6)[OF ok]] by (simp add: deliveries_of_def b_def ps_blank_def)
qed

section \<open>A sample run\<close>

definition ps_env_at :: "nat \<Rightarrow> ps_env" where
  "ps_env_at t = \<lparr>ps_clock = (\<lambda>_. t), resource_fs = disk_ok, message_fs = disk_ok\<rparr>"

definition sample_cfg :: "string \<Rightarrow> ps_config" where
  "sample_cfg path = \<lparr>pc_project = [], pc_auth_mode = [], pc_bearer_token = [], pc_storage_path = path, pc_message_storage_path = path,
     pc_default_ack_deadline_seconds = 0, pc_message_retention_seconds = 0, pc_max_ack_deadline_seconds = 0, pc_max_pull_messages = 0\<rparr>"

definition sample_crates :: ps_crates where
  "sample_crates = \<lparr>ps_json_from = (\<lambda>_. None), ps_schema_from = (\<lambda>_. None)\<rparr>"

definition sample_topic :: topic where
  "sample_topic = \<lparr>top_name = [], top_labels = [], top_created_at = [], top_updated_at = [], top_message_retention_duration = [],
     top_schema_settings = None, top_kms_key_name = []\<rparr>"

definition sample_subscription :: "bool \<Rightarrow> subscription" where
  "sample_subscription ordered =
     \<lparr>sub_name = [], sub_topic = ''projects/p/topics/t'', sub_detached = False, sub_labels = [], sub_created_at = [], sub_updated_at = [],
      sub_ack_deadline_seconds = 0, sub_enable_message_ordering = ordered, sub_enable_exactly_once_delivery = False, sub_retain_acked_messages = False,
      sub_message_retention_duration = [], sub_expiration_policy = None, sub_filter = [], sub_dead_letter_policy = None, sub_retry_policy = None,
      sub_push_config = None\<rparr>"

definition sample_message :: json where
  "sample_message = Object [(''data'', String ''aGk=''), (''orderingKey'', String ''k'')]"

definition ps_run :: "string \<Rightarrow> ps_op list \<Rightarrow> ps_server" where
  "ps_run path ops = fold (\<lambda>op s. snd (ps_exec sample_crates (ps_env_at t0) op s)) ops (ps_new (sample_cfg path) Missing Missing)"

definition sample_ops :: "bool \<Rightarrow> ps_op list" where
  "sample_ops ordered = [Create_topic ''p'' ''t'' sample_topic, Create_subscription ''p'' ''s'' (sample_subscription ordered),
     Publish ''p'' ''t'' [sample_message, sample_message]]"

text \<open>Whether the counters have room for every operation of a run.\<close>

fun rooms :: "ps_op list \<Rightarrow> ps_server \<Rightarrow> bool" where
  "rooms [] s = True"
| "rooms (op # ops) s = (id_room (ids_needed op s) s \<and> rooms ops (snd (ps_exec sample_crates (ps_env_at t0) op s)))"

lemma rooms_reachable:
  "ps_reachable sample_crates cfg s \<Longrightarrow> rooms ops s \<Longrightarrow> ps_reachable sample_crates cfg (fold (\<lambda>op s. snd (ps_exec sample_crates (ps_env_at t0) op s)) ops s)"
  by (induction ops arbitrary: s) (auto intro: ps_step)

lemma sample_reachable: "ps_reachable sample_crates (sample_cfg []) (ps_run [] (sample_ops ordered))"
  "ps_reachable sample_crates (sample_cfg ''/d'') (ps_run ''/d'' (sample_ops ordered))"
proof -
  have "rooms (sample_ops True) (ps_new (sample_cfg []) Missing Missing)" "rooms (sample_ops False) (ps_new (sample_cfg []) Missing Missing)"
    "rooms (sample_ops True) (ps_new (sample_cfg ''/d'') Missing Missing)" "rooms (sample_ops False) (ps_new (sample_cfg ''/d'') Missing Missing)" by code_simp+
  then show "ps_reachable sample_crates (sample_cfg []) (ps_run [] (sample_ops ordered))"
    "ps_reachable sample_crates (sample_cfg ''/d'') (ps_run ''/d'' (sample_ops ordered))"
    unfolding ps_run_def by (cases ordered; auto intro: rooms_reachable ps_start)+
qed

text \<open>The state after the run without storage, and after a pull on it, written out as code equations so that later evaluations
  start from there.\<close>

definition sample_state :: "bool \<Rightarrow> ps_server" where
  "sample_state ordered = ps_run [] (sample_ops ordered)"

definition started :: string where
  "started = ''1970-01-01T00:00:01Z''"

definition sample_stored :: "string \<Rightarrow> pubsub_message" where
  "sample_stored i = \<lparr>msg_data = ''aGk='', msg_attributes = [], msg_message_id = i, msg_publish_time = started, msg_ordering_key = ''k''\<rparr>"

definition sample_server :: "bool \<Rightarrow> delivery_record list \<Rightarrow> ps_server" where
  "sample_server ordered ds = (ps_blank (sample_cfg []))
     \<lparr>ps_topics := [(''projects/p/topics/t'', sample_topic\<lparr>top_name := ''projects/p/topics/t'', top_created_at := started, top_updated_at := started\<rparr>)],
      ps_subscriptions := [(''projects/p/subscriptions/s'', (sample_subscription ordered)\<lparr>sub_name := ''projects/p/subscriptions/s'',
        sub_created_at := started, sub_updated_at := started, sub_ack_deadline_seconds := 10\<rparr>)],
      ps_messages := [(''1'', sample_stored ''1''), (''2'', sample_stored ''2'')],
      ps_deliveries := [(''projects/p/subscriptions/s'', ds)], ps_next_message_id := 2\<rparr>"

lemma sample_state_code [code]: "sample_state ordered = sample_server ordered [new_delivery ''1'', new_delivery ''2'']"
proof -
  have "ps_run [] (sample_ops True) = sample_server True [new_delivery ''1'', new_delivery ''2'']"
    "ps_run [] (sample_ops False) = sample_server False [new_delivery ''1'', new_delivery ''2'']" by code_simp+
  then show ?thesis by (cases ordered) (simp_all add: sample_state_def)
qed

lemma state_reachable: "ps_reachable sample_crates (sample_cfg []) (sample_state ordered)"
  using sample_reachable(1) by (simp add: sample_state_def)

definition sample_pull :: "bool \<Rightarrow> ps_result" where
  "sample_pull ordered = pull (ps_env_at t0) ''p'' ''s'' 10 (sample_state ordered)"

definition sample_answer :: "bool \<Rightarrow> ps_answer" where
  "sample_answer ordered = projr (fst (sample_pull ordered))"

lemma sample_pulled:
  "pull (ps_env_at t0) ''p'' ''s'' 10 (sample_state ordered) = (Inr (sample_answer ordered), snd (sample_pull ordered))"
proof -
  have "\<not> isl (fst (sample_pull True))" "\<not> isl (fst (sample_pull False))" by code_simp+
  then have "\<not> isl (fst (sample_pull ordered))" by (cases ordered) simp_all
  then show ?thesis unfolding sample_answer_def by (simp add: sum.collapse flip: sample_pull_def)
qed

lemma sample_room: "id_room (length (deliveries_of (subscription_name ''p'' ''s'') (sample_state False))) (sample_state False)"
  by code_simp

section \<open>Properties\<close>

text \<open>C7. Every reachable state of the Pub/Sub server satisfies the invariant: all maps are sorted and keyed by the names of
  their values, deliveries and snapshots belong to subscriptions that exist, no subscription holds a message twice, every record
  that is not acknowledged and every record of a snapshot has its message, every message id was given out by the counter, and an
  acknowledgement id belongs to the message of its record.\<close>

theorem pubsub_reachable_ok: "ps_reachable X cfg s \<Longrightarrow> ps_ok s"
  by (rule reach_ok)

theorem pubsub_reachable_ok_witness: "ps_ok (sample_state False) \<and> length (ps_messages (sample_state False)) = 2"
proof
  show "ps_ok (sample_state False)" by (rule pubsub_reachable_ok[OF state_reachable])
qed code_simp

text \<open>C17. A REST operation that fails leaves every resource, delivery and counter as it was; of the stored messages it drops at
  most ones that no unacknowledged delivery and no snapshot refers to.\<close>

theorem pubsub_failure_intact:
  assumes "ps_reachable X cfg s" "id_room (ids_needed op s) s" "ps_exec X E op s = (Inl e, s')"
  shows "intact s s'"
  using exec_keeps[OF reach_ok[OF assms(1)] assms(2), of X E] assms(3) by (simp add: keeps_def)

theorem pubsub_failure_intact_witness:
  "intact (sample_state False) (snd (ps_exec sample_crates (ps_env_at t0) (Create_topic ''p'' ''t'' sample_topic) (sample_state False)))"
proof (rule pubsub_failure_intact[OF state_reachable])
  let ?op = "Create_topic ''p'' ''t'' sample_topic"
  show "id_room (ids_needed ?op (sample_state False)) (sample_state False)" by code_simp
  have "fst (ps_exec sample_crates (ps_env_at t0) ?op (sample_state False)) = Inl (ps_already_exists ''topic already exists'')" by code_simp
  then show "ps_exec sample_crates (ps_env_at t0) ?op (sample_state False) =
      (Inl (ps_already_exists ''topic already exists''), snd (ps_exec sample_crates (ps_env_at t0) ?op (sample_state False)))"
    by (metis prod.collapse)
qed

text \<open>C18. A successful publish gives out consecutive message ids and appends, to every subscription, exactly the new messages that
  were published to its topic while it was attached and that its filter matches, in the order of the request.\<close>

theorem publish_reaches_subscriptions:
  assumes "ps_reachable X cfg s" "ps_next_message_id s + length ms < 2 ^ 64" "publish X E p i ms s = (Inr a, s')"
    "map_of (ps_subscriptions s) n = Some sub"
  defines "ids \<equiv> map dec [Suc (ps_next_message_id s) ..< Suc (ps_next_message_id s + length ms)]"
  shows "a = A_message_ids ids \<and> deliveries_of n s' = deliveries_of n s @ arrivals (topic_name p i) (ps_now E 0) sub (zip ids ms)"
proof -
  obtain ids' s1 where f: "fold (publish_one (topic_name p i) (ps_now E 0)) ms ([], s) = (ids', s1)" by fastforce
  have "a = A_message_ids ids'" "ps_persist E (s1\<lparr>messages_dirty := True\<rparr>) = (Inr (), s')"
    using assms(3) by (auto simp: publish_def Let_def checked_Inr f split: option.splits dest!: commit_Inr)
  moreover from this(2) have "deliveries_of n s' = deliveries_of n s1" using persist_same(6) by (fastforce simp: deliveries_of_def)
  ultimately show ?thesis using publish_all_arrivals[OF reach_ok[OF assms(1)] assms(2,4) f] by (simp add: ids_def)
qed

theorem publish_reaches_subscriptions_witness:
  "let s = sample_state False; s' = snd (publish sample_crates (ps_env_at t0) ''p'' ''t'' [sample_message] s) in
   deliveries_of (subscription_name ''p'' ''s'') s' = deliveries_of (subscription_name ''p'' ''s'') s @ [new_delivery ''3'']"
proof -
  let ?s = "sample_state False"
  let ?r = "publish sample_crates (ps_env_at t0) ''p'' ''t'' [sample_message] ?s"
  let ?sub = "the (map_of (ps_subscriptions ?s) (subscription_name ''p'' ''s''))"
  have "\<not> isl (fst ?r)" by code_simp
  then have r: "?r = (Inr (projr (fst ?r)), snd ?r)" by (simp add: sum.collapse)
  have n: "ps_next_message_id ?s + length [sample_message] < 2 ^ 64" by code_simp
  have "map_of (ps_subscriptions ?s) (subscription_name ''p'' ''s'') \<noteq> None" by code_simp
  then have sub: "map_of (ps_subscriptions ?s) (subscription_name ''p'' ''s'') = Some ?sub" by simp
  have "arrivals (topic_name ''p'' ''t'') (ps_now (ps_env_at t0) 0) ?sub
      (zip (map dec [Suc (ps_next_message_id ?s) ..< Suc (ps_next_message_id ?s + length [sample_message])]) [sample_message]) = [new_delivery ''3'']" by code_simp
  with publish_reaches_subscriptions[OF state_reachable n r sub] show ?thesis by (simp add: Let_def)
qed

text \<open>C19. Without message ordering, a pull returns the first messages of the backlog, in its order and up to the limit, that are
  not acknowledged, not out on a lease, not waiting for a retry, and have delivery attempts left.\<close>

theorem unordered_pull_takes_due:
  assumes "pull E p i n s = (Inr a, s')" "map_of (ps_subscriptions s) (subscription_name p i) = Some sub" "\<not> sub_enable_message_ordering sub"
  shows "map rcv_message (received_of a) =
    map (message_for (swept E s))
      (take (nat (pull_limit n s)) (filter (deliverable (swept E s) sub (fst (now_parts E 0))) (deliveries_of (subscription_name p i) (swept E s))))"
proof -
  obtain s1 where "pull_deliveries E (Suc (length (ps_snapshots s))) (subscription_name p i) sub (fst (now_parts E 0)) (pull_limit n s) (swept E s)
      = (received_of a, s1)" using pull_Inr[OF assms(1,2)] by blast
  then obtain C st st' ds' where C: "ctx_server C = swept E s" "ctx_sub C = sub" "ctx_now C = fst (now_parts E 0)" "ctx_max C = pull_limit n s" "pl_received st = []"
    "pull_loop C (Suc (length (ps_snapshots s))) st (deliveries_of (subscription_name p i) (swept E s)) = (st', ds')" "received_of a = pl_received st'"
    by (rule pull_deliveries_loop)
  then show ?thesis using pull_loop_unordered[OF C(6)] assms(3) pull_limit_pos[of n s] by simp
qed

lemma sample_sub: "map_of (ps_subscriptions (sample_state ordered)) (subscription_name ''p'' ''s'') =
    Some (the (map_of (ps_subscriptions (sample_state ordered)) (subscription_name ''p'' ''s'')))"
proof -
  have "map_of (ps_subscriptions (sample_state True)) (subscription_name ''p'' ''s'') \<noteq> None"
    "map_of (ps_subscriptions (sample_state False)) (subscription_name ''p'' ''s'') \<noteq> None" by code_simp+
  then show ?thesis by (cases ordered) simp_all
qed

theorem unordered_pull_takes_due_witness:
  "map (msg_message_id \<circ> rcv_message) (received_of (sample_answer False)) = [''1'', ''2'']"
proof -
  let ?s = "sample_state False"
  let ?sub = "the (map_of (ps_subscriptions ?s) (subscription_name ''p'' ''s''))"
  have "\<not> sub_enable_message_ordering ?sub" by code_simp
  note T = unordered_pull_takes_due[OF sample_pulled sample_sub this]
  have "map (msg_message_id \<circ> message_for (swept (ps_env_at t0) ?s))
      (take (nat (pull_limit 10 ?s)) (filter (deliverable (swept (ps_env_at t0) ?s) ?sub (fst (now_parts (ps_env_at t0) 0)))
        (deliveries_of (subscription_name ''p'' ''s'') (swept (ps_env_at t0) ?s)))) = [''1'', ''2'']" by code_simp
  then show ?thesis using arg_cong[OF T, of "map msg_message_id"] by (simp only: map_map)
qed




definition sample_leased :: ps_server where
  "sample_leased = snd (sample_pull False)"

definition leased_record :: "string \<Rightarrow> string \<Rightarrow> delivery_record" where
  "leased_record i ack = (new_delivery i)\<lparr>del_ack_id := ack, del_lease_deadline := ''1970-01-01T00:00:11Z'', del_delivery_attempt := 1\<rparr>"

lemma sample_leased_code [code]:
  "sample_leased = (sample_server False [leased_record ''1'' ''1-1'', leased_record ''2'' ''2-2''])\<lparr>ps_next_ack_id := 2\<rparr>"
  by code_simp

lemma leased_reachable: "ps_reachable sample_crates (sample_cfg []) sample_leased"
proof -
  have "sample_leased = snd (ps_exec sample_crates (ps_env_at t0) (Pull ''p'' ''s'' 10) (sample_state False))"
    by (simp add: sample_leased_def sample_pull_def)
  then show ?thesis using ps_step[OF state_reachable, of "Pull ''p'' ''s'' 10" False "ps_env_at t0"] sample_room by simp
qed

text \<open>The sample at a later time, and what a second pull returns then.\<close>

definition later_pull :: "nat \<Rightarrow> ps_result" where
  "later_pull t = pull (ps_env_at t) ''p'' ''s'' 10 sample_leased"


text \<open>C8. Once a message is acknowledged under the acknowledgement id of a lease that has not ended, no pull on that subscription
  returns it again, after any sequence of operations that does not seek on the subscription.\<close>

theorem acknowledged_never_redelivered:
  assumes "ps_reachable X cfg s" "acknowledge E p i ids s = (Inr a, s1)"
    "d \<in> set (deliveries_of (subscription_name p i) s)" "del_ack_id d \<in> set ids" "\<not> lease_expired (fst (now_parts E 0)) d"
    "ps_runs X (subscription_name p i) s1 s2" "pull E' p i n s2 = (Inr b, s3)" "r \<in> set (received_of b)"
  shows "msg_message_id (rcv_message r) \<noteq> del_message_id d"
proof -
  note ok = reach_ok[OF assms(1)]
  have ok1: "ps_ok s1" using keeps_ok[OF ok update_ack_deadlines_keeps[OF ok, of E p i ids None]] assms(2) by (simp add: acknowledge_def)
  have "acked_for_good s1 (subscription_name p i) (del_message_id d)" by (rule acknowledge_acks[OF ok assms(2-5)])
  then have "acked_for_good s2 (subscription_name p i) (del_message_id d)" using runs_carry[OF assms(6) ok1] acked_carries by blast
  then show ?thesis using settled_not_pulled[OF _ acked_settled assms(7,8)] runs_carry[OF assms(6) ok1] by blast
qed

definition sample_acked :: ps_result where
  "sample_acked = acknowledge (ps_env_at t0) ''p'' ''s'' [''1-1''] sample_leased"

definition sample_kept :: ps_server where
  "sample_kept = snd sample_acked"

lemma sample_kept_code [code]:
  "sample_kept = (sample_server False [leased_record ''2'' ''2-2''])\<lparr>ps_messages := [(''2'', sample_stored ''2'')], ps_next_ack_id := 2\<rparr>"
  by code_simp

definition sample_after_ack :: ps_result where
  "sample_after_ack = pull (ps_env_at (99 * t0)) ''p'' ''s'' 10 sample_kept"

theorem acknowledged_never_redelivered_witness:
  "map (msg_message_id \<circ> rcv_message) (received_of (projr (fst sample_after_ack))) = [''2'']
   \<and> list_all (\<lambda>r. msg_message_id (rcv_message r) \<noteq> ''1'') (received_of (projr (fst sample_after_ack)))"
proof
  show "map (msg_message_id \<circ> rcv_message) (received_of (projr (fst sample_after_ack))) = [''2'']" by code_simp
  have "\<not> isl (fst sample_acked)" "\<not> isl (fst sample_after_ack)" by code_simp+
  then have a: "acknowledge (ps_env_at t0) ''p'' ''s'' [''1-1''] sample_leased = (Inr (projr (fst sample_acked)), sample_kept)"
    and q: "pull (ps_env_at (99 * t0)) ''p'' ''s'' 10 sample_kept = (Inr (projr (fst sample_after_ack)), snd sample_after_ack)"
    by (simp_all add: sum.collapse prod_eq_iff flip: sample_kept_def sample_acked_def sample_after_ack_def)
  let ?d = "hd (deliveries_of (subscription_name ''p'' ''s'') sample_leased)"
  have d: "?d \<in> set (deliveries_of (subscription_name ''p'' ''s'') sample_leased)" "del_ack_id ?d \<in> set [''1-1'']"
    "\<not> lease_expired (fst (now_parts (ps_env_at t0) 0)) ?d" "del_message_id ?d = ''1''" by code_simp+
  show "list_all (\<lambda>r. msg_message_id (rcv_message r) \<noteq> ''1'') (received_of (projr (fst sample_after_ack)))"
    using acknowledged_never_redelivered[OF leased_reachable a d(1-3) runs_none q] d(4) by (simp add: list_all_iff)
qed

text \<open>C22. The wait before the next attempt doubles with every attempt after the first, from the minimum backoff up to the maximum
  backoff when there is one, and never beyond the largest \<open>i64\<close>.\<close>

theorem retry_backoff_doubles:
  assumes "map_of (ps_subscriptions s) n = Some sub" "policy_backoff_secs (sub_retry_policy sub) ''minimumBackoff'' = Some mn" "0 \<le> mn"
  shows "retry_backoff s n attempt =
    (case policy_backoff_secs (sub_retry_policy sub) ''maximumBackoff'' of Some m \<Rightarrow> min m | None \<Rightarrow> id) (min i64_max (mn * 2 ^ nat (attempt - 1)))"
proof -
  have "wrap_s 64 x \<le> i64_max" for x
  proof -
    have "(x + 2 ^ 63) mod 2 ^ 64 < (2::int) ^ 64" by (rule pos_mod_bound) simp
    then show ?thesis by (simp add: wrap_s_def)
  qed
  then have "mn \<le> i64_max" using assms(2) by (auto simp: policy_backoff_secs_def bind_eq_Some_conv split: option.splits if_splits)
  then show ?thesis using assms backoff_closed[OF assms(3)] by (simp add: retry_backoff_def)
qed

definition patient_subscription :: subscription where
  "patient_subscription = (sample_subscription False)\<lparr>sub_retry_policy := Some (Object [(''maximumBackoff'', String ''60s''), (''minimumBackoff'', String ''10s'')])\<rparr>"

theorem retry_backoff_doubles_witness:
  "let s = (ps_blank (sample_cfg []))\<lparr>ps_subscriptions := [(''n'', patient_subscription)]\<rparr> in
   map (retry_backoff s ''n'') [1, 2, 3, 4, 5] = [10, 20, 40, 60, 60]"
proof -
  let ?s = "(ps_blank (sample_cfg []))\<lparr>ps_subscriptions := [(''n'', patient_subscription)]\<rparr>"
  have "policy_backoff_secs (sub_retry_policy patient_subscription) ''minimumBackoff'' = Some 10"
    "policy_backoff_secs (sub_retry_policy patient_subscription) ''maximumBackoff'' = Some 60" by code_simp+
  then show ?thesis using retry_backoff_doubles[of ?s "''n''" patient_subscription 10] by simp
qed

text \<open>What a server that starts again reads from a file, and that two servers hold the same data.\<close>

definition reread :: "'a option \<Rightarrow> 'a ps_file_read" where
  "reread f = (case f of Some c \<Rightarrow> Content c | None \<Rightarrow> Missing)"

definition same_data :: "ps_server \<Rightarrow> ps_server \<Rightarrow> bool" where
  "same_data t s \<longleftrightarrow> ps_topics t = ps_topics s \<and> ps_subscriptions t = ps_subscriptions s \<and> ps_snapshots t = ps_snapshots s \<and> ps_schemas t = ps_schemas s
     \<and> ps_messages t = ps_messages s \<and> ps_next_message_id t = ps_next_message_id s \<and> ps_next_ack_id t = ps_next_ack_id s
     \<and> (\<forall>n. deliveries_of n t = deliveries_of n s)"

lemma persist_restart:
  assumes ok: "ps_ok s'" and p: "ps_persist E s = (Inr (), s')" and cfg: "pc_storage_path (ps_config s) \<noteq> []" and dirty: "messages_dirty s"
    and r: "pc_message_storage_path (ps_config s) = [] \<or> resource_dirty s \<or> resource_file s = Some (resource_state_of s)"
  shows "same_data (ps_new (ps_config s) (reread (resource_file s')) (reread (message_file s'))) s'"
proof -
  have c: "ps_config s' = ps_config s" using persist_same(1)[OF p] .
  have rs: "resource_file s' = Some (resource_state_of s')"
    using p cfg dirty r by (auto simp: ps_persist_def Let_def cleanup_unreferenced_messages_def resource_state_of_def message_state_of_def split: if_splits)
  have ms: "message_file s' = Some (message_state_of s')" if "pc_message_storage_path (ps_config s') \<noteq> []"
    using p cfg dirty that c by (auto simp: ps_persist_def Let_def cleanup_unreferenced_messages_def message_state_of_def split: if_splits)
  show ?thesis using restart_state[OF ok, of "the (resource_file s')" "reread (message_file s')"] cfg c rs ms by (simp add: same_data_def reread_def)
qed


text \<open>The sample run on a server with two files.\<close>

definition stored_state :: ps_server where
  "stored_state = ps_run ''/d'' (sample_ops False)"

lemma stored_state_code [code]:
  "stored_state = (let s = (sample_server False [new_delivery ''1'', new_delivery ''2''])\<lparr>ps_config := sample_cfg ''/d''\<rparr> in
     s\<lparr>resource_file := Some (resource_state_of s), message_file := Some (message_state_of s)\<rparr>)"
  by code_simp


section \<open>Where the code falls short\<close>

text \<open>A snapshot made through REST holds no deliveries, so that a seek to it empties the subscription.\<close>

lemma rest_snapshot_holds_nothing:
  assumes "create_snapshot E p i (subscription_name p j) s = (Inr a, s1)" "seek E' p j (snapshot_name p i) [] s1 = (Inr b, s2)"
  shows "deliveries_of (subscription_name p j) s2 = []"
proof -
  obtain sub :: subscription where "ps_persist E (s\<lparr>ps_snapshots := bt_insert (snapshot_name p i) \<lparr>snap_name = snapshot_name p i, snap_topic = sub_topic sub,
      snap_subscription = sub_name sub, snap_expire_time = snapshot_expire_time E 0, snap_labels = [], snap_deliveries = []\<rparr> (ps_snapshots s),
      resource_dirty := True\<rparr>) = (Inr (), s1)"
    using assms(1) by (auto simp: create_snapshot_def Let_def checked_Inr split: option.splits dest!: commit_Inr)
  from persist_same(4)[OF this] obtain sn where sn: "map_of (ps_snapshots s1) (snapshot_name p i) = Some sn" "snap_deliveries sn = []" by (simp add: bt_get_insert)
  then have "ps_persist E' (s1\<lparr>ps_deliveries := bt_insert (subscription_name p j) (snapshot_deliveries []) (ps_deliveries s1), messages_dirty := True\<rparr>) = (Inr (), s2)"
    using assms(2) by (auto simp: seek_def Let_def checked_Inr replace_deliveries_def split: if_splits dest!: commit_Inr)
  from persist_same(6)[OF this] show ?thesis by (simp add: deliveries_of_def snapshot_deliveries_def bt_get_insert)
qed

text \<open>With two files, deleting a subscription while only the message file cannot be written fails and keeps the subscription in memory,
  but the resource file no longer has it and nothing marks that file as out of date.\<close>

lemma failed_delete_forgets_subscription:
  assumes "pc_storage_path (ps_config s) \<noteq> []" "pc_message_storage_path (ps_config s) \<noteq> []" "written (resource_fs E)" "\<not> written (message_fs E)"
    "valid_resource_id i" "valid_project_id p" "bt_ok (ps_subscriptions s)" "map_of (ps_subscriptions s) (subscription_name p i) = Some sub"
    "delete_subscription E p i s = (r, s')"
  shows "r = Inl store_unavailable \<and> map_of (ps_subscriptions s') (subscription_name p i) = Some sub \<and> \<not> resource_dirty s'
    \<and> rf_subscriptions (the (resource_file s')) = map snd (bt_remove (subscription_name p i) (ps_subscriptions s))"
  using assms by (auto simp: delete_subscription_def Let_def checked_def valid_id_def valid_project_def ensure_def commit_def ps_persist_def
    cleanup_unreferenced_messages_def resource_state_of_def bt_get_insert)

text \<open>A dead-letter policy whose number of attempts is written with a fraction of zero is accepted and then ignored.\<close>

lemma float_attempts_ignored:
  fixes t defines "policy \<equiv> Object [(''deadLetterTopic'', String t), (''maxDeliveryAttempts'', Number (Float_num 5 0))]"
  assumes "valid_full_topic_name t" "sub_dead_letter_policy sub = Some policy"
  shows "validate_dead_letter_policy (Some policy) = Inr () \<and> dead_letter_target s sub = None"
proof
  have "dead_letter_max_delivery_attempts [(''deadLetterTopic'', String t), (''maxDeliveryAttempts'', Number (Float_num 5 0))] = Some 5"
    by (simp add: dead_letter_max_delivery_attempts_def integral_f64_def saturate_i64_def)
  then show "validate_dead_letter_policy (Some policy) = Inr ()" using assms by (simp add: validate_dead_letter_policy_def policy_members_def)
qed (use assms in \<open>simp add: dead_letter_target_def\<close>)

end
