(* ===== verification/Spec2Isabelle.thy ===== *)
theory Spec2Isabelle
  imports Sqs_Api Ssm Request_Signing Auto_Scaling Pubsub_Correct
begin

text \<open>
  A verification of parts of devcloud, a local emulator of cloud services written in Rust. Each service is a
  process that keeps its state in memory, writes it to a file (temporary file, then rename) before it
  acknowledges a change, and rolls the change back when the write fails. The services share no state;
  within a service requests run one at a time under a lock, so an operation is a function from the
  server to its answer and the server after it. What the environment decides during a call, the clock
  readings and the outcome of each file-system step, is an argument (\<open>env\<close> of \<open>Contracts\<close>, \<open>ps_env\<close> for Pub/Sub). Functions keep
  the names they have in the sources; a struct is a record, with a prefix on fields that would clash.

  \<^bold>\<open>Shared theories.\<close>
  \<^item> \<open>Rust_Prelude\<close>: the parts of Rust's standard library the sources use: UTF-8 strings as byte lists,
    \<open>trim\<close>, \<open>split\<close>, integer parsing and printing, \<open>Result\<close> as a sum.
  \<^item> \<open>Ordered_Map\<close>: \<open>BTreeMap\<close> as a sorted association list, and the locale \<open>ordered_dict\<close> with the undo laws
    of roll-backs, interpreted on it.
  \<^item> \<open>Contracts\<close>: the locales \<open>durable\<close> (a store written to disk before an answer) and \<open>invariant_machine\<close>
    (a server as a machine over requests), interpreted for each service.
  \<^item> \<open>Json_Value\<close>, \<open>Json_Text\<close>: \<open>serde_json::Value\<close>, and the locales \<open>json_text\<close> and \<open>json_object_text\<close> that state
    what the services rely on of the text serde writes; a printer in \<open>Json_Text\<close> satisfies both.
  \<^item> \<open>Time_Fmt\<close>: \<open>services/sqs/src/time_fmt.rs\<close>; the locale \<open>timeline\<close> is what delivery relies on.

  \<^bold>\<open>SQS\<close> (\<open>services/sqs/src\<close>).
  \<^item> \<open>Sqs_Types\<close>, \<open>Sqs_Policy\<close>: \<open>model.rs\<close>, \<open>validation.rs\<close>, \<open>hashing.rs\<close>, \<open>errors.rs\<close>, \<open>policy.rs\<close>.
  \<^item> \<open>Sqs_Server\<close>: \<open>server.rs\<close> and \<open>persistence.rs\<close>: queues, attributes, tags, permissions, saving, loading. The
    struct \<open>Server\<close> is the record \<open>sqs_server\<close>, \<open>QueueState\<close> is \<open>queue_state\<close>.
  \<^item> \<open>Sqs_Messages\<close>: \<open>messages.rs\<close>: send, receive (scan, dead-letter redrive, long poll), delete, visibility,
    batches. \<open>Sqs_Delivery\<close> holds the specification \<open>sweep\<close> of a receive and the proof that the
    scan loop implements it; \<open>Sqs_Receipts\<close> what receipt handles do.
  \<^item> \<open>Sqs_Move_Tasks\<close>: \<open>move_tasks.rs\<close>.
  \<^item> \<open>Sqs_Api\<close>: the service as one machine over all state-changing requests, with crashes and restarts.

  \<^bold>\<open>SSM\<close> (\<open>services/ssm/src/server.rs\<close>): \<open>Ssm\<close>, the parameter store, as a machine with restarts.

  \<^bold>\<open>Application Auto Scaling\<close> (\<open>services/applicationautoscaling/src\<close>): \<open>Auto_Scaling\<close>, targets, policies, scheduled
  actions and tags, as a machine with restarts.

  \<^bold>\<open>Pub/Sub\<close> (\<open>services/pubsub/src\<close>), the operations of its REST interface.
  \<^item> \<open>Pubsub_Types\<close>: \<open>model.rs\<close>, \<open>errors.rs\<close>, \<open>paths.rs\<close>, \<open>time_fmt.rs\<close>, \<open>delivery.rs\<close>, \<open>duration.rs\<close>, \<open>validation.rs\<close>.
  \<^item> \<open>Pubsub_Server\<close>: \<open>server.rs\<close> and \<open>persistence.rs\<close>: topics, subscriptions, snapshots, schemas, clean-up, saving in one
    or two files, loading. \<open>Pubsub_Delivery\<close>: publishing, pulling with leases, ordering keys, retries and dead
    letters, acknowledging, seeking.
  \<^item> \<open>Pubsub_Pull\<close>: which messages the loop of a pull returns. \<open>Pubsub_Invariant\<close>, \<open>Pubsub_Messages\<close>: every
    operation keeps the invariant \<open>ps_ok\<close>, and a failure leaves the data \<open>intact\<close>.
  \<^item> \<open>Pubsub_Api\<close>: the service as an \<open>invariant_machine\<close>, its reachable states and runs. \<open>Pubsub_Correct\<close>: the properties.

  \<^bold>\<open>DynamoDB\<close> (\<open>services/dynamodb/src\<close>).
  \<^item> \<open>Dynamo_Number\<close>: \<open>number.rs\<close>, decimal arithmetic, against the rationals.
  \<^item> \<open>Dynamo_Types\<close>, \<open>Dynamo_Attribute\<close>: \<open>model.rs\<close>, \<open>wire_json.rs\<close>, \<open>attribute.rs\<close>: tables, attribute values, item keys,
    projections.
  \<^item> \<open>Dynamo_Expression\<close>, \<open>Dynamo_Update\<close>: \<open>expression.rs\<close>, \<open>update_expression.rs\<close>: tokenizers and evaluation.
  \<^item> \<open>Dynamo_Query\<close>: \<open>query.rs\<close>: sorting and pages.
  \<^item> \<open>Dynamo_Tables\<close>: \<open>errors.rs\<close>, \<open>requests.rs\<close>, \<open>validation.rs\<close>: requests, table validation, index updates.
  \<^item> \<open>Dynamo_Store\<close>: the \<open>Server\<close> struct, \<open>persistence.rs\<close> and the save with its cache of encoded tables; appending
    stream records.
  \<^item> \<open>Dynamo_Server\<close>, \<open>Dynamo_Items\<close>, \<open>Dynamo_Batch\<close>, \<open>Dynamo_Expiry\<close>, \<open>Dynamo_Backups\<close>: \<open>server.rs\<close>: tables; put, update,
    delete, get, query and scan; batches and transactions; time to live; backups, tags and policies.
    Each handler is proved \<open>well_handled\<close>: it keeps the invariant \<open>server_ok\<close>, and a failure changes no data.
  \<^item> \<open>Dynamo_Partiql\<close>: \<open>partiql.rs\<close>; \<open>Base64_Url\<close> and \<open>Dynamo_Streams\<close>: \<open>streams.rs\<close>, \<open>responses.rs\<close>.
  \<^item> \<open>Dynamo_Api\<close>: the dispatch of \<open>http.rs\<close> over the 39 operations, with expiry before each request and the mutex
    that a panic poisons (the state \<open>None\<close>), as an \<open>invariant_machine\<close>.
  \<^item> \<open>Request_Signing\<close>: \<open>sigv4.rs\<close>, in front of that dispatch.

  \<^bold>\<open>What is shown.\<close> For SQS: an acknowledged change survives a restart and every reachable state is well formed;
  receive implements its specification, delivers no hidden message, keeps the order of FIFO groups,
  respects \<open>maxReceiveCount\<close> and loses nothing; sends deduplicate; deletes hit exactly their message;
  failed operations undo themselves, batches and move tasks included. For SSM: put and get round trip,
  valid parameters only, secure strings are not revealed, pages list everything. For Auto Scaling:
  entries stay filed under their keys, failures change nothing, deregistering cascades exactly, except
  where a field contains the separator of keys. For DynamoDB: numbers agree with the rationals; keys
  identify items; conditions are disjunctive forms and update clauses are read as written; pages list
  every match once, in order; put, delete and get agree; transactions are atomic; expiry removes exactly
  the expired items; backups restore; streams are read in order; the cached save writes exactly the
  state; every reachable state is consistent, survives a restart, and a failed call changes nothing.
  For Pub/Sub: a publish reaches exactly the subscriptions it should and survives a restart; a pull returns what is
  due, in the order of the keys; leased messages are not returned twice and acknowledged ones never again; the
  retry backoff doubles; every reachable state is consistent, and a failed operation changes no resource, delivery
  or counter. Three lemmas show where the code falls short: snapshots made over REST are empty, a failed
  deletion is lost from the file, and a policy with a fractional number of attempts is ignored.
  For signatures: strict mode accepts what is signed with the server's secret and nothing else.
  A property with hypotheses is followed by a theorem that applies it to a sample state.

  \<^bold>\<open>Bounds.\<close> \<open>u64\<close> counters and sequence numbers are \<^typ>\<open>64 word\<close>, the \<open>u32\<close> arithmetic of base64url is \<^typ>\<open>32 word\<close>,
  bytes compared in constant time are \<^typ>\<open>8 word\<close>; \<open>i64\<close> and \<open>i128\<close> values are integers with the wrap-around
  written out (\<open>wrap_s\<close>) where a conversion truncates; the \<open>u64\<close> ids of Pub/Sub are counted modulo \<open>2 ^ 64\<close>, and its reachable
  states are those whose counters have room; \<open>u32\<close> casts in \<open>number.rs\<close> reduce modulo \<open>2 ^ 32\<close>. No
  operation needs fuel: the long poll recurses on the number of attempts left, the scan on the indices
  of the queue, and the other loops on their data. Clients that follow pages (\<open>follow_pages\<close>,
  \<open>follow_query\<close>) take the number of requests they may make, and a sufficient number is proved.

  \<^bold>\<open>Parameters.\<close> Code outside the repository is an argument: hashing, HMAC, hex, standard base64 encoding, Unicode case
  mapping, and the encoding and decoding of JSON text by serde, in the records \<open>crates\<close>, \<open>ssm_crates\<close>, \<open>as_crates\<close>,
  \<open>ddb_crates\<close>, \<open>ddb_parsers\<close>, \<open>sig_crates\<close> and \<open>ps_crates\<close>. Where a theorem needs a fact about it, the fact is a hypothesis:
  \<open>json_object_text\<close> (texts of values are determined by the values), that decoding gives back the struct that
  was encoded, or \<open>hex_text\<close>. The state files of SQS, SSM, Auto Scaling and Pub/Sub hold the persisted struct itself;
  that of DynamoDB is the text. Fields of requests that no handler reads are left out, and so are the fixed
  clocks that tests set.

  \<^bold>\<open>Not modelled.\<close> The socket servers and the Query and gRPC front ends (encoding around the operations, over
  external crates), the dashboard views and web consoles, the orchestrator, Lambda and Cloud Run (supervision
  of child processes), Redshift (an external PostgreSQL), event relay and the Redis control service (network
  clients), and, for reasons of size only, the gRPC operations of Pub/Sub, S3, GCS, BigQuery and mail.
\<close>

end
